(* ===== verification/Prelude.thy ===== *)
theory Prelude
  imports Main "HOL-Library.Word"
begin

text \<open>
  Shared vocabulary of the development: the byte and C-string types, the few libc string
  functions the components call (first and last occurrence of a character, prefix test,
  splitting a path at a separator), and the generic lemmas on lists and words that several
  components use.  A C string is the list of its characters before the terminating NUL, so
  no element of it is the NUL character; a pointer into a string is the suffix it points to.
\<close>

type_synonym byte = "8 word"
type_synonym u16 = "16 word"
type_synonym u32 = "32 word"
type_synonym u64 = "64 word"

named_theorems cstr_simps \<open>facts on C strings: searching, prefixes and splitting\<close>
named_theorems frame_simps \<open>fields that an operation leaves unchanged\<close>

section \<open>Searching in C strings\<close>

text \<open>\<open>strchr\<close>: the offset of the first occurrence, \<open>None\<close> for a NULL result.\<close>

fun strchr_pos :: "char \<Rightarrow> string \<Rightarrow> nat option" where
  "strchr_pos c [] = None"
| "strchr_pos c (x # xs) = (if x = c then Some 0 else map_option Suc (strchr_pos c xs))"

text \<open>\<open>strrchr\<close>: the offset of the last occurrence.\<close>

fun strrchr_pos :: "char \<Rightarrow> string \<Rightarrow> nat option" where
  "strrchr_pos c [] = None"
| "strrchr_pos c (x # xs) =
     (case strrchr_pos c xs of
        Some i \<Rightarrow> Some (Suc i)
      | None \<Rightarrow> if x = c then Some 0 else None)"

text \<open>\<open>strncmp (s, p, strlen (p)) == 0\<close>.\<close>

definition starts_with :: "'a list \<Rightarrow> 'a list \<Rightarrow> bool" where
  "starts_with p s \<longleftrightarrow> take (length p) s = p"

text \<open>\<open>strstr (s, p) != NULL\<close>.\<close>

fun occurs_in :: "'a list \<Rightarrow> 'a list \<Rightarrow> bool" where
  "occurs_in p [] = (p = [])"
| "occurs_in p (x # xs) = (starts_with p (x # xs) \<or> occurs_in p xs)"

text \<open>The pieces of a string between the occurrences of a separator.\<close>

fun split_on :: "'a \<Rightarrow> 'a list \<Rightarrow> 'a list list" where
  "split_on c [] = [[]]"
| "split_on c (x # xs) =
     (if x = c then [] # split_on c xs
      else (case split_on c xs of [] \<Rightarrow> [[x]] | y # ys \<Rightarrow> (x # y) # ys))"

lemma strchr_pos_None [cstr_simps]: "strchr_pos c s = None \<longleftrightarrow> c \<notin> set s"
  by (induction s) auto

lemma strchr_pos_absent [simp]: "c \<notin> set s \<Longrightarrow> strchr_pos c s = None"
  by (simp add: strchr_pos_None)

lemma strchr_pos_Some:
  "strchr_pos c s = Some i \<Longrightarrow> i < length s \<and> s ! i = c \<and> c \<notin> set (take i s)"
  by (induction s arbitrary: i) (auto split: if_splits)

lemma strchr_pos_append [cstr_simps]:
  "c \<notin> set a \<Longrightarrow> strchr_pos c (a @ c # b) = Some (length a)"
  by (induction a) auto

lemma strchr_pos_split:
  assumes "strchr_pos c s = Some i"
  shows "s = take i s @ c # drop (Suc i) s"
proof -
  from strchr_pos_Some [OF assms] have "i < length s" and "s ! i = c" by auto
  then show ?thesis by (metis id_take_nth_drop)
qed

lemma strrchr_pos_None [cstr_simps]: "strrchr_pos c s = None \<longleftrightarrow> c \<notin> set s"
  by (induction s) (auto split: option.splits)

lemma strrchr_pos_absent [simp]: "c \<notin> set s \<Longrightarrow> strrchr_pos c s = None"
  by (simp add: strrchr_pos_None)

lemma strrchr_pos_Some:
  "strrchr_pos c s = Some i \<Longrightarrow> i < length s \<and> s ! i = c \<and> c \<notin> set (drop (Suc i) s)"
proof (induction s arbitrary: i)
  case Nil
  then show ?case by simp
next
  case (Cons x xs)
  show ?case
  proof (cases "strrchr_pos c xs")
    case None
    then have "c \<notin> set xs" by (simp add: strrchr_pos_None)
    with Cons.prems None show ?thesis by (auto split: if_splits)
  next
    case (Some j)
    with Cons show ?thesis by auto
  qed
qed

lemma strrchr_pos_append [cstr_simps]:
  "c \<notin> set b \<Longrightarrow> strrchr_pos c (a @ c # b) = Some (length a)"
  by (induction a) simp_all

lemma strrchr_pos_split:
  assumes "strrchr_pos c s = Some i"
  shows "s = take i s @ c # drop (Suc i) s"
proof -
  from strrchr_pos_Some [OF assms] have "i < length s" and "s ! i = c" by auto
  then show ?thesis by (metis id_take_nth_drop)
qed

lemma starts_with_append [cstr_simps, simp]: "starts_with p (p @ s)"
  by (simp add: starts_with_def)

lemma starts_with_iff: "starts_with p s \<longleftrightarrow> (\<exists>r. s = p @ r)"
  unfolding starts_with_def by (metis append_eq_conv_conj append_take_drop_id)

lemma starts_with_length: "starts_with p s \<Longrightarrow> length p \<le> length s"
  by (auto simp: starts_with_iff)

section \<open>Splitting at a separator\<close>

lemma split_on_not_Nil [cstr_simps, simp]: "split_on c s \<noteq> []"
  by (induction s) (auto split: list.splits)

lemma split_on_nosep [cstr_simps]: "c \<notin> set s \<Longrightarrow> split_on c s = [s]"
  by (induction s) auto

lemma split_on_append [cstr_simps]:
  "split_on c (a @ c # b) = split_on c a @ split_on c b"
proof (induction a)
  case Nil
  show ?case by simp
next
  case (Cons x a)
  have "split_on c a \<noteq> []" by simp
  then obtain y ys where "split_on c a = y # ys" by (cases "split_on c a") auto
  with Cons show ?case by simp
qed

lemma split_on_pieces: "p \<in> set (split_on c s) \<Longrightarrow> c \<notin> set p"
proof (induction s arbitrary: p)
  case Nil
  then show ?case by simp
next
  case (Cons x xs)
  have "split_on c xs \<noteq> []" by simp
  then obtain y ys where "split_on c xs = y # ys" by (cases "split_on c xs") auto
  with Cons show ?case by (auto split: if_splits)
qed

lemma split_on_first:
  assumes "strchr_pos c s = Some i"
  shows "split_on c s = take i s # split_on c (drop (Suc i) s)"
proof -
  have "split_on c s = split_on c (take i s @ c # drop (Suc i) s)"
    using strchr_pos_split [OF assms] by simp
  also have "\<dots> = take i s # split_on c (drop (Suc i) s)"
    using strchr_pos_Some [OF assms] by (simp add: split_on_append split_on_nosep)
  finally show ?thesis .
qed

section \<open>Lists and words\<close>

lemma nth_list_update_cases:
  "i < length xs \<Longrightarrow> xs[j := v] ! i = (if i = j then v else xs ! i)"
  by (auto simp: nth_list_update)

lemma unat_ucast_byte_32 [simp]: "unat (ucast (b :: byte) :: u32) = unat b"
  by (simp add: unsigned_ucast_eq take_bit_nat_eq_self unsigned_less [THEN less_le_trans])

lemma unat_ucast_byte_64 [simp]: "unat (ucast (b :: byte) :: u64) = unat b"
  by (simp add: unsigned_ucast_eq take_bit_nat_eq_self unsigned_less [THEN less_le_trans])

lemma unat_byte_less [simp]: "unat (b :: byte) < 256"
  using unsigned_less [of b] by simp

unbundle bit_operations_syntax

lemma xor_cancel_right [simp]: "(a :: 'a::len word) XOR c = b XOR c \<longleftrightarrow> a = b"
proof
  assume "a XOR c = b XOR c"
  then have "(a XOR c) XOR c = (b XOR c) XOR c" by simp
  then show "a = b" by (simp add: xor.assoc)
qed simp

lemma xor_cancel_left [simp]: "(c :: 'a::len word) XOR a = c XOR b \<longleftrightarrow> a = b"
  by (simp add: xor.commute [of c])

lemma xor_eq_zero [simp]: "(a :: 'a::len word) XOR b = 0 \<longleftrightarrow> a = b"
  using xor_cancel_right [of a b b] by simp

lemma unat_of_nat_small: "n < 2 ^ LENGTH('a) \<Longrightarrow> unat (of_nat n :: 'a::len word) = n"
  by (simp add: unsigned_of_nat take_bit_nat_eq_self)

lemma sint_of_nat_small: "n < 2 ^ 31 \<Longrightarrow> sint (of_nat n :: u32) = int n"
  by (simp add: signed_of_nat signed_take_bit_int_eq_self)

lemma split_on_takeWhile:
  "split_on c s = takeWhile (\<lambda>x. x \<noteq> c) s #
     (case dropWhile (\<lambda>x. x \<noteq> c) s of [] \<Rightarrow> [] | _ # rest \<Rightarrow> split_on c rest)"
  by (induction s) (auto split: list.splits)

end
