(* ===== verification/BitRead.thy ===== *)
theory BitRead
  imports Prelude
begin

text \<open>
  The bit reader of the inflater (\<^verbatim>\<open>src/compress/bitread.c\<close>, first half): a byte buffer,
  a position, and a 64-bit accumulator holding \<open>bits\<close> not yet consumed bits.  The reader is
  related to the plain list of the bits still to be delivered, lowest bit of each byte first;
  \<open>br_bits\<close> is then ``take the next n bits'', and running out of input is the result -1 with no
  bit consumed.  The laws are stated as the locale \<open>bit_source\<close>, whose client lemmas (reading
  known prefixes and sequences of fields) are used by the inflater.
\<close>

section \<open>The reader\<close>

record br =
  br_data :: "byte list"   \<comment> \<open>\<open>data\<close> and \<open>len\<close>\<close>
  br_pos :: nat
  br_buf :: u64
  br_cnt :: nat            \<comment> \<open>the field \<open>bits\<close>\<close>

definition br_init :: "byte list \<Rightarrow> br" where
  "br_init data = \<lparr>br_data = data, br_pos = 0, br_buf = 0, br_cnt = 0\<rparr>"

text \<open>The body of the \<open>while\<close> loop of \<open>br_need\<close>.\<close>

definition br_load :: "br \<Rightarrow> br" where
  "br_load r = r\<lparr>br_buf := br_buf r OR push_bit (br_cnt r) (ucast (br_data r ! br_pos r)),
                 br_pos := br_pos r + 1, br_cnt := br_cnt r + 8\<rparr>"

function br_need :: "br \<Rightarrow> nat \<Rightarrow> int \<times> br" where
  "br_need r n =
     (if br_cnt r < n then
        (if br_pos r \<ge> length (br_data r) then (-1, r) else br_need (br_load r) n)
      else (0, r))"
  by pat_completeness auto
termination
  by (relation "measure (\<lambda>(r, n). length (br_data r) - br_pos r)") (auto simp: br_load_def)

declare br_need.simps [simp del]

definition br_peek :: "br \<Rightarrow> nat \<Rightarrow> int \<times> br" where
  "br_peek r n =
     (let (e, r') = br_need r n in
      if e \<noteq> 0 then (-1, r')
      else (sint (ucast (br_buf r' AND (push_bit n 1 - 1)) :: u32), r'))"

definition br_drop :: "br \<Rightarrow> nat \<Rightarrow> br" where
  "br_drop r n = r\<lparr>br_buf := drop_bit n (br_buf r), br_cnt := br_cnt r - n\<rparr>"

definition br_bits :: "br \<Rightarrow> nat \<Rightarrow> int \<times> br" where
  "br_bits r n = (let (v, r') = br_peek r n in if v < 0 then (-1, r') else (v, br_drop r' n))"

definition br_align :: "br \<Rightarrow> br" where
  "br_align r = (let skip = br_cnt r mod 8 in if skip > 0 then br_drop r skip else r)"

section \<open>The bits still to be delivered\<close>

definition byte_bits :: "byte \<Rightarrow> bool list" where
  "byte_bits b = map (bit b) [0..<8]"

definition bits_val :: "bool list \<Rightarrow> int" where
  "bits_val bs = horner_sum of_bool 2 bs"

definition br_stream :: "br \<Rightarrow> bool list" where
  "br_stream r = map (bit (br_buf r)) [0..<br_cnt r]
                 @ concat (map byte_bits (drop (br_pos r) (br_data r)))"

definition br_ok :: "br \<Rightarrow> bool" where
  "br_ok r \<longleftrightarrow> br_cnt r \<le> 64 \<and> take_bit (br_cnt r) (br_buf r) = br_buf r"

text \<open>The bits a reader can still deliver; it never grows, and a successful read shrinks it.\<close>

definition br_left :: "br \<Rightarrow> nat" where
  "br_left r = 8 * (length (br_data r) - br_pos r) + br_cnt r"

lemma length_byte_bits [simp]: "length (byte_bits b) = 8"
  by (simp add: byte_bits_def)

lemma length_concat_bytes [simp]: "length (concat (map byte_bits bs)) = 8 * length bs"
  by (induction bs) simp_all

lemma length_br_stream: "length (br_stream r) = br_left r"
  by (simp add: br_stream_def br_left_def)

lemma bits_val_nonneg [simp]: "0 \<le> bits_val bs"
  unfolding bits_val_def by (induction bs) simp_all

lemma bits_val_less: "bits_val bs < 2 ^ length bs"
  unfolding bits_val_def
proof (induction bs)
  case (Cons b bs)
  then show ?case by (cases b) simp_all
qed simp

lemma bit_word_uint: "bit (w :: 'a::len word) = bit (uint w)"
  by (auto simp: fun_eq_iff bit_uint_iff dest: bit_imp_le_length)

lemma bits_val_word: "bits_val (map (bit (w :: 'a::len word)) [0..<n]) = take_bit n (uint w)"
  by (simp add: bits_val_def bit_word_uint horner_sum_bit_eq_take_bit)

lemma bits_val_byte: "bits_val (byte_bits b) = uint b"
  unfolding byte_bits_def bits_val_word
  using unsigned_less [of b, where 'a = int] by (simp add: take_bit_int_eq_self)

lemma br_ok_init: "br_ok (br_init data)"
  by (simp add: br_ok_def br_init_def)

lemma br_stream_init: "br_stream (br_init data) = concat (map byte_bits data)"
  by (simp add: br_stream_def br_init_def)

section \<open>Loading a byte\<close>

lemma br_ok_bit: "br_ok r \<Longrightarrow> bit (br_buf r) i \<Longrightarrow> i < br_cnt r"
  unfolding br_ok_def by (metis bit_take_bit_iff)

lemma br_load_bit:
  assumes "br_ok r" and "br_cnt r \<le> 56"
  shows "bit (br_buf (br_load r)) i \<longleftrightarrow>
    (if i < br_cnt r then bit (br_buf r) i
     else i < br_cnt r + 8 \<and> bit (br_data r ! br_pos r) (i - br_cnt r))"
  using assms br_ok_bit [OF assms(1), of i]
  by (auto simp: br_load_def bit_simps dest: bit_imp_le_length)

lemma br_load_ok:
  assumes "br_ok r" and "br_cnt r \<le> 56"
  shows "br_ok (br_load r)"
proof -
  have "take_bit (br_cnt (br_load r)) (br_buf (br_load r)) = br_buf (br_load r)"
    by (rule bit_word_eqI) (auto simp: bit_take_bit_iff br_load_bit [OF assms], simp_all add: br_load_def)
  with assms show ?thesis by (simp add: br_ok_def br_load_def)
qed

lemma br_load_stream:
  assumes "br_ok r" and "br_cnt r \<le> 56" and "br_pos r < length (br_data r)"
  shows "br_stream (br_load r) = br_stream r"
proof -
  let ?c = "br_cnt r" and ?b = "br_data r ! br_pos r"
  have "map (bit (br_buf (br_load r))) [0..<?c + 8]
      = map (bit (br_buf (br_load r))) [0..<?c] @ map (bit (br_buf (br_load r))) [?c..<?c + 8]"
    by (metis map_append upt_add_eq_append zero_le)
  also have "map (bit (br_buf (br_load r))) [0..<?c] = map (bit (br_buf r)) [0..<?c]"
    by (simp add: br_load_bit [OF assms(1,2)])
  also have "map (bit (br_buf (br_load r))) [?c..<?c + 8] = byte_bits ?b"
    by (rule nth_equalityI) (simp_all add: byte_bits_def br_load_bit [OF assms(1,2)])
  finally show ?thesis
    using assms(3) by (simp add: br_stream_def br_load_def Cons_nth_drop_Suc [symmetric])
qed

lemma br_load_left: "br_pos r < length (br_data r) \<Longrightarrow> br_left (br_load r) = br_left r"
  by (simp add: br_left_def br_load_def)

lemma br_load_data [simp]: "br_data (br_load r) = br_data r"
  by (simp add: br_load_def)

section \<open>Need, peek, drop\<close>

lemma br_need_spec:
  assumes "br_need r n = (e, r')" and "br_ok r" and "n \<le> 57"
  shows "br_ok r' \<and> br_stream r' = br_stream r \<and> br_data r' = br_data r \<and>
         (if n \<le> length (br_stream r) then e = 0 \<and> n \<le> br_cnt r' else e = -1)"
  using assms
proof (induction r n arbitrary: e r' rule: br_need.induct)
  case (1 r n)
  show ?case
  proof (cases "br_cnt r < n \<and> br_pos r < length (br_data r)")
    case True
    with "1.prems" have c: "br_cnt r \<le> 56" by simp
    have "br_need (br_load r) n = (e, r')"
      using "1.prems"(1) True by (simp add: br_need.simps [of r n])
    from "1.IH" [OF _ _ this] True br_load_ok [OF "1.prems"(2) c] "1.prems"(3)
      br_load_stream [OF "1.prems"(2) c]
    show ?thesis by simp
  next
    case False
    with "1.prems" show ?thesis
      by (auto simp: br_need.simps [of r n] length_br_stream br_left_def split: if_splits)
  qed
qed

lemma br_need_left: "br_need r n = (e, r') \<Longrightarrow> br_left r' = br_left r \<and> (e = 0 \<longrightarrow> n \<le> br_cnt r')"
proof (induction r n arbitrary: e r' rule: br_need.induct)
  case (1 r n)
  show ?case
  proof (cases "br_cnt r < n \<and> br_pos r < length (br_data r)")
    case True
    with 1 have "br_need (br_load r) n = (e, r')" by (simp add: br_need.simps [of r n])
    from "1.IH" [OF _ _ this] True show ?thesis by (simp add: br_load_left)
  next
    case False
    with "1.prems" show ?thesis by (auto simp: br_need.simps [of r n] split: if_splits)
  qed
qed

lemma br_drop_ok: "br_ok r \<Longrightarrow> br_ok (br_drop r n)"
  unfolding br_ok_def br_drop_def
  by (auto intro!: bit_word_eqI simp: bit_simps) (metis bit_take_bit_iff add.commute less_diff_conv)

lemma br_drop_stream: "n \<le> br_cnt r \<Longrightarrow> br_stream (br_drop r n) = drop n (br_stream r)"
  by (auto simp: br_stream_def br_drop_def drop_map bit_drop_bit_eq intro!: nth_equalityI)

lemma mask_of_shift: "push_bit n (1 :: u64) - 1 = mask n"
  by (simp add: mask_eq_exp_minus_1 push_bit_eq_mult)

lemma br_peek_value:
  assumes "n \<le> 31" and "n \<le> br_cnt r"
  shows "sint (ucast (br_buf r AND (push_bit n 1 - 1)) :: u32) = bits_val (take n (br_stream r))"
proof -
  let ?w = "take_bit n (br_buf r)"
  have u: "uint ?w = take_bit n (uint (br_buf r))" by (simp add: unsigned_take_bit_eq)
  then have lt: "uint ?w < 2 ^ n" by simp
  have "(2 :: int) ^ n \<le> 2 ^ 31" using assms(1) by (intro power_increasing) auto
  with lt have l31: "uint ?w < 2 ^ 31" by simp
  then have "uint (ucast ?w :: u32) = uint ?w"
    by (simp add: unsigned_ucast_eq take_bit_int_eq_self)
  moreover have "signed_take_bit 31 (uint ?w) = uint ?w"
  proof (rule signed_take_bit_int_eq_self)
    have "- (2 ^ 31) \<le> (0 :: int)" by simp
    also have "0 \<le> uint ?w" by simp
    finally show "- (2 ^ 31) \<le> uint ?w" .
  qed (use l31 in simp)
  ultimately have "sint (ucast ?w :: u32) = uint ?w" by (simp add: sint_uint)
  moreover have "take n (br_stream r) = map (bit (br_buf r)) [0..<n]"
    using assms(2) by (simp add: br_stream_def take_map)
  ultimately show ?thesis
    by (simp only: mask_of_shift take_bit_eq_mask [symmetric] u bits_val_word)
qed

lemma br_bits_ok:
  assumes "br_ok r" and "n \<le> 31" and "n \<le> length (br_stream r)"
  shows "\<exists>r'. br_bits r n = (bits_val (take n (br_stream r)), r') \<and> br_ok r' \<and>
              br_stream r' = drop n (br_stream r) \<and> br_data r' = br_data r"
proof -
  obtain e r1 where n: "br_need r n = (e, r1)" by force
  from br_need_spec [OF n assms(1)] assms(2,3)
  have r1: "br_ok r1" "br_stream r1 = br_stream r" "br_data r1 = br_data r" "e = 0" "n \<le> br_cnt r1"
    by auto
  from br_peek_value [OF assms(2) r1(5)] r1
  have "br_peek r n = (bits_val (take n (br_stream r)), r1)"
    by (simp add: br_peek_def n)
  then have "br_bits r n = (bits_val (take n (br_stream r)), br_drop r1 n)"
    by (simp add: br_bits_def leD)
  with r1 show ?thesis by (simp add: br_drop_ok br_drop_stream, simp add: br_drop_def)
qed

lemma br_bits_short:
  assumes "br_ok r" and "n \<le> 31" and "length (br_stream r) < n"
  shows "\<exists>r'. br_bits r n = (-1, r') \<and> br_ok r' \<and> br_stream r' = br_stream r \<and> br_data r' = br_data r"
proof -
  obtain e r1 where n: "br_need r n = (e, r1)" by force
  from br_need_spec [OF n assms(1)] assms(2,3) show ?thesis
    by (simp add: br_bits_def br_peek_def n)
qed

section \<open>The reader as a source of bits\<close>

text \<open>Reading from the plain bit list: the specification of \<open>br_bits\<close>.\<close>

definition take_bits :: "nat \<Rightarrow> bool list \<Rightarrow> int \<times> bool list" where
  "take_bits n s = (if n \<le> length s then (bits_val (take n s), drop n s) else (-1, s))"

lemma br_bits_take:
  assumes "br_ok r" and "n \<le> 31"
  shows "br_ok (snd (br_bits r n)) \<and> br_data (snd (br_bits r n)) = br_data r \<and>
         (fst (br_bits r n), br_stream (snd (br_bits r n))) = take_bits n (br_stream r)"
proof (cases "n \<le> length (br_stream r)")
  case True
  from br_bits_ok [OF assms True] True show ?thesis by (auto simp: take_bits_def)
next
  case False
  with br_bits_short [OF assms] show ?thesis by (fastforce simp: take_bits_def)
qed

text \<open>The laws a client of the reader relies on.\<close>

locale bit_source =
  fixes get :: "'s \<Rightarrow> nat \<Rightarrow> int \<times> 's"
    and stream :: "'s \<Rightarrow> bool list"
    and inv :: "'s \<Rightarrow> bool"
  assumes get_inv: "inv s \<Longrightarrow> n \<le> 31 \<Longrightarrow> inv (snd (get s n))"
    and get_take: "inv s \<Longrightarrow> n \<le> 31 \<Longrightarrow>
      (fst (get s n), stream (snd (get s n))) = take_bits n (stream s)"
begin

lemma get_known:
  assumes "inv s" and "length bs \<le> 31" and "stream s = bs @ rest"
  shows "\<exists>s'. get s (length bs) = (bits_val bs, s') \<and> inv s' \<and> stream s' = rest"
  using get_take [OF assms(1,2)] get_inv [OF assms(1,2)] assms(3)
  by (intro exI [of _ "snd (get s (length bs))"]) (auto simp: take_bits_def prod_eq_iff)

lemma get_fail_iff:
  assumes "inv s" and "n \<le> 31"
  shows "fst (get s n) < 0 \<longleftrightarrow> length (stream s) < n"
  using get_take [OF assms] by (auto simp: take_bits_def not_less split: if_splits)

lemma get_bounds:
  assumes "inv s" and "n \<le> 31"
  shows "- 1 \<le> fst (get s n) \<and> fst (get s n) < 2 ^ n"
proof (cases "n \<le> length (stream s)")
  case True
  with get_take [OF assms] have "fst (get s n) = bits_val (take n (stream s))"
    by (simp add: take_bits_def)
  with True bits_val_less [of "take n (stream s)"] show ?thesis
    by (simp add: order.trans [of "-1" 0])
next
  case False
  with get_take [OF assms] have "fst (get s n) = -1" by (simp add: take_bits_def)
  then show ?thesis by (simp add: less_trans [of "-1" 0])
qed

lemma get_suffix:
  assumes "inv s" and "n \<le> 31"
  shows "\<exists>bs. stream s = bs @ stream (snd (get s n))"
  using get_take [OF assms]
  by (auto simp: take_bits_def split: if_splits intro: exI [of _ "take n (stream s)"])

end

interpretation bits: bit_source br_bits br_stream br_ok
  by unfold_locales (use br_bits_take in auto)

text \<open>A field as the writer emits it: the low \<open>n\<close> bits of a number, lowest first.\<close>

definition val_bits :: "nat \<Rightarrow> nat \<Rightarrow> bool list" where
  "val_bits n v = map (bit v) [0..<n]"

lemma length_val_bits [simp]: "length (val_bits n v) = n"
  by (simp add: val_bits_def)

lemma bits_val_val_bits: "v < 2 ^ n \<Longrightarrow> bits_val (val_bits n v) = int v"
proof -
  assume "v < 2 ^ n"
  moreover have "bit v = bit (int v)" by (simp add: fun_eq_iff bit_of_nat_iff)
  then have "bits_val (val_bits n v) = take_bit n (int v)"
    by (simp add: bits_val_def val_bits_def horner_sum_bit_eq_take_bit)
  ultimately show ?thesis by (simp add: take_bit_int_eq_self flip: of_nat_power)
qed

section \<open>Progress and alignment\<close>

lemma br_bits_left:
  assumes "br_bits r n = (v, r')"
  shows "if v < 0 then br_left r' = br_left r else n \<le> br_left r \<and> br_left r' = br_left r - n"
proof -
  obtain e r1 where n: "br_need r n = (e, r1)" by force
  from br_need_left [OF n] assms n show ?thesis
    by (auto simp: br_bits_def br_peek_def br_drop_def br_left_def split: if_splits)
qed

lemma br_bits_left_le: "br_left (snd (br_bits r n)) \<le> br_left r"
  using br_bits_left [of r n] by (cases "br_bits r n") (auto split: if_splits)

lemma br_align_ok: "br_ok r \<Longrightarrow> br_ok (br_align r)"
  by (simp add: br_align_def Let_def br_drop_ok)

lemma br_align_stream: "br_stream (br_align r) = drop (length (br_stream r) mod 8) (br_stream r)"
proof -
  have "length (br_stream r) mod 8 = br_cnt r mod 8"
    by (simp add: length_br_stream br_left_def)
  moreover have "br_cnt r mod 8 \<le> br_cnt r" by simp
  ultimately show ?thesis by (simp add: br_align_def Let_def br_drop_stream)
qed

lemma br_align_left_le: "br_left (br_align r) \<le> br_left r"
  by (simp add: br_align_def Let_def br_drop_def br_left_def)

section \<open>Properties\<close>

text \<open>
  C23: the 64-bit accumulator of the bit reader is invisible.  Reading up to 31 bits with
  \<open>br_bits\<close> behaves as taking them off the list of the remaining input bits (lowest bit of each
  byte first): the value is the one the bits denote, the rest remains, the invariant is kept,
  and exactly when too few bits are left the result is -1 and nothing is consumed.
\<close>

theorem br_bits_refines_bit_list:
  assumes "br_ok r" and "n \<le> 31"
  shows "br_ok (snd (br_bits r n)) \<and> br_data (snd (br_bits r n)) = br_data r \<and>
         (fst (br_bits r n), br_stream (snd (br_bits r n))) =
           (if n \<le> length (br_stream r) then (bits_val (take n (br_stream r)), drop n (br_stream r))
            else (-1, br_stream r))"
  using br_bits_take [OF assms] by (simp add: take_bits_def)

lemma br_bits_refines_bit_list_witness:
  "fst (br_bits (br_init [0xA5, 0x3C]) 12) = 0xCA5 \<and> fst (br_bits (br_init [0xA5]) 12) = -1"
  using br_bits_refines_bit_list [OF br_ok_init, of 12 "[0xA5, 0x3C]"]
    br_bits_refines_bit_list [OF br_ok_init, of 12 "[0xA5]"]
  by (simp add: br_stream_init byte_bits_def bits_val_def upt_rec bit_numeral_rec bit_0)

end
