(* ===== verification/Huffman.thy ===== *)
theory Huffman
  imports BitRead
begin

text \<open>
  The canonical Huffman tables of the inflater (\<^verbatim>\<open>src/compress/bitread.c\<close>, second half).
  \<open>huff_build\<close> counts the code lengths, computes the first code of each length and places the
  symbols by counting sort; \<open>huff_decode\<close> reads one bit at a time until the code falls in the
  range of its length.  The lemmas give the closed form of the three tables, show that every
  index \<open>huff_decode\<close> computes lies inside \<open>symbols\<close>, and that decoding inverts the
  canonical encoding.
\<close>

section \<open>Tables\<close>

record huff =
  first_code :: "int list"   \<comment> \<open>\<open>int first_code[16]\<close>\<close>
  first_idx :: "int list"    \<comment> \<open>\<open>int first_idx[16]\<close>\<close>
  hcount :: "int list"       \<comment> \<open>\<open>int count[16]\<close>\<close>
  hnsym :: int
  symbols :: "int list"      \<comment> \<open>\<open>int symbols[320]\<close>\<close>

text \<open>The code lengths that count: \<open>l > 0 && l <= 15\<close>.\<close>

definition len_used :: "int \<Rightarrow> bool" where
  "len_used l \<longleftrightarrow> l > 0 \<and> l \<le> 15"

definition huff_count_step :: "int list \<Rightarrow> int list \<Rightarrow> nat \<Rightarrow> int list" where
  "huff_count_step lengths cnt i =
     (let l = lengths ! i in
      if len_used l then cnt[nat l := cnt ! nat l + 1] else cnt)"

definition huff_count :: "huff \<Rightarrow> int list \<Rightarrow> nat \<Rightarrow> huff" where
  "huff_count h lengths nsym =
     h\<lparr>hcount := foldl (huff_count_step lengths) (hcount h) [0..<nsym]\<rparr>"

definition huff_codes_step :: "int list \<Rightarrow> int list \<times> int \<Rightarrow> nat \<Rightarrow> int list \<times> int" where
  "huff_codes_step cnt st b =
     (let (fc, code) = st in (fc[b := code], push_bit 1 (code + cnt ! b)))"

definition huff_codes :: "huff \<Rightarrow> huff" where
  "huff_codes h =
     h\<lparr>first_code := fst (foldl (huff_codes_step (hcount h)) (first_code h, 0) [1..<16])\<rparr>"

definition huff_first_step :: "int list \<Rightarrow> int list \<Rightarrow> nat \<Rightarrow> int list" where
  "huff_first_step cnt fi b = fi[b := fi ! (b - 1) + cnt ! (b - 1)]"

definition huff_place_step :: "int list \<Rightarrow> int list \<times> int list \<Rightarrow> nat \<Rightarrow> int list \<times> int list" where
  "huff_place_step lengths st i =
     (let (slot, syms) = st; l = lengths ! i in
      if len_used l
      then (slot[nat l := slot ! nat l + 1], syms[nat (slot ! nat l) := int i])
      else (slot, syms))"

text \<open>The local array \<open>slot\<close> starts as a copy of \<open>first_idx\<close>, with \<open>slot[0] = 0\<close>.\<close>

definition huff_place :: "huff \<Rightarrow> int list \<Rightarrow> nat \<Rightarrow> huff" where
  "huff_place h lengths nsym =
     (let fi = foldl (huff_first_step (hcount h)) ((first_idx h)[0 := 0]) [1..<16];
          (slot, syms) = foldl (huff_place_step lengths) (fi, symbols h) [0..<nsym]
      in h\<lparr>first_idx := fi, symbols := syms\<rparr>)"

definition huff_zero :: huff where
  "huff_zero = \<lparr>first_code = replicate 16 0, first_idx = replicate 16 0,
                hcount = replicate 16 0, hnsym = 0, symbols = replicate 320 0\<rparr>"

definition huff_build :: "int list \<Rightarrow> nat \<Rightarrow> huff" where
  "huff_build lengths nsym =
     huff_place (huff_codes (huff_count (huff_zero\<lparr>hnsym := int nsym\<rparr>) lengths nsym))
       lengths nsym"

text \<open>The loop of \<open>huff_decode\<close> over the lengths \<open>b = 1 \<dots> 15\<close>.\<close>

fun huff_decode_loop :: "huff \<Rightarrow> nat list \<Rightarrow> int \<Rightarrow> br \<Rightarrow> int \<times> br" where
  "huff_decode_loop h [] code r = (-1, r)"
| "huff_decode_loop h (b # bs) code r =
     (let (bt, r') = br_bits r 1 in
      if bt < 0 then (-1, r')
      else
        let code' = push_bit 1 code OR bt in
        if code' < first_code h ! b then huff_decode_loop h bs code' r'
        else if code' < first_code h ! b + hcount h ! b
             then (symbols h ! nat (first_idx h ! b + (code' - first_code h ! b)), r')
             else huff_decode_loop h bs code' r')"

definition huff_decode :: "br \<Rightarrow> huff \<Rightarrow> int \<times> br" where
  "huff_decode r h = huff_decode_loop h [1..<16] 0 r"

section \<open>Closed forms\<close>

text \<open>The symbols of one length, in increasing order, and the derived tables.\<close>

definition syms_of :: "int list \<Rightarrow> nat \<Rightarrow> nat \<Rightarrow> nat list" where
  "syms_of lengths n b = [j \<leftarrow> [0..<n]. lengths ! j = int b]"

definition num_of :: "int list \<Rightarrow> nat \<Rightarrow> nat \<Rightarrow> nat" where
  "num_of lengths n b = (if b = 0 then 0 else length (syms_of lengths n b))"

text \<open>The canonical code assignment: the first code of each length, by recursion on the length.\<close>

fun first_of :: "(nat \<Rightarrow> nat) \<Rightarrow> nat \<Rightarrow> nat" where
  "first_of num 0 = 0"
| "first_of num (Suc b) = 2 * (first_of num b + num b)"

definition start_of :: "(nat \<Rightarrow> nat) \<Rightarrow> nat \<Rightarrow> nat" where
  "start_of num b = (\<Sum>k<b. num k)"

lemma syms_of_Suc:
  "syms_of lengths (Suc n) b
   = syms_of lengths n b @ (if lengths ! n = int b then [n] else [])"
  by (simp add: syms_of_def)

lemma num_of_Suc:
  "num_of lengths (Suc n) b
   = num_of lengths n b + (if b > 0 \<and> lengths ! n = int b then 1 else 0)"
  by (simp add: num_of_def syms_of_Suc)

lemma num_of_0 [simp]: "num_of lengths n 0 = 0" "num_of lengths 0 b = 0"
  by (simp_all add: num_of_def syms_of_def)

lemma num_of_mono: "m \<le> n \<Longrightarrow> num_of lengths m b \<le> num_of lengths n b"
  by (induction n) (auto simp: num_of_Suc le_Suc_eq)

lemma len_used_nat: "len_used l \<Longrightarrow> int (nat l) = l \<and> 0 < nat l \<and> nat l < 16"
  by (auto simp: len_used_def)

lemma len_used_int: "len_used (int b) \<longleftrightarrow> 0 < b \<and> b < 16"
  by (auto simp: len_used_def)

lemma huff_count_table:
  "foldl (huff_count_step lengths) (replicate 16 0) [0..<n]
   = map (\<lambda>b. int (num_of lengths n b)) [0..<16]"
proof (induction n)
  case 0
  show ?case by (simp add: map_replicate_const)
next
  case (Suc n)
  let ?old = "map (\<lambda>b. int (num_of lengths n b)) [0..<16]"
  have eq: "foldl (huff_count_step lengths) (replicate 16 0) [0..<Suc n]
          = huff_count_step lengths ?old n"
    by (simp add: Suc)
  have "huff_count_step lengths ?old n ! i = int (num_of lengths (Suc n) i)" if "i < 16" for i
    using that len_used_nat [of "lengths ! n"] len_used_int [of i]
    by (auto simp: huff_count_step_def Let_def nth_list_update num_of_Suc)
  then show ?case
    unfolding eq by (auto intro!: nth_equalityI simp: huff_count_step_def Let_def)
qed

lemma huff_codes_table:
  assumes "length fc = 16" and "cnt = map (\<lambda>b. int (num b)) [0..<16]" and "num 0 = 0"
  shows "n \<le> 15 \<Longrightarrow>
    foldl (huff_codes_step cnt) (fc, 0) [1..<Suc n]
    = (map (\<lambda>b. if 0 < b \<and> b \<le> n then int (first_of num b) else fc ! b) [0..<16],
       int (first_of num (Suc n)))"
proof (induction n)
  case 0
  show ?case using assms by (auto intro: nth_equalityI)
next
  case (Suc n)
  have "[1..<Suc (Suc n)] = [1..<Suc n] @ [Suc n]" by simp
  with Suc show ?case
    by (auto simp: huff_codes_step_def assms(2) push_bit_eq_mult nth_list_update le_Suc_eq
        intro!: nth_equalityI)
qed

lemma huff_first_table:
  assumes "length fi = 16" and "cnt = map (\<lambda>b. int (num b)) [0..<16]" and "fi ! 0 = 0"
  shows "n \<le> 15 \<Longrightarrow>
    foldl (huff_first_step cnt) fi [1..<Suc n]
    = map (\<lambda>b. if b \<le> n then int (start_of num b) else fi ! b) [0..<16]"
proof (induction n)
  case 0
  show ?case using assms by (auto simp: start_of_def intro: nth_equalityI)
next
  case (Suc n)
  have "[1..<Suc (Suc n)] = [1..<Suc n] @ [Suc n]" by simp
  with Suc show ?case
    by (auto simp: huff_first_step_def assms(2) nth_list_update le_Suc_eq start_of_def
        intro!: nth_equalityI)
qed

lemma start_of_mono: "b \<le> c \<Longrightarrow> start_of num b \<le> start_of num c"
  by (auto simp: start_of_def intro!: sum_mono2)

lemma start_of_Suc: "start_of num (Suc b) = start_of num b + num b"
  by (simp add: start_of_def)

lemma start_of_disjoint:
  assumes "b < c"
  shows "start_of num b + num b \<le> start_of num c"
  using start_of_mono [of "Suc b" c num] assms by (simp add: start_of_Suc)

lemma start_of_total: "start_of (num_of lengths n) c \<le> n"
proof (induction n)
  case 0
  show ?case by (simp add: start_of_def)
next
  case (Suc n)
  have "start_of (num_of lengths (Suc n)) c
      = start_of (num_of lengths n) c + (\<Sum>b<c. if b > 0 \<and> lengths ! n = int b then 1 else 0)"
    by (simp add: start_of_def num_of_Suc sum.distrib)
  also have "(\<Sum>b<c. if b > 0 \<and> lengths ! n = int b then 1 else (0 :: nat))
           \<le> (\<Sum>b<c. if b = nat (lengths ! n) then 1 else 0)"
    by (intro sum_mono) auto
  also have "\<dots> \<le> 1" by simp
  finally show ?case using Suc by simp
qed

lemma start_of_bound: "b < 16 \<Longrightarrow> start_of (num_of lengths n) b + num_of lengths n b \<le> n"
  using start_of_total [of lengths n 16] start_of_disjoint [of b 16 "num_of lengths n"] by simp

text \<open>The counting sort: what the slots and the symbol array hold after \<open>i\<close> symbols.\<close>

definition place_inv :: "int list \<Rightarrow> nat \<Rightarrow> nat \<Rightarrow> int list \<times> int list \<Rightarrow> bool" where
  "place_inv lengths n i st \<longleftrightarrow>
     (let (slot, syms) = st; start = start_of (num_of lengths n) in
      length slot = 16 \<and> length syms = 320 \<and>
      (\<forall>b < 16. slot ! b = int (start b + num_of lengths i b)) \<and>
      (\<forall>b < 16. \<forall>k < num_of lengths i b. syms ! (start b + k) = int (syms_of lengths i b ! k)))"

lemma place_inv_step:
  assumes inv: "place_inv lengths n i (slot, syms)" and "i < n" and "n \<le> 320"
  shows "place_inv lengths n (Suc i) (huff_place_step lengths (slot, syms) i)"
proof (cases "len_used (lengths ! i)")
  case False
  then have "b < 16 \<Longrightarrow> num_of lengths (Suc i) b = num_of lengths i b"
    and "k < num_of lengths i b \<Longrightarrow> b < 16 \<Longrightarrow> syms_of lengths (Suc i) b = syms_of lengths i b"
    for b k
    using len_used_int [of b] by (auto simp: num_of_def syms_of_Suc)
  with inv False show ?thesis
    by (auto simp: place_inv_def huff_place_step_def Let_def)
next
  case True
  define l where "l = nat (lengths ! i)"
  let ?start = "start_of (num_of lengths n)"
  from True have l: "lengths ! i = int l" "0 < l" "l < 16"
    using len_used_nat [OF True] by (auto simp: l_def)
  have num: "num_of lengths (Suc i) b = num_of lengths i b + (if b = l then 1 else 0)" for b
    using l by (simp add: num_of_Suc)
  have below: "num_of lengths (Suc i) b \<le> num_of lengths n b" for b
    using assms(2) by (intro num_of_mono) simp
  let ?p = "?start l + num_of lengths i l"
  have p: "?p < 320"
    using start_of_bound [OF l(3), of lengths n] below [of l] num [of l] assms(3) by simp
  have slot: "slot ! l = int ?p" and sizes: "length slot = 16" "length syms = 320"
    using inv l by (auto simp: place_inv_def Let_def)
  have res: "huff_place_step lengths (slot, syms) i = (slot[l := int ?p + 1], syms[?p := int i])"
    using True slot by (simp add: huff_place_step_def l_def [symmetric] nat_int_add)
  have other: "?start b + k \<noteq> ?p" if "b \<noteq> l" "k < num_of lengths i b" "b < 16" for b k
    using that start_of_disjoint [of b l "num_of lengths n"] start_of_disjoint [of l b "num_of lengths n"]
      below [of b] below [of l] num [of b] num [of l] by (cases "b < l") auto
  have "syms[?p := int i] ! (?start b + k) = int (syms_of lengths (Suc i) b ! k)"
    if b: "b < 16" and k: "k < num_of lengths (Suc i) b" for b k
  proof (cases "b = l \<and> k = num_of lengths i l")
    case True
    with l p sizes show ?thesis by (simp add: syms_of_Suc num_of_def)
  next
    case False
    with k num [of b] have k': "k < num_of lengths i b" by (auto split: if_splits)
    then have "?start b + k \<noteq> ?p" using other [of b k] b False by (cases "b = l") auto
    moreover have "syms ! (?start b + k) = int (syms_of lengths i b ! k)"
      using inv b k' by (simp add: place_inv_def Let_def)
    moreover have "syms_of lengths (Suc i) b ! k = syms_of lengths i b ! k"
      using k' by (auto simp: syms_of_Suc num_of_def nth_append split: if_splits)
    ultimately show ?thesis by simp
  qed
  moreover have "slot[l := int ?p + 1] ! b = int (?start b + num_of lengths (Suc i) b)"
    if "b < 16" for b
    using that inv l sizes by (auto simp: nth_list_update num place_inv_def Let_def)
  ultimately show ?thesis
    using sizes by (simp add: res place_inv_def Let_def)
qed

lemma place_inv_loop:
  assumes "place_inv lengths n 0 st" and "n \<le> 320"
  shows "i \<le> n \<Longrightarrow> place_inv lengths n i (foldl (huff_place_step lengths) st [0..<i])"
proof (induction i)
  case 0
  with assms show ?case by simp
next
  case (Suc i)
  then have "place_inv lengths n i (foldl (huff_place_step lengths) st [0..<i])" by simp
  with place_inv_step [OF _ _ assms(2), of lengths i] Suc.prems show ?case
    by (cases "foldl (huff_place_step lengths) st [0..<i]") auto
qed

section \<open>The tables of \<open>huff_build\<close>\<close>

definition huff_for :: "int list \<Rightarrow> nat \<Rightarrow> huff \<Rightarrow> bool" where
  "huff_for lengths n h \<longleftrightarrow>
     (let num = num_of lengths n in
      (\<forall>b. 0 < b \<and> b < 16 \<longrightarrow>
         hcount h ! b = int (num b) \<and> first_code h ! b = int (first_of num b) \<and>
         first_idx h ! b = int (start_of num b) \<and>
         (\<forall>k < num b. symbols h ! (start_of num b + k) = int (syms_of lengths n b ! k))))"

lemma huff_build_for:
  assumes "n \<le> 320"
  shows "huff_for lengths n (huff_build lengths n)"
proof -
  let ?num = "num_of lengths n"
  define cnt where "cnt = map (\<lambda>b. int (?num b)) [0..<16]"
  define fi where "fi = foldl (huff_first_step cnt) (replicate 16 0) [1..<16]"
  define fc where "fc = fst (foldl (huff_codes_step cnt) (replicate 16 0, 0) [1..<16])"
  obtain slot syms where
    st: "foldl (huff_place_step lengths) (fi, replicate 320 0) [0..<n] = (slot, syms)" by force
  have fi: "fi = map (\<lambda>b. int (start_of ?num b)) [0..<16]"
    using huff_first_table [of "replicate 16 0" cnt ?num 15]
    by (auto simp: fi_def cnt_def intro!: nth_equalityI)
  have fc: "fc ! b = int (first_of ?num b)" if "0 < b" "b < 16" for b
    using huff_codes_table [of "replicate 16 0" cnt ?num 15] that by (simp add: fc_def cnt_def)
  have "place_inv lengths n 0 (fi, replicate 320 0)"
    by (simp add: place_inv_def fi)
  from place_inv_loop [OF this assms, of n] st
  have place: "place_inv lengths n n (slot, syms)" by simp
  have zero: "(replicate 16 (0 :: int))[0 := 0] = replicate 16 0"
    by (simp add: list_update_same_conv)
  have "huff_build lengths n
      = \<lparr>first_code = fc, first_idx = fi, hcount = cnt, hnsym = int n, symbols = syms\<rparr>"
    by (simp add: huff_build_def huff_zero_def huff_count_def huff_codes_def huff_place_def
        huff_count_table cnt_def [symmetric] zero fi_def [symmetric] fc_def [symmetric] st del: One_nat_def)
  with place fc show ?thesis
    by (simp add: huff_for_def Let_def cnt_def fi place_inv_def)
qed

section \<open>Decoding\<close>

lemma push_or_bit:
  assumes "0 \<le> c" and "bt = 0 \<or> bt = 1"
  shows "push_bit 1 c OR bt = 2 * c + (bt :: int)"
  using assms by (auto simp: push_bit_eq_mult or_one_eq)

lemma bits_val_single: "bits_val [b] = of_bool b"
  by (simp add: bits_val_def)

lemma syms_of_nth: "k < num_of lengths n b \<Longrightarrow>
   syms_of lengths n b ! k < n \<and> lengths ! (syms_of lengths n b ! k) = int b"
proof -
  assume "k < num_of lengths n b"
  then have "k < length (syms_of lengths n b)" by (simp add: num_of_def split: if_splits)
  then have "syms_of lengths n b ! k \<in> set (syms_of lengths n b)" by (rule nth_mem)
  then show ?thesis by (simp add: syms_of_def)
qed

text \<open>
  Safety: a decoded symbol is a symbol of the alphabet with a code of its own, whatever the
  lengths are (also over-subscribed or incomplete ones): the index into \<open>symbols\<close> stays
  within the part \<open>huff_place\<close> filled.
\<close>

lemma br_bits_one:
  assumes "br_bits r 1 = (bt, r')" and "\<not> bt < 0" and "br_ok r"
  shows "(bt = 0 \<or> bt = 1) \<and> br_ok r'"
  using bits.get_bounds [OF assms(3), of 1] bits.get_inv [OF assms(3), of 1] assms(1,2) by auto

lemma huff_decode_loop_symbol:
  assumes "huff_for lengths n h"
  shows "huff_decode_loop h bs code r = (v, r') \<Longrightarrow> set bs \<subseteq> {1..<16} \<Longrightarrow> 0 \<le> code \<Longrightarrow> br_ok r \<Longrightarrow>
     br_ok r' \<and> (v = -1 \<or> (\<exists>i < n. v = int i \<and> len_used (lengths ! i)))"
proof (induction bs arbitrary: code r)
  case Nil
  then show ?case by simp
next
  case (Cons b bs)
  obtain bt r1 where get: "br_bits r 1 = (bt, r1)" by force
  let ?c = "push_bit 1 code OR bt"
  let ?num = "num_of lengths n"
  from Cons.prems(2) have b: "0 < b" "b < 16" by auto
  show ?case
  proof (cases "bt < 0")
    case True
    with Cons.prems get bits.get_inv [OF Cons.prems(4), of 1] show ?thesis by auto
  next
    case False
    from br_bits_one [OF get False Cons.prems(4)]
    have bt: "bt = 0 \<or> bt = 1" and r1: "br_ok r1" by auto
    from push_or_bit [OF Cons.prems(3) bt] bt Cons.prems(3) have c: "0 \<le> ?c" by auto
    show ?thesis
    proof (cases "first_code h ! b \<le> ?c \<and> ?c < first_code h ! b + hcount h ! b")
      case True
      define k where "k = nat (?c - first_code h ! b)"
      from True assms b have k: "k < ?num b"
        by (auto simp: k_def huff_for_def Let_def)
      from True assms b have "nat (first_idx h ! b + (?c - first_code h ! b)) = start_of ?num b + k"
        by (auto simp: k_def huff_for_def Let_def)
      with Cons.prems(1) get False True have "v = symbols h ! (start_of ?num b + k)" "r' = r1"
        by (auto simp: Let_def)
      with assms b k have "v = int (syms_of lengths n b ! k)"
        by (simp add: huff_for_def Let_def)
      with syms_of_nth [OF k] b r1 \<open>r' = r1\<close> show ?thesis by (auto simp: len_used_int)
    next
      case no: False
      with Cons.prems(1) get False have "huff_decode_loop h bs ?c r1 = (v, r')"
        by (auto simp: Let_def split: if_splits)
      from Cons.IH [OF this _ c r1] Cons.prems(2) show ?thesis by simp
    qed
  qed
qed

lemma huff_decode_symbol:
  assumes "n \<le> 320" and "br_ok r" and "huff_decode r (huff_build lengths n) = (v, r')"
  shows "br_ok r' \<and> (v = -1 \<or> (\<exists>i < n. v = int i \<and> len_used (lengths ! i)))"
  using huff_decode_loop_symbol [OF huff_build_for [OF assms(1), of lengths], of "[1..<16]" 0 r v r']
    assms(2,3) by (simp add: huff_decode_def)

text \<open>
  The canonical code of a symbol: the first code of its length plus its rank among the symbols
  of that length; on the wire the most significant bit comes first.
\<close>

definition huff_code :: "int list \<Rightarrow> nat \<Rightarrow> nat \<Rightarrow> nat" where
  "huff_code lengths n i =
     (let l = nat (lengths ! i) in first_of (num_of lengths n) l + num_of lengths i l)"

definition huff_encode :: "int list \<Rightarrow> nat \<Rightarrow> nat \<Rightarrow> bool list" where
  "huff_encode lengths n i = rev (val_bits (nat (lengths ! i)) (huff_code lengths n i))"

lemma first_of_step: "b < l \<Longrightarrow> 2 ^ (l - b) * (first_of num b + num b) \<le> first_of num l"
proof (induction l)
  case 0
  then show ?case by simp
next
  case (Suc l)
  show ?case
  proof (cases "b = l")
    case True
    then show ?thesis by simp
  next
    case False
    with Suc.prems have "b < l" by simp
    then have "2 ^ (Suc l - b) * (first_of num b + num b)
             = 2 * (2 ^ (l - b) * (first_of num b + num b))"
      by (simp add: Suc_diff_le)
    also have "\<dots> \<le> 2 * (first_of num l + num l)"
      using Suc.IH [OF \<open>b < l\<close>] by simp
    finally show ?thesis by simp
  qed
qed

lemma syms_of_rank:
  assumes "i < n" and "lengths ! i = int l" and "0 < l"
  shows "num_of lengths i l < num_of lengths n l \<and> syms_of lengths n l ! num_of lengths i l = i"
  using assms(1)
proof (induction n)
  case 0
  then show ?case by simp
next
  case (Suc n)
  then show ?case using assms(2,3)
    by (cases "i = n") (auto simp: num_of_def syms_of_Suc nth_append)
qed

lemma rev_val_bits_Suc: "rev (val_bits (Suc m) c) = bit c m # rev (val_bits m c)"
  by (simp add: val_bits_def)

lemma div_pow_step: "2 * (c div 2 ^ Suc m) + of_bool (bit c m) = (c :: nat) div 2 ^ m"
proof -
  have "c div 2 ^ Suc m = c div (2 ^ m * 2)" by (simp add: mult.commute)
  also have "\<dots> = (c div 2 ^ m) div 2" by (rule div_mult2_eq)
  finally have "c div 2 ^ Suc m = (c div 2 ^ m) div 2" .
  moreover have "of_bool (bit c m) = (c div 2 ^ m) mod 2" by (simp add: bit_iff_odd mod_2_eq_odd)
  ultimately show ?thesis by simp
qed

lemma huff_decode_loop_step:
  assumes "br_bits r 1 = (bt, r1)" and "0 \<le> bt" and "push_bit 1 code OR bt = c"
  shows "huff_decode_loop h (b # bs) code r =
    (if first_code h ! b \<le> c \<and> c < first_code h ! b + hcount h ! b
     then (symbols h ! nat (first_idx h ! b + (c - first_code h ! b)), r1)
     else huff_decode_loop h bs c r1)"
  using assms by (auto simp del: push_bit_Suc)

lemma huff_decode_loop_code:
  assumes h: "huff_for lengths n h" and i: "i < n" "lengths ! i = int l" "0 < l" "l < 16"
    and C: "C = first_of (num_of lengths n) l + num_of lengths i l"
  shows "m < l \<Longrightarrow> br_ok r \<Longrightarrow> br_stream r = rev (val_bits (Suc m) C) @ rest \<Longrightarrow>
    \<exists>r'. huff_decode_loop h [l - m..<16] (int (C div 2 ^ Suc m)) r = (int i, r') \<and>
         br_ok r' \<and> br_stream r' = rest"
proof (induction m arbitrary: r)
  case 0
  let ?num = "num_of lengths n"
  have "br_stream r = [bit C 0] @ rest" using "0.prems"(3) by (simp add: val_bits_def)
  from bits.get_known [OF "0.prems"(2) _ this] obtain r' where
    get: "br_bits r 1 = (of_bool (bit C 0), r')" and r': "br_ok r'" "br_stream r' = rest"
    by (auto simp: bits_val_single)
  have code: "push_bit 1 (int (C div 2 ^ Suc 0)) OR of_bool (bit C 0) = int C"
    using div_pow_step [of C 0] by (subst push_or_bit) (auto simp flip: of_nat_mult of_nat_add)
  from syms_of_rank [OF i(1,2,3)]
  have rank: "num_of lengths i l < ?num l" "syms_of lengths n l ! num_of lengths i l = i" by auto
  have idx: "nat (first_idx h ! l + (int C - first_code h ! l)) = start_of ?num l + num_of lengths i l"
    using h i by (simp add: huff_for_def Let_def C)
  have "symbols h ! (start_of ?num l + num_of lengths i l) = int i"
    using h i rank by (simp add: huff_for_def Let_def)
  moreover have "first_code h ! l \<le> int C" "int C < first_code h ! l + hcount h ! l"
    using h i rank by (simp_all add: huff_for_def Let_def C)
  moreover have "[l - 0..<16] = l # [Suc l..<16]" using i by (simp add: upt_conv_Cons)
  ultimately show ?case using r' idx huff_decode_loop_step [OF get _ code, of h l "[Suc l..<16]"] by simp
next
  case (Suc m)
  let ?num = "num_of lengths n" and ?b = "l - Suc m"
  have "br_stream r = [bit C (Suc m)] @ rev (val_bits (Suc m) C) @ rest"
    using Suc.prems(3) by (simp add: rev_val_bits_Suc)
  from bits.get_known [OF Suc.prems(2) _ this] obtain r1 where
    get: "br_bits r 1 = (of_bool (bit C (Suc m)), r1)" and
    r1: "br_ok r1" "br_stream r1 = rev (val_bits (Suc m) C) @ rest"
    by (auto simp: bits_val_single)
  have code: "push_bit 1 (int (C div 2 ^ Suc (Suc m))) OR of_bool (bit C (Suc m))
            = int (C div 2 ^ Suc m)"
    using div_pow_step [of C "Suc m"] by (subst push_or_bit) (auto simp flip: of_nat_mult of_nat_add)
  have b: "0 < ?b" "?b < l" "l - ?b = Suc m" using Suc.prems(1) by auto
  have "2 ^ Suc m * (first_of ?num ?b + ?num ?b) \<le> C"
    using first_of_step [OF b(2), of ?num] b(3) by (simp add: C)
  then have "first_of ?num ?b + ?num ?b \<le> C div 2 ^ Suc m"
    by (simp add: less_eq_div_iff_mult_less_eq mult.commute)
  with h b i have above: "first_code h ! ?b + hcount h ! ?b \<le> int (C div 2 ^ Suc m)"
    and nonneg: "0 \<le> hcount h ! ?b"
    by (simp_all add: huff_for_def Let_def flip: of_nat_add)
  have upt: "[?b..<16] = ?b # [l - m..<16]"
    using b i by (simp add: upt_conv_Cons Suc_diff_Suc)
  have "huff_decode_loop h [?b..<16] (int (C div 2 ^ Suc (Suc m))) r
      = huff_decode_loop h [l - m..<16] (int (C div 2 ^ Suc m)) r1"
    using above nonneg huff_decode_loop_step [OF get _ code, of h ?b "[l - m..<16]"]
    unfolding upt by simp
  with Suc.IH [OF _ r1] Suc.prems(1) show ?case by simp
qed

lemma huff_decode_encode:
  assumes "n \<le> 320" and "i < n" and "len_used (lengths ! i)"
    and "huff_code lengths n i < 2 ^ nat (lengths ! i)"
    and "br_ok r" and "br_stream r = huff_encode lengths n i @ rest"
  shows "\<exists>r'. huff_decode r (huff_build lengths n) = (int i, r') \<and> br_ok r' \<and> br_stream r' = rest"
proof -
  define l where "l = nat (lengths ! i)"
  from len_used_nat [OF assms(3)] have l: "lengths ! i = int l" "0 < l" "l < 16"
    by (auto simp: l_def)
  let ?C = "first_of (num_of lengths n) l + num_of lengths i l"
  have C: "huff_code lengths n i = ?C" by (simp add: huff_code_def l_def Let_def)
  have "br_stream r = rev (val_bits (Suc (l - 1)) ?C) @ rest"
    using assms(6) l by (simp add: huff_encode_def C l_def [symmetric])
  from huff_decode_loop_code [OF huff_build_for [OF assms(1)] assms(2) l refl _ assms(5) this]
    l assms(4)
  show ?thesis by (simp add: huff_decode_def C l_def [symmetric])
qed

lemma huff_decode_loop_left:
  "huff_decode_loop h bs code r = (v, r') \<Longrightarrow> br_left r' \<le> br_left r \<and> (0 \<le> v \<longrightarrow> br_left r' < br_left r)"
proof (induction bs arbitrary: code r)
  case Nil
  then show ?case by auto
next
  case (Cons b bs)
  obtain bt r1 where get: "br_bits r 1 = (bt, r1)" by force
  from br_bits_left [OF get] have left: "if bt < 0 then br_left r1 = br_left r else br_left r1 < br_left r"
    by (auto split: if_splits)
  show ?case
  proof (cases "bt < 0 \<or> v = symbols h ! nat (first_idx h ! b + ((push_bit 1 code OR bt) - first_code h ! b)) \<and> r' = r1")
    case True
    with Cons.prems get left show ?thesis by (auto simp: Let_def split: if_splits dest: Cons.IH)
  next
    case False
    with Cons.prems get have "huff_decode_loop h bs (push_bit 1 code OR bt) r1 = (v, r')"
      by (auto simp: Let_def split: if_splits)
    from Cons.IH [OF this] left False show ?thesis by auto
  qed
qed

lemma huff_decode_left:
  "huff_decode r h = (v, r') \<Longrightarrow> br_left r' \<le> br_left r \<and> (0 \<le> v \<longrightarrow> br_left r' < br_left r)"
  unfolding huff_decode_def by (rule huff_decode_loop_left)

section \<open>Properties\<close>

text \<open>
  C22: decoding inverts canonical Huffman encoding.  For every list of code lengths and every
  symbol whose canonical code fits its length, the table that \<open>huff_build\<close> makes decodes the
  code word of the symbol to that symbol and leaves the reader right behind it.
\<close>

theorem huff_decode_inverts_encode:
  assumes "n \<le> 320" and "i < n" and "len_used (lengths ! i)"
    and "huff_code lengths n i < 2 ^ nat (lengths ! i)"
    and "br_ok r" and "br_stream r = huff_encode lengths n i @ rest"
  shows "\<exists>r'. huff_decode r (huff_build lengths n) = (int i, r') \<and> br_ok r' \<and> br_stream r' = rest"
  using assms by (rule huff_decode_encode)

lemma huff_decode_inverts_encode_witness:
  "\<exists>r'. huff_decode (br_init [1]) (huff_build [2, 1, 3, 3] 4) = (0, r') \<and> br_stream r' =
     [False, False, False, False, False, False]"
  using huff_decode_inverts_encode [OF _ _ _ _ br_ok_init, of 4 0 "[2, 1, 3, 3]" "[1]" "replicate 6 False"]
  by (simp add: huff_encode_def huff_code_def num_of_def syms_of_def len_used_def br_stream_init
      byte_bits_def val_bits_def numeral_eq_Suc bit_0 bit_Suc) blast

text \<open>
  Whatever the input and the code lengths, complete or not, \<open>huff_decode\<close> returns -1 or a
  symbol in range that has a code, so no table of the inflater is indexed out of bounds by a
  decoded symbol.
\<close>

theorem huff_decode_in_range:
  assumes "n \<le> 320" and "br_ok r" and "huff_decode r (huff_build lengths n) = (v, r')"
  shows "br_ok r' \<and> (v = -1 \<or> (\<exists>i < n. v = int i \<and> len_used (lengths ! i)))"
  using assms by (rule huff_decode_symbol)

lemma huff_decode_in_range_witness:
  "fst (huff_decode (br_init [0xFF]) (huff_build [1, 0, 3] 3)) \<in> {-1, 0, 2}"
  using huff_decode_in_range [OF _ br_ok_init, of 3 "[0xFF]" "[1, 0, 3]"]
  by (cases "huff_decode (br_init [0xFF]) (huff_build [1, 0, 3] 3)")
     (fastforce simp: len_used_def less_Suc_eq numeral_eq_Suc)

end
