(* ===== verification/Mem.thy ===== *)
theory Mem
  imports Prelude
begin

text \<open>
  The memory helpers of \<^verbatim>\<open>src/util/mem.c\<close>: the growable buffer \<open>buf_t\<close> with its 64-bit
  capacity arithmetic, string concatenation, path joining and the test for \<open>..\<close> elements.
  \<open>mem_alloc\<close> and \<open>mem_realloc\<close> never return NULL (they print and \<open>_exit\<close>), so the
  operations built on them are modelled on the paths that return, where allocation succeeded.
  The bytes of a buffer below \<open>len\<close> are a list; \<open>len\<close> is its length.
\<close>

section \<open>The growable buffer\<close>

record 'a buf =
  bcap :: u64
  bdata :: "'a list"

definition blen :: "'a buf \<Rightarrow> u64" where
  "blen b = of_nat (length (bdata b))"

definition BUF_INIT :: "'a buf" where
  "BUF_INIT = \<lparr>bcap = 0, bdata = []\<rparr>"

definition buf_new_cap :: "u64 \<Rightarrow> u64 \<Rightarrow> u64 \<Rightarrow> u64" where
  "buf_new_cap cap len need =
     (let new_cap = cap + max (max cap 64) (len + need - cap)
      in (new_cap + 63) AND NOT 63)"

definition buf_grow :: "'a buf \<Rightarrow> u64 \<Rightarrow> 'a buf" where
  "buf_grow b need =
     (if blen b + need \<le> bcap b then b
      else b\<lparr>bcap := buf_new_cap (bcap b) (blen b) need\<rparr>)"

definition buf_append :: "'a buf \<Rightarrow> 'a list \<Rightarrow> 'a buf" where
  "buf_append b data =
     (let b' = buf_grow b (of_nat (length data)) in b'\<lparr>bdata := bdata b' @ data\<rparr>)"

definition buf_append_c :: "'a buf \<Rightarrow> 'a \<Rightarrow> 'a buf" where
  "buf_append_c b c = (let b' = buf_grow b 1 in b'\<lparr>bdata := bdata b' @ [c]\<rparr>)"

definition buf_done :: "'a buf \<Rightarrow> 'a list \<times> 'a buf" where
  "buf_done b = (bdata b, BUF_INIT)"

definition buf_free :: "'a buf \<Rightarrow> 'a buf" where
  "buf_free b = BUF_INIT"

text \<open>
  The invariant: the contents fit the allocation.  \<open>buf_fits b n\<close> leaves room in 64-bit
  arithmetic for \<open>n\<close> more bytes with the doubling and rounding of \<open>buf_grow\<close>.
\<close>

definition buf_ok :: "'a buf \<Rightarrow> bool" where
  "buf_ok b \<longleftrightarrow> length (bdata b) \<le> unat (bcap b)"

definition buf_fits :: "'a buf \<Rightarrow> nat \<Rightarrow> bool" where
  "buf_fits b n \<longleftrightarrow> unat (bcap b) < 2 ^ 62 \<and> length (bdata b) + n < 2 ^ 62"

lemma bdata_grow [simp, frame_simps]: "bdata (buf_grow b n) = bdata b"
  by (simp add: buf_grow_def)

lemma bdata_append [simp]: "bdata (buf_append b d) = bdata b @ d"
  by (simp add: buf_append_def)

lemma bdata_append_c [simp]: "bdata (buf_append_c b c) = bdata b @ [c]"
  by (simp add: buf_append_c_def)

lemma bdata_init [simp]: "bdata BUF_INIT = []"
  by (simp add: BUF_INIT_def)

lemma buf_ok_init: "buf_ok BUF_INIT"
  by (simp add: buf_ok_def BUF_INIT_def)

text \<open>Rounding up to a multiple of 64, without wrap-around.\<close>

lemma round64:
  assumes "x < 2 ^ 64 - 64"
  shows "unat (((of_nat x :: u64) + 63) AND NOT 63) = (x + 63) div 64 * 64"
proof -
  have m: "(63 :: u64) = mask 6" by (simp add: mask_eq_exp_minus_1)
  have "w AND NOT (mask 6) = push_bit 6 (drop_bit 6 w)" for w :: u64
    by (rule bit_word_eqI) (auto simp: bit_simps)
  from this [of "of_nat (x + 63)"]
  have "((of_nat x :: u64) + 63) AND NOT 63 = push_bit 6 (drop_bit 6 (of_nat (x + 63)))"
    by (simp add: m [symmetric])
  moreover have "unat (push_bit 6 (drop_bit 6 (of_nat (x + 63) :: u64))) = (x + 63) div 64 * 64"
  proof -
    have lt: "x + 63 < 2 ^ 64" using assms by simp
    then have u: "unat (of_nat (x + 63) :: u64) = x + 63"
      by (simp only: unat_of_nat) (simp add: take_bit_nat_eq_self)
    have "(x + 63) div 64 * 64 < 2 ^ 64" using lt div_times_less_eq_dividend [of "x + 63" 64]
      by linarith
    then show ?thesis
      by (simp only: unsigned_push_bit_eq unsigned_drop_bit_eq u)
         (simp add: push_bit_eq_mult drop_bit_eq_div take_bit_nat_eq_self)
  qed
  ultimately show ?thesis by simp
qed

lemma unat_buf_new_cap:
  assumes "unat cap < 2 ^ 62" and "len + need < 2 ^ 62" and "unat cap < len + need"
  shows "unat (buf_new_cap cap (of_nat len) (of_nat need))
       = (unat cap + max (max (unat cap) 64) (len + need - unat cap) + 63) div 64 * 64"
proof -
  let ?c = "unat cap"
  have cap: "cap = of_nat ?c" by simp
  have sum: "(of_nat len + of_nat need :: u64) = of_nat (len + need)" by simp
  have A: "(of_nat (len + need) :: u64) - cap = of_nat (len + need - ?c)"
    using assms(3) by (subst cap) (simp add: of_nat_diff)
  have B: "max (max cap 64) (of_nat (len + need - ?c))
               = (of_nat (max (max ?c 64) (len + need - ?c)) :: u64)"
  proof -
    have m: "max (of_nat a) (of_nat b) = (of_nat (max a b) :: u64)" if "a < 2 ^ 64" "b < 2 ^ 64" for a b
      using that by (auto simp: max_def word_le_nat_alt unat_of_nat take_bit_nat_eq_self)
    have "max cap 64 = (of_nat (max ?c 64) :: u64)"
      using m [of ?c 64] assms(1) by simp
    also have "max \<dots> (of_nat (len + need - ?c)) = of_nat (max (max ?c 64) (len + need - ?c))"
      using assms by (intro m) (auto simp: max_def)
    finally show ?thesis .
  qed
  have "cap + of_nat y = of_nat (?c + y)" for y by simp
  then have "buf_new_cap cap (of_nat len) (of_nat need)
      = (of_nat (?c + max (max ?c 64) (len + need - ?c)) + 63) AND NOT 63"
    by (simp only: buf_new_cap_def Let_def sum A B)
  moreover have "?c + max (max ?c 64) (len + need - ?c) < 2 ^ 64 - 64"
    using assms by (auto simp: max_def)
  ultimately show ?thesis by (simp only: round64)
qed

lemma unat_blen: "length (bdata b) < 2 ^ 64 \<Longrightarrow> unat (blen b) = length (bdata b)"
  by (simp add: blen_def unat_of_nat take_bit_nat_eq_self)

lemma buf_grow_spec:
  assumes "buf_ok b" and "buf_fits b n"
  shows "length (bdata b) + n \<le> unat (bcap (buf_grow b (of_nat n))) \<and>
         unat (bcap b) \<le> unat (bcap (buf_grow b (of_nat n))) \<and>
         (bcap (buf_grow b (of_nat n)) = bcap b \<or>
          64 dvd unat (bcap (buf_grow b (of_nat n))))"
proof -
  let ?c = "unat (bcap b)" and ?l = "length (bdata b)"
  from assms(2) have small: "?c < 2 ^ 62" "?l + n < 2 ^ 62" by (auto simp: buf_fits_def)
  have sum: "unat (blen b + of_nat n) = ?l + n"
    using small by (simp add: blen_def unat_of_nat take_bit_nat_eq_self flip: of_nat_add)
  show ?thesis
  proof (cases "?l + n \<le> ?c")
    case True
    then show ?thesis by (simp add: buf_grow_def word_le_nat_alt sum)
  next
    case False
    let ?x = "?c + max (max ?c 64) (?l + n - ?c)"
    from False small have "unat (buf_new_cap (bcap b) (blen b) (of_nat n)) = (?x + 63) div 64 * 64"
      unfolding blen_def by (intro unat_buf_new_cap) simp_all
    moreover have "?x \<le> (?x + 63) div 64 * 64" by linarith
    moreover have "?l + n \<le> ?x" by linarith
    ultimately show ?thesis using False
      by (auto simp: buf_grow_def word_le_nat_alt sum)
  qed
qed

lemma buf_append_spec:
  assumes "buf_ok b" and "buf_fits b (length d)"
  shows "buf_ok (buf_append b d) \<and> bdata (buf_append b d) = bdata b @ d"
  using buf_grow_spec [OF assms] by (simp add: buf_ok_def buf_append_def)

lemma buf_append_c_spec:
  assumes "buf_ok b" and "buf_fits b 1"
  shows "buf_ok (buf_append_c b c) \<and> bdata (buf_append_c b c) = bdata b @ [c]"
  using buf_grow_spec [OF assms] by (simp add: buf_ok_def buf_append_c_def)

section \<open>Concatenation\<close>

text \<open>
  \<open>mem_cat (s1, n1, s2, n2, \<dots>, MEM_CAT_END)\<close>: the variadic pieces are a list; the result
  is the C string in the buffer, terminator included.
\<close>

definition NUL :: char where "NUL = CHR 0x00"

definition mem_cat :: "string list \<Rightarrow> string" where
  "mem_cat pieces = fst (buf_done (buf_append_c (foldl buf_append BUF_INIT pieces) NUL))"

lemma bdata_foldl_append: "bdata (foldl buf_append b ps) = bdata b @ concat ps"
  by (induction ps arbitrary: b) simp_all

lemma mem_cat_concat: "mem_cat pieces = concat pieces @ [NUL]"
  by (simp add: mem_cat_def buf_done_def bdata_foldl_append)

section \<open>Joining paths\<close>

text \<open>\<open>while (blen > 0 && base[blen - 1] == '/') blen--\<close>.\<close>

fun path_base_len :: "string \<Rightarrow> nat \<Rightarrow> nat" where
  "path_base_len s 0 = 0"
| "path_base_len s (Suc n) = (if s ! n = CHR ''/'' then path_base_len s n else Suc n)"

fun skip_slashes :: "string \<Rightarrow> string" where
  "skip_slashes [] = []"
| "skip_slashes (c # s) = (if c = CHR ''/'' then skip_slashes s else c # s)"

definition mem_path :: "string \<Rightarrow> string \<Rightarrow> string" where
  "mem_path base app =
     take (path_base_len base (length base)) base @ CHR ''/'' # skip_slashes app"

text \<open>
  \<open>mem_path_escapes\<close>: the loop advances from slash to slash and stops at the first element
  equal to \<open>..\<close>.
\<close>

function mem_path_escapes :: "string \<Rightarrow> bool" where
  "mem_path_escapes p =
     (let slash = strchr_pos (CHR ''/'') p;
          len = (case slash of Some i \<Rightarrow> i | None \<Rightarrow> length p) in
      if len = 2 \<and> starts_with ''..'' p then True
      else (case slash of None \<Rightarrow> False | Some i \<Rightarrow> mem_path_escapes (drop (i + 1) p)))"
  by pat_completeness auto
termination
  by (relation "measure length") (auto dest!: sym [of "Some _"] strchr_pos_Some)

declare mem_path_escapes.simps [simp del]

lemma mem_path_escapes_iff: "mem_path_escapes p \<longleftrightarrow> ''..'' \<in> set (split_on (CHR ''/'') p)"
proof (induction p rule: mem_path_escapes.induct)
  case (1 p)
  show ?case
  proof (cases "strchr_pos (CHR ''/'') p")
    case None
    then have "split_on (CHR ''/'') p = [p]" by (simp add: strchr_pos_None split_on_nosep)
    moreover have "length p = 2 \<and> starts_with ''..'' p \<longleftrightarrow> p = ''..''"
      by (auto simp: starts_with_iff)
    ultimately show ?thesis using None by (auto simp: mem_path_escapes.simps [of p])
  next
    case (Some i)
    from strchr_pos_Some [OF Some] have i: "i < length p" by simp
    have "i = 2 \<and> starts_with ''..'' p \<longleftrightarrow> take i p = ''..''"
    proof
      assume "i = 2 \<and> starts_with ''..'' p"
      then show "take i p = ''..''" by (simp add: starts_with_def numeral_2_eq_2)
    next
      assume t: "take i p = ''..''"
      then have "length (take i p) = 2" by simp
      with i have "i = 2" by simp
      with t show "i = 2 \<and> starts_with ''..'' p" by (simp add: starts_with_def numeral_2_eq_2)
    qed
    moreover have "\<not> (i = 2 \<and> starts_with ''..'' p) \<Longrightarrow>
        mem_path_escapes (drop (i + 1) p) \<longleftrightarrow> ''..'' \<in> set (split_on (CHR ''/'') (drop (i + 1) p))"
      using "1.IH" [OF refl refl, of i] Some by simp
    ultimately show ?thesis
      using split_on_first [OF Some] Some by (auto simp: mem_path_escapes.simps [of p])
  qed
qed

section \<open>Where a joined path points\<close>

text \<open>
  Lexical resolution of a path: empty and \<open>.\<close> elements stay where they are, \<open>..\<close> goes to the
  parent (staying at the top there), any other element descends.
\<close>

fun resolve_from :: "string list \<Rightarrow> string list \<Rightarrow> string list" where
  "resolve_from cur [] = cur"
| "resolve_from cur (c # cs) =
     (if c = [] \<or> c = ''.'' then resolve_from cur cs
      else if c = ''..'' then resolve_from (butlast cur) cs
      else resolve_from (cur @ [c]) cs)"

definition resolve_path :: "string \<Rightarrow> string list" where
  "resolve_path p = resolve_from [] (split_on (CHR ''/'') p)"

lemma resolve_from_append: "resolve_from cur (a @ b) = resolve_from (resolve_from cur a) b"
  by (induction a arbitrary: cur) auto

lemma resolve_from_under: "''..'' \<notin> set cs \<Longrightarrow> \<exists>r. resolve_from cur cs = cur @ r"
proof (induction cs arbitrary: cur)
  case Nil
  show ?case by simp
next
  case (Cons c cs)
  from Cons.prems have "''..'' \<notin> set cs" by simp
  note IH = Cons.IH [OF this]
  show ?case
  proof (cases "c = [] \<or> c = ''.''")
    case True
    with IH [of cur] show ?thesis by auto
  next
    case False
    with IH [of "cur @ [c]"] Cons.prems show ?thesis by auto
  qed
qed

lemma path_base_len_spec:
  "n \<le> length s \<Longrightarrow> \<exists>k. take n s = take (path_base_len s n) s @ replicate k (CHR ''/'')"
proof (induction n)
  case 0
  show ?case by simp
next
  case (Suc n)
  then obtain k where k: "take n s = take (path_base_len s n) s @ replicate k (CHR ''/'')" by auto
  show ?case
  proof (cases "s ! n = CHR ''/''")
    case True
    with Suc.prems k have "take (Suc n) s
        = take (path_base_len s n) s @ replicate k (CHR ''/'') @ [CHR ''/'']"
      by (simp add: take_Suc_conv_app_nth)
    also have "\<dots> = take (path_base_len s n) s @ replicate (Suc k) (CHR ''/'')"
      by (simp add: replicate_append_same)
    finally show ?thesis using True by (intro exI [of _ "Suc k"]) simp
  next
    case False
    then show ?thesis by (auto intro: exI [of _ 0])
  qed
qed

lemma split_on_slashes: "\<forall>c \<in> set (split_on (CHR ''/'') (replicate k (CHR ''/''))). c = []"
  by (induction k) auto

lemma resolve_from_empties: "\<forall>c \<in> set cs. c = [] \<Longrightarrow> resolve_from cur cs = cur"
  by (induction cs) auto

lemma skip_slashes_split: "\<exists>k. s = replicate k (CHR ''/'') @ skip_slashes s"
  by (induction s) (auto intro: exI [of _ 0] exI [of _ "Suc k" for k])

lemma split_on_replicate:
  "split_on c (replicate k c @ s) = replicate k [] @ split_on c s"
  by (induction k) auto

lemma split_on_append_slashes:
  "resolve_from cur (split_on (CHR ''/'') (p @ replicate k (CHR ''/'')))
   = resolve_from cur (split_on (CHR ''/'') p)"
proof (cases k)
  case (Suc j)
  then have "p @ replicate k (CHR ''/'') = p @ CHR ''/'' # replicate j (CHR ''/'')" by simp
  then show ?thesis
    by (simp add: split_on_append resolve_from_append resolve_from_empties split_on_slashes)
qed simp

lemma mem_path_resolve:
  "resolve_path (mem_path base app)
   = resolve_from (resolve_path base) (split_on (CHR ''/'') app)"
proof -
  let ?b = "take (path_base_len base (length base)) base"
  obtain k where "take (length base) base = ?b @ replicate k (CHR ''/'')"
    using path_base_len_spec [of "length base" base] by auto
  then have b: "base = ?b @ replicate k (CHR ''/'')" by simp
  have "resolve_path ?b = resolve_path base"
    unfolding resolve_path_def by (subst (2) b) (simp add: split_on_append_slashes)
  moreover obtain j where "app = replicate j (CHR ''/'') @ skip_slashes app"
    using skip_slashes_split by blast
  then have "split_on (CHR ''/'') app = replicate j [] @ split_on (CHR ''/'') (skip_slashes app)"
    by (metis split_on_replicate)
  ultimately show ?thesis
    by (simp add: resolve_path_def mem_path_def split_on_append resolve_from_append
        resolve_from_empties)
qed

lemma mem_path_under:
  assumes "\<not> mem_path_escapes app"
  shows "\<exists>r. resolve_path (mem_path base app) = resolve_path base @ r"
  using assms resolve_from_under by (simp add: mem_path_resolve mem_path_escapes_iff)

section \<open>Properties\<close>

text \<open>
  C26: a path joined with \<open>mem_path\<close> stays under its base.  If \<open>mem_path_escapes\<close> finds no
  \<open>..\<close> element in the appended part, the joined path resolves, lexically, to the base's
  directory or one below it, whatever slashes and dots the two parts contain.
\<close>

theorem mem_path_stays_under_base:
  assumes "\<not> mem_path_escapes app"
  shows "\<exists>r. resolve_path (mem_path base app) = resolve_path base @ r"
  using assms by (rule mem_path_under)

lemma mem_path_stays_under_base_witness:
  "\<exists>r. resolve_path (mem_path ''/a/b//'' ''//c/.d/..e'') = resolve_path ''/a/b//'' @ r"
  by (rule mem_path_stays_under_base) (simp add: mem_path_escapes_iff)

text \<open>
  Appending to a buffer never writes outside its allocation.  As long as capacity and new
  length stay below 2 to the 62, the 64-bit capacity computation of \<open>buf_grow\<close> does not wrap:
  after \<open>buf_append\<close> the contents are the old ones followed by the new data, they fit the
  capacity, and the capacity did not shrink.
\<close>

theorem buf_append_in_bounds:
  assumes "buf_ok b" and "buf_fits b (length d)"
  shows "bdata (buf_append b d) = bdata b @ d \<and>
         length (bdata (buf_append b d)) \<le> unat (bcap (buf_append b d)) \<and>
         unat (bcap b) \<le> unat (bcap (buf_append b d))"
  using buf_grow_spec [OF assms] by (simp add: buf_append_def)

lemma buf_append_in_bounds_witness:
  "bdata (buf_append \<lparr>bcap = 64, bdata = [1, 2 :: nat]\<rparr> (replicate 100 7)) = [1, 2] @ replicate 100 7"
  using buf_append_in_bounds [of "\<lparr>bcap = 64, bdata = [1, 2 :: nat]\<rparr>" "replicate 100 7"]
  by (simp add: buf_ok_def buf_fits_def)

end
