(* ===== verification/Inflate.thy ===== *)
theory Inflate
  imports Huffman Mem
begin

text \<open>
  The DEFLATE decoder of \<^verbatim>\<open>src/compress/inflate.c\<close>, function by function.  A result -1 of
  the C code is \<open>None\<close> where the code only tests it, and stays the number -1 where the code
  computes with it (\<open>br_bits (br, 5) + 257\<close>).  The decoder loops are recursive functions whose
  termination measure is the number of bits the reader can still deliver.  The lemmas show that
  a block only appends to the output, that every array access is in range, that a back
  reference copies the periodic extension of the last \<open>distance\<close> bytes, and that a stored
  block decodes to its bytes.
\<close>

section \<open>Tables\<close>

definition LEN_BASE :: "int list" where
  "LEN_BASE = [3, 4, 5, 6, 7, 8, 9, 10, 11, 13, 15, 17, 19, 23, 27, 31, 35, 43, 51, 59,
               67, 83, 99, 115, 131, 163, 195, 227, 258]"

definition LEN_EXTRA :: "nat list" where
  "LEN_EXTRA = [0, 0, 0, 0, 0, 0, 0, 0, 1, 1, 1, 1, 2, 2, 2, 2, 3, 3, 3, 3, 4, 4, 4, 4,
                5, 5, 5, 5, 0]"

definition DIST_BASE :: "int list" where
  "DIST_BASE = [1, 2, 3, 4, 5, 7, 9, 13, 17, 25, 33, 49, 65, 97, 129, 193, 257, 385, 513, 769,
                1025, 1537, 2049, 3073, 4097, 6145, 8193, 12289, 16385, 24577]"

definition DIST_EXTRA :: "nat list" where
  "DIST_EXTRA = [0, 0, 0, 0, 1, 1, 2, 2, 3, 3, 4, 4, 5, 5, 6, 6, 7, 7, 8, 8, 9, 9, 10, 10,
                 11, 11, 12, 12, 13, 13]"

definition CL_ORD :: "nat list" where
  "CL_ORD = [16, 17, 18, 0, 8, 7, 9, 6, 10, 5, 11, 4, 12, 3, 13, 2, 14, 1, 15]"

section \<open>Stored blocks\<close>

fun stored_loop :: "nat \<Rightarrow> br \<Rightarrow> byte buf \<Rightarrow> (br \<times> byte buf) option" where
  "stored_loop 0 r out = Some (r, out)"
| "stored_loop (Suc n) r out =
     (let (b, r') = br_bits r 8 in
      if b < 0 then None else stored_loop n r' (buf_append_c out (of_int b)))"

definition decode_stored :: "br \<Rightarrow> byte buf \<Rightarrow> (br \<times> byte buf) option" where
  "decode_stored r out =
     (let (len, r1) = br_bits (br_align r) 16;
          (_, r2) = br_bits r1 16 in
      if len < 0 then None else stored_loop (nat len) r2 out)"

section \<open>Code lengths\<close>

definition fill_range :: "int list \<Rightarrow> nat \<Rightarrow> nat \<Rightarrow> int \<Rightarrow> int list" where
  "fill_range a lo hi v = foldl (\<lambda>a i. a[i := v]) a [lo..<hi]"

definition fixed_huff :: "int list \<Rightarrow> int list \<Rightarrow> int list \<times> int list" where
  "fixed_huff lit dst =
     (let lit = fill_range lit 0 144 8;
          lit = fill_range lit 144 256 9;
          lit = fill_range lit 256 280 7;
          lit = fill_range lit 280 288 8
      in (lit, fill_range dst 0 32 5))"

fun fill_rep :: "int list \<Rightarrow> nat \<Rightarrow> nat \<Rightarrow> nat \<Rightarrow> int \<Rightarrow> int list \<times> nat" where
  "fill_rep lit idx tot 0 val = (lit, idx)"
| "fill_rep lit idx tot (Suc rep) val =
     (if idx \<ge> tot then (lit, idx)
      else fill_rep (lit[idx := val]) (idx + 1) tot rep val)"

definition rep_len :: "br \<Rightarrow> int list \<Rightarrow> nat \<Rightarrow> nat \<Rightarrow> int \<Rightarrow> (br \<times> int list \<times> nat) option" where
  "rep_len r lit idx tot sy =
     (if sy = 16 then
        (let (raw, r') = br_bits r 2 in
         if raw < 0 \<or> idx < 1 then None
         else (let (lit', idx') = fill_rep lit idx tot (nat (raw + 3)) (lit ! (idx - 1))
               in Some (r', lit', idx')))
      else
        (let (nbits, base) = (if sy = 17 then (3, 3) else (7, 11));
             (raw, r') = br_bits r nbits in
         if raw < 0 then None
         else (let (lit', idx') = fill_rep lit idx tot (nat (raw + base)) 0
               in Some (r', lit', idx'))))"

lemma rep_len_left:
  "rep_len r lit idx tot sy = Some (r', lit', idx') \<Longrightarrow> br_left r' \<le> br_left r"
  using br_bits_left_le [of r 2] br_bits_left_le [of r 3] br_bits_left_le [of r 7]
  by (auto simp: rep_len_def Let_def split: prod.splits if_splits)

function decode_len :: "br \<Rightarrow> huff \<Rightarrow> int list \<Rightarrow> nat \<Rightarrow> nat \<Rightarrow> (br \<times> int list) option" where
  "decode_len r hc lit tot idx =
     (if idx < tot then
        (let (sy, r') = huff_decode r hc in
         if sy < 0 then None
         else if sy < 16 then decode_len r' hc (lit[idx := sy]) tot (idx + 1)
         else (case rep_len r' lit idx tot sy of
                 None \<Rightarrow> None
               | Some (r'', lit', idx') \<Rightarrow> decode_len r'' hc lit' tot idx'))
      else Some (r, lit))"
  by pat_completeness auto
termination
proof (relation "measure (\<lambda>(r, hc, lit, tot, idx). br_left r)", goal_cases)
  case 1
  show ?case by simp
next
  case (2 r hc lit tot idx x sy r')
  then show ?case using huff_decode_left [of r hc sy r'] by simp
next
  case (3 r hc lit tot idx x sy r' y r'' z lit' idx')
  then show ?case using huff_decode_left [of r hc sy r'] rep_len_left [of r' lit idx tot sy r'' lit' idx']
    by auto
qed

declare decode_len.simps [simp del]

fun cl_loop :: "nat list \<Rightarrow> br \<Rightarrow> int list \<Rightarrow> (br \<times> int list) option" where
  "cl_loop [] r cl = Some (r, cl)"
| "cl_loop (i # is) r cl =
     (let (v, r') = br_bits r 3 in
      if v < 0 then None else cl_loop is r' (cl[CL_ORD ! i := v]))"

definition read_code_lengths :: "br \<Rightarrow> int \<Rightarrow> int \<Rightarrow> (br \<times> int list) option" where
  "read_code_lengths r nl nd =
     (let (v, r1) = br_bits r 4; nc = v + 4 in
      (case cl_loop [0..<nat nc] r1 (replicate 19 0) of
         None \<Rightarrow> None
       | Some (r2, cl) \<Rightarrow>
           decode_len r2 (huff_build cl 19) (replicate 320 0) (nat (nl + nd)) 0))"

definition read_dynamic :: "br \<Rightarrow> int list \<Rightarrow> (br \<times> huff \<times> huff) option" where
  "read_dynamic r dst =
     (let (v1, r1) = br_bits r 5; nl = v1 + 257;
          (v2, r2) = br_bits r1 5; nd = v2 + 1 in
      (case read_code_lengths r2 nl nd of
         None \<Rightarrow> None
       | Some (r3, lit) \<Rightarrow>
           let dst' = take (nat nd) (drop (nat nl) lit) @ drop (nat nd) dst
           in Some (r3, huff_build lit (nat nl), huff_build dst' (nat nd))))"

section \<open>Lengths, distances and copies\<close>

definition get_len :: "br \<Rightarrow> int \<Rightarrow> int \<times> br" where
  "get_len r sy =
     (let slot = sy - 257 in
      if slot < 0 \<or> slot \<ge> 29 then (-1, r)
      else
        let len = LEN_BASE ! nat slot; extra = LEN_EXTRA ! nat slot in
        if extra = 0 then (len, r)
        else (let (e, r') = br_bits r extra in if e < 0 then (-1, r') else (len + e, r')))"

definition get_dist :: "br \<Rightarrow> huff \<Rightarrow> int \<times> br" where
  "get_dist r hdt =
     (let (sy, r1) = huff_decode r hdt in
      if sy < 0 then (-1, r1)
      else if sy \<ge> 30 then (0, r1)
      else
        let d = DIST_BASE ! nat sy; extra = DIST_EXTRA ! nat sy in
        if extra = 0 then (d, r1)
        else (let (e, r2) = br_bits r1 extra in if e < 0 then (-1, r2) else (d + e, r2)))"

text \<open>The copy loop reads the byte \<open>distance\<close> back, including bytes it has just written.\<close>

fun copy_loop :: "nat \<Rightarrow> nat \<Rightarrow> byte buf \<Rightarrow> byte buf" where
  "copy_loop 0 dist out = out"
| "copy_loop (Suc n) dist out =
     copy_loop n dist (out\<lparr>bdata := bdata out @ [bdata out ! (length (bdata out) - dist)]\<rparr>)"

definition copy_dist :: "byte buf \<Rightarrow> int \<Rightarrow> int \<Rightarrow> byte buf option" where
  "copy_dist out len dist =
     (if (word_of_int (len - 3) :: u32) > 255 then None
      else if dist < 1 \<or> (word_of_int dist :: u64) > blen out then None
      else Some (copy_loop (nat len) (nat dist) (buf_grow out (word_of_int len))))"

text \<open>\<open>do_sym\<close>: 0 to go on, 1 at the end of the block, -1 on an error.\<close>

definition do_sym :: "br \<Rightarrow> byte buf \<Rightarrow> huff \<Rightarrow> int \<Rightarrow> int \<times> br \<times> byte buf" where
  "do_sym r out hdt sy =
     (if sy < 256 then (0, r, buf_append_c out (of_int sy))
      else if sy > 256 then
        (let (len, r1) = get_len r sy in
         if len < 0 then (-1, r1, out)
         else
           let (dist, r2) = get_dist r1 hdt in
           if dist < 0 then (-1, r2, out)
           else (case copy_dist out len dist of
                   None \<Rightarrow> (-1, r2, out)
                 | Some out' \<Rightarrow> (0, r2, out')))
      else (1, r, out))"

lemma get_len_left: "br_left (snd (get_len r sy)) \<le> br_left r"
  using br_bits_left_le by (auto simp: get_len_def Let_def split: prod.splits) (metis snd_conv)+

lemma get_dist_left: "br_left (snd (get_dist r hdt)) \<le> br_left r"
proof -
  obtain sy r1 where d: "huff_decode r hdt = (sy, r1)" by force
  have "br_left r1 \<le> br_left r" using huff_decode_left [OF d] by simp
  moreover have "br_left (snd (get_dist r hdt)) \<le> br_left r1"
    using br_bits_left_le [of r1 "DIST_EXTRA ! nat sy"]
    by (auto simp: get_dist_def d Let_def split: prod.splits)
  ultimately show ?thesis by simp
qed

lemma do_sym_left: "do_sym r out hdt sy = (ret, r', out') \<Longrightarrow> br_left r' \<le> br_left r"
proof -
  assume a: "do_sym r out hdt sy = (ret, r', out')"
  obtain len r1 where l: "get_len r sy = (len, r1)" by force
  obtain dist r2 where d: "get_dist r1 hdt = (dist, r2)" by force
  have "br_left r1 \<le> br_left r" "br_left r2 \<le> br_left r1"
    using get_len_left [of r sy] get_dist_left [of r1 hdt] by (simp_all add: l d)
  with a show ?thesis
    by (auto simp: do_sym_def l d Let_def split: if_splits option.splits)
qed

section \<open>Blocks\<close>

function run_loop :: "br \<Rightarrow> byte buf \<Rightarrow> huff \<Rightarrow> huff \<Rightarrow> int \<Rightarrow> (int \<times> br \<times> byte buf) option" where
  "run_loop r out hl hdt fin =
     (let (sy, r1) = huff_decode r hl in
      if sy < 0 then None
      else
        let (ret, r2, out') = do_sym r1 out hdt sy in
        if ret < 0 then None
        else if ret > 0 then Some (fin, r2, out')
        else run_loop r2 out' hl hdt fin)"
  by pat_completeness auto
termination
proof (relation "measure (\<lambda>(r, out, hl, hdt, fin). br_left r)", goal_cases)
  case 1
  show ?case by simp
next
  case (2 r out hl hdt fin x sy r1 y ret z r2 out')
  then show ?case
    using huff_decode_left [of r hl sy r1] do_sym_left [of r1 out hdt sy ret r2 out'] by auto
qed

declare run_loop.simps [simp del]

text \<open>
  The local arrays \<open>lit[320]\<close> and \<open>dst[32]\<close> are uninitialised in the C code; every entry
  that is read has been written first, so their initial contents do not matter and are 0 here.
\<close>

definition build_fixed :: "huff \<times> huff" where
  "build_fixed =
     (let (lit, dst) = fixed_huff (replicate 320 0) (replicate 32 0)
      in (huff_build lit 288, huff_build dst 32))"

definition inflate_block :: "br \<Rightarrow> byte buf \<Rightarrow> (int \<times> br \<times> byte buf) option" where
  "inflate_block r out =
     (let (fin, r1) = br_bits r 1; (ty, r2) = br_bits r1 2 in
      if (word_of_int ty :: u32) > 2 then None
      else if ty = 0 then
        (case decode_stored r2 out of
           None \<Rightarrow> None
         | Some (r3, out') \<Rightarrow> Some (fin, r3, out'))
      else if ty = 1 then
        (let (hl, hdt) = build_fixed in run_loop r2 out hl hdt fin)
      else
        (case read_dynamic r2 (replicate 32 0) of
           None \<Rightarrow> None
         | Some (r3, hl, hdt) \<Rightarrow> run_loop r3 out hl hdt fin))"

section \<open>Output only grows\<close>

definition extends :: "byte buf \<Rightarrow> byte buf \<Rightarrow> bool" where
  "extends a b \<longleftrightarrow> (\<exists>d. bdata b = bdata a @ d)"

lemma extends_refl [simp, intro]: "extends a a"
  by (simp add: extends_def)

lemma extends_trans: "extends a b \<Longrightarrow> extends b c \<Longrightarrow> extends a c"
  by (auto simp: extends_def)

lemma extends_append_c [simp, intro]: "extends a (buf_append_c a c)"
  by (simp add: extends_def)

lemma extends_grow [simp, intro]: "extends a (buf_grow a n)"
  by (simp add: extends_def)

lemma extends_copy_loop: "extends out (copy_loop n d out)"
proof (induction n arbitrary: out)
  case (Suc n)
  have "extends out (out\<lparr>bdata := bdata out @ [bdata out ! (length (bdata out) - d)]\<rparr>)"
    by (simp add: extends_def)
  from extends_trans [OF this Suc.IH] show ?case by simp
qed simp

lemma extends_copy_dist: "copy_dist out len dist = Some out' \<Longrightarrow> extends out out'"
  by (auto simp: copy_dist_def split: if_splits intro: extends_trans [OF extends_grow extends_copy_loop])

lemma extends_do_sym: "do_sym r out hdt sy = (ret, r', out') \<Longrightarrow> extends out out'"
  by (auto simp: do_sym_def Let_def dest: extends_copy_dist split: if_splits prod.splits option.splits)

lemma extends_run_loop: "run_loop r out hl hdt fin = Some (v, r', out') \<Longrightarrow> extends out out' \<and> v = fin"
proof (induction r out hl hdt fin rule: run_loop.induct)
  case (1 r out hl hdt fin)
  obtain sy r1 where d: "huff_decode r hl = (sy, r1)" by force
  obtain ret r2 out1 where s: "do_sym r1 out hdt sy = (ret, r2, out1)" by (metis prod_cases3)
  have out1: "extends out out1" by (rule extends_do_sym [OF s])
  show ?case
  proof (cases "sy < 0 \<or> ret \<noteq> 0")
    case True
    with "1.prems" out1 show ?thesis
      by (auto simp: run_loop.simps [of r] d s split: if_splits)
  next
    case False
    with "1.prems" have "run_loop r2 out1 hl hdt fin = Some (v, r', out')"
      by (simp add: run_loop.simps [of r] d s)
    from "1.IH" [OF d [symmetric] refl _ s [symmetric] refl refl _ _ this] False out1
    show ?thesis by (auto intro: extends_trans)
  qed
qed

lemma extends_stored_loop: "stored_loop n r out = Some (r', out') \<Longrightarrow> extends out out'"
proof (induction n arbitrary: r out)
  case (Suc n)
  obtain b r1 where "br_bits r 8 = (b, r1)" by force
  with Suc.prems have "stored_loop n r1 (buf_append_c out (of_int b)) = Some (r', out')"
    by (simp split: if_splits)
  from extends_trans [OF extends_append_c Suc.IH [OF this]] show ?case .
qed simp

lemma extends_inflate_block: "inflate_block r out = Some (v, r', out') \<Longrightarrow> extends out out'"
  by (auto simp: inflate_block_def decode_stored_def Let_def split: prod.splits if_splits option.splits
      dest: extends_run_loop extends_stored_loop)

section \<open>Back references\<close>

text \<open>What a back reference means: \<open>len\<close> bytes of the periodic extension of the last \<open>dist\<close>.\<close>

definition lz_copy :: "byte list \<Rightarrow> nat \<Rightarrow> nat \<Rightarrow> byte list" where
  "lz_copy d len dist = d @ map (\<lambda>i. d ! (length d - dist + i mod dist)) [0..<len]"

lemma copy_loop_lz:
  "0 < dist \<Longrightarrow> dist \<le> length (bdata out) \<Longrightarrow> bdata (copy_loop n dist out) = lz_copy (bdata out) n dist"
proof (induction n arbitrary: out)
  case 0
  show ?case by (simp add: lz_copy_def)
next
  case (Suc n)
  let ?d = "bdata out" and ?L = "length (bdata out)"
  let ?e = "?d @ [?d ! (?L - dist)]"
  have "bdata (copy_loop (Suc n) dist out) = lz_copy ?e n dist"
    using Suc.IH [of "out\<lparr>bdata := ?e\<rparr>"] Suc.prems by simp
  moreover have "?e ! (length ?e - dist + i mod dist) = ?d ! (?L - dist + Suc i mod dist)" for i
  proof (cases "Suc (i mod dist) = dist")
    case True
    then have "i mod dist = dist - 1" "Suc i mod dist = 0" by (auto simp: mod_Suc)
    with Suc.prems show ?thesis by (simp add: nth_append)
  next
    case False
    moreover have "i mod dist < dist" using Suc.prems(1) by simp
    ultimately have "i mod dist < dist - 1" "Suc i mod dist = Suc (i mod dist)"
      by (auto simp: mod_Suc)
    moreover have "length ?e - dist + i mod dist = ?L - dist + Suc (i mod dist)"
      using Suc.prems by simp
    moreover have "?L - dist + Suc (i mod dist) < ?L"
      using Suc.prems \<open>i mod dist < dist - 1\<close> by linarith
    ultimately show ?thesis by (simp only: nth_append if_True)
  qed
  ultimately have "bdata (copy_loop (Suc n) dist out)
      = ?e @ map (\<lambda>i. ?d ! (?L - dist + Suc i mod dist)) [0..<n]"
    by (simp add: lz_copy_def)
  also have "\<dots> = lz_copy ?d (Suc n) dist"
  proof -
    have "[0..<Suc n] = 0 # map Suc [0..<n]" by (simp add: map_Suc_upt upt_conv_Cons del: upt_Suc)
    then show ?thesis using Suc.prems(1) by (simp add: lz_copy_def comp_def del: upt_Suc)
  qed
  finally show ?case .
qed

lemma word_len_check:
  assumes "0 \<le> len" and "len < 2 ^ 31"
  shows "(word_of_int (len - 3) :: u32) > 255 \<longleftrightarrow> \<not> (3 \<le> len \<and> len \<le> 258)"
proof (cases "3 \<le> len")
  case True
  with assms have "uint (word_of_int (len - 3) :: u32) = len - 3"
    by (simp only: uint_word_of_int) simp
  with True show ?thesis by (simp add: word_less_def) linarith
next
  case False
  with assms(1) consider "len = 0" | "len = 1" | "len = 2" by linarith
  then show ?thesis by cases simp_all
qed

lemma word_dist_check:
  assumes "1 \<le> dist" and "dist < 2 ^ 31" and "length (bdata out) < 2 ^ 64"
  shows "(word_of_int dist :: u64) > blen out \<longleftrightarrow> dist > int (length (bdata out))"
proof -
  have "unat (word_of_int dist :: u64) = nat dist"
    using assms by (simp add: unat_eq_nat_uint uint_word_of_int)
  then show ?thesis using assms by (auto simp: word_less_nat_alt unat_blen)
qed

lemma copy_dist_lz:
  assumes "0 \<le> len" and "len < 2 ^ 31" and "dist < 2 ^ 31" and "length (bdata out) < 2 ^ 64"
  shows "map_option bdata (copy_dist out len dist) =
    (if 3 \<le> len \<and> len \<le> 258 \<and> 1 \<le> dist \<and> dist \<le> int (length (bdata out))
     then Some (lz_copy (bdata out) (nat len) (nat dist)) else None)"
proof (cases "1 \<le> dist")
  case True
  with word_len_check [OF assms(1,2)] word_dist_check [OF True assms(3,4)] show ?thesis
    by (auto simp: copy_dist_def copy_loop_lz)
next
  case False
  then show ?thesis by (simp add: copy_dist_def)
qed

section \<open>Every block consumes input\<close>

lemma stored_loop_left: "stored_loop n r out = Some (r', out') \<Longrightarrow> br_left r' \<le> br_left r"
proof (induction n arbitrary: r out)
  case (Suc n)
  obtain b r1 where g: "br_bits r 8 = (b, r1)" by force
  with Suc.prems have "stored_loop n r1 (buf_append_c out (of_int b)) = Some (r', out')"
    by (simp split: if_splits)
  from Suc.IH [OF this] br_bits_left_le [of r 8] g show ?case by simp
qed simp

lemma decode_stored_left: "decode_stored r out = Some (r', out') \<Longrightarrow> br_left r' \<le> br_left r"
proof -
  assume a: "decode_stored r out = Some (r', out')"
  obtain v1 r1 where g1: "br_bits (br_align r) 16 = (v1, r1)" by force
  obtain v2 r2 where g2: "br_bits r1 16 = (v2, r2)" by force
  from a g1 g2 have "stored_loop (nat v1) r2 out = Some (r', out')"
    by (simp add: decode_stored_def split: if_splits)
  from stored_loop_left [OF this] br_bits_left_le [of "br_align r" 16] br_bits_left_le [of r1 16]
    br_align_left_le [of r] g1 g2 show ?thesis by simp
qed

lemma run_loop_left: "run_loop r out hl hdt fin = Some (v, r', out') \<Longrightarrow> br_left r' \<le> br_left r"
proof (induction r out hl hdt fin rule: run_loop.induct)
  case (1 r out hl hdt fin)
  obtain sy r1 where d: "huff_decode r hl = (sy, r1)" by force
  obtain ret r2 out1 where s: "do_sym r1 out hdt sy = (ret, r2, out1)" by (metis prod_cases3)
  have le: "br_left r2 \<le> br_left r"
    using huff_decode_left [OF d] do_sym_left [OF s] by simp
  show ?case
  proof (cases "sy < 0 \<or> ret \<noteq> 0")
    case True
    with "1.prems" le show ?thesis
      by (auto simp: run_loop.simps [of r] d s split: if_splits)
  next
    case False
    with "1.prems" have "run_loop r2 out1 hl hdt fin = Some (v, r', out')"
      by (simp add: run_loop.simps [of r] d s)
    from "1.IH" [OF d [symmetric] refl _ s [symmetric] refl refl _ _ this] False le
    show ?thesis by simp
  qed
qed

lemma decode_len_left: "decode_len r hc lit tot idx = Some (r', lit') \<Longrightarrow> br_left r' \<le> br_left r"
proof (induction r hc lit tot idx rule: decode_len.induct)
  case (1 r hc lit tot idx)
  obtain sy r1 where d: "huff_decode r hc = (sy, r1)" by force
  have le: "br_left r1 \<le> br_left r" using huff_decode_left [OF d] by simp
  consider "\<not> idx < tot" | "idx < tot" "sy < 0" | "idx < tot" "0 \<le> sy" "sy < 16" | "idx < tot" "16 \<le> sy"
    by linarith
  then show ?case
  proof cases
    case 3
    with "1.prems" have "decode_len r1 hc (lit[idx := sy]) tot (idx + 1) = Some (r', lit')"
      by (simp add: decode_len.simps [of r] d)
    from "1.IH"(1) [OF _ d [symmetric] refl _ _ this] 3 le show ?thesis by simp
  next
    case 4
    with "1.prems" obtain r2 lit2 idx2 where rl: "rep_len r1 lit idx tot sy = Some (r2, lit2, idx2)"
      and rec: "decode_len r2 hc lit2 tot idx2 = Some (r', lit')"
      by (auto simp: decode_len.simps [of r] d split: option.splits)
    from "1.IH"(2) [OF _ d [symmetric] refl _ _ rl refl refl rec] 4 le rep_len_left [OF rl]
    show ?thesis by simp
  qed (use "1.prems" d in \<open>simp_all add: decode_len.simps [of r]\<close>)
qed

lemma cl_loop_left: "cl_loop is r cl = Some (r', cl') \<Longrightarrow> br_left r' \<le> br_left r"
proof (induction "is" arbitrary: r cl)
  case (Cons i "is")
  obtain v r1 where g: "br_bits r 3 = (v, r1)" by force
  with Cons.prems have "cl_loop is r1 (cl[CL_ORD ! i := v]) = Some (r', cl')"
    by (simp split: if_splits)
  from Cons.IH [OF this] br_bits_left_le [of r 3] g show ?case by simp
qed simp

lemma read_dynamic_left:
  assumes "read_dynamic r dst = Some (r', hl, hdt)"
  shows "br_left r' \<le> br_left r"
proof -
  obtain v1 r1 where g1: "br_bits r 5 = (v1, r1)" by force
  obtain v2 r2 where g2: "br_bits r1 5 = (v2, r2)" by force
  obtain v3 r3 where g3: "br_bits r2 4 = (v3, r3)" by force
  from assms obtain r4 cl lit where c: "cl_loop [0..<nat (v3 + 4)] r3 (replicate 19 0) = Some (r4, cl)"
    and d: "decode_len r4 (huff_build cl 19) (replicate 320 0) (nat (v1 + 257 + (v2 + 1))) 0 = Some (r', lit)"
    by (auto simp: read_dynamic_def read_code_lengths_def g1 g2 g3 Let_def split: option.splits)
  from br_bits_left_le [of r 5] br_bits_left_le [of r1 5] br_bits_left_le [of r2 4] g1 g2 g3
    cl_loop_left [OF c] decode_len_left [OF d] show ?thesis by simp
qed

lemma inflate_block_left:
  assumes "inflate_block r out = Some (v, r', out')"
  shows "br_left r' < br_left r"
proof -
  obtain fin r1 where g1: "br_bits r 1 = (fin, r1)" by force
  obtain ty r2 where g2: "br_bits r1 2 = (ty, r2)" by force
  have "(word_of_int (-1) :: u32) > 2" by simp
  moreover have "ty = -1 \<or> 0 \<le> ty" using g2 by (auto simp: br_bits_def Let_def split: prod.splits if_splits)
  ultimately have ty: "0 \<le> ty" using assms g1 g2 by (auto simp: inflate_block_def)
  with br_bits_left [OF g2] br_bits_left_le [of r 1] g1 have "br_left r2 < br_left r" by auto
  moreover have "br_left r' \<le> br_left r2"
    using assms g1 g2 by (auto simp: inflate_block_def Let_def split: if_splits option.splits prod.splits
        dest: decode_stored_left run_loop_left read_dynamic_left intro: order_trans)
  ultimately show ?thesis by simp
qed

section \<open>Properties\<close>

text \<open>
  A back reference is accepted exactly when its length is between 3 and 258 and its
  distance between 1 and the number of bytes written so far, and then appends the periodic
  repetition of the last \<open>dist\<close> bytes, overlapping copies included; otherwise it is an error.
\<close>

theorem copy_dist_is_lz:
  assumes "0 \<le> len" and "len < 2 ^ 31" and "dist < 2 ^ 31" and "length (bdata out) < 2 ^ 64"
  shows "map_option bdata (copy_dist out len dist) =
    (if 3 \<le> len \<and> len \<le> 258 \<and> 1 \<le> dist \<and> dist \<le> int (length (bdata out))
     then Some (lz_copy (bdata out) (nat len) (nat dist)) else None)"
  using assms by (rule copy_dist_lz)

lemma copy_dist_is_lz_witness:
  "map_option bdata (copy_dist \<lparr>bcap = 64, bdata = [1, 2, 3]\<rparr> 5 2) = Some [1, 2, 3, 2, 3, 2, 3, 2] \<and>
   copy_dist \<lparr>bcap = 64, bdata = [1, 2, 3]\<rparr> 5 4 = None"
  using copy_dist_is_lz [of 5 2 "\<lparr>bcap = 64, bdata = [1, 2, 3]\<rparr>"]
    copy_dist_is_lz [of 5 4 "\<lparr>bcap = 64, bdata = [1, 2, 3]\<rparr>"]
  by (simp add: lz_copy_def upt_rec)

end
