(* ===== verification/InflateSpec.thy ===== *)
theory InflateSpec
  imports Inflate
begin

text \<open>
  What the inflater decodes.  A compressed block is specified by its tokens (literals and back
  references given by code slot and extra bits) and a stored block by its bytes; the lemmas show
  that \<open>inflate_block\<close> on the encoding of a block appends exactly the bytes the block stands
  for and leaves the reader behind it, for every output already written and every input that
  follows.
\<close>

section \<open>Bounds of the constant tables\<close>

lemma length_tables [simp]:
  "length LEN_BASE = 29" "length LEN_EXTRA = 29" "length DIST_BASE = 30" "length DIST_EXTRA = 30"
  "length CL_ORD = 19"
  by (simp_all add: LEN_BASE_def LEN_EXTRA_def DIST_BASE_def DIST_EXTRA_def CL_ORD_def)

lemma len_table_all: "list_all2 (\<lambda>b x. x \<le> 5 \<and> 3 \<le> b \<and> b + 2 ^ x \<le> 259) LEN_BASE LEN_EXTRA"
  by (simp add: LEN_BASE_def LEN_EXTRA_def)

lemma dist_table_all: "list_all2 (\<lambda>b x. x \<le> 13 \<and> 1 \<le> b \<and> b + 2 ^ x \<le> 32769) DIST_BASE DIST_EXTRA"
  by (simp add: DIST_BASE_def DIST_EXTRA_def)

lemma len_table:
  assumes "s < 29"
  shows "LEN_EXTRA ! s \<le> 5 \<and> 3 \<le> LEN_BASE ! s \<and> LEN_BASE ! s + 2 ^ (LEN_EXTRA ! s) \<le> 259"
  using list_all2_nthD [OF len_table_all, of s] assms by simp

lemma dist_table:
  assumes "s < 30"
  shows "DIST_EXTRA ! s \<le> 13 \<and> 1 \<le> DIST_BASE ! s \<and> DIST_BASE ! s + 2 ^ (DIST_EXTRA ! s) \<le> 32769"
  using list_all2_nthD [OF dist_table_all, of s] assms by simp

section \<open>Tokens\<close>

datatype tok =
    Lit byte
  | Ref nat nat nat nat   \<comment> \<open>length slot and extra bits, distance slot and extra bits\<close>

record tables =
  lit_lens :: "int list"
  lit_n :: nat
  dist_lens :: "int list"
  dist_n :: nat

definition has_code :: "int list \<Rightarrow> nat \<Rightarrow> nat \<Rightarrow> bool" where
  "has_code lengths n i \<longleftrightarrow>
     i < n \<and> len_used (lengths ! i) \<and> huff_code lengths n i < 2 ^ nat (lengths ! i)"

definition ref_len :: "nat \<Rightarrow> nat \<Rightarrow> nat" where
  "ref_len ls le = nat (LEN_BASE ! ls) + le"

definition ref_dist :: "nat \<Rightarrow> nat \<Rightarrow> nat" where
  "ref_dist ds de = nat (DIST_BASE ! ds) + de"

fun tok_ok :: "tables \<Rightarrow> nat \<Rightarrow> tok \<Rightarrow> bool" where
  "tok_ok t n (Lit b) = has_code (lit_lens t) (lit_n t) (unat b)"
| "tok_ok t n (Ref ls le ds de) =
     (ls < 29 \<and> le < 2 ^ (LEN_EXTRA ! ls) \<and> has_code (lit_lens t) (lit_n t) (257 + ls) \<and>
      ds < 30 \<and> de < 2 ^ (DIST_EXTRA ! ds) \<and> has_code (dist_lens t) (dist_n t) ds \<and>
      ref_dist ds de \<le> n)"

fun tok_bits :: "tables \<Rightarrow> tok \<Rightarrow> bool list" where
  "tok_bits t (Lit b) = huff_encode (lit_lens t) (lit_n t) (unat b)"
| "tok_bits t (Ref ls le ds de) =
     huff_encode (lit_lens t) (lit_n t) (257 + ls) @ val_bits (LEN_EXTRA ! ls) le @
     huff_encode (dist_lens t) (dist_n t) ds @ val_bits (DIST_EXTRA ! ds) de"

fun tok_step :: "byte list \<Rightarrow> tok \<Rightarrow> byte list" where
  "tok_step d (Lit b) = d @ [b]"
| "tok_step d (Ref ls le ds de) = lz_copy d (ref_len ls le) (ref_dist ds de)"

definition expand :: "byte list \<Rightarrow> tok list \<Rightarrow> byte list" where
  "expand d ts = foldl tok_step d ts"

fun toks_ok :: "tables \<Rightarrow> byte list \<Rightarrow> tok list \<Rightarrow> bool" where
  "toks_ok t d [] = True"
| "toks_ok t d (x # xs) = (tok_ok t (length d) x \<and> toks_ok t (tok_step d x) xs)"

definition end_of_block :: "tables \<Rightarrow> bool list" where
  "end_of_block t = huff_encode (lit_lens t) (lit_n t) 256"

definition tables_ok :: "tables \<Rightarrow> bool" where
  "tables_ok t \<longleftrightarrow> lit_n t \<le> 320 \<and> dist_n t \<le> 320 \<and> has_code (lit_lens t) (lit_n t) 256"

lemma length_lz_copy [simp]: "length (lz_copy d n k) = length d + n"
  by (simp add: lz_copy_def)

lemma tok_step_grows: "length d \<le> length (tok_step d x)"
  by (cases x) simp_all

lemma expand_grows: "length d \<le> length (expand d ts)"
  unfolding expand_def
  by (induction ts arbitrary: d) (auto intro: order_trans [OF tok_step_grows])

section \<open>Reading one token\<close>

lemma huff_decode_has_code:
  assumes "n \<le> 320" and "has_code lengths n i" and "br_ok r" and "br_stream r = huff_encode lengths n i @ rest"
  shows "\<exists>r'. huff_decode r (huff_build lengths n) = (int i, r') \<and> br_ok r' \<and> br_stream r' = rest"
  using huff_decode_encode [OF assms(1) _ _ _ assms(3,4)] assms(2) by (simp add: has_code_def)

lemma get_len_slot:
  assumes "ls < 29" and "le < 2 ^ (LEN_EXTRA ! ls)" and "br_ok r"
    and "br_stream r = val_bits (LEN_EXTRA ! ls) le @ rest"
  shows "\<exists>r'. get_len r (int (257 + ls)) = (int (ref_len ls le), r') \<and> br_ok r' \<and> br_stream r' = rest"
proof (cases "LEN_EXTRA ! ls = 0")
  case True
  with assms len_table [OF assms(1)] show ?thesis
    by (simp add: get_len_def ref_len_def val_bits_def)
next
  case False
  have x: "length (val_bits (LEN_EXTRA ! ls) le) \<le> 31" using len_table [OF assms(1)] by simp
  from bits.get_known [OF assms(3) x assms(4)] bits_val_val_bits [OF assms(2)]
  obtain r' where "br_bits r (LEN_EXTRA ! ls) = (int le, r')" "br_ok r'" "br_stream r' = rest"
    by auto
  with False assms(1) len_table [OF assms(1)] show ?thesis
    by (simp add: get_len_def ref_len_def)
qed

lemma get_dist_slot:
  assumes "n \<le> 320" and "has_code dl n ds" and "ds < 30" and "de < 2 ^ (DIST_EXTRA ! ds)" and "br_ok r"
    and "br_stream r = huff_encode dl n ds @ val_bits (DIST_EXTRA ! ds) de @ rest"
  shows "\<exists>r'. get_dist r (huff_build dl n) = (int (ref_dist ds de), r') \<and> br_ok r' \<and> br_stream r' = rest"
proof -
  from huff_decode_has_code [OF assms(1,2,5,6)] obtain r1 where
    d: "huff_decode r (huff_build dl n) = (int ds, r1)" and
    r1: "br_ok r1" "br_stream r1 = val_bits (DIST_EXTRA ! ds) de @ rest" by auto
  show ?thesis
  proof (cases "DIST_EXTRA ! ds = 0")
    case True
    with assms d r1 dist_table [OF assms(3)] show ?thesis
      by (simp add: get_dist_def ref_dist_def val_bits_def)
  next
    case False
    have x: "length (val_bits (DIST_EXTRA ! ds) de) \<le> 31" using dist_table [OF assms(3)] by simp
    from bits.get_known [OF r1(1) x r1(2)] bits_val_val_bits [OF assms(4)]
    obtain r' where "br_bits r1 (DIST_EXTRA ! ds) = (int de, r')" "br_ok r'" "br_stream r' = rest"
      by auto
    with False d assms(3) dist_table [OF assms(3)] show ?thesis
      by (simp add: get_dist_def ref_dist_def)
  qed
qed

lemma int_less_pow: "(n :: nat) < 2 ^ k \<Longrightarrow> int n < 2 ^ k"
  by (metis of_nat_less_iff of_nat_numeral of_nat_power)

lemma ref_len_bounds:
  assumes "ls < 29" and "le < 2 ^ (LEN_EXTRA ! ls)"
  shows "3 \<le> ref_len ls le \<and> ref_len ls le \<le> 258"
  using len_table [OF assms(1)] int_less_pow [OF assms(2)] unfolding ref_len_def by linarith

lemma ref_dist_bounds:
  assumes "ds < 30" and "de < 2 ^ (DIST_EXTRA ! ds)"
  shows "1 \<le> ref_dist ds de \<and> ref_dist ds de \<le> 32768"
  using dist_table [OF assms(1)] int_less_pow [OF assms(2)] unfolding ref_dist_def by linarith

section \<open>Reading a sequence of tokens\<close>

lemma do_sym_lit: "do_sym r out hdt (uint b) = (0, r, buf_append_c out b)"
  using unsigned_less [of b, where 'a = int] by (simp add: do_sym_def)

lemma do_sym_ref:
  assumes "ls < 29" and "le < 2 ^ (LEN_EXTRA ! ls)" and "ds < 30" and "de < 2 ^ (DIST_EXTRA ! ds)"
    and "n \<le> 320" and "has_code dl n ds" and "br_ok r"
    and "br_stream r = val_bits (LEN_EXTRA ! ls) le @ huff_encode dl n ds @ val_bits (DIST_EXTRA ! ds) de @ rest"
    and "ref_dist ds de \<le> length (bdata out)" and "length (bdata out) < 2 ^ 64"
  shows "\<exists>r' out'. do_sym r out (huff_build dl n) (int (257 + ls)) = (0, r', out') \<and>
    bdata out' = lz_copy (bdata out) (ref_len ls le) (ref_dist ds de) \<and> br_ok r' \<and> br_stream r' = rest"
proof -
  from get_len_slot [OF assms(1,2,7,8)] obtain r1 where
    l: "get_len r (int (257 + ls)) = (int (ref_len ls le), r1)" and
    r1: "br_ok r1" "br_stream r1 = huff_encode dl n ds @ val_bits (DIST_EXTRA ! ds) de @ rest" by auto
  from get_dist_slot [OF assms(5,6,3,4) r1] obtain r2 where
    d: "get_dist r1 (huff_build dl n) = (int (ref_dist ds de), r2)" and
    r2: "br_ok r2" "br_stream r2 = rest" by auto
  note lb = ref_len_bounds [OF assms(1,2)] and db = ref_dist_bounds [OF assms(3,4)]
  have "map_option bdata (copy_dist out (int (ref_len ls le)) (int (ref_dist ds de)))
      = Some (lz_copy (bdata out) (ref_len ls le) (ref_dist ds de))"
    using lb db assms(9,10) by (subst copy_dist_lz) auto
  then obtain out' where c: "copy_dist out (int (ref_len ls le)) (int (ref_dist ds de)) = Some out'"
    and out': "bdata out' = lz_copy (bdata out) (ref_len ls le) (ref_dist ds de)" by auto
  have "do_sym r out (huff_build dl n) (int (257 + ls)) = (0, r2, out')"
    using l d c unfolding do_sym_def by simp
  with out' r2 show ?thesis by blast
qed

lemma run_loop_step:
  assumes "huff_decode r hl = (sy, r1)" and "0 \<le> sy" and "do_sym r1 out hdt sy = (0, r2, out')"
  shows "run_loop r out hl hdt fin = run_loop r2 out' hl hdt fin"
  using assms by (simp add: run_loop.simps [of r])

lemma run_loop_tokens:
  assumes "tables_ok t"
  shows "toks_ok t (bdata out) ts \<Longrightarrow> length (expand (bdata out) ts) < 2 ^ 64 \<Longrightarrow> br_ok r \<Longrightarrow>
    br_stream r = concat (map (tok_bits t) ts) @ end_of_block t @ rest \<Longrightarrow>
    \<exists>r' out'. run_loop r out (huff_build (lit_lens t) (lit_n t)) (huff_build (dist_lens t) (dist_n t)) fin
        = Some (fin, r', out') \<and>
      bdata out' = expand (bdata out) ts \<and> br_ok r' \<and> br_stream r' = rest"
proof (induction ts arbitrary: out r)
  case Nil
  from assms have t: "lit_n t \<le> 320" "has_code (lit_lens t) (lit_n t) 256"
    by (auto simp: tables_ok_def)
  from Nil have "br_stream r = huff_encode (lit_lens t) (lit_n t) 256 @ rest"
    by (simp add: end_of_block_def)
  from huff_decode_has_code [OF t Nil.prems(3) this] obtain r' where
    "huff_decode r (huff_build (lit_lens t) (lit_n t)) = (256, r')" "br_ok r'" "br_stream r' = rest"
    by auto
  then show ?case
    by (simp add: run_loop.simps [of r] do_sym_def expand_def)
next
  case (Cons x xs)
  let ?hl = "huff_build (lit_lens t) (lit_n t)" and ?hd = "huff_build (dist_lens t) (dist_n t)"
  let ?more = "concat (map (tok_bits t) xs) @ end_of_block t @ rest"
  from assms have n: "lit_n t \<le> 320" "dist_n t \<le> 320" by (auto simp: tables_ok_def)
  have exp: "expand (bdata out) (x # xs) = expand (tok_step (bdata out) x) xs"
    by (simp add: expand_def)
  have "\<exists>sy r1 r2 out1. huff_decode r ?hl = (sy, r1) \<and> 0 \<le> sy \<and> do_sym r1 out ?hd sy = (0, r2, out1) \<and>
      bdata out1 = tok_step (bdata out) x \<and> br_ok r2 \<and> br_stream r2 = ?more"
  proof (cases x)
    case (Lit b)
    with Cons.prems have "has_code (lit_lens t) (lit_n t) (unat b)"
      and "br_stream r = huff_encode (lit_lens t) (lit_n t) (unat b) @ ?more" by simp_all
    from huff_decode_has_code [OF n(1) this(1) Cons.prems(3) this(2)] Lit show ?thesis
      by (auto simp: do_sym_lit)
  next
    case (Ref ls le ds de)
    with Cons.prems(1) have ok: "ls < 29" "le < 2 ^ (LEN_EXTRA ! ls)" "ds < 30" "de < 2 ^ (DIST_EXTRA ! ds)"
      "has_code (lit_lens t) (lit_n t) (257 + ls)" "has_code (dist_lens t) (dist_n t) ds"
      "ref_dist ds de \<le> length (bdata out)" by auto
    from Cons.prems(4) Ref have str: "br_stream r = huff_encode (lit_lens t) (lit_n t) (257 + ls) @
      val_bits (LEN_EXTRA ! ls) le @ huff_encode (dist_lens t) (dist_n t) ds @
      val_bits (DIST_EXTRA ! ds) de @ ?more" by simp
    from huff_decode_has_code [OF n(1) ok(5) Cons.prems(3) str] obtain r1 where
      d: "huff_decode r ?hl = (int (257 + ls), r1)" and r1: "br_ok r1"
      "br_stream r1 = val_bits (LEN_EXTRA ! ls) le @ huff_encode (dist_lens t) (dist_n t) ds @
      val_bits (DIST_EXTRA ! ds) de @ ?more" by blast
    have "length (bdata out) < 2 ^ 64"
      using Cons.prems(2) expand_grows [of "bdata out" "x # xs"] by linarith
    from do_sym_ref [OF ok(1-4) n(2) ok(6) r1 ok(7) this] obtain r2 out1 where
      "do_sym r1 out ?hd (int (257 + ls)) = (0, r2, out1)" "br_ok r2" "br_stream r2 = ?more"
      "bdata out1 = tok_step (bdata out) x" using Ref by auto
    with d show ?thesis by (metis of_nat_0_le_iff)
  qed
  then obtain sy r1 r2 out1 where s: "huff_decode r ?hl = (sy, r1)" "0 \<le> sy"
    "do_sym r1 out ?hd sy = (0, r2, out1)" and
    n2: "bdata out1 = tok_step (bdata out) x" "br_ok r2" "br_stream r2 = ?more" by blast
  from Cons.IH [of out1 r2] Cons.prems n2 exp run_loop_step [OF s, of fin] show ?case by simp
qed

section \<open>The fixed tables\<close>

definition fixed_tables :: tables where
  "fixed_tables =
     (let (lit, dst) = fixed_huff (replicate 320 0) (replicate 32 0)
      in \<lparr>lit_lens = lit, lit_n = 288, dist_lens = dst, dist_n = 32\<rparr>)"

lemma fill_range_eq:
  "lo \<le> hi \<Longrightarrow> hi \<le> length a \<Longrightarrow> fill_range a lo hi v = take lo a @ replicate (hi - lo) v @ drop hi a"
proof (induction hi)
  case 0
  then show ?case by (simp add: fill_range_def)
next
  case (Suc hi)
  show ?case
  proof (cases "lo \<le> hi")
    case False
    with Suc.prems have "lo = Suc hi" by simp
    then show ?thesis by (simp add: fill_range_def)
  next
    case True
    with Suc have "fill_range a lo (Suc hi) v = (take lo a @ replicate (hi - lo) v @ drop hi a)[hi := v]"
      by (simp add: fill_range_def)
    also have "\<dots> = take lo a @ replicate (hi - lo) v @ v # drop (Suc hi) a"
      using Suc.prems True by (simp add: list_update_append flip: Cons_nth_drop_Suc)
    also have "\<dots> = take lo a @ replicate (Suc hi - lo) v @ drop (Suc hi) a"
      using True by (simp add: Suc_diff_le replicate_app_Cons_same flip: append_assoc)
    finally show ?thesis .
  qed
qed

lemma fixed_lens:
  "lit_lens fixed_tables = replicate 144 8 @ replicate 112 9 @ replicate 24 7 @ replicate 8 8 @ replicate 32 0"
  "dist_lens fixed_tables = replicate 32 5" "lit_n fixed_tables = 288" "dist_n fixed_tables = 32"
  by (simp_all add: fixed_tables_def fixed_huff_def fill_range_eq Let_def)

lemma num_of_filter:
  assumes "0 < b" and "n \<le> length lengths"
  shows "num_of lengths n b = length (filter (\<lambda>l. l = int b) (take n lengths))"
proof -
  have "take n lengths = map (\<lambda>j. lengths ! j) [0..<n]"
    using assms(2) by (auto intro: nth_equalityI)
  then show ?thesis using assms(1) by (simp add: num_of_def syms_of_def filter_map comp_def)
qed

lemma has_codeI:
  assumes "i < n" and "lengths ! i = int l" and "0 < l" and "l < 16"
    and "first_of (num_of lengths n) l + num_of lengths n l \<le> 2 ^ l"
  shows "has_code lengths n i"
  using assms syms_of_rank [OF assms(1,2,3)]
  by (simp add: has_code_def huff_code_def Let_def len_used_def)

lemma fixed_num:
  "0 < b \<Longrightarrow> num_of (lit_lens fixed_tables) 288 b
     = (if b = 7 then 24 else if b = 8 then 152 else if b = 9 then 112 else 0)"
  "0 < b \<Longrightarrow> num_of (dist_lens fixed_tables) 32 b = (if b = 5 then 32 else 0)"
  by (auto simp: num_of_filter fixed_lens)

lemma first_of_numeral:
  "first_of num (numeral k) = 2 * (first_of num (pred_numeral k) + num (pred_numeral k))"
  by (simp add: numeral_eq_Suc)

lemma fixed_first:
  "first_of (num_of (lit_lens fixed_tables) 288) 7 = 0"
  "first_of (num_of (lit_lens fixed_tables) 288) 8 = 48"
  "first_of (num_of (lit_lens fixed_tables) 288) 9 = 400"
  "first_of (num_of (dist_lens fixed_tables) 32) 5 = 0"
  by (simp_all add: first_of_numeral fixed_num)

lemma fixed_lit_code: "i < 288 \<Longrightarrow> has_code (lit_lens fixed_tables) 288 i"
proof -
  assume i: "i < 288"
  let ?l = "if i < 144 then 8 else if i < 256 then 9 else if i < 280 then 7 else (8 :: nat)"
  have "lit_lens fixed_tables ! i = int ?l"
    using i by (simp add: fixed_lens nth_append) arith
  then show ?thesis
    by (rule has_codeI [OF i]) (auto simp: fixed_num fixed_first)
qed

lemma fixed_dist_code: "i < 32 \<Longrightarrow> has_code (dist_lens fixed_tables) 32 i"
  by (rule has_codeI [of _ _ _ 5]) (auto simp: fixed_num fixed_first, simp add: fixed_lens)

lemma fixed_tables_ok: "tables_ok fixed_tables"
  by (simp add: tables_ok_def fixed_lens(3,4) fixed_lit_code)

lemma build_fixed_tables:
  "build_fixed = (huff_build (lit_lens fixed_tables) (lit_n fixed_tables),
                  huff_build (dist_lens fixed_tables) (dist_n fixed_tables))"
  by (simp add: build_fixed_def fixed_tables_def Let_def split: prod.splits)

section \<open>Stored bytes\<close>

lemma stored_loop_bytes:
  "br_ok r \<Longrightarrow> br_stream r = concat (map byte_bits d) @ rest \<Longrightarrow>
   \<exists>r' out'. stored_loop (length d) r out = Some (r', out') \<and> bdata out' = bdata out @ d \<and>
             br_ok r' \<and> br_stream r' = rest"
proof (induction d arbitrary: r out)
  case Nil
  then show ?case by simp
next
  case (Cons b d)
  from bits.get_known [OF Cons.prems(1), of "byte_bits b"] Cons.prems(2)
  obtain r1 where get: "br_bits r 8 = (uint b, r1)" and
    r1: "br_ok r1" "br_stream r1 = concat (map byte_bits d) @ rest"
    by (auto simp: bits_val_byte)
  from Cons.IH [OF r1, of "buf_append_c out b"] get show ?case by (auto simp: not_less)
qed

lemma decode_stored_bytes:
  assumes "br_ok r" and "length d < 2 ^ 16" and "length pad = length (br_stream r) mod 8"
    and "br_stream r = pad @ val_bits 16 (length d) @ val_bits 16 nlen @ concat (map byte_bits d) @ rest"
  shows "\<exists>r' out'. decode_stored r out = Some (r', out') \<and> bdata out' = bdata out @ d \<and>
                   br_ok r' \<and> br_stream r' = rest"
proof -
  let ?more = "concat (map byte_bits d) @ rest"
  have "br_stream (br_align r) = drop (length pad) (br_stream r)"
    by (simp only: br_align_stream assms(3))
  then have al: "br_ok (br_align r)" "br_stream (br_align r) = val_bits 16 (length d) @ val_bits 16 nlen @ ?more"
    using assms(1,4) by (simp_all add: br_align_ok)
  from bits.get_known [OF al(1) _ al(2)] bits_val_val_bits [OF assms(2)] obtain r1 where
    g1: "br_bits (br_align r) 16 = (int (length d), r1)" and
    r1: "br_ok r1" "br_stream r1 = val_bits 16 nlen @ ?more" by auto
  from bits.get_known [OF r1(1) _ r1(2)] obtain v r2 where
    g2: "br_bits r1 16 = (v, r2)" and r2: "br_ok r2" "br_stream r2 = ?more" by auto
  from stored_loop_bytes [OF r2, of out] g1 g2 show ?thesis
    by (simp add: decode_stored_def)
qed

section \<open>Blocks\<close>

text \<open>
  A block at bit offset \<open>off\<close> of the stream: one bit for the last-block flag, two for the type
  and, for a stored block, padding to the next byte boundary, the length, its complement and
  the bytes.
\<close>

datatype block =
    Stored "byte list"
  | Fixed "tok list"

definition pad_len :: "nat \<Rightarrow> nat" where
  "pad_len off = (8 - off mod 8) mod 8"

fun block_bits :: "nat \<Rightarrow> bool \<Rightarrow> block \<Rightarrow> bool list" where
  "block_bits off fin (Stored d) =
     val_bits 1 (of_bool fin) @ val_bits 2 0 @ replicate (pad_len (off + 3)) False @
     val_bits 16 (length d) @ val_bits 16 (65535 - length d) @ concat (map byte_bits d)"
| "block_bits off fin (Fixed ts) =
     val_bits 1 (of_bool fin) @ val_bits 2 1 @
     concat (map (tok_bits fixed_tables) ts) @ end_of_block fixed_tables"

fun block_ok :: "byte list \<Rightarrow> block \<Rightarrow> bool" where
  "block_ok d (Stored s) = (length s < 2 ^ 16)"
| "block_ok d (Fixed ts) = toks_ok fixed_tables d ts"

fun block_step :: "byte list \<Rightarrow> block \<Rightarrow> byte list" where
  "block_step d (Stored s) = d @ s"
| "block_step d (Fixed ts) = expand d ts"

lemma block_step_grows: "length d \<le> length (block_step d b)"
  by (cases b) (simp_all add: expand_grows)

lemma pad_len_rem:
  assumes "(n + m + off) mod 8 = 0" and "n = pad_len off"
  shows "n = (n + m) mod 8"
proof -
  have "(n + off) mod 8 = 0" and n: "n < 8"
    using assms(2) by (simp_all add: pad_len_def mod_simps) presburger
  then have "8 dvd n + off" and "8 dvd (n + off) + m" using assms(1) by (simp_all add: mod_eq_0_iff_dvd ac_simps)
  then have "8 dvd m" using dvd_add_right_iff by blast
  then have "(n + m) mod 8 = n mod 8" by (auto elim!: dvdE)
  with n show ?thesis by simp
qed

lemma inflate_header:
  assumes "br_ok r" and "br_stream r = val_bits 1 (of_bool fin) @ val_bits 2 ty @ rest" and "ty < 3"
  shows "\<exists>r1 r2. br_bits r 1 = (of_bool fin, r1) \<and> br_bits r1 2 = (int ty, r2) \<and>
                 br_ok r2 \<and> br_stream r2 = rest \<and> \<not> (word_of_int (int ty) :: u32) > 2"
proof -
  from bits.get_known [OF assms(1) _ assms(2)] obtain r1 where
    r1: "br_bits r 1 = (of_bool fin, r1)" "br_ok r1" "br_stream r1 = val_bits 2 ty @ rest"
    by (auto simp: bits_val_val_bits)
  from bits.get_known [OF r1(2) _ r1(3)] assms(3) obtain r2 where
    r2: "br_bits r1 2 = (int ty, r2)" "br_ok r2" "br_stream r2 = rest"
    by (auto simp: bits_val_val_bits)
  have "ty = 0 \<or> ty = 1 \<or> ty = 2" using assms(3) by linarith
  then have "\<not> (word_of_int (int ty) :: u32) > 2" by auto
  with r1 r2 show ?thesis by blast
qed

lemma inflate_block_correct:
  assumes "br_ok r" and "br_stream r = block_bits off fin b @ rest"
    and "(length (br_stream r) + off) mod 8 = 0"
    and "block_ok (bdata out) b" and "length (block_step (bdata out) b) < 2 ^ 64"
  shows "\<exists>r' out'. inflate_block r out = Some (of_bool fin, r', out') \<and>
    bdata out' = block_step (bdata out) b \<and> br_ok r' \<and> br_stream r' = rest"
proof (cases b)
  case (Stored d)
  let ?pad = "replicate (pad_len (off + 3)) False"
  let ?more = "val_bits 16 (length d) @ val_bits 16 (65535 - length d) @ concat (map byte_bits d) @ rest"
  from assms(2) Stored have "br_stream r = val_bits 1 (of_bool fin) @ val_bits 2 0 @ ?pad @ ?more" by simp
  from inflate_header [OF assms(1) this] obtain r1 r2 where
    h: "br_bits r 1 = (of_bool fin, r1)" "br_bits r1 2 = (0, r2)" and
    r2: "br_ok r2" "br_stream r2 = ?pad @ ?more" by auto
  have "length ?pad = (length ?pad + length ?more) mod 8"
    using assms(2,3) Stored by (intro pad_len_rem [of _ _ "off + 3"]) (simp_all add: ac_simps)
  then have pad: "length ?pad = length (br_stream r2) mod 8" by (simp only: r2 length_append)
  have len: "length d < 2 ^ 16" using assms(4) Stored by simp
  from decode_stored_bytes [OF r2(1) len pad r2(2), of out] obtain r' out' where
    d: "decode_stored r2 out = Some (r', out')" "bdata out' = bdata out @ d" "br_ok r'" "br_stream r' = rest"
    by auto
  have "inflate_block r out = Some (of_bool fin, r', out')"
    using h d(1) by (simp add: inflate_block_def)
  with d Stored show ?thesis by auto
next
  case (Fixed ts)
  let ?more = "concat (map (tok_bits fixed_tables) ts) @ end_of_block fixed_tables @ rest"
  from assms(2) Fixed have "br_stream r = val_bits 1 (of_bool fin) @ val_bits 2 1 @ ?more" by simp
  from inflate_header [OF assms(1) this] obtain r1 r2 where
    h: "br_bits r 1 = (of_bool fin, r1)" "br_bits r1 2 = (1, r2)" and
    r2: "br_ok r2" "br_stream r2 = ?more" by auto
  have ok: "toks_ok fixed_tables (bdata out) ts" "length (expand (bdata out) ts) < 2 ^ 64"
    using assms(4,5) Fixed by simp_all
  from run_loop_tokens [OF fixed_tables_ok ok r2, of "of_bool fin"] obtain r' out' where
    d: "run_loop r2 out (fst build_fixed) (snd build_fixed) (of_bool fin) = Some (of_bool fin, r', out')"
    "bdata out' = expand (bdata out) ts" "br_ok r'" "br_stream r' = rest"
    by (auto simp: build_fixed_tables)
  have h2: "br_bits r1 2 = (1, r2)" using h(2) by simp
  have "inflate_block r out = Some (of_bool fin, r', out')"
    unfolding inflate_block_def Let_def h(1) h2 prod.case
    using d(1) by (simp add: case_prod_beta del: of_bool_eq_iff split del: if_split)
  with d Fixed show ?thesis by auto
qed

section \<open>Properties\<close>

text \<open>
  C24: a block that is accepted consumes at least one bit of input and only appends to the
  output: the loop over the blocks ends and earlier output is never changed.
\<close>

theorem inflate_block_progress:
  assumes "inflate_block r out = Some (v, r', out')"
  shows "br_left r' < br_left r \<and> (\<exists>d. bdata out' = bdata out @ d)"
  using inflate_block_left [OF assms] extends_inflate_block [OF assms] by (simp add: extends_def)

lemma inflate_block_progress_witness:
  "\<exists>v r' out'. inflate_block (br_init [1, 1, 0, 0xFE, 0xFF, 7]) BUF_INIT = Some (v, r', out') \<and>
     br_left r' < 48"
proof -
  have pad: "replicate 5 False = [False, False, False, False, False]" by (simp add: numeral_eq_Suc)
  have "\<exists>r' out'. inflate_block (br_init [1, 1, 0, 0xFE, 0xFF, 7]) BUF_INIT = Some (of_bool True, r', out') \<and>
      bdata out' = block_step (bdata BUF_INIT) (Stored [7]) \<and> br_ok r' \<and> br_stream r' = []"
    by (rule inflate_block_correct [where off = 0, OF br_ok_init])
       (simp_all add: br_stream_init byte_bits_def val_bits_def pad_len_def upt_rec bit_numeral_rec bit_0
         BUF_INIT_def pad)
  then obtain r' out' where b: "inflate_block (br_init [1, 1, 0, 0xFE, 0xFF, 7]) BUF_INIT = Some (of_bool True, r', out')"
    by blast
  from inflate_block_progress [OF b] b show ?thesis
    by (auto simp: br_left_def [of "\<lparr>br_data = _, br_pos = _, br_buf = _, br_cnt = _\<rparr>"] br_init_def)
qed

end
