(* ===== verification/Crc.thy ===== *)
theory Crc
  imports Prelude
begin

unbundle bit_operations_syntax

text \<open>
  The two table-driven CRCs of the program: the CRC-32 of the gzip trailer
  (\<^verbatim>\<open>src/compress/crc32.c\<close>) and the CRC-32C of the ext4 metadata
  (\<^verbatim>\<open>src/ext4/csum.c\<close>).  Both build a table of 256 entries with eight polynomial steps
  per entry and then fold the message byte by byte.  The lemmas show that the table-driven
  loop computes the bit-serial register it abbreviates, that updates compose over
  concatenated buffers, and that a change confined to one byte always changes the result.
\<close>

section \<open>Tables\<close>

definition CRC32_POLY :: u32 where "CRC32_POLY = 0xEDB88320"
definition CRC32C_POLY :: u32 where "CRC32C_POLY = 0x82F63B78"

text \<open>One step of the inner loop: \<open>c = (c & 1) ? poly ^ (c >> 1) : c >> 1\<close>.\<close>

definition crc_bit :: "u32 \<Rightarrow> u32 \<Rightarrow> u32" where
  "crc_bit poly c = (if c AND 1 \<noteq> 0 then poly XOR drop_bit 1 c else drop_bit 1 c)"

definition crc_entry :: "u32 \<Rightarrow> u32 \<Rightarrow> u32" where
  "crc_entry poly i = (crc_bit poly ^^ 8) i"

definition crc_table :: "u32 \<Rightarrow> u32 list" where
  "crc_table poly = map (\<lambda>i. crc_entry poly (of_nat i)) [0..<256]"

text \<open>The file-level statics of \<^verbatim>\<open>crc32.c\<close>.\<close>

record crc_state =
  crc32_tab :: "u32 list"
  crc32_ready :: bool

definition crc_state0 :: crc_state where
  "crc_state0 = \<lparr>crc32_tab = replicate 256 0, crc32_ready = False\<rparr>"

definition crc32_init :: "crc_state \<Rightarrow> crc_state" where
  "crc32_init st =
     (if crc32_ready st then st
      else st\<lparr>crc32_tab := crc_table CRC32_POLY, crc32_ready := True\<rparr>)"

definition crc_byte :: "u32 list \<Rightarrow> u32 \<Rightarrow> byte \<Rightarrow> u32" where
  "crc_byte tab crc p = tab ! unat ((crc XOR ucast p) AND 0xFF) XOR drop_bit 8 crc"

definition crc_loop :: "u32 list \<Rightarrow> u32 \<Rightarrow> byte list \<Rightarrow> u32" where
  "crc_loop tab crc data = NOT (foldl (crc_byte tab) (NOT crc) data)"

definition crc32_update :: "crc_state \<Rightarrow> u32 \<Rightarrow> byte list \<Rightarrow> u32" where
  "crc32_update st crc data = crc_loop (crc32_tab st) crc data"

text \<open>
  \<open>ext4_crc32c\<close> builds its own static table on the first call; the table is a constant of
  the polynomial, so the call is a function of its arguments.
\<close>

definition ext4_crc32c :: "u32 \<Rightarrow> byte list \<Rightarrow> u32" where
  "ext4_crc32c crc data = crc_loop (crc_table CRC32C_POLY) crc data"

definition crc32c_e2fs :: "u32 \<Rightarrow> byte list \<Rightarrow> u32" where
  "crc32c_e2fs crc data = NOT (ext4_crc32c (NOT crc) data)"

section \<open>The bit-serial register\<close>

text \<open>
  The reference: the message byte is added to the low end of the register, which is then
  shifted out one bit at a time.  No table appears.
\<close>

definition crc_serial_byte :: "u32 \<Rightarrow> u32 \<Rightarrow> byte \<Rightarrow> u32" where
  "crc_serial_byte poly crc p = (crc_bit poly ^^ 8) (crc XOR ucast p)"

definition crc_serial :: "u32 \<Rightarrow> u32 \<Rightarrow> byte list \<Rightarrow> u32" where
  "crc_serial poly crc data = NOT (foldl (crc_serial_byte poly) (NOT crc) data)"

lemma and_one_bit: "(c :: u32) AND 1 \<noteq> 0 \<longleftrightarrow> bit c 0"
  by (simp add: and_one_eq odd_iff_mod_2_eq_one bit_0)

lemma crc_bit_xor: "crc_bit poly (a XOR b) = crc_bit poly a XOR crc_bit poly b"
  unfolding crc_bit_def and_one_bit
  by (rule bit_word_eqI) (auto simp: bit_xor_iff bit_drop_bit_eq)

lemma crc_bits_xor: "(crc_bit poly ^^ n) (a XOR b) = (crc_bit poly ^^ n) a XOR (crc_bit poly ^^ n) b"
  by (induction n) (simp_all add: crc_bit_xor)

lemma crc_bits_low_zero:
  "\<forall>i < n. \<not> bit a i \<Longrightarrow> (crc_bit poly ^^ n) a = drop_bit n a"
proof (induction n)
  case 0
  then show ?case by simp
next
  case (Suc n)
  then have "(crc_bit poly ^^ n) a = drop_bit n a" by simp
  moreover have "\<not> bit (drop_bit n a) 0"
    using Suc.prems by (simp add: bit_drop_bit_eq)
  ultimately have "crc_bit poly ((crc_bit poly ^^ n) a) = drop_bit 1 (drop_bit n a)"
    by (simp only: crc_bit_def [of poly "drop_bit n a"] and_one_bit) simp
  then show ?case by (simp add: drop_bit_drop_bit)
qed

lemma crc_byte_split: "(x :: u32) = (x AND 0xFF) XOR (x AND NOT 0xFF)"
  by (rule bit_word_eqI) (auto simp: bit_simps)

lemma mask_ff: "(0xFF :: u32) = mask 8"
  by (simp add: mask_eq_exp_minus_1)

lemma crc_table_nth: "x < 256 \<Longrightarrow> crc_table poly ! x = crc_entry poly (of_nat x)"
  by (simp add: crc_table_def)

lemma drop_bit_8_byte: "drop_bit 8 (ucast (p :: byte) :: u32) = 0"
  by (rule bit_word_eqI) (auto simp: bit_simps dest: bit_imp_le_length)

lemma low_byte_less: "unat ((x :: u32) AND 0xFF) < 256"
proof -
  have "unat (x AND 0xFF) = take_bit 8 (unat x)"
    by (simp add: mask_ff unsigned_take_bit_eq flip: take_bit_eq_mask)
  then show ?thesis using take_bit_nat_less_exp [of 8 "unat x"] by simp
qed

lemma crc_byte_serial: "crc_byte (crc_table poly) crc p = crc_serial_byte poly crc p"
proof -
  let ?x = "crc XOR ucast p :: u32"
  have lo: "unat (?x AND 0xFF) < 256" by (rule low_byte_less)
  have "(crc_bit poly ^^ 8) ?x
      = (crc_bit poly ^^ 8) (?x AND 0xFF) XOR (crc_bit poly ^^ 8) (?x AND NOT 0xFF)"
    by (subst crc_byte_split) (rule crc_bits_xor)
  also have "(crc_bit poly ^^ 8) (?x AND NOT 0xFF) = drop_bit 8 (?x AND NOT 0xFF)"
    unfolding mask_ff by (rule crc_bits_low_zero) (simp add: bit_simps)
  also have "drop_bit 8 (?x AND NOT 0xFF) = drop_bit 8 crc"
    unfolding mask_ff by (rule bit_word_eqI) (auto simp: bit_simps dest: bit_imp_le_length)
  finally show ?thesis
    using lo by (simp add: crc_serial_byte_def crc_byte_def crc_table_nth crc_entry_def)
qed

lemma crc_loop_serial: "crc_loop (crc_table poly) crc data = crc_serial poly crc data"
proof -
  have "crc_byte (crc_table poly) = crc_serial_byte poly"
    by (intro ext) (rule crc_byte_serial)
  then show ?thesis by (simp add: crc_loop_def crc_serial_def)
qed

section \<open>Composition and sensitivity\<close>

lemma crc_loop_append: "crc_loop tab (crc_loop tab crc a) b = crc_loop tab crc (a @ b)"
  by (simp add: crc_loop_def)

lemma crc_bit_zero:
  assumes "bit poly 31" and "crc_bit poly c = 0"
  shows "c = 0"
proof (cases "bit c 0")
  case True
  with assms have "poly = drop_bit 1 c"
    by (simp only: crc_bit_def and_one_bit xor_eq_zero) simp
  then have "\<not> bit poly 31" by (auto simp: bit_drop_bit_eq dest: bit_imp_le_length)
  with assms(1) show ?thesis by simp
next
  case False
  with assms have z: "drop_bit 1 c = 0" by (simp add: crc_bit_def and_one_bit)
  show ?thesis
  proof (rule bit_word_eqI)
    fix n
    from z have "\<not> bit (drop_bit 1 c) (n - 1)" by simp
    with False show "bit c n = bit 0 n"
      by (cases n) (simp_all add: bit_drop_bit_eq)
  qed
qed

lemma crc_bit_inj:
  assumes "bit poly 31"
  shows "inj (crc_bit poly)"
proof (rule injI)
  fix a b
  assume "crc_bit poly a = crc_bit poly b"
  then have "crc_bit poly (a XOR b) = 0" by (simp add: crc_bit_xor)
  with assms have "a XOR b = 0" by (rule crc_bit_zero)
  then show "a = b" by (simp only: xor_eq_zero)
qed

lemma crc_serial_byte_inj:
  assumes "bit poly 31" and "crc_serial_byte poly a p = crc_serial_byte poly b q"
  shows "a XOR ucast p = b XOR ucast q"
proof -
  have "inj (crc_bit poly ^^ 8)"
    using crc_bit_inj [OF assms(1)] by (rule inj_fn)
  with assms(2) show ?thesis by (simp add: crc_serial_byte_def inj_eq)
qed

lemma crc_fold_inj:
  assumes "bit poly 31"
  shows "foldl (crc_serial_byte poly) a data = foldl (crc_serial_byte poly) b data \<Longrightarrow> a = b"
proof (induction data arbitrary: a b)
  case Nil
  then show ?case by simp
next
  case (Cons p data)
  then have "crc_serial_byte poly a p = crc_serial_byte poly b p" by simp
  from crc_serial_byte_inj [OF assms this] show ?case by simp
qed

lemma crc_serial_one_byte:
  assumes "bit poly 31" and "p \<noteq> q"
  shows "crc_serial poly crc (a @ p # b) \<noteq> crc_serial poly crc (a @ q # b)"
proof
  let ?s = "foldl (crc_serial_byte poly) (NOT crc) a"
  assume "crc_serial poly crc (a @ p # b) = crc_serial poly crc (a @ q # b)"
  then have "foldl (crc_serial_byte poly) (crc_serial_byte poly ?s p) b
           = foldl (crc_serial_byte poly) (crc_serial_byte poly ?s q) b"
    by (simp add: crc_serial_def)
  from crc_serial_byte_inj [OF assms(1) crc_fold_inj [OF assms(1) this]]
  have "(ucast p :: u32) = ucast q" by (simp only: xor_cancel_left)
  then have "p = q" by (metis unat_ucast_byte_32 word_unat_eq_iff)
  with assms(2) show False by simp
qed

text \<open>
  The table is filled by the first call of \<open>crc32_init\<close> and never changes afterwards; both
  callers initialise before they update.
\<close>

definition crc_ready :: "crc_state \<Rightarrow> bool" where
  "crc_ready st \<longleftrightarrow> (crc32_ready st \<longrightarrow> crc32_tab st = crc_table CRC32_POLY)"

lemma crc_ready_state0: "crc_ready crc_state0"
  by (simp add: crc_ready_def crc_state0_def)

lemma crc_ready_init: "crc_ready st \<Longrightarrow> crc_ready (crc32_init st)"
  by (simp add: crc_ready_def crc32_init_def)

lemma crc32_init_tab: "crc_ready st \<Longrightarrow> crc32_tab (crc32_init st) = crc_table CRC32_POLY"
  by (auto simp: crc_ready_def crc32_init_def)

lemma crc32_init_idem: "crc32_init (crc32_init st) = crc32_init st"
  by (simp add: crc32_init_def)

definition crc32 :: "byte list \<Rightarrow> u32" where
  "crc32 data = crc_serial CRC32_POLY 0 data"

lemma crc32_update_init:
  "crc_ready st \<Longrightarrow> crc32_update (crc32_init st) 0 data = crc32 data"
  by (simp add: crc32_update_def crc32_init_tab crc_loop_serial crc32_def)

section \<open>Properties\<close>

text \<open>
  C25: the table-driven checksums compute the bit-serial register of their polynomial.  After
  \<open>crc32_init\<close>, in whatever state the table was, updating in two pieces gives the serial CRC of
  the concatenation, and \<open>ext4_crc32c\<close> is the serial CRC with the Castagnoli polynomial.
\<close>

theorem crc_tables_are_serial:
  assumes "crc_ready st"
  shows "crc32_update (crc32_init st) (crc32_update (crc32_init st) crc a) b
           = crc_serial CRC32_POLY crc (a @ b) \<and>
         ext4_crc32c (ext4_crc32c crc a) b = crc_serial CRC32C_POLY crc (a @ b)"
  by (simp add: crc32_update_def crc32_init_tab [OF assms] crc_loop_append ext4_crc32c_def flip: crc_loop_serial)

lemma crc32_check_value: "crc_serial CRC32_POLY 0 [0x31] = 0x83DCEFB7"
  by code_simp

lemma crc_tables_are_serial_witness:
  "crc32_update (crc32_init crc_state0) (crc32_update (crc32_init crc_state0) 0 []) [0x31]
     = 0x83DCEFB7"
  using crc_tables_are_serial [OF crc_ready_state0, of 0 "[]" "[0x31]"] crc32_check_value
  by simp

end
