(* ===== verification/Gzip.thy ===== *)
theory Gzip
  imports InflateSpec Crc
begin

text \<open>
  The gzip container (\<^verbatim>\<open>src/compress/decompress.c\<close>): header with its optional fields,
  the loop over deflate blocks, and the CRC and length trailer.  An offset that the code
  advances through a pointer is the value of the call, \<open>None\<close> for the result -1; the CRC
  table of \<^verbatim>\<open>crc32.c\<close> is threaded through as \<open>crc_state\<close>.  Offsets are \<open>nat\<close>: they stay
  below the length of the input plus 65538, far from the wrap-around of \<open>size_t\<close>.
\<close>

section \<open>The header\<close>

definition check_gzip_magic :: "byte list \<Rightarrow> int" where
  "check_gzip_magic p =
     (if length p < 18 then -1
      else if p ! 0 \<noteq> 0x1F \<or> p ! 1 \<noteq> 0x8B then -1
      else if p ! 2 \<noteq> 8 then -1
      else 0)"

definition advance :: "nat \<Rightarrow> nat \<Rightarrow> nat \<Rightarrow> nat option" where
  "advance off n in_len = (if off + n > in_len then None else Some (off + n))"

definition skip_fextra :: "byte list \<Rightarrow> nat \<Rightarrow> nat option" where
  "skip_fextra p off =
     (if off + 2 > length p then None
      else let xlen = (ucast (p ! off) :: u32) OR push_bit 8 (ucast (p ! (off + 1)))
           in advance off (2 + unat xlen) (length p))"

text \<open>The scan of \<open>skip_string\<close>: stop at the end of the input or at a zero byte.\<close>

function scan_zero :: "byte list \<Rightarrow> nat \<Rightarrow> nat" where
  "scan_zero p off = (if off < length p \<and> p ! off \<noteq> 0 then scan_zero p (off + 1) else off)"
  by pat_completeness auto
termination by (relation "measure (\<lambda>(p, off). length p - off)") auto

declare scan_zero.simps [simp del]

definition skip_string :: "byte list \<Rightarrow> nat \<Rightarrow> nat option" where
  "skip_string p off =
     (let e = scan_zero p off in if e \<ge> length p then None else Some (e + 1))"

fun skip_str_flags :: "byte list \<Rightarrow> byte \<Rightarrow> byte list \<Rightarrow> nat \<Rightarrow> nat option" where
  "skip_str_flags p flg [] off = Some off"
| "skip_str_flags p flg (f # fs) off =
     (if flg AND f \<noteq> 0 then
        (case skip_string p off of
           None \<Rightarrow> None
         | Some off' \<Rightarrow> skip_str_flags p flg fs off')
      else skip_str_flags p flg fs off)"

definition skip_gzip_tail :: "byte list \<Rightarrow> nat \<Rightarrow> byte \<Rightarrow> nat option" where
  "skip_gzip_tail p off flg =
     (case skip_str_flags p flg [0x08, 0x10] off of
        None \<Rightarrow> None
      | Some off' \<Rightarrow> if flg AND 0x02 \<noteq> 0 then advance off' 2 (length p) else Some off')"

definition skip_gzip_flags :: "byte list \<Rightarrow> nat \<Rightarrow> byte \<Rightarrow> nat option" where
  "skip_gzip_flags p off flg =
     (if flg AND 0x04 \<noteq> 0 then
        (case skip_fextra p off of
           None \<Rightarrow> None
         | Some off' \<Rightarrow> skip_gzip_tail p off' flg)
      else skip_gzip_tail p off flg)"

definition skip_gzip_header :: "byte list \<Rightarrow> nat option" where
  "skip_gzip_header p =
     (if check_gzip_magic p \<noteq> 0 then None
      else (case skip_gzip_flags p 10 (p ! 3) of
              None \<Rightarrow> None
            | Some off \<Rightarrow> if off \<ge> length p then None else Some off))"

section \<open>The trailer and the whole member\<close>

definition read32le :: "byte list \<Rightarrow> u32" where
  "read32le p = foldl (\<lambda>v i. v OR push_bit (i * 8) (ucast (p ! i))) 0 [0, 1, 2, 3]"

definition check_gzip_trailer ::
    "crc_state \<Rightarrow> byte list \<Rightarrow> nat \<Rightarrow> byte buf \<Rightarrow> int \<times> crc_state" where
  "check_gzip_trailer st p data_end out =
     (if data_end + 8 > length p then (-1, st)
      else
        let expected_crc = read32le (drop data_end p);
            expected_len = read32le (drop (data_end + 4) p);
            st' = crc32_init st;
            actual_crc = crc32_update st' 0 (bdata out)
        in if actual_crc \<noteq> expected_crc then (-1, st')
           else if expected_len \<noteq> ucast (blen out) then (-1, st')
           else (0, st'))"

text \<open>
  The loop over the blocks.  Every block that is accepted consumes input
  (\<open>inflate_block_left\<close>), so the loop ends.
\<close>

function inflate_blocks :: "br \<Rightarrow> byte buf \<Rightarrow> (br \<times> byte buf) option" where
  "inflate_blocks r out =
     (case inflate_block r out of
        None \<Rightarrow> None
      | Some (v, r', out') \<Rightarrow>
          if v < 0 then None else if v \<noteq> 0 then Some (r', out') else inflate_blocks r' out')"
  by pat_completeness auto
termination
  by (relation "measure (\<lambda>(r, out). br_left r)") (auto dest: inflate_block_left)

declare inflate_blocks.simps [simp del]

definition decompress_gzip ::
    "crc_state \<Rightarrow> byte list \<Rightarrow> byte buf \<Rightarrow> byte buf option \<times> crc_state" where
  "decompress_gzip st p out =
     (case skip_gzip_header p of
        None \<Rightarrow> (None, st)
      | Some off \<Rightarrow>
          if off + 8 > length p then (None, st)
          else
            (case inflate_blocks (br_init (take (length p - off - 8) (drop off p))) out of
               None \<Rightarrow> (None, st)
             | Some (r, out') \<Rightarrow>
                 (let (e, st') = check_gzip_trailer st p (length p - 8) out'
                  in (if e = 0 then Some out' else None, st'))))"

section \<open>Skipping the header\<close>

text \<open>
  The fields of a member header, in the order of the format: six bytes of time, flags and
  system, then the extra field, the name, the comment and the header CRC, each present when
  its flag bit is set.
\<close>

record gz_header =
  gz_flg :: byte
  gz_fixed :: "byte list"
  gz_extra :: "byte list"
  gz_name :: "byte list"
  gz_comment :: "byte list"
  gz_hcrc :: "byte list"

definition le16 :: "nat \<Rightarrow> byte list" where
  "le16 n = [of_nat n, of_nat (n div 256)]"

definition gz_opt :: "bool \<Rightarrow> 'a list \<Rightarrow> 'a list" where
  "gz_opt b xs = (if b then xs else [])"

definition gz_header_bytes :: "gz_header \<Rightarrow> byte list" where
  "gz_header_bytes h =
     [0x1F, 0x8B, 8, gz_flg h] @ gz_fixed h
     @ gz_opt (bit (gz_flg h) 2) (le16 (length (gz_extra h)) @ gz_extra h)
     @ gz_opt (bit (gz_flg h) 3) (gz_name h @ [0])
     @ gz_opt (bit (gz_flg h) 4) (gz_comment h @ [0])
     @ gz_opt (bit (gz_flg h) 1) (gz_hcrc h)"

definition gz_header_ok :: "gz_header \<Rightarrow> bool" where
  "gz_header_ok h \<longleftrightarrow> length (gz_fixed h) = 6 \<and> length (gz_extra h) < 2 ^ 16 \<and>
     0 \<notin> set (gz_name h) \<and> 0 \<notin> set (gz_comment h) \<and> length (gz_hcrc h) = 2"

lemma flag_bits:
  "(w :: byte) AND 2 \<noteq> 0 \<longleftrightarrow> bit w 1" "w AND 4 \<noteq> 0 \<longleftrightarrow> bit w 2"
  "w AND 8 \<noteq> 0 \<longleftrightarrow> bit w 3" "w AND 16 \<noteq> 0 \<longleftrightarrow> bit w 4"
  using and_exp_eq_0_iff_not_bit [of w 1] and_exp_eq_0_iff_not_bit [of w 2]
    and_exp_eq_0_iff_not_bit [of w 3] and_exp_eq_0_iff_not_bit [of w 4] by simp_all

lemma scan_zero_at:
  assumes "0 \<notin> set s" and "p = pre @ s @ 0 # rest" and "off \<le> length s"
  shows "scan_zero p (length pre + off) = length pre + length s"
  using assms(3)
proof (induction "length s - off" arbitrary: off)
  case 0
  then have "off = length s" by simp
  then show ?case by (subst scan_zero.simps) (simp add: assms(2) nth_append)
next
  case (Suc n)
  then have lt: "off < length s" by simp
  then have "p ! (length pre + off) = s ! off" by (simp add: assms(2) nth_append)
  moreover from assms(1) lt have "s ! off \<noteq> 0" by (metis nth_mem)
  ultimately have "scan_zero p (length pre + off) = scan_zero p (length pre + (off + 1))"
    using lt by (subst scan_zero.simps) (simp add: assms(2))
  also have "\<dots> = length pre + length s" using Suc lt by (intro Suc.hyps(1)) simp_all
  finally show ?case .
qed

lemma skip_string_at:
  "0 \<notin> set s \<Longrightarrow> skip_string (pre @ s @ 0 # rest) (length pre) = Some (length pre + (length s + 1))"
  using scan_zero_at [of s _ pre rest 0] by (simp add: skip_string_def Let_def)

lemma skip_str_flag:
  assumes "b \<longleftrightarrow> flg AND f \<noteq> 0" and "0 \<notin> set s"
  shows "skip_str_flags (pre @ gz_opt b (s @ [0]) @ rest) flg (f # fs) (length pre) =
         skip_str_flags ((pre @ gz_opt b (s @ [0])) @ rest) flg fs (length (pre @ gz_opt b (s @ [0])))"
  using assms skip_string_at [of s pre rest] by (simp add: gz_opt_def)

lemma advance_at: "advance (length pre) (length s) (length (pre @ s @ rest)) = Some (length (pre @ s))"
  by (simp add: advance_def)

lemma le16_value:
  assumes "n < 2 ^ 16"
  shows "unat ((ucast (of_nat n :: byte) :: u32) OR push_bit 8 (ucast (of_nat (n div 256) :: byte))) = n"
proof -
  have "(ucast (of_nat n :: byte) :: u32) OR push_bit 8 (ucast (of_nat (n div 256) :: byte)) = of_nat n"
  proof (rule bit_word_eqI)
    fix i
    assume "i < LENGTH(32)"
    moreover have "n div 256 = drop_bit 8 n" by (simp add: drop_bit_eq_div)
    moreover have "\<not> bit n i" if "16 \<le> i"
      using assms that by (metis bit_take_bit_iff not_le take_bit_nat_eq_self)
    ultimately show "bit ((ucast (of_nat n :: byte) :: u32) OR push_bit 8 (ucast (of_nat (n div 256) :: byte))) i
        = bit (of_nat n :: u32) i"
      by (cases "i < 8"; cases "i < 16") (auto simp: bit_simps bit_of_nat_iff_bit)
  qed
  then show ?thesis using assms by (simp add: unat_of_nat)
qed

lemma skip_fextra_at:
  assumes "length s < 2 ^ 16"
  shows "skip_fextra (pre @ (le16 (length s) @ s) @ rest) (length pre) = Some (length (pre @ le16 (length s) @ s))"
  using le16_value [OF assms]
  by (simp add: skip_fextra_def le16_def nth_append advance_def Let_def)

lemma skip_gzip_tail_at:
  assumes "0 \<notin> set s" and "0 \<notin> set c" and "length h = 2"
  shows "skip_gzip_tail (pre @ gz_opt (bit flg 3) (s @ [0]) @ gz_opt (bit flg 4) (c @ [0]) @ gz_opt (bit flg 1) h @ rest)
           (length pre) flg
       = Some (length (pre @ gz_opt (bit flg 3) (s @ [0]) @ gz_opt (bit flg 4) (c @ [0]) @ gz_opt (bit flg 1) h))"
  (is "skip_gzip_tail (pre @ ?s @ ?c @ ?h @ rest) _ _ = _")
proof -
  have "skip_str_flags (pre @ ?s @ ?c @ ?h @ rest) flg [0x08, 0x10] (length pre)
      = skip_str_flags ((pre @ ?s) @ ?c @ ?h @ rest) flg [0x10] (length (pre @ ?s))"
    by (rule skip_str_flag) (simp_all only: flag_bits assms(1) not_False_eq_True)
  also have "\<dots> = skip_str_flags (((pre @ ?s) @ ?c) @ ?h @ rest) flg [] (length ((pre @ ?s) @ ?c))"
    by (rule skip_str_flag) (simp_all only: flag_bits assms(2) not_False_eq_True)
  finally have fl: "skip_str_flags (pre @ ?s @ ?c @ ?h @ rest) flg [0x08, 0x10] (length pre)
      = Some (length ((pre @ ?s) @ ?c))" by simp
  show ?thesis
  proof (cases "bit flg 1")
    case True
    then have "gz_opt (bit flg 1) h = h" by (simp add: gz_opt_def)
    with True show ?thesis
      using advance_at [of "(pre @ ?s) @ ?c" h rest] assms(3)
      unfolding skip_gzip_tail_def fl by (simp add: flag_bits)
  next
    case False
    then show ?thesis unfolding skip_gzip_tail_def fl by (simp add: flag_bits gz_opt_def)
  qed
qed

lemma skip_gzip_flags_at:
  assumes "gz_header_ok h"
  shows "skip_gzip_flags (gz_header_bytes h @ rest) 10 (gz_flg h) = Some (length (gz_header_bytes h))"
proof -
  let ?pre = "[0x1F, 0x8B, 8, gz_flg h] @ gz_fixed h"
  let ?x = "le16 (length (gz_extra h)) @ gz_extra h"
  from assms have p10: "10 = length ?pre" by (simp add: gz_header_ok_def)
  have ok: "0 \<notin> set (gz_name h)" "0 \<notin> set (gz_comment h)" "length (gz_hcrc h) = 2"
    "length (gz_extra h) < 2 ^ 16" using assms by (simp_all add: gz_header_ok_def)
  show ?thesis
  proof (cases "bit (gz_flg h) 2")
    case True
    then show ?thesis
      using skip_gzip_tail_at [OF ok(1-3), of "?pre @ ?x" "gz_flg h" rest]
        skip_fextra_at [OF ok(4), of ?pre]
      by (simp add: skip_gzip_flags_def gz_header_bytes_def flag_bits gz_opt_def [of True] p10
          del: One_nat_def)
  next
    case False
    then show ?thesis
      using skip_gzip_tail_at [OF ok(1-3), of ?pre "gz_flg h" rest]
      by (simp add: skip_gzip_flags_def gz_header_bytes_def flag_bits gz_opt_def [of False] p10
          del: One_nat_def)
  qed
qed

lemma skip_gzip_header_at:
  assumes "gz_header_ok h" and "8 \<le> length rest"
  shows "skip_gzip_header (gz_header_bytes h @ rest) = Some (length (gz_header_bytes h))"
proof -
  have "10 \<le> length (gz_header_bytes h)" using assms(1) by (simp add: gz_header_bytes_def gz_header_ok_def)
  moreover have "check_gzip_magic (gz_header_bytes h @ rest) = 0"
    using assms by (simp add: check_gzip_magic_def gz_header_bytes_def gz_header_ok_def)
  moreover have "(gz_header_bytes h @ rest) ! 3 = gz_flg h" by (simp add: gz_header_bytes_def)
  ultimately show ?thesis using skip_gzip_flags_at [OF assms(1), of rest] assms(2)
    by (auto simp: skip_gzip_header_def)
qed

section \<open>Acceptance\<close>

lemma check_gzip_trailer_0:
  assumes "check_gzip_trailer st p e out = (0, st')" and "crc_ready st"
  shows "e + 8 \<le> length p \<and> crc32 (bdata out) = read32le (drop e p) \<and>
         ucast (blen out) = read32le (drop (e + 4) p) \<and> crc_ready st'"
  using assms crc32_update_init [OF assms(2)] crc_ready_init [OF assms(2)]
  by (auto simp: check_gzip_trailer_def Let_def split: if_splits)

lemma decompress_gzip_accepts:
  assumes "decompress_gzip st p out = (Some out', st')" and "crc_ready st"
  shows "18 \<le> length p \<and> crc32 (bdata out') = read32le (drop (length p - 8) p) \<and>
         ucast (blen out') = read32le (drop (length p - 4) p) \<and> crc_ready st'"
proof -
  from assms(1) obtain off where h: "skip_gzip_header p = Some off"
    by (auto simp: decompress_gzip_def split: option.splits)
  then have len: "18 \<le> length p"
    by (auto simp: skip_gzip_header_def check_gzip_magic_def split: if_splits)
  then have "length p - 8 + 4 = length p - 4" by simp
  with len assms h check_gzip_trailer_0 [of st p "length p - 8" out' st'] show ?thesis
    by (auto simp: decompress_gzip_def split: option.splits prod.splits if_splits)
qed

lemma decompress_gzip_ready: "crc_ready st \<Longrightarrow> crc_ready (snd (decompress_gzip st p out))"
  by (auto simp: decompress_gzip_def check_gzip_trailer_def Let_def crc_ready_init split: option.splits)

section \<open>Members a compressor writes\<close>

text \<open>
  A list of blocks, all but the last without the last-block flag; bits are packed into bytes
  from the lowest bit up, and the final byte is filled with zeros.
\<close>

fun blocks_bits :: "nat \<Rightarrow> block list \<Rightarrow> bool list" where
  "blocks_bits off [] = []"
| "blocks_bits off [b] = block_bits off True b"
| "blocks_bits off (b # bs) =
     block_bits off False b @ blocks_bits (off + length (block_bits off False b)) bs"

fun blocks_ok :: "byte list \<Rightarrow> block list \<Rightarrow> bool" where
  "blocks_ok d [] = True"
| "blocks_ok d (b # bs) = (block_ok d b \<and> blocks_ok (block_step d b) bs)"

definition blocks_data :: "byte list \<Rightarrow> block list \<Rightarrow> byte list" where
  "blocks_data d bs = foldl block_step d bs"

function pack_bits :: "bool list \<Rightarrow> byte list" where
  "pack_bits bs =
     (if bs = [] then [] else word_of_int (bits_val (take 8 bs)) # pack_bits (drop 8 bs))"
  by pat_completeness auto
termination by (relation "measure length") (auto simp: neq_Nil_conv)

declare pack_bits.simps [simp del]

definition le32 :: "u32 \<Rightarrow> byte list" where
  "le32 w = map (\<lambda>i. ucast (drop_bit (i * 8) w)) [0, 1, 2, 3]"

definition gzip_member :: "gz_header \<Rightarrow> block list \<Rightarrow> byte list" where
  "gzip_member h bs =
     (let d = blocks_data [] bs
      in gz_header_bytes h @ pack_bits (blocks_bits 0 bs) @ le32 (crc32 d) @ le32 (of_nat (length d)))"

lemma blocks_data_grows: "length d \<le> length (blocks_data d bs)"
  unfolding blocks_data_def
proof (induction bs arbitrary: d)
  case (Cons b bs)
  then show ?case using block_step_grows [of d b] order_trans by fastforce
qed simp

lemma nth_byte_bits: "i < 8 \<Longrightarrow> byte_bits b ! i = bit b i"
  by (simp add: byte_bits_def)

lemma bit_bits_val: "bit (bits_val bs) i \<longleftrightarrow> i < length bs \<and> bs ! i"
  by (simp add: bits_val_def bit_horner_sum_bit_iff)

lemma byte_bits_pack:
  assumes "length bs \<le> 8"
  shows "byte_bits (word_of_int (bits_val bs)) = bs @ replicate (8 - length bs) False"
  using assms
  by (auto intro!: nth_equalityI simp: nth_byte_bits nth_append bit_word_of_int_iff bit_bits_val split: if_splits)

lemma pack_bits_bits: "\<exists>pad. concat (map byte_bits (pack_bits bs)) = bs @ pad"
proof (induction bs rule: pack_bits.induct)
  case (1 bs)
  show ?case
  proof (cases "bs = []")
    case True
    then show ?thesis by (simp add: pack_bits.simps)
  next
    case False
    with 1 obtain pad where IH: "concat (map byte_bits (pack_bits (drop 8 bs))) = drop 8 bs @ pad" by blast
    have hd: "byte_bits (word_of_int (bits_val (take 8 bs))) = take 8 bs @ replicate (8 - length (take 8 bs)) False"
      by (rule byte_bits_pack) simp
    have "concat (map byte_bits (pack_bits bs))
        = take 8 bs @ replicate (8 - length (take 8 bs)) False @ drop 8 bs @ pad"
      using False by (subst pack_bits.simps) (simp add: IH hd)
    also have "\<dots> = bs @ replicate (8 - length (take 8 bs)) False @ pad"
      by (cases "length bs \<le> 8") simp_all
    finally show ?thesis by blast
  qed
qed

lemma inflate_blocks_correct:
  assumes "bs \<noteq> []" and "br_ok r" and "br_stream r = blocks_bits off bs @ rest"
    and "(length (br_stream r) + off) mod 8 = 0"
    and "blocks_ok (bdata out) bs" and "length (blocks_data (bdata out) bs) < 2 ^ 64"
  shows "\<exists>r' out'. inflate_blocks r out = Some (r', out') \<and> bdata out' = blocks_data (bdata out) bs \<and>
                   br_ok r' \<and> br_stream r' = rest"
  using assms
proof (induction bs arbitrary: r out off)
  case Nil
  then show ?case by simp
next
  case (Cons b bs)
  have grow: "length (block_step (bdata out) b) < 2 ^ 64"
    using Cons.prems(6) blocks_data_grows [of "block_step (bdata out) b" bs] by (simp add: blocks_data_def)
  have ok: "block_ok (bdata out) b" using Cons.prems(5) by simp
  show ?case
  proof (cases bs)
    case Nil
    then have "br_stream r = block_bits off True b @ rest" using Cons.prems(3) by simp
    from inflate_block_correct [OF Cons.prems(2) this Cons.prems(4) ok grow] Nil show ?thesis
      by (subst inflate_blocks.simps) (auto simp: blocks_data_def)
  next
    case (Cons b' bs')
    let ?n = "length (block_bits off False b)"
    let ?more = "blocks_bits (off + ?n) bs @ rest"
    from Cons.prems(3) \<open>bs = b' # bs'\<close> have st: "br_stream r = block_bits off False b @ ?more" by simp
    from inflate_block_correct [OF Cons.prems(2) st Cons.prems(4) ok grow] obtain r1 out1 where
      b: "inflate_block r out = Some (0, r1, out1)" "bdata out1 = block_step (bdata out) b"
      "br_ok r1" "br_stream r1 = ?more" by auto
    have "\<exists>r' out'. inflate_blocks r1 out1 = Some (r', out') \<and> bdata out' = blocks_data (bdata out1) bs \<and>
                   br_ok r' \<and> br_stream r' = rest"
    proof (rule Cons.IH [OF _ b(3) b(4)])
      show "bs \<noteq> []" using \<open>bs = b' # bs'\<close> by simp
      show "(length (br_stream r1) + (off + ?n)) mod 8 = 0"
        using Cons.prems(4) unfolding st b(4) by (simp add: ac_simps)
      show "blocks_ok (bdata out1) bs" using Cons.prems(5) b(2) by simp
      show "length (blocks_data (bdata out1) bs) < 2 ^ 64"
        using Cons.prems(6) b(2) by (simp add: blocks_data_def)
    qed
    with b show ?thesis by (subst inflate_blocks.simps) (simp add: blocks_data_def)
  qed
qed

lemma read32le_le32: "read32le (le32 w @ rest) = w"
proof (rule bit_word_eqI)
  fix n
  assume "n < LENGTH(32)"
  moreover have "read32le (le32 w @ rest) =
    ucast (ucast w :: byte) OR push_bit 8 (ucast (ucast (drop_bit 8 w) :: byte)) OR
    push_bit 16 (ucast (ucast (drop_bit 16 w) :: byte)) OR push_bit 24 (ucast (ucast (drop_bit 24 w) :: byte))"
    by (simp add: read32le_def le32_def or.assoc)
  moreover have "n < 8 \<or> (8 \<le> n \<and> n < 16) \<or> (16 \<le> n \<and> n < 24) \<or> 24 \<le> n" by linarith
  ultimately show "bit (read32le (le32 w @ rest)) n = bit w n"
    by (elim disjE) (auto simp: bit_simps)
qed

lemma length_le32 [simp]: "length (le32 w) = 4"
  by (simp add: le32_def)

lemma ucast_of_nat_64_32: "(ucast (of_nat n :: u64) :: u32) = of_nat n"
  by (rule bit_word_eqI) (auto simp: bit_simps bit_of_nat_iff_bit)

lemma decompress_gzip_member:
  assumes "gz_header_ok h" and "bs \<noteq> []" and "blocks_ok [] bs"
    and "length (blocks_data [] bs) < 2 ^ 64" and "crc_ready st"
  shows "\<exists>out st'. decompress_gzip st (gzip_member h bs) BUF_INIT = (Some out, st') \<and>
                   bdata out = blocks_data [] bs"
proof -
  let ?d = "blocks_data [] bs" and ?z = "pack_bits (blocks_bits 0 bs)"
  let ?t = "le32 (crc32 ?d) @ le32 (of_nat (length ?d))" and ?n = "length (gz_header_bytes h)"
  have p: "gzip_member h bs = gz_header_bytes h @ ?z @ ?t" by (simp add: gzip_member_def Let_def)
  have hdr: "skip_gzip_header (gzip_member h bs) = Some ?n"
    unfolding p by (rule skip_gzip_header_at [OF assms(1)]) simp
  have body: "take (length (gzip_member h bs) - ?n - 8) (drop ?n (gzip_member h bs)) = ?z"
    by (simp add: p)
  obtain pad where "concat (map byte_bits ?z) = blocks_bits 0 bs @ pad" using pack_bits_bits by blast
  then have s: "br_stream (br_init ?z) = blocks_bits 0 bs @ pad" by (simp add: br_stream_init)
  have "(length (br_stream (br_init ?z)) + 0) mod 8 = 0" by (simp add: br_stream_init)
  from inflate_blocks_correct [OF assms(2) br_ok_init s this, of BUF_INIT] assms(3,4)
  obtain r out where b: "inflate_blocks (br_init ?z) BUF_INIT = Some (r, out)" "bdata out = ?d"
    by (auto simp: BUF_INIT_def)
  have l: "length (gzip_member h bs) - 8 = ?n + length ?z" by (simp add: p)
  have "check_gzip_trailer st (gzip_member h bs) (length (gzip_member h bs) - 8) out = (0, crc32_init st)"
    using crc32_update_init [OF assms(5), of ?d] b(2)
      read32le_le32 [of "crc32 ?d"] read32le_le32 [of "of_nat (length ?d)" "[]"] length_le32 [of "crc32 ?d"]
    unfolding check_gzip_trailer_def l
    by (simp add: p blen_def Let_def ucast_of_nat_64_32)
  with hdr b(1) show ?thesis unfolding decompress_gzip_def using b(2) by (simp add: body) (simp add: p)
qed


text \<open>Small members to exercise the properties.\<close>

definition sample_header :: gz_header where
  "sample_header = \<lparr>gz_flg = 8, gz_fixed = replicate 6 0, gz_extra = [], gz_name = [0x61, 0x62],
                    gz_comment = [], gz_hcrc = [0, 0]\<rparr>"

lemma sample_member:
  assumes "length d < 2 ^ 16"
  shows "\<exists>out st'. decompress_gzip crc_state0 (gzip_member sample_header [Stored d]) BUF_INIT = (Some out, st')
     \<and> bdata out = d"
  using decompress_gzip_member [of sample_header "[Stored d]" crc_state0] assms crc_ready_state0
  by (simp add: blocks_data_def gz_header_ok_def sample_header_def)

section \<open>Properties\<close>

text \<open>
  C5: decompressing a gzip member gives back the data it encodes.  For every header with any
  of the optional fields, and every sequence of stored and fixed-code blocks (literals and
  back references, also overlapping ones and ones that reach into earlier blocks), followed by
  the CRC and length of the data, \<open>decompress_gzip\<close> succeeds and the output buffer holds
  exactly the data, whatever the state of the CRC table before the call.
\<close>

theorem gunzip_inverts_gzip:
  assumes "gz_header_ok h" and "bs \<noteq> []" and "blocks_ok [] bs"
    and "length (blocks_data [] bs) < 2 ^ 64" and "crc_ready st"
  shows "\<exists>out st'. decompress_gzip st (gzip_member h bs) BUF_INIT = (Some out, st') \<and>
                   bdata out = blocks_data [] bs"
  using assms by (rule decompress_gzip_member)

lemma gunzip_inverts_gzip_witness:
  "\<exists>out st'. decompress_gzip crc_state0
     (gzip_member \<lparr>gz_flg = 8, gz_fixed = replicate 6 0, gz_extra = [], gz_name = [0x61, 0x62],
                   gz_comment = [], gz_hcrc = [0, 0]\<rparr>
        [Stored [1, 2, 3], Fixed [Lit 65, Ref 0 0 1 0]]) BUF_INIT = (Some out, st')
     \<and> bdata out = [1, 2, 3, 65, 3, 65, 3]"
proof -
  let ?h = "\<lparr>gz_flg = 8, gz_fixed = replicate 6 0, gz_extra = [], gz_name = [0x61, 0x62],
             gz_comment = [], gz_hcrc = [0, 0]\<rparr> :: gz_header"
  let ?bs = "[Stored [1, 2, 3], Fixed [Lit 65, Ref 0 0 1 0]]"
  have d: "blocks_data [] ?bs = [1, 2, 3, 65, 3, 65, 3]"
    by (simp add: blocks_data_def expand_def lz_copy_def ref_len_def ref_dist_def LEN_BASE_def
        DIST_BASE_def upt_rec)
  have "gz_header_ok ?h" by (simp add: gz_header_ok_def)
  moreover have "blocks_ok [] ?bs"
    by (simp add: fixed_lens(3,4) fixed_lit_code fixed_dist_code ref_dist_def LEN_EXTRA_def
        DIST_EXTRA_def DIST_BASE_def)
  moreover have "length (blocks_data [] ?bs) < 2 ^ 64" by (simp only: d) simp
  ultimately show ?thesis
    using gunzip_inverts_gzip [of ?h ?bs crc_state0] crc_ready_state0 by (simp only: d) simp
qed

text \<open>
  C8: \<open>decompress_gzip\<close> accepts only data that matches the trailer: if it returns a buffer,
  the input has at least 18 bytes and its last eight are the CRC-32 of the buffer's contents
  and their length modulo 2 to the 32.
\<close>

theorem gunzip_accepts_only_matching:
  assumes "decompress_gzip st p out = (Some out', st')" and "crc_ready st"
  shows "18 \<le> length p \<and> crc32 (bdata out') = read32le (drop (length p - 8) p) \<and>
         ucast (blen out') = read32le (drop (length p - 4) p) \<and> crc_ready st'"
  using assms by (rule decompress_gzip_accepts)

lemma gunzip_accepts_only_matching_witness:
  "\<exists>out st'. decompress_gzip crc_state0 (gzip_member sample_header [Stored [1, 2, 3]]) BUF_INIT = (Some out, st')
     \<and> crc32 (bdata out) = read32le (drop (length (gzip_member sample_header [Stored [1, 2, 3]]) - 8)
                               (gzip_member sample_header [Stored [1, 2, 3]]))"
  using sample_member [of "[1, 2, 3]"] gunzip_accepts_only_matching [OF _ crc_ready_state0] by fastforce

text \<open>
  A changed byte does not go unnoticed.  If decompressing two inputs gives contents that
  differ in exactly one byte, the inputs' trailers differ: no damage to the compressed data
  that flips one byte of the output is accepted under the original CRC.
\<close>

theorem gunzip_detects_byte_change:
  assumes "decompress_gzip st p out = (Some o1, st1)" and "decompress_gzip st q out = (Some o2, st2)"
    and "crc_ready st" and "bdata o1 = a @ x # b" and "bdata o2 = a @ y # b" and "x \<noteq> y"
  shows "read32le (drop (length p - 8) p) \<noteq> read32le (drop (length q - 8) q)"
proof -
  have "bit CRC32_POLY 31" by (simp add: CRC32_POLY_def)
  from crc_serial_one_byte [OF this assms(6), of 0 a b] have "crc32 (bdata o1) \<noteq> crc32 (bdata o2)"
    by (simp add: crc32_def assms(4,5))
  then show ?thesis
    using decompress_gzip_accepts [OF assms(1,3)] decompress_gzip_accepts [OF assms(2,3)] by simp
qed

lemma gunzip_detects_byte_change_witness:
  "read32le (drop (length (gzip_member sample_header [Stored [1, 2, 3]]) - 8) (gzip_member sample_header [Stored [1, 2, 3]]))
   \<noteq> read32le (drop (length (gzip_member sample_header [Stored [1, 7, 3]]) - 8) (gzip_member sample_header [Stored [1, 7, 3]]))"
proof -
  obtain o1 s1 where p: "decompress_gzip crc_state0 (gzip_member sample_header [Stored [1, 2, 3]]) BUF_INIT = (Some o1, s1)"
    "bdata o1 = [1] @ 2 # [3]" using sample_member [of "[1, 2, 3]"] by auto
  obtain o2 s2 where q: "decompress_gzip crc_state0 (gzip_member sample_header [Stored [1, 7, 3]]) BUF_INIT = (Some o2, s2)"
    "bdata o2 = [1] @ 7 # [3]" using sample_member [of "[1, 7, 3]"] by auto
  show ?thesis by (rule gunzip_detects_byte_change [OF p(1) q(1) crc_ready_state0 p(2) q(2)]) simp
qed

text \<open>
  Skipping the header stops exactly at the deflate data, for every combination of the
  optional fields (extra field, name, comment, header CRC) announced by the flag byte.
\<close>

theorem gzip_header_skipped:
  assumes "gz_header_ok h" and "8 \<le> length rest"
  shows "skip_gzip_header (gz_header_bytes h @ rest) = Some (length (gz_header_bytes h))"
  using assms by (rule skip_gzip_header_at)

lemma gzip_header_skipped_witness:
  "skip_gzip_header ([0x1F, 0x8B, 8, 30, 0, 0, 0, 0, 0, 3, 2, 0, 7, 7, 0x61, 0, 0x62, 0x63, 0, 1, 2] @ replicate 8 5)
   = Some 21"
  using gzip_header_skipped [of "\<lparr>gz_flg = 30, gz_fixed = [0, 0, 0, 0, 0, 3], gz_extra = [7, 7],
      gz_name = [0x61], gz_comment = [0x62, 0x63], gz_hcrc = [1, 2]\<rparr>" "replicate 8 5"]
  by (simp add: gz_header_ok_def gz_header_bytes_def gz_opt_def le16_def bit_numeral_rec bit_0)

text \<open>
  C21: the body of a compressed block, for arbitrary Huffman tables.  Given any code-length
  tables that have an end-of-block code, the symbol loop decodes the encoding of any sequence
  of literals and back references to exactly the bytes the sequence stands for, continuing the
  output written before, and stops behind the end-of-block code.
\<close>

theorem run_loop_decodes_tokens:
  assumes "tables_ok t" and "toks_ok t (bdata out) ts" and "length (expand (bdata out) ts) < 2 ^ 64"
    and "br_ok r" and "br_stream r = concat (map (tok_bits t) ts) @ end_of_block t @ rest"
  shows "\<exists>r' out'. run_loop r out (huff_build (lit_lens t) (lit_n t)) (huff_build (dist_lens t) (dist_n t)) fin
        = Some (fin, r', out') \<and>
      bdata out' = expand (bdata out) ts \<and> br_ok r' \<and> br_stream r' = rest"
  using assms by (rule run_loop_tokens)

lemma run_loop_decodes_tokens_witness:
  "\<exists>r' out'. run_loop (br_init (pack_bits (concat (map (tok_bits fixed_tables) [Lit 65, Ref 0 0 0 0])
         @ end_of_block fixed_tables))) BUF_INIT
       (huff_build (lit_lens fixed_tables) (lit_n fixed_tables))
       (huff_build (dist_lens fixed_tables) (dist_n fixed_tables)) 1 = Some (1, r', out') \<and>
     bdata out' = [65, 65, 65, 65]"
proof -
  let ?ts = "[Lit 65, Ref 0 0 0 0]"
  let ?bits = "concat (map (tok_bits fixed_tables) ?ts) @ end_of_block fixed_tables"
  obtain pad where "concat (map byte_bits (pack_bits ?bits)) = ?bits @ pad" using pack_bits_bits by blast
  then have s: "br_stream (br_init (pack_bits ?bits))
      = concat (map (tok_bits fixed_tables) ?ts) @ end_of_block fixed_tables @ pad" by (simp add: br_stream_init)
  have e: "expand (bdata BUF_INIT) ?ts = [65, 65, 65, 65]"
    by (simp add: expand_def lz_copy_def ref_len_def ref_dist_def LEN_BASE_def DIST_BASE_def BUF_INIT_def
        upt_rec)
  have "toks_ok fixed_tables (bdata BUF_INIT) ?ts"
    by (simp add: fixed_lens(3,4) fixed_lit_code fixed_dist_code ref_dist_def LEN_EXTRA_def
        DIST_EXTRA_def DIST_BASE_def BUF_INIT_def)
  then show ?thesis
    using run_loop_decodes_tokens [OF fixed_tables_ok _ _ br_ok_init s, of BUF_INIT 1] e by fastforce
qed

end
