(* ===== verification/Bytes.thy ===== *)
theory Bytes
  imports Prelude
begin

text \<open>
  Byte buffers and their multi-byte fields.  A buffer is a byte list; \<open>memcpy\<close> and \<open>memset\<close>
  into it are \<open>put_bytes\<close>.  The host is little-endian, so a field of a kernel structure is read
  with \<open>get16\<close> and \<open>get32\<close> and written as its \<open>le16\<close> or \<open>le32\<close> bytes, and \<open>htons\<close> and
  \<open>htonl\<close> reverse the bytes.
\<close>

section \<open>Copying\<close>

text \<open>\<open>memcpy (p + off, src, n)\<close> and \<open>memset\<close>.\<close>

definition put_bytes :: "byte list \<Rightarrow> nat \<Rightarrow> byte list \<Rightarrow> byte list" where
  "put_bytes p off d = take off p @ d @ drop (off + length d) p"

definition get_bytes :: "byte list \<Rightarrow> nat \<Rightarrow> nat \<Rightarrow> byte list" where
  "get_bytes p off n = take n (drop off p)"

lemma length_put_bytes [simp]: "off + length d \<le> length p \<Longrightarrow> length (put_bytes p off d) = length p"
  by (simp add: put_bytes_def)

lemma length_get_bytes [simp]: "off + n \<le> length p \<Longrightarrow> length (get_bytes p off n) = n"
  by (simp add: get_bytes_def)

lemma get_put_same: "off + length d \<le> length p \<Longrightarrow> get_bytes (put_bytes p off d) off (length d) = d"
  by (simp add: get_bytes_def put_bytes_def)

lemma nth_put_bytes:
  "off + length d \<le> length p \<Longrightarrow> i < length p \<Longrightarrow>
   put_bytes p off d ! i = (if off \<le> i \<and> i < off + length d then d ! (i - off) else p ! i)"
  by (auto simp: put_bytes_def nth_append min_def)

lemma nth_get_bytes: "off + n \<le> length p \<Longrightarrow> i < n \<Longrightarrow> get_bytes p off n ! i = p ! (off + i)"
  by (simp add: get_bytes_def)

lemma get_put_other:
  assumes "off + length d \<le> length p" and "o2 + n \<le> length p" and "off + length d \<le> o2 \<or> o2 + n \<le> off"
  shows "get_bytes (put_bytes p off d) o2 n = get_bytes p o2 n"
  using assms by (intro nth_equalityI) (auto simp: nth_get_bytes nth_put_bytes)

lemma length_put_bytes_le: "length p \<le> length (put_bytes p off d)"
  by (simp add: put_bytes_def)

section \<open>Fields in host order\<close>

definition le16 :: "u16 \<Rightarrow> byte list" where
  "le16 v = [ucast v, ucast (drop_bit 8 v)]"

definition le32 :: "u32 \<Rightarrow> byte list" where
  "le32 v = [ucast v, ucast (drop_bit 8 v), ucast (drop_bit 16 v), ucast (drop_bit 24 v)]"

definition get16 :: "byte list \<Rightarrow> nat \<Rightarrow> u16" where
  "get16 p i = ucast (p ! i) OR push_bit 8 (ucast (p ! (i + 1)))"

definition get32 :: "byte list \<Rightarrow> nat \<Rightarrow> u32" where
  "get32 p i = ucast (p ! i) OR push_bit 8 (ucast (p ! (i + 1))) OR
               push_bit 16 (ucast (p ! (i + 2))) OR push_bit 24 (ucast (p ! (i + 3)))"

definition htons :: "u16 \<Rightarrow> u16" where
  "htons v = push_bit 8 v OR drop_bit 8 v"

definition htonl :: "u32 \<Rightarrow> u32" where
  "htonl v = push_bit 24 (take_bit 8 v) OR push_bit 16 (take_bit 8 (drop_bit 8 v)) OR
             push_bit 8 (take_bit 8 (drop_bit 16 v)) OR drop_bit 24 v"

lemma word_bytes_16: "(ucast (ucast v :: byte) :: u16) OR push_bit 8 (ucast (ucast (drop_bit 8 v) :: byte)) = v"
proof (rule bit_word_eqI)
  fix n
  assume "n < LENGTH(16)"
  then show "bit ((ucast (ucast v :: byte) :: u16) OR push_bit 8 (ucast (ucast (drop_bit 8 v) :: byte))) n = bit v n"
    by (cases "n < 8") (auto simp: bit_simps)
qed

lemma word_bytes_32:
  "(ucast (ucast w :: byte) :: u32) OR push_bit 8 (ucast (ucast (drop_bit 8 w) :: byte)) OR
   push_bit 16 (ucast (ucast (drop_bit 16 w) :: byte)) OR push_bit 24 (ucast (ucast (drop_bit 24 w) :: byte)) = w"
  (is "?l = w")
proof (rule bit_word_eqI)
  fix n
  assume "n < LENGTH(32)"
  moreover have "n < 8 \<or> (8 \<le> n \<and> n < 16) \<or> (16 \<le> n \<and> n < 24) \<or> 24 \<le> n" by linarith
  ultimately show "bit ?l n = bit w n" by (elim disjE) (auto simp: bit_simps)
qed

lemma length_le [simp]: "length (le16 v) = 2" "length (le32 w) = 4"
  by (simp_all add: le16_def le32_def)

lemma get16_le16 [simp]: "get16 (a @ le16 v @ b) (length a) = v"
  using word_bytes_16 [of v] by (simp add: get16_def le16_def nth_append)

lemma get32_le32 [simp]: "get32 (a @ le32 w @ b) (length a) = w"
  using word_bytes_32 [of w] by (simp add: get32_def le32_def nth_append)

lemma get16_at: "i + 2 \<le> length p \<Longrightarrow> take 2 (drop i p) = le16 v \<Longrightarrow> get16 p i = v"
  using get16_le16 [of "take i p" v "drop (i + 2) p"]
  by (metis (no_types, lifting) add.commute add_leD1 append_take_drop_id drop_drop length_take min.absorb2)

lemma get32_at: "i + 4 \<le> length p \<Longrightarrow> take 4 (drop i p) = le32 v \<Longrightarrow> get32 p i = v"
  using get32_le32 [of "take i p" v "drop (i + 4) p"]
  by (metis (no_types, lifting) add.commute add_leD1 append_take_drop_id drop_drop length_take min.absorb2)

text \<open>The bytes of a value in network order are its host bytes reversed.\<close>

lemma le32_htonl: "le32 (htonl v) = rev (le32 v)"
proof -
  have "ucast (htonl v) = (ucast (drop_bit 24 v) :: byte)"
    "ucast (drop_bit 8 (htonl v)) = (ucast (drop_bit 16 v) :: byte)"
    "ucast (drop_bit 16 (htonl v)) = (ucast (drop_bit 8 v) :: byte)"
    "ucast (drop_bit 24 (htonl v)) = (ucast v :: byte)"
    by (rule bit_word_eqI; auto simp: htonl_def bit_simps)+
  then show ?thesis by (simp add: le32_def)
qed

section \<open>Strings as bytes\<close>

definition byte_of :: "char \<Rightarrow> byte" where
  "byte_of c = of_nat (of_char c)"

definition char_at :: "byte \<Rightarrow> char" where
  "char_at b = char_of (unat b)"

text \<open>The bytes of a C string, its NUL included, and the string at an offset.\<close>

definition cstr_bytes :: "string \<Rightarrow> byte list" where
  "cstr_bytes s = map byte_of s @ [0]"

definition cstr_at :: "byte list \<Rightarrow> nat \<Rightarrow> string" where
  "cstr_at p i = map char_at (takeWhile (\<lambda>b. b \<noteq> 0) (drop i p))"

lemma char_at_byte_of [simp]: "char_at (byte_of c) = c"
proof -
  have "of_char c < (256 :: nat)" by (simp add: nat_of_char_less_256)
  then have "unat (of_nat (of_char c) :: byte) = of_char c" by (simp add: unat_of_nat)
  then show ?thesis by (simp add: char_at_def byte_of_def)
qed

lemma byte_of_0 [simp]: "byte_of c = 0 \<longleftrightarrow> c = char_of (0 :: nat)"
proof
  assume "byte_of c = 0"
  then have "char_at 0 = c" using char_at_byte_of [of c] by simp
  then show "c = char_of (0 :: nat)" by (simp add: char_at_def)
qed (simp add: byte_of_def)

lemma length_cstr_bytes [simp]: "length (cstr_bytes s) = length s + 1"
  by (simp add: cstr_bytes_def)

lemma cstr_at_bytes [simp]:
  "char_of (0 :: nat) \<notin> set s \<Longrightarrow> cstr_at (a @ cstr_bytes s @ b) (length a) = s"
  by (induction s) (auto simp: cstr_at_def cstr_bytes_def)

end
