(* ===== verification/Ext4Util.thy ===== *)
theory Ext4Util
  imports Crc Bytes
begin

text \<open>
  The helpers of the image writer (\<^verbatim>\<open>src/ext4/util.c\<close>, \<^verbatim>\<open>src/ext4/util.h\<close>): the layout
  constants and the place of a group's bitmaps and inode table, little-endian stores into byte
  buffers, checksums, bitmaps, and the device.  A buffer is a byte list and a store at
  \<open>p + off\<close> takes the offset.  Block and group numbers are \<open>nat\<close>; the layout keeps them below
  \<open>BLOCKS\<close>, so the 32-bit arithmetic of the code does not wrap.

  The device is an image (a byte for every offset) and the number of transfers done so far.
  What a transfer does is the parameter \<open>io\<close>: \<open>None\<close> for a full transfer, \<open>Some k\<close> for one that
  stops after at most \<open>k\<close> bytes (an error is \<open>Some 0\<close>).
\<close>

section \<open>Layout\<close>

definition BLK_SIZE :: nat where "BLK_SIZE = 4096"
definition INODES_PER_GRP :: nat where "INODES_PER_GRP = 2048"
definition DESC_SIZE :: nat where "DESC_SIZE = 64"
definition SB_OFF :: nat where "SB_OFF = 1024"
definition BLOCKS :: nat where "BLOCKS = 2621440"
definition GROUPS :: nat where "GROUPS = 80"
definition BLKS_PER_GRP :: nat where "BLKS_PER_GRP = 32768"
definition INODE_SIZE :: nat where "INODE_SIZE = 256"
definition FLEX_GRP_SIZE :: nat where "FLEX_GRP_SIZE = 16"
definition IT_BLKS_PER_GRP :: nat where
  "IT_BLKS_PER_GRP = INODES_PER_GRP * INODE_SIZE div BLK_SIZE"
definition FLEX_META :: nat where
  "FLEX_META = 2 * FLEX_GRP_SIZE + FLEX_GRP_SIZE * IT_BLKS_PER_GRP"
definition RESERVED_GDT :: nat where "RESERVED_GDT = 1024"
definition RESV_GDT_BLKS :: nat where "RESV_GDT_BLKS = 3 + RESERVED_GDT"

named_theorems layout \<open>the layout constants as numbers\<close>

lemmas [layout] = BLK_SIZE_def INODES_PER_GRP_def DESC_SIZE_def SB_OFF_def BLOCKS_def GROUPS_def
  BLKS_PER_GRP_def INODE_SIZE_def FLEX_GRP_SIZE_def RESERVED_GDT_def

lemma layout_sums [layout]: "IT_BLKS_PER_GRP = 128" "FLEX_META = 2080" "RESV_GDT_BLKS = 1027"
  by (simp_all add: IT_BLKS_PER_GRP_def FLEX_META_def RESV_GDT_BLKS_def layout)

definition grp_flex_first :: "nat \<Rightarrow> nat" where
  "grp_flex_first g = g div 16 * 16"

definition grp_flex_base :: "nat \<Rightarrow> nat" where
  "grp_flex_base g = grp_flex_first g * 32768"

definition grp_bb_blk :: "nat \<Rightarrow> nat" where
  "grp_bb_blk g =
     (let f = grp_flex_first g in
      if f = 0 then RESV_GDT_BLKS + g - f else grp_flex_base g + g - f)"

definition grp_ib_blk :: "nat \<Rightarrow> nat" where
  "grp_ib_blk g =
     (let f = grp_flex_first g in
      if f = 0 then RESV_GDT_BLKS + FLEX_GRP_SIZE + g - f
      else grp_flex_base g + FLEX_GRP_SIZE + g - f)"

definition grp_it_blk :: "nat \<Rightarrow> nat" where
  "grp_it_blk g =
     (let f = grp_flex_first g in
      if f = 0 then RESV_GDT_BLKS + 2 * FLEX_GRP_SIZE + (g - f) * IT_BLKS_PER_GRP
      else grp_flex_base g + 2 * FLEX_GRP_SIZE + (g - f) * IT_BLKS_PER_GRP)"

text \<open>
  \<open>is_power\<close> divides as long as it can.  It is called with the bases 3, 5 and 7; with a base
  below 2 the loop of the code would not end, and the guard on the base only serves termination.
\<close>

function div_out :: "nat \<Rightarrow> nat \<Rightarrow> nat" where
  "div_out n b = (if 2 \<le> b \<and> 0 < n \<and> n mod b = 0 then div_out (n div b) b else n)"
  by pat_completeness auto
termination by (relation "measure fst") auto

declare div_out.simps [simp del]

definition is_power :: "nat \<Rightarrow> nat \<Rightarrow> bool" where
  "is_power n b = (if n = 0 then False else div_out n b = 1)"

definition has_super :: "nat \<Rightarrow> bool" where
  "has_super g =
     (if g \<le> 1 then True else odd g \<and> (is_power g 3 \<or> is_power g 5 \<or> is_power g 7))"

section \<open>Stores and loads\<close>

definition rd32 :: "byte list \<Rightarrow> nat \<Rightarrow> u32" where
  "rd32 p i = ucast (p ! i) OR push_bit 8 (ucast (p ! (i + 1))) OR
              push_bit 16 (ucast (p ! (i + 2))) OR push_bit 24 (ucast (p ! (i + 3)))"

definition rd16 :: "byte list \<Rightarrow> nat \<Rightarrow> u16" where
  "rd16 p i = ucast (p ! i) OR push_bit 8 (ucast (p ! (i + 1)))"

definition wr32 :: "byte list \<Rightarrow> nat \<Rightarrow> u32 \<Rightarrow> byte list" where
  "wr32 p i v = p[i := ucast v, i + 1 := ucast (drop_bit 8 v),
                  i + 2 := ucast (drop_bit 16 v), i + 3 := ucast (drop_bit 24 v)]"

definition wr16 :: "byte list \<Rightarrow> nat \<Rightarrow> u16 \<Rightarrow> byte list" where
  "wr16 p i v = p[i := ucast v, i + 1 := ucast (drop_bit 8 v)]"

definition wr32be :: "byte list \<Rightarrow> nat \<Rightarrow> u32 \<Rightarrow> byte list" where
  "wr32be p i v = p[i := ucast (drop_bit 24 v), i + 1 := ucast (drop_bit 16 v),
                    i + 2 := ucast (drop_bit 8 v), i + 3 := ucast v]"

definition gen_uuid :: "byte list option \<Rightarrow> byte list option" where
  "gen_uuid rnd =
     (case rnd of
        None \<Rightarrow> None
      | Some u \<Rightarrow>
          if length u \<noteq> 16 then None
          else Some (u[6 := (u ! 6 AND 0x0f) OR 0x40, 8 := (u ! 8 AND 0x3f) OR 0x80]))"

section \<open>The device\<close>

record disk =
  dsk_img :: "nat \<Rightarrow> byte"
  dsk_ops :: nat

type_synonym faults = "nat \<Rightarrow> nat option"

definition img_put :: "(nat \<Rightarrow> byte) \<Rightarrow> nat \<Rightarrow> byte list \<Rightarrow> nat \<Rightarrow> byte" where
  "img_put img off d = (\<lambda>i. if off \<le> i \<and> i < off + length d then d ! (i - off) else img i)"

definition img_get :: "(nat \<Rightarrow> byte) \<Rightarrow> nat \<Rightarrow> nat \<Rightarrow> byte list" where
  "img_get img off n = map img [off..<off + n]"

definition xfer :: "faults \<Rightarrow> disk \<Rightarrow> nat \<Rightarrow> nat" where
  "xfer io d n = (case io (dsk_ops d) of None \<Rightarrow> n | Some k \<Rightarrow> min k n)"

definition write_at :: "faults \<Rightarrow> byte list \<Rightarrow> nat \<Rightarrow> disk \<Rightarrow> int \<times> disk" where
  "write_at io buf off d =
     (let n = xfer io d (length buf);
          d' = \<lparr>dsk_img = img_put (dsk_img d) off (take n buf), dsk_ops = dsk_ops d + 1\<rparr>
      in (if n = length buf then 0 else -1, d'))"

text \<open>\<open>pread (fd, buf, len, off) != len\<close> is the result \<open>None\<close>.\<close>

definition read_at :: "faults \<Rightarrow> nat \<Rightarrow> nat \<Rightarrow> disk \<Rightarrow> byte list option \<times> disk" where
  "read_at io len off d =
     (let n = xfer io d len
      in (if n = len then Some (img_get (dsk_img d) off len) else None,
          d\<lparr>dsk_ops := dsk_ops d + 1\<rparr>))"

function write_zeroes :: "faults \<Rightarrow> nat \<Rightarrow> nat \<Rightarrow> disk \<Rightarrow> int \<times> disk" where
  "write_zeroes io off len d =
     (if len = 0 then (0, d)
      else
        let n = (if len < 4096 then len else 4096);
            (e, d') = write_at io (replicate n 0) off d
        in if e \<noteq> 0 then (-1, d') else write_zeroes io (off + n) (len - n) d')"
  by pat_completeness auto
termination by (relation "measure (\<lambda>(io, off, len, d). len)") auto

declare write_zeroes.simps [simp del]

text \<open>A \<open>for\<close> loop over device operations that returns -1 at the first failure.\<close>

fun for_each :: "('a \<Rightarrow> 's \<Rightarrow> int \<times> 's) \<Rightarrow> 'a list \<Rightarrow> 's \<Rightarrow> int \<times> 's" where
  "for_each f [] s = (0, s)"
| "for_each f (x # xs) s =
     (let (e, s') = f x s in if e \<noteq> 0 then (-1, s') else for_each f xs s')"

section \<open>Checksums, extents and bitmaps\<close>

definition inode_set_csum :: "byte list \<Rightarrow> u32 \<Rightarrow> u32 \<Rightarrow> byte list" where
  "inode_set_csum p ino seed =
     (let ino_buf = wr32 (replicate 4 0) 0 ino;
          gen_buf = wr32 (replicate 4 0) 0 (rd32 p 0x64);
          p = wr16 p 0x7C 0;
          p = wr16 p 0x82 0;
          c = crc32c_e2fs seed ino_buf;
          c = crc32c_e2fs c gen_buf;
          c = crc32c_e2fs c p;
          p = wr16 p 0x7C (ucast (c AND 0xFFFF))
      in wr16 p 0x82 (ucast (drop_bit 16 c)))"

definition G_BB_LO :: nat where "G_BB_LO = 0x00"
definition G_IB_LO :: nat where "G_IB_LO = 0x04"
definition G_IT_LO :: nat where "G_IT_LO = 0x08"
definition G_FREE_B :: nat where "G_FREE_B = 0x0C"
definition G_FREE_I :: nat where "G_FREE_I = 0x0E"
definition G_USED_D :: nat where "G_USED_D = 0x10"
definition G_FLAGS :: nat where "G_FLAGS = 0x12"
definition G_CHECK :: nat where "G_CHECK = 0x1E"
definition G_BB_C_L :: nat where "G_BB_C_L = 0x18"
definition G_IB_C_L :: nat where "G_IB_C_L = 0x1A"
definition G_BB_C_H :: nat where "G_BB_C_H = 0x38"
definition G_IB_C_H :: nat where "G_IB_C_H = 0x3A"

lemmas [layout] = G_BB_LO_def G_IB_LO_def G_IT_LO_def G_FREE_B_def G_FREE_I_def G_USED_D_def
  G_FLAGS_def G_CHECK_def G_BB_C_L_def G_IB_C_L_def G_BB_C_H_def G_IB_C_H_def

definition gdt_set_csum :: "byte list \<Rightarrow> nat \<Rightarrow> u32 \<Rightarrow> byte list" where
  "gdt_set_csum desc g seed =
     (let desc = wr16 desc G_CHECK 0;
          l = wr32 (replicate 4 0) 0 (of_nat g);
          c = crc32c_e2fs seed l;
          c = crc32c_e2fs c desc
      in wr16 desc G_CHECK (ucast (c AND 0xFFFF)))"

definition EXT4_EXTENT_MAGIC :: u16 where "EXT4_EXTENT_MAGIC = 0xF30A"
definition EXT4_EXTENTS_FL :: u32 where "EXT4_EXTENTS_FL = 0x00080000"
definition JBD2_MAGIC :: u32 where "JBD2_MAGIC = 0xC03B3998"

definition extent_set :: "byte list \<Rightarrow> nat \<Rightarrow> u32 \<Rightarrow> u16 \<Rightarrow> u64 \<Rightarrow> byte list" where
  "extent_set p i ee_block ee_len ee_start =
     (let p = wr16 p (i + 0x00) EXT4_EXTENT_MAGIC;
          p = wr16 p (i + 0x02) 1;
          p = wr16 p (i + 0x04) 4;
          p = wr16 p (i + 0x06) 0;
          p = wr32 p (i + 0x08) 0;
          p = wr32 p (i + 0x0C) ee_block;
          p = wr16 p (i + 0x10) ee_len;
          p = wr16 p (i + 0x12) (ucast (drop_bit 32 ee_start))
      in wr32 p (i + 0x14) (ucast (ee_start AND 0xFFFFFFFF)))"

definition mark_bit :: "byte list \<Rightarrow> nat \<Rightarrow> byte list" where
  "mark_bit bm blk = bm[blk div 8 := bm ! (blk div 8) OR push_bit (blk mod 8) 1]"

definition dir_csum :: "u32 \<Rightarrow> byte list \<Rightarrow> u32 \<Rightarrow> u32 \<Rightarrow> nat \<Rightarrow> u32" where
  "dir_csum seed blk ino gen blk_size =
     (let c = crc32c_e2fs seed (wr32 (replicate 4 0) 0 ino);
          c = crc32c_e2fs c (wr32 (replicate 4 0) 0 gen)
      in crc32c_e2fs c (take (blk_size - 12) blk))"

end
