(* ===== verification/Ext4Sb.thy ===== *)
theory Ext4Sb
  imports Ext4Util
begin

text \<open>
  Superblock, group descriptors, their checksums and backups (\<^verbatim>\<open>src/ext4/sb.c\<close>).  A
  pointer to a descriptor inside the table is the 64-byte slice it points to, put back into
  the table by \<open>on_slice\<close>.
\<close>

definition on_slice :: "nat \<Rightarrow> nat \<Rightarrow> (byte list \<Rightarrow> byte list) \<Rightarrow> byte list \<Rightarrow> byte list" where
  "on_slice off n f p = put_bytes p off (f (get_bytes p off n))"

text \<open>\<open>struct mkfs\<close> without the descriptor, which is the device itself.\<close>

record mkfs =
  mk_now :: u32
  mk_seed :: u32
  mk_uuid :: "byte list"
  mk_hash_seed :: "byte list"

section \<open>The superblock\<close>

definition EXT4_SUPER_MAGIC :: u16 where "EXT4_SUPER_MAGIC = 0xEF53"
definition RESIZE_INODE :: u32 where "RESIZE_INODE = 0x0010"
definition ORPHAN_FILE :: u32 where "ORPHAN_FILE = 0x1000"
definition COMPAT :: u32 where "COMPAT = 0x0000002c OR RESIZE_INODE OR ORPHAN_FILE"
definition INCOMPAT :: u32 where "INCOMPAT = 0x000022c2"
definition RO_COMPAT :: u32 where "RO_COMPAT = 0x0000046b"
definition EXT4_INODE_UNINIT :: u16 where "EXT4_INODE_UNINIT = 0x0004"
definition EXT4_BLOCK_UNINIT :: u16 where "EXT4_BLOCK_UNINIT = 0x0002"

definition fill_jbd2_extent :: "byte list \<Rightarrow> u32 \<Rightarrow> byte list" where
  "fill_jbd2_extent j jnl_start =
     (let j = wr16 j 0 EXT4_EXTENT_MAGIC;
          j = wr16 j 2 1;
          j = wr16 j 4 4;
          j = wr16 j 6 0;
          j = wr32 j 8 0;
          j = wr32 j 12 0;
          j = wr16 j 16 16384;
          j = wr16 j 18 (ucast (drop_bit 32 (ucast jnl_start :: u64)));
          j = wr32 j 20 (jnl_start AND 0xFFFFFFFF);
          j = wr32 j 60 0
      in wr32 j 64 (16384 * of_nat BLK_SIZE))"

definition fill_sb_jnl :: "byte list \<Rightarrow> u32 \<Rightarrow> byte list" where
  "fill_sb_jnl sb jnl_start = put_bytes sb 0x10C (fill_jbd2_extent (replicate 68 0) jnl_start)"

definition wr32_tbl :: "byte list \<Rightarrow> (nat \<times> u32) list \<Rightarrow> byte list" where
  "wr32_tbl p tbl = foldl (\<lambda>p (off, v). wr32 p off v) p tbl"

definition wr16_tbl :: "byte list \<Rightarrow> (nat \<times> u16) list \<Rightarrow> byte list" where
  "wr16_tbl p tbl = foldl (\<lambda>p (off, v). wr16 p off v) p tbl"

definition sb_write_u32s_a :: "byte list \<Rightarrow> u32 \<Rightarrow> byte list" where
  "sb_write_u32s_a sb used_blks =
     wr32_tbl sb
       [(0x000, of_nat (INODES_PER_GRP * GROUPS)), (0x004, of_nat BLOCKS),
        (0x008, 0), (0x00C, of_nat BLOCKS - used_blks),
        (0x010, of_nat (INODES_PER_GRP * GROUPS - 11)), (0x014, 0),
        (0x018, 2), (0x01C, 2),
        (0x020, of_nat BLKS_PER_GRP), (0x024, of_nat BLKS_PER_GRP),
        (0x028, of_nat INODES_PER_GRP), (0x02C, 0),
        (0x248, used_blks)]"

definition sb_write_u32s_b :: "byte list \<Rightarrow> u32 \<Rightarrow> u32 \<Rightarrow> byte list" where
  "sb_write_u32s_b sb now seed =
     wr32_tbl sb
       [(0x030, now), (0x034, 0),
        (0x040, now), (0x04C, 1),
        (0x054, 11), (0x05C, COMPAT),
        (0x060, INCOMPAT), (0x064, RO_COMPAT),
        (0x0E0, 8), (0x104, 0),
        (0x108, now), (0x268, 0),
        (0x270, seed)]"

definition sb_write_u16s :: "byte list \<Rightarrow> byte list" where
  "sb_write_u16s sb =
     wr16_tbl sb
       [(0x036, 0xFFFF), (0x038, EXT4_SUPER_MAGIC),
        (0x03A, 1), (0x03C, 1),
        (0x03E, 0), (0x050, 0),
        (0x052, 0), (0x058, of_nat INODE_SIZE),
        (0x05A, 0),
        (0x0CE, of_nat RESERVED_GDT),
        (0x0FE, of_nat DESC_SIZE),
        (0x15C, 32), (0x15E, 32)]"

definition sb_set_scalars :: "byte list \<Rightarrow> byte list \<Rightarrow> byte list" where
  "sb_set_scalars sb hash_seed =
     (let sb = put_bytes sb 0xEC hash_seed;
          sb = sb[0x0FC := 1, 0x0FD := 1, 0x174 := 4, 0x175 := 1];
          sb = wr32 sb 0x100 0x000C;
          sb = wr32 sb 0x160 0x0001
      in wr32 sb 0x280 12)"

text \<open>The 1024 bytes that \<open>write_superblock\<close> writes.\<close>

definition sb_image :: "mkfs \<Rightarrow> u32 \<Rightarrow> byte list" where
  "sb_image m used_blks =
     (let sb = replicate 1024 0;
          sb = sb_write_u32s_a sb used_blks;
          sb = sb_write_u32s_b sb (mk_now m) (mk_seed m);
          sb = sb_write_u16s sb;
          sb = put_bytes sb 0x068 (mk_uuid m);
          sb = sb_set_scalars sb (mk_hash_seed m);
          flex_meta = 2 * FLEX_GRP_SIZE + FLEX_GRP_SIZE * (INODES_PER_GRP * INODE_SIZE div BLK_SIZE);
          sb = fill_sb_jnl sb (of_nat (grp_flex_first (GROUPS - 1) * BLKS_PER_GRP + flex_meta))
      in wr32 sb 0x3FC (crc32c_e2fs (NOT 0) (take 0x3FC sb)))"

definition write_superblock :: "faults \<Rightarrow> mkfs \<Rightarrow> u32 \<Rightarrow> disk \<Rightarrow> int \<times> disk" where
  "write_superblock io m used_blks d =
     (let (e, d') = write_at io (sb_image m used_blks) SB_OFF d
      in (if e \<noteq> 0 then -1 else 0, d'))"

section \<open>The group descriptor table\<close>

definition gdt_set_addrs :: "byte list \<Rightarrow> nat \<Rightarrow> byte list" where
  "gdt_set_addrs d g =
     (let d = wr32 d G_BB_LO (of_nat (grp_bb_blk g));
          d = wr32 d G_IB_LO (of_nat (grp_ib_blk g))
      in wr32 d G_IT_LO (of_nat (grp_it_blk g)))"

definition gdt_used_flex :: "nat \<Rightarrow> nat \<Rightarrow> nat \<Rightarrow> nat" where
  "gdt_used_flex g fg fb =
     (let data_start = (if fg = 0 then RESV_GDT_BLKS + FLEX_META else fb + FLEX_META);
          used = data_start - g * BLKS_PER_GRP
      in if g = 0 then used + 2 else used)"

definition gdt_count_used :: "nat \<Rightarrow> nat \<Rightarrow> nat \<Rightarrow> nat" where
  "gdt_count_used g jnl_fg journal_blks =
     (let fg = grp_flex_first g;
          used = 0;
          used = (if g = fg then gdt_used_flex g fg (grp_flex_base g) else used);
          used = (if has_super g \<and> g \<noteq> fg then used + (3 + RESERVED_GDT) else used)
      in if g = jnl_fg then used + journal_blks else used)"

definition gdt_set_free_counts :: "byte list \<Rightarrow> nat \<Rightarrow> nat \<Rightarrow> byte list" where
  "gdt_set_free_counts d g used =
     (let grp_blocks = (if g < GROUPS - 1 then BLKS_PER_GRP else BLOCKS - g * BLKS_PER_GRP);
          d = wr16 d G_FREE_B (if used < grp_blocks then of_nat (grp_blocks - used) else 0);
          d = wr16 d G_FREE_I (if g = 0 then of_nat (INODES_PER_GRP - 11) else of_nat INODES_PER_GRP)
      in wr16 d G_USED_D (if g = 0 then 1 else 0))"

definition gdt_set_flags :: "byte list \<Rightarrow> nat \<Rightarrow> nat \<Rightarrow> byte list" where
  "gdt_set_flags d g used =
     (let flags = 0;
          flags = (if used = 0 \<and> g \<noteq> GROUPS - 1 then flags OR EXT4_BLOCK_UNINIT else flags);
          flags = (if g > 0 then flags OR EXT4_INODE_UNINIT else flags)
      in wr16 d G_FLAGS flags)"

definition gdt_of_group :: "nat \<Rightarrow> nat \<Rightarrow> nat \<Rightarrow> byte list \<Rightarrow> byte list" where
  "gdt_of_group g jnl_fg journal_blks d =
     (let d = gdt_set_addrs d g;
          used = gdt_count_used g jnl_fg journal_blks;
          d = gdt_set_free_counts d g used
      in gdt_set_flags d g used)"

text \<open>The table that \<open>write_gdt\<close> leaves in the caller's buffer and writes to block 1.\<close>

definition gdt_table :: "nat \<Rightarrow> nat \<Rightarrow> byte list" where
  "gdt_table jnl_fg journal_blks =
     foldl (\<lambda>gdt g. on_slice (g * DESC_SIZE) DESC_SIZE (gdt_of_group g jnl_fg journal_blks) gdt)
       (replicate (2 * BLK_SIZE) 0) [0..<GROUPS]"

definition write_gdt :: "faults \<Rightarrow> nat \<Rightarrow> nat \<Rightarrow> disk \<Rightarrow> int \<times> byte list \<times> disk" where
  "write_gdt io jnl_fg journal_blks d =
     (let gdt = gdt_table jnl_fg journal_blks;
          (e, d') = write_at io gdt (1 * BLK_SIZE) d
      in (e, gdt, d'))"

section \<open>Checksums of the bitmaps, and the backups\<close>

definition csum_bb_one :: "faults \<Rightarrow> nat \<Rightarrow> u32 \<Rightarrow> byte list \<times> disk \<Rightarrow> int \<times> byte list \<times> disk" where
  "csum_bb_one io bb_blk seed s =
     (case read_at io BLK_SIZE (bb_blk * BLK_SIZE) (snd s) of
        (None, d') \<Rightarrow> (-1, fst s, d')
      | (Some bm, d') \<Rightarrow>
          (let c = crc32c_e2fs seed bm;
               p = wr16 (fst s) G_BB_C_L (ucast (c AND 0xFFFF));
               p = wr16 p G_BB_C_H (ucast (drop_bit 16 c))
           in (0, p, d')))"

definition csum_ib_one :: "faults \<Rightarrow> nat \<Rightarrow> u32 \<Rightarrow> byte list \<times> disk \<Rightarrow> int \<times> byte list \<times> disk" where
  "csum_ib_one io ib_blk seed s =
     (case read_at io BLK_SIZE (ib_blk * BLK_SIZE) (snd s) of
        (None, d') \<Rightarrow> (-1, fst s, d')
      | (Some bm, d') \<Rightarrow>
          (let c = crc32c_e2fs seed (take (INODES_PER_GRP div 8) bm);
               p = wr16 (fst s) G_IB_C_L (ucast (c AND 0xFFFF));
               p = wr16 p G_IB_C_H (ucast (drop_bit 16 c))
           in (0, p, d')))"

definition csum_one_group :: "faults \<Rightarrow> nat \<Rightarrow> u32 \<Rightarrow> byte list \<times> disk \<Rightarrow> int \<times> byte list \<times> disk" where
  "csum_one_group io g seed s =
     (case csum_bb_one io (grp_bb_blk g) seed s of
        (e1, s1) \<Rightarrow>
          if e1 \<noteq> 0 then (-1, s1)
          else
            (case csum_ib_one io (grp_ib_blk g) seed s1 of
               (e2, s2) \<Rightarrow>
                 if e2 \<noteq> 0 then (-1, s2)
                 else (0, gdt_set_csum (fst s2) g seed, snd s2)))"

definition write_one_backup ::
    "faults \<Rightarrow> byte list \<Rightarrow> byte list \<Rightarrow> nat \<Rightarrow> disk \<Rightarrow> int \<times> disk" where
  "write_one_backup io sb gdt g d =
     (let base = g * BLKS_PER_GRP * BLK_SIZE;
          bs = wr16 sb 0x05A (of_nat g);
          bs = wr32 bs 0x3FC (crc32c_e2fs (NOT 0) (take 0x3FC bs));
          (e, d') = write_at io bs base d
      in if e \<noteq> 0 then (-1, d') else write_at io gdt (base + BLK_SIZE) d')"

definition write_backups :: "faults \<Rightarrow> byte list \<Rightarrow> disk \<Rightarrow> int \<times> disk" where
  "write_backups io gdt d =
     (case read_at io 1024 SB_OFF d of
        (None, d') \<Rightarrow> (-1, d')
      | (Some sb, d') \<Rightarrow>
          for_each (\<lambda>g d. if \<not> has_super g then (0, d) else write_one_backup io sb gdt g d)
            [1..<GROUPS] d')"

text \<open>The descriptor \<open>gdt + g * DESC_SIZE\<close> is updated in place.\<close>

definition csum_group_at :: "faults \<Rightarrow> u32 \<Rightarrow> nat \<Rightarrow> byte list \<times> disk \<Rightarrow> int \<times> byte list \<times> disk" where
  "csum_group_at io seed g s =
     (let (e, p, d') = csum_one_group io g seed (get_bytes (fst s) (g * DESC_SIZE) DESC_SIZE, snd s)
      in (e, put_bytes (fst s) (g * DESC_SIZE) p, d'))"

definition write_csum_backups :: "faults \<Rightarrow> byte list \<Rightarrow> u32 \<Rightarrow> disk \<Rightarrow> int \<times> byte list \<times> disk" where
  "write_csum_backups io gdt seed d =
     (case for_each (csum_group_at io seed) [0..<GROUPS] (gdt, d) of
        (e, gdt', d') \<Rightarrow>
          if e \<noteq> 0 then (-1, gdt', d')
          else
            (case write_at io gdt' (1 * BLK_SIZE) d' of
               (e2, d2) \<Rightarrow>
                 if e2 \<noteq> 0 then (-1, gdt', d2)
                 else (case write_backups io gdt' d2 of (e3, d3) \<Rightarrow> (e3, gdt', d3))))"

definition count_backup_blks :: nat where
  "count_backup_blks = foldl (\<lambda>n g. if has_super g then n + 3 else n) 0 [1..<GROUPS]"

end
