(* ===== verification/Ext4.thy ===== *)
theory Ext4
  imports Ext4Sb
begin

text \<open>
  The image writer (\<^verbatim>\<open>src/ext4/ext4.c\<close>): bitmaps, root directory, journal, inode
  table, resize inode, and the sequence of writes that makes an image.  The operands of the
  \<open>|\<close> chain in \<open>do_writes\<close> are taken from left to right (C leaves their order open).
\<close>

record wi =
  wi_root_blk :: nat
  wi_dindir_blk :: nat
  wi_jnl_fg :: nat
  wi_jnl_start :: nat

section \<open>Bitmaps\<close>

definition mark_range :: "byte list \<Rightarrow> nat \<Rightarrow> nat \<Rightarrow> byte list" where
  "mark_range bm lo hi = foldl mark_bit bm [lo..<hi]"

definition bb_mark_group0 :: "byte list \<Rightarrow> nat \<Rightarrow> nat \<Rightarrow> byte list" where
  "bb_mark_group0 bm root_blk dindir_blk =
     (let bm = mark_range bm 0 (RESV_GDT_BLKS + FLEX_META);
          bm = mark_bit bm root_blk
      in if dindir_blk \<noteq> 0 then mark_bit bm dindir_blk else bm)"

definition bb_mark_flex :: "byte list \<Rightarrow> nat \<Rightarrow> byte list" where
  "bb_mark_flex bm g =
     (let fb = grp_flex_base g in foldl (\<lambda>bm b. mark_bit bm (b - fb)) bm [fb..<fb + FLEX_META])"

definition bb_mark_meta :: "byte list \<Rightarrow> nat \<Rightarrow> nat \<Rightarrow> nat \<Rightarrow> byte list" where
  "bb_mark_meta bm g root_blk dindir_blk =
     (let fg = grp_flex_first g;
          bm = (if g = 0 then bb_mark_group0 bm root_blk dindir_blk
                else if g = fg then bb_mark_flex bm g else bm)
      in if has_super g \<and> g \<noteq> fg
         then mark_range (mark_bit (mark_bit (mark_bit bm 0) 1) 2) 3 (3 + RESERVED_GDT)
         else bm)"

definition bb_mark_journal :: "byte list \<Rightarrow> nat \<Rightarrow> nat \<Rightarrow> nat \<Rightarrow> byte list" where
  "bb_mark_journal bm g jnl_start journal_blks =
     foldl (\<lambda>bm b. mark_bit bm (b - g * BLKS_PER_GRP)) bm [jnl_start..<jnl_start + journal_blks]"

text \<open>The bitmap of a group as the loop of \<open>write_block_bitmaps\<close> builds it.\<close>

definition block_bitmap :: "wi \<Rightarrow> nat \<Rightarrow> byte list" where
  "block_bitmap w g =
     (let bm = bb_mark_meta (replicate BLK_SIZE 0) g (wi_root_blk w) (wi_dindir_blk w)
      in if g = wi_jnl_fg w then bb_mark_journal bm g (wi_jnl_start w) 16384 else bm)"

definition write_block_bitmaps :: "faults \<Rightarrow> wi \<Rightarrow> disk \<Rightarrow> int \<times> disk" where
  "write_block_bitmaps io w =
     for_each (\<lambda>g. write_at io (block_bitmap w g) (grp_bb_blk g * BLK_SIZE)) [0..<GROUPS]"

definition inode_bitmap :: "nat \<Rightarrow> byte list" where
  "inode_bitmap g =
     (let bm = replicate BLK_SIZE 0;
          bm = (if g = 0 then mark_bit (bm[0 := 0xFF, 1 := 0x03]) 11 else bm)
      in put_bytes bm (INODES_PER_GRP div 8) (replicate (BLK_SIZE - INODES_PER_GRP div 8) 0xFF))"

definition write_inode_bitmaps :: "faults \<Rightarrow> disk \<Rightarrow> int \<times> disk" where
  "write_inode_bitmaps io =
     for_each (\<lambda>g. write_at io (inode_bitmap g) (grp_ib_blk g * BLK_SIZE)) [0..<GROUPS]"

section \<open>Root directory and journal\<close>

definition write_dot_entry :: "byte list \<Rightarrow> byte list" where
  "write_dot_entry blk =
     (let blk = wr32 blk 0 2;
          blk = wr16 blk 4 12
      in blk[6 := 1, 7 := 2, 8 := 0x2E])"

definition write_dotdot_entry :: "byte list \<Rightarrow> byte list" where
  "write_dotdot_entry blk =
     (let blk = wr32 blk 12 2;
          blk = wr16 blk 16 (of_nat (BLK_SIZE - 24))
      in blk[18 := 2, 19 := 2, 20 := 0x2E, 21 := 0x2E])"

definition root_dir_block :: "u32 \<Rightarrow> byte list" where
  "root_dir_block seed =
     (let blk = write_dotdot_entry (write_dot_entry (replicate BLK_SIZE 0));
          t = BLK_SIZE - 12;
          blk = wr32 blk t 0;
          blk = wr16 blk (t + 4) 12;
          blk = wr16 blk (t + 6) 0xDE00
      in wr32 blk (t + 8) (dir_csum seed blk 2 0 BLK_SIZE))"

definition write_root_dir :: "faults \<Rightarrow> nat \<Rightarrow> u32 \<Rightarrow> disk \<Rightarrow> int \<times> disk" where
  "write_root_dir io root_blk seed = write_at io (root_dir_block seed) (root_blk * BLK_SIZE)"

definition fill_jbd2_sb :: "byte list \<Rightarrow> byte list \<Rightarrow> byte list" where
  "fill_jbd2_sb jsb uuid =
     (let jsb = wr32be jsb 0 JBD2_MAGIC;
          jsb = wr32be jsb 4 4;
          jsb = wr32be jsb 8 0;
          jsb = wr32be jsb 0x0C (of_nat BLK_SIZE);
          jsb = wr32be jsb 0x10 16384;
          jsb = wr32be jsb 0x14 1;
          jsb = wr32be jsb 0x18 0;
          jsb = wr32be jsb 0x1C 0;
          jsb = wr32be jsb 0x40 1
      in put_bytes jsb 0x30 uuid)"

definition write_journal :: "faults \<Rightarrow> nat \<Rightarrow> byte list \<Rightarrow> disk \<Rightarrow> int \<times> disk" where
  "write_journal io jnl_start uuid d =
     (let jsb = fill_jbd2_sb (replicate BLK_SIZE 0) uuid;
          (e, d') = write_at io jsb (jnl_start * BLK_SIZE) d
      in if e \<noteq> 0 then (-1, d')
         else write_zeroes io ((jnl_start + 1) * BLK_SIZE) (16383 * BLK_SIZE) d')"

section \<open>Inodes\<close>

definition fill_root_inode :: "u32 \<Rightarrow> nat \<Rightarrow> byte list \<Rightarrow> byte list" where
  "fill_root_inode now root_blk p =
     (let p = wr16 p 0x00 0x41ED;
          p = wr32 p 0x04 (of_nat BLK_SIZE);
          p = wr32 p 0x08 now;
          p = wr32 p 0x0C now;
          p = wr32 p 0x10 now;
          p = wr16 p 0x18 0;
          p = wr16 p 0x1A 2;
          p = wr32 p 0x1C (of_nat (BLK_SIZE div 512));
          p = wr32 p 0x20 EXT4_EXTENTS_FL;
          p = extent_set p 0x28 0 1 (of_nat root_blk);
          p = wr32 p 0x64 0
      in wr16 p 0x80 32)"

definition fill_journal_inode :: "u32 \<Rightarrow> nat \<Rightarrow> byte list \<Rightarrow> byte list" where
  "fill_journal_inode now jnl_start p =
     (let p = wr16 p 0x00 0x81A4;
          p = wr32 p 0x04 (of_nat (16384 * BLK_SIZE));
          p = wr32 p 0x08 now;
          p = wr32 p 0x0C now;
          p = wr32 p 0x10 now;
          p = wr16 p 0x1A 1;
          p = wr32 p 0x1C (of_nat (16384 * BLK_SIZE div 512));
          p = wr32 p 0x20 EXT4_EXTENTS_FL;
          p = extent_set p 0x28 0 16384 (of_nat jnl_start);
          p = wr32 p 0x64 0
      in wr16 p 0x80 32)"

definition resize_nblks :: nat where
  "resize_nblks = foldl (\<lambda>n g. if has_super g then n + RESERVED_GDT else n) (1 + RESERVED_GDT) [1..<GROUPS]"

definition set_resize_isize :: "byte list \<Rightarrow> byte list" where
  "set_resize_isize p =
     (let apb = BLK_SIZE div 4;
          isize = of_nat ((apb * apb + apb + 12) * BLK_SIZE) :: u64;
          p = wr32 p 0x04 (ucast isize)
      in wr32 p 0x6C (ucast (drop_bit 32 isize)))"

definition fill_resize_inode :: "u32 \<Rightarrow> nat \<Rightarrow> byte list \<Rightarrow> byte list" where
  "fill_resize_inode now dindir_blk p =
     (let p = wr16 p 0x00 0x8180;
          p = wr16 p 0x1A 1;
          p = wr32 p 0x08 now;
          p = wr32 p 0x0C now;
          p = wr32 p 0x10 now;
          p = wr32 p 0x20 0;
          p = set_resize_isize p;
          p = wr32 p 0x5C (of_nat dindir_blk);
          p = wr32 p 0x1C (of_nat (resize_nblks * (BLK_SIZE div 512)))
      in wr16 p 0x80 32)"

definition fill_orphan_inode :: "u32 \<Rightarrow> byte list \<Rightarrow> byte list" where
  "fill_orphan_inode now p =
     (let p = wr16 p 0x00 0x8180;
          p = wr16 p 0x1A 1;
          p = wr32 p 0x08 now;
          p = wr32 p 0x0C now;
          p = wr32 p 0x10 now;
          p = wr32 p 0x20 0
      in wr16 p 0x80 32)"

definition set_inode_csums :: "u32 \<Rightarrow> byte list \<Rightarrow> byte list" where
  "set_inode_csums seed tbl =
     foldl (\<lambda>tbl i. on_slice (i * INODE_SIZE) INODE_SIZE
              (\<lambda>p. if rd16 p 0x1A \<noteq> 0 then inode_set_csum p (of_nat (i + 1)) seed else p) tbl)
       tbl [0..<INODES_PER_GRP]"

definition inode_table :: "mkfs \<Rightarrow> wi \<Rightarrow> byte list" where
  "inode_table m w =
     (let tbl = replicate (INODES_PER_GRP * INODE_SIZE) 0;
          tbl = on_slice INODE_SIZE INODE_SIZE (fill_root_inode (mk_now m) (wi_root_blk w)) tbl;
          tbl = on_slice (6 * INODE_SIZE) INODE_SIZE (fill_resize_inode (mk_now m) (wi_dindir_blk w)) tbl;
          tbl = on_slice (7 * INODE_SIZE) INODE_SIZE (fill_journal_inode (mk_now m) (wi_jnl_start w)) tbl;
          tbl = on_slice (11 * INODE_SIZE) INODE_SIZE (fill_orphan_inode (mk_now m)) tbl
      in set_inode_csums (mk_seed m) tbl)"

text \<open>\<open>calloc\<close> may fail: the parameter \<open>mem\<close>.\<close>

definition write_inode_table :: "faults \<Rightarrow> bool \<Rightarrow> mkfs \<Rightarrow> wi \<Rightarrow> disk \<Rightarrow> int \<times> disk" where
  "write_inode_table io mem m w d =
     (if \<not> mem then (-1, d) else write_at io (inode_table m w) (grp_it_blk 0 * BLK_SIZE) d)"

section \<open>The resize inode's blocks\<close>

definition resize_gdt_block :: "nat \<Rightarrow> byte list" where
  "resize_gdt_block gdt_blk =
     fst (foldl (\<lambda>(buf, k) grp. if \<not> has_super grp then (buf, k)
                   else (wr32 buf (k * 4) (of_nat (gdt_blk + grp * BLKS_PER_GRP)), k + 1))
            (replicate BLK_SIZE 0, 0 :: nat) [1..<GROUPS])"

definition write_one_resize_gdt :: "faults \<Rightarrow> nat \<Rightarrow> disk \<Rightarrow> int \<times> disk" where
  "write_one_resize_gdt io gdt_blk = write_at io (resize_gdt_block gdt_blk) (gdt_blk * BLK_SIZE)"

text \<open>
  One round of the loop of \<open>write_resize_data\<close> at \<open>rsv_off\<close>, where \<open>gdt_blk = rsv_off + 3\<close>; the
  offset \<open>gdt_off\<close> is reduced modulo \<open>apb\<close> at the start of each round and then incremented.
\<close>

definition resize_round :: "faults \<Rightarrow> nat \<Rightarrow> byte list \<times> nat \<times> disk \<Rightarrow> int \<times> byte list \<times> nat \<times> disk" where
  "resize_round io rsv_off s =
     (case s of (buf, gdt_off, d) \<Rightarrow>
        let gdt_off = gdt_off mod (BLK_SIZE div 4);
            gdt_blk = rsv_off + 3;
            buf = wr32 buf (gdt_off * 4) (of_nat gdt_blk);
            (e, d') = write_one_resize_gdt io gdt_blk d
        in (if e \<noteq> 0 then -1 else 0, buf, gdt_off + 1, d'))"

definition write_resize_data :: "faults \<Rightarrow> nat \<Rightarrow> disk \<Rightarrow> int \<times> disk" where
  "write_resize_data io dindir_blk d =
     (case for_each (resize_round io) [0..<RESERVED_GDT] (replicate BLK_SIZE 0, 2, d) of
        (e, buf, _, d') \<Rightarrow>
          if e \<noteq> 0 then (-1, d') else write_at io buf (dindir_blk * BLK_SIZE) d')"

section \<open>Making an image\<close>

definition compute_used_blks :: nat where
  "compute_used_blks =
     (let n = 5 * FLEX_META + 5 + RESERVED_GDT;
          n = foldl (\<lambda>n g. if has_super g then n + RESERVED_GDT else n) n [1..<GROUPS]
      in n + count_backup_blks + 16384)"

definition do_writes :: "faults \<Rightarrow> bool \<Rightarrow> mkfs \<Rightarrow> wi \<Rightarrow> disk \<Rightarrow> int \<times> disk" where
  "do_writes io mem m w d0 =
     (let (e1, d1) = write_superblock io m (of_nat compute_used_blks) d0;
          (e2, gdt, d2) = write_gdt io (wi_jnl_fg w) 16384 d1;
          (e3, d3) = write_block_bitmaps io w d2;
          (e4, d4) = write_inode_bitmaps io d3;
          (e5, d5) = write_root_dir io (wi_root_blk w) (mk_seed m) d4;
          (e6, d6) = write_journal io (wi_jnl_start w) (mk_uuid m) d5;
          (e7, d7) = write_inode_table io mem m w d6;
          (e8, d8) = write_resize_data io (wi_dindir_blk w) d7;
          (e9, gdt', d9) = write_csum_backups io gdt (mk_seed m) d8
      in (e1 OR e2 OR e3 OR e4 OR e5 OR e6 OR e7 OR e8 OR e9, d9))"

definition create_wi :: wi where
  "create_wi =
     (let root_blk = RESV_GDT_BLKS + FLEX_META
      in \<lparr>wi_root_blk = root_blk, wi_dindir_blk = root_blk + 1,
          wi_jnl_fg = grp_flex_first (GROUPS - 1),
          wi_jnl_start = grp_flex_first (GROUPS - 1) * BLKS_PER_GRP + FLEX_META\<rparr>)"

definition do_create_writes :: "faults \<Rightarrow> bool \<Rightarrow> mkfs \<Rightarrow> disk \<Rightarrow> int \<times> disk" where
  "do_create_writes io mem m d = do_writes io mem m create_wi d"

text \<open>
  The file at the path: absent, or its size and contents.  The environment says what the
  system calls do; \<open>ev_unlink\<close> is whether \<open>io_unlink\<close> removes the file.
\<close>

type_synonym img_file = "(nat \<times> (nat \<Rightarrow> byte)) option"

record ext4_env =
  ev_open :: bool
  ev_trunc :: bool
  ev_uuid :: "byte list option"
  ev_hash :: "byte list option"
  ev_now :: u32
  ev_mem :: bool
  ev_io :: faults
  ev_unlink :: bool

definition ext4_image_valid :: "ext4_env \<Rightarrow> img_file \<Rightarrow> bool" where
  "ext4_image_valid ev f =
     (case f of
        None \<Rightarrow> False
      | Some (sz, img) \<Rightarrow>
          ev_open ev \<and> sz = BLOCKS * BLK_SIZE \<and>
          (case fst (read_at (ev_io ev) 2 (SB_OFF + 0x38) \<lparr>dsk_img = img, dsk_ops = 0\<rparr>) of
             None \<Rightarrow> False
           | Some m \<Rightarrow> rd16 m 0 = 0xEF53))"

definition create_fail :: "ext4_env \<Rightarrow> nat \<times> (nat \<Rightarrow> byte) \<Rightarrow> int \<times> img_file" where
  "create_fail ev f = (-1, if ev_unlink ev then None else Some f)"

definition ext4_create_img :: "ext4_env \<Rightarrow> img_file \<Rightarrow> int \<times> img_file" where
  "ext4_create_img ev f =
     (if f \<noteq> None \<or> \<not> ev_open ev then (-1, f)
      else if \<not> ev_trunc ev then create_fail ev (0, \<lambda>_. 0)
      else
        (case gen_uuid (ev_uuid ev) of
           None \<Rightarrow> create_fail ev (BLOCKS * BLK_SIZE, \<lambda>_. 0)
         | Some uuid \<Rightarrow>
             (case gen_uuid (ev_hash ev) of
                None \<Rightarrow> create_fail ev (BLOCKS * BLK_SIZE, \<lambda>_. 0)
              | Some hash_seed \<Rightarrow>
                  (let m = \<lparr>mk_now = ev_now ev, mk_seed = crc32c_e2fs (NOT 0) uuid,
                            mk_uuid = uuid, mk_hash_seed = hash_seed\<rparr>;
                       (e, d) = do_create_writes (ev_io ev) (ev_mem ev) m
                                  \<lparr>dsk_img = (\<lambda>_. 0), dsk_ops = 0\<rparr>
                   in if e \<noteq> 0 then create_fail ev (BLOCKS * BLK_SIZE, dsk_img d)
                      else (0, Some (BLOCKS * BLK_SIZE, dsk_img d))))))"

end
