(* ===== verification/Ext4Layout.thy ===== *)
theory Ext4Layout
  imports Ext4
begin

text \<open>
  The accounting of the image writer: which groups carry a superblock copy, which blocks the
  bitmaps mark, and that descriptors and superblock count exactly the marked blocks.
\<close>

section \<open>Groups with a superblock copy\<close>

lemma div_out_spec:
  assumes "2 \<le> b" and "0 < n"
  shows "\<exists>k. n = b ^ k * div_out n b \<and> \<not> b dvd div_out n b \<and> 0 < div_out n b"
  using assms
proof (induction n b rule: div_out.induct)
  case (1 n b)
  show ?case
  proof (cases "n mod b = 0")
    case True
    then obtain m where m: "n = b * m" by auto
    with 1 True have "\<exists>k. n div b = b ^ k * div_out (n div b) b \<and> \<not> b dvd div_out (n div b) b
        \<and> 0 < div_out (n div b) b" by simp
    then obtain k where k: "m = b ^ k * div_out m b" "\<not> b dvd div_out m b" "0 < div_out m b"
      using m "1.prems" by auto
    have d: "div_out n b = div_out m b" using True "1.prems" m by (subst div_out.simps) simp
    have "n = b ^ Suc k * div_out m b" using m k(1) by (metis mult.assoc power_Suc)
    with k d show ?thesis by metis
  next
    case False
    then have "div_out n b = n" by (subst div_out.simps) simp
    with False "1.prems" show ?thesis by (intro exI [of _ 0]) (auto simp: mod_eq_0_iff_dvd)
  qed
qed

lemma is_power_iff:
  assumes "2 \<le> b"
  shows "is_power n b \<longleftrightarrow> (\<exists>k. n = b ^ k)"
proof
  assume "is_power n b"
  then have "0 < n" "div_out n b = 1" by (auto simp: is_power_def split: if_splits)
  with div_out_spec [OF assms, of n] show "\<exists>k. n = b ^ k" by (metis mult_1_right)
next
  assume "\<exists>k. n = b ^ k"
  then obtain k where k: "n = b ^ k" by blast
  have "div_out (b ^ k) b = 1"
  proof (induction k)
    case 0
    show ?case using assms by (simp add: div_out.simps [of "Suc 0" b])
  next
    case (Suc k)
    have "2 \<le> b \<and> 0 < b ^ Suc k \<and> b ^ Suc k mod b = 0" and "b ^ Suc k div b = b ^ k"
      using assms by simp_all
    then have "div_out (b ^ Suc k) b = div_out (b ^ k) b" by (simp only: div_out.simps [of "b ^ Suc k"]) simp
    with Suc show ?case by simp
  qed
  with k assms show "is_power n b" by (simp add: is_power_def)
qed

lemma has_super_iff:
  "has_super g \<longleftrightarrow> g = 0 \<or> (\<exists>k. g = 3 ^ k \<or> g = 5 ^ k \<or> g = 7 ^ k)"
proof (cases "g \<le> 1")
  case True
  then have "g = 0 \<or> (\<exists>k. g = 3 ^ k)" by (auto intro: exI [of _ 0] simp: le_Suc_eq)
  with True show ?thesis by (auto simp: has_super_def)
next
  case False
  have "odd g" if "g = 3 ^ k \<or> g = 5 ^ k \<or> g = 7 ^ k" for k using that by auto
  with False show ?thesis by (auto simp: has_super_def is_power_iff)
qed

definition super_groups :: "nat list" where
  "super_groups = [0, 1, 3, 5, 7, 9, 25, 27, 49]"

lemma powers_below:
  assumes "(b :: nat) ^ k < 80" and "b \<in> {3, 5, 7}"
  shows "k < 4 \<and> (k < 3 \<or> b = 3)"
proof (rule ccontr)
  assume "\<not> ?thesis"
  then consider "4 \<le> k" | "3 \<le> k" "5 \<le> b" using assms(2) by fastforce
  then show False
  proof cases
    case 1
    then have "(3 :: nat) ^ 4 \<le> 3 ^ k" by (intro power_increasing) simp_all
    also have "\<dots> \<le> b ^ k" using assms(2) by (intro power_mono) auto
    finally show False using assms(1) by simp
  next
    case 2
    then have "(5 :: nat) ^ 3 \<le> 5 ^ k" by (intro power_increasing) simp_all
    also have "\<dots> \<le> b ^ k" using 2 by (intro power_mono) auto
    finally show False using assms(1) by simp
  qed
qed

lemma has_super_below:
  assumes "g < 80"
  shows "has_super g \<longleftrightarrow> g \<in> set super_groups"
proof -
  have "g \<in> set super_groups" if "g = b ^ k" "b \<in> {3, 5, 7}" for b k
  proof -
    have "k < 4 \<and> (k < 3 \<or> b = 3)" using powers_below [of b k] that assms by simp
    then consider "k = 0" | "k = 1" | "k = 2" | "k = 3" "b = 3" by linarith
    then show ?thesis using that by cases (auto simp: super_groups_def)
  qed
  moreover have "\<exists>k. g = 3 ^ k \<or> g = 5 ^ k \<or> g = 7 ^ k" if "g \<in> set super_groups" "g \<noteq> 0"
  proof -
    have "g = 3 ^ 0 \<or> g = 3 ^ 1 \<or> g = 5 ^ 1 \<or> g = 7 ^ 1 \<or> g = 3 ^ 2 \<or> g = 5 ^ 2 \<or> g = 3 ^ 3 \<or> g = 7 ^ 2"
      using that by (auto simp: super_groups_def)
    then show ?thesis by blast
  qed
  moreover have "0 \<in> set super_groups" by (simp add: super_groups_def)
  ultimately show ?thesis unfolding has_super_iff by blast
qed

section \<open>What a bitmap marks\<close>

definition marked :: "byte list \<Rightarrow> nat set" where
  "marked bm = {b. b < 8 * length bm \<and> bit (bm ! (b div 8)) (b mod 8)}"

lemma length_mark_bit [simp]: "length (mark_bit bm x) = length bm"
  by (simp add: mark_bit_def)

lemma marked_zero: "marked (replicate n 0) = {}"
  by (auto simp: marked_def)

lemma marked_mark_bit:
  assumes "x < 8 * length bm"
  shows "marked (mark_bit bm x) = insert x (marked bm)"
proof -
  have div: "x div 8 < length bm" using assms by linarith
  have same: "b = x" if "b div 8 = x div 8" "b mod 8 = x mod 8" for b
    using that by (metis div_mult_mod_eq)
  have "bit (mark_bit bm x ! (b div 8)) (b mod 8) \<longleftrightarrow> b = x \<or> bit (bm ! (b div 8)) (b mod 8)" for b
    using div same by (auto simp: mark_bit_def nth_list_update bit_or_iff bit_push_bit_iff bit_1_iff bit_exp_iff)
  then show ?thesis using assms by (auto simp: marked_def)
qed

lemma marked_foldl:
  assumes "\<And>b. b \<in> set bs \<Longrightarrow> f b < 8 * length bm"
  shows "length (foldl (\<lambda>bm b. mark_bit bm (f b)) bm bs) = length bm \<and>
         marked (foldl (\<lambda>bm b. mark_bit bm (f b)) bm bs) = marked bm \<union> f ` set bs"
  using assms
proof (induction bs arbitrary: bm)
  case (Cons b bs)
  from Cons.IH [of "mark_bit bm (f b)"] Cons.prems show ?case by (simp add: marked_mark_bit)
qed simp

lemma marked_range:
  assumes "hi \<le> 8 * length bm"
  shows "length (mark_range bm lo hi) = length bm \<and> marked (mark_range bm lo hi) = marked bm \<union> {lo..<hi}"
  using marked_foldl [of "[lo..<hi]" "\<lambda>b. b" bm] assms by (simp add: mark_range_def)

lemma marked_shifted:
  assumes "hi - lo \<le> 8 * length bm" and "s = lo - off" and "off \<le> lo" and "hi - off \<le> 8 * length bm"
  shows "length (foldl (\<lambda>bm b. mark_bit bm (b - off)) bm [lo..<hi]) = length bm \<and>
         marked (foldl (\<lambda>bm b. mark_bit bm (b - off)) bm [lo..<hi]) = marked bm \<union> {lo - off..<hi - off}"
proof -
  have "(\<lambda>b. b - off) ` {lo..<hi} = {lo - off..<hi - off}"
  proof
    show "{lo - off..<hi - off} \<subseteq> (\<lambda>b. b - off) ` {lo..<hi}"
    proof
      fix x
      assume "x \<in> {lo - off..<hi - off}"
      then have "x = (x + off) - off" "x + off \<in> {lo..<hi}" using assms by auto
      then show "x \<in> (\<lambda>b. b - off) ` {lo..<hi}" by blast
    qed
  qed (use assms in auto)
  moreover have "b - off < 8 * length bm" if "b \<in> set [lo..<hi]" for b using that assms by auto
  ultimately show ?thesis using marked_foldl [of "[lo..<hi]" "\<lambda>b. b - off" bm] by simp
qed

text \<open>The flex groups start at the multiples of 16; none of them but group 0 has a copy.\<close>

lemma flex_first_below:
  assumes "g < 80"
  shows "g = grp_flex_first g \<longleftrightarrow> g \<in> {0, 16, 32, 48, 64}"
proof -
  have "g = g div 16 * 16 \<longleftrightarrow> g mod 16 = 0" by presburger
  also have "\<dots> \<longleftrightarrow> g \<in> {0, 16, 32, 48, 64}" using assms by (simp, presburger)
  finally show ?thesis by (simp add: grp_flex_first_def)
qed

definition used_of :: "nat \<Rightarrow> nat" where
  "used_of g = gdt_count_used g 64 16384"

lemma used_of_eq:
  assumes "g < 80"
  shows "used_of g =
    (if g = 0 then 3109 else if g \<in> {16, 32, 48} then 2080 else if g = 64 then 18464
     else if g \<in> set super_groups then 1027 else 0)"
proof (cases "g \<in> {0, 16, 32, 48, 64}")
  case True
  then show ?thesis
    by (auto simp: used_of_def gdt_count_used_def gdt_used_flex_def grp_flex_base_def grp_flex_first_def
        Let_def layout has_super_below super_groups_def)
next
  case False
  with assms flex_first_below [OF assms] show ?thesis
    by (auto simp: used_of_def gdt_count_used_def Let_def layout has_super_below)
qed

lemma create_wi_fields [layout]:
  "wi_root_blk create_wi = 3107" "wi_dindir_blk create_wi = 3108"
  "wi_jnl_fg create_wi = 64" "wi_jnl_start create_wi = 2099232"
  by (simp_all add: create_wi_def layout grp_flex_first_def Let_def)

lemma marked_journal:
  assumes "length bm = 4096" and "g = 64"
  shows "length (bb_mark_journal bm g 2099232 16384) = 4096 \<and>
         marked (bb_mark_journal bm g 2099232 16384) = marked bm \<union> {2080..<18464}"
  using marked_shifted [of "2099232 + 16384" 2099232 bm 2080 "64 * 32768"] assms
  by (simp add: bb_mark_journal_def layout del: upt_rec_numeral)

lemma marked_group0:
  "length (block_bitmap create_wi 0) = 4096 \<and> marked (block_bitmap create_wi 0) = {0..<used_of 0}"
proof -
  let ?bm = "mark_range (replicate 4096 0) 0 3107"
  have "length ?bm = 4096" "marked ?bm = {0..<3107}"
    using marked_range [of 3107 "replicate 4096 0" 0] by (simp_all add: marked_zero)
  moreover have "block_bitmap create_wi 0 = mark_bit (mark_bit ?bm 3107) 3108"
    by (simp add: block_bitmap_def bb_mark_meta_def bb_mark_group0_def Let_def layout grp_flex_first_def)
  ultimately show ?thesis by (auto simp: marked_mark_bit used_of_eq)
qed

lemma marked_flex_first:
  assumes "g < 80" and "g \<in> {16, 32, 48, 64}"
  shows "length (block_bitmap create_wi g) = 4096 \<and> marked (block_bitmap create_wi g) = {0..<used_of g}"
proof -
  have fx: "g = grp_flex_first g" using flex_first_below [OF assms(1)] assms(2) by auto
  have g0: "g \<noteq> 0" using assms(2) by auto
  let ?bm = "foldl (\<lambda>bm b. mark_bit bm (b - g * 32768)) (replicate 4096 0) [g * 32768..<g * 32768 + 2080]"
  have r: "length ?bm = 4096" "marked ?bm = {0..<2080}"
    using marked_shifted [of "g * 32768 + 2080" "g * 32768" "replicate 4096 0" 0 "g * 32768"]
    by (simp_all add: marked_zero)
  have fl: "bb_mark_meta (replicate 4096 0) g 3107 3108 = ?bm"
    using g0 fx by (simp add: bb_mark_meta_def bb_mark_flex_def Let_def layout grp_flex_base_def flip: fx)
  show ?thesis
  proof (cases "g = 64")
    case True
    have "block_bitmap create_wi g = bb_mark_journal (bb_mark_meta (replicate 4096 0) g 3107 3108) g 2099232 16384"
      by (simp only: block_bitmap_def Let_def layout if_P [OF True])
    with marked_journal [OF r(1) True] r(2) fl have "length (block_bitmap create_wi g) = 4096"
      "marked (block_bitmap create_wi g) = {0..<2080} \<union> {2080..<18464}" by (simp_all only:)
    moreover have "{0..<2080} \<union> {2080..<18464} = {0..<18464 :: nat}" by (rule ivl_disj_un_two(3)) simp_all
    moreover have "used_of g = 18464" using True by (simp add: used_of_eq)
    ultimately show ?thesis by (simp only:)
  next
    case False
    then have "block_bitmap create_wi g = ?bm" using fl by (simp add: block_bitmap_def layout)
    moreover have "used_of g = 2080" using assms(2) False by (auto simp: used_of_eq)
    ultimately show ?thesis using r by (simp only:)
  qed
qed

lemma marked_plain:
  assumes "g < 80" and "g \<notin> {0, 16, 32, 48, 64}"
  shows "length (block_bitmap create_wi g) = 4096 \<and> marked (block_bitmap create_wi g) = {0..<used_of g}"
proof -
  have nf: "g \<noteq> grp_flex_first g" "g \<noteq> 0" "g \<noteq> 64" using flex_first_below [OF assms(1)] assms(2) by auto
  show ?thesis
  proof (cases "has_super g")
    case True
    let ?bm = "mark_bit (mark_bit (mark_bit (replicate 4096 0) 0) 1) 2"
    have "length ?bm = 4096" "marked ?bm = {0, 1, 2}" by (auto simp: marked_mark_bit marked_zero)
    with marked_range [of 1027 ?bm 3] have "length (mark_range ?bm 3 1027) = 4096"
      "marked (mark_range ?bm 3 1027) = {0, 1, 2} \<union> {3..<1027}" by simp_all
    moreover have "block_bitmap create_wi g = mark_range ?bm 3 1027"
      using True nf by (simp add: block_bitmap_def bb_mark_meta_def Let_def layout)
    moreover have "used_of g = 1027" using assms True has_super_below [OF assms(1)] by (auto simp: used_of_eq)
    ultimately show ?thesis by auto
  next
    case no: False
    then have "block_bitmap create_wi g = replicate 4096 0"
      using nf by (simp add: block_bitmap_def bb_mark_meta_def Let_def layout)
    moreover have "used_of g = 0" using assms no has_super_below [OF assms(1)] by (auto simp: used_of_eq)
    ultimately show ?thesis by (simp add: marked_zero)
  qed
qed

lemma marked_block_bitmap:
  assumes "g < 80"
  shows "length (block_bitmap create_wi g) = 4096 \<and> marked (block_bitmap create_wi g) = {0..<used_of g}"
  using marked_group0 marked_flex_first [OF assms] marked_plain [OF assms]
  by (cases "g = 0") auto

section \<open>The counts agree\<close>

lemma foldl_count:
  "foldl (\<lambda>n g. if P g then n + k else n) n0 gs = n0 + k * length (filter P gs)"
  by (induction gs arbitrary: n0) (simp_all add: algebra_simps)

lemma upt_80: "[0..<80 :: nat] =
   [0, 1, 2, 3, 4, 5, 6, 7, 8, 9, 10, 11, 12, 13, 14, 15, 16, 17, 18, 19, 20, 21, 22, 23, 24, 25,
   26, 27, 28, 29, 30, 31, 32, 33, 34, 35, 36, 37, 38, 39, 40, 41, 42, 43, 44, 45, 46, 47, 48, 49,
   50, 51, 52, 53, 54, 55, 56, 57, 58, 59, 60, 61, 62, 63, 64, 65, 66, 67, 68, 69, 70, 71, 72, 73,
   74, 75, 76, 77, 78, 79]"
  by code_simp

lemma upt_79: "[1..<80 :: nat] = tl [0..<80]"
  by simp

lemma filter_super: "filter has_super [1..<80] = [1, 3, 5, 7, 9, 25, 27, 49]"
proof -
  have "filter has_super [1..<80] = filter (\<lambda>g. g \<in> set super_groups) [1..<80]"
    by (rule filter_cong) (auto simp: has_super_below)
  then show ?thesis unfolding upt_79 upt_80 by (simp add: super_groups_def)
qed

lemma count_supers: "foldl (\<lambda>n g. if has_super g then n + k else n) n0 [1..<GROUPS] = n0 + 8 * (k :: nat)"
  unfolding foldl_count GROUPS_def by (subst filter_super) simp

lemma compute_used_blks_val: "compute_used_blks = 36029"
  unfolding compute_used_blks_def count_backup_blks_def count_supers by (simp add: layout)

lemma sum_used: "sum_list (map used_of [0..<80]) = 36029"
  by (simp add: upt_80 used_of_eq super_groups_def)

lemma used_fits: "g < 80 \<Longrightarrow> used_of g < 32768"
  by (simp add: used_of_eq)

section \<open>Reading back what was stored\<close>

named_theorems stores \<open>loads from a buffer after a store\<close>

lemma length_wr [simp, stores]: "length (wr16 p i v) = length p" "length (wr32 p i w) = length p"
  by (simp_all add: wr16_def wr32_def)

lemma rd16_wr16 [stores]: "i + 1 < length p \<Longrightarrow> rd16 (wr16 p i v) i = v"
  using word_bytes_16 [of v] by (simp add: rd16_def wr16_def nth_list_update)

lemma rd32_wr32 [stores]: "i + 3 < length p \<Longrightarrow> rd32 (wr32 p i w) i = w"
  using word_bytes_32 [of w] by (simp add: rd32_def wr32_def nth_list_update)

lemma rd_other [stores]:
  "j + 2 \<le> i \<or> i + 2 \<le> j \<Longrightarrow> rd16 (wr16 p j v) i = rd16 p i"
  "j + 4 \<le> i \<or> i + 2 \<le> j \<Longrightarrow> rd16 (wr32 p j w) i = rd16 p i"
  "j + 2 \<le> i \<or> i + 4 \<le> j \<Longrightarrow> rd32 (wr16 p j v) i = rd32 p i"
  "j + 4 \<le> i \<or> i + 4 \<le> j \<Longrightarrow> rd32 (wr32 p j w) i = rd32 p i"
  by (auto simp: rd16_def rd32_def wr16_def wr32_def nth_list_update)

text \<open>A table of equally long entries, each updated in place.\<close>

lemma slices_foldl:
  assumes "\<And>g q. length q = k \<Longrightarrow> length (f g q) = k" and "n * k \<le> length p"
  shows "length (foldl (\<lambda>p g. on_slice (g * k) k (f g) p) p [0..<n]) = length p \<and>
    (\<forall>j. (j + 1) * k \<le> length p \<longrightarrow>
      get_bytes (foldl (\<lambda>p g. on_slice (g * k) k (f g) p) p [0..<n]) (j * k) k =
      (if j < n then f j (get_bytes p (j * k) k) else get_bytes p (j * k) k))"
  using assms(2)
proof (induction n)
  case (Suc n)
  let ?q = "foldl (\<lambda>p g. on_slice (g * k) k (f g) p) p [0..<n]"
  let ?d = "f n (get_bytes ?q (n * k) k)"
  from Suc have IH: "length ?q = length p" "n * k + k \<le> length p"
    "\<And>j. (j + 1) * k \<le> length p \<Longrightarrow> get_bytes ?q (j * k) k =
      (if j < n then f j (get_bytes p (j * k) k) else get_bytes p (j * k) k)" by simp_all
  have d: "length ?d = k" using IH by (intro assms(1)) simp
  have fit: "n * k + length ?d \<le> length ?q" using IH d by simp
  have "get_bytes (put_bytes ?q (n * k) ?d) (j * k) k
      = (if j < Suc n then f j (get_bytes p (j * k) k) else get_bytes p (j * k) k)"
    if "(j + 1) * k \<le> length p" for j
  proof (cases "j = n")
    case True
    then show ?thesis using get_put_same [OF fit] d IH(3) [OF that] by simp
  next
    case False
    then consider "j + 1 \<le> n" | "n + 1 \<le> j" by linarith
    then have "n * k + k \<le> j * k \<or> j * k + k \<le> n * k"
    proof cases
      case 1
      then have "(j + 1) * k \<le> n * k" by (rule mult_le_mono1)
      then show ?thesis by simp
    next
      case 2
      then have "(n + 1) * k \<le> j * k" by (rule mult_le_mono1)
      then show ?thesis by simp
    qed
    then show ?thesis using get_put_other [OF fit, of "j * k" k] d IH that False by auto
  qed
  moreover have "foldl (\<lambda>p g. on_slice (g * k) k (f g) p) p [0..<Suc n] = put_bytes ?q (n * k) ?d"
    by (simp add: on_slice_def)
  ultimately show ?case using fit IH(1) by simp
qed simp

lemma length_gdt_of_group: "length q = 64 \<Longrightarrow> length (gdt_of_group g fg jb q) = 64"
  by (simp add: gdt_of_group_def gdt_set_flags_def gdt_set_free_counts_def gdt_set_addrs_def Let_def)

lemma gdt_table_entry:
  assumes "g < 80"
  shows "length (gdt_table fg jb) = 8192 \<and>
         get_bytes (gdt_table fg jb) (g * 64) 64 = gdt_of_group g fg jb (replicate 64 0)"
proof -
  have "get_bytes (replicate 8192 (0 :: byte)) (g * 64) 64 = replicate 64 0"
    using assms by (intro nth_equalityI) (simp_all add: nth_get_bytes)
  with slices_foldl [of 64 "\<lambda>g. gdt_of_group g fg jb" 80 "replicate 8192 0"] assms length_gdt_of_group
  show ?thesis by (simp add: gdt_table_def layout)
qed

lemma gdt_entry_fields:
  assumes "length d = 64"
  shows "rd32 (gdt_of_group g fg jb d) G_BB_LO = of_nat (grp_bb_blk g)"
    "rd32 (gdt_of_group g fg jb d) G_IB_LO = of_nat (grp_ib_blk g)"
    "rd32 (gdt_of_group g fg jb d) G_IT_LO = of_nat (grp_it_blk g)"
    "rd16 (gdt_of_group g fg jb d) G_FREE_B =
      (let blks = (if g < 79 then 32768 else 2621440 - g * 32768); used = gdt_count_used g fg jb in
       if used < blks then of_nat (blks - used) else 0)"
  using assms
  by (simp_all add: gdt_of_group_def gdt_set_flags_def gdt_set_free_counts_def gdt_set_addrs_def Let_def
      layout stores)

end
