(* ===== verification/Ext4Image.thy ===== *)
theory Ext4Image
  imports Ext4Layout
begin

text \<open>
  The image on the device.  When every write of \<open>do_writes\<close> succeeds, the device holds the
  initial image updated by a list of writes; no write that comes later touches the
  superblock, the bitmaps, the root directory, or the inode table, and the group descriptors
  that stay are the ones with the checksums of the bitmaps that stay.
\<close>

section \<open>Lists of writes\<close>

definition puts :: "(nat \<Rightarrow> byte) \<Rightarrow> (nat \<times> byte list) list \<Rightarrow> nat \<Rightarrow> byte" where
  "puts img ws = foldl (\<lambda>img w. img_put img (fst w) (snd w)) img ws"

definition apart :: "nat \<Rightarrow> nat \<Rightarrow> nat \<times> byte list \<Rightarrow> bool" where
  "apart off n w \<longleftrightarrow> fst w + length (snd w) \<le> off \<or> off + n \<le> fst w"

lemma puts_simps [simp]:
  "puts img [] = img" "puts img (w # ws) = puts (img_put img (fst w) (snd w)) ws"
  "puts img (a @ b) = puts (puts img a) b"
  by (simp_all add: puts_def)

lemma length_img_get [simp]: "length (img_get img off n) = n"
  by (simp add: img_get_def)

lemma img_get_put: "img_get (img_put img off buf) off (length buf) = buf"
  by (auto simp: img_get_def img_put_def intro: nth_equalityI)

lemma img_get_put_apart: "apart off n w \<Longrightarrow> img_get (img_put img (fst w) (snd w)) off n = img_get img off n"
  by (auto simp: img_get_def img_put_def apart_def)

lemma puts_apart: "(\<And>w. w \<in> set ws \<Longrightarrow> apart off n w) \<Longrightarrow> img_get (puts img ws) off n = img_get img off n"
  by (induction ws arbitrary: img) (simp_all add: img_get_put_apart)

text \<open>A write whose later companions are apart from it is what is read back.\<close>

lemma puts_mapped:
  assumes "x \<in> set xs" and "length (buf x) = n"
    and "\<And>y. y \<in> set xs \<Longrightarrow> y \<noteq> x \<Longrightarrow> apart (off x) n (off y, buf y)"
  shows "img_get (puts img (map (\<lambda>x. (off x, buf x)) xs)) (off x) n = buf x"
  using assms(1,3)
proof (induction xs arbitrary: img)
  case (Cons y ys)
  show ?case
  proof (cases "x \<in> set ys")
    case True
    with Cons show ?thesis by simp
  next
    case False
    with Cons.prems have "x = y" by simp
    with False Cons.prems have "img_get (puts img (map (\<lambda>x. (off x, buf x)) (y # ys))) (off x) n
        = img_get (img_put img (off x) (buf x)) (off x) n"
      by (simp add: \<open>x = y\<close>) (rule puts_apart, auto)
    then show ?thesis using img_get_put [of img "off x" "buf x"] assms(2) by simp
  qed
qed simp

section \<open>Successful operations as writes\<close>

lemma write_at_ok: "write_at io buf off d = (0, d') \<Longrightarrow> dsk_img d' = img_put (dsk_img d) off buf"
  by (auto simp: write_at_def Let_def split: if_splits)

lemma read_at_ok: "read_at io n off d = (Some b, d') \<Longrightarrow> b = img_get (dsk_img d) off n \<and> dsk_img d' = dsk_img d"
  by (auto simp: read_at_def Let_def split: if_splits)

lemma read_at_img: "read_at io n off d = (r, d') \<Longrightarrow> dsk_img d' = dsk_img d"
  by (auto simp: read_at_def Let_def split: if_splits)

lemma for_each_ok:
  assumes "for_each f xs s = (0, s')"
    and "\<And>x s s'. x \<in> set xs \<Longrightarrow> f x s = (0, s') \<Longrightarrow> ab s' = g x (ab s)"
  shows "ab s' = foldl (\<lambda>a x. g x a) (ab s) xs"
  using assms
proof (induction xs arbitrary: s)
  case (Cons x xs)
  from Cons.prems(1) obtain s1 where s1: "f x s = (0, s1)" "for_each f xs s1 = (0, s')"
    by (auto split: prod.splits if_splits)
  from Cons.IH [OF s1(2)] Cons.prems(2) [OF _ s1(1)] Cons.prems(2) show ?case by simp
qed simp

lemma foldl_puts: "foldl (\<lambda>img x. img_put img (off x) (buf x)) img xs = puts img (map (\<lambda>x. (off x, buf x)) xs)"
  by (induction xs arbitrary: img) simp_all

lemma for_each_writes:
  assumes "for_each (\<lambda>x. write_at io (buf x) (off x)) xs d = (0, d')"
  shows "dsk_img d' = puts (dsk_img d) (map (\<lambda>x. (off x, buf x)) xs)"
  using for_each_ok [OF assms, of dsk_img "\<lambda>x img. img_put img (off x) (buf x)"] write_at_ok
  by (simp add: foldl_puts)

lemma img_put_join:
  "img_put (img_put img off a) (off + length a) b = img_put img off (a @ b)"
  by (auto simp: img_put_def fun_eq_iff nth_append)

lemma write_zeroes_ok:
  "write_zeroes io off len d = (0, d') \<Longrightarrow> dsk_img d' = img_put (dsk_img d) off (replicate len 0)"
proof (induction io off len d rule: write_zeroes.induct)
  case (1 io off len d)
  show ?case
  proof (cases "len = 0")
    case True
    then show ?thesis using 1 by (subst (asm) write_zeroes.simps) (auto simp: img_put_def fun_eq_iff)
  next
    case False
    define n where "n = (if len < 4096 then len else 4096)"
    obtain e d1 where w: "write_at io (replicate n 0) off d = (e, d1)" by force
    have step: "write_zeroes io off len d = (if e \<noteq> 0 then (-1, d1) else write_zeroes io (off + n) (len - n) d1)"
      using False w by (subst write_zeroes.simps) (simp add: n_def Let_def)
    with "1.prems" have e: "e = 0" by (auto split: if_splits)
    have "dsk_img d' = img_put (dsk_img d1) (off + n) (replicate (len - n) 0)"
      using "1.IH" [OF False n_def w [symmetric]] "1.prems" step e by simp
    also have "\<dots> = img_put (dsk_img d) off (replicate n 0 @ replicate (len - n) 0)"
      using write_at_ok [of io "replicate n 0" off d d1] w e
        img_put_join [of "dsk_img d" off "replicate n 0" "replicate (len - n) 0"] by simp
    also have "replicate n 0 @ replicate (len - n) 0 = replicate len (0 :: byte)"
      unfolding replicate_add [symmetric] by (simp add: n_def)
    finally show ?thesis .
  qed
qed

section \<open>Lengths of what is written\<close>

lemma length_foldl_same:
  "(\<And>p x. length (f p x) = length p) \<Longrightarrow> length (foldl f p xs) = length p"
  by (induction xs arbitrary: p) simp_all

lemma length_wr_tbl [simp]: "length (wr32_tbl p t) = length p" "length (wr16_tbl p t') = length p"
  by (simp_all add: wr32_tbl_def wr16_tbl_def length_foldl_same case_prod_beta)

lemma length_sb_image:
  assumes "length (mk_uuid m) = 16" and "length (mk_hash_seed m) = 16"
  shows "length (sb_image m u) = 1024"
  using assms
  by (simp add: sb_image_def Let_def fill_sb_jnl_def fill_jbd2_extent_def sb_set_scalars_def sb_write_u16s_def
      sb_write_u32s_a_def sb_write_u32s_b_def)

lemma length_root_dir [simp]: "length (root_dir_block seed) = 4096"
  by (simp add: root_dir_block_def write_dotdot_entry_def write_dot_entry_def Let_def layout)

lemma length_inode_bitmap [simp]: "length (inode_bitmap g) = 4096"
  by (simp add: inode_bitmap_def Let_def layout)

lemma length_resize_gdt_block [simp]: "length (resize_gdt_block b) = 4096"
proof -
  have "length (fst (foldl (\<lambda>(buf, k) grp. if \<not> has_super grp then (buf, k)
      else (wr32 buf (k * 4) (of_nat (b + grp * BLKS_PER_GRP)), k + 1)) s gs)) = length (fst s)" for s :: "byte list \<times> nat" and gs
    by (induction gs arbitrary: s) (auto split: prod.splits)
  then show ?thesis by (simp add: resize_gdt_block_def layout)
qed

lemma length_wr32be [simp]: "length (wr32be p i v) = length p"
  by (simp add: wr32be_def)

lemma length_jsb: "length uuid = 16 \<Longrightarrow> length (fill_jbd2_sb (replicate 4096 0) uuid) = 4096"
  by (simp add: fill_jbd2_sb_def Let_def)

lemma length_on_slice:
  "(\<And>q. length q = n \<Longrightarrow> length (f q) = n) \<Longrightarrow> off + n \<le> length p \<Longrightarrow> length (on_slice off n f p) = length p"
  by (simp add: on_slice_def)

lemma length_inode_set_csum [simp]: "length (inode_set_csum p i seed) = length p"
  by (simp add: inode_set_csum_def Let_def)

lemma length_extent_set [simp]: "length (extent_set p i a b c) = length p"
  by (simp add: extent_set_def Let_def)

lemma length_inode_table: "length (inode_table m w) = 524288"
proof -
  have "length (set_inode_csums seed p) = length p" if "length p = 2048 * 256" for seed p
    using slices_foldl [of 256 "\<lambda>i p. if rd16 p 0x1A \<noteq> 0 then inode_set_csum p (of_nat (i + 1)) seed else p" 2048 p] that
    by (simp add: set_inode_csums_def layout)
  moreover have "length (on_slice off 256 f p) = 2048 * 256"
    if "length p = 2048 * 256" "off + 256 \<le> 2048 * 256" "\<And>q. length q = 256 \<Longrightarrow> length (f q) = 256" for off f p
    using that length_on_slice [of 256 f off p] by simp
  ultimately show ?thesis
    by (simp add: inode_table_def Let_def layout fill_root_inode_def fill_resize_inode_def fill_journal_inode_def
        fill_orphan_inode_def set_resize_isize_def)
qed

section \<open>The steps of a successful run\<close>

text \<open>The descriptor of a group after its checksums were taken from an image.\<close>

definition put_csum :: "nat \<Rightarrow> nat \<Rightarrow> u32 \<Rightarrow> byte list \<Rightarrow> byte list" where
  "put_csum lo hi c p = wr16 (wr16 p lo (ucast (c AND 0xFFFF))) hi (ucast (drop_bit 16 c))"

definition bb_csum :: "(nat \<Rightarrow> byte) \<Rightarrow> u32 \<Rightarrow> nat \<Rightarrow> u32" where
  "bb_csum img seed g = crc32c_e2fs seed (img_get img (grp_bb_blk g * 4096) 4096)"

definition ib_csum :: "(nat \<Rightarrow> byte) \<Rightarrow> u32 \<Rightarrow> nat \<Rightarrow> u32" where
  "ib_csum img seed g = crc32c_e2fs seed (take 256 (img_get img (grp_ib_blk g * 4096) 4096))"

definition csum_entry :: "(nat \<Rightarrow> byte) \<Rightarrow> u32 \<Rightarrow> nat \<Rightarrow> byte list \<Rightarrow> byte list" where
  "csum_entry img seed g p =
     gdt_set_csum (put_csum G_IB_C_L G_IB_C_H (ib_csum img seed g)
                    (put_csum G_BB_C_L G_BB_C_H (bb_csum img seed g) p)) g seed"

definition csum_table :: "(nat \<Rightarrow> byte) \<Rightarrow> u32 \<Rightarrow> byte list \<Rightarrow> byte list" where
  "csum_table img seed gdt = foldl (\<lambda>p g. on_slice (g * 64) 64 (csum_entry img seed g) p) gdt [0..<80]"

lemma length_csum_entry [simp]: "length (csum_entry img seed g p) = length p"
  by (simp add: csum_entry_def put_csum_def gdt_set_csum_def Let_def)

lemma csum_group_at_ok:
  assumes "csum_group_at io seed g s = (0, s')"
  shows "dsk_img (snd s') = dsk_img (snd s) \<and>
         fst s' = on_slice (g * 64) 64 (csum_entry (dsk_img (snd s)) seed g) (fst s)"
proof -
  obtain p d where s: "s = (p, d)" by force
  let ?q = "get_bytes p (g * 64) 64"
  obtain r1 d1 where r1: "read_at io 4096 (grp_bb_blk g * 4096) d = (r1, d1)" by force
  obtain r2 d2 where r2: "read_at io 4096 (grp_ib_blk g * 4096) d1 = (r2, d2)" by force
  from assms r1 r2 obtain b1 b2 where b: "r1 = Some b1" "r2 = Some b2"
    by (auto simp: csum_group_at_def csum_one_group_def csum_bb_one_def csum_ib_one_def s layout Let_def
        split: option.splits)
  from read_at_ok [OF r1 [unfolded b]] read_at_ok [OF r2 [unfolded b]]
  have "b1 = img_get (dsk_img d) (grp_bb_blk g * 4096) 4096" "b2 = img_get (dsk_img d) (grp_ib_blk g * 4096) 4096"
    "dsk_img d2 = dsk_img d" by simp_all
  then show ?thesis
    using assms r1 r2 b
    by (auto simp: csum_group_at_def csum_one_group_def csum_bb_one_def csum_ib_one_def s layout Let_def
        on_slice_def csum_entry_def put_csum_def bb_csum_def ib_csum_def)
qed

definition backup_writes :: "byte list \<Rightarrow> byte list \<Rightarrow> nat \<Rightarrow> (nat \<times> byte list) list" where
  "backup_writes sb gdt g =
     (let bs = wr16 sb 0x05A (of_nat g);
          bs = wr32 bs 0x3FC (crc32c_e2fs (NOT 0) (take 0x3FC bs))
      in [(g * 134217728, bs), (g * 134217728 + 4096, gdt)])"

definition backups :: "byte list \<Rightarrow> byte list \<Rightarrow> (nat \<times> byte list) list" where
  "backups sb gdt = concat (map (backup_writes sb gdt) (filter has_super [1..<80]))"

lemma write_one_backup_ok:
  "write_one_backup io sb gdt g d = (0, d') \<Longrightarrow> dsk_img d' = puts (dsk_img d) (backup_writes sb gdt g)"
  by (auto simp: write_one_backup_def Let_def layout backup_writes_def algebra_simps
      dest!: write_at_ok split: prod.splits if_splits)

lemma foldl_puts_concat:
  "foldl (\<lambda>img g. if P g then puts img (ws g) else img) img gs = puts img (concat (map ws (filter P gs)))"
  by (induction gs arbitrary: img) simp_all

lemma write_backups_ok:
  assumes "write_backups io gdt d = (0, d')"
  shows "dsk_img d' = puts (dsk_img d) (backups (img_get (dsk_img d) 1024 1024) gdt)"
proof -
  obtain r d1 where r: "read_at io 1024 1024 d = (r, d1)" by force
  with assms obtain sb where sb: "r = Some sb" by (auto simp: write_backups_def layout split: option.splits)
  from read_at_ok [OF r [unfolded sb]] have s: "sb = img_get (dsk_img d) 1024 1024" "dsk_img d1 = dsk_img d" by simp_all
  have "for_each (\<lambda>g d. if \<not> has_super g then (0, d) else write_one_backup io sb gdt g d) [1..<80] d1 = (0, d')"
    using assms r sb by (simp add: write_backups_def layout)
  then have "dsk_img d' = foldl (\<lambda>img g. if has_super g then puts img (backup_writes sb gdt g) else img) (dsk_img d1) [1..<80]"
    by (rule for_each_ok) (auto dest: write_one_backup_ok split: if_splits)
  then show ?thesis using s by (simp only: foldl_puts_concat backups_def)
qed

lemma write_csum_backups_ok:
  assumes "write_csum_backups io gdt seed d = (0, gdt', d')"
  shows "gdt' = csum_table (dsk_img d) seed gdt \<and>
    dsk_img d' = puts (dsk_img d) ((4096, gdt') # backups (img_get (img_put (dsk_img d) 4096 gdt') 1024 1024) gdt')"
proof -
  obtain e1 g1 d1 where f: "for_each (csum_group_at io seed) [0..<80] (gdt, d) = (e1, g1, d1)" by (metis prod_cases3)
  obtain e2 d2 where w: "write_at io g1 4096 d1 = (e2, d2)" by force
  obtain e3 d3 where b: "write_backups io g1 d2 = (e3, d3)" by force
  have e: "e1 = 0" "e2 = 0" "e3 = 0" "gdt' = g1" "d' = d3"
    using assms f w b by (auto simp: write_csum_backups_def layout split: if_splits)
  have "(\<lambda>s. (fst s, dsk_img (snd s))) (g1, d1) = foldl (\<lambda>a g. (\<lambda>g (p, img).
      (on_slice (g * 64) 64 (csum_entry img seed g) p, img)) g a) ((\<lambda>s. (fst s, dsk_img (snd s))) (gdt, d)) [0..<80]"
    by (rule for_each_ok [OF f [unfolded e(1)]]) (auto dest: csum_group_at_ok)
  moreover have "foldl (\<lambda>a g. (\<lambda>g (p, img). (on_slice (g * 64) 64 (csum_entry img seed g) p, img)) g a) (p, img) gs
      = (foldl (\<lambda>p g. on_slice (g * 64) 64 (csum_entry img seed g) p) p gs, img)" for p img and gs :: "nat list"
    by (induction gs arbitrary: p) simp_all
  ultimately have "g1 = csum_table (dsk_img d) seed gdt" "dsk_img d1 = dsk_img d" by (simp_all add: csum_table_def)
  with write_at_ok [OF w [unfolded e]] write_backups_ok [OF b [unfolded e]] e show ?thesis by simp
qed

lemma write_journal_ok:
  "write_journal io js uuid d = (0, d') \<Longrightarrow> dsk_img d' =
     puts (dsk_img d) [(js * 4096, fill_jbd2_sb (replicate 4096 0) uuid), ((js + 1) * 4096, replicate (16383 * 4096) 0)]"
  by (auto simp: write_journal_def layout Let_def dest!: write_at_ok write_zeroes_ok split: prod.splits if_splits)

definition resize_writes :: "(nat \<times> byte list) list" where
  "resize_writes = map (\<lambda>r. ((r + 3) * 4096, resize_gdt_block (r + 3))) [0..<1024]"

lemma write_resize_data_ok:
  assumes "write_resize_data io dd d = (0, d')"
  shows "\<exists>buf. length buf = 4096 \<and> dsk_img d' = puts (dsk_img d) (resize_writes @ [(dd * 4096, buf)])"
proof -
  obtain e1 buf k d1 where f: "for_each (resize_round io) [0..<1024] (replicate 4096 0, 2, d) = (e1, buf, k, d1)"
    by (metis prod_cases4)
  obtain e2 d2 where w: "write_at io buf (dd * 4096) d1 = (e2, d2)" by force
  have e: "e1 = 0" "e2 = 0" "d' = d2"
    using assms f w by (auto simp: write_resize_data_def layout split: if_splits)
  have step: "length (fst s') = length (fst s) \<and>
      dsk_img (snd (snd s')) = img_put (dsk_img (snd (snd s))) ((r + 3) * 4096) (resize_gdt_block (r + 3))"
    if "resize_round io r s = (0, s')" for r s s'
    using that by (auto simp: resize_round_def write_one_resize_gdt_def layout Let_def dest!: write_at_ok
        split: prod.splits if_splits)
  have "(length buf, dsk_img d1) =
      foldl (\<lambda>a r. (\<lambda>r (l, img). (l, img_put img ((r + 3) * 4096) (resize_gdt_block (r + 3)))) r a)
        (4096, dsk_img d) [0..<1024]"
    using for_each_ok [OF f [unfolded e(1)], of "\<lambda>s. (length (fst s), dsk_img (snd (snd s)))"
        "\<lambda>r (l, img). (l, img_put img ((r + 3) * 4096) (resize_gdt_block (r + 3)))"] step by simp
  moreover have "foldl (\<lambda>a r. (\<lambda>r (l, img). (l, img_put img ((r + 3) * 4096) (resize_gdt_block (r + 3)))) r a) (l, img) rs
      = (l, puts img (map (\<lambda>r. ((r + 3) * 4096, resize_gdt_block (r + 3))) rs))" for l :: nat and img and rs :: "nat list"
    by (induction rs arbitrary: img) simp_all
  ultimately have "length buf = 4096" "dsk_img d1 = puts (dsk_img d) resize_writes"
    by (simp_all add: resize_writes_def)
  with write_at_ok [OF w [unfolded e]] e show ?thesis by auto
qed

section \<open>A successful run\<close>

definition main_writes :: "mkfs \<Rightarrow> byte list \<Rightarrow> (nat \<times> byte list) list" where
  "main_writes m buf =
     [(1024, sb_image m 36029), (4096, gdt_table 64 16384)]
     @ map (\<lambda>g. (grp_bb_blk g * 4096, block_bitmap create_wi g)) [0..<80]
     @ map (\<lambda>g. (grp_ib_blk g * 4096, inode_bitmap g)) [0..<80]
     @ [(3107 * 4096, root_dir_block (mk_seed m)),
        (2099232 * 4096, fill_jbd2_sb (replicate 4096 0) (mk_uuid m)),
        (2099233 * 4096, replicate (16383 * 4096) 0),
        (1059 * 4096, inode_table m create_wi)]
     @ resize_writes @ [(3108 * 4096, buf)]"

lemma write_superblock_ok:
  "write_superblock io m u d = (0, d') \<Longrightarrow> dsk_img d' = img_put (dsk_img d) 1024 (sb_image m u)"
  by (auto simp: write_superblock_def layout dest!: write_at_ok split: prod.splits if_splits)

lemma do_create_writes_ok:
  assumes "do_create_writes io mem m d = (0, d')"
  shows "\<exists>buf. length buf = 4096 \<and>
    (let img = puts (dsk_img d) (main_writes m buf);
         gdt = csum_table img (mk_seed m) (gdt_table 64 16384)
     in dsk_img d' = puts img ((4096, gdt) # backups (img_get (img_put img 4096 gdt) 1024 1024) gdt))"
proof -
  let ?w = create_wi
  obtain e1 d1 where s1: "write_superblock io m (of_nat compute_used_blks) d = (e1, d1)" by force
  obtain e2 gdt d2 where s2: "write_gdt io 64 16384 d1 = (e2, gdt, d2)" by (metis prod_cases3)
  obtain e3 d3 where s3: "write_block_bitmaps io ?w d2 = (e3, d3)" by force
  obtain e4 d4 where s4: "write_inode_bitmaps io d3 = (e4, d4)" by force
  obtain e5 d5 where s5: "write_root_dir io 3107 (mk_seed m) d4 = (e5, d5)" by force
  obtain e6 d6 where s6: "write_journal io 2099232 (mk_uuid m) d5 = (e6, d6)" by force
  obtain e7 d7 where s7: "write_inode_table io mem m ?w d6 = (e7, d7)" by force
  obtain e8 d8 where s8: "write_resize_data io 3108 d7 = (e8, d8)" by force
  obtain e9 gdt' d9 where s9: "write_csum_backups io gdt (mk_seed m) d8 = (e9, gdt', d9)" by (metis prod_cases3)
  have "do_create_writes io mem m d = (e1 OR e2 OR e3 OR e4 OR e5 OR e6 OR e7 OR e8 OR e9, d9)"
    by (simp add: do_create_writes_def do_writes_def create_wi_fields s1 s2 s3 s4 s5 s6 s7 s8 s9)
  with assms have e: "e1 = 0" "e2 = 0" "e3 = 0" "e4 = 0" "e5 = 0" "e6 = 0" "e7 = 0" "e8 = 0" "e9 = 0" and d9: "d' = d9"
    by (auto simp: or_eq_0_iff)
  have i1: "dsk_img d1 = img_put (dsk_img d) 1024 (sb_image m 36029)"
    using write_superblock_ok [OF s1 [unfolded e]] by (simp add: compute_used_blks_val)
  have i2: "dsk_img d2 = img_put (dsk_img d1) 4096 (gdt_table 64 16384)" "gdt = gdt_table 64 16384"
    using s2 e by (auto simp: write_gdt_def layout Let_def dest!: write_at_ok split: prod.splits)
  have i3: "dsk_img d3 = puts (dsk_img d2) (map (\<lambda>g. (grp_bb_blk g * 4096, block_bitmap ?w g)) [0..<80])"
    using for_each_writes s3 e by (simp add: write_block_bitmaps_def layout)
  have i4: "dsk_img d4 = puts (dsk_img d3) (map (\<lambda>g. (grp_ib_blk g * 4096, inode_bitmap g)) [0..<80])"
    using for_each_writes s4 e by (simp add: write_inode_bitmaps_def layout)
  have i5: "dsk_img d5 = img_put (dsk_img d4) (3107 * 4096) (root_dir_block (mk_seed m))"
    using write_at_ok s5 e by (simp add: write_root_dir_def layout)
  note i6 = write_journal_ok [OF s6 [unfolded e]]
  have i7: "dsk_img d7 = img_put (dsk_img d6) (1059 * 4096) (inode_table m ?w)"
    using s7 e by (auto simp: write_inode_table_def layout grp_it_blk_def grp_flex_first_def dest!: write_at_ok
        split: if_splits)
  from write_resize_data_ok [OF s8 [unfolded e]] obtain buf where
    i8: "length buf = 4096" "dsk_img d8 = puts (dsk_img d7) (resize_writes @ [(3108 * 4096, buf)])" by auto
  have "dsk_img d8 = puts (dsk_img d) (main_writes m buf)"
    by (simp add: main_writes_def i1 i2 i3 i4 i5 i6 i7 i8(2) del: upt_rec_numeral)
  with write_csum_backups_ok [OF s9 [unfolded e]] i2(2) i8(1) d9 show ?thesis by (auto simp: Let_def)
qed

section \<open>Where the writes go\<close>

lemma bb_blk_eq: "grp_bb_blk g = (if g < 16 then 1027 + g else g div 16 * 524288 + g mod 16)"
proof -
  have "g = g div 16 * 16 + g mod 16" by simp
  then show ?thesis by (auto simp: grp_bb_blk_def grp_flex_base_def grp_flex_first_def layout Let_def)
qed

lemma ib_blk_eq: "grp_ib_blk g = (if g < 16 then 1043 + g else g div 16 * 524288 + 16 + g mod 16)"
proof -
  have "g = g div 16 * 16 + g mod 16" by simp
  then show ?thesis by (auto simp: grp_ib_blk_def grp_flex_base_def grp_flex_first_def layout Let_def)
qed

text \<open>Both kinds of bitmap blocks avoid everything else.\<close>

definition bitmap_blk :: "nat \<Rightarrow> bool" where
  "bitmap_blk b \<longleftrightarrow> (1027 \<le> b \<and> b < 1059) \<or> (\<exists>q r. 1 \<le> q \<and> q \<le> 4 \<and> r < 32 \<and> b = q * 524288 + r)"

lemma bitmap_blks:
  assumes "g < 80"
  shows "bitmap_blk (grp_bb_blk g)" "bitmap_blk (grp_ib_blk g)"
proof -
  have "g div 16 \<le> 4" "g mod 16 < 16" "16 \<le> g \<Longrightarrow> 1 \<le> g div 16" using assms by linarith+
  then show "bitmap_blk (grp_bb_blk g)" by (auto simp: bitmap_blk_def bb_blk_eq)
  show "bitmap_blk (grp_ib_blk g)"
  proof (cases "g < 16")
    case False
    with \<open>g div 16 \<le> 4\<close> \<open>16 \<le> g \<Longrightarrow> 1 \<le> g div 16\<close> \<open>g mod 16 < 16\<close>
    have "1 \<le> g div 16 \<and> g div 16 \<le> 4 \<and> 16 + g mod 16 < 32 \<and> grp_ib_blk g = g div 16 * 524288 + (16 + g mod 16)"
      by (simp add: ib_blk_eq)
    then show ?thesis unfolding bitmap_blk_def by blast
  qed (simp add: bitmap_blk_def ib_blk_eq)
qed

lemma flex_blk_inj: "r < 32 \<Longrightarrow> r' < 32 \<Longrightarrow> q * 524288 + r = q' * 524288 + r' \<longleftrightarrow> q = q' \<and> (r :: nat) = r'"
proof
  assume r: "r < 32" "r' < 32" and e: "q * 524288 + r = q' * 524288 + r'"
  have "(q * 524288 + r) div 524288 = q" "(q' * 524288 + r') div 524288 = q'" using r by simp_all
  with e show "q = q' \<and> r = r'" by simp
qed simp

lemma split_16: "(g :: nat) = h \<longleftrightarrow> g div 16 = h div 16 \<and> g mod 16 = h mod 16"
  by (metis div_mult_mod_eq)

lemma flex_blk_ge: "\<not> (x :: nat) < 16 \<Longrightarrow> 524288 \<le> x div 16 * 524288"
proof -
  assume "\<not> x < 16"
  then have "1 \<le> x div 16" by simp
  then show ?thesis by linarith
qed

lemma mod_16_less: "(x :: nat) mod 16 < 32" "16 + (x :: nat) mod 16 < 32"
  using mod_less_divisor [of 16 x] by linarith+

lemma bitmap_blk_inj:
  shows "grp_bb_blk g = grp_bb_blk h \<longleftrightarrow> g = h" "grp_ib_blk g = grp_ib_blk h \<longleftrightarrow> g = h" "grp_bb_blk g \<noteq> grp_ib_blk h"
proof -
  define q r q' r' where d: "q = g div 16 * 524288" "r = g mod 16" "q' = h div 16 * 524288" "r' = h mod 16"
  have ge: "g < 16 \<or> 524288 \<le> q" "h < 16 \<or> 524288 \<le> q'"
    using flex_blk_ge [of g] flex_blk_ge [of h] unfolding d by blast+
  have bb: "q + r = q' + r' \<longleftrightarrow> g = h"
    unfolding split_16 [of g] d by (rule flex_blk_inj) (rule mod_16_less)+
  have "q + r \<noteq> q' + (16 + r')"
    using flex_blk_inj [OF mod_16_less(1) [of g] mod_16_less(2) [of h], of "g div 16" "h div 16"]
      mod_less_divisor [of 16 g] unfolding d by auto
  then have mix: "q + r \<noteq> q' + 16 + r'" by simp
  note eqs = bb_blk_eq [of g] bb_blk_eq [of h] ib_blk_eq [of g] ib_blk_eq [of h]
  show "grp_bb_blk g = grp_bb_blk h \<longleftrightarrow> g = h" "grp_ib_blk g = grp_ib_blk h \<longleftrightarrow> g = h"
    "grp_bb_blk g \<noteq> grp_ib_blk h"
    unfolding eqs d(1-4) [symmetric] using ge bb mix by auto
qed

text \<open>Writes that start at a block boundary are apart when their blocks are.\<close>

lemma apart_blocks:
  "c + l \<le> b \<or> b + k \<le> c \<Longrightarrow> length d \<le> l * 4096 \<Longrightarrow> apart (b * 4096) (k * 4096) (c * 4096, d)"
  by (auto simp: apart_def)

definition late_writes :: "byte list \<Rightarrow> byte list \<Rightarrow> (nat \<times> byte list) list" where
  "late_writes sb gdt = (4096, gdt) # backups sb gdt"

lemma late_writes_at:
  assumes "w \<in> set (late_writes sb gdt)" and "length sb = 1024" and "length gdt = 8192"
  shows "\<exists>c d. w = (c * 4096, d) \<and> length d \<le> 2 * 4096 \<and>
    (c = 1 \<or> (\<exists>g \<in> {1, 3, 5, 7, 9, 25, 27, 49}. c = g * 32768 \<or> c = g * 32768 + 1))"
proof -
  have "\<exists>c. g * 134217728 = c * 4096 \<and> c = g * 32768" "\<exists>c. g * 134217728 + 4096 = c * 4096 \<and> c = g * 32768 + 1" for g :: nat
    by simp_all
  with assms show ?thesis
    unfolding late_writes_def backups_def filter_super backup_writes_def Let_def
    by (simp, elim disjE) (auto intro: exI [of _ 1])
qed

lemma late_apart:
  assumes "w \<in> set (late_writes sb gdt)" and "length sb = 1024" and "length gdt = 8192"
    and "3 \<le> b" and "\<And>g. g \<in> {1, 3, 5, 7, 9, 25, 27, 49 :: nat} \<Longrightarrow> b + k \<le> g * 32768 \<or> g * 32768 + 3 \<le> b"
  shows "apart (b * 4096) (k * 4096) w"
proof -
  obtain c d where w: "w = (c * 4096, d)" "length d \<le> 2 * 4096"
    and c: "c = 1 \<or> (\<exists>g \<in> {1, 3, 5, 7, 9, 25, 27, 49}. c = g * 32768 \<or> c = g * 32768 + 1)"
    using late_writes_at [OF assms(1-3)] by blast
  from c have "c + 2 \<le> b \<or> b + k \<le> c"
  proof
    assume "\<exists>g \<in> {1, 3, 5, 7, 9, 25, 27, 49}. c = g * 32768 \<or> c = g * 32768 + 1"
    then obtain g where "g \<in> {1, 3, 5, 7, 9, 25, 27, 49 :: nat}" "c = g * 32768 \<or> c = g * 32768 + 1" by blast
    with assms(5) [of g] show ?thesis by linarith
  qed (use assms(4) in simp)
  with w show ?thesis by (simp only: apart_blocks)
qed

lemma bitmap_late:
  assumes "bitmap_blk b" and "g \<in> {1, 3, 5, 7, 9, 25, 27, 49 :: nat}"
  shows "b + 1 \<le> g * 32768 \<or> g * 32768 + 3 \<le> b"
proof -
  from assms(1) consider "b < 1059" | q r where "1 \<le> q" "q \<le> 4" "r < 32" "b = q * 524288 + r"
    by (auto simp: bitmap_blk_def)
  then show ?thesis
  proof cases
    case 2
    then have "q = 1 \<or> q = 2 \<or> q = 3 \<or> q = 4" by linarith
    with 2 assms(2) show ?thesis by (elim disjE) auto
  qed (use assms(2) in auto)
qed

text \<open>The single writes of the main part, and the ones of its loops.\<close>

lemma resize_apart:
  "w \<in> set resize_writes \<Longrightarrow> b + k \<le> 3 \<or> 1027 \<le> b \<Longrightarrow> apart (b * 4096) (k * 4096) w"
  unfolding resize_writes_def by (auto simp: apart_def)

lemma bitmap_apart:
  assumes "bitmap_blk b" and "length buf = 4096" and "length (mk_uuid m) = 16"
    and "w \<in> set ([(3107 * 4096, root_dir_block (mk_seed m)),
        (2099232 * 4096, fill_jbd2_sb (replicate 4096 0) (mk_uuid m)),
        (2099233 * 4096, replicate (16383 * 4096) 0),
        (1059 * 4096, inode_table m create_wi)] @ resize_writes @ [(3108 * 4096, buf)])"
  shows "apart (b * 4096) 4096 w"
proof -
  have b: "1027 \<le> b \<and> (b < 1059 \<or> (524288 \<le> b \<and> b < 2097184))"
  proof -
    from assms(1) consider "1027 \<le> b" "b < 1059" | q r where "1 \<le> q" "q \<le> 4" "r < 32" "b = q * 524288 + r"
      by (auto simp: bitmap_blk_def)
    then show ?thesis by cases linarith+
  qed
  consider "w \<in> set resize_writes" | "w = (3107 * 4096, root_dir_block (mk_seed m))"
    | "w = (2099232 * 4096, fill_jbd2_sb (replicate 4096 0) (mk_uuid m))"
    | "w = (2099233 * 4096, replicate (16383 * 4096) 0)" | "w = (1059 * 4096, inode_table m create_wi)"
    | "w = (3108 * 4096, buf)" using assms(4) by auto
  then show ?thesis
  proof cases
    case 1
    then show ?thesis using resize_apart [of w b 1] b by simp
  qed (use b assms in \<open>auto simp: apart_def length_jsb length_inode_table\<close>)
qed

lemma main_bb:
  assumes "g < 80" and "length buf = 4096" and "length (mk_uuid m) = 16"
  shows "img_get (puts img (main_writes m buf)) (grp_bb_blk g * 4096) 4096 = block_bitmap create_wi g" (is ?bb)
    and "img_get (puts img (main_writes m buf)) (grp_ib_blk g * 4096) 4096 = inode_bitmap g" (is ?ib)
proof -
  let ?head = "[(1024, sb_image m 36029), (4096, gdt_table 64 16384)]"
  let ?bbs = "map (\<lambda>g. (grp_bb_blk g * 4096, block_bitmap create_wi g)) [0..<80]"
  let ?ibs = "map (\<lambda>g. (grp_ib_blk g * 4096, inode_bitmap g)) [0..<80]"
  let ?rest = "[(3107 * 4096, root_dir_block (mk_seed m)),
        (2099232 * 4096, fill_jbd2_sb (replicate 4096 0) (mk_uuid m)),
        (2099233 * 4096, replicate (16383 * 4096) 0),
        (1059 * 4096, inode_table m create_wi)] @ resize_writes @ [(3108 * 4096, buf)]"
  have split: "puts img (main_writes m buf) = puts (puts (puts (puts img ?head) ?bbs) ?ibs) ?rest"
    by (simp only: main_writes_def append_assoc puts_simps(3))
  have blk: "apart (a * 4096) 4096 (b * 4096, d)" if "a \<noteq> b" "length d = 4096" for a b d
    using that by (auto simp: apart_def)
  have bbs: "apart (grp_bb_blk g * 4096) 4096 w" if w: "w \<in> set ?ibs" for w
  proof -
    from w obtain h where "h < 80" "w = (grp_ib_blk h * 4096, inode_bitmap h)" by auto
    with bitmap_blk_inj(3) show ?thesis by (simp add: blk)
  qed
  have "img_get (puts img (main_writes m buf)) (grp_bb_blk g * 4096) 4096
      = img_get (puts (puts (puts img ?head) ?bbs) ?ibs) (grp_bb_blk g * 4096) 4096"
    unfolding split by (rule puts_apart, rule bitmap_apart [OF bitmap_blks(1) [OF assms(1)] assms(2,3)])
  also have "\<dots> = img_get (puts (puts img ?head) ?bbs) (grp_bb_blk g * 4096) 4096"
    using bbs by (rule puts_apart)
  also have "\<dots> = block_bitmap create_wi g"
    using assms(1) marked_block_bitmap bitmap_blk_inj(1)
    by (intro puts_mapped) (auto simp: blk)
  finally show ?bb .
  have "img_get (puts img (main_writes m buf)) (grp_ib_blk g * 4096) 4096
      = img_get (puts (puts (puts img ?head) ?bbs) ?ibs) (grp_ib_blk g * 4096) 4096"
    unfolding split by (rule puts_apart, rule bitmap_apart [OF bitmap_blks(2) [OF assms(1)] assms(2,3)])
  also have "\<dots> = inode_bitmap g"
    using assms(1) bitmap_blk_inj(2) by (intro puts_mapped) (auto simp: blk)
  finally show ?ib .
qed

section \<open>The image after a successful run\<close>

lemma length_csum_table: "length gdt = 8192 \<Longrightarrow> length (csum_table img seed gdt) = 8192"
  using slices_foldl [of 64 "csum_entry img seed" 80 gdt] by (simp add: csum_table_def)

lemma csum_table_entry:
  assumes "length gdt = 8192" and "g < 80"
  shows "get_bytes (csum_table img seed gdt) (g * 64) 64 = csum_entry img seed g (get_bytes gdt (g * 64) 64)"
  using slices_foldl [of 64 "csum_entry img seed" 80 gdt] assms by (simp add: csum_table_def)

lemma backups_high:
  assumes "w \<in> set (backups sb gdt)"
  shows "134217728 \<le> fst w"
  using assms unfolding backups_def filter_super backup_writes_def Let_def by auto

lemma main_tail_high: "w \<in> set (tl (main_writes m buf)) \<Longrightarrow> 4096 \<le> fst w"
  by (auto simp: main_writes_def resize_writes_def bb_blk_eq ib_blk_eq)

lemma main_sb:
  assumes "length (sb_image m 36029) = 1024"
  shows "img_get (puts img (main_writes m buf)) 1024 1024 = sb_image m 36029"
proof -
  have "main_writes m buf = (1024, sb_image m 36029) # tl (main_writes m buf)" by (simp add: main_writes_def)
  then have "puts img (main_writes m buf)
      = puts (img_put img 1024 (sb_image m 36029)) (tl (main_writes m buf))" by (metis puts_simps(2) fst_conv snd_conv)
  moreover have "apart 1024 1024 w" if "w \<in> set (tl (main_writes m buf))" for w
    using main_tail_high [OF that] by (simp add: apart_def)
  ultimately show ?thesis using puts_apart img_get_put [of img 1024 "sb_image m 36029"] assms by simp
qed

definition image_ok :: "mkfs \<Rightarrow> (nat \<Rightarrow> byte) \<Rightarrow> bool" where
  "image_ok m img \<longleftrightarrow>
     img_get img 1024 1024 = sb_image m 36029 \<and>
     (\<forall>g < 80. img_get img (grp_bb_blk g * 4096) 4096 = block_bitmap create_wi g \<and>
               img_get img (grp_ib_blk g * 4096) 4096 = inode_bitmap g \<and>
               img_get img (4096 + g * 64) 64
                 = csum_entry img (mk_seed m) g (gdt_of_group g 64 16384 (replicate 64 0)))"

lemma get_bytes_img_get: "a + k \<le> n \<Longrightarrow> get_bytes (img_get img off n) a k = img_get img (off + a) k"
  by (auto simp: get_bytes_def img_get_def drop_map take_map intro!: nth_equalityI)

lemma late_keeps_bitmaps:
  assumes "bitmap_blk b" and "length gdt = 8192" and "length sb = 1024"
  shows "img_get (puts img (late_writes sb gdt)) (b * 4096) 4096 = img_get img (b * 4096) 4096"
proof (rule puts_apart)
  fix w
  assume w: "w \<in> set (late_writes sb gdt)"
  have "3 \<le> b" using assms(1) by (auto simp: bitmap_blk_def)
  then show "apart (b * 4096) 4096 w"
    using late_apart [OF w assms(3,2), of b 1] bitmap_late [OF assms(1)] by simp
qed

lemma late_keeps_sb: "img_get (puts img (late_writes sb gdt)) 1024 1024 = img_get img 1024 1024" if "length gdt = 8192"
proof (rule puts_apart)
  fix w
  assume "w \<in> set (late_writes sb gdt)"
  then show "apart 1024 1024 w" using backups_high [of w sb gdt] that by (auto simp: late_writes_def apart_def)
qed

lemma late_writes_gdt:
  assumes "length gdt = 8192"
  shows "img_get (puts img (late_writes sb gdt)) 4096 8192 = gdt"
proof -
  have "img_get (puts img (late_writes sb gdt)) 4096 8192 = img_get (img_put img 4096 gdt) 4096 8192"
    unfolding late_writes_def puts_simps(2) fst_conv snd_conv
    by (rule puts_apart) (auto simp: apart_def dest!: backups_high)
  then show ?thesis using img_get_put [of img 4096 gdt] assms by simp
qed

lemma csum_entry_cong:
  assumes "img_get i (grp_bb_blk g * 4096) 4096 = img_get j (grp_bb_blk g * 4096) 4096"
    and "img_get i (grp_ib_blk g * 4096) 4096 = img_get j (grp_ib_blk g * 4096) 4096"
  shows "csum_entry i seed g e = csum_entry j seed g e"
  using assms by (simp add: csum_entry_def bb_csum_def ib_csum_def)

lemma do_create_writes_image:
  assumes "do_create_writes io mem m d = (0, d')"
    and "length (mk_uuid m) = 16" and "length (mk_hash_seed m) = 16"
  shows "image_ok m (dsk_img d')"
proof -
  obtain buf where buf: "length buf = 4096" and fin: "let img = puts (dsk_img d) (main_writes m buf);
         gdt = csum_table img (mk_seed m) (gdt_table 64 16384)
     in dsk_img d' = puts img ((4096, gdt) # backups (img_get (img_put img 4096 gdt) 1024 1024) gdt)"
    using do_create_writes_ok [OF assms(1)] by blast
  define img where "img = puts (dsk_img d) (main_writes m buf)"
  define gdt where "gdt = csum_table img (mk_seed m) (gdt_table 64 16384)"
  define sb where "sb = img_get (img_put img 4096 gdt) 1024 1024"
  have fin': "dsk_img d' = puts img (late_writes sb gdt)"
    using fin by (simp add: img_def gdt_def sb_def late_writes_def Let_def)
  have gl: "length gdt = 8192" "length sb = 1024"
    using gdt_table_entry [of 0 64 16384] by (simp_all add: gdt_def sb_def length_csum_table)
  note bm = late_keeps_bitmaps [OF _ gl, of _ img, folded fin']
  have sb1: "img_get (dsk_img d') 1024 1024 = sb_image m 36029"
    using main_sb [OF length_sb_image [OF assms(2,3)]] by (simp add: fin' late_keeps_sb gl img_def)
  have entry: "img_get (dsk_img d') (4096 + g * 64) 64
      = csum_entry (dsk_img d') (mk_seed m) g (gdt_of_group g 64 16384 (replicate 64 0))" if g: "g < 80" for g
  proof -
    have "img_get (dsk_img d') (4096 + g * 64) 64 = get_bytes gdt (g * 64) 64"
      using g get_bytes_img_get [of "g * 64" 64 8192 "dsk_img d'" 4096] by (simp add: fin' late_writes_gdt gl)
    also have "\<dots> = csum_entry img (mk_seed m) g (gdt_of_group g 64 16384 (replicate 64 0))"
      using gdt_table_entry [OF g, of 64 16384] csum_table_entry [OF _ g] by (simp add: gdt_def)
    also have "\<dots> = csum_entry (dsk_img d') (mk_seed m) g (gdt_of_group g 64 16384 (replicate 64 0))"
      by (rule csum_entry_cong) (simp_all only: bm bitmap_blks [OF g])
    finally show ?thesis .
  qed
  have "img_get (dsk_img d') (grp_bb_blk g * 4096) 4096 = block_bitmap create_wi g"
    "img_get (dsk_img d') (grp_ib_blk g * 4096) 4096 = inode_bitmap g" if g: "g < 80" for g
    using bm [OF bitmap_blks(1) [OF g]] bm [OF bitmap_blks(2) [OF g]] main_bb [OF g buf assms(2)]
    by (simp_all add: img_def)
  then show ?thesis unfolding image_ok_def using sb1 entry by blast
qed

section \<open>Reading the fields of the image\<close>

lemma rd16_put [stores]:
  "off + length d \<le> length p \<Longrightarrow> i + 1 < length p \<Longrightarrow> off + length d \<le> i \<or> i + 2 \<le> off \<Longrightarrow>
   rd16 (put_bytes p off d) i = rd16 p i"
  by (auto simp: rd16_def nth_put_bytes)

lemma rd32_put [stores]:
  "off + length d \<le> length p \<Longrightarrow> i + 3 < length p \<Longrightarrow> off + length d \<le> i \<or> i + 4 \<le> off \<Longrightarrow>
   rd32 (put_bytes p off d) i = rd32 p i"
  by (auto simp: rd32_def nth_put_bytes)

lemma rd_update [stores]:
  "j < i \<or> i + 1 < j \<Longrightarrow> rd16 (p[j := v]) i = rd16 p i"
  "j < i \<or> i + 3 < j \<Longrightarrow> rd32 (p[j := v]) i = rd32 p i"
  by (auto simp: rd16_def rd32_def)

lemma sb_fields:
  assumes "length (mk_uuid m) = 16" and "length (mk_hash_seed m) = 16"
  shows "rd16 (sb_image m u) 0x38 = 0xEF53" "rd32 (sb_image m u) 0x0C = 2621440 - u"
    "rd32 (sb_image m u) 0x3FC = crc32c_e2fs (NOT 0) (take 0x3FC (sb_image m u))" "rd32 (sb_image m u) 0x270 = mk_seed m"
    "rd32 (sb_image m u) 0x18 = 2" "rd16 (sb_image m u) 0x58 = 256"
    "rd32 (sb_image m u) 0x28 = 2048"
proof -
  note defs = sb_image_def Let_def fill_sb_jnl_def sb_set_scalars_def sb_write_u16s_def sb_write_u32s_a_def
    sb_write_u32s_b_def wr32_tbl_def wr16_tbl_def layout fill_jbd2_extent_def
  show "rd16 (sb_image m u) 0x38 = 0xEF53"
    using assms by (simp add: defs stores EXT4_SUPER_MAGIC_def)
  show "rd32 (sb_image m u) 0x0C = 2621440 - u"
    using assms by (simp add: defs stores)
  show "rd32 (sb_image m u) 0x270 = mk_seed m" "rd32 (sb_image m u) 0x18 = 2" "rd16 (sb_image m u) 0x58 = 256"
    "rd32 (sb_image m u) 0x28 = 2048"
    using assms by (simp_all add: defs stores)
  obtain p where p: "sb_image m u = wr32 p 0x3FC (crc32c_e2fs (NOT 0) (take 0x3FC p))" "length p = 1024"
  proof -
    have "\<exists>p. sb_image m u = wr32 p 0x3FC (crc32c_e2fs (NOT 0) (take 0x3FC p))"
      unfolding sb_image_def Let_def by blast
    with that length_sb_image [OF assms, of u] show thesis by (metis length_wr(2))
  qed
  have "take 0x3FC (wr32 p 0x3FC v) = take 0x3FC p" for v by (simp add: wr32_def)
  with p show "rd32 (sb_image m u) 0x3FC = crc32c_e2fs (NOT 0) (take 0x3FC (sb_image m u))"
    by (simp add: rd32_wr32)
qed

section \<open>A device without faults\<close>

definition faultless :: "faults \<Rightarrow> bool" where
  "faultless io \<longleftrightarrow> (\<forall>n. io n = None)"

lemma write_at_fine: "faultless io \<Longrightarrow> fst (write_at io buf off d) = 0"
  by (simp add: faultless_def write_at_def xfer_def Let_def)

lemma read_at_fine: "faultless io \<Longrightarrow> fst (read_at io n off d) \<noteq> None"
  by (simp add: faultless_def read_at_def xfer_def Let_def)

lemma for_each_fine: "(\<And>x s. fst (f x s) = 0) \<Longrightarrow> fst (for_each f xs s) = 0"
  by (induction xs arbitrary: s) (auto split: prod.splits, metis fst_conv)

lemma write_zeroes_fine: "faultless io \<Longrightarrow> fst (write_zeroes io off len d) = 0"
proof (induction io off len d rule: write_zeroes.induct)
  case (1 io off len d)
  define n where "n = (if len < 4096 then len else 4096)"
  obtain e d1 where w: "write_at io (replicate n 0) off d = (e, d1)" by force
  show ?case
  proof (cases "len = 0")
    case True
    then show ?thesis by (simp add: write_zeroes.simps)
  next
    case False
    have "e = 0" using write_at_fine [OF 1(2), of "replicate n 0" off d] w by simp
    then have "write_zeroes io off len d = write_zeroes io (off + n) (len - n) d1"
      using False w by (subst write_zeroes.simps) (simp add: n_def Let_def)
    with "1.IH" [OF False n_def w [symmetric]] \<open>e = 0\<close> 1(2) show ?thesis by simp
  qed
qed

lemma csum_group_at_fine:
  assumes "faultless io"
  shows "fst (csum_group_at io seed g s) = 0"
proof -
  obtain r1 d1 where r1: "read_at io 4096 (grp_bb_blk g * 4096) (snd s) = (r1, d1)" by force
  obtain r2 d2 where r2: "read_at io 4096 (grp_ib_blk g * 4096) d1 = (r2, d2)" by force
  from read_at_fine [OF assms, of 4096 "grp_bb_blk g * 4096" "snd s"] read_at_fine [OF assms, of 4096 "grp_ib_blk g * 4096" d1]
  obtain b1 b2 where "r1 = Some b1" "r2 = Some b2" by (auto simp: r1 r2)
  with r1 r2 show ?thesis
    by (simp add: csum_group_at_def csum_one_group_def csum_bb_one_def csum_ib_one_def layout Let_def)
qed

lemma write_one_backup_fine: "faultless io \<Longrightarrow> fst (write_one_backup io sb gdt g d) = 0"
  using write_at_fine by (auto simp: write_one_backup_def Let_def split: prod.splits) (metis fst_conv)+

lemma write_csum_backups_fine:
  assumes "faultless io"
  shows "fst (write_csum_backups io gdt seed d) = 0"
proof -
  have "fst (write_backups io g d) = 0" for g d
    using read_at_fine [OF assms] write_one_backup_fine [OF assms]
    by (auto simp: write_backups_def split: prod.splits option.splits intro!: for_each_fine)
       (metis fst_conv option.distinct(1))
  then show ?thesis
    using for_each_fine [of "csum_group_at io seed", OF csum_group_at_fine [OF assms]] write_at_fine [OF assms]
    by (auto simp: write_csum_backups_def split: prod.splits) (metis fst_conv)+
qed

lemma write_resize_data_fine:
  assumes "faultless io"
  shows "fst (write_resize_data io dd d) = 0"
proof -
  have "fst (resize_round io r s) = 0" for r s
    using write_at_fine [OF assms]
    by (auto simp: resize_round_def write_one_resize_gdt_def Let_def split: prod.splits) (metis fst_conv)
  then show ?thesis
    using for_each_fine [of "resize_round io"] write_at_fine [OF assms]
    by (auto simp: write_resize_data_def split: prod.splits) (metis fst_conv)+
qed

lemma do_create_writes_fine:
  assumes "faultless io"
  shows "fst (do_create_writes io True m d) = 0"
proof -
  note w = write_at_fine [OF assms]
  have "fst (write_superblock io m u d) = 0" for u d
    using w by (auto simp: write_superblock_def split: prod.splits) (metis fst_conv)
  moreover have "fst (write_gdt io a b d) = 0" for a b d
    using w by (auto simp: write_gdt_def Let_def split: prod.splits) (metis fst_conv)
  moreover have "fst (write_block_bitmaps io wi d) = 0" for wi d
    unfolding write_block_bitmaps_def by (rule for_each_fine) (rule w)
  moreover have "fst (write_inode_bitmaps io d) = 0" for d
    unfolding write_inode_bitmaps_def by (rule for_each_fine) (rule w)
  moreover have "fst (write_root_dir io a b d) = 0" for a b d
    by (simp add: write_root_dir_def w)
  moreover have "fst (write_journal io a b d) = 0" for a b d
    using w write_zeroes_fine [OF assms] by (auto simp: write_journal_def Let_def split: prod.splits) (metis fst_conv)
  moreover have "fst (write_inode_table io True a b d) = 0" for a b d
    by (simp add: write_inode_table_def w)
  ultimately show ?thesis
    using write_csum_backups_fine [OF assms] write_resize_data_fine [OF assms]
    unfolding do_create_writes_def do_writes_def
    by (auto simp: or_eq_0_iff split: prod.splits) (metis fst_conv)+
qed

section \<open>Properties\<close>

definition disk_desc :: "(nat \<Rightarrow> byte) \<Rightarrow> nat \<Rightarrow> byte list" where
  "disk_desc img g = img_get img (4096 + g * 64) 64"

definition sample_mkfs :: mkfs where
  "sample_mkfs = \<lparr>mk_now = 1, mk_seed = 2, mk_uuid = replicate 16 7, mk_hash_seed = replicate 16 9\<rparr>"

definition blank :: disk where
  "blank = \<lparr>dsk_img = (\<lambda>_. 0), dsk_ops = 0\<rparr>"

lemma sample_run: "\<exists>d'. do_create_writes (\<lambda>_. None) True sample_mkfs blank = (0, d')"
  using do_create_writes_fine [of "\<lambda>_. None" sample_mkfs blank] by (metis faultless_def prod.collapse)

lemma desc_fields:
  assumes "image_ok m img" and "g < 80"
  shows "unat (rd32 (disk_desc img g) G_BB_LO) = grp_bb_blk g"
    "unat (rd16 (disk_desc img g) G_FREE_B) = 32768 - used_of g"
proof -
  let ?d = "gdt_of_group g 64 16384 (replicate 64 0)"
  have d: "disk_desc img g = csum_entry img (mk_seed m) g ?d"
    using assms by (simp add: image_ok_def disk_desc_def)
  have l: "length ?d = 64" by (simp add: length_gdt_of_group)
  have "grp_bb_blk g < 4294967296" using bitmap_blks(1) [OF assms(2)] by (auto simp: bitmap_blk_def)
  moreover have "rd32 (disk_desc img g) G_BB_LO = of_nat (grp_bb_blk g)"
    using gdt_entry_fields(1) [of "replicate 64 0" g 64 16384] l
    by (simp add: d csum_entry_def put_csum_def gdt_set_csum_def Let_def layout stores)
  ultimately show "unat (rd32 (disk_desc img g) G_BB_LO) = grp_bb_blk g"
    by (simp add: unat_of_nat take_bit_nat_eq_self)
  have u: "used_of g < 32768" by (rule used_fits [OF assms(2)])
  have "rd16 (disk_desc img g) G_FREE_B = rd16 ?d G_FREE_B"
    using l by (simp add: d csum_entry_def put_csum_def gdt_set_csum_def Let_def layout stores)
  also have "\<dots> = of_nat (32768 - used_of g)"
  proof -
    have "g < 79 \<or> g = 79" using assms(2) by linarith
    then show ?thesis
      using gdt_entry_fields(4) [of "replicate 64 0" g 64 16384] u
      by (elim disjE) (simp_all add: used_of_def Let_def)
  qed
  finally show "unat (rd16 (disk_desc img g) G_FREE_B) = 32768 - used_of g"
    by (simp add: unat_of_nat take_bit_nat_eq_self)
qed

text \<open>
  C7: a finished image counts its free blocks right, on the device itself.  When all the
  writes of \<open>do_create_writes\<close> succeeded, the free-block count in every group descriptor is the
  number of clear bits in the block bitmap that descriptor points to, and the free-block count
  of the superblock is the sum of those counts: no write lands on an earlier one it should
  leave alone.
\<close>

theorem image_free_counts_agree:
  assumes "do_create_writes io mem m d = (0, d')"
    and "length (mk_uuid m) = 16" and "length (mk_hash_seed m) = 16"
  shows "(\<forall>g < 80. unat (rd16 (disk_desc (dsk_img d') g) G_FREE_B)
            = card ({0..<32768} - marked (img_get (dsk_img d')
                 (unat (rd32 (disk_desc (dsk_img d') g) G_BB_LO) * 4096) 4096))) \<and>
         unat (rd32 (img_get (dsk_img d') 1024 1024) 0x0C)
           = sum_list (map (\<lambda>g. unat (rd16 (disk_desc (dsk_img d') g) G_FREE_B)) [0..<80])"
proof -
  have ok: "image_ok m (dsk_img d')" by (rule do_create_writes_image [OF assms])
  have "unat (rd16 (disk_desc (dsk_img d') g) G_FREE_B) = card ({0..<32768} - marked (img_get (dsk_img d')
      (unat (rd32 (disk_desc (dsk_img d') g) G_BB_LO) * 4096) 4096))" if "g < 80" for g
  proof -
    have "img_get (dsk_img d') (grp_bb_blk g * 4096) 4096 = block_bitmap create_wi g"
      using ok that by (simp add: image_ok_def)
    moreover have "{0..<32768} - {0..<used_of g} = {used_of g..<32768}" by auto
    ultimately show ?thesis using desc_fields [OF ok that] marked_block_bitmap [OF that] by simp
  qed
  moreover have "unat (rd32 (img_get (dsk_img d') 1024 1024) 0x0C) = 2621440 - 36029"
    using ok sb_fields(2) [OF assms(2,3), of 36029] by (simp add: image_ok_def)
  moreover have "sum_list (map (\<lambda>g. 32768 - used_of g) [0..<80]) = 2621440 - 36029"
    by (simp add: upt_80 used_of_eq super_groups_def)
  moreover have "map (\<lambda>g. unat (rd16 (disk_desc (dsk_img d') g) G_FREE_B)) [0..<80] = map (\<lambda>g. 32768 - used_of g) [0..<80]"
    using desc_fields(2) [OF ok] by simp
  ultimately show ?thesis by presburger
qed

lemma image_free_counts_agree_witness:
  "\<exists>d'. do_create_writes (\<lambda>_. None) True sample_mkfs blank = (0, d') \<and>
     unat (rd32 (img_get (dsk_img d') 1024 1024) 0x0C)
           = sum_list (map (\<lambda>g. unat (rd16 (disk_desc (dsk_img d') g) G_FREE_B)) [0..<80])"
  using sample_run image_free_counts_agree [of "\<lambda>_. None" True sample_mkfs blank]
  by (fastforce simp: sample_mkfs_def)

text \<open>
  A reader's check of the checksums, from the bytes of the image alone: the register of CRC-32C bit by
  bit, the seed and the places of the bitmaps as the image gives them.
\<close>

definition castagnoli :: "u32 \<Rightarrow> byte list \<Rightarrow> u32" where
  "castagnoli c data = foldl (crc_serial_byte 0x82F63B78) c data"

definition halves :: "byte list \<Rightarrow> nat \<Rightarrow> nat \<Rightarrow> u32 \<Rightarrow> bool" where
  "halves p lo hi c \<longleftrightarrow> rd16 p lo = ucast c \<and> rd16 p hi = ucast (drop_bit 16 c)"

definition desc_valid :: "(nat \<Rightarrow> byte) \<Rightarrow> u32 \<Rightarrow> nat \<Rightarrow> bool" where
  "desc_valid img seed g \<longleftrightarrow>
     (let p = disk_desc img g in
      halves p 0x18 0x38 (castagnoli seed (img_get img (unat (rd32 p 0x00) * 4096) 4096)) \<and>
      halves p 0x1A 0x3A (castagnoli seed (img_get img (unat (rd32 p 0x04) * 4096) 256)) \<and>
      rd16 p 0x1E = ucast (castagnoli seed ([of_nat g, 0, 0, 0] @ take 0x1E p @ [0, 0] @ drop 0x20 p)))"

lemma e2fs_castagnoli: "crc32c_e2fs c data = castagnoli c data"
  by (simp add: crc32c_e2fs_def ext4_crc32c_def crc_loop_serial crc_serial_def castagnoli_def CRC32C_POLY_def)

lemma castagnoli_append: "castagnoli (castagnoli c a) b = castagnoli c (a @ b)"
  by (simp add: castagnoli_def)

lemma low_half: "(ucast (c AND 0xFFFF) :: u16) = ucast (c :: u32)"
proof -
  have m: "(0xFFFF :: u32) = mask 16" by (simp add: mask_eq_exp_minus_1)
  show ?thesis unfolding m by (rule bit_word_eqI) (auto simp: bit_simps)
qed

lemma le32_small: "g < 256 \<Longrightarrow> wr32 (replicate 4 0) 0 (of_nat g) = [of_nat g, 0, 0, 0]"
proof -
  assume g: "g < 256"
  have z: "drop_bit n (of_nat g :: u32) = 0" if "8 \<le> n" for n
  proof -
    have "(2 :: nat) ^ 8 \<le> 2 ^ n" using that by (intro power_increasing) simp_all
    then have "g div 2 ^ n = 0" using g by simp
    moreover have "unat (of_nat g :: u32) = g" using g by (simp add: unat_of_nat take_bit_nat_eq_self)
    ultimately have "unat (drop_bit n (of_nat g :: u32)) = 0"
      unfolding unat_drop_bit_eq by (simp only: drop_bit_eq_div)
    then show ?thesis by (simp only: word_unat_eq_iff unsigned_0)
  qed
  have "(ucast (of_nat g :: u32) :: byte) = of_nat g"
    using g by (simp add: unsigned_of_nat take_bit_nat_eq_self)
  then show ?thesis by (simp add: wr32_def numeral_eq_Suc z [simplified numeral_eq_Suc])
qed

lemma around_check:
  assumes "length p = 64"
  shows "take 0x1E (wr16 (wr16 p 0x1E 0) 0x1E v) @ [0, 0] @ drop 0x20 (wr16 (wr16 p 0x1E 0) 0x1E v) = wr16 p 0x1E 0"
proof (rule nth_equalityI)
  fix i
  assume "i < length (take 0x1E (wr16 (wr16 p 0x1E 0) 0x1E v) @ [0, 0] @ drop 0x20 (wr16 (wr16 p 0x1E 0) 0x1E v))"
  then have "i < 64" using assms by simp
  then show "(take 0x1E (wr16 (wr16 p 0x1E 0) 0x1E v) @ [0, 0] @ drop 0x20 (wr16 (wr16 p 0x1E 0) 0x1E v)) ! i = wr16 p 0x1E 0 ! i"
    using assms by (cases "i = 0x1E \<or> i = 0x1F") (auto simp: wr16_def nth_append nth_list_update)
qed (use assms in simp)

lemma own_checksum:
  assumes "length q = 64" "p = gdt_set_csum q g seed" "g < 256"
  shows "rd16 p 0x1E = ucast (castagnoli seed ([of_nat g, 0, 0, 0] @ take 0x1E p @ [0, 0] @ drop 0x20 p))"
proof -
  let ?z = "wr16 q 0x1E 0" and ?c = "crc32c_e2fs (crc32c_e2fs seed (wr32 (replicate 4 0) 0 (of_nat g))) (wr16 q 0x1E 0)"
  have p: "p = wr16 ?z 0x1E (ucast (?c AND 0xFFFF))" using assms(2) by (simp add: gdt_set_csum_def Let_def layout)
  have "?c = castagnoli seed ([of_nat g, 0, 0, 0] @ ?z)"
    by (simp only: e2fs_castagnoli castagnoli_append le32_small [OF assms(3)])
  moreover have "take 0x1E p @ [0, 0] @ drop 0x20 p = ?z" unfolding p by (rule around_check [OF assms(1)])
  moreover have "rd16 p 0x1E = ucast ?c" unfolding p by (subst rd16_wr16) (simp_all add: assms(1) low_half)
  ultimately show ?thesis by (simp only:)
qed

lemma take_img_get: "k \<le> n \<Longrightarrow> take k (img_get img off n) = img_get img off k"
  by (simp add: img_get_def take_map)

lemma image_desc_valid:
  assumes "image_ok m img" and "g < 80"
  shows "desc_valid img (mk_seed m) g"
proof -
  let ?d = "gdt_of_group g 64 16384 (replicate 64 0)" and ?s = "mk_seed m"
  let ?q = "put_csum G_IB_C_L G_IB_C_H (ib_csum img ?s g) (put_csum G_BB_C_L G_BB_C_H (bb_csum img ?s g) ?d)"
  let ?p = "disk_desc img g"
  have p: "?p = gdt_set_csum ?q g ?s" using assms by (simp add: image_ok_def disk_desc_def csum_entry_def)
  have l: "length ?d = 64" "length ?q = 64" by (simp_all add: length_gdt_of_group put_csum_def)
  have "rd32 ?p 0x00 = rd32 ?d G_BB_LO" "rd32 ?p 0x04 = rd32 ?d G_IB_LO"
    using l by (simp_all add: p put_csum_def gdt_set_csum_def Let_def layout stores)
  moreover have "grp_bb_blk g < 4294967296" "grp_ib_blk g < 4294967296"
    using bitmap_blks [OF assms(2)] by (auto simp: bitmap_blk_def)
  ultimately have at: "unat (rd32 ?p 0x00) = grp_bb_blk g" "unat (rd32 ?p 0x04) = grp_ib_blk g"
    using gdt_entry_fields(1,2) [of "replicate 64 0" g 64 16384] by (simp_all add: unat_of_nat take_bit_nat_eq_self)
  have "halves ?p 0x18 0x38 (bb_csum img ?s g)" "halves ?p 0x1A 0x3A (ib_csum img ?s g)"
    using l by (simp_all add: halves_def p put_csum_def gdt_set_csum_def Let_def layout stores low_half)
  moreover have "bb_csum img ?s g = castagnoli ?s (img_get img (unat (rd32 ?p 0x00) * 4096) 4096)"
    "ib_csum img ?s g = castagnoli ?s (img_get img (unat (rd32 ?p 0x04) * 4096) 256)"
    unfolding at by (simp_all add: bb_csum_def ib_csum_def e2fs_castagnoli take_img_get)
  moreover have "g < 256" using assms(2) by simp
  ultimately show ?thesis unfolding desc_valid_def Let_def using own_checksum [OF l(2) p] by simp
qed

text \<open>
  C6: a finished image carries valid checksums, and a reader finds that out from the image alone.  With the
  seed that the superblock records, in every descriptor both halves of the block bitmap's checksum are the
  CRC-32C of the block the descriptor points to, both halves of the inode bitmap's are that of the
  first 256 bytes of its block, and the descriptor's own checksum is the CRC-32C of the
  group number and the descriptor with the two bytes of that field as zero; the superblock's checksum is
  the CRC-32C of the 1020 bytes before it.  CRC-32C is here the bit-serial register.
\<close>

theorem image_checksums_valid:
  assumes "do_create_writes io mem m d = (0, d')"
    and "length (mk_uuid m) = 16" and "length (mk_hash_seed m) = 16"
  shows "let sb = img_get (dsk_img d') 1024 1024 in
    rd32 sb 0x270 = mk_seed m \<and> rd32 sb 0x3FC = castagnoli 0xFFFFFFFF (take 0x3FC sb) \<and>
    (\<forall>g < 80. desc_valid (dsk_img d') (rd32 sb 0x270) g)"
proof -
  have ok: "image_ok m (dsk_img d')" by (rule do_create_writes_image [OF assms])
  then have "img_get (dsk_img d') 1024 1024 = sb_image m 36029" by (simp add: image_ok_def)
  moreover have "(0xFFFFFFFF :: u32) = NOT 0" by simp
  ultimately show ?thesis using sb_fields(3,4) [OF assms(2,3), of 36029] image_desc_valid [OF ok]
    by (simp only: Let_def e2fs_castagnoli) simp
qed

lemma image_checksums_valid_witness:
  "\<exists>d'. do_create_writes (\<lambda>_. None) True sample_mkfs blank = (0, d') \<and>
     (let p = disk_desc (dsk_img d') 79 in
      rd16 p 0x1E = ucast (castagnoli 2 ([79, 0, 0, 0] @ take 0x1E p @ [0, 0] @ drop 0x20 p)))"
proof -
  obtain d' where d: "do_create_writes (\<lambda>_. None) True sample_mkfs blank = (0, d')" using sample_run by blast
  have l: "length (mk_uuid sample_mkfs) = 16" "length (mk_hash_seed sample_mkfs) = 16" "mk_seed sample_mkfs = 2"
    by (simp_all add: sample_mkfs_def)
  have "desc_valid (dsk_img d') 2 79"
    using image_checksums_valid [OF d l(1,2)] by (auto simp: l(3) Let_def)
  then have "rd16 (disk_desc (dsk_img d') 79) 0x1E =
      ucast (castagnoli 2 ([of_nat 79, 0, 0, 0] @ take 0x1E (disk_desc (dsk_img d') 79) @ [0, 0] @ drop 0x20 (disk_desc (dsk_img d') 79)))"
    unfolding desc_valid_def Let_def by blast
  then show ?thesis using d by (simp add: Let_def)
qed

lemma gen_uuid_length: "gen_uuid r = Some u \<Longrightarrow> length u = 16"
  by (auto simp: gen_uuid_def split: option.splits if_splits)

lemma create_img_valid:
  assumes "ext4_create_img ev f = (0, f')" and o: "ev_open ev'" "ev_io ev' 0 = None"
  shows "ext4_image_valid ev' f'"
proof -
  from assms(1) obtain uuid hash d where
    u: "gen_uuid (ev_uuid ev) = Some uuid" "gen_uuid (ev_hash ev) = Some hash" and
    r: "do_create_writes (ev_io ev) (ev_mem ev) \<lparr>mk_now = ev_now ev, mk_seed = crc32c_e2fs (NOT 0) uuid,
                          mk_uuid = uuid, mk_hash_seed = hash\<rparr> \<lparr>dsk_img = (\<lambda>_. 0), dsk_ops = 0\<rparr> = (0, d)" and
    f': "f' = Some (BLOCKS * BLK_SIZE, dsk_img d)"
    by (auto simp: ext4_create_img_def create_fail_def Let_def split: if_splits option.splits prod.splits)
  let ?m = "\<lparr>mk_now = ev_now ev, mk_seed = crc32c_e2fs (NOT 0) uuid, mk_uuid = uuid, mk_hash_seed = hash\<rparr>"
  have l: "length (mk_uuid ?m) = 16" "length (mk_hash_seed ?m) = 16" using u gen_uuid_length by simp_all
  have sb: "img_get (dsk_img d) 1024 1024 = sb_image ?m 36029"
    using do_create_writes_image [OF r l] by (simp add: image_ok_def)
  have "img_get (dsk_img d) 1080 2 = get_bytes (sb_image ?m 36029) 0x38 2"
    using get_bytes_img_get [of 56 2 1024 "dsk_img d" 1024] by (simp add: sb)
  moreover have "rd16 (get_bytes (sb_image ?m 36029) 0x38 2) 0 = rd16 (sb_image ?m 36029) 0x38"
    using length_sb_image [OF l] by (simp add: rd16_def nth_get_bytes)
  ultimately have "rd16 (img_get (dsk_img d) 1080 2) 0 = 0xEF53" using sb_fields(1) [OF l] by simp
  with o show ?thesis
    by (simp add: ext4_image_valid_def f' read_at_def xfer_def Let_def SB_OFF_def)
qed

lemma create_img_clean:
  assumes "ev_unlink ev" and "ext4_create_img ev f = (e, f')"
  shows "(f \<noteq> None \<longrightarrow> e = -1 \<and> f' = f) \<and> (f = None \<and> e \<noteq> 0 \<longrightarrow> f' = None)"
  using assms by (auto simp: ext4_create_img_def create_fail_def Let_def split: if_splits option.splits prod.splits)

text \<open>
  creating an image either succeeds or leaves nothing behind.  An existing file is never
  touched; if creation fails after the file was made, the file is removed; and if it succeeds,
  the file has the full size and \<open>ext4_image_valid\<close> accepts it whenever it can be opened and
  read.
\<close>

theorem create_img_all_or_nothing:
  assumes "ev_unlink ev" and "ext4_create_img ev f = (e, f')"
  shows "(f \<noteq> None \<longrightarrow> e = -1 \<and> f' = f) \<and> (f = None \<and> e \<noteq> 0 \<longrightarrow> f' = None) \<and>
         (e = 0 \<longrightarrow> (\<forall>ev'. ev_open ev' \<and> ev_io ev' 0 = None \<longrightarrow> ext4_image_valid ev' f'))"
  using create_img_clean [OF assms] create_img_valid assms(2) by blast

lemma create_img_all_or_nothing_witness:
  "ext4_create_img \<lparr>ev_open = True, ev_trunc = True, ev_uuid = Some (replicate 16 1), ev_hash = None, ev_now = 5,
     ev_mem = True, ev_io = (\<lambda>_. None), ev_unlink = True\<rparr> None = (-1, None)"
proof -
  let ?ev = "\<lparr>ev_open = True, ev_trunc = True, ev_uuid = Some (replicate 16 1), ev_hash = None, ev_now = 5,
     ev_mem = True, ev_io = (\<lambda>_. None), ev_unlink = True\<rparr>"
  obtain e f' where r: "ext4_create_img ?ev None = (e, f')" by force
  then have "e = -1" by (auto simp: ext4_create_img_def gen_uuid_def create_fail_def)
  with create_img_all_or_nothing [OF _ r] r show ?thesis by simp
qed

text \<open>
  \<open>has_super\<close> picks group 0 and the powers of 3, 5 and 7 (1 among them): the sparse
  superblock placement of ext4.
\<close>

theorem has_super_is_sparse_super: "has_super g \<longleftrightarrow> g = 0 \<or> (\<exists>k. g = 3 ^ k \<or> g = 5 ^ k \<or> g = 7 ^ k)"
  by (rule has_super_iff)

end
