(* ===== verification/Ext4Read.thy ===== *)
theory Ext4Read
  imports Ext4Image
begin

text \<open>
  The image read back: a reader of ext4 that shares nothing with the writer, as far as the root
  directory's names, and the proof that it reads what \<^verbatim>\<open>src/ext4/ext4.c\<close> wrote.
\<close>

section \<open>The reader\<close>

text \<open>
  Where things are is taken from the image: the block size and the size and number of inodes from the superblock,
  the inode table from the group's descriptor, which stands in the block after the superblock's.
\<close>

definition inode_on :: "(nat \<Rightarrow> byte) \<Rightarrow> nat \<Rightarrow> byte list" where
  "inode_on img n =
     (let sb = img_get img 1024 1024; size = 1024 * 2 ^ unat (rd32 sb 0x18);
          per = unat (rd32 sb 0x28); len = unat (rd16 sb 0x58);
          desc = img_get img (size + (n - 1) div per * 64) 64
      in img_get img (unat (rd32 desc 0x08) * size + (n - 1) mod per * len) len)"

definition inode_valid :: "u32 \<Rightarrow> byte \<Rightarrow> byte list \<Rightarrow> bool" where
  "inode_valid seed n p \<longleftrightarrow>
     halves p 0x7C 0x82 (castagnoli seed ([n, 0, 0, 0] @ take 4 (drop 0x64 p) @ p[0x7C := 0, 0x7D := 0, 0x82 := 0, 0x83 := 0]))"

text \<open>The one extent of an inode that has no tree and starts at its first block.\<close>

definition first_extent :: "byte list \<Rightarrow> nat option" where
  "first_extent p =
     (if rd32 p 0x20 AND 0x80000 \<noteq> 0 \<and> rd16 p 0x28 = 0xF30A \<and> rd16 p 0x2A = 1 \<and> rd16 p 0x2E = 0 \<and> rd32 p 0x34 = 0 \<and> rd16 p 0x38 = 1
      then Some (unat (rd16 p 0x3A) * 4294967296 + unat (rd32 p 0x3C)) else None)"

text \<open>The entries of a directory block up to \<open>stop\<close>: inode and name; \<open>None\<close> for a corrupt chain.\<close>

function dir_list :: "byte list \<Rightarrow> nat \<Rightarrow> nat \<Rightarrow> (nat \<times> byte list) list option" where
  "dir_list blk off stop =
     (if off = stop then Some []
      else
        let len = unat (rd16 blk (off + 4)); n = unat (blk ! (off + 6)) in
        if len < 8 + n \<or> stop < off + len then None
        else
          map_option ((@) (if rd32 blk off = 0 then [] else [(unat (rd32 blk off), take n (drop (off + 8) blk))]))
            (dir_list blk (off + len) stop))"
  by pat_completeness auto
termination by (relation "measure (\<lambda>(_, off, stop). stop - off)") auto

declare dir_list.simps [simp del]

text \<open>The root directory is inode 2; its one block ends in twelve bytes that hold its checksum.\<close>

definition root_listing :: "(nat \<Rightarrow> byte) \<Rightarrow> (nat \<times> byte list) list option" where
  "root_listing img =
     (let sb = img_get img 1024 1024; seed = rd32 sb 0x270; p = inode_on img 2 in
      if rd16 sb 0x38 \<noteq> 0xEF53 \<or> \<not> inode_valid seed 2 p \<or> rd16 p 0x00 AND 0xF000 \<noteq> 0x4000 then None
      else
        (case first_extent p of
           None \<Rightarrow> None
         | Some b \<Rightarrow>
             let blk = img_get img (b * (1024 * 2 ^ unat (rd32 sb 0x18))) (unat (rd32 p 0x04)) in
             if rd32 blk 4092 \<noteq> castagnoli seed ([2, 0, 0, 0] @ take 4 (drop 0x64 p) @ take 4084 blk) then None
             else dir_list blk 0 4084))"

section \<open>What stays on the device\<close>

lemma puts_last:
  assumes "\<And>w. w \<in> set ws \<Longrightarrow> apart off (length d) w"
  shows "img_get (puts img (as @ (off, d) # ws)) off (length d) = d"
  using puts_apart [OF assms, of ws "img_put (puts img as) off d"] img_get_put [of _ off d] by simp

abbreviation bitmap_writes :: "mkfs \<Rightarrow> (nat \<times> byte list) list" where
  "bitmap_writes m \<equiv> [(1024, sb_image m 36029), (4096, gdt_table 64 16384)]
     @ map (\<lambda>g. (grp_bb_blk g * 4096, block_bitmap create_wi g)) [0..<80]
     @ map (\<lambda>g. (grp_ib_blk g * 4096, inode_bitmap g)) [0..<80]"

abbreviation journal_writes :: "mkfs \<Rightarrow> (nat \<times> byte list) list" where
  "journal_writes m \<equiv> [(2099232 * 4096, fill_jbd2_sb (replicate 4096 0) (mk_uuid m)),
     (2099233 * 4096, replicate (16383 * 4096) 0)]"

lemma main_writes_at:
  "main_writes m buf = bitmap_writes m @ (3107 * 4096, root_dir_block (mk_seed m)) #
     (journal_writes m @ (1059 * 4096, inode_table m create_wi) # (resize_writes @ [(3108 * 4096, buf)]))"
  "main_writes m buf = (bitmap_writes m @ (3107 * 4096, root_dir_block (mk_seed m)) # journal_writes m) @
     (1059 * 4096, inode_table m create_wi) # (resize_writes @ [(3108 * 4096, buf)])"
  by (simp_all only: main_writes_def append_assoc append_Cons append_Nil)

lemma main_inodes:
  assumes "length buf = 4096"
  shows "img_get (puts img (main_writes m buf)) (1059 * 4096) 524288 = inode_table m create_wi"
proof -
  have "apart (1059 * 4096) (length (inode_table m create_wi)) w" if "w \<in> set (resize_writes @ [(3108 * 4096, buf)])" for w
  proof -
    from that consider "w \<in> set resize_writes" | "w = (3108 * 4096, buf)" by auto
    then show ?thesis
    proof cases
      case 1
      then show ?thesis using resize_apart [of w 1059 128] by (simp add: length_inode_table)
    qed (use assms in \<open>simp add: apart_def length_inode_table\<close>)
  qed
  from puts_last [OF this] show ?thesis unfolding main_writes_at(2) by (simp only: length_inode_table)
qed

lemma main_root:
  assumes "length buf = 4096" "length (mk_uuid m) = 16"
  shows "img_get (puts img (main_writes m buf)) (3107 * 4096) 4096 = root_dir_block (mk_seed m)"
proof -
  let ?ws = "journal_writes m @ (1059 * 4096, inode_table m create_wi) # (resize_writes @ [(3108 * 4096, buf)])"
  have "apart (3107 * 4096) (length (root_dir_block (mk_seed m))) w" if "w \<in> set ?ws" for w
  proof -
    from that consider "w \<in> set resize_writes" | "w = (3108 * 4096, buf)" | "w = (1059 * 4096, inode_table m create_wi)"
      | "w = (2099232 * 4096, fill_jbd2_sb (replicate 4096 0) (mk_uuid m))" | "w = (2099233 * 4096, replicate (16383 * 4096) 0)"
      by auto
    then show ?thesis
    proof cases
      case 1
      then show ?thesis using resize_apart [of w 3107 1] by simp
    qed (use assms in \<open>simp_all add: apart_def length_inode_table\<close>)
  qed
  from puts_last [OF this] show ?thesis unfolding main_writes_at(1) by (simp only: length_root_dir)
qed

text \<open>The image with the inode table and the root directory's block.\<close>

lemma finished_image:
  assumes "do_create_writes io mem m d = (0, d')"
    and l: "length (mk_uuid m) = 16" "length (mk_hash_seed m) = 16"
  shows "image_ok m (dsk_img d') \<and> img_get (dsk_img d') (1059 * 4096) 524288 = inode_table m create_wi \<and>
    img_get (dsk_img d') (3107 * 4096) 4096 = root_dir_block (mk_seed m)"
proof -
  obtain buf where buf: "length buf = 4096" and fin: "let img = puts (dsk_img d) (main_writes m buf);
         gdt = csum_table img (mk_seed m) (gdt_table 64 16384)
     in dsk_img d' = puts img ((4096, gdt) # backups (img_get (img_put img 4096 gdt) 1024 1024) gdt)"
    using do_create_writes_ok [OF assms(1)] by blast
  define img where "img = puts (dsk_img d) (main_writes m buf)"
  define gdt where "gdt = csum_table img (mk_seed m) (gdt_table 64 16384)"
  define sb where "sb = img_get (img_put img 4096 gdt) 1024 1024"
  have fin': "dsk_img d' = puts img (late_writes sb gdt)"
    using fin by (simp add: img_def gdt_def sb_def late_writes_def Let_def)
  have gl: "length sb = 1024" "length gdt = 8192"
    using gdt_table_entry [of 0 64 16384] by (simp_all add: gdt_def sb_def length_csum_table)
  have "apart (1059 * 4096) 524288 w" if "w \<in> set (late_writes sb gdt)" for w
  proof -
    have "apart (1059 * 4096) (128 * 4096) w" by (rule late_apart [OF that gl]) auto
    then show ?thesis by simp
  qed
  moreover have "apart (3107 * 4096) 4096 w" if "w \<in> set (late_writes sb gdt)" for w
  proof -
    have "apart (3107 * 4096) (1 * 4096) w" by (rule late_apart [OF that gl]) auto
    then show ?thesis by simp
  qed
  ultimately have "img_get (dsk_img d') (1059 * 4096) 524288 = img_get img (1059 * 4096) 524288"
    "img_get (dsk_img d') (3107 * 4096) 4096 = img_get img (3107 * 4096) 4096"
    unfolding fin' by (blast intro: puts_apart)+
  then show ?thesis
    using main_inodes [OF buf] main_root [OF buf l(1)] do_create_writes_image [OF assms] by (simp only: img_def)
qed

section \<open>The root directory's inode\<close>

lemma get_slice:
  assumes "off + n \<le> length p" and "\<And>q. length q = n \<Longrightarrow> length (f q) = n"
  shows "get_bytes (on_slice off n f p) off n = f (get_bytes p off n)"
    and "i + k \<le> length p \<Longrightarrow> i + k \<le> off \<or> off + n \<le> i \<Longrightarrow> get_bytes (on_slice off n f p) i k = get_bytes p i k"
    and "length (on_slice off n f p) = length p"
proof -
  have l: "length (f (get_bytes p off n)) = n" using assms by simp
  then show "get_bytes (on_slice off n f p) off n = f (get_bytes p off n)"
    using get_put_same [of off "f (get_bytes p off n)" p] assms(1) by (simp add: on_slice_def)
  show "length (on_slice off n f p) = length p" using l assms(1) by (simp add: on_slice_def)
  show "i + k \<le> length p \<Longrightarrow> i + k \<le> off \<or> off + n \<le> i \<Longrightarrow> get_bytes (on_slice off n f p) i k = get_bytes p i k"
    using get_put_other [of off "f (get_bytes p off n)" p i k] l assms(1) by (auto simp: on_slice_def)
qed

lemma length_fill_root [simp]: "length (fill_root_inode now b p) = length p"
  by (simp add: fill_root_inode_def Let_def)

lemma root_inode_fields:
  assumes "length p = 256"
  shows "rd16 (fill_root_inode now 3107 p) 0x00 = 0x41ED" "rd32 (fill_root_inode now 3107 p) 0x04 = 4096"
    "rd16 (fill_root_inode now 3107 p) 0x1A = 2" "rd32 (fill_root_inode now 3107 p) 0x20 = 0x80000"
    "rd16 (fill_root_inode now 3107 p) 0x28 = 0xF30A" "rd16 (fill_root_inode now 3107 p) 0x2A = 1"
    "rd16 (fill_root_inode now 3107 p) 0x2E = 0" "rd32 (fill_root_inode now 3107 p) 0x34 = 0"
    "rd16 (fill_root_inode now 3107 p) 0x38 = 1" "rd16 (fill_root_inode now 3107 p) 0x3A = 0"
    "rd32 (fill_root_inode now 3107 p) 0x3C = 3107" "rd32 (fill_root_inode now 3107 p) 0x64 = 0"
  using assms
  by (simp_all add: fill_root_inode_def extent_set_def Let_def layout stores EXT4_EXTENTS_FL_def EXT4_EXTENT_MAGIC_def)

lemma csums_slice:
  assumes "length d = 524288"
  shows "get_bytes (set_inode_csums seed d) 256 256 =
    (let p = get_bytes d 256 256 in if rd16 p 0x1A \<noteq> 0 then inode_set_csum p 2 seed else p)"
proof -
  let ?f = "\<lambda>i p. if rd16 p 0x1A \<noteq> 0 then inode_set_csum p (of_nat (i + 1)) seed else p"
  have "(1 + 1) * 256 \<le> length d" using assms by simp
  then have "get_bytes (foldl (\<lambda>p i. on_slice (i * 256) 256 (?f i) p) d [0..<2048]) (1 * 256) 256 = ?f 1 (get_bytes d (1 * 256) 256)"
    using slices_foldl [THEN conjunct2, THEN spec, THEN mp, of 256 ?f 2048 d 1] assms by (simp del: upt_rec_numeral)
  then show ?thesis by (simp only: set_inode_csums_def layout) (simp add: Let_def)
qed

lemma root_inode_slice:
  "get_bytes (inode_table m create_wi) 256 256 =
     inode_set_csum (fill_root_inode (mk_now m) 3107 (replicate 256 0)) 2 (mk_seed m)"
proof -
  define z :: "byte list" where "z = replicate (2048 * 256) 0"
  let ?a = "on_slice 256 256 (fill_root_inode (mk_now m) 3107) z"
  let ?b = "on_slice 1536 256 (fill_resize_inode (mk_now m) 3108) ?a"
  let ?c = "on_slice 1792 256 (fill_journal_inode (mk_now m) 2099232) ?b"
  let ?d = "on_slice 2816 256 (fill_orphan_inode (mk_now m)) ?c"
  have z: "length z = 524288" "get_bytes z 256 256 = replicate 256 0"
    by (simp_all add: z_def get_bytes_def)
  have f: "length (fill_resize_inode n b q) = length q" "length (fill_journal_inode n b q) = length q"
    "length (fill_orphan_inode n q) = length q" for n b q
    by (simp_all add: fill_resize_inode_def fill_journal_inode_def fill_orphan_inode_def set_resize_isize_def Let_def)
  have la: "length ?a = 524288" using get_slice(3) [of 256 256 z] z by simp
  have lb: "length ?b = 524288" using get_slice(3) [of 1536 256 ?a] la f by simp
  have lc: "length ?c = 524288" using get_slice(3) [of 1792 256 ?b] lb f by simp
  have ld: "length ?d = 524288" using get_slice(3) [of 2816 256 ?c] lc f by simp
  have "get_bytes ?d 256 256 = get_bytes ?c 256 256" using get_slice(2) [of 2816 256 ?c] lc f by simp
  also have "\<dots> = get_bytes ?b 256 256" using get_slice(2) [of 1792 256 ?b] lb f by simp
  also have "\<dots> = get_bytes ?a 256 256" using get_slice(2) [of 1536 256 ?a] la f by simp
  also have "\<dots> = fill_root_inode (mk_now m) 3107 (replicate 256 0)" using get_slice(1) [of 256 256 z] z by simp
  finally have d: "get_bytes ?d 256 256 = fill_root_inode (mk_now m) 3107 (replicate 256 0)" .
  have "inode_table m create_wi = set_inode_csums (mk_seed m) ?d"
    by (simp add: inode_table_def Let_def layout z_def)
  then show ?thesis using csums_slice [OF ld] d root_inode_fields(3) [of "replicate 256 0"] by simp
qed

text \<open>The checksum of an inode leaves its other fields alone, and covers them.\<close>

lemma take_four: "i + 4 \<le> length p \<Longrightarrow> take 4 (drop i p) = [p ! i, p ! (i + 1), p ! (i + 2), p ! (i + 3)]"
  by (rule nth_equalityI) (auto simp: less_Suc_eq numeral_eq_Suc nth_Cons')

lemma inode_set_csum_valid:
  assumes l: "length q = 256" and g: "rd32 q 0x64 = 0" "take 4 (drop 0x64 q) = [0, 0, 0, 0]" and p: "p = inode_set_csum q 2 seed"
  shows "inode_valid seed 2 p" and "take 4 (drop 0x64 p) = [0, 0, 0, 0]"
    and "\<And>i. i \<le> 0x78 \<Longrightarrow> rd16 p i = rd16 q i" "\<And>i. i \<le> 0x78 \<Longrightarrow> rd32 p i = rd32 q i"
proof -
  let ?z = "wr16 (wr16 q 0x7C 0) 0x82 0"
  let ?c = "crc32c_e2fs (crc32c_e2fs (crc32c_e2fs seed (wr32 (replicate 4 0) 0 2)) (wr32 (replicate 4 0) 0 0)) ?z"
  have p': "p = wr16 (wr16 ?z 0x7C (ucast (?c AND 0xFFFF))) 0x82 (ucast (drop_bit 16 ?c))"
    using p g(1) by (simp add: inode_set_csum_def Let_def)
  have lp: "length p = 256" using l p by simp
  have "p ! i = q ! i" if "i < 0x7C" for i
    unfolding p' wr16_def using that by (simp add: nth_list_update)
  then show t: "take 4 (drop 0x64 p) = [0, 0, 0, 0]" using g(2) take_four [of "0x64" p] take_four [of "0x64" q] lp l by simp
  show "i \<le> 0x78 \<Longrightarrow> rd16 p i = rd16 q i" "i \<le> 0x78 \<Longrightarrow> rd32 p i = rd32 q i" for i
    unfolding p' by (simp_all add: stores)
  have z: "p[0x7C := 0, 0x7D := 0, 0x82 := 0, 0x83 := 0] = ?z"
  proof (rule nth_equalityI)
    fix i
    assume "i < length (p[0x7C := 0, 0x7D := 0, 0x82 := 0, 0x83 := 0])"
    then show "p[0x7C := 0, 0x7D := 0, 0x82 := 0, 0x83 := 0] ! i = ?z ! i"
      unfolding p' wr16_def using l by (simp add: nth_list_update)
  qed (use lp l in simp)
  have "?c = castagnoli seed ([2, 0, 0, 0] @ [0, 0, 0, 0] @ ?z)"
    using le32_small [of 2] le32_small [of 0] by (simp only: e2fs_castagnoli castagnoli_append append_assoc) simp
  moreover have "rd16 p 0x7C = ucast ?c" "rd16 p 0x82 = ucast (drop_bit 16 ?c)"
    unfolding p' using l by (simp_all add: stores low_half)
  ultimately show "inode_valid seed 2 p" unfolding inode_valid_def halves_def t z by (simp only:)
qed

section \<open>The root directory's block\<close>

lemma root_dir_fields:
  fixes seed :: u32
  defines "blk \<equiv> root_dir_block seed"
  shows "rd32 blk 0 = 2" "rd16 blk 4 = 12" "blk ! 6 = 1" "blk ! 8 = 0x2E" "rd32 blk 12 = 2" "rd16 blk 16 = 4072" "blk ! 18 = 2"
    "blk ! 20 = 0x2E" "blk ! 21 = 0x2E" "rd32 blk 4092 = castagnoli seed ([2, 0, 0, 0] @ [0, 0, 0, 0] @ take 4084 blk)"
proof -
  let ?e = "write_dotdot_entry (write_dot_entry (replicate 4096 0))"
  let ?b = "wr16 (wr16 (wr32 ?e 4084 0) 4088 12) 4090 0xDE00"
  have e: "length ?e = 4096" by (simp add: write_dotdot_entry_def write_dot_entry_def Let_def)
  have b: "blk = wr32 ?b 4092 (dir_csum seed ?b 2 0 4096)" unfolding blk_def by (simp add: root_dir_block_def Let_def layout)
  have n: "blk ! i = ?e ! i" if "i < 4084" for i
    unfolding b wr32_def wr16_def using that by (simp add: nth_list_update)
  note defs = write_dotdot_entry_def write_dot_entry_def Let_def layout wr32_def wr16_def nth_list_update
  show "blk ! 6 = 1" "blk ! 8 = 0x2E" "blk ! 18 = 2" "blk ! 20 = 0x2E" "blk ! 21 = 0x2E"
    by (simp_all add: n) (simp_all add: defs)
  have r: "rd16 blk i = rd16 ?e i" "rd32 blk i = rd32 ?e i" if "i < 4080" for i
    unfolding b using that by (simp_all add: stores)
  show "rd32 blk 0 = 2" "rd16 blk 4 = 12" "rd32 blk 12 = 2" "rd16 blk 16 = 4072"
    by (simp_all add: r) (simp_all add: write_dotdot_entry_def write_dot_entry_def Let_def layout stores)
  have "take 4084 (wr32 ?b 4092 v) = take 4084 ?b" for v by (simp add: wr32_def)
  moreover have "rd32 blk 4092 = dir_csum seed ?b 2 0 4096" unfolding b by (rule rd32_wr32) (simp add: e)
  ultimately show "rd32 blk 4092 = castagnoli seed ([2, 0, 0, 0] @ [0, 0, 0, 0] @ take 4084 blk)"
    using le32_small [of 2] le32_small [of 0] unfolding b dir_csum_def Let_def
    by (simp only: e2fs_castagnoli castagnoli_append append_assoc) simp
qed

lemma root_dir_listing: "dir_list (root_dir_block seed) 0 4084 = Some [(2, [0x2E]), (2, [0x2E, 0x2E])]"
proof -
  note F = root_dir_fields [of seed]
  let ?b = "root_dir_block seed"
  have t: "take (Suc 0) (drop 8 ?b) = [?b ! 8]" "take 2 (drop 20 ?b) = [?b ! 20, ?b ! 21]"
    by (rule nth_equalityI; simp add: less_Suc_eq numeral_eq_Suc; auto)+
  have "dir_list ?b 4084 4084 = Some []" by (simp add: dir_list.simps)
  moreover have "dir_list ?b 12 4084 = map_option ((@) [(2, take 2 (drop 20 ?b))]) (dir_list ?b 4084 4084)"
    by (subst dir_list.simps) (simp add: F Let_def)
  moreover have "dir_list ?b 0 4084 = map_option ((@) [(2, take 1 (drop 8 ?b))]) (dir_list ?b 12 4084)"
    by (subst dir_list.simps) (simp add: F Let_def)
  ultimately show ?thesis by (simp add: t F)
qed

section \<open>The image reads back\<close>

lemma first_descriptor:
  assumes "image_ok m img"
  shows "unat (rd32 (disk_desc img 0) 0x08) = 1059"
proof -
  let ?d = "gdt_of_group 0 64 16384 (replicate 64 0)"
  have l: "length ?d = 64" by (simp add: length_gdt_of_group)
  have "disk_desc img 0 = csum_entry img (mk_seed m) 0 ?d"
    using assms by (fastforce simp: image_ok_def disk_desc_def)
  then have "rd32 (disk_desc img 0) 0x08 = rd32 ?d G_IT_LO"
    using l by (simp add: csum_entry_def put_csum_def gdt_set_csum_def Let_def layout stores)
  then show ?thesis
    using gdt_entry_fields(3) [of "replicate 64 0" 0 64 16384] by (simp add: grp_it_blk_def grp_flex_first_def layout)
qed

lemma image_root_listing:
  assumes ok: "image_ok m img" and l: "length (mk_uuid m) = 16" "length (mk_hash_seed m) = 16"
    and t: "img_get img (1059 * 4096) 524288 = inode_table m create_wi"
    and r: "img_get img (3107 * 4096) 4096 = root_dir_block (mk_seed m)"
  shows "root_listing img = Some [(2, [0x2E]), (2, [0x2E, 0x2E])]"
proof -
  let ?q = "fill_root_inode (mk_now m) 3107 (replicate 256 0)"
  let ?p = "inode_set_csum ?q 2 (mk_seed m)"
  have sb: "img_get img 1024 1024 = sb_image m 36029" using ok by (simp add: image_ok_def)
  note S = sb_fields [OF l, of 36029]
  have "inode_on img 2 = img_get img (1059 * 4096 + 256) 256"
    using first_descriptor [OF ok] by (simp add: inode_on_def sb S Let_def disk_desc_def)
  also have "\<dots> = ?p" using get_bytes_img_get [of 256 256 524288 img "1059 * 4096"] by (simp only: t root_inode_slice)
  finally have i: "inode_on img 2 = ?p" .
  have q: "length ?q = 256" by simp
  have "?q ! i = 0" if "i \<in> {0x64, 0x65, 0x66, 0x67}" for i
    using that by (auto simp: fill_root_inode_def extent_set_def Let_def wr32_def wr16_def nth_list_update)
  then have z: "take 4 (drop 0x64 ?q) = [0, 0, 0, 0]" using take_four [of "0x64" ?q] by simp
  note R = root_inode_fields [of "replicate 256 0" "mk_now m", simplified]
  note P = inode_set_csum_valid [OF q R(12) z refl [of ?p]]
  have f: "first_extent ?p = Some 3107" by (simp add: first_extent_def P(3,4) R)
  have v: "rd16 ?p 0x00 AND 0xF000 = 0x4000" "unat (rd32 ?p 0x04) = 4096" using P(3,4) R by simp_all
  show ?thesis
    using root_dir_fields(10) [of "mk_seed m"] r
    by (simp add: root_listing_def i sb S f P(1,2) v root_dir_listing Let_def)
qed

text \<open>
  C27: on a device that never fails, and with memory for the inode table, an image is written, and
  a reader that knows nothing of the writer finds its root directory: the superblock's magic number and block size, the first
  group's descriptor, the inode table it points to, inode 2 with a valid checksum, the type of a directory and one
  extent, and in the block of that extent, whose own checksum is valid, an unbroken chain of
  entries, which are \<open>.\<close> and \<open>..\<close>, both inode 2.  (There is no \<^verbatim>\<open>lost+found\<close>.)
\<close>

theorem fresh_image_reads_back:
  assumes fine: "\<And>n. io n = None" and l: "length (mk_uuid m) = 16" "length (mk_hash_seed m) = 16"
  shows "\<exists>d'. do_create_writes io True m d = (0, d') \<and> root_listing (dsk_img d') = Some [(2, [0x2E]), (2, [0x2E, 0x2E])]"
proof -
  obtain d' where d: "do_create_writes io True m d = (0, d')"
    using do_create_writes_fine [of io m d] fine by (metis faultless_def prod.collapse)
  show ?thesis using d finished_image [OF d l] image_root_listing [OF _ l] by blast
qed

lemma fresh_image_reads_back_witness:
  "\<exists>d'. do_create_writes (\<lambda>_. None) True sample_mkfs blank = (0, d') \<and>
     root_listing (dsk_img d') = Some [(2, [0x2E]), (2, [0x2E, 0x2E])]"
  by (rule fresh_image_reads_back) (simp_all add: sample_mkfs_def)

end
