(* ===== verification/Store.thy ===== *)
theory Store
  imports Prelude
begin

text \<open>
  The contracts of the two lookup structures of the program.  A \<open>store\<close> gives back what was
  last put under a key and may forget other keys (the existence cache); a \<open>kv_map\<close> never
  forgets (the environment map).  What their clients need is proved once here.
\<close>

locale store =
  fixes lookup :: "'s \<Rightarrow> 'k \<Rightarrow> 'v option"
    and insert :: "'s \<Rightarrow> 'k \<Rightarrow> 'v \<Rightarrow> 's"
    and inv :: "'s \<Rightarrow> bool"
  assumes insert_inv: "inv s \<Longrightarrow> inv (insert s k v)"
    and lookup_same: "inv s \<Longrightarrow> lookup (insert s k v) k = Some v"
    and lookup_other: "inv s \<Longrightarrow> j \<noteq> k \<Longrightarrow> lookup (insert s k v) j \<in> {lookup s j, None}"
begin

lemma insert_all_inv: "inv s \<Longrightarrow> inv (foldl (\<lambda>s (k, v). insert s k v) s kvs)"
  by (induction kvs arbitrary: s) (auto intro: insert_inv)

text \<open>An answer of the store is the last value put under the key, or was there before.\<close>

lemma lookup_all:
  "inv s \<Longrightarrow> lookup (foldl (\<lambda>s (k, v). insert s k v) s kvs) j = Some v \<Longrightarrow>
   map_of (rev kvs) j = Some v \<or> (map_of (rev kvs) j = None \<and> lookup s j = Some v)"
proof (induction kvs arbitrary: s)
  case (Cons kv kvs)
  obtain k w where kv: "kv = (k, w)" by force
  from Cons.IH [of "insert s k w"] Cons.prems insert_inv have
    "map_of (rev kvs) j = Some v \<or> (map_of (rev kvs) j = None \<and> lookup (insert s k w) j = Some v)"
    by (simp add: kv)
  then show ?case
    using lookup_same [OF Cons.prems(1), of k w] lookup_other [OF Cons.prems(1), of j k w]
    by (cases "j = k") (auto simp: kv map_add_def)
qed simp

end

locale kv_map = store +
  assumes lookup_keeps: "inv s \<Longrightarrow> j \<noteq> k \<Longrightarrow> lookup (insert s k v) j = lookup s j"
begin

lemma lookup_insert: "inv s \<Longrightarrow> lookup (insert s k v) j = (if j = k then Some v else lookup s j)"
  by (simp add: lookup_same lookup_keeps)

lemma lookup_fold:
  "inv s \<Longrightarrow> lookup (foldl (\<lambda>s (k, v). insert s k v) s kvs) j =
     (case map_of (rev kvs) j of Some v \<Rightarrow> Some v | None \<Rightarrow> lookup s j)"
proof (induction kvs arbitrary: s)
  case (Cons kv kvs)
  obtain k w where kv: "kv = (k, w)" by force
  from Cons.IH [of "insert s k w"] Cons.prems insert_inv show ?case
    by (auto simp: kv lookup_insert map_add_def split: option.splits)
qed simp

text \<open>Putting a value only where there is none.\<close>

definition put_absent :: "'a \<Rightarrow> 'b \<Rightarrow> 'c \<Rightarrow> 'a" where
  "put_absent s k v = (if lookup s k \<noteq> None then s else insert s k v)"

lemma put_absent_inv: "inv s \<Longrightarrow> inv (put_absent s k v)"
  by (simp add: put_absent_def insert_inv)

lemma put_absent_lookup:
  "inv s \<Longrightarrow> lookup (put_absent s k v) j
     = (if j = k then Some (case lookup s k of Some w \<Rightarrow> w | None \<Rightarrow> v) else lookup s j)"
  by (auto simp: put_absent_def lookup_insert)

end

end
