(* ===== verification/EnvMap.thy ===== *)
theory EnvMap
  imports Store "HOL-Library.Monad_Syntax"
begin

text \<open>
  The environment map (\<^verbatim>\<open>src/util/env_map.c\<close>): open addressing with linear probing over
  parallel arrays, keyed by FNV-1a hashes.  A slot is \<open>None\<close> when \<open>used\<close> is 0; the arrays are
  unallocated when the capacity is 0.  Whether an allocation of a call succeeds is the
  parameter \<open>ok\<close>; \<open>strdup\<close> and the small allocations of \<open>env_map_build\<close> are taken to succeed.
  The probing loops run forever on a full table, so they are partial functions.
\<close>

section \<open>The map\<close>

type_synonym slot = "(u32 \<times> string \<times> string) option"

record env_map =
  slots :: "slot list"
  mlen :: nat

definition mcap :: "env_map \<Rightarrow> nat" where
  "mcap m = length (slots m)"

definition MAP_INIT_CAP :: nat where "MAP_INIT_CAP = 16"

definition fnv1a :: "string \<Rightarrow> u32" where
  "fnv1a s = foldl (\<lambda>h c. (h XOR of_char c) * 16777619) 2166136261 s"

definition alloc_map :: "nat \<Rightarrow> env_map" where
  "alloc_map nc = \<lparr>slots = replicate nc None, mlen = 0\<rparr>"

partial_function (option) free_slot :: "slot list \<Rightarrow> nat \<Rightarrow> nat option" where
  "free_slot sl idx =
     (if sl ! idx = None then Some idx else free_slot sl ((idx + 1) mod length sl))"

fun rehash_loop :: "slot list \<Rightarrow> slot list \<Rightarrow> slot list option" where
  "rehash_loop [] dst = Some dst"
| "rehash_loop (None # src) dst = rehash_loop src dst"
| "rehash_loop (Some (h, k, v) # src) dst =
     (case free_slot dst (unat h mod length dst) of
        None \<Rightarrow> None
      | Some idx \<Rightarrow> rehash_loop src (dst[idx := Some (h, k, v)]))"

definition map_rehash :: "env_map \<Rightarrow> env_map \<Rightarrow> env_map option" where
  "map_rehash src dst =
     (case rehash_loop (slots src) (slots dst) of
        None \<Rightarrow> None
      | Some sl \<Rightarrow> Some (dst\<lparr>slots := sl\<rparr>))"

definition map_resize :: "bool \<Rightarrow> env_map \<Rightarrow> nat \<Rightarrow> (bool \<times> env_map) option" where
  "map_resize ok m nc =
     (if \<not> ok then Some (False, m)
      else (case map_rehash m (alloc_map nc) of
              None \<Rightarrow> None
            | Some n \<Rightarrow> Some (True, n\<lparr>mlen := mlen m\<rparr>)))"

definition env_map_zero :: env_map where
  "env_map_zero = \<lparr>slots = [], mlen = 0\<rparr>"

definition env_map_init :: "bool \<Rightarrow> env_map option" where
  "env_map_init ok = map_option snd (map_resize ok env_map_zero MAP_INIT_CAP)"

definition env_map_free :: "env_map \<Rightarrow> env_map" where
  "env_map_free m = env_map_zero"

definition maybe_grow :: "bool \<Rightarrow> env_map \<Rightarrow> env_map option" where
  "maybe_grow ok m =
     (if mlen m \<ge> mcap m * 7 div 10
      then map_option snd (map_resize ok m (mcap m + (if mcap m \<ge> 64 then mcap m else 64)))
      else Some m)"

partial_function (option) map_probe :: "slot list \<Rightarrow> u32 \<Rightarrow> string \<Rightarrow> nat \<Rightarrow> (bool \<times> nat) option" where
  "map_probe sl h k i =
     (case sl ! i of
        None \<Rightarrow> Some (False, i)
      | Some (h', k', v) \<Rightarrow>
          if h' = h \<and> k' = k then Some (True, i)
          else map_probe sl h k ((i + 1) mod length sl))"

definition map_lookup :: "env_map \<Rightarrow> u32 \<Rightarrow> string \<Rightarrow> (bool \<times> nat) option" where
  "map_lookup m h k = map_probe (slots m) h k (unat h mod mcap m)"

definition env_map_put :: "bool \<Rightarrow> env_map \<Rightarrow> string \<Rightarrow> string \<Rightarrow> env_map option" where
  "env_map_put ok m k v =
     (if mcap m = 0 then Some m
      else (case maybe_grow ok m of
              None \<Rightarrow> None
            | Some m' \<Rightarrow>
                (case map_lookup m' (fnv1a k) k of
                   None \<Rightarrow> None
                 | Some (True, i) \<Rightarrow> Some (m'\<lparr>slots := (slots m')[i := Some (fnv1a k, k, v)]\<rparr>)
                 | Some (False, i) \<Rightarrow>
                     Some (m'\<lparr>slots := (slots m')[i := Some (fnv1a k, k, v)], mlen := mlen m' + 1\<rparr>))))"

definition env_map_get :: "env_map \<Rightarrow> string \<Rightarrow> string option option" where
  "env_map_get m k =
     (if mcap m = 0 then Some None
      else (case map_lookup m (fnv1a k) k of
              None \<Rightarrow> None
            | Some (found, i) \<Rightarrow>
                Some (if found then map_option (\<lambda>(h, k, v). v) (slots m ! i) else None)))"

definition build_kv :: "string \<Rightarrow> string \<Rightarrow> string" where
  "build_kv k v = k @ ''='' @ v"

definition env_map_build :: "env_map \<Rightarrow> string list" where
  "env_map_build m = concat (map (\<lambda>s. case s of None \<Rightarrow> [] | Some (h, k, v) \<Rightarrow> [build_kv k v]) (slots m))"

definition env_map_ensure :: "bool \<Rightarrow> env_map \<Rightarrow> string \<Rightarrow> string option \<Rightarrow> env_map option" where
  "env_map_ensure ok m k v =
     (case v of
        None \<Rightarrow> Some m
      | Some v \<Rightarrow>
          if v = [] then Some m
          else (case env_map_get m k of
                  None \<Rightarrow> None
                | Some (Some _) \<Rightarrow> Some m
                | Some None \<Rightarrow> env_map_put ok m k v))"

section \<open>Probing\<close>

text \<open>
  The probe sequence of a start index; the table is \<open>chained\<close> when every entry can be reached
  from its home slot through used slots.
\<close>

definition probe :: "slot list \<Rightarrow> nat \<Rightarrow> nat \<Rightarrow> nat" where
  "probe sl s d = (s + d) mod length sl"

definition home :: "slot list \<Rightarrow> u32 \<Rightarrow> nat" where
  "home sl h = unat h mod length sl"

definition stops :: "slot list \<Rightarrow> u32 \<Rightarrow> string \<Rightarrow> nat \<Rightarrow> bool" where
  "stops sl h k i \<longleftrightarrow> (case sl ! i of None \<Rightarrow> True | Some (h', k', v) \<Rightarrow> h' = h \<and> k' = k)"

lemma map_probe_at:
  assumes "\<And>e. e < d \<Longrightarrow> \<not> stops sl h k (probe sl s e)" and "stops sl h k (probe sl s d)"
  shows "c \<le> d \<Longrightarrow> map_probe sl h k (probe sl s c) = Some (sl ! probe sl s d \<noteq> None, probe sl s d)"
proof (induction "d - c" arbitrary: c)
  case 0
  then have "c = d" by simp
  with assms(2) show ?case
    by (subst map_probe.simps) (auto simp: stops_def split: option.splits)
next
  case (Suc n)
  then have c: "c < d" by simp
  have next_idx: "(probe sl s c + 1) mod length sl = probe sl s (c + 1)"
    by (simp add: probe_def mod_Suc_eq)
  have "map_probe sl h k (probe sl s c) = map_probe sl h k (probe sl s (c + 1))"
    using assms(1) [OF c] next_idx by (subst map_probe.simps) (auto simp: stops_def split: option.splits)
  also have "\<dots> = Some (sl ! probe sl s d \<noteq> None, probe sl s d)"
    using Suc c by (intro Suc.hyps(1)) simp_all
  finally show ?case .
qed

lemma free_slot_probe:
  assumes "\<And>e. e < d \<Longrightarrow> sl ! probe sl s e \<noteq> None" and "sl ! probe sl s d = None"
  shows "c \<le> d \<Longrightarrow> free_slot sl (probe sl s c) = Some (probe sl s d)"
proof (induction "d - c" arbitrary: c)
  case 0
  then have "c = d" by simp
  with assms(2) show ?case by (subst free_slot.simps) simp
next
  case (Suc n)
  then have c: "c < d" by simp
  have next_idx: "(probe sl s c + 1) mod length sl = probe sl s (c + 1)"
    by (simp add: probe_def mod_Suc_eq)
  have "free_slot sl (probe sl s c) = free_slot sl (probe sl s (c + 1))"
    using assms(1) [OF c] next_idx by (auto simp: free_slot.simps [of sl "probe sl s c"])
  also have "\<dots> = Some (probe sl s d)"
    using Suc c by (intro Suc.hyps(1)) simp_all
  finally show ?case .
qed

text \<open>Every slot is on every probe sequence.\<close>

lemma probe_reaches:
  assumes "i < length sl" and "s < length sl"
  shows "\<exists>d < length sl. probe sl s d = i"
proof (cases "s \<le> i")
  case True
  with assms show ?thesis by (intro exI [of _ "i - s"]) (simp add: probe_def)
next
  case False
  with assms show ?thesis by (intro exI [of _ "i + length sl - s"]) (simp add: probe_def)
qed

lemma first_on_probe:
  assumes "\<exists>d. P (probe sl s d)"
  shows "\<exists>d. P (probe sl s d) \<and> (\<forall>e < d. \<not> P (probe sl s e))"
  using assms exists_least_iff [of "\<lambda>d. P (probe sl s d)"] by blast

lemma probe_less: "0 < length sl \<Longrightarrow> probe sl s d < length sl"
  by (simp add: probe_def)

lemma probe_home: "0 < length sl \<Longrightarrow> probe sl (home sl h) 0 = home sl h"
  by (simp add: probe_def home_def)

lemma not_stops_used: "\<not> stops sl h k i \<Longrightarrow> sl ! i \<noteq> None"
  by (cases "sl ! i") (simp_all add: stops_def)

text \<open>A probing loop that returns has found the key or a free slot.\<close>

lemma map_probe_result: "map_probe sl h k i = Some r \<Longrightarrow> stops sl h k (snd r)"
proof (erule map_probe.raw_induct [rotated])
  fix f sl h k i r
  assume "\<And>sl h k i r. f sl h k i = Some r \<Longrightarrow> stops sl h k (snd r)"
    and "(case sl ! i of None \<Rightarrow> Some (False, i)
      | Some (h', k', v) \<Rightarrow> if h' = h \<and> k' = k then Some (True, i) else f sl h k ((i + 1) mod length sl)) = Some r"
  then show "stops sl h k (snd r)"
    by (auto split: option.splits prod.splits if_splits) (auto simp: stops_def)
qed

lemma map_probe_index:
  "map_probe sl h k i = Some r \<Longrightarrow> sl \<noteq> [] \<and> i < length sl \<longrightarrow> snd r < length sl"
proof (erule map_probe.raw_induct [rotated])
  fix f :: "slot list \<Rightarrow> u32 \<Rightarrow> string \<Rightarrow> nat \<Rightarrow> (bool \<times> nat) option" and sl h k i r
  assume IH: "\<And>sl h k i r. f sl h k i = Some r \<Longrightarrow> sl \<noteq> [] \<and> i < length sl \<longrightarrow> snd r < length sl"
    and b: "(case sl ! i of None \<Rightarrow> Some (False, i)
      | Some (h', k', v) \<Rightarrow> if h' = h \<and> k' = k then Some (True, i) else f sl h k ((i + 1) mod length sl)) = Some r"
  show "sl \<noteq> [] \<and> i < length sl \<longrightarrow> snd r < length sl"
    using b IH [of sl h k "(i + 1) mod length sl" r]
    by (auto split: option.splits prod.splits if_splits)
qed

section \<open>The invariant\<close>

definition chained :: "slot list \<Rightarrow> bool" where
  "chained sl \<longleftrightarrow> (\<forall>i < length sl. case sl ! i of None \<Rightarrow> True | Some (h, k, v) \<Rightarrow>
     h = fnv1a k \<and> (\<exists>d. probe sl (home sl h) d = i \<and> (\<forall>e < d. sl ! probe sl (home sl h) e \<noteq> None)))"

definition keys_distinct :: "slot list \<Rightarrow> bool" where
  "keys_distinct sl \<longleftrightarrow> (\<forall>i j h v h' v' k. i < length sl \<longrightarrow> j < length sl \<longrightarrow>
     sl ! i = Some (h, k, v) \<longrightarrow> sl ! j = Some (h', k, v') \<longrightarrow> i = j)"

definition n_used :: "slot list \<Rightarrow> nat" where
  "n_used sl = length (filter (\<lambda>s. s \<noteq> None) sl)"

definition table_ok :: "slot list \<Rightarrow> bool" where
  "table_ok sl \<longleftrightarrow> chained sl \<and> keys_distinct sl"

definition env_map_ok :: "env_map \<Rightarrow> bool" where
  "env_map_ok m \<longleftrightarrow> 16 \<le> mcap m \<and> table_ok (slots m) \<and> mlen m = n_used (slots m) \<and> mlen m < mcap m"

text \<open>The finite map a table stands for.\<close>

definition entry :: "slot list \<Rightarrow> string \<Rightarrow> string option" where
  "entry sl k = map_of [(k, v). Some (h, k, v) \<leftarrow> sl] k"

lemma entry_set: "(k, v) \<in> set [(k, v). Some (h, k, v) \<leftarrow> sl] \<longleftrightarrow> (\<exists>h. Some (h, k, v) \<in> set sl)"
  by (induction sl) (auto split: option.splits)

lemma entry_Nil [simp]: "entry [] k = None"
  by (simp add: entry_def)

lemma entry_Cons:
  "entry (x # sl) k = (case x of None \<Rightarrow> entry sl k | Some (h, j, v) \<Rightarrow> if k = j then Some v else entry sl k)"
  by (auto simp: entry_def split: option.splits)

lemma entry_None: "entry sl k = None \<longleftrightarrow> (\<forall>h v. Some (h, k, v) \<notin> set sl)"
  unfolding entry_def by (induction sl) (auto split: option.splits)

lemma entry_Some:
  assumes "keys_distinct sl"
  shows "entry sl k = Some v \<longleftrightarrow> (\<exists>h. Some (h, k, v) \<in> set sl)"
proof
  assume "entry sl k = Some v"
  then have "(k, v) \<in> set [(k, v). Some (h, k, v) \<leftarrow> sl]" unfolding entry_def by (rule map_of_SomeD)
  then show "\<exists>h. Some (h, k, v) \<in> set sl" by (simp only: entry_set)
next
  assume "\<exists>h. Some (h, k, v) \<in> set sl"
  then obtain h where h: "Some (h, k, v) \<in> set sl" by blast
  then have "entry sl k \<noteq> None" by (auto simp: entry_None)
  then obtain w where w: "entry sl k = Some w" by auto
  then have "(k, w) \<in> set [(k, v). Some (h, k, v) \<leftarrow> sl]" unfolding entry_def by (rule map_of_SomeD)
  then obtain h' where h': "Some (h', k, w) \<in> set sl" by (simp only: entry_set) blast
  from h h' obtain i j where "i < length sl" "sl ! i = Some (h, k, v)" "j < length sl" "sl ! j = Some (h', k, w)"
    by (metis in_set_conv_nth)
  with assms have "sl ! i = sl ! j" unfolding keys_distinct_def by blast
  with \<open>sl ! i = Some (h, k, v)\<close> \<open>sl ! j = Some (h', k, w)\<close> w show "entry sl k = Some v" by simp
qed

section \<open>Looking up and inserting\<close>

lemma n_used_free: "n_used sl < length sl \<Longrightarrow> \<exists>i < length sl. sl ! i = None"
proof (rule ccontr)
  assume less: "n_used sl < length sl" and "\<not> (\<exists>i < length sl. sl ! i = None)"
  then have "\<forall>s \<in> set sl. s \<noteq> None" by (metis in_set_conv_nth)
  then have "filter (\<lambda>s. s \<noteq> None) sl = sl" by (simp add: filter_id_conv)
  with less show False by (simp add: n_used_def)
qed

lemma n_used_update:
  "i < length sl \<Longrightarrow> n_used (sl[i := Some x]) = (if sl ! i = None then n_used sl + 1 else n_used sl)"
  by (cases x, induction sl arbitrary: i) (auto simp: n_used_def split: nat.splits)

text \<open>
  The key's slot, or else the first free slot of its probe sequence, is where the probing loop
  stops.
\<close>

lemma map_lookup_spec:
  assumes ok: "table_ok sl" and free: "n_used sl < length sl"
  shows "\<exists>d. map_probe sl (fnv1a k) k (home sl (fnv1a k)) =
      Some (entry sl k \<noteq> None, probe sl (home sl (fnv1a k)) d) \<and>
    (\<forall>e < d. sl ! probe sl (home sl (fnv1a k)) e \<noteq> None) \<and>
    (case entry sl k of None \<Rightarrow> sl ! probe sl (home sl (fnv1a k)) d = None
     | Some v \<Rightarrow> sl ! probe sl (home sl (fnv1a k)) d = Some (fnv1a k, k, v))"
proof -
  let ?h = "fnv1a k" and ?s = "home sl (fnv1a k)"
  have pos: "0 < length sl" using free by linarith
  then have s: "?s < length sl" by (simp add: home_def)
  from n_used_free [OF free] obtain i where "i < length sl" "sl ! i = None" by blast
  with probe_reaches [OF _ s] have "\<exists>d. stops sl ?h k (probe sl ?s d)" by (metis option.simps(4) stops_def)
  from first_on_probe [of "stops sl ?h k", OF this] obtain d where
    d: "stops sl ?h k (probe sl ?s d)" "\<forall>e < d. \<not> stops sl ?h k (probe sl ?s e)" by blast
  have used: "\<forall>e < d. sl ! probe sl ?s e \<noteq> None" using d(2) not_stops_used by blast
  have r: "map_probe sl ?h k ?s = Some (sl ! probe sl ?s d \<noteq> None, probe sl ?s d)"
    using map_probe_at [of d sl ?h k ?s 0] d probe_home [OF pos] by simp
  show ?thesis
  proof (cases "entry sl k")
    case None
    have "sl ! probe sl ?s d \<in> set sl" using probe_less [OF pos] by (rule nth_mem)
    with None d(1) have "sl ! probe sl ?s d = None"
      by (cases "sl ! probe sl ?s d") (auto simp: stops_def entry_None)
    with None r used show ?thesis by auto
  next
    case (Some v)
    then obtain h where "Some (h, k, v) \<in> set sl" using ok entry_Some by (auto simp: table_ok_def)
    then obtain j where j: "j < length sl" "sl ! j = Some (h, k, v)" by (metis in_set_conv_nth)
    with ok have hk: "h = ?h" and "\<exists>c. probe sl ?s c = j \<and> (\<forall>e < c. sl ! probe sl ?s e \<noteq> None)"
      by (auto simp: table_ok_def chained_def)
    then obtain c where c: "probe sl ?s c = j" "\<forall>e < c. sl ! probe sl ?s e \<noteq> None" by blast
    have "stops sl ?h k (probe sl ?s c)" using c(1) j hk by (simp add: stops_def)
    with d(2) have "d \<le> c" by (meson not_le)
    have "sl ! probe sl ?s d \<noteq> None"
    proof (cases "d = c")
      case True
      then show ?thesis using c(1) j by simp
    next
      case False
      with \<open>d \<le> c\<close> c(2) show ?thesis by simp
    qed
    then obtain w where w: "sl ! probe sl ?s d = Some (?h, k, w)" using d(1) by (auto simp: stops_def)
    then have "probe sl ?s d = j"
      using ok j probe_less [OF pos, of ?s d] unfolding table_ok_def keys_distinct_def by blast
    with w j Some r used show ?thesis by auto
  qed
qed

lemma chained_insert:
  assumes "table_ok sl" and "n_used sl < length sl" and "entry sl k = None"
    and "\<forall>e < d. sl ! probe sl (home sl (fnv1a k)) e \<noteq> None" and "i = probe sl (home sl (fnv1a k)) d"
    and "sl ! i = None"
  shows "table_ok (sl[i := Some (fnv1a k, k, v)])"
proof -
  let ?t = "sl[i := Some (fnv1a k, k, v)]"
  have "0 < length sl" using assms(2) by linarith
  then have i: "i < length sl" using assms(5) probe_less by simp
  have pr: "probe ?t = probe sl" "home ?t = home sl" by (simp_all add: probe_def home_def fun_eq_iff)
  have used: "?t ! j \<noteq> None" if "sl ! j \<noteq> None" for j using that i by (cases "j = i") auto
  have "chained ?t"
    unfolding chained_def
  proof (intro allI impI)
    fix j
    assume j: "j < length ?t"
    show "case ?t ! j of None \<Rightarrow> True | Some (h, k, v) \<Rightarrow> h = fnv1a k \<and>
      (\<exists>d. probe ?t (home ?t h) d = j \<and> (\<forall>e < d. ?t ! probe ?t (home ?t h) e \<noteq> None))"
    proof (cases "j = i")
      case True
      then show ?thesis using i assms(4,5) used unfolding pr by auto
    next
      case False
      with j have "?t ! j = sl ! j" by simp
      moreover have "case sl ! j of None \<Rightarrow> True | Some (h, k, v) \<Rightarrow> h = fnv1a k \<and>
        (\<exists>d. probe sl (home sl h) d = j \<and> (\<forall>e < d. sl ! probe sl (home sl h) e \<noteq> None))"
        using assms(1) j by (simp add: table_ok_def chained_def)
      ultimately show ?thesis using used unfolding pr by (auto split: option.splits)
    qed
  qed
  moreover have "keys_distinct ?t"
  proof -
    have no: "sl ! j \<noteq> Some (h, k, w)" if "j < length sl" for j h w
      using assms(3) nth_mem [OF that] by (auto simp: entry_None)
    have "keys_distinct sl" using assms(1) by (simp add: table_ok_def)
    then show ?thesis using no i unfolding keys_distinct_def
      by (auto simp: nth_list_update split: if_splits)
  qed
  ultimately show ?thesis by (simp add: table_ok_def)
qed

lemma chained_replace:
  assumes "table_ok sl" and "i < length sl" and "sl ! i = Some (h, k, w)"
  shows "table_ok (sl[i := Some (h, k, v)])"
proof -
  let ?t = "sl[i := Some (h, k, v)]"
  have pr: "probe ?t = probe sl" "home ?t = home sl" by (simp_all add: probe_def home_def fun_eq_iff)
  have used: "?t ! j \<noteq> None \<longleftrightarrow> sl ! j \<noteq> None" for j using assms(2,3) by (cases "j = i") auto
  have same: "\<exists>v''. sl ! j = Some (h', k', v'')" if "?t ! j = Some (h', k', v')" for j h' k' v'
    using that assms(2,3) by (cases "j = i") auto
  have "chained ?t"
    unfolding chained_def
  proof (intro allI impI)
    fix j
    assume "j < length ?t"
    then have "case sl ! j of None \<Rightarrow> True | Some (h, k, v) \<Rightarrow> h = fnv1a k \<and>
        (\<exists>d. probe sl (home sl h) d = j \<and> (\<forall>e < d. sl ! probe sl (home sl h) e \<noteq> None))"
      using assms(1) by (simp add: table_ok_def chained_def)
    then show "case ?t ! j of None \<Rightarrow> True | Some (h, k, v) \<Rightarrow> h = fnv1a k \<and>
      (\<exists>d. probe ?t (home ?t h) d = j \<and> (\<forall>e < d. ?t ! probe ?t (home ?t h) e \<noteq> None))"
      using used same [of j] unfolding pr by (cases "?t ! j") fastforce+
  qed
  moreover have "keys_distinct ?t"
    using assms(1) same unfolding table_ok_def keys_distinct_def by (metis length_list_update)
  ultimately show ?thesis by (simp add: table_ok_def)
qed

lemma entry_update_new:
  assumes "keys_distinct (sl[i := Some (h, k, v)])" and "i < length sl" and "sl ! i = None \<or> (\<exists>h w. sl ! i = Some (h, k, w))"
    and "keys_distinct sl"
  shows "entry (sl[i := Some (h, k, v)]) j = (if j = k then Some v else entry sl j)"
proof (cases "j = k")
  case True
  have "Some (h, k, v) \<in> set (sl[i := Some (h, k, v)])" using assms(2) by (simp add: set_update_memI)
  with True show ?thesis using entry_Some [OF assms(1)] by auto
next
  case False
  have ne: "ia \<noteq> i" if "sl ! ia = Some (h', j, w)" for ia h' w
    using that assms(3) False by auto
  have "Some (h', j, w) \<in> set (sl[i := Some (h, k, v)]) \<longleftrightarrow> Some (h', j, w) \<in> set sl" for h' w
    using ne False assms(2) by (fastforce simp: in_set_conv_nth nth_list_update split: if_splits)
  then have "entry (sl[i := Some (h, k, v)]) j = Some w \<longleftrightarrow> entry sl j = Some w" for w
    using entry_Some [OF assms(1)] entry_Some [OF assms(4)] by simp
  with False show ?thesis by (metis not_Some_eq)
qed

lemma n_used_Cons: "n_used (s # sl) = (if s = None then 0 else 1) + n_used sl"
  by (simp add: n_used_def)

lemma rehash_loop_spec:
  assumes "table_ok dst" and "n_used dst + n_used src < length dst" and "keys_distinct src"
    and "\<And>h k v. Some (h, k, v) \<in> set src \<Longrightarrow> h = fnv1a k \<and> entry dst k = None"
  shows "\<exists>sl. rehash_loop src dst = Some sl \<and> length sl = length dst \<and> table_ok sl \<and>
    n_used sl = n_used dst + n_used src \<and>
    (\<forall>k. entry sl k = (case entry dst k of Some v \<Rightarrow> Some v | None \<Rightarrow> entry src k))"
  using assms
proof (induction src arbitrary: dst)
  case Nil
  then show ?case by (auto simp: n_used_def entry_def split: option.splits)
next
  case (Cons x src)
  have kd: "keys_distinct src"
    using Cons.prems(3) unfolding keys_distinct_def
    by (metis Suc_less_eq length_Cons nat.inject nth_Cons_Suc)
  show ?case
  proof (cases x)
    case None
    with Cons.IH [OF Cons.prems(1) _ kd] Cons.prems show ?thesis
      by (auto simp: n_used_Cons entry_Cons cong: option.case_cong)
  next
    case (Some y)
    obtain h k v where y: "y = (h, k, v)" by (metis prod_cases3)
    have hk: "h = fnv1a k" "entry dst k = None" using Cons.prems(4) [of h k v] Some y by auto
    have room: "n_used dst < length dst" using Cons.prems(2) by linarith
    from map_lookup_spec [OF Cons.prems(1) room, of k] hk obtain d where
      d: "\<forall>e < d. dst ! probe dst (home dst h) e \<noteq> None" "dst ! probe dst (home dst h) d = None" by auto
    let ?i = "probe dst (home dst h) d" and ?dst = "dst[probe dst (home dst h) d := Some (h, k, v)]"
    have pos: "0 < length dst" using room by linarith
    then have i: "?i < length dst" by (rule probe_less)
    have free: "free_slot dst (unat h mod length dst) = Some ?i"
      using free_slot_probe [of d dst "home dst h" 0] d probe_home [OF pos, of h] by (simp add: home_def)
    have tok: "table_ok ?dst"
      using chained_insert [OF Cons.prems(1) room hk(2) _ _ d(2), of d v] d(1) hk(1) by simp
    have ent: "entry ?dst j = (if j = k then Some v else entry dst j)" for j
      using entry_update_new [of dst ?i h k v j] tok i d(2) Cons.prems(1) by (simp add: table_ok_def)
    have nu: "n_used ?dst = n_used dst + 1" using n_used_update [OF i, of "(h, k, v)"] d(2) by simp
    have out: "h' = fnv1a k' \<and> entry ?dst k' = None" if m: "Some (h', k', v') \<in> set src" for h' k' v'
    proof -
      from m obtain j where j: "j < length src" "src ! j = Some (h', k', v')" by (metis in_set_conv_nth)
      then have "k' \<noteq> k" using Cons.prems(3) Some y unfolding keys_distinct_def
        by (metis Suc_less_eq length_Cons nat.distinct(1) nth_Cons_0 nth_Cons_Suc zero_less_Suc)
      then show ?thesis using Cons.prems(4) [of h' k' v'] m ent by simp
    qed
    have "n_used ?dst + n_used src < length ?dst" using Cons.prems(2) nu Some by (simp add: n_used_Cons)
    then have "\<exists>sl. rehash_loop src ?dst = Some sl \<and> length sl = length ?dst \<and> table_ok sl \<and>
      n_used sl = n_used ?dst + n_used src \<and>
      (\<forall>k. entry sl k = (case entry ?dst k of Some v \<Rightarrow> Some v | None \<Rightarrow> entry src k))"
      by (rule Cons.IH [OF tok _ kd]) (rule out)
    then obtain sl where
      sl: "rehash_loop src ?dst = Some sl" "length sl = length dst" "table_ok sl"
      "n_used sl = n_used ?dst + n_used src"
      "\<forall>k. entry sl k = (case entry ?dst k of Some v \<Rightarrow> Some v | None \<Rightarrow> entry src k)" by auto
    have "entry (x # src) j = (if j = k then Some v else entry src j)" for j
      using Some y by (simp add: entry_Cons)
    then show ?thesis using sl nu ent hk(2) Some y free by (auto simp: n_used_Cons split: option.splits)
  qed
qed

lemma empty_table: "table_ok (replicate n None)" "n_used (replicate n None) = 0" "entry (replicate n None) k = None"
  by (auto simp: table_ok_def chained_def keys_distinct_def n_used_def entry_None)

lemma map_resize_spec:
  assumes "table_ok (slots m)" and "mlen m = n_used (slots m)" and "mlen m < nc"
  shows "\<exists>n. map_resize True m nc = Some (True, n) \<and> mcap n = nc \<and> table_ok (slots n) \<and>
    mlen n = n_used (slots n) \<and> mlen n = mlen m \<and> (\<forall>k. entry (slots n) k = entry (slots m) k)"
proof -
  have "h = fnv1a k \<and> entry (replicate nc None) k = None" if "Some (h, k, v) \<in> set (slots m)" for h k v
    using that assms(1) unfolding table_ok_def chained_def in_set_conv_nth by (fastforce simp: entry_None)
  moreover have "keys_distinct (slots m)" using assms(1) by (simp add: table_ok_def)
  ultimately obtain sl where "rehash_loop (slots m) (replicate nc None) = Some sl" "length sl = nc" "table_ok sl"
    "n_used sl = n_used (slots m)" "\<forall>k. entry sl k = entry (slots m) k"
    using rehash_loop_spec [of "replicate nc None" "slots m"] assms(2,3) empty_table [of nc] by auto
  with assms(2) show ?thesis
    by (simp add: map_resize_def map_rehash_def alloc_map_def mcap_def)
qed

lemma env_map_init_ok: "\<exists>m. env_map_init True = Some m \<and> env_map_ok m \<and> (\<forall>k. entry (slots m) k = None)"
proof -
  have "table_ok (slots env_map_zero)" "mlen env_map_zero = n_used (slots env_map_zero)" "mlen env_map_zero < MAP_INIT_CAP"
    using empty_table [of 0] by (simp_all add: env_map_zero_def MAP_INIT_CAP_def)
  from map_resize_spec [OF this] show ?thesis
    by (auto simp: env_map_init_def env_map_ok_def MAP_INIT_CAP_def env_map_zero_def)
qed

lemma maybe_grow_ok:
  assumes "env_map_ok m"
  shows "\<exists>n. maybe_grow True m = Some n \<and> 16 \<le> mcap n \<and> table_ok (slots n) \<and> mlen n = n_used (slots n) \<and>
    mlen n + 1 < mcap n \<and> (\<forall>k. entry (slots n) k = entry (slots m) k)"
proof (cases "mlen m \<ge> mcap m * 7 div 10")
  case True
  let ?nc = "mcap m + (if mcap m \<ge> 64 then mcap m else 64)"
  have m: "16 \<le> mcap m" "table_ok (slots m)" "mlen m = n_used (slots m)" "mlen m < mcap m"
    using assms by (auto simp: env_map_ok_def)
  then have "mlen m < ?nc" by linarith
  from map_resize_spec [OF m(2,3) this] obtain n where
    n: "map_resize True m ?nc = Some (True, n)" "mcap n = ?nc" "table_ok (slots n)" "mlen n = n_used (slots n)"
    "mlen n = mlen m" "\<forall>k. entry (slots n) k = entry (slots m) k" by blast
  have "mlen n + 1 < mcap n" "16 \<le> mcap n" using n(2,5) m by (simp_all split: if_splits)
  with n True show ?thesis by (auto simp: maybe_grow_def)
next
  case False
  then have "mlen m + 1 < mcap m" using assms by (auto simp: env_map_ok_def)
  with False assms show ?thesis by (auto simp: maybe_grow_def env_map_ok_def)
qed

lemma env_map_get_ok:
  assumes "env_map_ok m"
  shows "env_map_get m k = Some (entry (slots m) k)"
proof -
  have "table_ok (slots m)" "n_used (slots m) < length (slots m)" and c: "mcap m \<noteq> 0"
    using assms by (auto simp: env_map_ok_def mcap_def)
  from map_lookup_spec [OF this(1,2), of k] c show ?thesis
    by (auto simp: env_map_get_def map_lookup_def home_def mcap_def split: option.splits)
qed

lemma env_map_put_ok:
  assumes "env_map_ok m"
  shows "\<exists>m'. env_map_put True m k v = Some m' \<and> env_map_ok m' \<and>
    (\<forall>j. entry (slots m') j = (if j = k then Some v else entry (slots m) j))"
proof -
  from maybe_grow_ok [OF assms] obtain n where n: "maybe_grow True m = Some n" "16 \<le> mcap n" "table_ok (slots n)"
    "mlen n = n_used (slots n)" "mlen n + 1 < mcap n" "\<forall>k. entry (slots n) k = entry (slots m) k" by blast
  have room: "n_used (slots n) < length (slots n)" using n(4,5) by (simp add: mcap_def)
  then have pos: "0 < length (slots n)" by linarith
  have c: "mcap m \<noteq> 0" using assms by (auto simp: env_map_ok_def)
  have kd: "keys_distinct (slots n)" using n(3) by (simp add: table_ok_def)
  from map_lookup_spec [OF n(3) room, of k] obtain d where
    r: "map_probe (slots n) (fnv1a k) k (home (slots n) (fnv1a k)) =
        Some (entry (slots n) k \<noteq> None, probe (slots n) (home (slots n) (fnv1a k)) d)" and
    used: "\<forall>e < d. slots n ! probe (slots n) (home (slots n) (fnv1a k)) e \<noteq> None" and
    at: "case entry (slots n) k of None \<Rightarrow> slots n ! probe (slots n) (home (slots n) (fnv1a k)) d = None
     | Some v \<Rightarrow> slots n ! probe (slots n) (home (slots n) (fnv1a k)) d = Some (fnv1a k, k, v)" by blast
  let ?i = "probe (slots n) (home (slots n) (fnv1a k)) d"
  let ?sl = "(slots n)[?i := Some (fnv1a k, k, v)]"
  have i: "?i < length (slots n)" by (rule probe_less [OF pos])
  have look: "map_lookup n (fnv1a k) k = Some (entry (slots n) k \<noteq> None, ?i)"
    using r by (simp add: map_lookup_def home_def mcap_def)
  have tok: "table_ok ?sl"
  proof (cases "entry (slots n) k")
    case None
    with chained_insert [OF n(3) room None used refl] at show ?thesis by simp
  next
    case (Some w)
    with chained_replace [OF n(3) i] at show ?thesis by simp
  qed
  have ent: "entry ?sl j = (if j = k then Some v else entry (slots n) j)" for j
    using entry_update_new [of "slots n" ?i "fnv1a k" k v j] tok i at kd
    by (auto simp: table_ok_def split: option.splits)
  show ?thesis
  proof (cases "entry (slots n) k")
    case None
    with at have "n_used ?sl = mlen n + 1" using n_used_update [OF i, of "(fnv1a k, k, v)"] n(4) by simp
    with None c n tok ent look show ?thesis by (simp add: env_map_put_def env_map_ok_def mcap_def)
  next
    case (Some w)
    with at have "n_used ?sl = mlen n" using n_used_update [OF i, of "(fnv1a k, k, v)"] n(4) by simp
    with Some c n tok ent look show ?thesis by (simp add: env_map_put_def env_map_ok_def mcap_def)
  qed
qed

section \<open>The map as a kv_map\<close>

definition map_get :: "env_map \<Rightarrow> string \<Rightarrow> string option" where
  "map_get m k = (case env_map_get m k of None \<Rightarrow> None | Some r \<Rightarrow> r)"

definition map_put :: "env_map \<Rightarrow> string \<Rightarrow> string \<Rightarrow> env_map" where
  "map_put m k v = (case env_map_put True m k v of None \<Rightarrow> m | Some m' \<Rightarrow> m')"

lemma map_get_entry: "env_map_ok m \<Longrightarrow> map_get m k = entry (slots m) k"
  by (simp add: map_get_def env_map_get_ok)

lemma map_put_eq: "env_map_ok m \<Longrightarrow> env_map_put True m k v = Some (map_put m k v)"
  using env_map_put_ok [of m k v] by (auto simp: map_put_def)

lemma map_put_get:
  assumes "env_map_ok m"
  shows "env_map_ok (map_put m k v) \<and> map_get (map_put m k v) j = (if j = k then Some v else map_get m j)"
proof -
  from env_map_put_ok [OF assms, of k v] obtain m' where m': "env_map_put True m k v = Some m'" "env_map_ok m'"
    "\<forall>j. entry (slots m') j = (if j = k then Some v else entry (slots m) j)" by blast
  then have "map_put m k v = m'" by (simp add: map_put_def)
  with m' assms show ?thesis by (simp add: map_get_entry)
qed

interpretation envs: kv_map map_get map_put env_map_ok
  by unfold_locales (simp_all add: map_put_get)

section \<open>Properties\<close>

text \<open>
  C15: the hash map is a finite map.  Starting from \<open>env_map_init\<close> and as long as memory lasts,
  after any sequence of \<open>env_map_put\<close> calls \<open>env_map_get\<close> gives for every key the value last
  put under it, or nothing; in particular none of the probing loops runs forever, through all
  growing and rehashing.
\<close>

theorem env_map_is_finite_map:
  "\<exists>m0 m. env_map_init True = Some m0 \<and>
     foldl (\<lambda>m (k, v). case m of None \<Rightarrow> None | Some m \<Rightarrow> env_map_put True m k v) (Some m0) kvs = Some m \<and>
     (\<forall>k. env_map_get m k = Some (map_of (rev kvs) k))"
proof -
  from env_map_init_ok obtain m0 where m0: "env_map_init True = Some m0" "env_map_ok m0" "\<forall>k. entry (slots m0) k = None"
    by blast
  have run: "env_map_ok m \<Longrightarrow> foldl (\<lambda>m (k, v). case m of None \<Rightarrow> None | Some m \<Rightarrow> env_map_put True m k v) (Some m) kvs
      = Some (foldl (\<lambda>m (k, v). map_put m k v) m kvs)" for m
    by (induction kvs arbitrary: m) (auto simp: map_put_eq map_put_get)
  let ?m = "foldl (\<lambda>m (k, v). map_put m k v) m0 kvs"
  have ok: "env_map_ok ?m" by (rule envs.insert_all_inv [OF m0(2)])
  have "map_get ?m k = map_of (rev kvs) k" for k
    unfolding envs.lookup_fold [OF m0(2)] using m0 by (simp add: map_get_entry split: option.splits)
  with ok have "env_map_get ?m k = Some (map_of (rev kvs) k)" for k
    by (simp add: env_map_get_ok flip: map_get_entry)
  with run [OF m0(2)] m0(1) show ?thesis by blast
qed

text \<open>
  A full table is a trap.  If every slot is used (which only a failed allocation in
  \<open>maybe_grow\<close> can lead to), looking up a key that is not in the table never returns.
\<close>

theorem full_table_lookup_diverges:
  assumes "\<forall>s \<in> set (slots m). s \<noteq> None" and "entry (slots m) k = None" and "slots m \<noteq> []"
  shows "map_lookup m (fnv1a k) k = None"
proof (rule ccontr)
  assume "map_lookup m (fnv1a k) k \<noteq> None"
  then obtain b j where r: "map_lookup m (fnv1a k) k = Some (b, j)" by auto
  have start: "unat (fnv1a k) mod mcap m < length (slots m)" using assms(3) by (simp add: mcap_def)
  from r have p: "map_probe (slots m) (fnv1a k) k (unat (fnv1a k) mod mcap m) = Some (b, j)"
    by (simp add: map_lookup_def)
  from map_probe_result [OF p] have "stops (slots m) (fnv1a k) k j" by simp
  moreover have mem: "slots m ! j \<in> set (slots m)" using map_probe_index [OF p] assms(3) start by (intro nth_mem) simp
  ultimately show False using assms(1,2)
    by (cases "slots m ! j") (auto simp: stops_def entry_None)
qed

lemma full_table_lookup_diverges_witness:
  "map_lookup \<lparr>slots = [Some (0, ''a'', ''1''), Some (1, ''b'', ''2'')], mlen = 2\<rparr> (fnv1a ''c'') ''c'' = None"
  by (rule full_table_lookup_diverges) (simp_all add: entry_None)

end
