(* ===== verification/Dec.thy ===== *)
theory Dec
  imports Prelude
begin

text \<open>
  Decimal numbers as the program prints and reads them: \<open>%d\<close> and \<open>%u\<close> of the \<open>printf\<close> family,
  and the accumulation of digits that its hand-written number parsers share.
\<close>

fun dec_nat :: "nat \<Rightarrow> string" where
  "dec_nat n = (if n < 10 then [char_of (48 + n)] else dec_nat (n div 10) @ [char_of (48 + n mod 10)])"

declare dec_nat.simps [simp del]

definition dec_int :: "int \<Rightarrow> string" where
  "dec_int i = (if i < 0 then CHR ''-'' # dec_nat (nat (- i)) else dec_nat (nat i))"

definition is_digit :: "char \<Rightarrow> bool" where
  "is_digit c \<longleftrightarrow> (48 :: nat) \<le> of_char c \<and> of_char c \<le> (57 :: nat)"

definition digit_val :: "char \<Rightarrow> nat" where
  "digit_val c = of_char c - 48"

definition digits_val :: "string \<Rightarrow> nat" where
  "digits_val s = foldl (\<lambda>n c. n * 10 + digit_val c) 0 s"


lemma digit_char: "n < 10 \<Longrightarrow> is_digit (char_of (48 + n)) \<and> digit_val (char_of (48 + n)) = n"
  by (simp add: is_digit_def digit_val_def)

lemma digits_val_append: "digits_val (a @ [c]) = digits_val a * 10 + digit_val c"
  by (simp add: digits_val_def)

text \<open>Printing a number and reading its digits back.\<close>

lemma dec_nat_digits: "dec_nat n \<noteq> [] \<and> (\<forall>c \<in> set (dec_nat n). is_digit c) \<and> digits_val (dec_nat n) = n"
proof (induction n rule: dec_nat.induct)
  case (1 n)
  show ?case
  proof (cases "n < 10")
    case True
    with digit_char [OF this] show ?thesis
      by (simp add: dec_nat.simps [of n] digits_val_def)
  next
    case False
    with 1 digit_char [of "n mod 10"] show ?thesis
      by (simp add: dec_nat.simps [of n] digits_val_append)
  qed
qed

lemma dec_nat_val: "digits_val (dec_nat n) = n"
  using dec_nat_digits by blast

lemma dec_nat_inj: "dec_nat m = dec_nat n \<longleftrightarrow> m = n"
  by (metis dec_nat_val)

lemma dec_nat_nonempty [simp]: "dec_nat n \<noteq> []"
  using dec_nat_digits by blast

lemma dec_nat_is_digit: "c \<in> set (dec_nat n) \<Longrightarrow> is_digit c"
  using dec_nat_digits by blast

section \<open>Parsing a long\<close>

text \<open>
  \<open>strtol (s, &end, 10)\<close>: leading white space, a sign, digits; the value is clamped to 64 bits and
  the second component is where \<open>end\<close> points, 0 when there are no digits.
\<close>

definition is_space :: "char \<Rightarrow> bool" where
  "is_space c \<longleftrightarrow> (of_char c :: nat) = 32 \<or> (9 \<le> (of_char c :: nat) \<and> (of_char c :: nat) \<le> 13)"

definition clamp_long :: "int \<Rightarrow> int" where
  "clamp_long v = max (- (2 ^ 63)) (min v (2 ^ 63 - 1))"

definition strtol10 :: "string \<Rightarrow> int \<times> nat" where
  "strtol10 s =
     (let w = length (takeWhile is_space s);
          t = drop w s;
          neg = (t \<noteq> [] \<and> t ! 0 = CHR ''-'');
          g = (if t \<noteq> [] \<and> (t ! 0 = CHR ''-'' \<or> t ! 0 = CHR ''+'') then 1 else 0);
          ds = takeWhile is_digit (drop g t) in
      if ds = [] then (0, 0)
      else (clamp_long (if neg then - int (digits_val ds) else int (digits_val ds)),
            w + g + length ds))"

lemma digit_not_space: "is_digit c \<Longrightarrow> \<not> is_space c \<and> c \<noteq> CHR ''-'' \<and> c \<noteq> CHR ''+''"
  by (auto simp: is_digit_def is_space_def)

lemma strtol10_digits:
  assumes "ds \<noteq> []" and "\<forall>c \<in> set ds. is_digit c"
  shows "strtol10 ds = (clamp_long (int (digits_val ds)), length ds)"
proof -
  obtain c cs where c: "ds = c # cs" using assms(1) by (cases ds) auto
  with assms digit_not_space [of c] have c1: "\<not> is_space c" "c \<noteq> CHR ''-''" "c \<noteq> CHR ''+''" by auto
  then have "takeWhile is_space ds = []" using c by simp
  moreover have "takeWhile is_digit ds = ds" using assms(2) by (simp add: takeWhile_eq_all_conv)
  ultimately show ?thesis using c c1 by (auto simp: strtol10_def Let_def)
qed

lemma strtol10_dec_nat:
  assumes "n < 2 ^ 63"
  shows "strtol10 (dec_nat n) = (int n, length (dec_nat n))"
proof -
  have "int n \<le> 2 ^ 63 - 1" using assms by simp
  then have "clamp_long (int n) = int n" by (simp add: clamp_long_def)
  then show ?thesis using strtol10_digits [of "dec_nat n"] dec_nat_is_digit by (simp add: dec_nat_val)
qed

end
