(* ===== verification/Env.thy ===== *)
theory Env
  imports EnvMap Mem Dec
begin

text \<open>
  The guest environment (\<^verbatim>\<open>src/util/env.c\<close>): defaults, the \<open>KEY=value\<close> arguments, the GUI
  variables, and those inherited from a running sandbox.  \<open>getenv\<close> and the existence of a path
  are parameters.  The map operations run with successful allocations (\<open>ok\<close> is True); their
  result is \<open>None\<close> only if a probing loop does not end, which the invariant of the map excludes.
  The six \<open>char *\<close> fields that \<open>try_any\<close> indexes as an array are a list.
\<close>

section \<open>Fields and defaults\<close>

record env_t =
  efields :: "string option list"   \<comment> \<open>\<open>path, term, lang, home, shell, user\<close>\<close>
  guest_shell_override :: bool
  host_xdg :: "string option"
  host_home :: "string option"
  emap :: env_map

definition DEF_PATH :: string where
  "DEF_PATH = ''PATH=/bin:/sbin:/usr/bin:/usr/sbin:/usr/local/bin:/usr/local/sbin''"
definition DEF_TERM :: string where "DEF_TERM = ''TERM=linux''"
definition DEF_LANG :: string where "DEF_LANG = ''LANG=C''"

definition EQ_CH :: char where "EQ_CH = CHR ''=''"

definition sync_field :: "env_map \<Rightarrow> string option \<Rightarrow> env_map option" where
  "sync_field m kv =
     (case kv of
        None \<Rightarrow> Some m
      | Some s \<Rightarrow>
          (case strchr_pos EQ_CH s of
             None \<Rightarrow> Some m
           | Some i \<Rightarrow>
               if i \<ge> 128 then Some m else env_map_put True m (take i s) (drop (i + 1) s)))"

definition default_field :: "(string \<Rightarrow> string option) \<Rightarrow> string \<Rightarrow> string \<Rightarrow> string" where
  "default_field host key deflt = (case host key of Some t \<Rightarrow> key @ ''='' @ t | None \<Rightarrow> deflt)"

definition set_default_env :: "(string \<Rightarrow> string option) \<Rightarrow> env_t \<Rightarrow> env_t" where
  "set_default_env host e =
     (let f = efields e;
          f = (if f ! 0 = None then f[0 := Some DEF_PATH] else f);
          f = (if f ! 1 = None then f[1 := Some (default_field host ''TERM'' DEF_TERM)] else f);
          f = (if f ! 2 = None then f[2 := Some (default_field host ''LANG'' DEF_LANG)] else f)
      in e\<lparr>efields := f\<rparr>)"

section \<open>GUI variables\<close>

definition has_path :: "(string \<Rightarrow> bool) \<Rightarrow> string \<Rightarrow> string \<Rightarrow> bool" where
  "has_path ex d s = ex (d @ s)"

fun put_list :: "(string \<times> string) list \<Rightarrow> env_map \<Rightarrow> env_map option" where
  "put_list [] m = Some m"
| "put_list ((k, v) # kvs) m =
     (case env_map_put True m k v of None \<Rightarrow> None | Some m' \<Rightarrow> put_list kvs m')"

definition wl_vars :: "(string \<Rightarrow> string option) \<Rightarrow> (string \<times> string) list" where
  "wl_vars host =
     [(''XDG_SESSION_TYPE'', ''wayland''), (''GDK_BACKEND'', ''wayland''),
      (''QT_QPA_PLATFORM'', ''wayland-egl''), (''SDL_VIDEODRIVER'', ''wayland''),
      (''CLUTTER_BACKEND'', ''wayland''), (''MOZ_ENABLE_WAYLAND'', ''1''),
      (''_JAVA_AWT_WM_NONREPARENTING'', ''1''),
      (''XDG_CURRENT_DESKTOP'', case host ''XDG_CURRENT_DESKTOP'' of Some d \<Rightarrow> d | None \<Rightarrow> ''wlroots'')]"

definition add_wl_vars :: "(string \<Rightarrow> string option) \<Rightarrow> env_map \<Rightarrow> string \<Rightarrow> env_map option" where
  "add_wl_vars host m wl =
     (case env_map_ensure True m ''WAYLAND_DISPLAY'' (Some wl) of
        None \<Rightarrow> None
      | Some m' \<Rightarrow> put_list (wl_vars host) m')"

definition detect_xdg_gui ::
    "(string \<Rightarrow> string option) \<Rightarrow> (string \<Rightarrow> bool) \<Rightarrow> string \<Rightarrow> env_map \<Rightarrow> string option \<Rightarrow> env_map option" where
  "detect_xdg_gui host ex xrd m host_wl =
     (let wn = (case host_wl of Some w \<Rightarrow> w | None \<Rightarrow> ''wayland-0'');
          wls = take 63 (''/'' @ wn);
          wl = has_path ex xrd wls;
          pa = has_path ex xrd ''/pulse''
      in case (if wl \<or> pa then env_map_ensure True m ''XDG_RUNTIME_DIR'' (Some xrd) else Some m) of
           None \<Rightarrow> None
         | Some m' \<Rightarrow> if wl then add_wl_vars host m' wn else Some m')"

definition get_host_xdg_dir :: "(string \<Rightarrow> string option) \<Rightarrow> nat \<Rightarrow> nat \<Rightarrow> string" where
  "get_host_xdg_dir host sz ruid =
     (case host ''XDG_RUNTIME_DIR'' of
        Some (c # x) \<Rightarrow> c # x
      | _ \<Rightarrow>
          (case host ''SUDO_UID'' of
             Some su \<Rightarrow> take (sz - 1) (''/run/user/'' @ su)
           | None \<Rightarrow> take (sz - 1) (''/run/user/'' @ dec_nat ruid)))"

definition env_set_gui_envs ::
    "(string \<Rightarrow> string option) \<Rightarrow> (string \<Rightarrow> bool) \<Rightarrow> env_t \<Rightarrow> string option \<Rightarrow> int \<Rightarrow> string option \<Rightarrow> nat \<Rightarrow> env_t option" where
  "env_set_gui_envs host ex e display guest_x11num host_wl ruid =
     (case (case display of
              Some (c # d) \<Rightarrow> env_map_ensure True (emap e) ''DISPLAY'' (Some (c # d))
            | _ \<Rightarrow>
                if guest_x11num \<ge> 0
                then env_map_ensure True (emap e) ''DISPLAY'' (Some ('':'' @ dec_int guest_x11num @ ''.0''))
                else Some (emap e)) of
        None \<Rightarrow> None
      | Some m \<Rightarrow>
          let xrd = (case host_xdg e of Some x \<Rightarrow> x | None \<Rightarrow> get_host_xdg_dir host 64 ruid) in
          (case detect_xdg_gui host ex xrd m host_wl of
             None \<Rightarrow> None
           | Some m' \<Rightarrow> Some (e\<lparr>host_xdg := Some xrd, emap := m'\<rparr>)))"

definition gui_keys :: "string list" where
  "gui_keys =
     [''DISPLAY'', ''XDG_RUNTIME_DIR'', ''WAYLAND_DISPLAY'', ''PULSE_SERVER'', ''PULSE_COOKIE'',
      ''XDG_SESSION_TYPE'', ''XDG_CURRENT_DESKTOP'', ''GDK_BACKEND'', ''QT_QPA_PLATFORM'',
      ''SDL_VIDEODRIVER'', ''CLUTTER_BACKEND'', ''MOZ_ENABLE_WAYLAND'',
      ''_JAVA_AWT_WM_NONREPARENTING'']"

definition key_is_gui :: "string \<Rightarrow> bool" where
  "key_is_gui key = list_ex (\<lambda>k. k = key) gui_keys"

text \<open>
  The blob is a run of C strings, each followed by a NUL, ended by an empty one (the end of the
  list reads as NUL).
\<close>

definition inherit_one :: "env_map \<Rightarrow> string \<Rightarrow> env_map option" where
  "inherit_one m s =
     (case strchr_pos EQ_CH s of
        Some i \<Rightarrow>
          if i < 128 \<and> key_is_gui (take i s)
          then env_map_ensure True m (take i s) (Some (drop (i + 1) s)) else Some m
      | None \<Rightarrow> Some m)"

function inherit_loop :: "env_map \<Rightarrow> string \<Rightarrow> env_map option" where
  "inherit_loop m blob =
     (let s = takeWhile (\<lambda>c. c \<noteq> NUL) blob in
      if s = [] then Some m
      else (case inherit_one m s of
              None \<Rightarrow> None
            | Some m' \<Rightarrow> inherit_loop m' (drop (length s + 1) blob)))"
  by pat_completeness auto
termination by (relation "measure (\<lambda>(m, blob). length blob)") (auto intro!: diff_less)

declare inherit_loop.simps [simp del]

definition env_inherit_gui :: "env_map \<Rightarrow> string option \<Rightarrow> env_map option" where
  "env_inherit_gui m blob = (case blob of None \<Rightarrow> Some m | Some b \<Rightarrow> inherit_loop m b)"

section \<open>The arguments\<close>

definition field_keys :: "string list" where
  "field_keys = [''PATH'', ''TERM'', ''LANG'', ''HOME'', ''SHELL'', ''USER'']"

fun try_fields :: "string \<Rightarrow> string list \<Rightarrow> nat \<Rightarrow> string option list \<Rightarrow> string option list" where
  "try_fields e [] i f = f"
| "try_fields e (k # ks) i f =
     (if starts_with (k @ ''='') e then f[i := Some e] else try_fields e ks (i + 1) f)"

definition try_any :: "string \<Rightarrow> env_t \<Rightarrow> env_t" where
  "try_any e env = env\<lparr>efields := try_fields e field_keys 0 (efields env)\<rparr>"

datatype env_error = InvalidEnv string

definition parse_one_env :: "string \<Rightarrow> env_t \<Rightarrow> (env_error + env_t) option" where
  "parse_one_env e env =
     (case strchr_pos EQ_CH e of
        None \<Rightarrow> Some (Inl (InvalidEnv e))
      | Some i \<Rightarrow>
          let env = try_any e env in
          (case env_map_put True (emap env) (take i e) (drop (i + 1) e) of
             None \<Rightarrow> None
           | Some m \<Rightarrow> Some (Inr (env\<lparr>emap := m\<rparr>))))"

definition shell_not_given :: "env_t \<Rightarrow> bool" where
  "shell_not_given env =
     (case efields env ! 4 of None \<Rightarrow> True | Some s \<Rightarrow> length s \<le> 6)"

fun parse_all :: "string list \<Rightarrow> env_t \<Rightarrow> (env_error + env_t) option" where
  "parse_all [] env = Some (Inr env)"
| "parse_all (e # es) env =
     (case parse_one_env e env of
        None \<Rightarrow> None
      | Some (Inl err) \<Rightarrow> Some (Inl err)
      | Some (Inr env') \<Rightarrow> parse_all es env')"

definition parse_envs :: "(string \<Rightarrow> string option) \<Rightarrow> string list \<Rightarrow> (env_error + env_t) option" where
  "parse_envs host envs =
     (case env_map_init True of
        None \<Rightarrow> None
      | Some m \<Rightarrow>
          let e = set_default_env host
                    \<lparr>efields = replicate 6 None, guest_shell_override = False, host_xdg = None, host_home = None, emap = m\<rparr>
          in
          (case sync_field m (efields e ! 0) of
             None \<Rightarrow> None
           | Some m1 \<Rightarrow>
               (case sync_field m1 (efields e ! 1) of
                  None \<Rightarrow> None
                | Some m2 \<Rightarrow>
                    (case sync_field m2 (efields e ! 2) of
                       None \<Rightarrow> None
                     | Some m3 \<Rightarrow>
                         (case parse_all envs (e\<lparr>emap := m3\<rparr>) of
                            None \<Rightarrow> None
                          | Some (Inl err) \<Rightarrow> Some (Inl err)
                          | Some (Inr env) \<Rightarrow>
                              Some (Inr (env\<lparr>guest_shell_override := shell_not_given env\<rparr>)))))))"

section \<open>What ends up in the map\<close>

text \<open>An assignment split at its first equals sign.\<close>

definition split_kv :: "string \<Rightarrow> string \<times> string" where
  "split_kv s = (let i = length (takeWhile (\<lambda>c. c \<noteq> EQ_CH) s) in (take i s, drop (i + 1) s))"

lemma strchr_split: "EQ_CH \<in> set s \<Longrightarrow> \<exists>i. strchr_pos EQ_CH s = Some i \<and> split_kv s = (take i s, drop (i + 1) s)"
proof (induction s)
  case (Cons c s)
  then show ?case
    by (cases "c = EQ_CH") (auto simp: split_kv_def Let_def)
qed simp

lemma put_list_map: "env_map_ok m \<Longrightarrow> put_list kvs m = Some (foldl (\<lambda>m (k, v). map_put m k v) m kvs)"
  by (induction kvs arbitrary: m) (auto simp: map_put_eq map_put_get)

lemma parse_all_map:
  assumes "\<forall>e \<in> set es. EQ_CH \<in> set e" and "env_map_ok (emap env)"
  shows "\<exists>env'. parse_all es env = Some (Inr env') \<and>
    emap env' = foldl (\<lambda>m (k, v). map_put m k v) (emap env) (map split_kv es)"
  using assms
proof (induction es arbitrary: env)
  case (Cons e es)
  then obtain i where i: "strchr_pos EQ_CH e = Some i" "split_kv e = (take i e, drop (i + 1) e)"
    using strchr_split [of e] by auto
  let ?m = "map_put (emap env) (take i e) (drop (i + 1) e)"
  have ok: "env_map_ok ?m" using Cons.prems(2) map_put_get by blast
  have "parse_one_env e env = Some (Inr ((try_any e env)\<lparr>emap := ?m\<rparr>))"
    using i Cons.prems(2) by (simp add: parse_one_env_def map_put_eq try_any_def)
  with Cons.IH [of "(try_any e env)\<lparr>emap := ?m\<rparr>"] Cons.prems ok i show ?case by simp
qed simp

lemma parse_all_error:
  assumes "\<exists>e \<in> set es. EQ_CH \<notin> set e" and "env_map_ok (emap env)"
  shows "\<exists>e \<in> set es. EQ_CH \<notin> set e \<and> parse_all es env = Some (Inl (InvalidEnv e))"
  using assms
proof (induction es arbitrary: env)
  case (Cons e es)
  show ?case
  proof (cases "EQ_CH \<in> set e")
    case True
    then obtain i where i: "strchr_pos EQ_CH e = Some i" using strchr_split [of e] by auto
    let ?m = "map_put (emap env) (take i e) (drop (i + 1) e)"
    have ok: "env_map_ok ?m" using Cons.prems(2) map_put_get by blast
    have "parse_one_env e env = Some (Inr ((try_any e env)\<lparr>emap := ?m\<rparr>))"
      using i Cons.prems(2) by (simp add: parse_one_env_def map_put_eq try_any_def)
    with Cons.IH [of "(try_any e env)\<lparr>emap := ?m\<rparr>"] Cons.prems ok True show ?thesis by auto
  next
    case False
    then show ?thesis by (simp add: parse_one_env_def)
  qed
qed simp

definition default_kvs :: "(string \<Rightarrow> string option) \<Rightarrow> (string \<times> string) list" where
  "default_kvs host =
     [(''PATH'', ''/bin:/sbin:/usr/bin:/usr/sbin:/usr/local/bin:/usr/local/sbin''),
      (''TERM'', case host ''TERM'' of Some t \<Rightarrow> t | None \<Rightarrow> ''linux''),
      (''LANG'', case host ''LANG'' of Some l \<Rightarrow> l | None \<Rightarrow> ''C'')]"

lemma sync_default:
  assumes "env_map_ok m" and "EQ_CH \<notin> set k" and "length k < 128"
  shows "sync_field m (Some (k @ ''='' @ v)) = Some (map_put m k v)"
proof -
  have "strchr_pos EQ_CH (k @ ''='' @ v) = Some (length k)"
    using assms(2) by (induction k) (auto simp: EQ_CH_def)
  with assms show ?thesis by (simp add: sync_field_def map_put_eq)
qed

lemma parse_envs_map:
  "if \<forall>e \<in> set envs. EQ_CH \<in> set e
   then \<exists>env. parse_envs host envs = Some (Inr env) \<and> env_map_ok (emap env) \<and>
          (\<forall>k. env_map_get (emap env) k = Some (map_of (rev (default_kvs host @ map split_kv envs)) k))
   else \<exists>e \<in> set envs. EQ_CH \<notin> set e \<and> parse_envs host envs = Some (Inl (InvalidEnv e))"
proof -
  from env_map_init_ok obtain m0 where m0: "env_map_init True = Some m0" "env_map_ok m0" "\<forall>k. entry (slots m0) k = None"
    by blast
  let ?m3 = "foldl (\<lambda>m (k, v). map_put m k v) m0 (default_kvs host)"
  have d: "default_field host ''TERM'' DEF_TERM = ''TERM'' @ ''='' @ (case host ''TERM'' of Some t \<Rightarrow> t | None \<Rightarrow> ''linux'')"
    "default_field host ''LANG'' DEF_LANG = ''LANG'' @ ''='' @ (case host ''LANG'' of Some t \<Rightarrow> t | None \<Rightarrow> ''C'')"
    "DEF_PATH = ''PATH'' @ ''='' @ ''/bin:/sbin:/usr/bin:/usr/sbin:/usr/local/bin:/usr/local/sbin''"
    by (simp_all add: default_field_def DEF_TERM_def DEF_LANG_def DEF_PATH_def split: option.splits)
  have sy: "sync_field m (Some (k @ ''='' @ v)) = Some (map_put m k v)"
    if "env_map_ok m" "k \<in> {''PATH'', ''TERM'', ''LANG''}" for m k v
    using that by (intro sync_default) (auto simp: EQ_CH_def)
  note put = map_put_get [THEN conjunct1]
  have ok: "env_map_ok ?m3" using envs.insert_all_inv [OF m0(2)] by simp
  let ?e = "set_default_env host \<lparr>efields = replicate 6 None, guest_shell_override = False, host_xdg = None, host_home = None, emap = m0\<rparr>"
  have f: "efields ?e ! 0 = Some DEF_PATH" "efields ?e ! 1 = Some (default_field host ''TERM'' DEF_TERM)"
    "efields ?e ! 2 = Some (default_field host ''LANG'' DEF_LANG)"
    by (simp_all add: set_default_env_def Let_def numeral_eq_Suc)
  have p: "parse_envs host envs = (case parse_all envs (?e\<lparr>emap := ?m3\<rparr>) of
      None \<Rightarrow> None | Some (Inl err) \<Rightarrow> Some (Inl err)
    | Some (Inr env) \<Rightarrow> Some (Inr (env\<lparr>guest_shell_override := shell_not_given env\<rparr>)))"
    unfolding parse_envs_def m0(1) Let_def option.case f d
    by (subst sy, rule m0(2), simp, unfold option.case, subst sy, rule put, rule m0(2), simp, unfold option.case,
        subst sy, rule put, rule put, rule m0(2), simp, unfold option.case) (simp add: default_kvs_def)
  show ?thesis
  proof (cases "\<forall>e \<in> set envs. EQ_CH \<in> set e")
    case True
    with parse_all_map [of envs "?e\<lparr>emap := ?m3\<rparr>"] ok obtain env where
      r: "parse_all envs (?e\<lparr>emap := ?m3\<rparr>) = Some (Inr env)"
      "emap env = foldl (\<lambda>m (k, v). map_put m k v) m0 (default_kvs host @ map split_kv envs)" by auto
    have "env_map_ok (emap env)" unfolding r(2) by (rule envs.insert_all_inv [OF m0(2)])
    moreover have "map_get (emap env) k = map_of (rev (default_kvs host @ map split_kv envs)) k" for k
      unfolding r(2) envs.lookup_fold [OF m0(2)] using m0(2,3) by (simp add: map_get_entry map_add_def split: option.splits)
    ultimately have "env_map_ok (emap env) \<and> env_map_get (emap env) k = Some (map_of (rev (default_kvs host @ map split_kv envs)) k)" for k
      by (simp add: env_map_get_ok flip: map_get_entry)
    with True r(1) show ?thesis by (simp add: p)
  next
    case False
    with parse_all_error [of envs "?e\<lparr>emap := ?m3\<rparr>"] ok obtain e where
      "e \<in> set envs" "EQ_CH \<notin> set e" "parse_all envs (?e\<lparr>emap := ?m3\<rparr>) = Some (Inl (InvalidEnv e))" by auto
    with False show ?thesis by (auto simp: p)
  qed
qed

section \<open>Properties\<close>

text \<open>
  C28: the environment of the guest is the last assignment of each variable.  If every argument
  contains an equals sign, \<open>parse_envs\<close> succeeds, and looking up any variable afterwards gives
  the value of its last assignment among the arguments, or else the default of PATH, TERM and
  LANG, or else nothing, regardless of hash collisions and of how often the table grew.
  Otherwise it fails and reports an argument without an equals sign.
\<close>

theorem parse_envs_last_assignment:
  "if \<forall>e \<in> set envs. EQ_CH \<in> set e
   then \<exists>env. parse_envs host envs = Some (Inr env) \<and>
          (\<forall>k. env_map_get (emap env) k = Some (map_of (rev (default_kvs host @ map split_kv envs)) k))
   else \<exists>e \<in> set envs. EQ_CH \<notin> set e \<and> parse_envs host envs = Some (Inl (InvalidEnv e))"
  using parse_envs_map [of envs host] by (auto split: if_splits)

lemma parse_envs_last_assignment_witness:
  "\<exists>env. parse_envs (\<lambda>_. None) [''A=1'', ''PATH=/x'', ''A=2''] = Some (Inr env) \<and>
     env_map_get (emap env) ''A'' = Some (Some ''2'') \<and> env_map_get (emap env) ''PATH'' = Some (Some ''/x'') \<and>
     env_map_get (emap env) ''LANG'' = Some (Some ''C'') \<and> env_map_get (emap env) ''B'' = Some None"
  using parse_envs_last_assignment [of "[''A=1'', ''PATH=/x'', ''A=2'']" "\<lambda>_. None"]
  by (auto simp: EQ_CH_def default_kvs_def split_kv_def)

lemma ensure_put_absent:
  assumes "env_map_ok m"
  shows "env_map_ensure True m k v = Some (case v of None \<Rightarrow> m | Some w \<Rightarrow> if w = [] then m else envs.put_absent m k w)"
  using assms
  by (auto simp: env_map_ensure_def envs.put_absent_def env_map_get_ok map_get_entry map_put_eq split: option.splits)

text \<open>Inheriting only adds GUI variables that are not there yet.\<close>

definition only_adds_gui :: "env_map \<Rightarrow> env_map \<Rightarrow> bool" where
  "only_adds_gui m m' \<longleftrightarrow> env_map_ok m' \<and>
     (\<forall>k. map_get m' k = map_get m k \<or> (map_get m k = None \<and> key_is_gui k))"

lemma inherit_one_adds:
  assumes "env_map_ok m"
  shows "\<exists>m'. inherit_one m s = Some m' \<and> only_adds_gui m m'"
  using assms envs.put_absent_inv [OF assms] envs.put_absent_lookup [OF assms]
  by (auto simp: inherit_one_def ensure_put_absent only_adds_gui_def split: option.splits)

lemma inherit_loop_adds:
  "env_map_ok m \<Longrightarrow> \<exists>m'. inherit_loop m blob = Some m' \<and> only_adds_gui m m'"
proof (induction m blob rule: inherit_loop.induct)
  case (1 m blob)
  let ?s = "takeWhile (\<lambda>c. c \<noteq> NUL) blob"
  show ?case
  proof (cases "?s = []")
    case True
    then have "inherit_loop m blob = Some m" by (subst inherit_loop.simps) simp
    with "1.prems" show ?thesis by (simp add: only_adds_gui_def)
  next
    case False
    from inherit_one_adds [OF "1.prems", of ?s] obtain m1 where m1: "inherit_one m ?s = Some m1" "only_adds_gui m m1" by blast
    then have step: "inherit_loop m blob = inherit_loop m1 (drop (length ?s + 1) blob)"
      using False by (subst inherit_loop.simps) (simp add: Let_def)
    from m1(2) have "env_map_ok m1" by (simp add: only_adds_gui_def)
    from "1.IH" [OF refl False m1(1) this] obtain m2 where "inherit_loop m blob = Some m2" "only_adds_gui m1 m2"
      unfolding step by blast
    with m1(2) show ?thesis by (auto simp: only_adds_gui_def) (metis)+
  qed
qed

text \<open>
  Inheriting the environment of a running sandbox never overrides anything.  Whatever the
  blob holds, \<open>env_inherit_gui\<close> ends, every variable that was set keeps its value, and the only
  variables it can add are the GUI ones.
\<close>

theorem env_inherit_gui_only_adds:
  assumes "env_map_ok m"
  shows "\<exists>m'. env_inherit_gui m blob = Some m' \<and> env_map_ok m' \<and>
    (\<forall>k v. env_map_get m k = Some (Some v) \<longrightarrow> env_map_get m' k = Some (Some v)) \<and>
    (\<forall>k. \<not> key_is_gui k \<longrightarrow> env_map_get m' k = env_map_get m k)"
proof (cases blob)
  case None
  with assms show ?thesis by (simp add: env_inherit_gui_def)
next
  case (Some b)
  from inherit_loop_adds [OF assms, of b] obtain m' where
    m': "inherit_loop m b = Some m'" "env_map_ok m'"
    "\<forall>k. map_get m' k = map_get m k \<or> (map_get m k = None \<and> key_is_gui k)"
    by (auto simp: only_adds_gui_def)
  then have "\<forall>k. entry (slots m') k = entry (slots m) k \<or> (entry (slots m) k = None \<and> key_is_gui k)"
    using assms by (simp add: map_get_entry)
  with m'(1,2) assms Some show ?thesis
    by (auto simp: env_inherit_gui_def env_map_get_ok) (metis option.distinct(1))+
qed

lemma env_inherit_gui_only_adds_witness:
  "\<exists>m m'. env_map_init True = Some m \<and> env_inherit_gui m (Some (''LD_PRELOAD=x'' @ NUL # ''DISPLAY=:0'' @ [NUL])) = Some m' \<and>
     env_map_get m' ''LD_PRELOAD'' = Some None"
proof -
  from env_map_init_ok obtain m where m: "env_map_init True = Some m" "env_map_ok m" "\<forall>k. entry (slots m) k = None" by blast
  have "\<not> key_is_gui ''LD_PRELOAD''" by (simp add: key_is_gui_def gui_keys_def)
  with env_inherit_gui_only_adds [OF m(2), of "Some (''LD_PRELOAD=x'' @ NUL # ''DISPLAY=:0'' @ [NUL])"] m
  show ?thesis by (auto simp: env_map_get_ok)
qed

end
