(* ===== verification/IoCache.thy ===== *)
theory IoCache
  imports Store
begin

text \<open>
  The existence cache (\<^verbatim>\<open>src/util/io_cache.c\<close>): 32 entries, searched from the front; when all
  are taken the first one is evicted.  Changing the file system at a path has to drop every
  entry at, above or below that path.  The result of \<open>access\<close> is a parameter: 0, or the
  \<open>errno\<close> class.
\<close>

type_synonym cache_ent = "(string \<times> int) option"

definition IO_CACHE_MAX :: nat where "IO_CACHE_MAX = 32"

definition io_cache0 :: "cache_ent list" where
  "io_cache0 = replicate IO_CACHE_MAX None"

fun find_from :: "(cache_ent \<Rightarrow> bool) \<Rightarrow> cache_ent list \<Rightarrow> nat \<Rightarrow> int" where
  "find_from P [] i = -1"
| "find_from P (e # es) i = (if P e then int i else find_from P es (i + 1))"

definition ent_is :: "string \<Rightarrow> cache_ent \<Rightarrow> bool" where
  "ent_is path e = (case e of None \<Rightarrow> False | Some (p, r) \<Rightarrow> p = path)"

fun io_cache_lookup :: "cache_ent list \<Rightarrow> string \<Rightarrow> int" where
  "io_cache_lookup [] path = 2"
| "io_cache_lookup (e # es) path =
     (case e of
        None \<Rightarrow> io_cache_lookup es path
      | Some (p, r) \<Rightarrow> if p = path then r else io_cache_lookup es path)"

definition io_cache_find :: "cache_ent list \<Rightarrow> string \<Rightarrow> int" where
  "io_cache_find c path = find_from (ent_is path) c 0"

definition io_cache_empty :: "cache_ent list \<Rightarrow> int" where
  "io_cache_empty c = find_from (\<lambda>e. e = None) c 0"

definition io_cache_store :: "cache_ent list \<Rightarrow> string \<Rightarrow> int \<Rightarrow> cache_ent list" where
  "io_cache_store c path res =
     (let i = io_cache_find c path in
      if i \<ge> 0 then c[nat i := map_option (\<lambda>(p, _). (p, res)) (c ! nat i)]
      else
        let i = io_cache_empty c; i = (if i < 0 then 0 else i)
        in c[nat i := Some (path, res)])"

datatype access_res = AccessOk | AccessAbsent | AccessFails

definition io_exists :: "(string \<Rightarrow> access_res) \<Rightarrow> cache_ent list \<Rightarrow> string \<Rightarrow> int \<times> cache_ent list" where
  "io_exists acc c path =
     (let r = io_cache_lookup c path in
      if r \<noteq> 2 then (r, c)
      else
        let res = (case acc path of AccessOk \<Rightarrow> 0 | AccessAbsent \<Rightarrow> 1 | AccessFails \<Rightarrow> -1)
        in (res, if res \<ge> 0 then io_cache_store c path res else c))"

definition is_prefix_dir :: "string \<Rightarrow> string \<Rightarrow> bool" where
  "is_prefix_dir prefix path \<longleftrightarrow>
     length prefix < length path \<and> take (length prefix) path = prefix \<and> path ! length prefix = CHR ''/''"

definition path_is_related :: "string \<Rightarrow> string \<Rightarrow> bool" where
  "path_is_related a b \<longleftrightarrow> a = b \<or> is_prefix_dir a b \<or> is_prefix_dir b a"

definition io_cache_invalidate :: "cache_ent list \<Rightarrow> string option \<Rightarrow> cache_ent list" where
  "io_cache_invalidate c path =
     (case path of
        None \<Rightarrow> c
      | Some p \<Rightarrow>
          map (\<lambda>e. case e of None \<Rightarrow> None
                 | Some (q, r) \<Rightarrow> if path_is_related q p then None else Some (q, r)) c)"

section \<open>The cache as a store\<close>

definition cache_ok :: "cache_ent list \<Rightarrow> bool" where
  "cache_ok c \<longleftrightarrow> length c = 32 \<and> (\<forall>i j p r s. i < length c \<longrightarrow> j < length c \<longrightarrow>
     c ! i = Some (p, r) \<longrightarrow> c ! j = Some (p, s) \<longrightarrow> i = j)"

definition cached :: "cache_ent list \<Rightarrow> string \<Rightarrow> int option" where
  "cached c path = map_of [(p, r). Some (p, r) \<leftarrow> c] path"

lemma lookup_cached: "io_cache_lookup c path = (case cached c path of None \<Rightarrow> 2 | Some r \<Rightarrow> r)"
  by (induction c) (auto simp: cached_def split: option.splits)

lemma find_from_spec:
  "(find_from P es i = -1 \<and> (\<forall>e \<in> set es. \<not> P e)) \<or>
   (\<exists>j < length es. find_from P es i = int (i + j) \<and> P (es ! j))"
proof (induction es arbitrary: i)
  case (Cons e es)
  from Cons.IH [of "i + 1"] show ?case
    by (auto intro: exI [of _ 0] exI [of _ "Suc j" for j])
qed simp

lemma cached_set: "(p, r) \<in> set [(p, r). Some (p, r) \<leftarrow> c] \<longleftrightarrow> Some (p, r) \<in> set c"
  by (induction c) (auto split: option.splits)

lemma cached_None: "cached c p = None \<longleftrightarrow> (\<forall>r. Some (p, r) \<notin> set c)"
  unfolding cached_def by (induction c) (auto split: option.splits)

lemma cached_Some:
  assumes "cache_ok c"
  shows "cached c p = Some r \<longleftrightarrow> Some (p, r) \<in> set c"
proof
  assume "cached c p = Some r"
  then show "Some (p, r) \<in> set c" unfolding cached_def by (simp only: cached_set flip: cached_set) (rule map_of_SomeD)
next
  assume r: "Some (p, r) \<in> set c"
  then obtain s where s: "cached c p = Some s" using cached_None [of c p] by auto
  then have "(p, s) \<in> set [(p, r). Some (p, r) \<leftarrow> c]" unfolding cached_def by (rule map_of_SomeD)
  then have "Some (p, s) \<in> set c" by (simp only: cached_set)
  with r assms have "r = s" unfolding cache_ok_def in_set_conv_nth by (metis option.inject prod.inject)
  with s show "cached c p = Some r" by simp
qed

text \<open>Storing puts the entry at one index that no other entry for the path occupies.\<close>

lemma io_cache_store_at:
  assumes "cache_ok c"
  shows "\<exists>i < length c. io_cache_store c path res = c[i := Some (path, res)] \<and>
    (\<forall>j r. j < length c \<longrightarrow> j \<noteq> i \<longrightarrow> c ! j \<noteq> Some (path, r))"
proof -
  have len: "length c = 32" using assms by (simp add: cache_ok_def)
  have ent: "ent_is path e \<longleftrightarrow> (\<exists>r. e = Some (path, r))" for e
    by (auto simp: ent_is_def split: option.splits)
  from find_from_spec [of "ent_is path" c 0] show ?thesis
  proof (elim disjE exE conjE)
    assume none: "find_from (ent_is path) c 0 = - 1" "\<forall>e \<in> set c. \<not> ent_is path e"
    have no: "c ! j \<noteq> Some (path, r)" if "j < length c" for j r
      using none(2) nth_mem [OF that] ent by force
    from find_from_spec [of "\<lambda>e. e = None" c 0] show ?thesis
    proof (elim disjE exE conjE)
      assume "find_from (\<lambda>e. e = None) c 0 = - 1"
      then show ?thesis using none(1) len no
        by (intro exI [of _ 0]) (simp add: io_cache_store_def io_cache_find_def io_cache_empty_def)
    next
      fix j
      assume "j < length c" "find_from (\<lambda>e. e = None) c 0 = int (0 + j)"
      then show ?thesis using none(1) no
        by (intro exI [of _ j]) (simp add: io_cache_store_def io_cache_find_def io_cache_empty_def)
    qed
  next
    fix i
    assume i: "i < length c" "find_from (ent_is path) c 0 = int (0 + i)" "ent_is path (c ! i)"
    then obtain r where r: "c ! i = Some (path, r)" using ent by blast
    have uniq: "j = i" if "j < length c" "c ! j = Some (path, s)" for j s
      using assms that i(1) r unfolding cache_ok_def by blast
    have "io_cache_store c path res = c[i := Some (path, res)]"
      using i(2) r by (simp add: io_cache_store_def io_cache_find_def)
    with i(1) uniq show ?thesis by blast
  qed
qed


lemma io_cache_store_ok:
  assumes "cache_ok c"
  shows "cache_ok (io_cache_store c path res) \<and> cached (io_cache_store c path res) path = Some res \<and>
    (q \<noteq> path \<longrightarrow> cached (io_cache_store c path res) q \<in> {cached c q, None})"
proof -
  from io_cache_store_at [OF assms] obtain i where i: "i < length c"
    "io_cache_store c path res = c[i := Some (path, res)]"
    "\<forall>j r. j < length c \<longrightarrow> j \<noteq> i \<longrightarrow> c ! j \<noteq> Some (path, r)" by blast
  let ?c = "c[i := Some (path, res)]"
  have ok: "cache_ok ?c"
    using assms i(1,3) unfolding cache_ok_def by (auto simp: nth_list_update split: if_splits)
  have "Some (path, res) \<in> set ?c" using i(1) by (simp add: set_update_memI)
  then have same: "cached ?c path = Some res" using cached_Some [OF ok] by simp
  have "cached ?c q \<in> {cached c q, None}" if "q \<noteq> path"
  proof (cases "cached ?c q")
    case (Some r)
    then have "Some (q, r) \<in> set ?c" using cached_Some [OF ok] by simp
    then have "Some (q, r) \<in> set c" using that set_update_subset_insert by fastforce
    then show ?thesis using Some cached_Some [OF assms, of q r] by simp
  qed simp
  with ok same i(2) show ?thesis by simp
qed

interpretation cache: store cached io_cache_store cache_ok
  by unfold_locales (use io_cache_store_ok in blast)+

lemma cache_ok_invalidate: "cache_ok c \<Longrightarrow> cache_ok (io_cache_invalidate c p)"
proof -
  assume ok: "cache_ok c"
  have "c ! i = Some (q, r)" if "i < length c" "io_cache_invalidate c p ! i = Some (q, r)" for i q r
    using that by (auto simp: io_cache_invalidate_def split: option.splits if_splits)
  moreover have "length (io_cache_invalidate c p) = length c" by (simp add: io_cache_invalidate_def split: option.splits)
  ultimately show ?thesis using ok unfolding cache_ok_def by metis
qed

lemma cached_invalidate:
  assumes "cache_ok c"
  shows "cached (io_cache_invalidate c (Some p)) q = (if path_is_related q p then None else cached c q)"
proof -
  have mem: "Some (q, r) \<in> set (io_cache_invalidate c (Some p)) \<longleftrightarrow> Some (q, r) \<in> set c \<and> \<not> path_is_related q p" for r
  proof
    assume "Some (q, r) \<in> set (io_cache_invalidate c (Some p))"
    then obtain e where "e \<in> set c" "(case e of None \<Rightarrow> None
      | Some (q, r) \<Rightarrow> if path_is_related q p then None else Some (q, r)) = Some (q, r)"
      by (auto simp: io_cache_invalidate_def)
    then show "Some (q, r) \<in> set c \<and> \<not> path_is_related q p" by (auto split: option.splits if_splits)
  next
    assume "Some (q, r) \<in> set c \<and> \<not> path_is_related q p"
    then show "Some (q, r) \<in> set (io_cache_invalidate c (Some p))"
      by (auto simp: io_cache_invalidate_def intro: rev_image_eqI [of "Some (q, r)"])
  qed
  then have "cached (io_cache_invalidate c (Some p)) q = Some r \<longleftrightarrow> cached c q = Some r \<and> \<not> path_is_related q p" for r
    using cached_Some [OF cache_ok_invalidate [OF assms], of "Some p" q r] cached_Some [OF assms] by simp
  then show ?thesis by (metis not_Some_eq)
qed

section \<open>Coherence with the file system\<close>

text \<open>What \<open>io_exists\<close> answers without a cache, and a cache whose entries agree with it.\<close>

definition exists_now :: "(string \<Rightarrow> access_res) \<Rightarrow> string \<Rightarrow> int" where
  "exists_now acc p = (case acc p of AccessOk \<Rightarrow> 0 | AccessAbsent \<Rightarrow> 1 | AccessFails \<Rightarrow> -1)"

definition coherent :: "(string \<Rightarrow> access_res) \<Rightarrow> cache_ent list \<Rightarrow> bool" where
  "coherent acc c \<longleftrightarrow> cache_ok c \<and> (\<forall>p r. cached c p = Some r \<longrightarrow> r = exists_now acc p)"

lemma coherent_exists:
  assumes "coherent acc c"
  shows "fst (io_exists acc c p) = exists_now acc p \<and> coherent acc (snd (io_exists acc c p))"
proof (cases "cached c p")
  case None
  have other: "cached (io_cache_store c p r) q = Some s \<Longrightarrow> q \<noteq> p \<Longrightarrow> cached c q = Some s" for r q s
    using io_cache_store_ok [of c p r q] assms by (auto simp: coherent_def)
  have "coherent acc (io_cache_store c p (exists_now acc p))"
    using assms io_cache_store_ok [of c p "exists_now acc p"] other unfolding coherent_def by (metis option.inject)
  then show ?thesis using None assms
    by (auto simp: io_exists_def lookup_cached exists_now_def Let_def split: access_res.splits)
next
  case (Some r)
  then have "r = exists_now acc p" using assms by (simp add: coherent_def)
  moreover have "exists_now acc p \<noteq> 2" by (simp add: exists_now_def split: access_res.splits)
  ultimately show ?thesis using Some assms by (simp add: io_exists_def lookup_cached)
qed

text \<open>
  Which paths a change at \<open>p\<close> can affect: \<open>p\<close> itself, a path that continues it behind a slash, and a
  path that it continues behind a slash.
\<close>

definition below :: "string \<Rightarrow> string \<Rightarrow> bool" where
  "below p q \<longleftrightarrow> (\<exists>r. q = p @ ''/'' @ r)"

definition untouched :: "string \<Rightarrow> string \<Rightarrow> bool" where
  "untouched p q \<longleftrightarrow> q \<noteq> p \<and> \<not> below p q \<and> \<not> below q p"

lemma is_prefix_dir_below: "is_prefix_dir p q \<longleftrightarrow> below p q"
proof
  assume "is_prefix_dir p q"
  then have "q = p @ ''/'' @ drop (length p + 1) q"
    unfolding is_prefix_dir_def by (metis Cons_nth_drop_Suc Suc_eq_plus1 append_Cons append_Nil append_take_drop_id)
  then show "below p q" unfolding below_def by blast
qed (auto simp: below_def is_prefix_dir_def)

lemma coherent_invalidate:
  assumes "coherent acc c" and "\<And>q. untouched p q \<Longrightarrow> acc' q = acc q"
  shows "coherent acc' (io_cache_invalidate c (Some p))"
proof -
  have "acc' q = acc q" if "\<not> path_is_related q p" for q
    using assms(2) that by (simp add: path_is_related_def is_prefix_dir_below untouched_def)
  then show ?thesis
    using assms(1) cache_ok_invalidate cached_invalidate
    by (auto simp: coherent_def exists_now_def split: if_splits)
qed

section \<open>Properties\<close>

datatype cache_event = Ask string | Change string "string \<Rightarrow> access_res"

fun cache_run :: "(string \<Rightarrow> access_res) \<Rightarrow> cache_ent list \<Rightarrow> cache_event list \<Rightarrow> (int \<times> int) list" where
  "cache_run acc c [] = []"
| "cache_run acc c (Ask p # evs) =
     (let (r, c') = io_exists acc c p in (r, exists_now acc p) # cache_run acc c' evs)"
| "cache_run acc c (Change p acc' # evs) = cache_run acc' (io_cache_invalidate c (Some p)) evs"

fun local_changes :: "(string \<Rightarrow> access_res) \<Rightarrow> cache_event list \<Rightarrow> bool" where
  "local_changes acc [] = True"
| "local_changes acc (Ask p # evs) = local_changes acc evs"
| "local_changes acc (Change p acc' # evs) =
     ((\<forall>q. untouched p q \<longrightarrow> acc' q = acc q) \<and> local_changes acc' evs)"

lemma cache_run_coherent:
  "coherent acc c \<Longrightarrow> local_changes acc evs \<Longrightarrow> \<forall>(a, b) \<in> set (cache_run acc c evs). a = b"
proof (induction evs arbitrary: acc c)
  case (Cons e evs)
  show ?case
  proof (cases e)
    case (Ask p)
    obtain r c' where e: "io_exists acc c p = (r, c')" by force
    from coherent_exists [OF Cons.prems(1), of p] e have "r = exists_now acc p" "coherent acc c'" by simp_all
    with Cons.IH [of acc c'] Cons.prems(2) Ask e show ?thesis by simp
  next
    case (Change p acc')
    with Cons.IH [OF coherent_invalidate [OF Cons.prems(1)], of p acc'] Cons.prems show ?thesis by simp
  qed
qed simp

text \<open>
  C16: the existence cache is transparent.  Take any history of questions and file-system
  changes, each change at a path \<open>p\<close> affecting only \<open>p\<close>, the paths below \<open>p\<close>, and those that \<open>p\<close> lies below,
  which is said of the strings and not by the code's own test, and being
  followed by \<open>io_cache_invalidate (p)\<close>.  Every answer of \<open>io_exists\<close> is the one \<open>access\<close> would
  give at that moment, whatever was cached or evicted in between.
\<close>

theorem io_cache_transparent:
  assumes "local_changes acc evs"
  shows "\<forall>(answer, truth) \<in> set (cache_run acc io_cache0 evs). answer = truth"
proof -
  have "coherent acc io_cache0"
  proof -
    have "cached io_cache0 p = None" for p by (simp add: cached_None io_cache0_def)
    then show ?thesis by (simp add: coherent_def cache_ok_def io_cache0_def IO_CACHE_MAX_def)
  qed
  then show ?thesis using assms by (rule cache_run_coherent)
qed

text \<open>A directory and a file in it are made and the file is removed again with its directory.\<close>

lemma io_cache_transparent_witness:
  "list_all (\<lambda>(answer, truth). answer = truth) (cache_run (\<lambda>_. AccessAbsent) io_cache0
     [Ask ''/a'', Ask ''/a/b'', Change ''/a/b'' (\<lambda>q. if q = ''/a'' \<or> q = ''/a/b'' then AccessOk else AccessAbsent),
      Ask ''/a'', Ask ''/a/b'', Change ''/a'' (\<lambda>_. AccessAbsent), Ask ''/a/b''])"
  unfolding list_all_iff by (rule io_cache_transparent) (simp add: untouched_def below_def)

end
