(* ===== verification/IoRead.thy ===== *)
theory IoRead
  imports Mem
begin

text \<open>
  Reading whole files (\<^verbatim>\<open>src/util/io_read.c\<close>, and \<open>open_and_read\<close> of
  \<^verbatim>\<open>src/compress/decompress.c\<close>).  A file is the list of the bytes still to be read; the
  \<open>i\<close>-th \<open>read\<close> of a call fails, or returns at most the size asked for, at least one byte
  unless the file is at its end, and at most \<open>k\<close> bytes, as the schedule says.
\<close>

type_synonym sched = "nat \<Rightarrow> nat option"

definition sys_read :: "sched \<Rightarrow> nat \<Rightarrow> nat \<Rightarrow> byte list \<Rightarrow> byte list option" where
  "sys_read sc i chunk rest =
     (case sc i of None \<Rightarrow> None | Some k \<Rightarrow> Some (take (min chunk (max 1 k)) rest))"

definition CHUNK :: nat where "CHUNK = 4096"

definition read_chunk_size :: "byte buf \<Rightarrow> nat \<Rightarrow> nat" where
  "read_chunk_size b cap =
     (if cap = 0 \<or> length (bdata b) > cap \<or> cap - length (bdata b) \<ge> CHUNK then CHUNK
      else cap - length (bdata b) + 1)"

definition append_read :: "byte buf \<Rightarrow> byte list \<Rightarrow> nat \<Rightarrow> int \<times> byte buf" where
  "append_read b d cap =
     (let b' = b\<lparr>bdata := bdata b @ d\<rparr> in
      (if cap = 0 \<or> length (bdata b') \<le> cap then 0 else -1, b'))"

lemma chunk_pos: "0 < read_chunk_size b cap"
  by (simp add: read_chunk_size_def CHUNK_def)

function read_loop :: "sched \<Rightarrow> nat \<Rightarrow> byte list \<Rightarrow> byte buf \<Rightarrow> nat \<Rightarrow> int \<times> byte buf" where
  "read_loop sc i rest b cap =
     (let chunk = read_chunk_size b cap;
          b = buf_grow b (of_nat chunk) in
      case sys_read sc i chunk rest of
        None \<Rightarrow> (-1, b)
      | Some d \<Rightarrow>
          if d = [] then (0, b)
          else (let (e, b') = append_read b d cap in
                if e \<noteq> 0 then (-1, b') else read_loop sc (i + 1) (drop (length d) rest) b' cap))"
  by pat_completeness auto
termination
  by (relation "measure (\<lambda>(sc, i, rest, b, cap). length rest)")
     (auto simp: sys_read_def split: option.splits)

declare read_loop.simps [simp del]

text \<open>The terminating NUL goes behind the contents without counting in \<open>len\<close>.\<close>

definition buf_terminate :: "byte buf \<Rightarrow> int \<times> byte buf" where
  "buf_terminate b = (0, buf_grow b 1)"

definition read_file :: "byte list option \<Rightarrow> sched \<Rightarrow> byte buf \<Rightarrow> nat \<Rightarrow> int \<times> byte buf" where
  "read_file file sc b cap =
     (case file of
        None \<Rightarrow> (-1, b)
      | Some rest \<Rightarrow>
          (let (r, b') = read_loop sc 0 rest b cap
           in if r = 0 then buf_terminate b' else (r, b')))"

definition io_read :: "byte list option \<Rightarrow> sched \<Rightarrow> byte buf \<Rightarrow> int \<times> byte buf" where
  "io_read file sc b = read_file file sc b 0"

definition io_read_cap :: "byte list option \<Rightarrow> sched \<Rightarrow> byte buf \<Rightarrow> nat \<Rightarrow> int \<times> byte buf" where
  "io_read_cap file sc b cap = read_file file sc b cap"

definition io_read_quiet :: "byte list option \<Rightarrow> sched \<Rightarrow> byte buf \<Rightarrow> int \<times> byte buf" where
  "io_read_quiet file sc b = read_file file sc b 0"

text \<open>\<open>open_and_read\<close> stops at the first \<open>read\<close> that returns less than a chunk.\<close>

function open_read_loop :: "sched \<Rightarrow> nat \<Rightarrow> byte list \<Rightarrow> byte buf \<Rightarrow> int \<times> byte buf" where
  "open_read_loop sc i rest b =
     (let b = buf_grow b (of_nat CHUNK) in
      case sys_read sc i CHUNK rest of
        None \<Rightarrow> (-1, b)
      | Some d \<Rightarrow>
          (let b' = b\<lparr>bdata := bdata b @ d\<rparr> in
           if length d = CHUNK then open_read_loop sc (i + 1) (drop (length d) rest) b' else (0, b')))"
  by pat_completeness auto
termination
  by (relation "measure (\<lambda>(sc, i, rest, b). length rest)")
     (auto simp: sys_read_def CHUNK_def split: option.splits)

declare open_read_loop.simps [simp del]

definition open_and_read :: "byte list option \<Rightarrow> sched \<Rightarrow> byte buf \<Rightarrow> int \<times> byte buf" where
  "open_and_read file sc b = (case file of None \<Rightarrow> (-1, b) | Some rest \<Rightarrow> open_read_loop sc 0 rest b)"

section \<open>Short reads do not matter\<close>

lemma read_loop_all:
  assumes "\<forall>i. sc i \<noteq> None" and "cap = 0 \<or> length (bdata b) \<le> cap"
  shows "if cap = 0 \<or> length (bdata b) + length rest \<le> cap
    then fst (read_loop sc i rest b cap) = 0 \<and> bdata (snd (read_loop sc i rest b cap)) = bdata b @ rest
    else fst (read_loop sc i rest b cap) = -1 \<and> length (bdata (snd (read_loop sc i rest b cap))) \<le> cap + 1"
  using assms(2)
proof (induction "length rest" arbitrary: rest i b rule: less_induct)
  case less
  let ?c = "read_chunk_size b cap" and ?b = "buf_grow b (of_nat (read_chunk_size b cap))"
  obtain k where k: "sc i = Some k" using assms(1) by auto
  define d where "d = take (min ?c (max 1 k)) rest"
  have rd: "sys_read sc i ?c rest = Some d" by (simp add: sys_read_def k d_def)
  have dlen: "length d \<le> ?c" "rest = d @ drop (length d) rest"
    by (simp add: d_def) (metis d_def append_eq_conv_conj append_take_drop_id)
  show ?case
  proof (cases "rest = []")
    case True
    then have "read_loop sc i rest b cap = (0, ?b)"
      using rd by (subst read_loop.simps) (simp add: d_def Let_def)
    with True less.prems show ?thesis by auto
  next
    case False
    then have d: "d \<noteq> []" using chunk_pos [of b cap] by (auto simp: d_def)
    let ?b' = "?b\<lparr>bdata := bdata b @ d\<rparr>" and ?rest = "drop (length d) rest"
    have step: "read_loop sc i rest b cap =
      (if cap = 0 \<or> length (bdata b @ d) \<le> cap then read_loop sc (i + 1) ?rest ?b' cap else (-1, ?b'))"
      using rd d by (subst read_loop.simps) (simp add: append_read_def Let_def)
    have shorter: "length ?rest < length rest" using d False by simp
    have len: "length rest = length d + length ?rest" using dlen(2) by (metis length_append)
    show ?thesis
    proof (cases "cap = 0 \<or> length (bdata b @ d) \<le> cap")
      case True
      have pre: "cap = 0 \<or> length (bdata ?b') \<le> cap" using True by simp
      have e1: "length (bdata ?b') + length ?rest = length (bdata b) + length rest" using len by simp
      have e2: "bdata ?b' @ ?rest = bdata b @ rest" using dlen(2) by simp
      have st: "read_loop sc i rest b cap = read_loop sc (i + 1) ?rest ?b' cap"
        by (simp only: step if_P [OF True])
      show ?thesis unfolding st by (rule less.hyps [OF shorter pre, unfolded e1 e2])
    next
      case over: False
      have "length (bdata b @ d) \<le> cap + 1"
      proof (cases "cap - length (bdata b) \<ge> CHUNK")
        case True
        then have "?c = CHUNK" by (simp add: read_chunk_size_def)
        then show ?thesis using dlen(1) True over less.prems by simp
      next
        case False
        with less.prems over have "?c = cap - length (bdata b) + 1" by (simp add: read_chunk_size_def)
        then show ?thesis using dlen(1) less.prems over by simp
      qed
      with over len show ?thesis unfolding step by simp
    qed
  qed
qed

section \<open>Properties\<close>

text \<open>
  reading a file delivers all of it, or fails.  However \<open>read\<close> splits the contents into
  short reads, as long as none of them fails \<open>io_read_cap\<close> appends the whole file when the
  result stays within the limit (0 is no limit) and otherwise fails without ever buffering
  more than one byte beyond the limit.
\<close>

theorem io_read_cap_complete:
  assumes "\<forall>i. sc i \<noteq> None" and "cap = 0 \<or> length (bdata b) \<le> cap"
  shows "if cap = 0 \<or> length (bdata b) + length file \<le> cap
    then fst (io_read_cap (Some file) sc b cap) = 0 \<and> bdata (snd (io_read_cap (Some file) sc b cap)) = bdata b @ file
    else fst (io_read_cap (Some file) sc b cap) = -1 \<and>
         length (bdata (snd (io_read_cap (Some file) sc b cap))) \<le> cap + 1"
proof -
  obtain r b' where "read_loop sc 0 file b cap = (r, b')" by force
  with read_loop_all [OF assms, of "file" 0] show ?thesis
    by (auto simp: io_read_cap_def read_file_def buf_terminate_def split: if_splits)
qed

lemma io_read_cap_complete_witness:
  "bdata (snd (io_read_cap (Some [1, 2, 3, 4, 5]) (\<lambda>i. Some 2) BUF_INIT 5)) = [1, 2, 3, 4, 5] \<and>
   fst (io_read_cap (Some [1, 2, 3, 4, 5]) (\<lambda>i. Some 2) BUF_INIT 4) = -1"
  using io_read_cap_complete [of "\<lambda>i. Some 2" 5 BUF_INIT "[1, 2, 3, 4, 5]"]
    io_read_cap_complete [of "\<lambda>i. Some 2" 4 BUF_INIT "[1, 2, 3, 4, 5]"]
  by (simp add: BUF_INIT_def)

end
