(* ===== verification/User.thy ===== *)
theory User
  imports Dec
begin

text \<open>
  The guest user (\<^verbatim>\<open>src/user/\<close>): parsing the \<open>user:group:...\<close> argument
  (\<^verbatim>\<open>user_parse.c\<close>), looking the user and its groups up in the guest's databases
  (\<^verbatim>\<open>user_resolve.c\<close>, \<^verbatim>\<open>user_pwd.c\<close>), and the getters that resolve on demand
  (\<^verbatim>\<open>user.c\<close>).  The entries that \<open>fgetpwent\<close> and \<open>fgetgrent\<close> deliver for a path are the
  parameters \<open>pwdb\<close> and \<open>grdb\<close>, \<open>None\<close> when the file cannot be opened; memory is taken to be
  available.  A getter that resolves is a function to its result and the updated user.
\<close>

section \<open>State\<close>

definition NOBODY_ID :: u32 where "NOBODY_ID = 65534"

record group_token =
  tok_name :: "string option"
  tok_gid :: u32

record user =
  u_uid :: u32
  u_uid_filled :: bool
  u_name_given :: bool
  u_name :: "string option"
  u_tokens :: "group_token list"
  u_gid :: u32
  u_gid_filled :: bool
  u_groups :: "u32 list option"
  u_passwd_gid :: u32
  u_home :: "string option"
  u_shell :: "string option"
  u_rootfs :: "string option"
  u_passwd_parsed :: bool
  u_group_parsed :: bool

definition user_zero :: user where
  "user_zero = \<lparr>u_uid = 0, u_uid_filled = False, u_name_given = False, u_name = None, u_tokens = [],
     u_gid = 0, u_gid_filled = False, u_groups = None, u_passwd_gid = 0, u_home = None, u_shell = None,
     u_rootfs = None, u_passwd_parsed = False, u_group_parsed = False\<rparr>"

record passwd =
  pw_name :: string
  pw_uid :: u32
  pw_gid :: u32
  pw_dir :: string
  pw_shell :: string

record group =
  gr_name :: string
  gr_gid :: u32
  gr_mem :: "string list"

section \<open>Parsing\<close>

definition COLON :: char where "COLON = CHR '':''"

definition all_digits :: "string \<Rightarrow> bool" where
  "all_digits s \<longleftrightarrow> s \<noteq> [] \<and> list_all is_digit s"

text \<open>\<open>strtoul\<close> on a string of digits: \<open>ERANGE\<close> when the value does not fit 64 bits.\<close>

definition parse_id :: "string \<Rightarrow> u32 option" where
  "parse_id s =
     (let v = digits_val s in
      if v \<ge> 2 ^ 64 \<or> v > 4294967295 then None else Some (of_nat v))"

definition count_tokens :: "string \<Rightarrow> nat" where
  "count_tokens s = (if s = [] then 0 else foldl (\<lambda>n c. if c = COLON then n + 1 else n) 1 s)"

definition parse_one_token :: "string \<Rightarrow> group_token option" where
  "parse_one_token s =
     (if length s = 0 \<or> length s \<ge> 256 then None
      else if all_digits s then
        (case parse_id s of
           None \<Rightarrow> None
         | Some gid \<Rightarrow> Some \<lparr>tok_name = None, tok_gid = gid\<rparr>)
      else Some \<lparr>tok_name = Some s, tok_gid = 0\<rparr>)"

definition skip_colon :: "string \<Rightarrow> string" where
  "skip_colon s = dropWhile (\<lambda>c. c \<noteq> COLON) s"

function fill_tokens :: "group_token list \<Rightarrow> string \<Rightarrow> group_token list option" where
  "fill_tokens t a =
     (let e = skip_colon a; tok = takeWhile (\<lambda>c. c \<noteq> COLON) a in
      if tok = [] then None
      else (case parse_one_token tok of
              None \<Rightarrow> None
            | Some x \<Rightarrow> if e = [] then Some (t @ [x]) else fill_tokens (t @ [x]) (tl e)))"
  by pat_completeness auto
termination
  by (relation "measure (\<lambda>(t, a). length a)")
     (auto simp: skip_colon_def dest: length_pos_if_in_set
       intro!: le_less_trans [OF diff_le_mono [OF length_dropWhile_le]] diff_less)

declare fill_tokens.simps [simp del]

definition append_tokens :: "group_token list \<Rightarrow> string option \<Rightarrow> group_token list option" where
  "append_tokens t s =
     (case s of
        None \<Rightarrow> Some t
      | Some s \<Rightarrow> if count_tokens s = 0 then Some t else fill_tokens t s)"

definition store_identity :: "user \<Rightarrow> string \<Rightarrow> user option" where
  "store_identity u ub =
     (if all_digits ub then
        (case parse_id ub of
           None \<Rightarrow> None
         | Some uid \<Rightarrow> Some (u\<lparr>u_uid_filled := True, u_uid := uid\<rparr>))
      else Some (u\<lparr>u_name := Some ub, u_name_given := True\<rparr>))"

definition parse_user_identity :: "user \<Rightarrow> string \<Rightarrow> nat option \<Rightarrow> user option" where
  "parse_user_identity u s c =
     (let ulen = (case c of Some i \<Rightarrow> i | None \<Rightarrow> length s) in
      if ulen = 0 \<or> ulen \<ge> 256 then None else store_identity u (take ulen s))"

definition add_tokens :: "user \<Rightarrow> string option \<Rightarrow> user option" where
  "add_tokens u s =
     (case append_tokens (u_tokens u) s of None \<Rightarrow> None | Some t \<Rightarrow> Some (u\<lparr>u_tokens := t\<rparr>))"

definition parse_user_body :: "user \<Rightarrow> string option \<Rightarrow> string option \<Rightarrow> user option" where
  "parse_user_body u s g =
     (if s = None \<or> s = Some [] then add_tokens (u\<lparr>u_uid_filled := True, u_uid := 0\<rparr>) g
      else
        let str = the s; colon = strchr_pos COLON str in
        (case parse_user_identity u str colon of
           None \<Rightarrow> None
         | Some u1 \<Rightarrow>
             (case add_tokens u1 g of
                None \<Rightarrow> None
              | Some u2 \<Rightarrow>
                  (case colon of
                     None \<Rightarrow> Some u2
                   | Some i \<Rightarrow> add_tokens u2 (Some (drop (i + 1) str))))))"

definition user_new :: "string option \<Rightarrow> string option \<Rightarrow> string option \<Rightarrow> user option" where
  "user_new s g r = parse_user_body (user_zero\<lparr>u_rootfs := r\<rparr>) s g"

definition user_root_new :: "string option \<Rightarrow> user" where
  "user_root_new r =
     user_zero\<lparr>u_uid := 0, u_uid_filled := True, u_gid := 0, u_gid_filled := True, u_rootfs := r\<rparr>"

definition user_free :: "user \<Rightarrow> user" where
  "user_free u = user_zero"

section \<open>The databases\<close>

definition PATH_MAX :: nat where "PATH_MAX = 4096"

definition db_path :: "string option \<Rightarrow> string \<Rightarrow> string option" where
  "db_path rootfs fname =
     (case rootfs of
        None \<Rightarrow> None
      | Some r \<Rightarrow>
          if length r + 1 + length fname + 1 > PATH_MAX then None
          else Some ((if length r > 1 \<and> r ! (length r - 1) \<noteq> CHR ''/'' then r @ ''/'' else r) @ fname))"

definition open_db :: "(string \<Rightarrow> 'a option) \<Rightarrow> string option \<Rightarrow> string \<Rightarrow> 'a option" where
  "open_db db rootfs fname = (case db_path rootfs fname of None \<Rightarrow> None | Some p \<Rightarrow> db p)"

definition set_root_fallback :: "user \<Rightarrow> user" where
  "set_root_fallback u = u\<lparr>u_name := Some ''root'', u_home := Some ''/root'', u_passwd_gid := 0\<rparr>"

definition resolve_passwd_nodb :: "user \<Rightarrow> user" where
  "resolve_passwd_nodb u =
     (if \<not> u_uid_filled u then u\<lparr>u_uid := NOBODY_ID, u_uid_filled := True, u_passwd_gid := NOBODY_ID\<rparr>
      else if u_uid u \<noteq> 0 then u\<lparr>u_passwd_gid := u_uid u\<rparr>
      else set_root_fallback u)"

fun resolve_by_uid :: "user \<Rightarrow> passwd list \<Rightarrow> user" where
  "resolve_by_uid u [] = (if u_uid u = 0 then set_root_fallback u else u\<lparr>u_passwd_gid := u_uid u\<rparr>)"
| "resolve_by_uid u (pw # pws) =
     (if pw_uid pw = u_uid u
      then u\<lparr>u_name := Some (pw_name pw), u_home := Some (pw_dir pw), u_shell := Some (pw_shell pw),
             u_passwd_gid := pw_gid pw\<rparr>
      else resolve_by_uid u pws)"

definition assign_from_passwd :: "user \<Rightarrow> passwd \<Rightarrow> user" where
  "assign_from_passwd u pw =
     u\<lparr>u_uid := pw_uid pw, u_passwd_gid := pw_gid pw, u_home := Some (pw_dir pw),
       u_shell := Some (pw_shell pw), u_uid_filled := True\<rparr>"

definition resolve_by_name :: "user \<Rightarrow> passwd list \<Rightarrow> user" where
  "resolve_by_name u pws =
     (case find (\<lambda>pw. Some (pw_name pw) = u_name u) pws of
        Some pw \<Rightarrow> assign_from_passwd u pw
      | None \<Rightarrow>
          (case find (\<lambda>pw. pw_name pw = ''nobody'') pws of
             Some pw \<Rightarrow> assign_from_passwd u pw
           | None \<Rightarrow> u\<lparr>u_uid := NOBODY_ID, u_passwd_gid := NOBODY_ID, u_uid_filled := True\<rparr>))"

definition resolve_passwd :: "(string \<Rightarrow> passwd list option) \<Rightarrow> user \<Rightarrow> user" where
  "resolve_passwd pwdb u =
     (if u_passwd_parsed u then u
      else
        (case open_db pwdb (u_rootfs u) ''etc/passwd'' of
           None \<Rightarrow> resolve_passwd_nodb u
         | Some pws \<Rightarrow> if u_uid_filled u then resolve_by_uid u pws else resolve_by_name u pws)
        \<lparr>u_passwd_parsed := True\<rparr>)"

definition has_named_tokens :: "group_token list \<Rightarrow> bool" where
  "has_named_tokens ts = list_ex (\<lambda>t. tok_name t \<noteq> None) ts"

text \<open>The inner loop: the first token with the group's name is resolved.\<close>

fun resolve_token :: "group \<Rightarrow> group_token list \<Rightarrow> group_token list" where
  "resolve_token gr [] = []"
| "resolve_token gr (t # ts) =
     (if tok_name t = Some (gr_name gr) then \<lparr>tok_name = None, tok_gid = gr_gid gr\<rparr> # ts
      else t # resolve_token gr ts)"

definition resolve_named_in_group :: "user \<Rightarrow> group list \<Rightarrow> user" where
  "resolve_named_in_group u grs = u\<lparr>u_tokens := foldl (\<lambda>ts gr. resolve_token gr ts) (u_tokens u) grs\<rparr>"

definition member_of_group :: "string \<Rightarrow> string list \<Rightarrow> bool" where
  "member_of_group name mems = list_ex (\<lambda>m. m = name) mems"

definition append_group_token :: "user \<Rightarrow> u32 \<Rightarrow> user" where
  "append_group_token u gid = u\<lparr>u_tokens := u_tokens u @ [\<lparr>tok_name = None, tok_gid = gid\<rparr>]\<rparr>"

definition resolve_groups_enum ::
    "(string \<Rightarrow> passwd list option) \<Rightarrow> (string \<Rightarrow> group list option) \<Rightarrow> user \<Rightarrow> user" where
  "resolve_groups_enum pwdb grdb u =
     (let u = resolve_passwd pwdb u;
          u = u\<lparr>u_gid := u_passwd_gid u, u_gid_filled := True\<rparr> in
      case open_db grdb (u_rootfs u) ''etc/group'' of
        None \<Rightarrow> u\<lparr>u_group_parsed := True\<rparr>
      | Some grs \<Rightarrow>
          (foldl (\<lambda>u gr. if member_of_group (the (u_name u)) (gr_mem gr) then append_group_token u (gr_gid gr) else u)
             u grs)\<lparr>u_group_parsed := True\<rparr>)"

fun first_resolved :: "group_token list \<Rightarrow> u32 option" where
  "first_resolved [] = None"
| "first_resolved (t # ts) = (if tok_name t = None then Some (tok_gid t) else first_resolved ts)"

definition resolve_groups_by_tokens :: "(string \<Rightarrow> group list option) \<Rightarrow> user \<Rightarrow> user" where
  "resolve_groups_by_tokens grdb u =
     (case open_db grdb (u_rootfs u) ''etc/group'' of
        None \<Rightarrow> u\<lparr>u_group_parsed := True\<rparr>
      | Some grs \<Rightarrow>
          let u = (resolve_named_in_group u grs)\<lparr>u_group_parsed := True\<rparr> in
          (case first_resolved (u_tokens u) of
             None \<Rightarrow> u
           | Some g \<Rightarrow> u\<lparr>u_gid := g, u_gid_filled := True\<rparr>))"

definition should_enumerate_groups :: "user \<Rightarrow> bool" where
  "should_enumerate_groups u \<longleftrightarrow>
     length (u_tokens u) = 0 \<and> \<not> u_gid_filled u \<and> u_name_given u \<and> u_name u \<noteq> None"

definition resolve_groups ::
    "(string \<Rightarrow> passwd list option) \<Rightarrow> (string \<Rightarrow> group list option) \<Rightarrow> user \<Rightarrow> user" where
  "resolve_groups pwdb grdb u =
     (if u_group_parsed u then u
      else if should_enumerate_groups u then resolve_groups_enum pwdb grdb u
      else if \<not> has_named_tokens (u_tokens u) then u\<lparr>u_group_parsed := True\<rparr>
      else resolve_groups_by_tokens grdb u)"

section \<open>Getters\<close>

definition get_uid :: "(string \<Rightarrow> passwd list option) \<Rightarrow> user \<Rightarrow> u32 \<times> user" where
  "get_uid pwdb u =
     (if u_uid_filled u then (u_uid u, u)
      else let u = resolve_passwd pwdb u in (u_uid u, u))"

definition user_resolve :: "(string \<Rightarrow> passwd list option) \<Rightarrow> user \<Rightarrow> user" where
  "user_resolve pwdb u = resolve_passwd pwdb u"

definition get_name :: "(string \<Rightarrow> passwd list option) \<Rightarrow> user \<Rightarrow> string option \<times> user" where
  "get_name pwdb u =
     (if u_name u \<noteq> None then (u_name u, u)
      else
        let u = (if \<not> u_passwd_parsed u then resolve_passwd pwdb u else u)
        in (u_name u, u))"

definition get_home :: "(string \<Rightarrow> passwd list option) \<Rightarrow> user \<Rightarrow> string \<times> user" where
  "get_home pwdb u =
     (let u = (if \<not> u_passwd_parsed u then resolve_passwd pwdb u else u)
      in (case u_home u of Some h \<Rightarrow> h | None \<Rightarrow> ''/home/.user'', u))"

definition get_shell :: "(string \<Rightarrow> passwd list option) \<Rightarrow> user \<Rightarrow> string \<times> user" where
  "get_shell pwdb u =
     (let u = (if \<not> u_passwd_parsed u then resolve_passwd pwdb u else u)
      in (case u_shell u of Some s \<Rightarrow> s | None \<Rightarrow> ''/bin/sh'', u))"

definition get_gid_from_passwd :: "(string \<Rightarrow> passwd list option) \<Rightarrow> user \<Rightarrow> user" where
  "get_gid_from_passwd pwdb u =
     (let (uid, u) = get_uid pwdb u;
          u = (if \<not> u_passwd_parsed u then resolve_passwd pwdb u else u)
      in (if uid \<noteq> 0 then u\<lparr>u_gid := u_passwd_gid u\<rparr> else u\<lparr>u_gid := uid\<rparr>)\<lparr>u_gid_filled := True\<rparr>)"

definition get_gid ::
    "(string \<Rightarrow> passwd list option) \<Rightarrow> (string \<Rightarrow> group list option) \<Rightarrow> user \<Rightarrow> u32 \<times> user" where
  "get_gid pwdb grdb u =
     (if u_gid_filled u then (u_gid u, u)
      else if length (u_tokens u) > 0 \<and> tok_name (u_tokens u ! 0) = None then
        let u = u\<lparr>u_gid := tok_gid (u_tokens u ! 0), u_gid_filled := True\<rparr> in (u_gid u, u)
      else
        let u = resolve_groups pwdb grdb u in
        if u_gid_filled u then (u_gid u, u)
        else let u = get_gid_from_passwd pwdb u in (u_gid u, u))"

definition ensure_primary_gid_in_groups :: "user \<Rightarrow> user" where
  "ensure_primary_gid_in_groups u =
     (case u_groups u of
        Some gs \<Rightarrow> if u_gid u \<in> set gs then u else u\<lparr>u_groups := Some (gs @ [u_gid u])\<rparr>
      | None \<Rightarrow> u\<lparr>u_groups := Some [u_gid u]\<rparr>)"

fun insert_gid_sorted :: "u32 \<Rightarrow> u32 list \<Rightarrow> u32 list" where
  "insert_gid_sorted g [] = [g]"
| "insert_gid_sorted g (x # xs) = (if x < g then x # insert_gid_sorted g xs else g # x # xs)"

fun append_remaining :: "u32 \<Rightarrow> group_token list \<Rightarrow> u32 list \<Rightarrow> u32 list" where
  "append_remaining gid [] gs = gs"
| "append_remaining gid (t # ts) gs =
     (if tok_name t \<noteq> None then append_remaining gid ts gs
      else if tok_gid t = gid then append_remaining gid ts gs
      else if tok_gid t \<in> set gs then append_remaining gid ts gs
      else append_remaining gid ts (insert_gid_sorted (tok_gid t) gs))"

definition append_remaining_gids :: "user \<Rightarrow> user" where
  "append_remaining_gids u =
     u\<lparr>u_groups := map_option (append_remaining (u_gid u) (u_tokens u)) (u_groups u)\<rparr>"

definition get_groups ::
    "(string \<Rightarrow> passwd list option) \<Rightarrow> (string \<Rightarrow> group list option) \<Rightarrow> user \<Rightarrow> u32 list \<times> user" where
  "get_groups pwdb grdb u =
     (let u = resolve_groups pwdb grdb u;
          u = snd (get_gid pwdb grdb u);
          u = ensure_primary_gid_in_groups u;
          u = append_remaining_gids u
      in (case u_groups u of Some gs \<Rightarrow> gs | None \<Rightarrow> [], u))"

section \<open>Tokens\<close>

lemma fill_tokens_split:
  "fill_tokens t s = map_option ((@) t) (those (map parse_one_token (split_on COLON s)))"
proof (induction t s rule: fill_tokens.induct)
  case (1 t s)
  let ?tok = "takeWhile (\<lambda>c. c \<noteq> COLON) s" and ?e = "skip_colon s"
  have sp: "split_on COLON s = ?tok # (case ?e of [] \<Rightarrow> [] | _ # rest \<Rightarrow> split_on COLON rest)"
    unfolding skip_colon_def by (rule split_on_takeWhile)
  show ?case
  proof (cases "?tok = [] \<or> parse_one_token ?tok = None")
    case True
    moreover have "parse_one_token [] = None" by (simp add: parse_one_token_def)
    ultimately show ?thesis unfolding sp by (subst fill_tokens.simps) (auto simp: Let_def)
  next
    case False
    then obtain x where x: "parse_one_token ?tok = Some x" "?tok \<noteq> []" by auto
    show ?thesis
    proof (cases ?e)
      case Nil
      then show ?thesis unfolding sp using x by (subst fill_tokens.simps) (simp add: Let_def)
    next
      case (Cons c rest)
      have "fill_tokens t s = fill_tokens (t @ [x]) rest"
        using x Cons by (subst fill_tokens.simps) (simp add: Let_def)
      also have "\<dots> = map_option (\<lambda>a. t @ x # a) (those (map parse_one_token (split_on COLON rest)))"
        using "1.IH" [OF refl refl x(2) x(1)] Cons by simp
      finally show ?thesis unfolding sp using x Cons
        by (cases "those (map parse_one_token (split_on COLON rest))") simp_all
    qed
  qed
qed

lemma count_tokens_0: "count_tokens s = 0 \<longleftrightarrow> s = []"
proof -
  have "n \<le> foldl (\<lambda>n c. if c = COLON then n + 1 else n) n s" for n :: nat
    by (induction s arbitrary: n) (auto intro: Suc_leD)
  from this [of 1] show ?thesis by (auto simp: count_tokens_def)
qed

text \<open>The textual forms of an identity and of a group token.\<close>

datatype ident = Uid u32 | Name string

fun show_ident :: "ident \<Rightarrow> string" where
  "show_ident (Uid n) = dec_nat (unat n)"
| "show_ident (Name s) = s"

fun ident_ok :: "ident \<Rightarrow> bool" where
  "ident_ok (Uid n) = True"
| "ident_ok (Name s) = (s \<noteq> [] \<and> length s < 256 \<and> COLON \<notin> set s \<and> \<not> list_all is_digit s)"

fun token_of :: "ident \<Rightarrow> group_token" where
  "token_of (Uid n) = \<lparr>tok_name = None, tok_gid = n\<rparr>"
| "token_of (Name s) = \<lparr>tok_name = Some s, tok_gid = 0\<rparr>"

fun with_ident :: "ident \<Rightarrow> user \<Rightarrow> user" where
  "with_ident (Uid n) u = u\<lparr>u_uid_filled := True, u_uid := n\<rparr>"
| "with_ident (Name s) u = u\<lparr>u_name := Some s, u_name_given := True\<rparr>"

definition show_user :: "ident \<Rightarrow> ident list \<Rightarrow> string" where
  "show_user i gs = show_ident i @ concat (map (\<lambda>g. COLON # show_ident g) gs)"

lemma length_dec_nat: "n < 10 ^ k \<Longrightarrow> 0 < k \<Longrightarrow> length (dec_nat n) \<le> k"
proof (induction k arbitrary: n)
  case (Suc k)
  show ?case
  proof (cases "n < 10")
    case False
    then have "0 < k" using Suc.prems(1) by (cases k) auto
    moreover have "n div 10 < 10 ^ k" using Suc.prems(1) by (simp add: less_mult_imp_div_less mult.commute)
    ultimately show ?thesis using Suc.IH [of "n div 10"] False by (simp add: dec_nat.simps [of n])
  qed (simp add: dec_nat.simps [of n])
qed simp

lemma unat_u32_less: "unat (n :: u32) < 4294967296"
  using unsigned_less [of n, where 'a = nat] by simp

lemma dec_u32:
  "all_digits (dec_nat (unat (n :: u32)))" "parse_id (dec_nat (unat n)) = Some n"
  "length (dec_nat (unat n)) < 256" "COLON \<notin> set (dec_nat (unat n))"
proof -
  show "all_digits (dec_nat (unat n))" by (auto simp: all_digits_def list_all_iff dec_nat_is_digit)
  show "parse_id (dec_nat (unat n)) = Some n"
    using unat_u32_less [of n] by (simp add: parse_id_def dec_nat_val)
  have "unat n < 10 ^ 10" using unat_u32_less [of n] by simp
  then show "length (dec_nat (unat n)) < 256" using length_dec_nat [of "unat n" 10] by simp
  show "COLON \<notin> set (dec_nat (unat n))"
    using dec_nat_is_digit [of COLON] by (auto simp: COLON_def is_digit_def)
qed

lemma show_ident_props:
  assumes "ident_ok i"
  shows "show_ident i \<noteq> []" "length (show_ident i) < 256" "COLON \<notin> set (show_ident i)"
    "parse_one_token (show_ident i) = Some (token_of i)" "store_identity u (show_ident i) = Some (with_ident i u)"
proof -
  show 1: "show_ident i \<noteq> []" "length (show_ident i) < 256" "COLON \<notin> set (show_ident i)"
    using assms dec_u32(3,4) by (cases i; simp)+
  show "parse_one_token (show_ident i) = Some (token_of i)"
    using assms 1 dec_u32(1,2) by (cases i) (simp_all add: parse_one_token_def, simp add: all_digits_def)
  show "store_identity u (show_ident i) = Some (with_ident i u)"
    using assms 1 dec_u32(1,2) by (cases i) (simp_all add: store_identity_def, simp add: all_digits_def)
qed

lemma split_groups:
  assumes "\<forall>g \<in> set (g # gs). ident_ok g"
  shows "split_on COLON (show_user g gs) = map show_ident (g # gs)"
  using assms
proof (induction gs arbitrary: g)
  case Nil
  then show ?case using show_ident_props(3) [of g] by (simp add: show_user_def split_on_nosep)
next
  case (Cons h gs)
  then have "split_on COLON (show_user h gs) = map show_ident (h # gs)" by simp
  moreover have "show_user g (h # gs) = show_ident g @ COLON # show_user h gs" by (simp add: show_user_def)
  ultimately show ?case using Cons.prems show_ident_props(3) [of g] by (simp add: split_on_append split_on_nosep)
qed

lemma those_tokens: "\<forall>g \<in> set gs. ident_ok g \<Longrightarrow> those (map parse_one_token (map show_ident gs)) = Some (map token_of gs)"
  by (induction gs) (simp_all add: show_ident_props(4))

lemma add_tokens_show:
  assumes "\<forall>g \<in> set (g # gs). ident_ok g"
  shows "add_tokens u (Some (show_user g gs)) = Some (u\<lparr>u_tokens := u_tokens u @ map token_of (g # gs)\<rparr>)"
proof -
  have "show_user g gs \<noteq> []" using assms show_ident_props(1) [of g] by (simp add: show_user_def)
  moreover have "fill_tokens (u_tokens u) (show_user g gs) = Some (u_tokens u @ map token_of (g # gs))"
    unfolding fill_tokens_split split_groups [OF assms] those_tokens [OF assms] by simp
  ultimately show ?thesis by (simp add: add_tokens_def append_tokens_def count_tokens_0)
qed

section \<open>Group lists\<close>

lemma set_insert_gid: "set (insert_gid_sorted g gs) = insert g (set gs)"
  by (induction gs) auto

lemma sorted_insert_gid:
  "sorted_wrt (<) gs \<Longrightarrow> g \<notin> set gs \<Longrightarrow> sorted_wrt (<) (insert_gid_sorted g gs)"
  by (induction gs) (auto simp: set_insert_gid not_less le_less)

lemma append_remaining_spec:
  "sorted_wrt (<) gs \<Longrightarrow> gid \<in> set gs \<Longrightarrow>
   sorted_wrt (<) (append_remaining gid ts gs) \<and>
   set (append_remaining gid ts gs) = set gs \<union> {tok_gid t | t. t \<in> set ts \<and> tok_name t = None}"
proof (induction ts arbitrary: gs)
  case (Cons t ts)
  show ?case
  proof (cases "tok_name t \<noteq> None \<or> tok_gid t = gid \<or> tok_gid t \<in> set gs")
    case True
    then have "append_remaining gid (t # ts) gs = append_remaining gid ts gs" by auto
    with Cons.IH [OF Cons.prems] True Cons.prems show ?thesis by auto
  next
    case False
    then have "append_remaining gid (t # ts) gs = append_remaining gid ts (insert_gid_sorted (tok_gid t) gs)" by auto
    with Cons.IH [of "insert_gid_sorted (tok_gid t) gs"] False Cons.prems
    show ?thesis by (auto simp: set_insert_gid sorted_insert_gid)
  qed
qed auto

section \<open>Properties\<close>

text \<open>
  The user argument round-trips.  For every identity and list of groups, each a 32-bit
  number or a name (not empty, shorter than 256, without a colon and not all digits), parsing
  the string \<open>identity:group:...\<close> gives a user with exactly that identity and those group tokens,
  in order, and nothing else filled in.
\<close>

theorem user_new_parses_shown:
  assumes "ident_ok i" and "\<forall>g \<in> set gs. ident_ok g"
  shows "user_new (Some (show_user i gs)) None r =
    Some ((with_ident i (user_zero\<lparr>u_rootfs := r\<rparr>))\<lparr>u_tokens := map token_of gs\<rparr>)"
proof -
  let ?u = "user_zero\<lparr>u_rootfs := r\<rparr>"
  note p = show_ident_props [OF assms(1)]
  have ne: "show_user i gs \<noteq> []" using p(1) by (simp add: show_user_def)
  have t0: "u_tokens (with_ident i ?u) = []" by (cases i) (simp_all add: user_zero_def)
  have none: "add_tokens u None = Some u" for u by (simp add: add_tokens_def append_tokens_def)
  show ?thesis
  proof (cases gs)
    case Nil
    then have s: "show_user i gs = show_ident i" by (simp add: show_user_def)
    have "strchr_pos COLON (show_ident i) = None" using p(3) by (simp add: strchr_pos_None)
    then show ?thesis using ne p none t0 Nil unfolding s
      by (cases i) (auto simp: user_new_def parse_user_body_def parse_user_identity_def Let_def)
  next
    case (Cons g hs)
    then have s: "show_user i gs = show_ident i @ COLON # show_user g hs" by (simp add: show_user_def)
    have c: "strchr_pos COLON (show_user i gs) = Some (length (show_ident i))"
      unfolding s using p(3) by (induction "show_ident i") (auto simp: strchr_pos_append)
    have "parse_user_identity ?u (show_user i gs) (Some (length (show_ident i))) = Some (with_ident i ?u)"
      using p by (simp add: parse_user_identity_def s)
    then have "user_new (Some (show_user i gs)) None r = add_tokens (with_ident i ?u) (Some (show_user g hs))"
      using ne c none by (simp add: user_new_def parse_user_body_def Let_def) (simp add: s)
    also have "\<dots> = Some ((with_ident i ?u)\<lparr>u_tokens := map token_of gs\<rparr>)"
      using add_tokens_show [of g hs "with_ident i ?u"] assms(2) Cons t0 by simp
    finally show ?thesis .
  qed
qed

lemma user_new_parses_shown_witness:
  "user_new (Some (show_user (Name ''bob'') [Uid 100, Name ''wheel''])) None None =
     Some (user_zero\<lparr>u_name := Some ''bob'', u_name_given := True,
       u_tokens := [\<lparr>tok_name = None, tok_gid = 100\<rparr>, \<lparr>tok_name = Some ''wheel'', tok_gid = 0\<rparr>]\<rparr>)"
  using user_new_parses_shown [of "Name ''bob''" "[Uid 100, Name ''wheel'']" None]
  by (simp add: COLON_def is_digit_def user_zero_def)

text \<open>
  C29: the group list handed to \<open>setgroups\<close>.  The first call of \<open>get_groups\<close> yields a strictly
  ascending list (so without duplicates) that holds exactly the primary group and the groups
  of all resolved tokens.
\<close>

theorem get_groups_sorted_complete:
  assumes "u_groups u = None" and "get_groups pwdb grdb u = (gs, u')"
  shows "sorted_wrt (<) gs \<and>
    set gs = insert (u_gid u') {tok_gid t | t. t \<in> set (u_tokens u') \<and> tok_name t = None}"
proof -
  have keep: "u_groups (resolve_passwd pwdb x) = u_groups x" for x
  proof -
    have "u_groups (resolve_by_uid x pws) = u_groups x" for pws
      by (induction x pws rule: resolve_by_uid.induct) (auto simp: set_root_fallback_def)
    then show ?thesis
      by (auto simp: resolve_passwd_def resolve_passwd_nodb_def set_root_fallback_def resolve_by_name_def
          assign_from_passwd_def split: option.splits)
  qed
  have enum: "u_groups (foldl (\<lambda>u gr. if P u gr then append_group_token u (f gr) else u) x grs) = u_groups x" for P f x and grs :: "group list"
    by (induction grs arbitrary: x) (auto simp: append_group_token_def)
  have rg: "u_groups (resolve_groups pwdb grdb x) = u_groups x" for x
    by (auto simp: resolve_groups_def resolve_groups_enum_def resolve_groups_by_tokens_def resolve_named_in_group_def
        keep enum Let_def split: option.splits)
  have gg: "u_groups (snd (get_gid pwdb grdb x)) = u_groups x" for x
    by (auto simp: get_gid_def get_gid_from_passwd_def get_uid_def keep rg Let_def split: prod.splits)
  let ?u = "snd (get_gid pwdb grdb (resolve_groups pwdb grdb u))"
  have "u_groups ?u = None" by (simp add: gg rg assms(1))
  then have r: "gs = append_remaining (u_gid ?u) (u_tokens ?u) [u_gid ?u]"
    "u' = ?u\<lparr>u_groups := Some gs\<rparr>"
    using assms(2) by (auto simp: get_groups_def Let_def ensure_primary_gid_in_groups_def append_remaining_gids_def)
  then show ?thesis using append_remaining_spec [of "[u_gid ?u]" "u_gid ?u" "u_tokens ?u"] by auto
qed

lemma get_groups_sorted_complete_witness:
  "sorted_wrt (<) (fst (get_groups (\<lambda>_. None) (\<lambda>_. None)
     (user_zero\<lparr>u_tokens := [\<lparr>tok_name = None, tok_gid = 20\<rparr>, \<lparr>tok_name = None, tok_gid = 10\<rparr>]\<rparr>)))"
  using get_groups_sorted_complete [of "user_zero\<lparr>u_tokens := [\<lparr>tok_name = None, tok_gid = 20\<rparr>,
      \<lparr>tok_name = None, tok_gid = 10\<rparr>]\<rparr>" "\<lambda>_. None" "\<lambda>_. None"]
  by (simp add: user_zero_def prod_eq_iff)

text \<open>
  an unknown user name never becomes root by accident.  For a user given by name, the user
  id is the one of the first entry with that name in the guest's \<open>passwd\<close>, else the one of its
  \<open>nobody\<close> entry, and 65534 when there is neither or no readable database.
\<close>

theorem named_user_uid:
  assumes "u_name u = Some name" and "\<not> u_uid_filled u" and "\<not> u_passwd_parsed u"
  shows "fst (get_uid pwdb u) =
    (case open_db pwdb (u_rootfs u) ''etc/passwd'' of
       None \<Rightarrow> 65534
     | Some pws \<Rightarrow>
         (case find (\<lambda>pw. pw_name pw = name) pws of
            Some pw \<Rightarrow> pw_uid pw
          | None \<Rightarrow> (case find (\<lambda>pw. pw_name pw = ''nobody'') pws of Some pw \<Rightarrow> pw_uid pw | None \<Rightarrow> 65534)))"
  using assms
  by (auto simp: get_uid_def resolve_passwd_def resolve_passwd_nodb_def resolve_by_name_def assign_from_passwd_def
      NOBODY_ID_def Let_def split: option.splits)

lemma named_user_uid_witness:
  "fst (get_uid (\<lambda>p. if p = ''/r/etc/passwd'' then Some [\<lparr>pw_name = ''root'', pw_uid = 0, pw_gid = 0, pw_dir = ''/root'', pw_shell = ''/bin/sh''\<rparr>] else None)
     (user_zero\<lparr>u_name := Some ''eve'', u_name_given := True, u_rootfs := Some ''/r''\<rparr>)) = 65534"
  using named_user_uid [of "user_zero\<lparr>u_name := Some ''eve'', u_name_given := True, u_rootfs := Some ''/r''\<rparr>" "''eve''"
      "\<lambda>p. if p = ''/r/etc/passwd'' then Some [\<lparr>pw_name = ''root'', pw_uid = 0, pw_gid = 0, pw_dir = ''/root'', pw_shell = ''/bin/sh''\<rparr>] else None"]
  by (simp add: user_zero_def open_db_def db_path_def PATH_MAX_def)

end
