(* ===== verification/Os.thy ===== *)
theory Os
  imports Prelude
begin

text \<open>
  The operating system as the modelled code sees it.  A function that makes system calls takes
  the answers as a parameter, which may depend on everything called before, and extends the
  trace of calls and answers.  An answer carries the return value, \<open>errno\<close>, the bytes a read
  or a receive delivers, the names in an opened directory and the fields of \<open>struct stat\<close> the
  code looks at.  The calls about mounts, namespaces, processes and temporary files, and those about
  kernel modules and loop devices, are datatypes of their own.  A path that a call gives back is the
  first of the names; \<open>waitpid\<close> gives its status in the mode, \<open>statfs\<close> the file-system type in
  the device, and \<open>pipe\<close> its two ends in the size and the device.  The calls on shared memory,
  extended attributes and credentials are the third such datatype: \<open>getresuid\<close> and \<open>getresgid\<close> give the
  real id in the owner and the effective one in the group, a load from shared memory gives the
  word as its return value, and a \<open>waitid\<close> that does not block gives \<open>si_pid\<close> in the size.  An opened
  directory gives the \<open>d_type\<close> of each of its names as a byte.
\<close>

datatype ns_call =
    Mount "string option" string "string option" nat "string option"
  | Chroot string | Unshare nat | Setns int nat | Flock int nat | Kill int nat | Nanosleep nat
  | Mkstemp string | Mkdtemp string | Fchmod int nat | Realpath string | Statfs string
  | Getpid

datatype dev_call =
    Uname | Lseek int | Memfd_create | Finit_module int string nat | Write_data int "byte list"
  | Pipe | Fdopen int | Fread nat | Dup2 int int | Rename string string
  | Loop_control | Loop_get_free int | Loop_add int | Loop_open int | Loop_get_stat int
  | Loop_set_fd int int | Loop_set_status int nat | Loop_clr_fd int
  | Isdir_nofollow string | Waitid int

datatype ipc_call =
    Setxattr string string "byte list" | Fstat int | Getresuid | Getresgid
  | Map_shared nat | Unmap int nat | Load int | Store int int | Wait_nohang int
  | Futex_wait int int | Futex_wait_to int int nat | Futex_wake int nat

datatype syscall =
    Socket nat nat | Bind int | Close int
  | Sendmsg int "byte list" | Recvmsg int nat bool
  | Stat string | Chown string u32 u32 | Chmod string nat | Umask nat
  | Chdir string | Mkdir string nat
  | Setregid u32 u32 | Setgroups "u32 list" | Setreuid u32 u32
  | Execve string "string list" "string list" | Execvp string "string list"
  | Fork | Waitpid int | Exit int
  | Openat int string nat nat | Mkdirat int string nat
  | Fstatat int string | Fchownat int string u32 u32
  | Open string nat | Read int nat | Write int string | Opendir string
  | Lstat string | Access string | Unlink string | Rmdir string | Symlink string string
  | Ns ns_call | Dev dev_call | Ipc ipc_call

record stat =
  st_uid :: u32
  st_gid :: u32
  st_mode :: nat
  st_size :: nat
  st_dev :: nat

record answer =
  a_ret :: int
  a_errno :: int
  a_data :: "byte list"
  a_names :: "string list"
  a_stat :: stat

type_synonym trace = "(syscall \<times> answer) list"
type_synonym os = "trace \<Rightarrow> syscall \<Rightarrow> answer"

definition ENOENT :: int where "ENOENT = 2"
definition EACCES :: int where "EACCES = 13"
definition EINTR :: int where "EINTR = 4"
definition EINVAL :: int where "EINVAL = 22"
definition ESRCH :: int where "ESRCH = 3"
definition ECHILD :: int where "ECHILD = 10"
definition ENODEV :: int where "ENODEV = 19"
definition EEXIST :: int where "EEXIST = 17"

definition EBUSY :: int where "EBUSY = 16"
definition ENOSPC :: int where "ENOSPC = 28"
definition ENXIO :: int where "ENXIO = 6"
definition EOPNOTSUPP :: int where "EOPNOTSUPP = 95"

definition a_path :: "answer \<Rightarrow> string" where
  "a_path a = (case a_names a of [] \<Rightarrow> [] | n # _ \<Rightarrow> n)"

text \<open>How a function ends that may leave the process.\<close>

datatype outcome = Returned int | Exited int

text \<open>One system call.\<close>

definition sys :: "os \<Rightarrow> syscall \<Rightarrow> trace \<Rightarrow> answer \<times> trace" where
  "sys os c tr = (let a = os tr c in (a, tr @ [(c, a)]))"

text \<open>The file type bits of a mode: \<open>S_ISDIR\<close>, \<open>S_ISREG\<close> and \<open>S_ISLNK\<close>.\<close>

definition S_ISDIR :: "nat \<Rightarrow> bool" where "S_ISDIR m \<longleftrightarrow> m div 4096 mod 16 = 4"
definition S_ISREG :: "nat \<Rightarrow> bool" where "S_ISREG m \<longleftrightarrow> m div 4096 mod 16 = 8"
definition S_ISLNK :: "nat \<Rightarrow> bool" where "S_ISLNK m \<longleftrightarrow> m div 4096 mod 16 = 10"

text \<open>The calls of a trace, and whether one was made and answered in a given way.\<close>

definition calls :: "trace \<Rightarrow> syscall list" where
  "calls tr = map fst tr"

lemma sys_trace [simp]: "snd (sys os c tr) = tr @ [(c, os tr c)]" "fst (sys os c tr) = os tr c"
  by (simp_all add: sys_def Let_def)

lemma calls_simps [simp]:
  "calls [] = []" "calls (a @ b) = calls a @ calls b" "calls ((c, r) # tr) = c # calls tr"
  by (simp_all add: calls_def)

text \<open>An answer with only a return value, for concrete systems.\<close>

definition ret :: "int \<Rightarrow> answer" where
  "ret r = \<lparr>a_ret = r, a_errno = 0, a_data = [], a_names = [], a_stat = \<lparr>st_uid = 0, st_gid = 0, st_mode = 0, st_size = 0, st_dev = 0\<rparr>\<rparr>"

lemma ret_simps [simp]: "a_ret (ret r) = r" "a_errno (ret r) = 0" "a_data (ret r) = []" "a_names (ret r) = []"
  by (simp_all add: ret_def)

end
