(* ===== verification/Netlink.thy ===== *)
theory Netlink
  imports Bytes Os
begin

text \<open>
  Netlink messages (\<^verbatim>\<open>src/net/netlink.c\<close>, \<^verbatim>\<open>src/net/netlink.h\<close>): building attributes into a
  buffer, walking messages and attributes, sending and receiving.  A buffer is the byte list of
  the C array and a pointer into it an offset.  The layouts of \<open>nlmsghdr\<close>, \<open>nlattr\<close> and the
  other kernel structures, the \<open>NLMSG_\<close> macros and the numeric constants are those of the Linux
  headers.  An \<open>int\<close> function that also writes through pointers returns the new contents.

  A walk over messages keeps the remaining length in a \<open>size_t\<close>, which wraps as in the code; a
  header beyond the end of the array is the result \<open>None\<close>.
\<close>

section \<open>Layout\<close>

definition NLMSG_HDRLEN :: nat where "NLMSG_HDRLEN = 16"
definition NLA_HDRLEN :: nat where "NLA_HDRLEN = 4"

text \<open>\<open>NLMSG_ALIGN\<close> and \<open>NLA_ALIGN\<close>, on sizes and on 32-bit fields.\<close>

definition align4 :: "nat \<Rightarrow> nat" where
  "align4 n = (n + 3) div 4 * 4"

definition NLMSG_LENGTH :: "nat \<Rightarrow> nat" where
  "NLMSG_LENGTH n = n + NLMSG_HDRLEN"

definition NLMSG_SPACE :: "nat \<Rightarrow> nat" where
  "NLMSG_SPACE n = align4 (NLMSG_LENGTH n)"

definition nlmsg_len :: "byte list \<Rightarrow> nat \<Rightarrow> u32" where "nlmsg_len buf h = get32 buf h"
definition nlmsg_type :: "byte list \<Rightarrow> nat \<Rightarrow> u16" where "nlmsg_type buf h = get16 buf (h + 4)"
definition nla_len :: "byte list \<Rightarrow> nat \<Rightarrow> u16" where "nla_len buf a = get16 buf a"
definition nla_type :: "byte list \<Rightarrow> nat \<Rightarrow> u16" where "nla_type buf a = get16 buf (a + 2)"

definition set_nlmsg_len :: "u32 \<Rightarrow> byte list \<Rightarrow> byte list" where
  "set_nlmsg_len v buf = put_bytes buf 0 (le32 v)"
definition set_nlmsg_type :: "u16 \<Rightarrow> byte list \<Rightarrow> byte list" where
  "set_nlmsg_type v buf = put_bytes buf 4 (le16 v)"
definition set_nlmsg_flags :: "u16 \<Rightarrow> byte list \<Rightarrow> byte list" where
  "set_nlmsg_flags v buf = put_bytes buf 6 (le16 v)"
definition set_nlmsg_seq :: "u32 \<Rightarrow> byte list \<Rightarrow> byte list" where
  "set_nlmsg_seq v buf = put_bytes buf 8 (le32 v)"
definition set_nlmsg_pid :: "u32 \<Rightarrow> byte list \<Rightarrow> byte list" where
  "set_nlmsg_pid v buf = put_bytes buf 12 (le32 v)"

definition NLM_F_REQUEST :: u16 where "NLM_F_REQUEST = 0x1"
definition NLM_F_ACK :: u16 where "NLM_F_ACK = 0x4"
definition NLM_F_EXCL :: u16 where "NLM_F_EXCL = 0x200"
definition NLM_F_CREATE :: u16 where "NLM_F_CREATE = 0x400"
definition NLM_F_APPEND :: u16 where "NLM_F_APPEND = 0x800"
definition NLM_F_DUMP :: u16 where "NLM_F_DUMP = 0x300"
definition NLMSG_ERROR :: u16 where "NLMSG_ERROR = 2"
definition NLMSG_DONE :: u16 where "NLMSG_DONE = 3"
definition NLA_F_NESTED :: u16 where "NLA_F_NESTED = 0x8000"
definition AF_NETLINK :: nat where "AF_NETLINK = 16"
definition NETLINK_ROUTE :: nat where "NETLINK_ROUTE = 0"
definition NETLINK_NETFILTER :: nat where "NETLINK_NETFILTER = 12"

section \<open>Walking\<close>

text \<open>
  \<open>NLA_OK (attr, len)\<close> and \<open>NLMSG_OK (h, rem)\<close> read a header only when enough bytes remain.
  \<open>NLA_NEXT\<close> and \<open>NLMSG_NEXT\<close> advance the pointer and lower the length.
\<close>

definition NLA_OK :: "byte list \<Rightarrow> nat \<Rightarrow> int \<Rightarrow> bool option" where
  "NLA_OK buf a alen =
     (if alen < 4 then Some False
      else if length buf < a + 4 then None
      else Some (4 \<le> nla_len buf a \<and> uint (nla_len buf a) \<le> alen))"

definition nla_next :: "byte list \<Rightarrow> nat \<Rightarrow> nat" where
  "nla_next buf a = a + align4 (unat (nla_len buf a))"

definition nla_rest :: "byte list \<Rightarrow> nat \<Rightarrow> int \<Rightarrow> int" where
  "nla_rest buf a alen = alen - int (align4 (unat (nla_len buf a)))"

definition NLMSG_OK :: "byte list \<Rightarrow> nat \<Rightarrow> u64 \<Rightarrow> bool option" where
  "NLMSG_OK buf h rem =
     (if rem < 16 then Some False
      else if length buf < h + 16 then None
      else Some (16 \<le> nlmsg_len buf h \<and> ucast (nlmsg_len buf h) \<le> rem))"

definition nlmsg_next :: "byte list \<Rightarrow> nat \<Rightarrow> nat" where
  "nlmsg_next buf h = h + align4 (unat (nlmsg_len buf h))"

definition nlmsg_rest :: "byte list \<Rightarrow> nat \<Rightarrow> u64 \<Rightarrow> u64" where
  "nlmsg_rest buf h rem = rem - of_nat (align4 (unat (nlmsg_len buf h)))"

lemma align4_ge: "n \<le> align4 n"
  unfolding align4_def by linarith

lemma align4_less: "align4 n < n + 4"
  unfolding align4_def by linarith

lemma align4_0 [simp]: "align4 0 = 0" and align4_Suc3: "0 < n \<Longrightarrow> 4 \<le> align4 n"
  by (auto simp: align4_def)

lemma align4_idem [simp]: "align4 (align4 n) = align4 n"
  by (simp add: align4_def)

lemma NLA_OK_progress: "NLA_OK buf a alen = Some True \<Longrightarrow> nat (nla_rest buf a alen) < nat alen"
proof -
  assume ok: "NLA_OK buf a alen = Some True"
  then have "4 \<le> unat (nla_len buf a)" and "4 \<le> alen"
    unfolding NLA_OK_def by (auto simp: word_le_nat_alt split: if_splits)
  moreover from this have "4 \<le> align4 (unat (nla_len buf a))" using align4_ge order.trans by blast
  ultimately show ?thesis unfolding nla_rest_def by linarith
qed

lemma NLMSG_OK_progress:
  "NLMSG_OK buf h rem = Some True \<Longrightarrow> length buf - nlmsg_next buf h < length buf - h"
proof -
  assume ok: "NLMSG_OK buf h rem = Some True"
  then have "16 \<le> unat (nlmsg_len buf h)" and "h + 16 \<le> length buf"
    by (auto simp: NLMSG_OK_def word_le_nat_alt split: if_splits)
  moreover have "unat (nlmsg_len buf h) \<le> align4 (unat (nlmsg_len buf h))" by (rule align4_ge)
  ultimately show ?thesis by (simp add: nlmsg_next_def)
qed

text \<open>\<open>nl_has_done\<close> looks for the end of a dump or an error among the messages.\<close>

function nl_has_done_loop :: "byte list \<Rightarrow> nat \<Rightarrow> u64 \<Rightarrow> bool option" where
  "nl_has_done_loop buf h rem =
     (case NLMSG_OK buf h rem of
        None \<Rightarrow> None
      | Some ok \<Rightarrow>
          if ok then
            if nlmsg_type buf h = NLMSG_DONE \<or> nlmsg_type buf h = NLMSG_ERROR then Some True
            else nl_has_done_loop buf (nlmsg_next buf h) (nlmsg_rest buf h rem)
          else Some False)"
  by pat_completeness auto
termination
  by (relation "measure (\<lambda>(buf, h, rem). length buf - h)") (auto intro: NLMSG_OK_progress)

declare nl_has_done_loop.simps [simp del]

definition nl_has_done :: "byte list \<Rightarrow> nat \<Rightarrow> nat \<Rightarrow> bool option" where
  "nl_has_done buf start len = nl_has_done_loop buf start (of_nat len)"

section \<open>Building\<close>

type_synonym nlbuf = "byte list \<times> nat"   \<comment> \<open>the buffer and \<open>*off\<close>\<close>

record nl_attr =
  at_type :: u16
  at_data :: "byte list"

definition netlink_put_attr :: "nat \<Rightarrow> nl_attr \<Rightarrow> nlbuf \<Rightarrow> int \<times> nlbuf" where
  "netlink_put_attr cap attr s =
     (let (buf, off) = s; l = length (at_data attr) in
      if 65535 - 4 < l then (-1, s)
      else
        let alen = align4 (4 + l) in
        if cap < off \<or> cap - off < alen then (-1, s)
        else
          let buf = put_bytes buf off (le16 (of_nat (4 + l)));
              buf = put_bytes buf (off + 2) (le16 (at_type attr));
              buf = put_bytes buf (off + 4) (at_data attr)
          in (0, (buf, off + alen)))"

definition netlink_put_string :: "nat \<Rightarrow> u16 \<Rightarrow> string \<Rightarrow> nlbuf \<Rightarrow> int \<times> nlbuf" where
  "netlink_put_string cap type val s =
     (let (r, buf, off) = netlink_put_attr cap \<lparr>at_type = type, at_data = cstr_bytes val\<rparr> s in
      if r \<noteq> 0 then (-1, (buf, off))
      else (0, (set_nlmsg_len (of_nat off) buf, off)))"

definition netlink_put_u32 :: "nat \<Rightarrow> u16 \<Rightarrow> u32 \<Rightarrow> nlbuf \<Rightarrow> int \<times> nlbuf" where
  "netlink_put_u32 cap type val s =
     netlink_put_attr cap \<lparr>at_type = type, at_data = le32 val\<rparr> s"

text \<open>The third component is \<open>*start\<close>; it is not written on failure.\<close>

definition netlink_nest_start :: "nat \<Rightarrow> u16 \<Rightarrow> nlbuf \<Rightarrow> int \<times> nlbuf \<times> nat" where
  "netlink_nest_start cap type s =
     (let (buf, off) = s in
      if cap < off + 4 then (-1, s, 0)
      else (0, (put_bytes buf (off + 2) (le16 type), off + 4), off))"

definition netlink_nest_end :: "nat \<Rightarrow> nlbuf \<Rightarrow> nlbuf" where
  "netlink_nest_end start s =
     (let (buf, off) = s in (put_bytes buf start (le16 (of_nat (off - start))), off))"

definition netlink_request_len :: nat where
  "netlink_request_len = NLMSG_SPACE 1"

definition netlink_request_fill :: "byte list \<Rightarrow> nat \<Rightarrow> u16 \<Rightarrow> u16 \<Rightarrow> byte \<Rightarrow> byte list" where
  "netlink_request_fill buf len type flags family =
     (let buf = set_nlmsg_len (of_nat len) buf;
          buf = set_nlmsg_type type buf;
          buf = set_nlmsg_flags (NLM_F_REQUEST OR flags) buf;
          buf = set_nlmsg_seq 1 buf;
          buf = set_nlmsg_pid 0 buf
      in put_bytes buf NLMSG_HDRLEN [family])"

section \<open>The socket\<close>

text \<open>\<open>nl_open\<close> returns \<open>*fd\<close>, \<open>None\<close> for a failure.\<close>

definition nl_open :: "os \<Rightarrow> nat \<Rightarrow> trace \<Rightarrow> int option \<times> trace" where
  "nl_open os protocol tr =
     (let (a, tr) = sys os (Socket AF_NETLINK protocol) tr in
      if a_ret a < 0 then (None, tr)
      else
        let s = a_ret a; (b, tr) = sys os (Bind s) tr in
        if a_ret b < 0 then (let (_, tr) = sys os (Close s) tr in (None, tr))
        else (Some s, tr))"

definition netlink_open :: "os \<Rightarrow> trace \<Rightarrow> int option \<times> trace" where
  "netlink_open os tr = nl_open os NETLINK_ROUTE tr"

definition netfilter_open :: "os \<Rightarrow> trace \<Rightarrow> int option \<times> trace" where
  "netfilter_open os tr = nl_open os NETLINK_NETFILTER tr"

definition netlink_close :: "os \<Rightarrow> int \<Rightarrow> trace \<Rightarrow> trace" where
  "netlink_close os fd tr = snd (sys os (Close fd) tr)"

definition netlink_send :: "os \<Rightarrow> int \<Rightarrow> byte list \<Rightarrow> trace \<Rightarrow> int \<times> trace" where
  "netlink_send os fd msg tr =
     (let (a, tr) = sys os (Sendmsg fd msg) tr in if a_ret a < 0 then (-1, tr) else (0, tr))"

text \<open>
  \<open>recvmsg\<close> delivers at most the capacity it was given.  The received bytes are the second
  component; the buffer they go to keeps its other bytes.
\<close>

definition netlink_recv_flags ::
  "os \<Rightarrow> int \<Rightarrow> nat \<Rightarrow> bool \<Rightarrow> trace \<Rightarrow> int \<times> byte list \<times> trace" where
  "netlink_recv_flags os fd cap dontwait tr =
     (let (a, tr) = sys os (Recvmsg fd cap dontwait) tr in
      if a_ret a < 0 then (-1, [], tr) else (0, take cap (a_data a), tr))"

definition netlink_recv :: "os \<Rightarrow> int \<Rightarrow> nat \<Rightarrow> trace \<Rightarrow> int \<times> byte list \<times> trace" where
  "netlink_recv os fd cap tr = netlink_recv_flags os fd cap False tr"

definition netlink_recv_nb :: "os \<Rightarrow> int \<Rightarrow> nat \<Rightarrow> trace \<Rightarrow> int \<times> byte list \<times> trace" where
  "netlink_recv_nb os fd cap tr = netlink_recv_flags os fd cap True tr"

text \<open>
  \<open>netlink_recv_dump\<close>: the result is the buffer and \<open>*len\<close>; \<open>None\<close> when a walk leaves the
  array, \<open>Some (-1, ...)\<close> for a failed receive.
\<close>

function recv_dump_loop ::
  "os \<Rightarrow> int \<Rightarrow> nat \<Rightarrow> byte list \<Rightarrow> nat \<Rightarrow> trace \<Rightarrow> (int \<times> byte list \<times> nat \<times> trace) option" where
  "recv_dump_loop os fd cap buf tot tr =
     (if cap \<le> tot then Some (0, buf, tot, tr)
      else
        let (r, d, tr) = netlink_recv os fd (cap - tot) tr in
        if r < 0 then Some (-1, buf, tot, tr)
        else if length d = 0 then Some (0, buf, tot, tr)
        else
          let buf = put_bytes buf tot d; tot = tot + length d in
          (case nl_has_done buf (tot - length d) (length d) of
             None \<Rightarrow> None
           | Some True \<Rightarrow> Some (0, buf, tot, tr)
           | Some False \<Rightarrow> recv_dump_loop os fd cap buf tot tr))"
  by pat_completeness auto
termination by (relation "measure (\<lambda>(os, fd, cap, buf, tot, tr). cap - tot)")
    (auto intro!: diff_less_mono2)

declare recv_dump_loop.simps [simp del]

definition netlink_recv_dump ::
  "os \<Rightarrow> int \<Rightarrow> nat \<Rightarrow> byte list \<Rightarrow> trace \<Rightarrow> (int \<times> byte list \<times> nat \<times> trace) option" where
  "netlink_recv_dump os fd cap buf tr = recv_dump_loop os fd cap buf 0 tr"

text \<open>\<open>ack\<close> is the array; \<open>None\<close> cannot occur here, as 16 bytes are known to be there.\<close>

definition netlink_ack_result :: "byte list \<Rightarrow> nat \<Rightarrow> int" where
  "netlink_ack_result ack alen =
     (if alen < NLMSG_HDRLEN then -1
      else if NLMSG_OK ack 0 (of_nat alen) \<noteq> Some True then -1
      else if nlmsg_type ack 0 \<noteq> NLMSG_ERROR then 0
      else if unat (nlmsg_len ack 0) < NLMSG_LENGTH 20 then -1
      else if get32 ack NLMSG_HDRLEN = 0 then 0 else -1)"

definition netlink_send_ack :: "os \<Rightarrow> int \<Rightarrow> byte list \<Rightarrow> trace \<Rightarrow> int \<times> trace" where
  "netlink_send_ack os fd msg tr =
     (let (r, tr) = netlink_send os fd msg tr in
      if r < 0 then (-1, tr)
      else
        let (r, ack, tr) = netlink_recv os fd 4096 tr in
        if r < 0 then (-1, tr) else (netlink_ack_result ack (length ack), tr))"

end
