(* ===== verification/NetlinkSpec.thy ===== *)
theory NetlinkSpec
  imports Netlink
begin

text \<open>
  What netlink buffers mean: the bytes of attributes and of messages, the lemmas that the
  builders of Netlink append exactly those bytes, and that the walks visit exactly the attributes
  and messages a buffer was made of.
\<close>

section \<open>Attributes and messages as bytes\<close>

datatype nla = Nla (nla_ty: u16) (nla_payload: "byte list")

fun nla_bytes :: "nla \<Rightarrow> byte list" where
  "nla_bytes (Nla t d) =
     le16 (of_nat (4 + length d)) @ le16 t @ d @ replicate (align4 (4 + length d) - (4 + length d)) 0"

definition nlas_bytes :: "nla list \<Rightarrow> byte list" where
  "nlas_bytes as = concat (map nla_bytes as)"

fun nla_fits :: "nla \<Rightarrow> bool" where
  "nla_fits (Nla t d) \<longleftrightarrow> 4 + length d < 65536"

text \<open>A nested attribute: some fixed bytes and attributes.\<close>

definition nest :: "u16 \<Rightarrow> byte list \<Rightarrow> nla list \<Rightarrow> nla" where
  "nest t c as = Nla (t OR NLA_F_NESTED) (c @ nlas_bytes as)"

record nlmsg =
  m_type :: u16
  m_flags :: u16
  m_seq :: u32
  m_pid :: u32
  m_body :: "byte list"

definition msg_size :: "nlmsg \<Rightarrow> nat" where
  "msg_size m = 16 + length (m_body m)"

definition msg_bytes :: "nlmsg \<Rightarrow> byte list" where
  "msg_bytes m =
     le32 (of_nat (msg_size m)) @ le16 (m_type m) @ le16 (m_flags m) @ le32 (m_seq m) @
     le32 (m_pid m) @ m_body m"

text \<open>The kernel pads messages, so that their length is a multiple of four.\<close>

definition msg_ok :: "nlmsg \<Rightarrow> bool" where
  "msg_ok m \<longleftrightarrow> msg_size m mod 4 = 0 \<and> msg_size m < 2 ^ 32"

definition msgs_bytes :: "nlmsg list \<Rightarrow> byte list" where
  "msgs_bytes ms = concat (map msg_bytes ms)"

lemma nlas_bytes_simps [simp]:
  "nlas_bytes [] = []" "nlas_bytes (a # as) = nla_bytes a @ nlas_bytes as"
  "nlas_bytes (as @ bs) = nlas_bytes as @ nlas_bytes bs"
  by (simp_all add: nlas_bytes_def)

lemma msgs_bytes_simps [simp]:
  "msgs_bytes [] = []" "msgs_bytes (m # ms) = msg_bytes m @ msgs_bytes ms"
  by (simp_all add: msgs_bytes_def)

lemma length_nla_bytes [simp]: "length (nla_bytes (Nla t d)) = align4 (4 + length d)"
  using align4_ge [of "4 + length d"] by simp

lemma length_msg_bytes [simp]: "length (msg_bytes m) = msg_size m"
  by (simp add: msg_bytes_def msg_size_def)

lemma align4_add: "align4 (align4 a + b) = align4 a + align4 b"
proof -
  have "(x * 4 + b + 3) div 4 = x + (b + 3) div 4" for x :: nat by presburger
  then have "(align4 a + b + 3) div 4 = (a + 3) div 4 + (b + 3) div 4" unfolding align4_def by blast
  then show ?thesis unfolding align4_def [of "align4 a + b"] by (simp add: align4_def)
qed

lemma nlas_mod [simp]: "length (nlas_bytes as) mod 4 = 0"
proof (induction as)
  case (Cons a as)
  moreover have "align4 n mod 4 = 0" for n by (simp add: align4_def)
  ultimately show ?case by (cases a) (simp add: mod_add_eq [symmetric] del: nla_bytes.simps)
qed simp

lemma align4_nlas [simp]: "align4 (length (nlas_bytes as)) = length (nlas_bytes as)"
proof (induction as)
  case (Cons a as)
  then show ?case by (cases a) (simp add: align4_add del: nla_bytes.simps)
qed simp

section \<open>Building appends\<close>

lemma put_zeros:
  assumes "length d \<le> n"
  shows "put_bytes (xs @ replicate n 0) (length xs) d = xs @ d @ replicate (n - length d) 0"
  using assms by (simp add: put_bytes_def)

lemma put_at:
  assumes "length d = length old"
  shows "put_bytes (xs @ old @ ys) (length xs) d = xs @ d @ ys"
  using assms by (simp add: put_bytes_def)

text \<open>
  A message under construction: the length field, the bytes written so far and zeros up to the
  capacity.  The offset is behind what is written.
\<close>

definition bld :: "nat \<Rightarrow> u32 \<Rightarrow> byte list \<Rightarrow> nlbuf" where
  "bld cap l xs = (le32 l @ xs @ replicate (cap - (4 + length xs)) 0, 4 + length xs)"

lemma bld_snd [simp]: "snd (bld cap l xs) = 4 + length xs"
  by (simp add: bld_def)

lemma put_attr_bld:
  assumes "4 + length (at_data a) < 65536"
    and "4 + length xs + align4 (4 + length (at_data a)) \<le> cap"
  shows "netlink_put_attr cap a (bld cap l xs) =
         (0, bld cap l (xs @ nla_bytes (Nla (at_type a) (at_data a))))"
proof -
  let ?d = "at_data a" and ?n = "cap - (4 + length xs)"
  let ?al = "align4 (4 + length ?d)"
  let ?h = "le32 l @ xs"
  have al: "4 + length ?d \<le> ?al" by (rule align4_ge)
  have n: "?al \<le> ?n" using assms(2) by simp
  have 1: "put_bytes (?h @ replicate ?n 0) (4 + length xs) (le16 (of_nat (4 + length ?d))) =
      (?h @ le16 (of_nat (4 + length ?d))) @ replicate (?n - 2) 0"
    using put_zeros [of "le16 (of_nat (4 + length ?d))" ?n ?h] n al by simp
  have 2: "put_bytes ((?h @ le16 x) @ replicate (?n - 2) 0) (4 + length xs + 2) (le16 (at_type a)) =
      (?h @ le16 x @ le16 (at_type a)) @ replicate (?n - 4) 0" for x
    using put_zeros [of "le16 (at_type a)" "?n - 2" "?h @ le16 x"] n al by simp
  have 3: "put_bytes ((?h @ le16 x @ le16 (at_type a)) @ replicate (?n - 4) 0) (4 + length xs + 4) ?d =
      ?h @ le16 x @ le16 (at_type a) @ ?d @ replicate (?n - 4 - length ?d) 0" for x
    using put_zeros [of ?d "?n - 4" "?h @ le16 x @ le16 (at_type a)"] n al by simp
  have 4: "?n - 4 - length ?d = (?al - (4 + length ?d)) + (cap - (4 + length xs + ?al))"
    using assms(2) al n by linarith
  have pad: "replicate (?n - 4 - length ?d) (0::byte) =
      replicate (?al - (4 + length ?d)) 0 @ replicate (cap - (4 + length xs + ?al)) 0"
    unfolding 4 by (rule replicate_add)
  have len: "4 + length (xs @ nla_bytes (Nla (at_type a) ?d)) = 4 + length xs + ?al"
    by (simp del: nla_bytes.simps)
  have "netlink_put_attr cap a (bld cap l xs) =
      (0, put_bytes (put_bytes (put_bytes (?h @ replicate ?n 0) (4 + length xs)
            (le16 (of_nat (4 + length ?d)))) (4 + length xs + 2) (le16 (at_type a)))
            (4 + length xs + 4) ?d, 4 + length xs + ?al)"
    using assms n by (simp add: netlink_put_attr_def bld_def Let_def)
  also have "\<dots> = (0, ?h @ le16 (of_nat (4 + length ?d)) @ le16 (at_type a) @ ?d @
      replicate (?n - 4 - length ?d) 0, 4 + length xs + ?al)"
    by (simp only: 1 2 3)
  also have "\<dots> = (0, bld cap l (xs @ nla_bytes (Nla (at_type a) ?d)))"
    unfolding bld_def len pad by simp
  finally show ?thesis .
qed

lemma set_len_bld: "set_nlmsg_len v (fst (bld cap l xs)) = fst (bld cap v xs)"
  using put_at [of "le32 v" "le32 l" "[]"] by (simp add: set_nlmsg_len_def bld_def)

lemma put_string_bld:
  assumes "5 + length s < 65536" and "4 + length xs + align4 (5 + length s) \<le> cap"
  shows "netlink_put_string cap t s (bld cap l xs) =
    (0, bld cap (of_nat (4 + length xs + align4 (5 + length s))) (xs @ nla_bytes (Nla t (cstr_bytes s))))"
proof -
  let ?a = "\<lparr>at_type = t, at_data = cstr_bytes s\<rparr>"
  let ?y = "xs @ nla_bytes (Nla t (cstr_bytes s))"
  let ?n = "4 + length xs + align4 (5 + length s)"
  have e: "bld cap v ?y = (fst (bld cap v ?y), ?n)" for v
    by (simp add: bld_def del: nla_bytes.simps)
  have "netlink_put_attr cap ?a (bld cap l xs) = (0, bld cap l ?y)"
    using put_attr_bld [of ?a xs cap l] assms by (simp del: nla_bytes.simps)
  then have "netlink_put_attr cap ?a (bld cap l xs) = (0, fst (bld cap l ?y), ?n)"
    using e [of l] by (rule trans [OF _ arg_cong [where f = "Pair 0"]])
  then have "netlink_put_string cap t s (bld cap l xs) = (0, fst (bld cap (of_nat ?n) ?y), ?n)"
    unfolding netlink_put_string_def
    by (simp add: Let_def set_len_bld del: nla_bytes.simps of_nat_add)
  then show ?thesis using e [of "of_nat ?n"] by (rule trans [OF _ arg_cong [where f = "Pair 0", OF sym]])
qed

lemma put_u32_bld:
  assumes "4 + length xs + 8 \<le> cap"
  shows "netlink_put_u32 cap t v (bld cap l xs) = (0, bld cap l (xs @ nla_bytes (Nla t (le32 v))))"
  using put_attr_bld [of "\<lparr>at_type = t, at_data = le32 v\<rparr>" xs cap l] assms
  by (simp add: netlink_put_u32_def align4_def del: nla_bytes.simps)

text \<open>An open nest is two zero bytes and the type; closing it stores the length.\<close>

definition nest_open :: "u16 \<Rightarrow> byte list" where
  "nest_open t = [0, 0] @ le16 (t OR NLA_F_NESTED)"

lemma length_nest_open [simp]: "length (nest_open t) = 4"
  by (simp add: nest_open_def)

lemma nest_start_bld:
  assumes "8 + length xs \<le> cap"
  shows "netlink_nest_start cap (t OR NLA_F_NESTED) (bld cap l xs) =
         (0, bld cap l (xs @ nest_open t), 4 + length xs)"
proof -
  let ?n = "cap - (4 + length xs)"
  have "?n = 2 + (?n - 2)" using assms by simp
  then have "replicate ?n (0::byte) = [0, 0] @ replicate (?n - 2) 0"
    by (metis Suc_1 add_2_eq_Suc append_Cons append_Nil replicate_Suc)
  then have "put_bytes (le32 l @ xs @ replicate ?n 0) (4 + length xs + 2) (le16 (t OR NLA_F_NESTED)) =
      (le32 l @ xs @ [0, 0]) @ le16 (t OR NLA_F_NESTED) @ replicate (?n - 2 - 2) 0"
    using put_zeros [of "le16 (t OR NLA_F_NESTED)" "?n - 2" "le32 l @ xs @ [0, 0]"] assms
    by simp
  then show ?thesis using assms by (simp add: netlink_nest_start_def bld_def nest_open_def)
qed

lemma nest_end_bld:
  assumes "length c mod 4 = 0"
  shows "netlink_nest_end (4 + length xs) (bld cap l (xs @ nest_open t @ c)) =
         bld cap l (xs @ nla_bytes (Nla (t OR NLA_F_NESTED) c))"
proof -
  let ?n = "cap - (4 + length (xs @ nest_open t @ c))"
  let ?v = "of_nat (4 + length c) :: u16"
  have "put_bytes ((le32 l @ xs) @ [0, 0] @ le16 (t OR NLA_F_NESTED) @ c @ replicate ?n 0)
      (length (le32 l @ xs)) (le16 ?v) =
      (le32 l @ xs) @ le16 ?v @ le16 (t OR NLA_F_NESTED) @ c @ replicate ?n 0"
    by (rule put_at) simp
  moreover have "4 + length (xs @ nest_open t @ c) - (4 + length xs) = 4 + length c"
    by simp
  moreover have "align4 (4 + length c) = 4 + length c" using assms unfolding align4_def by presburger
  ultimately show ?thesis
    unfolding netlink_nest_end_def bld_def nest_open_def by simp
qed

lemma put_bytes_append: "i + length d \<le> length xs \<Longrightarrow> put_bytes (xs @ ys) i d = put_bytes xs i d @ ys"
  by (simp add: put_bytes_def)

text \<open>A fixed header is written into the zeros at the front of the buffer.\<close>

lemma bld_of_header:
  assumes "h = le32 0 @ xs" and "length h \<le> cap"
  shows "(h @ replicate (cap - length h) 0, length h) = bld cap 0 xs"
  using assms by (simp add: bld_def)

section \<open>Walks visit what was built\<close>

lemma nla_len_at [simp]: "nla_len (pre @ nla_bytes (Nla t d) @ post) (length pre) = of_nat (4 + length d)"
  by (simp add: nla_len_def)

lemma nla_type_at [simp]: "nla_type (pre @ nla_bytes (Nla t d) @ post) (length pre) = t"
  using get16_le16 [of "pre @ le16 (of_nat (4 + length d))" t
      "d @ replicate (align4 (4 + length d) - (4 + length d)) 0 @ post"]
  by (simp add: nla_type_def)

text \<open>The string that a name attribute carries.\<close>

definition nla_str :: "byte list \<Rightarrow> string" where
  "nla_str d = map char_at (takeWhile (\<lambda>b. b \<noteq> 0) d)"

lemma nla_str_cstr [simp]: "char_of (0 :: nat) \<notin> set s \<Longrightarrow> nla_str (cstr_bytes s) = s"
  using cstr_at_bytes [of s "[]" "[]"] by (simp add: nla_str_def cstr_at_def)

lemma nla_str_at:
  assumes "0 \<in> set d"
  shows "cstr_at (pre @ nla_bytes (Nla t d) @ post) (length pre + 4) = nla_str d"
proof -
  have "takeWhile (\<lambda>b. b \<noteq> 0) (d @ r) = takeWhile (\<lambda>b. b \<noteq> 0) d" for r :: "byte list"
    by (rule takeWhile_append1) (use assms in auto)
  then show ?thesis by (simp add: cstr_at_def nla_str_def)
qed

lemma nla_len_nat: "4 + length d < 65536 \<Longrightarrow> unat (of_nat (4 + length d) :: u16) = 4 + length d"
  by (rule unat_of_nat_small) simp

lemma NLA_OK_at:
  assumes "nla_fits (Nla t d)" and "int (align4 (4 + length d)) \<le> alen"
  shows "NLA_OK (pre @ nla_bytes (Nla t d) @ post) (length pre) alen = Some True"
proof -
  have u: "unat (of_nat (4 + length d) :: u16) = 4 + length d"
    by (rule nla_len_nat) (use assms(1) in simp)
  have "int (4 + length d) \<le> alen" using align4_ge [of "4 + length d"] assms(2) by linarith
  moreover have "uint (of_nat (4 + length d) :: u16) = int (4 + length d)"
    using u by (metis uint_nat)
  moreover have "4 \<le> (of_nat (4 + length d) :: u16)" using u by (simp add: word_le_nat_alt del: of_nat_add)
  ultimately show ?thesis
    unfolding NLA_OK_def nla_len_at by simp
qed

lemma nla_next_at:
  assumes "nla_fits (Nla t d)"
  shows "nla_next (pre @ nla_bytes (Nla t d) @ post) (length pre) = length (pre @ nla_bytes (Nla t d))"
    and "nla_rest (pre @ nla_bytes (Nla t d) @ post) (length pre) alen = alen - int (length (nla_bytes (Nla t d)))"
proof -
  have "unat (of_nat (4 + length d) :: u16) = 4 + length d"
    by (rule nla_len_nat) (use assms in simp)
  then show "nla_next (pre @ nla_bytes (Nla t d) @ post) (length pre) = length (pre @ nla_bytes (Nla t d))"
    and "nla_rest (pre @ nla_bytes (Nla t d) @ post) (length pre) alen = alen - int (length (nla_bytes (Nla t d)))"
    unfolding nla_next_def nla_rest_def nla_len_at by (simp_all del: nla_bytes.simps)
qed

text \<open>The same for messages.\<close>

lemma nlmsg_len_at [simp]: "nlmsg_len (pre @ msg_bytes m @ post) (length pre) = of_nat (msg_size m)"
  by (simp add: nlmsg_len_def msg_bytes_def)

lemma nlmsg_type_at [simp]: "nlmsg_type (pre @ msg_bytes m @ post) (length pre) = m_type m"
  using get16_le16 [of "pre @ le32 (of_nat (msg_size m))" "m_type m"
      "le16 (m_flags m) @ le32 (m_seq m) @ le32 (m_pid m) @ m_body m @ post"]
  by (simp add: nlmsg_type_def msg_bytes_def)

lemma align4_eq: "n mod 4 = 0 \<Longrightarrow> align4 n = n"
  unfolding align4_def by presburger

lemma NLMSG_OK_at:
  assumes "msg_ok m" and "rem = of_nat r" and "msg_size m \<le> r" and "r < 2 ^ 64"
  shows "NLMSG_OK (pre @ msg_bytes m @ post) (length pre) rem = Some True"
    and "nlmsg_next (pre @ msg_bytes m @ post) (length pre) = length (pre @ msg_bytes m)"
    and "nlmsg_rest (pre @ msg_bytes m @ post) (length pre) rem = of_nat (r - msg_size m)"
proof -
  have u: "unat (of_nat (msg_size m) :: u32) = msg_size m"
    using assms(1) by (intro unat_of_nat_small) (simp add: msg_ok_def)
  have r: "unat rem = r" using assms(2,4) by (simp add: unat_of_nat_small)
  have s: "16 \<le> msg_size m" by (simp add: msg_size_def)
  have "\<not> rem < 16" using r s assms(3) by (simp add: word_less_nat_alt)
  moreover have "16 \<le> (of_nat (msg_size m) :: u32)" using u s by (simp add: word_le_nat_alt)
  moreover have "(ucast (of_nat (msg_size m) :: u32) :: u64) \<le> rem"
  proof -
    have "unat (ucast (of_nat (msg_size m) :: u32) :: u64) = msg_size m"
      using u assms(3,4) by (simp add: unsigned_ucast_eq take_bit_nat_eq_self)
    then show ?thesis using r assms(3) by (simp add: word_le_nat_alt)
  qed
  ultimately show "NLMSG_OK (pre @ msg_bytes m @ post) (length pre) rem = Some True"
    using s unfolding NLMSG_OK_def nlmsg_len_at by simp
  have a: "align4 (msg_size m) = msg_size m" using assms(1) by (simp add: msg_ok_def align4_eq)
  show "nlmsg_next (pre @ msg_bytes m @ post) (length pre) = length (pre @ msg_bytes m)"
    and "nlmsg_rest (pre @ msg_bytes m @ post) (length pre) rem = of_nat (r - msg_size m)"
    unfolding nlmsg_next_def nlmsg_rest_def nlmsg_len_at u a using assms(2,3) by simp_all
qed

lemma NLMSG_OK_end: "NLMSG_OK buf h 0 = Some False"
  by (simp add: NLMSG_OK_def)

lemma NLA_OK_end: "NLA_OK buf a 0 = Some False"
  by (simp add: NLA_OK_def)

end
