(* ===== verification/Rtnl.thy ===== *)
theory Rtnl
  imports NetlinkSpec
begin

text \<open>
  Routing messages (\<^verbatim>\<open>src/net/rtnl.c\<close>): requests that create a veth pair, set addresses, bring a
  link up and add a default route, and the search of a link dump by name.  Every \<open>netlink_fill_\<close>
  function gets a buffer of \<open>cap\<close> bytes and returns its new contents; the callers give at
  least 128 bytes, so the fixed headers fit.
\<close>

definition RTM_NEWLINK :: u16 where "RTM_NEWLINK = 16"
definition RTM_GETLINK :: u16 where "RTM_GETLINK = 18"
definition RTM_NEWADDR :: u16 where "RTM_NEWADDR = 20"
definition RTM_NEWROUTE :: u16 where "RTM_NEWROUTE = 24"
definition IFLA_IFNAME :: u16 where "IFLA_IFNAME = 3"
definition IFLA_LINKINFO :: u16 where "IFLA_LINKINFO = 18"
definition IFLA_INFO_KIND :: u16 where "IFLA_INFO_KIND = 1"
definition IFLA_INFO_DATA :: u16 where "IFLA_INFO_DATA = 2"
definition IFLA_NET_NS_FD :: u16 where "IFLA_NET_NS_FD = 28"
definition VETH_INFO_PEER :: u16 where "VETH_INFO_PEER = 1"
definition IFA_ADDRESS :: u16 where "IFA_ADDRESS = 1"
definition IFA_LOCAL :: u16 where "IFA_LOCAL = 2"
definition IFA_BROADCAST :: u16 where "IFA_BROADCAST = 4"
definition IFA_F_NODAD :: byte where "IFA_F_NODAD = 2"
definition IFF_UP :: u32 where "IFF_UP = 1"
definition RTA_OIF :: u16 where "RTA_OIF = 4"
definition RTA_GATEWAY :: u16 where "RTA_GATEWAY = 5"
definition RT_TABLE_MAIN :: byte where "RT_TABLE_MAIN = 254"
definition RTPROT_BOOT :: byte where "RTPROT_BOOT = 3"
definition RT_SCOPE_UNIVERSE :: byte where "RT_SCOPE_UNIVERSE = 0"
definition RTN_UNICAST :: byte where "RTN_UNICAST = 1"
definition AF_UNSPEC :: byte where "AF_UNSPEC = 0"
definition AF_INET :: byte where "AF_INET = 2"
definition AF_INET6 :: byte where "AF_INET6 = 10"

section \<open>Filling requests\<close>

text \<open>\<open>struct ifinfomsg\<close>: family at 0, index at 4, flags at 8, change at 12.\<close>

definition fill_ifinfomsg :: "byte \<Rightarrow> u32 \<Rightarrow> byte list \<Rightarrow> byte list" where
  "fill_ifinfomsg family change buf =
     (let buf = put_bytes buf NLMSG_HDRLEN [family]
      in put_bytes buf (NLMSG_HDRLEN + 12) (le32 change))"

definition put_ifinfomsg_zero :: "nat \<Rightarrow> nlbuf \<Rightarrow> int \<times> nlbuf" where
  "put_ifinfomsg_zero cap s =
     (let (buf, off) = s in
      if cap < off + 16 then (-1, s)
      else (0, (put_bytes buf off (replicate 16 0), off + 16)))"

definition fill_veth_peer :: "nat \<Rightarrow> string \<Rightarrow> int \<Rightarrow> nlbuf \<Rightarrow> int \<times> nlbuf" where
  "fill_veth_peer cap peer nsfd s =
     (let (r, s, vp) = netlink_nest_start cap (VETH_INFO_PEER OR NLA_F_NESTED) s in
      if r < 0 then (-1, s)
      else let (r, s) = put_ifinfomsg_zero cap s in
      if r < 0 then (-1, s)
      else let (r, s) = netlink_put_string cap IFLA_IFNAME peer s in
      if r < 0 then (-1, s)
      else let (r, s) = netlink_put_u32 cap IFLA_NET_NS_FD (word_of_int nsfd) s in
      if r < 0 then (-1, s)
      else (0, netlink_nest_end vp s))"

definition fill_veth_linkinfo :: "nat \<Rightarrow> string \<Rightarrow> int \<Rightarrow> nlbuf \<Rightarrow> int \<times> nlbuf" where
  "fill_veth_linkinfo cap peer nsfd s =
     (let (r, s, li) = netlink_nest_start cap (IFLA_LINKINFO OR NLA_F_NESTED) s in
      if r < 0 then (-1, s)
      else let (r, s) = netlink_put_string cap IFLA_INFO_KIND ''veth'' s in
      if r < 0 then (-1, s)
      else let (r, s, d) = netlink_nest_start cap (IFLA_INFO_DATA OR NLA_F_NESTED) s in
      if r < 0 then (-1, s)
      else let (r, s) = fill_veth_peer cap peer nsfd s in
      if r < 0 then (-1, s)
      else (0, netlink_nest_end li (netlink_nest_end d s)))"

definition netlink_fill_create_veth :: "nat \<Rightarrow> string \<Rightarrow> string \<Rightarrow> int \<Rightarrow> int \<times> byte list" where
  "netlink_fill_create_veth cap host_name peer_name nsfd =
     (let buf = replicate cap 0;
          buf = set_nlmsg_type RTM_NEWLINK buf;
          buf = set_nlmsg_flags (NLM_F_REQUEST OR NLM_F_CREATE OR NLM_F_EXCL OR NLM_F_ACK) buf;
          buf = set_nlmsg_seq 1 buf;
          buf = fill_ifinfomsg AF_UNSPEC 0xFFFFFFFF buf;
          off = NLMSG_HDRLEN + 16;
          (r, s) = netlink_put_string cap IFLA_IFNAME host_name (buf, off) in
      if r < 0 then (-1, fst s)
      else let (r, s) = fill_veth_linkinfo cap peer_name nsfd s in
      if r < 0 then (-1, fst s)
      else (0, set_nlmsg_len (of_nat (snd s)) (fst s)))"

definition netlink_fill_dump_link :: "nat \<Rightarrow> byte list \<Rightarrow> int \<times> byte list" where
  "netlink_fill_dump_link cap buf =
     (let len = netlink_request_len in
      if cap < len then (-1, buf)
      else
        let buf = put_bytes buf 0 (replicate len 0)
        in (int len, netlink_request_fill buf len RTM_GETLINK NLM_F_DUMP AF_UNSPEC))"

definition fill_addr_attrs :: "nat \<Rightarrow> int \<Rightarrow> u32 \<Rightarrow> nlbuf \<Rightarrow> int \<times> nlbuf" where
  "fill_addr_attrs cap prefix local s =
     (let addr = htonl local;
          (r, s) = netlink_put_u32 cap IFA_LOCAL addr s in
      if r < 0 then (-1, s)
      else if prefix \<le> 0 \<or> 31 \<le> prefix then (0, s)
      else
        let nm = htonl (push_bit (nat (32 - prefix)) 1 - 1)
        in netlink_put_u32 cap IFA_BROADCAST (addr OR nm) s)"

text \<open>\<open>struct ifaddrmsg\<close>: family at 0, prefix length at 1, flags at 2, index at 4.\<close>

definition fill_addr_hdr :: "int \<Rightarrow> int \<Rightarrow> byte \<Rightarrow> byte list \<Rightarrow> byte list" where
  "fill_addr_hdr ifindex prefix family buf =
     (let buf = set_nlmsg_type RTM_NEWADDR buf;
          buf = set_nlmsg_flags (NLM_F_REQUEST OR NLM_F_CREATE OR NLM_F_EXCL OR NLM_F_ACK) buf;
          buf = set_nlmsg_seq 1 buf;
          buf = put_bytes buf NLMSG_HDRLEN [family];
          buf = put_bytes buf (NLMSG_HDRLEN + 1) [word_of_int prefix]
      in put_bytes buf (NLMSG_HDRLEN + 4) (le32 (word_of_int ifindex)))"

definition netlink_fill_addr :: "nat \<Rightarrow> int \<Rightarrow> int \<Rightarrow> u32 \<Rightarrow> int \<times> byte list" where
  "netlink_fill_addr cap ifindex prefix local =
     (let buf = fill_addr_hdr ifindex prefix AF_INET (replicate cap 0);
          off = NLMSG_HDRLEN + 8;
          (r, s) = fill_addr_attrs cap prefix local (buf, off) in
      if r < 0 then (-1, fst s)
      else (0, set_nlmsg_len (of_nat (snd s)) (fst s)))"

definition netlink_fill_addr6 :: "nat \<Rightarrow> int \<Rightarrow> int \<Rightarrow> byte list \<Rightarrow> int \<times> byte list" where
  "netlink_fill_addr6 cap ifindex prefix addr =
     (let buf = fill_addr_hdr ifindex prefix AF_INET6 (replicate cap 0);
          buf = put_bytes buf (NLMSG_HDRLEN + 2) [IFA_F_NODAD];
          off = NLMSG_HDRLEN + 8;
          (r, s) = netlink_put_attr cap \<lparr>at_type = IFA_ADDRESS, at_data = addr\<rparr> (buf, off) in
      if r < 0 then (-1, fst s)
      else (0, set_nlmsg_len (of_nat (snd s)) (fst s)))"

definition netlink_fill_up :: "nat \<Rightarrow> int \<Rightarrow> int \<times> byte list" where
  "netlink_fill_up cap ifindex =
     (let buf = replicate cap 0;
          buf = set_nlmsg_type RTM_NEWLINK buf;
          buf = set_nlmsg_flags (NLM_F_REQUEST OR NLM_F_ACK) buf;
          buf = set_nlmsg_seq 1 buf;
          buf = fill_ifinfomsg AF_UNSPEC IFF_UP buf;
          buf = put_bytes buf (NLMSG_HDRLEN + 4) (le32 (word_of_int ifindex));
          buf = put_bytes buf (NLMSG_HDRLEN + 8) (le32 IFF_UP);
          off = NLMSG_HDRLEN + 16
      in (0, set_nlmsg_len (of_nat off) buf))"

definition fill_route_attrs :: "nat \<Rightarrow> int \<Rightarrow> u32 \<Rightarrow> nlbuf \<Rightarrow> int \<times> nlbuf" where
  "fill_route_attrs cap oif gw s =
     (let (r, s) = netlink_put_u32 cap RTA_GATEWAY (htonl gw) s in
      if r < 0 then (-1, s) else netlink_put_u32 cap RTA_OIF (word_of_int oif) s)"

text \<open>
  \<open>struct rtmsg\<close>: family at 0, table at 4, protocol at 5, scope at 6, type at 7, then 4 bytes
  of flags.
\<close>

definition fill_route_hdr :: "byte \<Rightarrow> byte list \<Rightarrow> byte list" where
  "fill_route_hdr family buf =
     (let buf = set_nlmsg_type RTM_NEWROUTE buf;
          buf = set_nlmsg_flags (NLM_F_REQUEST OR NLM_F_CREATE OR NLM_F_EXCL OR NLM_F_ACK) buf;
          buf = set_nlmsg_seq 1 buf;
          buf = put_bytes buf NLMSG_HDRLEN [family];
          buf = put_bytes buf (NLMSG_HDRLEN + 4) [RT_TABLE_MAIN];
          buf = put_bytes buf (NLMSG_HDRLEN + 5) [RTPROT_BOOT];
          buf = put_bytes buf (NLMSG_HDRLEN + 6) [RT_SCOPE_UNIVERSE]
      in put_bytes buf (NLMSG_HDRLEN + 7) [RTN_UNICAST])"

definition netlink_fill_default_route :: "nat \<Rightarrow> int \<Rightarrow> u32 \<Rightarrow> int \<times> byte list" where
  "netlink_fill_default_route cap oif gw =
     (let buf = fill_route_hdr AF_INET (replicate cap 0);
          off = NLMSG_HDRLEN + 12;
          (r, s) = fill_route_attrs cap oif gw (buf, off) in
      if r < 0 then (-1, fst s)
      else (0, set_nlmsg_len (of_nat (snd s)) (fst s)))"

definition netlink_fill_default_route6 :: "nat \<Rightarrow> int \<Rightarrow> byte list \<Rightarrow> int \<times> byte list" where
  "netlink_fill_default_route6 cap oif gw =
     (let buf = fill_route_hdr AF_INET6 (replicate cap 0);
          off = NLMSG_HDRLEN + 12;
          (r, s) = netlink_put_attr cap \<lparr>at_type = RTA_GATEWAY, at_data = gw\<rparr> (buf, off) in
      if r < 0 then (-1, fst s)
      else let (r, s) = netlink_put_u32 cap RTA_OIF (word_of_int oif) s in
      if r < 0 then (-1, fst s)
      else (0, set_nlmsg_len (of_nat (snd s)) (fst s)))"

section \<open>Searching a dump\<close>

function link_has_name :: "byte list \<Rightarrow> nat \<Rightarrow> int \<Rightarrow> string \<Rightarrow> bool option" where
  "link_has_name buf a alen name =
     (case NLA_OK buf a alen of
        None \<Rightarrow> None
      | Some ok \<Rightarrow>
          if ok then
            if nla_type buf a = IFLA_IFNAME \<and> cstr_at buf (a + NLA_HDRLEN) = name then Some True
            else link_has_name buf (nla_next buf a) (nla_rest buf a alen) name
          else Some False)"
  by pat_completeness auto
termination
  by (relation "measure (\<lambda>(buf, a, alen, name). nat alen)") (auto dest: NLA_OK_progress)

declare link_has_name.simps [simp del]

text \<open>\<open>(int) NLMSG_PAYLOAD (h, sizeof (struct ifinfomsg))\<close>\<close>

definition link_payload :: "byte list \<Rightarrow> nat \<Rightarrow> int" where
  "link_payload buf h = sint (nlmsg_len buf h - of_nat (NLMSG_SPACE 16))"

text \<open>The result is \<open>*ifindex\<close> when the function returns 1.\<close>

function find_ifname_loop :: "byte list \<Rightarrow> nat \<Rightarrow> u64 \<Rightarrow> string \<Rightarrow> int option option" where
  "find_ifname_loop buf h rem name =
     (case NLMSG_OK buf h rem of
        None \<Rightarrow> None
      | Some ok \<Rightarrow>
          if ok then
            if nlmsg_type buf h \<noteq> RTM_NEWLINK then
              find_ifname_loop buf (nlmsg_next buf h) (nlmsg_rest buf h rem) name
            else
              (case link_has_name buf (h + NLMSG_HDRLEN + align4 16) (link_payload buf h) name of
                 None \<Rightarrow> None
               | Some found \<Rightarrow>
                   if found then Some (Some (sint (get32 buf (h + NLMSG_HDRLEN + 4))))
                   else find_ifname_loop buf (nlmsg_next buf h) (nlmsg_rest buf h rem) name)
          else Some None)"
  by pat_completeness auto
termination
  by (relation "measure (\<lambda>(buf, h, rem, name). length buf - h)") (auto dest: NLMSG_OK_progress)

declare find_ifname_loop.simps [simp del]

definition netlink_find_ifname :: "byte list \<Rightarrow> nat \<Rightarrow> string \<Rightarrow> int option option" where
  "netlink_find_ifname buf len name = find_ifname_loop buf 0 (of_nat len) name"

text \<open>
  \<open>netlink_dump_find_ifname\<close>: \<open>dbuf\<close> is what the array on the stack holds before.  The result is
  \<open>*idx\<close> when the function returns 0.
\<close>

definition netlink_dump_find_ifname ::
  "os \<Rightarrow> int \<Rightarrow> string \<Rightarrow> byte list \<Rightarrow> trace \<Rightarrow> (int option \<times> trace) option" where
  "netlink_dump_find_ifname os fd name dbuf tr =
     (let (len, dbuf) = netlink_fill_dump_link 16384 dbuf in
      if len < 0 then Some (None, tr)
      else
        let (r, tr) = netlink_send os fd (take (nat len) dbuf) tr in
        if r < 0 then Some (None, tr)
        else
          (case netlink_recv_dump os fd 16384 dbuf tr of
             None \<Rightarrow> None
           | Some (r, dbuf, rlen, tr) \<Rightarrow>
               if r < 0 then Some (None, tr)
               else
                 (case netlink_find_ifname dbuf rlen name of
                    None \<Rightarrow> None
                  | Some idx \<Rightarrow> Some (idx, tr))))"

definition netlink_create_veth ::
  "os \<Rightarrow> int \<Rightarrow> string \<Rightarrow> string \<Rightarrow> int \<Rightarrow> byte list \<Rightarrow> trace \<Rightarrow> (int option \<times> trace) option" where
  "netlink_create_veth os fd host peer nsfd dbuf tr =
     (let (r, buf) = netlink_fill_create_veth 512 host peer nsfd in
      if r < 0 then Some (None, tr)
      else
        let (r, tr) = netlink_send_ack os fd (take (unat (nlmsg_len buf 0)) buf) tr in
        if r < 0 then Some (None, tr)
        else netlink_dump_find_ifname os fd host dbuf tr)"

definition dump_all ::
  "os \<Rightarrow> int \<Rightarrow> byte list \<Rightarrow> nat \<Rightarrow> trace \<Rightarrow> (int \<times> byte list \<times> nat \<times> trace) option" where
  "dump_all os fd buf cap tr =
     (let (len, buf) = netlink_fill_dump_link cap buf in
      if len < 0 then Some (-1, buf, 0, tr)
      else
        let (r, tr) = netlink_send os fd (take (nat len) buf) tr in
        if r < 0 then Some (-1, buf, 0, tr)
        else netlink_recv_dump os fd cap buf tr)"

section \<open>Dumps\<close>

text \<open>
  A dump is a sequence of messages: links, with a fixed part of 16 bytes and attributes, and
  others.  The names of a link are the strings of its name attributes.
\<close>

datatype dump_msg =
    NewLink u16 u32 u32 "byte list" "nla list"
  | OtherMsg nlmsg

fun to_msg :: "dump_msg \<Rightarrow> nlmsg" where
  "to_msg (NewLink f s p i as) =
     \<lparr>m_type = RTM_NEWLINK, m_flags = f, m_seq = s, m_pid = p, m_body = i @ nlas_bytes as\<rparr>"
| "to_msg (OtherMsg m) = m"

fun link_attr_ok :: "nla \<Rightarrow> bool" where
  "link_attr_ok (Nla t d) \<longleftrightarrow> nla_fits (Nla t d) \<and> (t = IFLA_IFNAME \<longrightarrow> 0 \<in> set d)"

fun dump_ok :: "dump_msg \<Rightarrow> bool" where
  "dump_ok (NewLink f s p i as) \<longleftrightarrow>
     length i = 16 \<and> list_all link_attr_ok as \<and> 32 + length (nlas_bytes as) < 2 ^ 31"
| "dump_ok (OtherMsg m) \<longleftrightarrow> msg_ok m \<and> m_type m \<noteq> RTM_NEWLINK"

definition attr_names :: "nla list \<Rightarrow> string list" where
  "attr_names as = map (\<lambda>a. nla_str (nla_payload a)) (filter (\<lambda>a. nla_ty a = IFLA_IFNAME) as)"

fun link_names :: "dump_msg \<Rightarrow> string list" where
  "link_names (NewLink f s p i as) = attr_names as"
| "link_names (OtherMsg m) = []"

fun link_index :: "dump_msg \<Rightarrow> int" where
  "link_index (NewLink f s p i as) = sint (get32 i 4)"
| "link_index (OtherMsg m) = 0"

definition dump_bytes :: "dump_msg list \<Rightarrow> byte list" where
  "dump_bytes ms = msgs_bytes (map to_msg ms)"

lemma dump_bytes_simps [simp]:
  "dump_bytes [] = []" "dump_bytes (m # ms) = msg_bytes (to_msg m) @ dump_bytes ms"
  by (simp_all add: dump_bytes_def)

lemma msg_size_link: "length i = 16 \<Longrightarrow> msg_size (to_msg (NewLink f s p i as)) = 32 + length (nlas_bytes as)"
  by (simp add: msg_size_def)

lemma dump_ok_msg: "dump_ok m \<Longrightarrow> msg_ok (to_msg m)"
proof (cases m)
  case (NewLink f s p i as)
  assume ok: "dump_ok m"
  have "length (nlas_bytes as) mod 4 = 0"
    using align4_nlas [of as] unfolding align4_def by (metis mod_mult_self2_is_0)
  then have "(32 + length (nlas_bytes as)) mod 4 = 0" by presburger
  then show ?thesis using ok NewLink by (simp add: msg_ok_def msg_size_def)
qed simp

lemma link_has_name_walk:
  assumes "list_all link_attr_ok as"
  shows "link_has_name (pre @ nlas_bytes as @ post) (length pre) (int (length (nlas_bytes as))) name =
         Some (name \<in> set (attr_names as))"
  using assms
proof (induction as arbitrary: pre)
  case Nil
  then show ?case by (simp add: link_has_name.simps NLA_OK_end attr_names_def)
next
  case (Cons a as)
  obtain t d where a: "a = Nla t d" by (cases a)
  let ?b = "pre @ nla_bytes (Nla t d) @ nlas_bytes as @ post"
  let ?l = "int (length (nlas_bytes (a # as)))"
  have f: "nla_fits (Nla t d)" and z: "t = IFLA_IFNAME \<Longrightarrow> 0 \<in> set d" using Cons.prems a by auto
  have ok: "NLA_OK ?b (length pre) ?l = Some True"
    by (rule NLA_OK_at [OF f]) (simp add: a del: nla_bytes.simps)
  have ih: "link_has_name ?b (length (pre @ nla_bytes (Nla t d))) (int (length (nlas_bytes as))) name =
      Some (name \<in> set (attr_names as))"
    using Cons.IH [of "pre @ nla_bytes (Nla t d)"] Cons.prems by (simp del: nla_bytes.simps)
  have r: "nla_rest ?b (length pre) ?l = int (length (nlas_bytes as))"
    using nla_next_at(2) [OF f] by (simp add: a del: nla_bytes.simps)
  have s: "link_has_name ?b (length pre) ?l name =
      (if t = IFLA_IFNAME \<and> cstr_at ?b (length pre + NLA_HDRLEN) = name then Some True
       else Some (name \<in> set (attr_names as)))"
    by (subst link_has_name.simps)
      (simp only: ok option.case if_True nla_type_at nla_next_at(1) [OF f] r ih)
  have "attr_names (a # as) = (if t = IFLA_IFNAME then [nla_str d] else []) @ attr_names as"
    by (simp add: a attr_names_def)
  then have "link_has_name ?b (length pre) ?l name = Some (name \<in> set (attr_names (a # as)))"
    unfolding s using z nla_str_at [of d pre t "nlas_bytes as @ post"]
    by (auto simp: NLA_HDRLEN_def simp del: nla_bytes.simps)
  then show ?case by (simp add: a del: nla_bytes.simps)
qed

text \<open>The attributes of a link message inside a dump.\<close>

lemma link_region:
  fixes pre :: "byte list"
  assumes "dump_ok m" and "m = NewLink f s p i as"
  defines "q \<equiv> pre @ take 32 (msg_bytes (to_msg m))"
  shows "pre @ msg_bytes (to_msg m) @ post = q @ nlas_bytes as @ post"
    and "length pre + NLMSG_HDRLEN + align4 16 = length q"
    and "link_payload (pre @ msg_bytes (to_msg m) @ post) (length pre) = int (length (nlas_bytes as))"
    and "sint (get32 (pre @ msg_bytes (to_msg m) @ post) (length pre + NLMSG_HDRLEN + 4)) = link_index m"
proof -
  have i: "length i = 16" and z: "32 + length (nlas_bytes as) < 2 ^ 31" using assms(1,2) by auto
  let ?h = "le32 (of_nat (msg_size (to_msg m))) @ le16 RTM_NEWLINK @ le16 f @ le32 s @ le32 p"
  have mb: "msg_bytes (to_msg m) = ?h @ i @ nlas_bytes as" by (simp add: assms(2) msg_bytes_def)
  have t: "take 32 (msg_bytes (to_msg m)) = ?h @ i" unfolding mb by (simp add: i take_all)
  show "pre @ msg_bytes (to_msg m) @ post = q @ nlas_bytes as @ post"
    unfolding q_def t unfolding mb by simp
  show "length pre + NLMSG_HDRLEN + align4 16 = length q"
    unfolding q_def t using i by (simp add: NLMSG_HDRLEN_def align4_def)
  have "nlmsg_len (pre @ msg_bytes (to_msg m) @ post) (length pre) - of_nat (NLMSG_SPACE 16) =
      (of_nat (length (nlas_bytes as)) :: u32)"
    unfolding nlmsg_len_at assms(2) msg_size_link [OF i]
    by (simp add: NLMSG_SPACE_def NLMSG_LENGTH_def NLMSG_HDRLEN_def align4_def)
  moreover have "sint (of_nat (length (nlas_bytes as)) :: u32) = int (length (nlas_bytes as))"
    using z by (simp add: sint_of_nat_small)
  ultimately show "link_payload (pre @ msg_bytes (to_msg m) @ post) (length pre) = int (length (nlas_bytes as))"
    unfolding link_payload_def by simp
  have g: "get32 (a @ b @ c) (length a + 4) = get32 b 4" if "length b = 16" for a b c :: "byte list"
    using that by (simp add: get32_def nth_append)
  have "pre @ msg_bytes (to_msg m) @ post = (pre @ ?h) @ i @ nlas_bytes as @ post" unfolding mb by simp
  moreover have "length (pre @ ?h) = length pre + NLMSG_HDRLEN" by (simp add: NLMSG_HDRLEN_def)
  ultimately show "sint (get32 (pre @ msg_bytes (to_msg m) @ post) (length pre + NLMSG_HDRLEN + 4)) = link_index m"
    using g [OF i, of "pre @ ?h" "nlas_bytes as @ post"] by (simp only: assms(2) link_index.simps)
qed

lemma find_ifname_walk:
  assumes "list_all dump_ok ms" and "length (dump_bytes ms) < 2 ^ 64"
  shows "find_ifname_loop (pre @ dump_bytes ms @ post) (length pre) (of_nat (length (dump_bytes ms))) name =
         Some (map_option link_index (find (\<lambda>m. name \<in> set (link_names m)) ms))"
  using assms
proof (induction ms arbitrary: pre)
  case Nil
  then show ?case by (simp add: find_ifname_loop.simps NLMSG_OK_end)
next
  case (Cons m ms)
  let ?b = "pre @ msg_bytes (to_msg m) @ dump_bytes ms @ post"
  let ?r = "msg_size (to_msg m) + length (dump_bytes ms)"
  have ok: "dump_ok m" using Cons.prems by simp
  note N = NLMSG_OK_at [OF dump_ok_msg [OF ok] refl, of ?r pre "dump_bytes ms @ post"]
  have r: "msg_size (to_msg m) \<le> ?r" "?r < 2 ^ 64" using Cons.prems(2) by simp_all
  have ih: "find_ifname_loop ?b (length (pre @ msg_bytes (to_msg m))) (of_nat (?r - msg_size (to_msg m))) name =
      Some (map_option link_index (find (\<lambda>m. name \<in> set (link_names m)) ms))"
    using Cons.IH [of "pre @ msg_bytes (to_msg m)"] Cons.prems by simp
  have s: "find_ifname_loop ?b (length pre) (of_nat ?r) name =
      (if m_type (to_msg m) \<noteq> RTM_NEWLINK then
         Some (map_option link_index (find (\<lambda>m. name \<in> set (link_names m)) ms))
       else (case link_has_name ?b (length pre + NLMSG_HDRLEN + align4 16) (link_payload ?b (length pre)) name of
              None \<Rightarrow> None
            | Some found \<Rightarrow>
                if found then Some (Some (sint (get32 ?b (length pre + NLMSG_HDRLEN + 4))))
                else Some (map_option link_index (find (\<lambda>m. name \<in> set (link_names m)) ms))))"
    by (subst find_ifname_loop.simps)
      (simp only: N(1) [OF r] N(2,3) [OF r] ih option.case if_True nlmsg_type_at)
  have "find_ifname_loop ?b (length pre) (of_nat ?r) name =
      Some (map_option link_index (find (\<lambda>m. name \<in> set (link_names m)) (m # ms)))"
  proof (cases m)
    case (NewLink f sq p i as)
    note L1 = link_region(1) [OF ok NewLink, of pre "dump_bytes ms @ post"]
      and L2 = link_region(2) [OF ok NewLink, of pre]
      and L3 = link_region(3,4) [OF ok NewLink, of pre "dump_bytes ms @ post"]
    have "list_all link_attr_ok as" using ok NewLink by simp
    from link_has_name_walk [OF this]
    have "link_has_name ?b (length pre + NLMSG_HDRLEN + align4 16) (link_payload ?b (length pre)) name =
        Some (name \<in> set (attr_names as))"
      unfolding L2 L3(1) unfolding L1 .
    then show ?thesis unfolding s L3(2) by (simp add: NewLink)
  next
    case (OtherMsg o')
    then show ?thesis unfolding s using ok by simp
  qed
  then show ?case by simp
qed

section \<open>The request that creates a veth pair\<close>

definition create_flags :: u16 where
  "create_flags = NLM_F_REQUEST OR NLM_F_CREATE OR NLM_F_EXCL OR NLM_F_ACK"

text \<open>What the kernel is meant to read.\<close>

definition veth_attrs :: "string \<Rightarrow> string \<Rightarrow> int \<Rightarrow> nla list" where
  "veth_attrs host peer nsfd =
     [Nla IFLA_IFNAME (cstr_bytes host),
      nest IFLA_LINKINFO []
        [Nla IFLA_INFO_KIND (cstr_bytes ''veth''),
         nest IFLA_INFO_DATA []
           [nest VETH_INFO_PEER (replicate 16 0)
              [Nla IFLA_IFNAME (cstr_bytes peer), Nla IFLA_NET_NS_FD (le32 (word_of_int nsfd))]]]]"

definition veth_info :: "byte list" where
  "veth_info = [AF_UNSPEC] @ replicate 11 0 @ le32 0xFFFFFFFF"

definition veth_request :: "string \<Rightarrow> string \<Rightarrow> int \<Rightarrow> nlmsg" where
  "veth_request host peer nsfd =
     \<lparr>m_type = RTM_NEWLINK, m_flags = create_flags, m_seq = 1, m_pid = 0,
      m_body = veth_info @ nlas_bytes (veth_attrs host peer nsfd)\<rparr>"

lemma veth_peer_bld:
  assumes "5 + length peer < 65536" and "32 + length xs + align4 (5 + length peer) + 4 \<le> cap"
  shows "\<exists>l'. fill_veth_peer cap peer nsfd (bld cap l xs) =
    (0, bld cap l' (xs @ nla_bytes (nest VETH_INFO_PEER (replicate 16 0)
         [Nla IFLA_IFNAME (cstr_bytes peer), Nla IFLA_NET_NS_FD (le32 (word_of_int nsfd))])))"
proof -
  let ?o = "nest_open VETH_INFO_PEER" and ?z = "replicate 16 (0 :: byte)"
  let ?p = "Nla IFLA_IFNAME (cstr_bytes peer)" and ?f = "Nla IFLA_NET_NS_FD (le32 (word_of_int nsfd))"
  let ?l' = "of_nat (4 + length (xs @ ?o @ ?z) + align4 (5 + length peer)) :: u32"
  have 1: "netlink_nest_start cap (VETH_INFO_PEER OR NLA_F_NESTED) (bld cap l xs) =
      (0, bld cap l (xs @ ?o), 4 + length xs)"
    by (rule nest_start_bld) (use assms in simp)
  have 2: "put_ifinfomsg_zero cap (bld cap l (xs @ ?o)) = (0, bld cap l (xs @ ?o @ ?z))"
  proof -
    let ?n = "cap - (4 + length (xs @ ?o))"
    have "put_bytes ((le32 l @ xs @ ?o) @ replicate ?n 0) (length (le32 l @ xs @ ?o)) ?z =
        (le32 l @ xs @ ?o) @ ?z @ replicate (?n - length ?z) 0"
      by (rule put_zeros) (use assms in simp)
    moreover have "length (le32 l @ xs @ ?o) = 4 + length (xs @ ?o)" by simp
    moreover have "?n - length ?z = cap - (4 + length (xs @ ?o @ ?z))" by simp
    ultimately show ?thesis using assms unfolding put_ifinfomsg_zero_def bld_def
      by simp
  qed
  have 3: "netlink_put_string cap IFLA_IFNAME peer (bld cap l (xs @ ?o @ ?z)) =
      (0, bld cap ?l' ((xs @ ?o @ ?z) @ nla_bytes ?p))"
    by (rule put_string_bld) (use assms in simp_all)
  have 4: "netlink_put_u32 cap IFLA_NET_NS_FD (word_of_int nsfd) (bld cap ?l' ((xs @ ?o @ ?z) @ nla_bytes ?p)) =
      (0, bld cap ?l' (((xs @ ?o @ ?z) @ nla_bytes ?p) @ nla_bytes ?f))"
    by (rule put_u32_bld) (use assms in \<open>simp del: nla_bytes.simps\<close>)
  have "length (?z @ nlas_bytes [?p, ?f]) mod 4 = 0"
    using nlas_mod [of "[?p, ?f]"] by (simp del: nlas_bytes_simps nla_bytes.simps add: mod_add_eq [symmetric])
  from nest_end_bld [OF this, of xs cap ?l' VETH_INFO_PEER]
  have 5: "netlink_nest_end (4 + length xs) (bld cap ?l' (((xs @ ?o @ ?z) @ nla_bytes ?p) @ nla_bytes ?f)) =
      bld cap ?l' (xs @ nla_bytes (nest VETH_INFO_PEER ?z [?p, ?f]))"
    by (simp del: nla_bytes.simps add: nest_def)
  show ?thesis
    unfolding fill_veth_peer_def Let_def 1 case_prod_conv 2 3 4 5 by (simp del: nla_bytes.simps) blast
qed

lemma length_peer:
  "length (nla_bytes (nest VETH_INFO_PEER (replicate 16 0)
     [Nla IFLA_IFNAME (cstr_bytes peer), Nla IFLA_NET_NS_FD (le32 v)])) = 28 + align4 (5 + length peer)"
proof -
  have "align4 (4 + (16 + (align4 (5 + length peer) + 8))) = 28 + align4 (5 + length peer)"
    unfolding align4_def by presburger
  moreover have "align4 8 = 8" by (simp add: align4_def)
  ultimately show ?thesis unfolding nest_def length_nla_bytes by (simp del: nla_bytes.simps)
qed

lemma veth_linkinfo_bld:
  assumes "5 + length peer < 65536" and "56 + length xs + align4 (5 + length peer) \<le> cap"
  shows "\<exists>l'. fill_veth_linkinfo cap peer nsfd (bld cap l xs) =
    (0, bld cap l' (xs @ nla_bytes (veth_attrs host peer nsfd ! 1)))"
proof -
  let ?o = "nest_open IFLA_LINKINFO" and ?d = "nest_open IFLA_INFO_DATA"
  let ?k = "Nla IFLA_INFO_KIND (cstr_bytes ''veth'')"
  let ?P = "nest VETH_INFO_PEER (replicate 16 0)
              [Nla IFLA_IFNAME (cstr_bytes peer), Nla IFLA_NET_NS_FD (le32 (word_of_int nsfd))]"
  let ?l1 = "of_nat (4 + length (xs @ ?o) + align4 (5 + length ''veth'')) :: u32"
  let ?y = "(xs @ ?o) @ nla_bytes ?k"
  have a: "align4 9 = 12" by (simp add: align4_def)
  have y: "length ?y = length xs + 16" by (simp add: a del: nla_bytes.simps)
  have 1: "netlink_nest_start cap (IFLA_LINKINFO OR NLA_F_NESTED) (bld cap l xs) =
      (0, bld cap l (xs @ ?o), 4 + length xs)"
    by (rule nest_start_bld) (use assms in simp)
  have 2: "netlink_put_string cap IFLA_INFO_KIND ''veth'' (bld cap l (xs @ ?o)) = (0, bld cap ?l1 ?y)"
    by (rule put_string_bld) (use assms a in simp_all)
  have 3: "netlink_nest_start cap (IFLA_INFO_DATA OR NLA_F_NESTED) (bld cap ?l1 ?y) =
      (0, bld cap ?l1 (?y @ ?d), 4 + length ?y)"
    by (rule nest_start_bld) (use assms y in simp)
  have "32 + length (?y @ ?d) + align4 (5 + length peer) + 4 \<le> cap"
    using assms(2) y by (simp del: nla_bytes.simps length_nla_bytes)
  from veth_peer_bld [OF assms(1) this]
  obtain l2 where 4: "fill_veth_peer cap peer nsfd (bld cap ?l1 (?y @ ?d)) =
      (0, bld cap l2 ((?y @ ?d) @ nla_bytes ?P))"
    by blast
  have "length (nlas_bytes [?P]) mod 4 = 0" by (rule nlas_mod)
  from nest_end_bld [OF this, of ?y cap l2 IFLA_INFO_DATA]
  have 5: "netlink_nest_end (4 + length ?y) (bld cap l2 ((?y @ ?d) @ nla_bytes ?P)) =
      bld cap l2 (?y @ nla_bytes (nest IFLA_INFO_DATA [] [?P]))"
    by (simp add: nest_def [of IFLA_INFO_DATA] del: nla_bytes.simps)
  have "length (nlas_bytes [?k, nest IFLA_INFO_DATA [] [?P]]) mod 4 = 0" by (rule nlas_mod)
  from nest_end_bld [OF this, of xs cap l2 IFLA_LINKINFO]
  have 6: "netlink_nest_end (4 + length xs) (bld cap l2 (?y @ nla_bytes (nest IFLA_INFO_DATA [] [?P]))) =
      bld cap l2 (xs @ nla_bytes (nest IFLA_LINKINFO [] [?k, nest IFLA_INFO_DATA [] [?P]]))"
    by (simp add: nest_def [of IFLA_LINKINFO] del: nla_bytes.simps)
  show ?thesis
    unfolding fill_veth_linkinfo_def Let_def 1 case_prod_conv 2 3 4 5 6 veth_attrs_def
    by (simp del: nla_bytes.simps) blast
qed

lemma put_at_len: "length d = length old \<Longrightarrow> length xs = i \<Longrightarrow> put_bytes (xs @ old @ ys) i d = xs @ d @ ys"
  using put_at by blast

lemma veth_header:
  assumes "32 \<le> cap"
  shows "fill_ifinfomsg AF_UNSPEC 0xFFFFFFFF (set_nlmsg_seq 1 (set_nlmsg_flags create_flags
           (set_nlmsg_type RTM_NEWLINK (replicate cap 0)))) =
         fst (bld cap 0 (le16 RTM_NEWLINK @ le16 create_flags @ le32 1 @ le32 0 @ veth_info))"
proof -
  define r where "r = replicate (cap - 32) (0::byte)"
  define z where "z = replicate 11 (0::byte)"
  let ?n = "[0, 0, 0, 0] :: byte list"
  have zl: "length z = 11" by (simp add: z_def)
  have "replicate cap (0::byte) = replicate (4 + 2 + 2 + 4 + 4 + 1 + 11 + 4 + (cap - 32)) 0"
    using assms by simp
  also have "\<dots> = ?n @ [0, 0] @ [0, 0] @ ?n @ ?n @ [0] @ z @ ?n @ r"
    unfolding replicate_add r_def z_def by (simp add: numeral_eq_Suc)
  finally have 0: "replicate cap (0::byte) = ?n @ [0, 0] @ [0, 0] @ ?n @ ?n @ [0] @ z @ ?n @ r" .
  have 1: "set_nlmsg_type RTM_NEWLINK (replicate cap 0) =
      ?n @ le16 RTM_NEWLINK @ [0, 0] @ ?n @ ?n @ [0] @ z @ ?n @ r"
    unfolding 0 set_nlmsg_type_def by (rule put_at_len) simp_all
  have 2: "set_nlmsg_flags create_flags (set_nlmsg_type RTM_NEWLINK (replicate cap 0)) =
      (?n @ le16 RTM_NEWLINK) @ le16 create_flags @ ?n @ ?n @ [0] @ z @ ?n @ r"
    unfolding 1 set_nlmsg_flags_def
    using put_at_len [of "le16 create_flags" "[0, 0]" "?n @ le16 RTM_NEWLINK" 6] by simp
  have 3: "set_nlmsg_seq 1 ((?n @ le16 RTM_NEWLINK) @ le16 create_flags @ ?n @ ?n @ [0] @ z @ ?n @ r) =
      (?n @ le16 RTM_NEWLINK @ le16 create_flags) @ le32 1 @ ?n @ [0] @ z @ ?n @ r"
    unfolding set_nlmsg_seq_def
    using put_at_len [of "le32 1" ?n "?n @ le16 RTM_NEWLINK @ le16 create_flags" 8] by simp
  let ?h = "?n @ le16 RTM_NEWLINK @ le16 create_flags @ le32 1 @ ?n"
  have 4: "put_bytes ((?n @ le16 RTM_NEWLINK @ le16 create_flags) @ le32 1 @ ?n @ [0] @ z @ ?n @ r)
      NLMSG_HDRLEN [AF_UNSPEC] = ?h @ [AF_UNSPEC] @ z @ ?n @ r"
    using put_at_len [of "[AF_UNSPEC]" "[0]" ?h 16] by (simp add: NLMSG_HDRLEN_def)
  have 5: "put_bytes (?h @ [AF_UNSPEC] @ z @ ?n @ r) (NLMSG_HDRLEN + 12) (le32 0xFFFFFFFF) =
      (?h @ [AF_UNSPEC] @ z) @ le32 0xFFFFFFFF @ r"
    using put_at_len [of "le32 0xFFFFFFFF" ?n "?h @ [AF_UNSPEC] @ z" 28] zl by (simp add: NLMSG_HDRLEN_def)
  have n: "le32 0 = ?n" by (simp add: le32_def)
  have "length (le16 RTM_NEWLINK @ le16 create_flags @ le32 1 @ le32 0 @ veth_info) = 28"
    by (simp add: veth_info_def)
  then have "fst (bld cap 0 (le16 RTM_NEWLINK @ le16 create_flags @ le32 1 @ le32 0 @ veth_info)) =
      (?h @ [AF_UNSPEC] @ z) @ le32 0xFFFFFFFF @ r"
    unfolding bld_def veth_info_def n r_def [symmetric] z_def [symmetric] by (simp add: r_def)
  then show ?thesis unfolding 2 3 fill_ifinfomsg_def Let_def 4 5 by simp
qed

text \<open>
  C30: a veth request says what was asked.  When the names fit the buffer, the message that
  \<open>netlink_fill_create_veth\<close> builds is exactly the encoding of a link creation with the host
  name, the kind \<open>veth\<close> and a peer with its own name and name space, every length field
  counting exactly its contents, followed by zeros.
\<close>

theorem create_veth_encodes_request:
  assumes "88 + align4 (5 + length host) + align4 (5 + length peer) \<le> cap" and "cap < 65536"
  shows "\<exists>n. netlink_fill_create_veth cap host peer nsfd =
    (0, msg_bytes (veth_request host peer nsfd) @ replicate n 0)"
proof -
  let ?hd = "le16 RTM_NEWLINK @ le16 create_flags @ le32 1 @ le32 0 @ veth_info"
  let ?i = "Nla IFLA_IFNAME (cstr_bytes host)"
  let ?ys = "?hd @ nlas_bytes (veth_attrs host peer nsfd)"
  have hl: "length ?hd = 28" by (simp add: veth_info_def)
  have ah: "5 + length host \<le> align4 (5 + length host)" and ap: "5 + length peer \<le> align4 (5 + length peer)"
    by (rule align4_ge)+
  let ?l1 = "of_nat (4 + length ?hd + align4 (5 + length host)) :: u32"
  have 1: "netlink_put_string cap IFLA_IFNAME host (bld cap 0 ?hd) = (0, bld cap ?l1 (?hd @ nla_bytes ?i))"
    by (rule put_string_bld) (use assms ah hl in linarith)+
  have "56 + length (?hd @ nla_bytes ?i) + align4 (5 + length peer) \<le> cap" and "5 + length peer < 65536"
    using assms ap hl by (simp_all del: nla_bytes.simps)
  from veth_linkinfo_bld [OF this(2,1)]
  obtain l2 where 2: "fill_veth_linkinfo cap peer nsfd (bld cap ?l1 (?hd @ nla_bytes ?i)) =
      (0, bld cap l2 ((?hd @ nla_bytes ?i) @ nla_bytes (veth_attrs host peer nsfd ! 1)))"
    by blast
  have "nlas_bytes (veth_attrs host peer nsfd) = nla_bytes ?i @ nla_bytes (veth_attrs host peer nsfd ! 1)"
    by (simp add: veth_attrs_def del: nla_bytes.simps)
  then have e: "(?hd @ nla_bytes ?i) @ nla_bytes (veth_attrs host peer nsfd ! 1) = ?ys" by simp
  have "(fst (bld cap 0 ?hd), NLMSG_HDRLEN + 16) = bld cap 0 ?hd"
    using hl by (simp add: bld_def NLMSG_HDRLEN_def)
  moreover have "32 \<le> cap" using assms(1) by simp
  ultimately have "netlink_fill_create_veth cap host peer nsfd =
      (0, set_nlmsg_len (of_nat (4 + length ?ys)) (fst (bld cap l2 ?ys)))"
    unfolding netlink_fill_create_veth_def Let_def create_flags_def [symmetric] veth_header [OF \<open>32 \<le> cap\<close>]
    by (simp only: 1 2 e case_prod_conv fst_conv bld_snd) simp
  also have "\<dots> = (0, le32 (of_nat (4 + length ?ys)) @ ?ys @ replicate (cap - (4 + length ?ys)) 0)"
    unfolding set_len_bld by (simp add: bld_def)
  finally have f: "netlink_fill_create_veth cap host peer nsfd =
      (0, le32 (of_nat (4 + length ?ys)) @ ?ys @ replicate (cap - (4 + length ?ys)) 0)" .
  have "le32 (of_nat (4 + length ?ys)) @ ?ys = msg_bytes (veth_request host peer nsfd)"
    using hl by (simp add: msg_bytes_def veth_request_def msg_size_def veth_info_def)
  then have "le32 (of_nat (4 + length ?ys)) @ ?ys @ z = msg_bytes (veth_request host peer nsfd) @ z" for z
    by (metis append.assoc)
  then show ?thesis unfolding f by blast
qed

lemma create_veth_encodes_request_witness:
  "\<exists>n. netlink_fill_create_veth 512 ''cage-veth7'' ''eth0'' 5 =
    (0, msg_bytes (veth_request ''cage-veth7'' ''eth0'' 5) @ replicate n 0)"
  by (rule create_veth_encodes_request) (simp_all add: align4_def)

end
