(* ===== verification/Veth.thy ===== *)
theory Veth
  imports Rtnl Dec
begin

text \<open>
  Choosing a veth number (\<^verbatim>\<open>src/net/veth.c\<close> and \<open>netlink_alloc_veth_id\<close> of
  \<^verbatim>\<open>src/net/rtnl.c\<close>): the names in a link dump are scanned for \<open>cage-veth<n>\<close>, and the lowest
  \<open>n\<close> that no link has is taken.  The array \<open>used\<close> is a list of booleans.
\<close>

definition CAGE_VETH_HOST_PFX :: string where "CAGE_VETH_HOST_PFX = ''cage-veth''"
definition CAGE_VETH_PEER_NAME :: string where "CAGE_VETH_PEER_NAME = ''eth0''"
definition CAGE_VETH_MAX_ID :: nat where "CAGE_VETH_MAX_ID = 126"

definition parse_veth_id :: "string \<Rightarrow> string \<Rightarrow> int" where
  "parse_veth_id name prefix =
     (let pfxlen = length prefix in
      if \<not> starts_with prefix name then -1
      else
        let s = drop pfxlen name; (v, e) = strtol10 s in
        if e = 0 \<or> e < length s then -1
        else sint (word_of_int v :: u32))"

function used_veth_scan_attrs ::
  "byte list \<Rightarrow> nat \<Rightarrow> int \<Rightarrow> string \<Rightarrow> bool list \<Rightarrow> bool list option" where
  "used_veth_scan_attrs buf a alen prefix used =
     (case NLA_OK buf a alen of
        None \<Rightarrow> None
      | Some ok \<Rightarrow>
          if ok then
            let used =
              (if nla_type buf a = IFLA_IFNAME then
                 let vid = parse_veth_id (cstr_at buf (a + NLA_HDRLEN)) prefix in
                 if 0 \<le> vid \<and> vid \<le> int CAGE_VETH_MAX_ID then used[nat vid := True] else used
               else used)
            in used_veth_scan_attrs buf (nla_next buf a) (nla_rest buf a alen) prefix used
          else Some used)"
  by pat_completeness auto
termination
  by (relation "measure (\<lambda>(buf, a, alen, prefix, used). nat alen)") (auto dest: NLA_OK_progress)

declare used_veth_scan_attrs.simps [simp del]

function veth_scan_used ::
  "byte list \<Rightarrow> nat \<Rightarrow> u64 \<Rightarrow> string \<Rightarrow> bool list \<Rightarrow> bool list option" where
  "veth_scan_used buf h rem prefix used =
     (case NLMSG_OK buf h rem of
        None \<Rightarrow> None
      | Some ok \<Rightarrow>
          if ok then
            if nlmsg_type buf h \<noteq> RTM_NEWLINK then
              veth_scan_used buf (nlmsg_next buf h) (nlmsg_rest buf h rem) prefix used
            else
              (case used_veth_scan_attrs buf (h + NLMSG_HDRLEN + align4 16) (link_payload buf h) prefix used of
                 None \<Rightarrow> None
               | Some used \<Rightarrow> veth_scan_used buf (nlmsg_next buf h) (nlmsg_rest buf h rem) prefix used)
          else Some used)"
  by pat_completeness auto
termination
  by (relation "measure (\<lambda>(buf, h, rem, prefix, used). length buf - h)") (auto dest: NLMSG_OK_progress)

declare veth_scan_used.simps [simp del]

text \<open>The loop over the array: the first number that is not used.\<close>

fun first_unused :: "nat \<Rightarrow> bool list \<Rightarrow> nat option" where
  "first_unused i [] = None"
| "first_unused i (u # us) = (if \<not> u then Some i else first_unused (Suc i) us)"

text \<open>The inner value is \<open>*id\<close>, \<open>None\<close> for the return value -1.\<close>

definition netlink_lowest_free_veth_id :: "byte list \<Rightarrow> nat \<Rightarrow> string \<Rightarrow> nat option option" where
  "netlink_lowest_free_veth_id buf len prefix =
     (let used = replicate (CAGE_VETH_MAX_ID + 1) False in
      case veth_scan_used buf 0 (of_nat len) prefix used of
        None \<Rightarrow> None
      | Some used \<Rightarrow> Some (first_unused 0 used))"

definition netlink_alloc_veth_id ::
  "os \<Rightarrow> int \<Rightarrow> string \<Rightarrow> byte list \<Rightarrow> trace \<Rightarrow> (nat option \<times> trace) option" where
  "netlink_alloc_veth_id os fd prefix buf tr =
     (case dump_all os fd buf 16384 tr of
        None \<Rightarrow> None
      | Some (r, buf, rlen, tr) \<Rightarrow>
          if r < 0 then Some (None, tr)
          else
            (case netlink_lowest_free_veth_id buf rlen prefix of
               None \<Rightarrow> None
             | Some vid \<Rightarrow> Some (vid, tr)))"

section \<open>What the scan finds\<close>

definition mark_name :: "string \<Rightarrow> string \<Rightarrow> bool list \<Rightarrow> bool list" where
  "mark_name prefix name used =
     (let vid = parse_veth_id name prefix in
      if 0 \<le> vid \<and> vid \<le> int CAGE_VETH_MAX_ID then used[nat vid := True] else used)"

lemma veth_attrs_walk:
  assumes "list_all link_attr_ok as"
  shows "used_veth_scan_attrs (pre @ nlas_bytes as @ post) (length pre) (int (length (nlas_bytes as))) prefix used =
         Some (fold (mark_name prefix) (attr_names as) used)"
  using assms
proof (induction as arbitrary: pre used)
  case Nil
  then show ?case by (simp add: used_veth_scan_attrs.simps NLA_OK_end attr_names_def)
next
  case (Cons a as)
  obtain t d where a: "a = Nla t d" by (cases a)
  let ?b = "pre @ nla_bytes (Nla t d) @ nlas_bytes as @ post"
  let ?l = "int (length (nlas_bytes (a # as)))"
  let ?u = "if t = IFLA_IFNAME then mark_name prefix (cstr_at ?b (length pre + NLA_HDRLEN)) used else used"
  have f: "nla_fits (Nla t d)" and z: "t = IFLA_IFNAME \<Longrightarrow> 0 \<in> set d" using Cons.prems a by auto
  have ok: "NLA_OK ?b (length pre) ?l = Some True"
    by (rule NLA_OK_at [OF f]) (simp add: a del: nla_bytes.simps)
  have ih: "used_veth_scan_attrs ?b (length (pre @ nla_bytes (Nla t d))) (int (length (nlas_bytes as))) prefix u =
      Some (fold (mark_name prefix) (attr_names as) u)" for u
    using Cons.IH [of "pre @ nla_bytes (Nla t d)" u] Cons.prems by (simp del: nla_bytes.simps)
  have r: "nla_rest ?b (length pre) ?l = int (length (nlas_bytes as))"
    using nla_next_at(2) [OF f] by (simp add: a del: nla_bytes.simps)
  have s: "used_veth_scan_attrs ?b (length pre) ?l prefix used =
      Some (fold (mark_name prefix) (attr_names as) ?u)"
    by (subst used_veth_scan_attrs.simps)
      (simp only: ok option.case if_True nla_type_at nla_next_at(1) [OF f] r ih Let_def mark_name_def)
  have "attr_names (a # as) = (if t = IFLA_IFNAME then [nla_str d] else []) @ attr_names as"
    by (simp add: a attr_names_def)
  then have "used_veth_scan_attrs ?b (length pre) ?l prefix used =
      Some (fold (mark_name prefix) (attr_names (a # as)) used)"
    unfolding s using z nla_str_at [of d pre t "nlas_bytes as @ post"]
    by (auto simp: NLA_HDRLEN_def simp del: nla_bytes.simps)
  then show ?case by (simp add: a del: nla_bytes.simps)
qed

definition dump_names :: "dump_msg list \<Rightarrow> string list" where
  "dump_names ms = concat (map link_names ms)"

lemma veth_dump_walk:
  assumes "list_all dump_ok ms" and "length (dump_bytes ms) < 2 ^ 64"
  shows "veth_scan_used (pre @ dump_bytes ms @ post) (length pre) (of_nat (length (dump_bytes ms))) prefix used =
         Some (fold (mark_name prefix) (dump_names ms) used)"
  using assms
proof (induction ms arbitrary: pre used)
  case Nil
  then show ?case by (simp add: veth_scan_used.simps NLMSG_OK_end dump_names_def)
next
  case (Cons m ms)
  let ?b = "pre @ msg_bytes (to_msg m) @ dump_bytes ms @ post"
  let ?r = "msg_size (to_msg m) + length (dump_bytes ms)"
  have ok: "dump_ok m" using Cons.prems by simp
  note N = NLMSG_OK_at [OF dump_ok_msg [OF ok] refl, of ?r pre "dump_bytes ms @ post"]
  have r: "msg_size (to_msg m) \<le> ?r" "?r < 2 ^ 64" using Cons.prems(2) by simp_all
  have ih: "veth_scan_used ?b (length (pre @ msg_bytes (to_msg m))) (of_nat (?r - msg_size (to_msg m))) prefix u =
      Some (fold (mark_name prefix) (dump_names ms) u)" for u
    using Cons.IH [of "pre @ msg_bytes (to_msg m)" u] Cons.prems by simp
  have s: "veth_scan_used ?b (length pre) (of_nat ?r) prefix used =
      (if m_type (to_msg m) \<noteq> RTM_NEWLINK then Some (fold (mark_name prefix) (dump_names ms) used)
       else (case used_veth_scan_attrs ?b (length pre + NLMSG_HDRLEN + align4 16)
                    (link_payload ?b (length pre)) prefix used of
              None \<Rightarrow> None
            | Some u \<Rightarrow> Some (fold (mark_name prefix) (dump_names ms) u)))"
    by (subst veth_scan_used.simps)
      (simp only: N(1) [OF r] N(2,3) [OF r] ih option.case if_True nlmsg_type_at cong: option.case_cong)
  have "veth_scan_used ?b (length pre) (of_nat ?r) prefix used =
      Some (fold (mark_name prefix) (dump_names (m # ms)) used)"
  proof (cases m)
    case (NewLink f sq p i as)
    note L1 = link_region(1) [OF ok NewLink, of pre "dump_bytes ms @ post"]
      and L2 = link_region(2) [OF ok NewLink, of pre]
      and L3 = link_region(3) [OF ok NewLink, of pre "dump_bytes ms @ post"]
    have "list_all link_attr_ok as" using ok NewLink by simp
    from veth_attrs_walk [OF this]
    have "used_veth_scan_attrs ?b (length pre + NLMSG_HDRLEN + align4 16) (link_payload ?b (length pre)) prefix used =
        Some (fold (mark_name prefix) (attr_names as) used)"
      unfolding L2 L3 unfolding L1 .
    then show ?thesis unfolding s by (simp add: NewLink dump_names_def)
  next
    case (OtherMsg o')
    then show ?thesis unfolding s using ok by (simp add: dump_names_def)
  qed
  then show ?case by simp
qed

lemma length_mark_name [simp]: "length (mark_name prefix n used) = length used"
  by (simp add: mark_name_def Let_def)

lemma length_marked [simp]: "length (fold (mark_name prefix) ns used) = length used"
  by (induction ns arbitrary: used) simp_all

lemma marked_names:
  assumes "length used = 127" and "i < 127"
  shows "fold (mark_name prefix) ns used ! i \<longleftrightarrow> used ! i \<or> (\<exists>n \<in> set ns. parse_veth_id n prefix = int i)"
  using assms
proof (induction ns arbitrary: used)
  case (Cons n ns)
  have "mark_name prefix n used ! i \<longleftrightarrow> used ! i \<or> parse_veth_id n prefix = int i"
    using Cons.prems by (auto simp: mark_name_def Let_def nth_list_update CAGE_VETH_MAX_ID_def)
  then show ?case using Cons.IH [of "mark_name prefix n used"] Cons.prems by auto
qed simp

lemma first_unused_spec:
  "case first_unused i us of
     None \<Rightarrow> \<forall>k < length us. us ! k
   | Some j \<Rightarrow> i \<le> j \<and> j < i + length us \<and> \<not> us ! (j - i) \<and> (\<forall>k < j - i. us ! k)"
proof (induction us arbitrary: i)
  case (Cons u us)
  show ?case
  proof (cases u)
    case True
    have s: "(\<forall>k < Suc n. (u # us) ! k) \<longleftrightarrow> u \<and> (\<forall>k < n. us ! k)" for n
      by (auto simp: less_Suc_eq_0_disj)
    show ?thesis
    proof (cases "first_unused (Suc i) us")
      case None
      then show ?thesis using Cons.IH [of "Suc i"] True s by simp
    next
      case (Some j)
      then have j: "Suc i \<le> j" "j < Suc i + length us" "\<not> us ! (j - Suc i)" "\<forall>k < j - Suc i. us ! k"
        using Cons.IH [of "Suc i"] by auto
      then have "j - i = Suc (j - Suc i)" by simp
      then show ?thesis using Some True j s [of "j - Suc i"] by simp
    qed
  qed simp
qed simp

text \<open>A name that the launcher would give to number \<open>i\<close> parses to \<open>i\<close>.\<close>

lemma parse_veth_id_own:
  assumes "i \<le> CAGE_VETH_MAX_ID"
  shows "parse_veth_id (prefix @ dec_nat i) prefix = int i"
proof -
  have i: "i < 2 ^ 31" using assms by (simp add: CAGE_VETH_MAX_ID_def)
  then have "strtol10 (dec_nat i) = (int i, length (dec_nat i))" by (intro strtol10_dec_nat) simp
  moreover have "sint (word_of_int (int i) :: u32) = int i"
    using sint_of_nat_small [OF i] by simp
  ultimately show ?thesis by (simp add: parse_veth_id_def)
qed

text \<open>
  Names as Linux allows them for a link (\<^verbatim>\<open>dev_valid_name\<close>), and what it means that such a name
  gives number \<open>j\<close>: it is the prefix, then an optional sign, then digits whose value is \<open>j\<close>.
\<close>

definition ifname_ok :: "string \<Rightarrow> bool" where
  "ifname_ok n \<longleftrightarrow> length n < 16 \<and> list_all (\<lambda>c. \<not> is_space c) n"

definition numbered :: "string \<Rightarrow> nat \<Rightarrow> string \<Rightarrow> bool" where
  "numbered prefix j n \<longleftrightarrow> (\<exists>sg ds. n = prefix @ sg @ ds \<and> (sg = [] \<or> sg = ''+'' \<or> sg = ''-'' \<and> j = 0) \<and>
     ds \<noteq> [] \<and> list_all is_digit ds \<and> digits_val ds = j)"

lemma digits_val_less: "list_all is_digit ds \<Longrightarrow> digits_val ds < 10 ^ length ds"
proof (induction ds rule: rev_induct)
  case (snoc c ds)
  have "digit_val c \<le> 9" using snoc.prems by (auto simp: is_digit_def digit_val_def)
  moreover have "digits_val ds < 10 ^ length ds" using snoc by simp
  ultimately show ?case unfolding digits_val_append by simp
qed (simp add: digits_val_def)

lemma strtol10_signed:
  assumes "sg = [] \<or> sg = ''+'' \<or> sg = ''-''" "ds \<noteq> []" "list_all is_digit ds" "length ds < 10"
  shows "strtol10 (sg @ ds) = (if sg = ''-'' then - int (digits_val ds) else int (digits_val ds), length (sg @ ds))"
proof -
  obtain c cs where c: "ds = c # cs" using assms(2) by (cases ds) auto
  then have c1: "\<not> is_space c" "c \<noteq> CHR ''-''" "c \<noteq> CHR ''+''" using assms(3) digit_not_space by auto
  have "digits_val ds < 10 ^ length ds" by (rule digits_val_less [OF assms(3)])
  also have "(10 :: nat) ^ length ds \<le> 10 ^ 9" using assms(4) by (intro power_increasing) auto
  finally have v: "digits_val ds < 1000000000" by simp
  have t: "takeWhile is_digit ds = ds" using assms(3) by (simp add: takeWhile_eq_all_conv list_all_iff)
  have w: "takeWhile is_space (sg @ ds) = []" using assms(1) c c1 by (auto simp: is_space_def)
  show ?thesis using assms(1) c1 v t w unfolding strtol10_def Let_def
    by (elim disjE) (auto simp: c clamp_long_def)
qed

lemma parse_veth_id_numbered:
  assumes "ifname_ok n" "7 \<le> length prefix"
  shows "parse_veth_id n prefix = int j \<longleftrightarrow> numbered prefix j n"
proof (cases "starts_with prefix n")
  case False
  then show ?thesis by (auto simp: parse_veth_id_def numbered_def starts_with_def)
next
  case True
  then obtain s where n: "n = prefix @ s" by (auto simp: starts_with_iff)
  have s: "length s < 9" "list_all (\<lambda>c. \<not> is_space c) s" using assms by (auto simp: ifname_ok_def n)
  have w: "takeWhile is_space s = []" using s(2) by (cases s) auto
  define g where "g = (if s \<noteq> [] \<and> (s ! 0 = CHR ''-'' \<or> s ! 0 = CHR ''+'') then 1 else 0 :: nat)"
  define sg where "sg = take g s"
  define ds where "ds = drop g s"
  have sd: "s = sg @ ds" by (simp add: sg_def ds_def)
  have sg: "sg = [] \<or> sg = ''+'' \<or> sg = ''-''" by (cases s) (auto simp: sg_def g_def)
  have pn: "numbered prefix j n \<longleftrightarrow> ds \<noteq> [] \<and> list_all is_digit ds \<and> digits_val ds = j \<and> (sg = ''-'' \<longrightarrow> j = 0)"
  proof
    assume "numbered prefix j n"
    then obtain a b where ab: "s = a @ b" "a = [] \<or> a = ''+'' \<or> a = ''-'' \<and> j = 0" "b \<noteq> []" "list_all is_digit b" "digits_val b = j"
      by (auto simp: numbered_def n)
    then have "\<not> is_space (hd b)" "hd b \<noteq> CHR ''-''" "hd b \<noteq> CHR ''+''" using digit_not_space [of "hd b"] by (cases b; auto)+
    then have "g = length a" using ab(1-3) by (cases b) (auto simp: g_def)
    then have "sg = a" "ds = b" using ab(1) by (simp_all add: sg_def ds_def)
    then show "ds \<noteq> [] \<and> list_all is_digit ds \<and> digits_val ds = j \<and> (sg = ''-'' \<longrightarrow> j = 0)" using ab by auto
  next
    assume "ds \<noteq> [] \<and> list_all is_digit ds \<and> digits_val ds = j \<and> (sg = ''-'' \<longrightarrow> j = 0)"
    then show "numbered prefix j n" unfolding numbered_def n sd using sg by blast
  qed
  have p: "parse_veth_id n prefix = (let (v, e) = strtol10 s in if e = 0 \<or> e < length s then -1 else sint (word_of_int v :: u32))"
    using True by (simp add: parse_veth_id_def n)
  show ?thesis
  proof (cases "ds \<noteq> [] \<and> list_all is_digit ds")
    case d: True
    then have "strtol10 s = (if sg = ''-'' then - int (digits_val ds) else int (digits_val ds), length s)"
      using strtol10_signed [OF sg, of ds] s(1) by (simp add: sd)
    moreover have "digits_val ds < 100000000"
    proof -
      have "digits_val ds < 10 ^ length ds" using d digits_val_less by blast
      also have "(10 :: nat) ^ length ds \<le> 10 ^ 8" using s(1) by (intro power_increasing) (auto simp: ds_def)
      finally show ?thesis by simp
    qed
    moreover have "s \<noteq> []" using d by (auto simp: ds_def)
    ultimately show ?thesis using d unfolding p pn
      by (auto simp: sint_sbintrunc' signed_take_bit_int_eq_self simp del: word_of_int_minus)
  next
    case False
    then have "ds = [] \<or> length (takeWhile is_digit ds) < length ds"
      by (metis length_takeWhile_le list_all_iff nat_less_le takeWhile_eq_all_conv takeWhile_eq_take take_all_iff)
    moreover have "strtol10 s = (if takeWhile is_digit ds = [] then (0, 0)
        else (clamp_long (if sg = ''-'' then - int (digits_val (takeWhile is_digit ds)) else int (digits_val (takeWhile is_digit ds))),
          g + length (takeWhile is_digit ds)))"
      using w by (cases s) (auto simp: strtol10_def Let_def ds_def sg_def g_def)
    moreover have "length s = g + length ds" by (cases s) (auto simp: ds_def g_def)
    ultimately have "parse_veth_id n prefix = -1" unfolding p by auto
    then show ?thesis using False pn by auto
  qed
qed

text \<open>
  C31: the veth number that is chosen is free and the lowest.  Take a dump as the kernel makes it, link
  messages and others, each padded to four bytes and its length fields right, with names that Linux
  allows.  Then the walk ends without leaving the buffer; a number it returns is at most 126, no link
  is called \<open>cage-veth\<close> and that number, and for every lower number there is a link whose name is
  \<open>cage-veth\<close>, perhaps a sign, and digits that denote it.  It fails only when all 127 numbers are taken in this way.
\<close>

theorem veth_id_lowest_free:
  assumes "list_all dump_ok ms" and "length (dump_bytes ms) < 2 ^ 64" and "list_all ifname_ok (dump_names ms)"
  shows "case netlink_lowest_free_veth_id (dump_bytes ms @ rest) (length (dump_bytes ms)) CAGE_VETH_HOST_PFX of
      None \<Rightarrow> False
    | Some None \<Rightarrow> \<forall>j \<le> 126. \<exists>n \<in> set (dump_names ms). numbered ''cage-veth'' j n
    | Some (Some i) \<Rightarrow> i \<le> 126 \<and> ''cage-veth'' @ dec_nat i \<notin> set (dump_names ms) \<and>
        (\<forall>j < i. \<exists>n \<in> set (dump_names ms). numbered ''cage-veth'' j n)"
proof -
  define prefix where "prefix = ''cage-veth''"
  let ?z = "replicate 127 False" and ?N = "set (dump_names ms)"
  let ?u = "fold (mark_name prefix) (dump_names ms) ?z"
  have "parse_veth_id n prefix = int i \<longleftrightarrow> numbered prefix i n" if "n \<in> ?N" for n i
    by (rule parse_veth_id_numbered) (use assms(3) that in \<open>auto simp: list_all_iff prefix_def\<close>)
  then have u: "?u ! i \<longleftrightarrow> (\<exists>n \<in> ?N. numbered prefix i n)" if "i < 127" for i
    using marked_names [of ?z i prefix "dump_names ms"] that by simp
  have l: "length ?u = 127" by simp
  have r: "netlink_lowest_free_veth_id (dump_bytes ms @ rest) (length (dump_bytes ms)) CAGE_VETH_HOST_PFX =
      Some (first_unused 0 ?u)"
    using veth_dump_walk [OF assms(1,2), of "[]" rest prefix ?z]
    by (simp add: netlink_lowest_free_veth_id_def CAGE_VETH_MAX_ID_def CAGE_VETH_HOST_PFX_def prefix_def)
  show ?thesis
    unfolding prefix_def [symmetric]
  proof (cases "first_unused 0 ?u")
    case None
    then have "\<forall>k < 127. ?u ! k" using first_unused_spec [where i = 0 and us = ?u] l by simp
    then show "case netlink_lowest_free_veth_id (dump_bytes ms @ rest) (length (dump_bytes ms)) CAGE_VETH_HOST_PFX of
      None \<Rightarrow> False
    | Some None \<Rightarrow> \<forall>j \<le> 126. \<exists>n \<in> ?N. numbered prefix j n
    | Some (Some i) \<Rightarrow> i \<le> 126 \<and> prefix @ dec_nat i \<notin> ?N \<and> (\<forall>j < i. \<exists>n \<in> ?N. numbered prefix j n)"
      using r None u by simp
  next
    case (Some i)
    then have i: "i < 127" "\<not> ?u ! i" "\<forall>k < i. ?u ! k" using first_unused_spec [where i = 0 and us = ?u] l by auto
    have "numbered prefix i (prefix @ dec_nat i)"
      unfolding numbered_def using dec_nat_digits [of i] by (intro exI [of _ "[]"] exI [of _ "dec_nat i"]) (simp add: list_all_iff)
    then have "prefix @ dec_nat i \<notin> ?N" using i u [of i] by blast
    then show "case netlink_lowest_free_veth_id (dump_bytes ms @ rest) (length (dump_bytes ms)) CAGE_VETH_HOST_PFX of
      None \<Rightarrow> False
    | Some None \<Rightarrow> \<forall>j \<le> 126. \<exists>n \<in> ?N. numbered prefix j n
    | Some (Some i) \<Rightarrow> i \<le> 126 \<and> prefix @ dec_nat i \<notin> ?N \<and> (\<forall>j < i. \<exists>n \<in> ?N. numbered prefix j n)"
      using r Some u i by simp
  qed
qed

text \<open>A dump with one link, whose name gives number 0, so that number 1 is the lowest one.\<close>

definition one_link :: "dump_msg list" where
  "one_link = [NewLink 0 1 0 (replicate 16 0) [Nla IFLA_IFNAME (cstr_bytes ''cage-veth0'')]]"

lemma veth_id_lowest_free_witness:
  "\<exists>i. netlink_lowest_free_veth_id (dump_bytes one_link @ []) (length (dump_bytes one_link)) CAGE_VETH_HOST_PFX = Some (Some i) \<and>
     i \<le> 126 \<and> ''cage-veth'' @ dec_nat i \<notin> set (dump_names one_link) \<and> ''cage-veth0'' \<in> set (dump_names one_link) \<and>
     list_all (\<lambda>j. list_ex (numbered ''cage-veth'' j) (dump_names one_link)) [0..<i]"
proof -
  have "char_of (0 :: nat) \<notin> set ''cage-veth0''" by code_simp
  then have n: "dump_names one_link = [''cage-veth0'']" by (simp add: dump_names_def one_link_def attr_names_def)
  have d: "list_all dump_ok one_link" "length (dump_bytes one_link) < 2 ^ 64"
    by (simp_all add: one_link_def cstr_bytes_def align4_def msg_size_def del: nla_bytes.simps)
  have i: "list_all ifname_ok (dump_names one_link)" by (simp add: n ifname_ok_def is_space_def)
  note T = veth_id_lowest_free [OF d i, where rest = "[]"]
  have "\<not> numbered ''cage-veth'' 1 ''cage-veth0''" by (auto simp: numbered_def digits_val_def digit_val_def append_eq_Cons_conv)
  then have "\<not> (\<forall>j \<le> 126. \<exists>n \<in> set (dump_names one_link). numbered ''cage-veth'' j n)"
    unfolding n by (auto intro: exI [of _ "1 :: nat"])
  then show ?thesis using T n
    by (auto simp: list_all_iff list_ex_iff split: option.splits simp del: upt_rec_numeral)
qed

end
