(* ===== verification/NetDump.thy ===== *)
theory NetDump
  imports Veth
begin

text \<open>
  Receiving a dump: the datagrams the kernel sends for one request are collected into one buffer,
  and the search of that buffer finds the link, for any split of the messages into datagrams.
\<close>

fun is_end :: "dump_msg \<Rightarrow> bool" where
  "is_end (NewLink f s p i as) \<longleftrightarrow> False"
| "is_end (OtherMsg m) \<longleftrightarrow> m_type m = NLMSG_DONE \<or> m_type m = NLMSG_ERROR"

lemma is_end_type: "is_end m \<longleftrightarrow> m_type (to_msg m) = NLMSG_DONE \<or> m_type (to_msg m) = NLMSG_ERROR"
  by (cases m) (simp_all add: RTM_NEWLINK_def NLMSG_DONE_def NLMSG_ERROR_def)

lemma has_done_walk:
  assumes "list_all dump_ok ms" and "length (dump_bytes ms) < 2 ^ 64"
  shows "nl_has_done_loop (pre @ dump_bytes ms @ post) (length pre) (of_nat (length (dump_bytes ms))) =
         Some (list_ex is_end ms)"
  using assms
proof (induction ms arbitrary: pre)
  case Nil
  then show ?case by (simp add: nl_has_done_loop.simps NLMSG_OK_end)
next
  case (Cons m ms)
  let ?b = "pre @ msg_bytes (to_msg m) @ dump_bytes ms @ post"
  let ?r = "msg_size (to_msg m) + length (dump_bytes ms)"
  have ok: "dump_ok m" using Cons.prems by simp
  note N = NLMSG_OK_at [OF dump_ok_msg [OF ok] refl, of ?r pre "dump_bytes ms @ post"]
  have r: "msg_size (to_msg m) \<le> ?r" "?r < 2 ^ 64" using Cons.prems(2) by simp_all
  have ih: "nl_has_done_loop ?b (length (pre @ msg_bytes (to_msg m))) (of_nat (?r - msg_size (to_msg m))) =
      Some (list_ex is_end ms)"
    using Cons.IH [of "pre @ msg_bytes (to_msg m)"] Cons.prems by simp
  have "nl_has_done_loop ?b (length pre) (of_nat ?r) =
      (if m_type (to_msg m) = NLMSG_DONE \<or> m_type (to_msg m) = NLMSG_ERROR then Some True
       else Some (list_ex is_end ms))"
    by (subst nl_has_done_loop.simps)
      (simp only: N(1) [OF r] N(2,3) [OF r] ih option.case if_True nlmsg_type_at)
  then show ?case using is_end_type [of m] by simp
qed

text \<open>The system answers the next receives with the given datagrams.\<close>

fun delivers :: "os \<Rightarrow> int \<Rightarrow> nat \<Rightarrow> trace \<Rightarrow> byte list list \<Rightarrow> bool" where
  "delivers os fd space tr [] \<longleftrightarrow> True"
| "delivers os fd space tr (d # ds) \<longleftrightarrow>
     (let c = Recvmsg fd space False; a = os tr c in
      0 \<le> a_ret a \<and> a_data a = d \<and> delivers os fd (space - length d) (tr @ [(c, a)]) ds)"

fun recv_trace :: "os \<Rightarrow> int \<Rightarrow> nat \<Rightarrow> trace \<Rightarrow> byte list list \<Rightarrow> trace" where
  "recv_trace os fd space tr [] = tr"
| "recv_trace os fd space tr (d # ds) =
     (let c = Recvmsg fd space False in recv_trace os fd (space - length d) (tr @ [(c, os tr c)]) ds)"

lemma dump_bytes_append [simp]: "dump_bytes (a @ b) = dump_bytes a @ dump_bytes b"
  by (induction a) simp_all

lemma recv_dump_collects:
  assumes "list_all (list_all dump_ok) gs" and "list_all (\<lambda>g. dump_bytes g \<noteq> []) gs"
    and "gs \<noteq> []" and "list_ex is_end (last gs)" and "list_all (\<lambda>g. \<not> list_ex is_end g) (butlast gs)"
    and "length got + length (dump_bytes (concat gs)) \<le> length buf" and "length buf < 2 ^ 64"
    and "take (length got) buf = got"
    and "delivers os fd (length buf - length got) tr (map dump_bytes gs)"
  shows "\<exists>post. recv_dump_loop os fd (length buf) buf (length got) tr =
    Some (0, got @ dump_bytes (concat gs) @ post, length got + length (dump_bytes (concat gs)),
      recv_trace os fd (length buf - length got) tr (map dump_bytes gs))"
  using assms
proof (induction gs arbitrary: got buf tr)
  case (Cons g gs)
  let ?d = "dump_bytes g" and ?c = "Recvmsg fd (length buf - length got) False"
  let ?a = "os tr ?c" and ?tr = "tr @ [(?c, os tr ?c)]"
  let ?b = "put_bytes buf (length got) ?d"
  have d: "?d \<noteq> []" and ok: "list_all dump_ok g" using Cons.prems by auto
  have a: "0 \<le> a_ret ?a" "a_data ?a = ?d" using Cons.prems(9) by (simp_all add: Let_def)
  have l: "length got + length ?d \<le> length buf" using Cons.prems(6) by simp
  have s: "\<not> length buf \<le> length got" using l d by (metis add_leD1 add_le_same_cancel1 le_trans length_0_conv le_zero_eq)
  have b: "?b = got @ ?d @ drop (length got + length ?d) buf"
    using Cons.prems(8) by (simp add: put_bytes_def)
  have bl: "length ?b = length buf" by (rule length_put_bytes [OF l])
  have recv: "netlink_recv os fd (length buf - length got) tr = (0, ?d, ?tr)"
    using a l by (simp add: netlink_recv_def netlink_recv_flags_def sys_def Let_def)
  have "length ?d < 2 ^ 64" using l Cons.prems(7) by linarith
  from has_done_walk [OF ok this, of got "drop (length got + length ?d) buf"]
  have dn: "nl_has_done ?b (length got) (length ?d) = Some (list_ex is_end g)"
    unfolding nl_has_done_def b .
  have "recv_dump_loop os fd (length buf) buf (length got) tr =
      (if list_ex is_end g then Some (0, ?b, length got + length ?d, ?tr)
       else recv_dump_loop os fd (length buf) ?b (length got + length ?d) ?tr)"
    by (subst recv_dump_loop.simps) (use s d in \<open>simp add: recv dn Let_def split: bool.splits\<close>)
  moreover have ?case if "gs = []"
  proof -
    have "list_ex is_end g" using Cons.prems(4) that by simp
    then show ?thesis using calculation that by (simp add: b Let_def)
  qed
  moreover have ?case if "gs \<noteq> []"
  proof -
    have ne: "\<not> list_ex is_end g" using Cons.prems(5) that by simp
    have "\<exists>post. recv_dump_loop os fd (length ?b) ?b (length (got @ ?d)) ?tr =
      Some (0, (got @ ?d) @ dump_bytes (concat gs) @ post, length (got @ ?d) + length (dump_bytes (concat gs)),
        recv_trace os fd (length ?b - length (got @ ?d)) ?tr (map dump_bytes gs))"
    proof (rule Cons.IH)
      show "list_all (list_all dump_ok) gs" "list_all (\<lambda>g. dump_bytes g \<noteq> []) gs" "gs \<noteq> []"
        "list_ex is_end (last gs)" "list_all (\<lambda>g. \<not> list_ex is_end g) (butlast gs)"
        using Cons.prems that by simp_all
      show "length (got @ ?d) + length (dump_bytes (concat gs)) \<le> length ?b"
        unfolding bl using Cons.prems(6) by simp
      show "length ?b < 2 ^ 64" unfolding bl by (rule Cons.prems(7))
      show "take (length (got @ ?d)) ?b = got @ ?d" unfolding b by simp
      show "delivers os fd (length ?b - length (got @ ?d)) ?tr (map dump_bytes gs)"
        using Cons.prems(9) unfolding bl by (simp add: Let_def)
    qed
    then show ?thesis using calculation(1) ne unfolding bl
      by (simp add: Let_def add.assoc)
  qed
  ultimately show ?case by blast
qed simp

text \<open>
  Looking up a link by name works over the socket.  If the request can be sent and the kernel
  answers with any number of datagrams of well-formed messages, together at most 16384 bytes, the
  last one holding the end of the dump and no other one an end or an error, then the lookup
  gives the index of the first link with that name, and fails exactly when there is none;
  it receives just those datagrams.
\<close>

theorem dump_find_complete:
  assumes "length dbuf = 16384" and "0 \<le> a_ret (os tr (Sendmsg fd req))"
    and "req = take 20 (snd (netlink_fill_dump_link 16384 dbuf))"
    and "list_all (list_all dump_ok) gs" and "list_all (\<lambda>g. dump_bytes g \<noteq> []) gs"
    and "gs \<noteq> []" and "list_ex is_end (last gs)" and "list_all (\<lambda>g. \<not> list_ex is_end g) (butlast gs)"
    and "length (dump_bytes (concat gs)) \<le> 16384"
    and "delivers os fd 16384 (tr @ [(Sendmsg fd req, os tr (Sendmsg fd req))]) (map dump_bytes gs)"
  shows "netlink_dump_find_ifname os fd name dbuf tr =
    Some (map_option link_index (find (\<lambda>m. name \<in> set (link_names m)) (concat gs)),
      recv_trace os fd 16384 (tr @ [(Sendmsg fd req, os tr (Sendmsg fd req))]) (map dump_bytes gs))"
proof -
  let ?tr = "tr @ [(Sendmsg fd req, os tr (Sendmsg fd req))]"
  define b where "b = snd (netlink_fill_dump_link 16384 dbuf)"
  have rl: "netlink_request_len = 20"
    by (simp add: netlink_request_len_def NLMSG_SPACE_def NLMSG_LENGTH_def NLMSG_HDRLEN_def align4_def)
  have f: "netlink_fill_dump_link 16384 dbuf = (20, b)"
    by (simp add: b_def netlink_fill_dump_link_def rl Let_def)
  have bl: "length b = 16384"
    using assms(1) by (simp add: b_def netlink_fill_dump_link_def rl Let_def netlink_request_fill_def
        set_nlmsg_len_def set_nlmsg_type_def set_nlmsg_flags_def set_nlmsg_seq_def set_nlmsg_pid_def
        NLMSG_HDRLEN_def)
  have s: "netlink_send os fd (take (nat 20) b) tr = (0, ?tr)"
    using assms(2) by (simp add: netlink_send_def sys_def Let_def assms(3) b_def [symmetric])
  have "\<exists>post. recv_dump_loop os fd (length b) b (length ([] :: byte list)) ?tr =
    Some (0, [] @ dump_bytes (concat gs) @ post, length ([] :: byte list) + length (dump_bytes (concat gs)),
      recv_trace os fd (length b - length ([] :: byte list)) ?tr (map dump_bytes gs))"
    by (rule recv_dump_collects) (use assms bl in simp_all)
  then obtain post where r: "netlink_recv_dump os fd 16384 b ?tr =
    Some (0, dump_bytes (concat gs) @ post, length (dump_bytes (concat gs)),
      recv_trace os fd 16384 ?tr (map dump_bytes gs))"
    unfolding netlink_recv_dump_def bl by auto
  have "list_all dump_ok (concat gs)" using assms(4) by (auto simp: list_all_iff)
  from find_ifname_walk [OF this, of "[]" post name] assms(9)
  have "netlink_find_ifname (dump_bytes (concat gs) @ post) (length (dump_bytes (concat gs))) name =
      Some (map_option link_index (find (\<lambda>m. name \<in> set (link_names m)) (concat gs)))"
    by (simp add: netlink_find_ifname_def)
  then show ?thesis
    unfolding netlink_dump_find_ifname_def f Let_def by (simp only: case_prod_conv s r option.case) simp
qed

text \<open>A system that answers every receive with a dump of \<open>lo\<close> (index 1) and \<open>eth0\<close> (index 2).\<close>

definition two_links :: "dump_msg list" where
  "two_links =
     [NewLink 2 1 0 (replicate 4 0 @ [1, 0, 0, 0] @ replicate 8 0) [Nla IFLA_IFNAME [108, 111, 0]],
      NewLink 2 1 0 (replicate 4 0 @ [2, 0, 0, 0] @ replicate 8 0) [Nla IFLA_IFNAME [101, 116, 104, 48, 0]],
      OtherMsg \<lparr>m_type = NLMSG_DONE, m_flags = 2, m_seq = 1, m_pid = 0, m_body = [0, 0, 0, 0]\<rparr>]"

definition two_links_os :: os where
  "two_links_os tr c = (ret 20)\<lparr>a_data := dump_bytes two_links\<rparr>"

lemma dump_find_complete_witness:
  "\<exists>tr. netlink_dump_find_ifname two_links_os 3 ''eth0'' (replicate 16384 0) [] = Some (Some 2, tr)"
proof -
  let ?req = "take 20 (snd (netlink_fill_dump_link 16384 (replicate 16384 0)))"
  have ok: "list_all dump_ok two_links"
    by (simp add: two_links_def align4_def msg_ok_def msg_size_def NLMSG_DONE_def RTM_NEWLINK_def
        del: nla_bytes.simps)
  have e: "list_ex is_end two_links" by (simp add: two_links_def)
  have l: "length (dump_bytes two_links) = 104"
    by (simp add: two_links_def align4_def msg_size_def del: nla_bytes.simps)
  have n: "map link_names two_links = [[''lo''], [''eth0''], []]"
    by (simp add: two_links_def attr_names_def nla_str_def char_at_def char_of_def bit_0)
  have f: "find (\<lambda>m. ''eth0'' \<in> set (link_names m)) two_links = Some (two_links ! 1)"
    using n by (simp add: two_links_def)
  have i: "link_index (two_links ! 1) = 2"
    by (simp add: two_links_def get32_def nth_append)
  have d: "delivers two_links_os 3 16384 tr (map dump_bytes [two_links])" for tr
    by (simp add: two_links_os_def Let_def ret_def)
  have "netlink_dump_find_ifname two_links_os 3 ''eth0'' (replicate 16384 0) [] =
    Some (map_option link_index (find (\<lambda>m. ''eth0'' \<in> set (link_names m)) (concat [two_links])),
      recv_trace two_links_os 3 16384 ([] @ [(Sendmsg 3 ?req, two_links_os [] (Sendmsg 3 ?req))])
        (map dump_bytes [two_links]))"
    by (rule dump_find_complete [OF _ _ refl])
      (use ok e l d in \<open>auto simp: two_links_os_def ret_def\<close>)
  then show ?thesis using i by (simp add: f)
qed

section \<open>A message that is not padded\<close>

text \<open>
  A walk trusts the padding.  A single message whose length is not a multiple of four makes the
  remaining length of the walk wrap around, and the search runs off the end of the buffer.
\<close>

lemma unpadded_message_overruns:
  "netlink_find_ifname (le32 17 @ le16 NLMSG_DONE @ replicate 11 0) 17 name = None"
proof -
  let ?b = "le32 17 @ le16 NLMSG_DONE @ replicate 11 0"
  have t: "nlmsg_type ?b 0 = NLMSG_DONE"
    using get16_le16 [of "le32 17" NLMSG_DONE "replicate 11 0"] by (simp add: nlmsg_type_def)
  have n: "nlmsg_len ?b 0 = 17"
    using get32_le32 [of "[]" 17 "le16 NLMSG_DONE @ replicate 11 0"] by (simp add: nlmsg_len_def)
  have 1: "NLMSG_OK ?b 0 17 = Some True"
    unfolding NLMSG_OK_def n by simp
  have 2: "nlmsg_next ?b 0 = 20" "nlmsg_rest ?b 0 17 = - 3"
    unfolding nlmsg_next_def nlmsg_rest_def n by (simp_all add: align4_def)
  have 3: "NLMSG_OK ?b 20 (- 3) = None"
    by (simp add: NLMSG_OK_def word_less_nat_alt)
  have "find_ifname_loop ?b 0 17 name = find_ifname_loop ?b 20 (- 3) name"
    by (subst find_ifname_loop.simps) (simp only: 1 2 t option.case if_True, simp add: NLMSG_DONE_def RTM_NEWLINK_def)
  also have "\<dots> = None" by (subst find_ifname_loop.simps) (simp only: 3 option.case)
  finally show ?thesis by (simp add: netlink_find_ifname_def)
qed

end
