(* ===== verification/Nft.thy ===== *)
theory Nft
  imports Rtnl
begin

text \<open>
  The NAT rule (\<^verbatim>\<open>src/net/nft.c\<close>): one batch of nftables messages that creates a table, a chain
  at the postrouting hook and a masquerade rule, sent in one datagram, and the reading of its
  acknowledgements.  A request on the stack is a byte list of its size.
\<close>

definition NFNL_SUBSYS_NFTABLES :: u16 where "NFNL_SUBSYS_NFTABLES = 10"
definition NFNL_MSG_BATCH_BEGIN :: u16 where "NFNL_MSG_BATCH_BEGIN = 0x10"
definition NFNL_MSG_BATCH_END :: u16 where "NFNL_MSG_BATCH_END = 0x11"
definition NFNETLINK_V0 :: byte where "NFNETLINK_V0 = 0"
definition NFT_MSG_NEWTABLE :: u16 where "NFT_MSG_NEWTABLE = 0"
definition NFT_MSG_NEWCHAIN :: u16 where "NFT_MSG_NEWCHAIN = 3"
definition NFT_MSG_NEWRULE :: u16 where "NFT_MSG_NEWRULE = 6"
definition NFTA_TABLE_NAME :: u16 where "NFTA_TABLE_NAME = 1"
definition NFTA_CHAIN_TABLE :: u16 where "NFTA_CHAIN_TABLE = 1"
definition NFTA_CHAIN_NAME :: u16 where "NFTA_CHAIN_NAME = 3"
definition NFTA_CHAIN_HOOK :: u16 where "NFTA_CHAIN_HOOK = 4"
definition NFTA_CHAIN_TYPE :: u16 where "NFTA_CHAIN_TYPE = 7"
definition NFTA_HOOK_HOOKNUM :: u16 where "NFTA_HOOK_HOOKNUM = 1"
definition NFTA_HOOK_PRIORITY :: u16 where "NFTA_HOOK_PRIORITY = 2"
definition NFTA_RULE_TABLE :: u16 where "NFTA_RULE_TABLE = 1"
definition NFTA_RULE_CHAIN :: u16 where "NFTA_RULE_CHAIN = 2"
definition NFTA_RULE_EXPRESSIONS :: u16 where "NFTA_RULE_EXPRESSIONS = 4"
definition NFTA_LIST_ELEM :: u16 where "NFTA_LIST_ELEM = 1"
definition NFTA_EXPR_NAME :: u16 where "NFTA_EXPR_NAME = 1"
definition NFTA_EXPR_DATA :: u16 where "NFTA_EXPR_DATA = 2"
definition NF_INET_POST_ROUTING :: u32 where "NF_INET_POST_ROUTING = 4"

definition NFT_TABLE_NAME :: string where "NFT_TABLE_NAME = ''cage-nat''"
definition NFT_CHAIN_NAME :: string where "NFT_CHAIN_NAME = ''postrouting''"

section \<open>Acknowledgements\<close>

definition nft_ack_errno :: "byte list \<Rightarrow> nat \<Rightarrow> int" where
  "nft_ack_errno buf len =
     (if len < NLMSG_HDRLEN \<or> NLMSG_OK buf 0 (of_nat len) \<noteq> Some True then - EINVAL
      else if nlmsg_type buf 0 \<noteq> NLMSG_ERROR then 0
      else if unat (nlmsg_len buf 0) < NLMSG_LENGTH 20 then - EINVAL
      else sint (get32 buf NLMSG_HDRLEN))"

text \<open>The loop ends when the system has no more messages; \<open>None\<close> if it never runs out of them.\<close>

partial_function (option) nft_drain_rest :: "os \<Rightarrow> int \<Rightarrow> int \<Rightarrow> trace \<Rightarrow> (int \<times> trace) option" where
  "nft_drain_rest os fd err tr =
     (let (r, ack, tr) = netlink_recv_nb os fd 4096 tr in
      if r = 0 then
        let e = nft_ack_errno ack (length ack)
        in nft_drain_rest os fd (if e \<noteq> 0 \<and> err = 0 then e else err) tr
      else Some (err, tr))"

definition nft_recv_ack :: "os \<Rightarrow> int \<Rightarrow> trace \<Rightarrow> (int \<times> trace) option" where
  "nft_recv_ack os fd tr =
     (let (r, ack, tr) = netlink_recv os fd 4096 tr in
      if r < 0 then Some (-1, tr)
      else nft_drain_rest os fd (nft_ack_errno ack (length ack)) tr)"

section \<open>Messages\<close>

definition nft_put_be32 :: "nat \<Rightarrow> u16 \<Rightarrow> u32 \<Rightarrow> nlbuf \<Rightarrow> int \<times> nlbuf" where
  "nft_put_be32 cap type val s = netlink_put_u32 cap type (htonl val) s"

definition nft_chain_hook :: "nat \<Rightarrow> nlbuf \<Rightarrow> int \<times> nlbuf" where
  "nft_chain_hook cap s =
     (let (r, s, hoff) = netlink_nest_start cap (NFTA_CHAIN_HOOK OR NLA_F_NESTED) s in
      if r \<noteq> 0 then (-1, s)
      else let (r, s) = nft_put_be32 cap NFTA_HOOK_HOOKNUM NF_INET_POST_ROUTING s in
      if r \<noteq> 0 then (-1, s)
      else let (r, s) = nft_put_be32 cap NFTA_HOOK_PRIORITY 100 s in
      if r \<noteq> 0 then (-1, s)
      else (0, netlink_nest_end hoff s))"

record nft_batch =
  nb_data :: "byte list"
  nb_len :: nat
  nb_seq :: u32

text \<open>\<open>NLMSG_HDRLEN + sizeof (struct nfgenmsg)\<close>\<close>

definition NFT_HDR :: nat where "NFT_HDR = NLMSG_HDRLEN + 4"

text \<open>The fixed part of a batch message at \<open>h\<close>; \<open>res_id\<close> is in network order.\<close>

definition nft_batch_open :: "nft_batch \<Rightarrow> nft_batch" where
  "nft_batch_open b =
     (let d = put_bytes (nb_data b) 0 (replicate NFT_HDR 0);
          d = put_bytes d 4 (le16 NFNL_MSG_BATCH_BEGIN);
          d = put_bytes d 6 (le16 (NLM_F_REQUEST OR NLM_F_ACK));
          d = put_bytes d 0 (le32 (of_nat NFT_HDR));
          d = put_bytes d NLMSG_HDRLEN [AF_UNSPEC];
          d = put_bytes d (NLMSG_HDRLEN + 1) [NFNETLINK_V0];
          d = put_bytes d (NLMSG_HDRLEN + 2) (le16 (htons NFNL_SUBSYS_NFTABLES))
      in \<lparr>nb_data = d, nb_len = align4 NFT_HDR, nb_seq = 0\<rparr>)"

definition nft_batch_msg :: "u16 \<Rightarrow> u16 \<Rightarrow> byte list \<Rightarrow> nat \<Rightarrow> nft_batch \<Rightarrow> int \<times> nft_batch" where
  "nft_batch_msg type flags msg mlen b =
     (if length (nb_data b) < nb_len b + align4 mlen then (-1, b)
      else
        let msg = set_nlmsg_len (of_nat mlen) msg;
            msg = set_nlmsg_type type msg;
            msg = set_nlmsg_flags (NLM_F_REQUEST OR flags) msg;
            seq = nb_seq b + 1;
            msg = set_nlmsg_seq seq msg
        in (0, \<lparr>nb_data = put_bytes (nb_data b) (nb_len b) (take mlen msg),
                nb_len = nb_len b + align4 mlen, nb_seq = seq\<rparr>))"

definition nft_batch_end :: "nft_batch \<Rightarrow> int \<times> nft_batch" where
  "nft_batch_end b =
     (let elen = align4 NFT_HDR; h = nb_len b in
      if length (nb_data b) < h + elen then (-1, b)
      else
        let d = put_bytes (nb_data b) h (replicate NFT_HDR 0);
            d = put_bytes d (h + 4) (le16 NFNL_MSG_BATCH_END);
            d = put_bytes d (h + 6) (le16 NLM_F_REQUEST);
            d = put_bytes d h (le32 (of_nat NFT_HDR));
            seq = nb_seq b + 1;
            d = put_bytes d (h + 8) (le32 seq);
            d = put_bytes d (h + NLMSG_HDRLEN + 1) [NFNETLINK_V0];
            d = put_bytes d (h + NLMSG_HDRLEN + 2) (le16 (htons NFNL_SUBSYS_NFTABLES))
        in (0, \<lparr>nb_data = d, nb_len = h + elen, nb_seq = seq\<rparr>))"

definition nft_batch_flush :: "os \<Rightarrow> int \<Rightarrow> nft_batch \<Rightarrow> trace \<Rightarrow> (int \<times> trace) option" where
  "nft_batch_flush os fd b tr =
     (let (r, b) = nft_batch_end b in
      if r \<noteq> 0 then Some (-1, tr)
      else
        let (r, tr) = netlink_send os fd (take (nb_len b) (nb_data b)) tr in
        if r < 0 then Some (-1, tr) else nft_recv_ack os fd tr)"

text \<open>\<open>NFT_INIT\<close> on a request of \<open>cap\<close> bytes.\<close>

definition NFT_INIT :: "nat \<Rightarrow> byte \<Rightarrow> nlbuf" where
  "NFT_INIT cap family =
     (let req = replicate cap 0;
          req = put_bytes req NLMSG_HDRLEN [family];
          req = put_bytes req (NLMSG_HDRLEN + 1) [NFNETLINK_V0];
          req = put_bytes req (NLMSG_HDRLEN + 2) (le16 0)
      in (req, NFT_HDR))"

definition nft_create_table :: "byte \<Rightarrow> nft_batch \<Rightarrow> int \<times> nft_batch" where
  "nft_create_table family b =
     (let cap = NFT_HDR + 128; s = NFT_INIT cap family;
          (r, s) = netlink_put_string cap NFTA_TABLE_NAME NFT_TABLE_NAME s in
      if r \<noteq> 0 then (-1, b)
      else nft_batch_msg (push_bit 8 NFNL_SUBSYS_NFTABLES OR NFT_MSG_NEWTABLE)
             (NLM_F_CREATE OR NLM_F_EXCL) (fst s) (snd s) b)"

definition nft_create_chain :: "byte \<Rightarrow> nft_batch \<Rightarrow> int \<times> nft_batch" where
  "nft_create_chain family b =
     (let cap = NFT_HDR + 256; s = NFT_INIT cap family;
          (r, s) = netlink_put_string cap NFTA_CHAIN_TABLE NFT_TABLE_NAME s in
      if r \<noteq> 0 then (-1, b)
      else let (r, s) = netlink_put_string cap NFTA_CHAIN_NAME NFT_CHAIN_NAME s in
      if r \<noteq> 0 then (-1, b)
      else let (r, s) = nft_chain_hook cap s in
      if r \<noteq> 0 then (-1, b)
      else let (r, s) = netlink_put_string cap NFTA_CHAIN_TYPE ''nat'' s in
      if r \<noteq> 0 then (-1, b)
      else nft_batch_msg (push_bit 8 NFNL_SUBSYS_NFTABLES OR NFT_MSG_NEWCHAIN)
             NLM_F_CREATE (fst s) (snd s) b)"

definition nft_put_expr_masq :: "nat \<Rightarrow> nlbuf \<Rightarrow> int \<times> nlbuf" where
  "nft_put_expr_masq cap s =
     (let (r, s, lst) = netlink_nest_start cap (NFTA_RULE_EXPRESSIONS OR NLA_F_NESTED) s in
      if r \<noteq> 0 then (-1, s)
      else let (r, s, elem) = netlink_nest_start cap (NFTA_LIST_ELEM OR NLA_F_NESTED) s in
      if r \<noteq> 0 then (-1, s)
      else let (r, s) = netlink_put_string cap NFTA_EXPR_NAME ''masq'' s in
      if r \<noteq> 0 then (-1, s)
      else let (r, s, dat) = netlink_nest_start cap (NFTA_EXPR_DATA OR NLA_F_NESTED) s in
      if r \<noteq> 0 then (-1, s)
      else (0, netlink_nest_end lst (netlink_nest_end elem (netlink_nest_end dat s))))"

definition nft_add_masq_rule :: "byte \<Rightarrow> nft_batch \<Rightarrow> int \<times> nft_batch" where
  "nft_add_masq_rule family b =
     (let cap = NFT_HDR + 256; s = NFT_INIT cap family;
          (r, s) = netlink_put_string cap NFTA_RULE_TABLE NFT_TABLE_NAME s in
      if r \<noteq> 0 then (-1, b)
      else let (r, s) = netlink_put_string cap NFTA_RULE_CHAIN NFT_CHAIN_NAME s in
      if r \<noteq> 0 then (-1, b)
      else let (r, s) = nft_put_expr_masq cap s in
      if r \<noteq> 0 then (-1, b)
      else nft_batch_msg (push_bit 8 NFNL_SUBSYS_NFTABLES OR NFT_MSG_NEWRULE)
             (NLM_F_CREATE OR NLM_F_APPEND) (fst s) (snd s) b)"

definition nft_build :: "byte \<Rightarrow> nft_batch \<Rightarrow> int \<times> nft_batch" where
  "nft_build family b =
     (let (r, b) = nft_create_table family b in
      if r \<noteq> 0 then (-1, b)
      else let (r, b) = nft_create_chain family b in
      if r \<noteq> 0 then (-1, b)
      else nft_add_masq_rule family b)"

text \<open>\<open>junk\<close> is what the batch on the stack holds before it is opened.\<close>

definition nft_setup_family :: "os \<Rightarrow> byte \<Rightarrow> byte list \<Rightarrow> trace \<Rightarrow> (int \<times> trace) option" where
  "nft_setup_family os family junk tr =
     (let (f, tr) = netfilter_open os tr in
      case f of
        None \<Rightarrow> Some (-1, tr)
      | Some fd \<Rightarrow>
          let b = nft_batch_open \<lparr>nb_data = junk, nb_len = 0, nb_seq = 0\<rparr>;
              (r, b) = nft_build family b in
          if r \<noteq> 0 then Some (-1, snd (sys os (Close fd) tr))
          else
            (case nft_batch_flush os fd b tr of
               None \<Rightarrow> None
             | Some (r, tr) \<Rightarrow>
                 let (_, tr) = sys os (Close fd) tr
                 in Some (if r = 0 \<or> r = - EEXIST then 0 else -1, tr)))"

definition net_setup_nat :: "os \<Rightarrow> byte list \<Rightarrow> trace \<Rightarrow> (int \<times> trace) option" where
  "net_setup_nat os junk tr = nft_setup_family os AF_INET junk tr"

definition net_setup_nat6 :: "os \<Rightarrow> byte list \<Rightarrow> trace \<Rightarrow> (int \<times> trace) option" where
  "net_setup_nat6 os junk tr = nft_setup_family os AF_INET6 junk tr"

end
