(* ===== verification/Net.thy ===== *)
theory Net
  imports NetDump Nft
begin

text \<open>
  The guest's side of the link and the forwarding switches of the host (\<^verbatim>\<open>src/net/net.c\<close>).
  \<open>junk\<close> is what the dump buffer on the stack holds before; a result \<open>None\<close> is a walk that leaves
  that buffer.  \<open>readdir\<close> gives the names that \<open>opendir\<close> found.
\<close>

section \<open>Addresses\<close>

definition SUBNET_A :: u32 where "SUBNET_A = 172"
definition SUBNET_B :: u32 where "SUBNET_B = 24"

definition NET_IP4 :: "u32 \<Rightarrow> u32 \<Rightarrow> u32 \<Rightarrow> u32 \<Rightarrow> u32" where
  "NET_IP4 a b c d = push_bit 24 a OR push_bit 16 b OR push_bit 8 c OR d"

definition NET_HOST_IP :: "int \<Rightarrow> u32" where
  "NET_HOST_IP i = NET_IP4 SUBNET_A SUBNET_B 0 (word_of_int (i * 2 + 1))"

definition NET_CAGE_IP :: "int \<Rightarrow> u32" where
  "NET_CAGE_IP i = NET_IP4 SUBNET_A SUBNET_B 0 (word_of_int (i * 2))"

definition NET6_PREFIXLEN :: int where "NET6_PREFIXLEN = 127"

definition net6_addr :: "int \<Rightarrow> bool \<Rightarrow> byte list" where
  "net6_addr i host_end =
     [0xfd, 0xca, 0x00, 0x6e, 0, 0, 0, 0, 0, 0, 0, 0, 0, 0, 0,
      ucast ((word_of_int i :: u32) * 2 + (if host_end then 1 else 0))]"

section \<open>Requests\<close>

definition link_dump_find :: "os \<Rightarrow> int \<Rightarrow> string \<Rightarrow> byte list \<Rightarrow> trace \<Rightarrow> (int option \<times> trace) option" where
  "link_dump_find os fd name junk tr = netlink_dump_find_ifname os fd name junk tr"

definition nl_transact :: "os \<Rightarrow> int \<Rightarrow> nat \<Rightarrow> int \<times> byte list \<Rightarrow> trace \<Rightarrow> int \<times> trace" where
  "nl_transact os fd cap fb tr =
     (let (filled, buf) = fb in
      if filled < 0 then (-1, tr)
      else
        let (r, tr) = netlink_send os fd (take (unat (nlmsg_len buf 0)) buf) tr in
        if r < 0 then (-1, tr)
        else let (r, d, tr) = netlink_recv os fd cap tr in (r, tr))"

definition addr_add :: "os \<Rightarrow> int \<Rightarrow> int \<Rightarrow> u32 \<Rightarrow> trace \<Rightarrow> int \<times> trace" where
  "addr_add os fd ifindex local tr = nl_transact os fd 128 (netlink_fill_addr 128 ifindex 31 local) tr"

definition default_route_add :: "os \<Rightarrow> int \<Rightarrow> int \<Rightarrow> u32 \<Rightarrow> trace \<Rightarrow> int \<times> trace" where
  "default_route_add os fd ifindex gw tr =
     nl_transact os fd 128 (netlink_fill_default_route 128 ifindex gw) tr"

definition link_up :: "os \<Rightarrow> int \<Rightarrow> int \<Rightarrow> trace \<Rightarrow> int \<times> trace" where
  "link_up os fd ifindex tr = nl_transact os fd 128 (netlink_fill_up 128 ifindex) tr"

definition setup_loopback :: "os \<Rightarrow> int \<Rightarrow> byte list \<Rightarrow> trace \<Rightarrow> (int \<times> trace) option" where
  "setup_loopback os fd junk tr =
     (case link_dump_find os fd ''lo'' junk tr of
        None \<Rightarrow> None
      | Some (None, tr) \<Rightarrow> Some (-1, tr)
      | Some (Some ifindex, tr) \<Rightarrow> Some (link_up os fd ifindex tr))"

definition addr6_add :: "os \<Rightarrow> int \<Rightarrow> int \<Rightarrow> int \<Rightarrow> bool \<Rightarrow> trace \<Rightarrow> int \<times> trace" where
  "addr6_add os fd ifindex i host_end tr =
     nl_transact os fd 128 (netlink_fill_addr6 128 ifindex NET6_PREFIXLEN (net6_addr i host_end)) tr"

definition default_route6_add :: "os \<Rightarrow> int \<Rightarrow> int \<Rightarrow> int \<Rightarrow> trace \<Rightarrow> int \<times> trace" where
  "default_route6_add os fd ifindex i tr =
     nl_transact os fd 128 (netlink_fill_default_route6 128 ifindex (net6_addr i True)) tr"

definition config_child_v4 :: "os \<Rightarrow> int \<Rightarrow> int \<Rightarrow> int \<Rightarrow> trace \<Rightarrow> int \<times> trace" where
  "config_child_v4 os fd i ifindex tr =
     (let (r, tr) = addr_add os fd ifindex (NET_CAGE_IP i) tr in
      if r < 0 then (-1, tr)
      else let (r, tr) = link_up os fd ifindex tr in
      if r < 0 then (-1, tr)
      else default_route_add os fd ifindex (NET_HOST_IP i) tr)"

definition config_child_v6 :: "os \<Rightarrow> int \<Rightarrow> int \<Rightarrow> int \<Rightarrow> trace \<Rightarrow> trace" where
  "config_child_v6 os fd i ifindex tr =
     (let (r, tr) = addr6_add os fd ifindex i False tr in
      if r = 0 then snd (default_route6_add os fd ifindex i tr) else tr)"

definition config_child_link :: "os \<Rightarrow> int \<Rightarrow> int \<Rightarrow> byte list \<Rightarrow> trace \<Rightarrow> (int \<times> trace) option" where
  "config_child_link os fd i junk tr =
     (case link_dump_find os fd CAGE_VETH_PEER_NAME junk tr of
        None \<Rightarrow> None
      | Some (None, tr) \<Rightarrow> Some (-1, tr)
      | Some (Some ifindex, tr) \<Rightarrow>
          let (r, tr) = config_child_v4 os fd i ifindex tr in
          if r < 0 then Some (-1, tr)
          else Some (0, config_child_v6 os fd i ifindex tr))"

definition net_setup_child :: "os \<Rightarrow> int \<Rightarrow> byte list \<Rightarrow> trace \<Rightarrow> (int \<times> trace) option" where
  "net_setup_child os i junk tr =
     (let (f, tr) = netlink_open os tr in
      case f of
        None \<Rightarrow> Some (-1, tr)
      | Some fd \<Rightarrow>
          (case config_child_link os fd i junk tr of
             None \<Rightarrow> None
           | Some (r, tr) \<Rightarrow>
               if r < 0 then Some (-1, netlink_close os fd tr)
               else
                 (case setup_loopback os fd junk tr of
                    None \<Rightarrow> None
                  | Some (r, tr) \<Rightarrow> Some (if r < 0 then -1 else 0, netlink_close os fd tr))))"

section \<open>Forwarding\<close>

definition O_RDONLY_CLOEXEC :: nat where "O_RDONLY_CLOEXEC = 524288"
definition O_WRONLY_CLOEXEC :: nat where "O_WRONLY_CLOEXEC = 524289"

definition write_str :: "os \<Rightarrow> string \<Rightarrow> string \<Rightarrow> trace \<Rightarrow> int \<times> trace" where
  "write_str os path s tr =
     (let (a, tr) = sys os (Open path O_WRONLY_CLOEXEC) tr; fd = a_ret a in
      if fd < 0 then (-1, tr)
      else
        let (w, tr) = sys os (Write fd s) tr; (e, tr) = sys os (Close fd) tr
        in (if a_ret w = int (length s) \<and> a_ret e = 0 then 0 else -1, tr))"

definition write_one :: "os \<Rightarrow> string \<Rightarrow> trace \<Rightarrow> int \<times> trace" where
  "write_one os path tr =
     (let (a, tr) = sys os (Open path O_WRONLY_CLOEXEC) tr; fd = a_ret a in
      if fd < 0 then (-1, tr)
      else
        let (w, tr) = sys os (Write fd (''1'' @ [CHR 0x0A])) tr; (e, tr) = sys os (Close fd) tr
        in (if a_ret w = 2 \<and> a_ret e = 0 then 0 else -1, tr))"

definition net_enable_ip_forward :: "os \<Rightarrow> trace \<Rightarrow> int \<times> trace" where
  "net_enable_ip_forward os tr = write_one os ''/proc/sys/net/ipv4/ip_forward'' tr"

definition conf6 :: "string \<Rightarrow> string \<Rightarrow> string" where
  "conf6 name field = ''/proc/sys/net/ipv6/conf/'' @ name @ ''/'' @ field"

definition raise_accept_ra :: "os \<Rightarrow> string \<Rightarrow> trace \<Rightarrow> bool \<times> trace" where
  "raise_accept_ra os name tr =
     (let path = conf6 name ''accept_ra'' in
      if 64 \<le> length path then (True, tr)
      else
        let (a, tr) = sys os (Open path O_RDONLY_CLOEXEC) tr; fd = a_ret a in
        if fd < 0 then (True, tr)
        else
          let (n, tr) = sys os (Read fd 3) tr; (_, tr) = sys os (Close fd) tr in
          if a_ret n \<le> 0 then (True, tr)
          else if a_data n ! 0 \<noteq> 49 then (True, tr)
          else let (r, tr) = write_str os path (''2'' @ [CHR 0x0A]) tr in (r = 0, tr))"

definition skip_conf_entry :: "string \<Rightarrow> bool" where
  "skip_conf_entry name \<longleftrightarrow>
     (name \<noteq> [] \<and> name ! 0 = CHR ''.'') \<or> name = ''all'' \<or> name = ''default''"

fun raise_all_accept_ra :: "os \<Rightarrow> string list \<Rightarrow> trace \<Rightarrow> bool \<times> trace" where
  "raise_all_accept_ra os [] tr = (True, tr)"
| "raise_all_accept_ra os (e # es) tr =
     (if skip_conf_entry e then raise_all_accept_ra os es tr
      else
        let (ok, tr) = raise_accept_ra os e tr in
        if ok then raise_all_accept_ra os es tr else (False, tr))"

definition legacy_ip6_forward :: "os \<Rightarrow> trace \<Rightarrow> trace" where
  "legacy_ip6_forward os tr =
     (let (d, tr) = sys os (Opendir ''/proc/sys/net/ipv6/conf'') tr in
      if a_ret d < 0 then tr
      else
        let (ok, tr) = raise_all_accept_ra os (a_names d) tr in
        if \<not> ok then tr
        else
          let (_, tr) = write_str os (conf6 ''default'' ''accept_ra'') (''2'' @ [CHR 0x0A]) tr;
              (_, tr) = write_one os (conf6 ''all'' ''forwarding'') tr
          in tr)"

fun force_forward_existing :: "os \<Rightarrow> string list \<Rightarrow> trace \<Rightarrow> trace" where
  "force_forward_existing os [] tr = tr"
| "force_forward_existing os (e # es) tr =
     (if skip_conf_entry e then force_forward_existing os es tr
      else if 64 \<le> length (conf6 e ''force_forwarding'') then force_forward_existing os es tr
      else
        let (_, tr) = write_str os (conf6 e ''force_forwarding'') (''1'' @ [CHR 0x0A]) tr
        in force_forward_existing os es tr)"

definition net_enable_ip6_forward :: "os \<Rightarrow> trace \<Rightarrow> int \<times> trace" where
  "net_enable_ip6_forward os tr =
     (let (r, tr) = write_str os (conf6 ''all'' ''force_forwarding'') (''1'' @ [CHR 0x0A]) tr in
      if r = 0 then
        let (_, tr) = write_str os (conf6 ''default'' ''force_forwarding'') (''1'' @ [CHR 0x0A]) tr;
            (d, tr) = sys os (Opendir ''/proc/sys/net/ipv6/conf'') tr
        in (0, if a_ret d < 0 then tr else force_forward_existing os (a_names d) tr)
      else (0, legacy_ip6_forward os tr))"

section \<open>The addresses of a link\<close>

lemma ip4_low:
  assumes "d < 256"
  shows "NET_IP4 SUBNET_A SUBNET_B 0 (of_nat d) = 0xAC180000 + of_nat d"
proof -
  have "unat (of_nat d :: u32) = d" using assms by (intro unat_of_nat_small) simp
  then have "take_bit 8 (of_nat d :: u32) = of_nat d"
    using assms by (simp add: word_unat_eq_iff unsigned_take_bit_eq take_bit_nat_eq_self)
  moreover have "push_bit 19 x AND take_bit 8 w = 0" for x w :: u32
    by (rule bit_word_eqI) (auto simp: bit_simps)
  ultimately have "push_bit 19 (0x1583 :: u32) AND of_nat d = 0" by metis
  then have "(0xAC180000 :: u32) OR of_nat d = 0xAC180000 + of_nat d"
    by (simp add: disjunctive_add_eq_or)
  moreover have "NET_IP4 SUBNET_A SUBNET_B 0 x = 0xAC180000 OR x" for x
    by (simp add: NET_IP4_def SUBNET_A_def SUBNET_B_def flip: or.assoc)
  ultimately show ?thesis by simp
qed

lemma link_ips:
  assumes "i \<le> CAGE_VETH_MAX_ID"
  shows "unat (NET_CAGE_IP (int i)) = 0xAC180000 + 2 * i" and "unat (NET_HOST_IP (int i)) = 0xAC180000 + 2 * i + 1"
proof -
  have i: "2 * i + 1 < 256" using assms by (simp add: CAGE_VETH_MAX_ID_def)
  have w: "(word_of_int (int i * 2) :: u32) = of_nat (2 * i)" "(word_of_int (int i * 2 + 1) :: u32) = of_nat (2 * i + 1)"
    by (simp_all add: mult.commute)
  have u: "unat ((0xAC180000 :: u32) + of_nat d) = 0xAC180000 + d" if "d < 256" for d
  proof -
    have "(0xAC180000 :: u32) + of_nat d = of_nat (0xAC180000 + d)" by simp
    then show ?thesis using that unat_of_nat_small [of "0xAC180000 + d", where 'a = 32] by simp
  qed
  show "unat (NET_CAGE_IP (int i)) = 0xAC180000 + 2 * i"
    unfolding NET_CAGE_IP_def w by (subst ip4_low) (use i u [of "2 * i"] in simp_all)
  show "unat (NET_HOST_IP (int i)) = 0xAC180000 + 2 * i + 1"
    unfolding NET_HOST_IP_def w by (subst ip4_low) (use i u [of "2 * i + 1"] in simp_all)
qed

lemma link_ip6:
  assumes "i \<le> CAGE_VETH_MAX_ID"
  shows "unat (net6_addr (int i) False ! 15) = 2 * i" and "unat (net6_addr (int i) True ! 15) = 2 * i + 1"
proof -
  have i: "2 * i + 1 < 256" using assms by (simp add: CAGE_VETH_MAX_ID_def)
  have e: "(word_of_int (int i) :: u32) * 2 = of_nat (2 * i)" "(word_of_int (int i) :: u32) * 2 + 1 = of_nat (2 * i + 1)"
    by (simp_all add: mult.commute)
  have u: "unat (ucast (of_nat d :: u32) :: byte) = d" if "d < 256" for d
    using that by (simp add: unsigned_ucast_eq unsigned_of_nat take_bit_nat_eq_self)
  show "unat (net6_addr (int i) False ! 15) = 2 * i" using u [of "2 * i"] i
    by (simp add: net6_addr_def mult.commute)
  show "unat (net6_addr (int i) True ! 15) = 2 * i + 1" using u [of "2 * i + 1"] i
    unfolding net6_addr_def if_True e(2) by simp
qed

text \<open>
  Every link has its own pair of addresses.  For the numbers that \<open>netlink_alloc_veth_id\<close> gives
  out, the guest's and the host's addresses differ in the last bit only, so that they are the two
  addresses of a /31 (and of a /127 for IPv6), and links with different numbers share no address.
\<close>

theorem link_addresses_disjoint:
  assumes "i \<le> CAGE_VETH_MAX_ID" and "j \<le> CAGE_VETH_MAX_ID"
  shows "unat (NET_CAGE_IP (int i)) div 2 = unat (NET_HOST_IP (int i)) div 2 \<and>
    NET_CAGE_IP (int i) \<noteq> NET_HOST_IP (int i) \<and>
    (i \<noteq> j \<longrightarrow> {NET_CAGE_IP (int i), NET_HOST_IP (int i)} \<inter> {NET_CAGE_IP (int j), NET_HOST_IP (int j)} = {}) \<and>
    take 15 (net6_addr (int i) False) = take 15 (net6_addr (int j) True) \<and>
    unat (net6_addr (int i) False ! 15) div 2 = unat (net6_addr (int i) True ! 15) div 2 \<and>
    (i \<noteq> j \<longrightarrow> {net6_addr (int i) False, net6_addr (int i) True} \<inter>
       {net6_addr (int j) False, net6_addr (int j) True} = {})"
proof (intro conjI impI)
  note I = link_ips [OF assms(1)] and J = link_ips [OF assms(2)]
    and I6 = link_ip6 [OF assms(1)] and J6 = link_ip6 [OF assms(2)]
  show "unat (NET_CAGE_IP (int i)) div 2 = unat (NET_HOST_IP (int i)) div 2" unfolding I by presburger
  show "NET_CAGE_IP (int i) \<noteq> NET_HOST_IP (int i)" using I by (metis n_not_Suc_n Suc_eq_plus1)
  show "take 15 (net6_addr (int i) False) = take 15 (net6_addr (int j) True)" by (simp add: net6_addr_def)
  show "unat (net6_addr (int i) False ! 15) div 2 = unat (net6_addr (int i) True ! 15) div 2" unfolding I6 by presburger
  assume n: "i \<noteq> j"
  have D: "x \<noteq> y" if "unat x = k" and "unat y = l" and "k \<noteq> l" for x y :: u32 and k l
    using that by auto
  have E: "x \<noteq> y" if "unat (x ! 15) = k" and "unat (y ! 15) = l" and "k \<noteq> l" for x y :: "byte list" and k l
    using that by auto
  have d: "NET_CAGE_IP (int i) \<noteq> NET_CAGE_IP (int j)" "NET_HOST_IP (int i) \<noteq> NET_HOST_IP (int j)"
    "NET_CAGE_IP (int i) \<noteq> NET_HOST_IP (int j)" "NET_HOST_IP (int i) \<noteq> NET_CAGE_IP (int j)"
    by (rule D [OF I(1) J(1)] D [OF I(2) J(2)] D [OF I(1) J(2)] D [OF I(2) J(1)], use n in presburger)+
  have d6: "net6_addr (int i) False \<noteq> net6_addr (int j) False" "net6_addr (int i) True \<noteq> net6_addr (int j) True"
    "net6_addr (int i) False \<noteq> net6_addr (int j) True" "net6_addr (int i) True \<noteq> net6_addr (int j) False"
    by (rule E [OF I6(1) J6(1)] E [OF I6(2) J6(2)] E [OF I6(1) J6(2)] E [OF I6(2) J6(1)], use n in presburger)+
  show "{NET_CAGE_IP (int i), NET_HOST_IP (int i)} \<inter> {NET_CAGE_IP (int j), NET_HOST_IP (int j)} = {}"
    using d by blast
  show "{net6_addr (int i) False, net6_addr (int i) True} \<inter> {net6_addr (int j) False, net6_addr (int j) True} = {}"
    using d6 by blast
qed

lemma link_addresses_disjoint_witness:
  "{NET_CAGE_IP (int 3), NET_HOST_IP (int 3)} \<inter> {NET_CAGE_IP (int 126), NET_HOST_IP (int 126)} = {}"
  using link_addresses_disjoint [of 3 126] by (simp add: CAGE_VETH_MAX_ID_def)

text \<open>A refusal of the kernel is received and dropped: only the transport decides the result.\<close>

lemma addr_add_ignores_refusal:
  assumes "\<And>tr c. 0 \<le> a_ret (os tr c)"
  shows "fst (addr_add os fd i local tr) = (if fst (netlink_fill_addr 128 i 31 local) < 0 then -1 else 0)"
proof -
  have "\<not> a_ret (os tr c) < 0" for tr c using assms by (simp add: not_less)
  then show ?thesis
    by (simp add: addr_add_def nl_transact_def netlink_send_def netlink_recv_def netlink_recv_flags_def sys_def
        Let_def split: prod.splits)
qed

end
