(* ===== verification/NftSpec.thy ===== *)
theory NftSpec
  imports Nft
begin

text \<open>
  The batch that \<open>nft_build\<close> and \<open>nft_batch_flush\<close> send, as messages, and the meaning of the
  result that is read back.
\<close>

definition nfgen :: "byte \<Rightarrow> u16 \<Rightarrow> byte list" where
  "nfgen family res = [family, NFNETLINK_V0] @ le16 (htons res)"

definition nft_type :: "u16 \<Rightarrow> u16" where
  "nft_type t = push_bit 8 NFNL_SUBSYS_NFTABLES OR t"

definition table_attrs :: "nla list" where
  "table_attrs = [Nla NFTA_TABLE_NAME (cstr_bytes NFT_TABLE_NAME)]"

definition chain_attrs :: "nla list" where
  "chain_attrs =
     [Nla NFTA_CHAIN_TABLE (cstr_bytes NFT_TABLE_NAME),
      Nla NFTA_CHAIN_NAME (cstr_bytes NFT_CHAIN_NAME),
      nest NFTA_CHAIN_HOOK []
        [Nla NFTA_HOOK_HOOKNUM (rev (le32 NF_INET_POST_ROUTING)), Nla NFTA_HOOK_PRIORITY (rev (le32 100))],
      Nla NFTA_CHAIN_TYPE (cstr_bytes ''nat'')]"

definition rule_attrs :: "nla list" where
  "rule_attrs =
     [Nla NFTA_RULE_TABLE (cstr_bytes NFT_TABLE_NAME),
      Nla NFTA_RULE_CHAIN (cstr_bytes NFT_CHAIN_NAME),
      nest NFTA_RULE_EXPRESSIONS []
        [nest NFTA_LIST_ELEM []
           [Nla NFTA_EXPR_NAME (cstr_bytes ''masq''), nest NFTA_EXPR_DATA [] []]]]"

definition nft_msg :: "u16 \<Rightarrow> u16 \<Rightarrow> u32 \<Rightarrow> byte list \<Rightarrow> nlmsg" where
  "nft_msg t f s body =
     \<lparr>m_type = t, m_flags = NLM_F_REQUEST OR f, m_seq = s, m_pid = 0, m_body = body\<rparr>"

definition nat_batch :: "byte \<Rightarrow> nlmsg list" where
  "nat_batch family =
     [nft_msg NFNL_MSG_BATCH_BEGIN NLM_F_ACK 0 (nfgen AF_UNSPEC NFNL_SUBSYS_NFTABLES),
      nft_msg (nft_type NFT_MSG_NEWTABLE) (NLM_F_CREATE OR NLM_F_EXCL) 1 (nfgen family 0 @ nlas_bytes table_attrs),
      nft_msg (nft_type NFT_MSG_NEWCHAIN) NLM_F_CREATE 2 (nfgen family 0 @ nlas_bytes chain_attrs),
      nft_msg (nft_type NFT_MSG_NEWRULE) (NLM_F_CREATE OR NLM_F_APPEND) 3 (nfgen family 0 @ nlas_bytes rule_attrs),
      nft_msg NFNL_MSG_BATCH_END 0 4 (nfgen 0 NFNL_SUBSYS_NFTABLES)]"

section \<open>Appending to a batch\<close>

text \<open>The batch holds the bytes \<open>P\<close> and has given out the sequence numbers up to \<open>n\<close>.\<close>

definition holds :: "byte list \<Rightarrow> u32 \<Rightarrow> nft_batch \<Rightarrow> bool" where
  "holds P n b \<longleftrightarrow> length (nb_data b) = 768 \<and> take (length P) (nb_data b) = P \<and>
     nb_len b = length P \<and> nb_seq b = n"

lemma length_nfgen [simp]: "length (nfgen f r) = 4"
  by (simp add: nfgen_def)

lemma holds_put:
  assumes "holds P n b" and "length P + length d \<le> 768" and "m = length P + length d"
  shows "holds (P @ d) n' \<lparr>nb_data = put_bytes (nb_data b) (nb_len b) d, nb_len = m, nb_seq = n'\<rparr>"
proof -
  have l: "length (nb_data b) = 768" "take (length P) (nb_data b) = P" "nb_len b = length P"
    using assms(1) by (auto simp: holds_def)
  have "put_bytes (nb_data b) (nb_len b) d = P @ d @ drop (length P + length d) (nb_data b)"
    using l by (simp add: put_bytes_def)
  then show ?thesis using l assms(2,3) by (simp add: holds_def)
qed

lemma request_header:
  "set_nlmsg_seq q (set_nlmsg_flags f (set_nlmsg_type t (set_nlmsg_len v
     (fst (bld cap l (replicate 12 0 @ body)))))) =
   le32 v @ le16 t @ le16 f @ le32 q @ le32 0 @ body @ replicate (cap - (16 + length body)) 0"
proof -
  let ?z = "body @ replicate (cap - (16 + length body)) 0"
  have e: "le32 0 = [0, 0, 0, 0]" by (simp add: le32_def)
  have r: "replicate 12 (0::byte) = [0, 0] @ [0, 0] @ [0, 0, 0, 0] @ [0, 0, 0, 0]"
    by (simp add: numeral_eq_Suc)
  have "fst (bld cap l (replicate 12 0 @ body)) = le32 l @ replicate 12 0 @ ?z"
    by (simp add: bld_def)
  then have 0: "fst (bld cap l (replicate 12 0 @ body)) =
      [] @ le32 l @ [0, 0] @ [0, 0] @ [0, 0, 0, 0] @ [0, 0, 0, 0] @ ?z"
    unfolding r by (simp only: append.assoc append_Nil)
  have 1: "set_nlmsg_len v (fst (bld cap l (replicate 12 0 @ body))) =
      le32 v @ [0, 0] @ [0, 0] @ [0, 0, 0, 0] @ [0, 0, 0, 0] @ ?z"
    unfolding 0 set_nlmsg_len_def by (subst put_at_len) simp_all
  have 2: "set_nlmsg_type t (le32 v @ [0, 0] @ x) = (le32 v @ le16 t) @ x" for x
    unfolding set_nlmsg_type_def by (subst put_at_len) simp_all
  have 3: "set_nlmsg_flags f ((le32 v @ le16 t) @ [0, 0] @ x) = (le32 v @ le16 t @ le16 f) @ x" for x
    unfolding set_nlmsg_flags_def by (subst put_at_len) simp_all
  have 4: "set_nlmsg_seq q ((le32 v @ le16 t @ le16 f) @ [0, 0, 0, 0] @ x) =
      (le32 v @ le16 t @ le16 f @ le32 q) @ x" for x
    unfolding set_nlmsg_seq_def by (subst put_at_len) simp_all
  show ?thesis unfolding 1 2 3 4 e by simp
qed

lemma batch_msg_appends:
  assumes "holds P n b" and "length P + 16 + length body \<le> 768" and "length body mod 4 = 0"
  shows "\<exists>b'. nft_batch_msg t f (fst (bld cap l (replicate 12 0 @ body))) (16 + length body) b = (0, b') \<and>
    holds (P @ msg_bytes (nft_msg t f (n + 1) body)) (n + 1) b'"
proof -
  let ?m = "nft_msg t f (n + 1) body"
  have a: "align4 (16 + length body) = 16 + length body"
    using assms(3) unfolding align4_def by presburger
  have l: "length (nb_data b) = 768" "nb_len b = length P" "nb_seq b = n"
    using assms(1) by (auto simp: holds_def)
  have mb: "msg_bytes ?m = le32 (of_nat (16 + length body)) @ le16 t @ le16 (NLM_F_REQUEST OR f) @
      le32 (n + 1) @ le32 0 @ body"
    by (simp add: msg_bytes_def nft_msg_def msg_size_def)
  have "take (16 + length body) (le32 (of_nat (16 + length body)) @ le16 t @ le16 (NLM_F_REQUEST OR f) @
      le32 (n + 1) @ le32 0 @ body @ replicate (cap - (16 + length body)) 0) = msg_bytes ?m"
    unfolding mb by simp
  then have "nft_batch_msg t f (fst (bld cap l (replicate 12 0 @ body))) (16 + length body) b =
      (0, \<lparr>nb_data = put_bytes (nb_data b) (nb_len b) (msg_bytes ?m),
           nb_len = nb_len b + (16 + length body), nb_seq = n + 1\<rparr>)"
    unfolding nft_batch_msg_def Let_def request_header a using l assms(2) by simp
  moreover have "holds (P @ msg_bytes ?m) (n + 1) \<lparr>nb_data = put_bytes (nb_data b) (nb_len b) (msg_bytes ?m),
           nb_len = nb_len b + (16 + length body), nb_seq = n + 1\<rparr>"
    by (rule holds_put [OF assms(1)]) (use l assms(2) in \<open>simp_all add: nft_msg_def msg_size_def\<close>)
  ultimately show ?thesis by blast
qed

lemma NFT_INIT_bld:
  assumes "20 \<le> cap"
  shows "NFT_INIT cap family = bld cap 0 (replicate 12 0 @ nfgen family 0)"
proof -
  have "cap = 16 + 1 + 1 + 2 + (cap - 20)" using assms by simp
  then have "replicate cap (0::byte) = replicate (16 + 1 + 1 + 2 + (cap - 20)) 0" by simp
  then have r: "replicate cap (0::byte) = replicate 16 0 @ [0] @ [0] @ [0, 0] @ replicate (cap - 20) 0"
    unfolding replicate_add by (simp add: numeral_eq_Suc)
  let ?z = "replicate (cap - 20) (0::byte)" and ?h = "replicate 16 (0::byte)"
  have 1: "put_bytes (?h @ [0] @ x) 16 [family] = (?h @ [family]) @ x" for x
    by (subst put_at_len) simp_all
  have 2: "put_bytes ((?h @ [family]) @ [0] @ x) 17 [v] = (?h @ [family, v]) @ x" for x v
    by (subst put_at_len) simp_all
  have 3: "put_bytes ((?h @ [family, v]) @ [0, 0] @ x) 18 (le16 0) = ?h @ [family, v] @ le16 0 @ x" for x v
    by (subst put_at_len) simp_all
  have i: "NFT_INIT cap family =
      (put_bytes (put_bytes (put_bytes (replicate cap 0) 16 [family]) 17 [NFNETLINK_V0]) 18 (le16 0), 20)"
    by (simp add: NFT_INIT_def Let_def NLMSG_HDRLEN_def NFT_HDR_def)
  have h: "?h = le32 0 @ replicate 12 0" by (simp add: le32_def numeral_eq_Suc)
  have z: "htons 0 = 0" by (simp add: htons_def)
  have "NFT_INIT cap family = (?h @ [family, NFNETLINK_V0] @ le16 0 @ ?z, 20)"
    unfolding i r 1 2 3 ..
  then show ?thesis unfolding h by (simp add: bld_def nfgen_def z)
qed

section \<open>The five messages\<close>

lemma nft_string_lengths [simp]: "length NFT_TABLE_NAME = 8" "length NFT_CHAIN_NAME = 11"
  by (simp_all add: NFT_TABLE_NAME_def NFT_CHAIN_NAME_def)

lemma align4_values [simp]:
  "align4 8 = 8" "align4 9 = 12" "align4 13 = 16" "align4 16 = 16" "align4 12 = 12" "align4 20 = 20"
  "align4 4 = 4" "align4 24 = 24" "align4 28 = 28"
  by (simp_all add: align4_def)

lemma put_string_ex:
  assumes "5 + length s < 65536" and "4 + length xs + align4 (5 + length s) \<le> cap"
  shows "\<exists>l'. netlink_put_string cap t s (bld cap l xs) = (0, bld cap l' (xs @ nla_bytes (Nla t (cstr_bytes s))))"
  using put_string_bld [OF assms] by blast

lemma put_be32_bld:
  assumes "4 + length xs + 8 \<le> cap"
  shows "nft_put_be32 cap t v (bld cap l xs) = (0, bld cap l (xs @ nla_bytes (Nla t (rev (le32 v)))))"
  using put_u32_bld [OF assms, of t "htonl v" l] by (simp add: nft_put_be32_def le32_htonl del: nla_bytes.simps)

lemma nft_hook_bld:
  assumes "24 + length xs \<le> cap"
  shows "nft_chain_hook cap (bld cap l xs) = (0, bld cap l (xs @ nla_bytes (chain_attrs ! 2)))"
proof -
  let ?a = "Nla NFTA_HOOK_HOOKNUM (rev (le32 NF_INET_POST_ROUTING))" and ?p = "Nla NFTA_HOOK_PRIORITY (rev (le32 100))"
  let ?o = "nest_open NFTA_CHAIN_HOOK"
  have 1: "netlink_nest_start cap (NFTA_CHAIN_HOOK OR NLA_F_NESTED) (bld cap l xs) =
      (0, bld cap l (xs @ ?o), 4 + length xs)"
    by (rule nest_start_bld) (use assms in simp)
  have 2: "nft_put_be32 cap NFTA_HOOK_HOOKNUM NF_INET_POST_ROUTING (bld cap l (xs @ ?o)) =
      (0, bld cap l ((xs @ ?o) @ nla_bytes ?a))"
    by (rule put_be32_bld) (use assms in simp)
  have 3: "nft_put_be32 cap NFTA_HOOK_PRIORITY 100 (bld cap l ((xs @ ?o) @ nla_bytes ?a)) =
      (0, bld cap l (((xs @ ?o) @ nla_bytes ?a) @ nla_bytes ?p))"
    by (rule put_be32_bld) (use assms in \<open>simp del: nla_bytes.simps\<close>)
  from nest_end_bld [OF nlas_mod, of xs cap l NFTA_CHAIN_HOOK "[?a, ?p]"]
  have 4: "netlink_nest_end (4 + length xs) (bld cap l (((xs @ ?o) @ nla_bytes ?a) @ nla_bytes ?p)) =
      bld cap l (xs @ nla_bytes (chain_attrs ! 2))"
    by (simp add: chain_attrs_def nest_def del: nla_bytes.simps)
  show ?thesis
    unfolding nft_chain_hook_def Let_def 1 case_prod_conv 2 3 4 by simp
qed

lemma length_chain_hook [simp]: "length (nla_bytes (chain_attrs ! 2)) = 20"
  by (simp add: chain_attrs_def nest_def del: nla_bytes.simps)

lemma nft_masq_bld:
  assumes "28 + length xs \<le> cap"
  shows "\<exists>l'. nft_put_expr_masq cap (bld cap l xs) = (0, bld cap l' (xs @ nla_bytes (rule_attrs ! 2)))"
proof -
  let ?o1 = "nest_open NFTA_RULE_EXPRESSIONS" and ?o2 = "nest_open NFTA_LIST_ELEM" and ?o3 = "nest_open NFTA_EXPR_DATA"
  let ?m = "Nla NFTA_EXPR_NAME (cstr_bytes ''masq'')" and ?d = "nest NFTA_EXPR_DATA [] []"
  let ?y = "((xs @ ?o1) @ ?o2) @ nla_bytes ?m"
  have y: "length ?y = length xs + 20" by (simp del: nla_bytes.simps)
  have 1: "netlink_nest_start cap (NFTA_RULE_EXPRESSIONS OR NLA_F_NESTED) (bld cap l xs) =
      (0, bld cap l (xs @ ?o1), 4 + length xs)"
    by (rule nest_start_bld) (use assms in simp)
  have 2: "netlink_nest_start cap (NFTA_LIST_ELEM OR NLA_F_NESTED) (bld cap l (xs @ ?o1)) =
      (0, bld cap l ((xs @ ?o1) @ ?o2), 4 + length (xs @ ?o1))"
    by (rule nest_start_bld) (use assms in simp)
  obtain l1 where 3: "netlink_put_string cap NFTA_EXPR_NAME ''masq'' (bld cap l ((xs @ ?o1) @ ?o2)) =
      (0, bld cap l1 ?y)"
    using put_string_ex [of "''masq''" "(xs @ ?o1) @ ?o2" cap NFTA_EXPR_NAME l] assms
    by (auto simp del: nla_bytes.simps append_assoc)
  have 4: "netlink_nest_start cap (NFTA_EXPR_DATA OR NLA_F_NESTED) (bld cap l1 ?y) =
      (0, bld cap l1 (?y @ ?o3), 4 + length ?y)"
    by (rule nest_start_bld) (use assms y in simp)
  from nest_end_bld [of "[]" ?y cap l1 NFTA_EXPR_DATA]
  have 5: "netlink_nest_end (4 + length ?y) (bld cap l1 (?y @ ?o3)) = bld cap l1 (?y @ nla_bytes ?d)"
    by (simp add: nest_def del: nla_bytes.simps)
  from nest_end_bld [OF nlas_mod, of "xs @ ?o1" cap l1 NFTA_LIST_ELEM "[?m, ?d]"]
  have 6: "netlink_nest_end (4 + length (xs @ ?o1)) (bld cap l1 (?y @ nla_bytes ?d)) =
      bld cap l1 ((xs @ ?o1) @ nla_bytes (nest NFTA_LIST_ELEM [] [?m, ?d]))"
    by (simp add: nest_def [of NFTA_LIST_ELEM] del: nla_bytes.simps)
  from nest_end_bld [OF nlas_mod, of xs cap l1 NFTA_RULE_EXPRESSIONS "[nest NFTA_LIST_ELEM [] [?m, ?d]]"]
  have 7: "netlink_nest_end (4 + length xs) (bld cap l1 ((xs @ ?o1) @ nla_bytes (nest NFTA_LIST_ELEM [] [?m, ?d]))) =
      bld cap l1 (xs @ nla_bytes (rule_attrs ! 2))"
    by (simp add: rule_attrs_def nest_def [of NFTA_RULE_EXPRESSIONS] del: nla_bytes.simps)
  show ?thesis
    unfolding nft_put_expr_masq_def Let_def 1 case_prod_conv 2 3 4 5 6 7 by (simp, blast)
qed

lemma length_masq [simp]: "length (nla_bytes (rule_attrs ! 2)) = 24"
  by (simp add: rule_attrs_def nest_def del: nla_bytes.simps)

lemma nft_table_appends:
  assumes "holds P n b" and "length P + 36 \<le> 768"
  shows "\<exists>b'. nft_create_table family b = (0, b') \<and>
    holds (P @ msg_bytes (nft_msg (nft_type NFT_MSG_NEWTABLE) (NLM_F_CREATE OR NLM_F_EXCL) (n + 1)
      (nfgen family 0 @ nlas_bytes table_attrs))) (n + 1) b'"
proof -
  let ?x = "replicate 12 0 @ nfgen family 0"
  let ?b = "nfgen family 0 @ nlas_bytes table_attrs"
  have c: "NFT_HDR + 128 = 148" by (simp add: NFT_HDR_def NLMSG_HDRLEN_def)
  have len: "length ?b = 20" by (simp add: table_attrs_def del: nla_bytes.simps)
  have e: "?x @ nla_bytes (Nla NFTA_TABLE_NAME (cstr_bytes NFT_TABLE_NAME)) = replicate 12 0 @ ?b"
    by (simp add: table_attrs_def del: nla_bytes.simps)
  have "20 \<le> (148 :: nat)" by simp
  note I = NFT_INIT_bld [OF this]
  obtain l where 1: "netlink_put_string 148 NFTA_TABLE_NAME NFT_TABLE_NAME (bld 148 0 ?x) =
      (0, bld 148 l (replicate 12 0 @ ?b))"
    using put_string_ex [of NFT_TABLE_NAME ?x 148 NFTA_TABLE_NAME 0] unfolding e by auto
  have "length P + 16 + length ?b \<le> 768" "length ?b mod 4 = 0" unfolding len using assms(2) by simp_all
  note A = batch_msg_appends [OF assms(1) this, of "nft_type NFT_MSG_NEWTABLE" "NLM_F_CREATE OR NLM_F_EXCL" 148 l]
  have s: "4 + length (replicate 12 (0::byte) @ ?b) = 16 + length ?b" by simp
  show ?thesis
    unfolding nft_create_table_def c Let_def I 1 case_prod_conv nft_type_def [symmetric] bld_snd s
    using A by simp
qed

lemma nft_chain_appends:
  assumes "holds P n b" and "length P + 80 \<le> 768"
  shows "\<exists>b'. nft_create_chain family b = (0, b') \<and>
    holds (P @ msg_bytes (nft_msg (nft_type NFT_MSG_NEWCHAIN) NLM_F_CREATE (n + 1)
      (nfgen family 0 @ nlas_bytes chain_attrs))) (n + 1) b'"
proof -
  let ?x = "replicate 12 0 @ nfgen family 0"
  let ?b = "nfgen family 0 @ nlas_bytes chain_attrs"
  let ?t = "Nla NFTA_CHAIN_TABLE (cstr_bytes NFT_TABLE_NAME)" and ?n = "Nla NFTA_CHAIN_NAME (cstr_bytes NFT_CHAIN_NAME)"
  let ?h = "chain_attrs ! 2" and ?k = "Nla NFTA_CHAIN_TYPE (cstr_bytes ''nat'')"
  have c: "NFT_HDR + 256 = 276" by (simp add: NFT_HDR_def NLMSG_HDRLEN_def)
  have "chain_attrs = [?t, ?n, ?h, ?k]" by (simp add: chain_attrs_def)
  then have ca: "nlas_bytes chain_attrs = nla_bytes ?t @ nla_bytes ?n @ nla_bytes ?h @ nla_bytes ?k"
    by (metis append_Nil2 nlas_bytes_simps(1,2))
  have len: "length ?b = 64" unfolding ca by (simp del: nla_bytes.simps)
  have "20 \<le> (276 :: nat)" by simp
  note I = NFT_INIT_bld [OF this]
  obtain l1 where 1: "netlink_put_string 276 NFTA_CHAIN_TABLE NFT_TABLE_NAME (bld 276 0 ?x) =
      (0, bld 276 l1 (?x @ nla_bytes ?t))"
    using put_string_ex [of NFT_TABLE_NAME ?x 276 NFTA_CHAIN_TABLE 0] by auto
  obtain l2 where 2: "netlink_put_string 276 NFTA_CHAIN_NAME NFT_CHAIN_NAME (bld 276 l1 (?x @ nla_bytes ?t)) =
      (0, bld 276 l2 ((?x @ nla_bytes ?t) @ nla_bytes ?n))"
    using put_string_ex [of NFT_CHAIN_NAME "?x @ nla_bytes ?t" 276 NFTA_CHAIN_NAME l1]
    by (auto simp del: nla_bytes.simps append_assoc)
  have 3: "nft_chain_hook 276 (bld 276 l2 ((?x @ nla_bytes ?t) @ nla_bytes ?n)) =
      (0, bld 276 l2 (((?x @ nla_bytes ?t) @ nla_bytes ?n) @ nla_bytes ?h))"
    by (rule nft_hook_bld) (simp del: nla_bytes.simps)
  obtain l4 where 4: "netlink_put_string 276 NFTA_CHAIN_TYPE ''nat''
        (bld 276 l2 (((?x @ nla_bytes ?t) @ nla_bytes ?n) @ nla_bytes ?h)) =
      (0, bld 276 l4 ((((?x @ nla_bytes ?t) @ nla_bytes ?n) @ nla_bytes ?h) @ nla_bytes ?k))"
    using put_string_ex [of "''nat''" "((?x @ nla_bytes ?t) @ nla_bytes ?n) @ nla_bytes ?h" 276 NFTA_CHAIN_TYPE l2]
    by (auto simp del: nla_bytes.simps append_assoc)
  have e: "(((?x @ nla_bytes ?t) @ nla_bytes ?n) @ nla_bytes ?h) @ nla_bytes ?k = replicate 12 0 @ ?b"
    unfolding ca by (simp only: append.assoc)
  have "length P + 16 + length ?b \<le> 768" "length ?b mod 4 = 0" unfolding len using assms(2) by simp_all
  note A = batch_msg_appends [OF assms(1) this, of "nft_type NFT_MSG_NEWCHAIN" NLM_F_CREATE 276 l4]
  have s: "4 + length (replicate 12 (0::byte) @ ?b) = 16 + length ?b" by simp
  show ?thesis
    unfolding nft_create_chain_def c Let_def I 1 case_prod_conv 2 3 4 e nft_type_def [symmetric] bld_snd s
    using A by simp
qed

lemma nft_rule_appends:
  assumes "holds P n b" and "length P + 76 \<le> 768"
  shows "\<exists>b'. nft_add_masq_rule family b = (0, b') \<and>
    holds (P @ msg_bytes (nft_msg (nft_type NFT_MSG_NEWRULE) (NLM_F_CREATE OR NLM_F_APPEND) (n + 1)
      (nfgen family 0 @ nlas_bytes rule_attrs))) (n + 1) b'"
proof -
  let ?x = "replicate 12 0 @ nfgen family 0"
  let ?b = "nfgen family 0 @ nlas_bytes rule_attrs"
  let ?t = "Nla NFTA_RULE_TABLE (cstr_bytes NFT_TABLE_NAME)" and ?n = "Nla NFTA_RULE_CHAIN (cstr_bytes NFT_CHAIN_NAME)"
  let ?h = "rule_attrs ! 2"
  have c: "NFT_HDR + 256 = 276" by (simp add: NFT_HDR_def NLMSG_HDRLEN_def)
  have "rule_attrs = [?t, ?n, ?h]" by (simp add: rule_attrs_def)
  then have ca: "nlas_bytes rule_attrs = nla_bytes ?t @ nla_bytes ?n @ nla_bytes ?h"
    by (metis append_Nil2 nlas_bytes_simps(1,2))
  have len: "length ?b = 60" unfolding ca by (simp del: nla_bytes.simps)
  have "20 \<le> (276 :: nat)" by simp
  note I = NFT_INIT_bld [OF this]
  obtain l1 where 1: "netlink_put_string 276 NFTA_RULE_TABLE NFT_TABLE_NAME (bld 276 0 ?x) =
      (0, bld 276 l1 (?x @ nla_bytes ?t))"
    using put_string_ex [of NFT_TABLE_NAME ?x 276 NFTA_RULE_TABLE 0] by auto
  obtain l2 where 2: "netlink_put_string 276 NFTA_RULE_CHAIN NFT_CHAIN_NAME (bld 276 l1 (?x @ nla_bytes ?t)) =
      (0, bld 276 l2 ((?x @ nla_bytes ?t) @ nla_bytes ?n))"
    using put_string_ex [of NFT_CHAIN_NAME "?x @ nla_bytes ?t" 276 NFTA_RULE_CHAIN l1]
    by (auto simp del: nla_bytes.simps append_assoc)
  obtain l3 where 3: "nft_put_expr_masq 276 (bld 276 l2 ((?x @ nla_bytes ?t) @ nla_bytes ?n)) =
      (0, bld 276 l3 (((?x @ nla_bytes ?t) @ nla_bytes ?n) @ nla_bytes ?h))"
    using nft_masq_bld [of "(?x @ nla_bytes ?t) @ nla_bytes ?n" 276 l2]
    by (auto simp del: nla_bytes.simps append_assoc)
  have e: "((?x @ nla_bytes ?t) @ nla_bytes ?n) @ nla_bytes ?h = replicate 12 0 @ ?b"
    unfolding ca by (simp only: append.assoc)
  have "length P + 16 + length ?b \<le> 768" "length ?b mod 4 = 0" unfolding len using assms(2) by simp_all
  note A = batch_msg_appends [OF assms(1) this, of "nft_type NFT_MSG_NEWRULE" "NLM_F_CREATE OR NLM_F_APPEND" 276 l3]
  have s: "4 + length (replicate 12 (0::byte) @ ?b) = 16 + length ?b" by simp
  show ?thesis
    unfolding nft_add_masq_rule_def c Let_def I 1 case_prod_conv 2 3 e nft_type_def [symmetric] bld_snd s
    using A by simp
qed

text \<open>The begin and end messages are written field by field into zeros.\<close>

lemma fixed_message:
  fixes X :: "byte list"
  assumes "length X = i"
  shows "put_bytes (put_bytes (put_bytes (put_bytes (put_bytes (put_bytes (X @ replicate 20 0 @ Y)
      (i + 4) (le16 t)) (i + 6) (le16 f)) i (le32 l)) (i + 8) (le32 q)) (i + 17) [v]) (i + 18) (le16 r) =
    X @ (le32 l @ le16 t @ le16 f @ le32 q @ le32 0 @ [0, v] @ le16 r) @ Y"
proof -
  have z: "replicate 20 (0::byte) = [0,0,0,0] @ [0,0] @ [0,0] @ [0,0,0,0] @ le32 0 @ [0] @ [0] @ [0,0]"
    by (simp add: numeral_eq_Suc le32_def)
  have 1: "put_bytes (X @ [0,0,0,0] @ [0,0] @ x) (i + 4) (le16 t) = (X @ [0,0,0,0] @ le16 t) @ x" for x
    using put_at_len [of "le16 t" "[0,0]" "X @ [0,0,0,0]" "i + 4"] assms by simp
  have 2: "put_bytes ((X @ [0,0,0,0] @ le16 t) @ [0,0] @ x) (i + 6) (le16 f) =
      X @ [0,0,0,0] @ le16 t @ le16 f @ x" for x
    using put_at_len [of "le16 f" "[0,0]" "X @ [0,0,0,0] @ le16 t" "i + 6"] assms by simp
  have 3: "put_bytes (X @ [0,0,0,0] @ le16 t @ le16 f @ x) i (le32 l) =
      (X @ le32 l @ le16 t @ le16 f) @ x" for x
    using put_at_len [of "le32 l" "[0,0,0,0]" X i] assms by simp
  have 4: "put_bytes ((X @ le32 l @ le16 t @ le16 f) @ [0,0,0,0] @ le32 0 @ [0] @ x) (i + 8) (le32 q) =
      (X @ le32 l @ le16 t @ le16 f @ le32 q @ le32 0 @ [0]) @ x" for x
    using put_at_len [of "le32 q" "[0,0,0,0]" "X @ le32 l @ le16 t @ le16 f" "i + 8"] assms by simp
  have 5: "put_bytes ((X @ le32 l @ le16 t @ le16 f @ le32 q @ le32 0 @ [0]) @ [0] @ x) (i + 17) [v] =
      (X @ le32 l @ le16 t @ le16 f @ le32 q @ le32 0 @ [0, v]) @ x" for x
    using put_at_len [of "[v]" "[0]" "X @ le32 l @ le16 t @ le16 f @ le32 q @ le32 0 @ [0]" "i + 17"] assms by simp
  have 6: "put_bytes ((X @ le32 l @ le16 t @ le16 f @ le32 q @ le32 0 @ [0, v]) @ [0,0] @ Y) (i + 18) (le16 r) =
      X @ (le32 l @ le16 t @ le16 f @ le32 q @ le32 0 @ [0, v] @ le16 r) @ Y"
    using put_at_len [of "le16 r" "[0,0]" "X @ le32 l @ le16 t @ le16 f @ le32 q @ le32 0 @ [0, v]" "i + 18"] assms by simp
  show ?thesis
    unfolding z append.assoc
    by (simp only: 1 [unfolded append.assoc] 2 [unfolded append.assoc] 3 [unfolded append.assoc]
        4 [unfolded append.assoc] 5 [unfolded append.assoc] 6 [unfolded append.assoc])
qed

definition batch_begin :: nlmsg where
  "batch_begin = nft_msg NFNL_MSG_BATCH_BEGIN NLM_F_ACK 0 (nfgen AF_UNSPEC NFNL_SUBSYS_NFTABLES)"

definition batch_end :: "u32 \<Rightarrow> nlmsg" where
  "batch_end n = nft_msg NFNL_MSG_BATCH_END 0 n (nfgen 0 NFNL_SUBSYS_NFTABLES)"

lemma align4_hdr: "align4 NFT_HDR = 20" "NFT_HDR = 20"
  by (simp_all add: NFT_HDR_def NLMSG_HDRLEN_def)

lemma batch_open_holds:
  assumes "length junk = 768"
  shows "holds (msg_bytes batch_begin) 0 (nft_batch_open \<lparr>nb_data = junk, nb_len = 0, nb_seq = 0\<rparr>)"
proof -
  let ?f = "\<lambda>d. put_bytes (put_bytes (put_bytes (put_bytes (put_bytes (put_bytes d 4 (le16 NFNL_MSG_BATCH_BEGIN))
      6 (le16 (NLM_F_REQUEST OR NLM_F_ACK))) 0 (le32 (of_nat 20))) 16 [AF_UNSPEC]) 17 [NFNETLINK_V0])
      18 (le16 (htons NFNL_SUBSYS_NFTABLES))"
  have 0: "put_bytes junk 0 (replicate 20 0) = replicate 20 0 @ drop 20 junk"
    by (simp add: put_bytes_def)
  have 1: "?f (replicate 20 0 @ Y) = ?f (replicate 20 0) @ Y" for Y
    by (simp add: put_bytes_append)
  have 2: "?f (replicate 20 0) = msg_bytes batch_begin"
    by code_simp
  have l: "length (msg_bytes batch_begin) = 20"
    by (simp add: batch_begin_def nft_msg_def msg_size_def)
  have "nft_batch_open \<lparr>nb_data = junk, nb_len = 0, nb_seq = 0\<rparr> =
      \<lparr>nb_data = msg_bytes batch_begin @ drop 20 junk, nb_len = 20, nb_seq = 0\<rparr>"
    unfolding nft_batch_open_def Let_def align4_hdr NLMSG_HDRLEN_def nft_batch.select_convs 0
    using 1 [of "drop 20 junk", unfolded 2] by simp
  then show ?thesis using assms l by (simp add: holds_def)
qed

lemma batch_end_appends:
  assumes "holds P n b" and "length P + 20 \<le> 768"
  shows "\<exists>b'. nft_batch_end b = (0, b') \<and> holds (P @ msg_bytes (batch_end (n + 1))) (n + 1) b'"
proof -
  have l: "length (nb_data b) = 768" "take (length P) (nb_data b) = P" "nb_len b = length P" "nb_seq b = n"
    using assms(1) by (auto simp: holds_def)
  let ?Y = "drop (length P + 20) (nb_data b)"
  have 0: "put_bytes (nb_data b) (length P) (replicate 20 0) = P @ replicate 20 0 @ ?Y"
    using l(2) by (simp add: put_bytes_def)
  have m: "le32 (of_nat 20) @ le16 NFNL_MSG_BATCH_END @ le16 NLM_F_REQUEST @ le32 (n + 1) @ le32 0 @
      [0, NFNETLINK_V0] @ le16 (htons NFNL_SUBSYS_NFTABLES) = msg_bytes (batch_end (n + 1))"
    by (simp add: batch_end_def msg_bytes_def nft_msg_def msg_size_def nfgen_def)
  let ?d = "P @ msg_bytes (batch_end (n + 1)) @ ?Y"
  note F = fixed_message [OF refl, of P ?Y NFNL_MSG_BATCH_END NLM_F_REQUEST "of_nat 20" "n + 1"
      NFNETLINK_V0 "htons NFNL_SUBSYS_NFTABLES", unfolded m]
  have e: "length P + 16 + 1 = length P + 17" "length P + 16 + 2 = length P + 18" by simp_all
  have "nft_batch_end b = (0, \<lparr>nb_data = ?d, nb_len = length P + 20, nb_seq = n + 1\<rparr>)"
    unfolding nft_batch_end_def Let_def align4_hdr l NLMSG_HDRLEN_def 0 e F using assms(2) by simp
  moreover have "length (msg_bytes (batch_end (n + 1))) = 20"
    by (simp add: batch_end_def nft_msg_def msg_size_def)
  ultimately show ?thesis using l assms(2) by (simp add: holds_def)
qed

lemma batch_built:
  assumes "length junk = 768"
  shows "\<exists>b b'. nft_build family (nft_batch_open \<lparr>nb_data = junk, nb_len = 0, nb_seq = 0\<rparr>) = (0, b) \<and>
    nft_batch_end b = (0, b') \<and> take (nb_len b') (nb_data b') = msgs_bytes (nat_batch family)"
proof -
  let ?t = "nft_msg (nft_type NFT_MSG_NEWTABLE) (NLM_F_CREATE OR NLM_F_EXCL) (0 + 1) (nfgen family 0 @ nlas_bytes table_attrs)"
  let ?c = "nft_msg (nft_type NFT_MSG_NEWCHAIN) NLM_F_CREATE (0 + 1 + 1) (nfgen family 0 @ nlas_bytes chain_attrs)"
  let ?r = "nft_msg (nft_type NFT_MSG_NEWRULE) (NLM_F_CREATE OR NLM_F_APPEND) (0 + 1 + 1 + 1) (nfgen family 0 @ nlas_bytes rule_attrs)"
  let ?b0 = "nft_batch_open \<lparr>nb_data = junk, nb_len = 0, nb_seq = 0\<rparr>"
  have lc: "length (nlas_bytes chain_attrs) = 60"
  proof -
    have "chain_attrs = [chain_attrs ! 0, chain_attrs ! 1, chain_attrs ! 2, chain_attrs ! 3]"
      by (simp add: chain_attrs_def)
    then have "length (nlas_bytes chain_attrs) = length (nla_bytes (chain_attrs ! 0)) +
        length (nla_bytes (chain_attrs ! 1)) + length (nla_bytes (chain_attrs ! 2)) + length (nla_bytes (chain_attrs ! 3))"
      by (metis (no_types, lifting) add.assoc append_Nil2 length_append nlas_bytes_simps(1,2))
    then show ?thesis by (simp add: chain_attrs_def nest_def del: nla_bytes.simps)
  qed
  have lr: "length (nlas_bytes rule_attrs) = 56"
    by (simp add: rule_attrs_def nest_def del: nla_bytes.simps)
  have l0: "length (msg_bytes batch_begin) = 20" "length (msg_bytes ?t) = 36" "length (msg_bytes ?c) = 80"
    "length (msg_bytes ?r) = 76"
    using lc lr by (simp_all add: batch_begin_def nft_msg_def msg_size_def table_attrs_def del: nla_bytes.simps)
  note H0 = batch_open_holds [OF assms]
  obtain b1 where 1: "nft_create_table family ?b0 = (0, b1)" and H1: "holds (msg_bytes batch_begin @ msg_bytes ?t) (0 + 1) b1"
    using nft_table_appends [OF H0, of family] l0 by auto
  obtain b2 where 2: "nft_create_chain family b1 = (0, b2)"
    and H2: "holds ((msg_bytes batch_begin @ msg_bytes ?t) @ msg_bytes ?c) (0 + 1 + 1) b2"
    using nft_chain_appends [OF H1, of family] l0 by (auto simp del: append_assoc)
  obtain b3 where 3: "nft_add_masq_rule family b2 = (0, b3)"
    and H3: "holds (((msg_bytes batch_begin @ msg_bytes ?t) @ msg_bytes ?c) @ msg_bytes ?r) (0 + 1 + 1 + 1) b3"
    using nft_rule_appends [OF H2, of family] l0 by (auto simp del: append_assoc)
  obtain b4 where 4: "nft_batch_end b3 = (0, b4)"
    and H4: "holds ((((msg_bytes batch_begin @ msg_bytes ?t) @ msg_bytes ?c) @ msg_bytes ?r) @
      msg_bytes (batch_end (0 + 1 + 1 + 1 + 1))) (0 + 1 + 1 + 1 + 1) b4"
    using batch_end_appends [OF H3] l0 by (auto simp del: append_assoc)
  have m: "msgs_bytes (nat_batch family) = (((msg_bytes batch_begin @ msg_bytes ?t) @ msg_bytes ?c) @ msg_bytes ?r) @
      msg_bytes (batch_end (0 + 1 + 1 + 1 + 1))"
    by (simp add: nat_batch_def batch_begin_def batch_end_def)
  have "take (nb_len b4) (nb_data b4) = msgs_bytes (nat_batch family)"
    using H4 unfolding holds_def m by metis
  moreover have "nft_build family ?b0 = (0, b3)"
    unfolding nft_build_def Let_def 1 case_prod_conv 2 3 by simp
  ultimately show ?thesis using 4 by blast
qed

text \<open>
  C20: the NAT batch is complete and in order.  For every address family and whatever the stack held
  before, building and closing the batch succeeds, and the bytes that are sent are exactly five
  messages: begin, the table, the chain with its hook, the masquerade rule, end, numbered 0
  to 4, each with its attributes and length fields.
\<close>

theorem nat_batch_is_sent:
  assumes "length junk = 768"
  shows "\<exists>b b'. nft_build family (nft_batch_open \<lparr>nb_data = junk, nb_len = 0, nb_seq = 0\<rparr>) = (0, b) \<and>
    nft_batch_end b = (0, b') \<and> take (nb_len b') (nb_data b') = msgs_bytes (nat_batch family)"
  using assms by (rule batch_built)

lemma nat_batch_is_sent_witness:
  "\<exists>b b'. nft_build AF_INET6 (nft_batch_open \<lparr>nb_data = replicate 768 0xAA, nb_len = 0, nb_seq = 0\<rparr>) = (0, b) \<and>
    nft_batch_end b = (0, b') \<and> take (nb_len b') (nb_data b') = msgs_bytes (nat_batch AF_INET6)"
  by (rule nat_batch_is_sent) simp

section \<open>What the acknowledgements decide\<close>

text \<open>The system has the given acknowledgements waiting and then reports that there are no more.\<close>

fun acks_waiting :: "os \<Rightarrow> int \<Rightarrow> trace \<Rightarrow> byte list list \<Rightarrow> bool" where
  "acks_waiting os fd tr [] \<longleftrightarrow> a_ret (os tr (Recvmsg fd 4096 True)) < 0"
| "acks_waiting os fd tr (d # ds) \<longleftrightarrow>
     (let c = Recvmsg fd 4096 True; a = os tr c in
      0 \<le> a_ret a \<and> a_data a = d \<and> length d \<le> 4096 \<and> acks_waiting os fd (tr @ [(c, a)]) ds)"

definition first_error :: "byte list list \<Rightarrow> int" where
  "first_error ds =
     (case find (\<lambda>e. e \<noteq> 0) (map (\<lambda>d. nft_ack_errno d (length d)) ds) of None \<Rightarrow> 0 | Some e \<Rightarrow> e)"

lemma first_error_Cons:
  "first_error (d # ds) = (let e = nft_ack_errno d (length d) in if e \<noteq> 0 then e else first_error ds)"
  by (simp add: first_error_def Let_def)

lemma drain_first_error:
  assumes "acks_waiting os fd tr ds"
  shows "\<exists>tr'. nft_drain_rest os fd err tr = Some (if err \<noteq> 0 then err else first_error ds, tr')"
  using assms
proof (induction ds arbitrary: err tr)
  case Nil
  then show ?case
    by (simp add: nft_drain_rest.simps netlink_recv_nb_def netlink_recv_flags_def sys_def Let_def first_error_def)
next
  case (Cons d ds)
  let ?c = "Recvmsg fd 4096 True"
  let ?tr = "tr @ [(?c, os tr ?c)]" and ?e = "nft_ack_errno d (length d)"
  have r: "netlink_recv_nb os fd 4096 tr = (0, d, ?tr)"
    using Cons.prems by (simp add: netlink_recv_nb_def netlink_recv_flags_def sys_def Let_def)
  have "acks_waiting os fd ?tr ds" using Cons.prems by (simp add: Let_def)
  from Cons.IH [OF this, of "if ?e \<noteq> 0 \<and> err = 0 then ?e else err"]
  show ?case
    by (subst nft_drain_rest.simps) (auto simp: r Let_def first_error_Cons split: if_splits)
qed

text \<open>
  What the kernel may send back, and what it means.  \<open>Verdict\<close> is an error message about a request, with the error
  number, 0 for acceptance, stored negated behind the header and followed by the request's own header;
  \<open>Notice\<close> a message of another type.  The others are damaged: a datagram without room for a header,
  one whose length field is below 16 or exceeds it, and an error message too short to hold a verdict;
  they count as the error \<^verbatim>\<open>EINVAL\<close>, 22.  The ten bytes \<open>r\<close> are the flags, the sequence number and the port.
\<close>

datatype nft_reply =
    Verdict "byte list" nat "byte list"
  | Notice u16 "byte list" "byte list"
  | Short "byte list"
  | Misdeclared u32 u16 "byte list" "byte list"
  | Cut "byte list" "byte list"

fun reply_bytes :: "nft_reply \<Rightarrow> byte list" where
  "reply_bytes (Verdict r e q) = le32 (of_nat (20 + length q)) @ le16 2 @ r @ le32 (- of_nat e) @ q"
| "reply_bytes (Notice t r b) = le32 (of_nat (16 + length b)) @ le16 t @ r @ b"
| "reply_bytes (Short d) = d"
| "reply_bytes (Misdeclared n t r b) = le32 n @ le16 t @ r @ b"
| "reply_bytes (Cut r b) = le32 (of_nat (16 + length b)) @ le16 2 @ r @ b"

fun reply_ok :: "nft_reply \<Rightarrow> bool" where
  "reply_ok (Verdict r e q) \<longleftrightarrow> length r = 10 \<and> e < 4096 \<and> 16 \<le> length q \<and> length q \<le> 4076"
| "reply_ok (Notice t r b) \<longleftrightarrow> length r = 10 \<and> t \<noteq> 2 \<and> length b \<le> 4080"
| "reply_ok (Short d) \<longleftrightarrow> length d < 16"
| "reply_ok (Misdeclared n t r b) \<longleftrightarrow> length r = 10 \<and> length b \<le> 4080 \<and> (unat n < 16 \<or> 16 + length b < unat n)"
| "reply_ok (Cut r b) \<longleftrightarrow> length r = 10 \<and> length b < 20"

fun reply_error :: "nft_reply \<Rightarrow> nat" where
  "reply_error (Verdict r e q) = e"
| "reply_error (Notice t r b) = 0"
| "reply_error (Short d) = 22"
| "reply_error (Misdeclared n t r b) = 22"
| "reply_error (Cut r b) = 22"

lemma reply_length: "reply_ok r \<Longrightarrow> length (reply_bytes r) \<le> 4096"
  by (cases r) auto

lemma nft_ack_errno_fields:
  assumes "length r = 10" "length b \<le> 4080" and d: "d = le32 n @ le16 t @ r @ b"
  shows "nft_ack_errno d (length d) =
    (if unat n < 16 \<or> 16 + length b < unat n then -22
     else if t \<noteq> 2 then 0 else if unat n < 36 then -22 else sint (get32 d 16))"
proof -
  have l: "length d = 16 + length b" using assms by simp
  have n: "nlmsg_len d 0 = n" using get32_le32 [of "[]" n "le16 t @ r @ b"] by (simp add: d nlmsg_len_def)
  have t: "nlmsg_type d 0 = t" using get16_le16 [of "le32 n" t "r @ b"] by (simp add: d nlmsg_type_def)
  have u: "unat (of_nat (16 + length b) :: u64) = 16 + length b"
    using assms(2) by (intro of_nat_inverse [OF refl]) simp
  have "unat n < 2 ^ 32" using unsigned_less [of n] by simp
  then have "unat n mod 2 ^ 64 = unat n" by simp
  then have c: "(ucast n :: u64) \<le> of_nat (16 + length b) \<longleftrightarrow> unat n \<le> 16 + length b"
    unfolding word_le_nat_alt u by (simp add: unsigned_ucast_eq take_bit_eq_mod)
  have e: "(16 :: u32) \<le> n \<longleftrightarrow> 16 \<le> unat n" by (simp add: word_le_nat_alt)
  have g: "\<not> (of_nat (16 + length b) :: u64) < 16" unfolding word_less_nat_alt u by simp
  have "NLMSG_OK d 0 (of_nat (length d)) = Some (16 \<le> unat n \<and> unat n \<le> 16 + length b)"
    unfolding NLMSG_OK_def n l using g c e by simp
  then show ?thesis
    by (auto simp: nft_ack_errno_def n t l NLMSG_HDRLEN_def NLMSG_LENGTH_def EINVAL_def NLMSG_ERROR_def)
qed

lemma nft_ack_errno_reply:
  assumes "reply_ok r"
  shows "nft_ack_errno (reply_bytes r) (length (reply_bytes r)) = - int (reply_error r)"
proof (cases r)
  case (Verdict a e q)
  let ?b = "le32 (- of_nat e) @ q"
  have ok: "length a = 10" "e < 4096" "16 \<le> length q" "length q \<le> 4076" using assms Verdict by simp_all
  have d: "reply_bytes r = le32 (of_nat (20 + length q)) @ le16 2 @ a @ ?b" by (simp add: Verdict)
  have "get32 (reply_bytes r) 16 = - of_nat e"
    using get32_le32 [of "le32 (of_nat (20 + length q)) @ le16 2 @ a" "- of_nat e" q] ok by (simp add: d)
  moreover have "sint (- of_nat e :: u32) = - int e"
    using ok(2) sint_sbintrunc' [of "- int e", where 'a = 32] by (simp add: signed_take_bit_int_eq_self)
  moreover have "unat (of_nat (20 + length q) :: u32) = 20 + length q"
    using ok by (intro of_nat_inverse [OF refl]) simp
  ultimately show ?thesis
    using nft_ack_errno_fields [OF ok(1) _ d] ok by (simp add: Verdict)
next
  case (Notice t a b)
  then have "unat (of_nat (16 + length b) :: u32) = 16 + length b"
    using assms by (intro of_nat_inverse [OF refl]) simp
  then show ?thesis using nft_ack_errno_fields [of a b _ "of_nat (16 + length b)" t] assms by (simp add: Notice)
next
  case (Short d)
  then show ?thesis using assms by (simp add: nft_ack_errno_def NLMSG_HDRLEN_def EINVAL_def)
next
  case (Misdeclared n t a b)
  then show ?thesis using nft_ack_errno_fields [of a b _ n t] assms by auto
next
  case (Cut a b)
  then have "unat (of_nat (16 + length b) :: u32) = 16 + length b"
    using assms by (intro of_nat_inverse [OF refl]) simp
  then show ?thesis using nft_ack_errno_fields [of a b _ "of_nat (16 + length b)" 2] assms by (simp add: Cut)
qed

text \<open>The error that decides: the first one that is not 0.\<close>

fun deciding_error :: "nft_reply list \<Rightarrow> nat" where
  "deciding_error [] = 0"
| "deciding_error (r # rs) = (if reply_error r \<noteq> 0 then reply_error r else deciding_error rs)"

lemma first_error_replies:
  "list_all reply_ok rs \<Longrightarrow> first_error (map reply_bytes rs) = - int (deciding_error rs)"
proof (induction rs)
  case (Cons r rs)
  then show ?case by (simp add: first_error_Cons nft_ack_errno_reply)
qed (simp add: first_error_def)

text \<open>
  C32: setting up NAT succeeds exactly when the kernel accepted the batch or the table is there
  already.  Whenever the socket opens, the send goes through, one reply and any
  further ones arrive and then no more, the result is 0 if the first error among them is
  none or \<^verbatim>\<open>EEXIST\<close>, 17, and -1 otherwise, where a verdict's error is what the kernel encoded in it,
  a notice is no error and a damaged reply is one; the descriptor is closed at the end.
\<close>

theorem nat_result_is_first_error:
  assumes "netfilter_open os tr = (Some fd, tr1)" and "length junk = 768"
    and "tr2 = tr1 @ [(Sendmsg fd (msgs_bytes (nat_batch family)), os tr1 (Sendmsg fd (msgs_bytes (nat_batch family))))]"
    and "0 \<le> a_ret (os tr1 (Sendmsg fd (msgs_bytes (nat_batch family))))"
    and "0 \<le> a_ret (os tr2 (Recvmsg fd 4096 False))" and "a_data (os tr2 (Recvmsg fd 4096 False)) = reply_bytes r"
    and "acks_waiting os fd (tr2 @ [(Recvmsg fd 4096 False, os tr2 (Recvmsg fd 4096 False))]) (map reply_bytes rs)"
    and ok: "list_all reply_ok (r # rs)"
  shows "\<exists>tr3. nft_setup_family os family junk tr =
    Some (if deciding_error (r # rs) = 0 \<or> deciding_error (r # rs) = 17 then 0 else -1, tr3) \<and>
    fst (last tr3) = Close fd"
proof -
  define d where "d = reply_bytes r"
  define ds where "ds = map reply_bytes rs"
  have l: "length d \<le> 4096" using ok reply_length by (simp add: d_def)
  have fe: "first_error (d # ds) = - int (deciding_error (r # rs))"
    using first_error_replies [OF ok] by (simp add: d_def ds_def)
  let ?b0 = "nft_batch_open \<lparr>nb_data = junk, nb_len = 0, nb_seq = 0\<rparr>"
  let ?tr3 = "tr2 @ [(Recvmsg fd 4096 False, os tr2 (Recvmsg fd 4096 False))]"
  obtain b b' where b: "nft_build family ?b0 = (0, b)" "nft_batch_end b = (0, b')"
    and t: "take (nb_len b') (nb_data b') = msgs_bytes (nat_batch family)"
    using batch_built [OF assms(2), of family] by blast
  have s: "netlink_send os fd (msgs_bytes (nat_batch family)) tr1 = (0, tr2)"
    using assms(3,4) by (simp add: netlink_send_def sys_def Let_def)
  have r: "netlink_recv os fd 4096 tr2 = (0, d, ?tr3)"
    using assms(5,6) l by (simp add: d_def [symmetric] netlink_recv_def netlink_recv_flags_def sys_def Let_def)
  obtain tr4 where "nft_drain_rest os fd (nft_ack_errno d (length d)) ?tr3 =
      Some (if nft_ack_errno d (length d) \<noteq> 0 then nft_ack_errno d (length d) else first_error ds, tr4)"
    using drain_first_error [OF assms(7), folded ds_def] by blast
  then have "nft_recv_ack os fd tr2 = Some (first_error (d # ds), tr4)"
    by (simp add: nft_recv_ack_def r Let_def first_error_Cons)
  then have "nft_batch_flush os fd b tr1 = Some (first_error (d # ds), tr4)"
    by (simp add: nft_batch_flush_def b(2) t s Let_def)
  then show ?thesis
    by (auto simp: nft_setup_family_def assms(1) b(1) Let_def sys_def fe EEXIST_def)
qed

text \<open>A system whose only reply says that the table exists.\<close>

definition exists_reply :: nft_reply where
  "exists_reply = Verdict (replicate 10 0) 17 (replicate 16 0)"

definition exists_os :: os where
  "exists_os tr c =
     (case c of
        Socket f p \<Rightarrow> ret 3
      | Recvmsg fd n nb \<Rightarrow> if nb then ret (-1) else (ret 36)\<lparr>a_data := reply_bytes exists_reply\<rparr>
      | _ \<Rightarrow> ret 0)"

lemma nat_result_is_first_error_witness:
  "\<exists>tr3. nft_setup_family exists_os AF_INET (replicate 768 0) [] = Some (0, tr3) \<and> fst (last tr3) = Close 3"
proof -
  let ?tr1 = "[(Socket AF_NETLINK NETLINK_NETFILTER, ret 3), (Bind 3, ret 0)]"
  have o: "netfilter_open exists_os [] = (Some 3, ?tr1)"
    by (simp add: netfilter_open_def nl_open_def sys_def Let_def exists_os_def)
  have "\<exists>tr3. nft_setup_family exists_os AF_INET (replicate 768 0) [] =
    Some (if deciding_error [exists_reply] = 0 \<or> deciding_error [exists_reply] = 17 then 0 else -1, tr3) \<and>
    fst (last tr3) = Close 3"
    by (rule nat_result_is_first_error [OF o _ refl]) (simp_all add: exists_os_def ret_def exists_reply_def)
  then show ?thesis by (simp add: exists_reply_def)
qed

end
