(* ===== verification/IoFs.thy ===== *)
theory IoFs
  imports Os IoCache
begin

text \<open>
  File-system operations by path (\<^verbatim>\<open>src/util/io.c\<close>).  The state is the trace of system calls
  and the existence cache.  Paths are not empty.  \<open>io_rmtree\<close> and its loop over the entries of a
  directory are total: a child's path is longer than its parent's and paths of 4096 characters
  are refused.
\<close>

type_synonym pst = "trace \<times> cache_ent list"

definition psys :: "os \<Rightarrow> syscall \<Rightarrow> pst \<Rightarrow> answer \<times> pst" where
  "psys os c s = (let (a, tr) = sys os c (fst s) in (a, (tr, snd s)))"

definition invalidate :: "string \<Rightarrow> pst \<Rightarrow> pst" where
  "invalidate path s = (fst s, io_cache_invalidate (snd s) (Some path))"

text \<open>\<open>io_exists\<close> with the call it makes when the cache does not know the path.\<close>

definition access_class :: "answer \<Rightarrow> access_res" where
  "access_class a =
     (if a_ret a = 0 then AccessOk
      else if a_errno a = ENOENT \<or> a_errno a = EACCES then AccessAbsent else AccessFails)"

definition io_exists_at :: "os \<Rightarrow> string \<Rightarrow> pst \<Rightarrow> int \<times> pst" where
  "io_exists_at os path s =
     (if io_cache_lookup (snd s) path \<noteq> 2 then (io_cache_lookup (snd s) path, s)
      else
        let (a, s) = psys os (Access path) s;
            (r, c) = io_exists (\<lambda>_. access_class a) (snd s) path
        in (r, (fst s, c)))"

section \<open>Queries\<close>

definition io_isdir :: "os \<Rightarrow> string \<Rightarrow> pst \<Rightarrow> int \<times> pst" where
  "io_isdir os path s =
     (let (a, s) = psys os (Stat path) s in
      if a_ret a \<noteq> 0 then (-1, s) else (if S_ISDIR (st_mode (a_stat a)) then 0 else 1, s))"

definition io_islink :: "os \<Rightarrow> string \<Rightarrow> pst \<Rightarrow> int \<times> pst" where
  "io_islink os path s =
     (let (a, s) = psys os (Lstat path) s in
      if a_ret a \<noteq> 0 then (if a_errno a = ENOENT then 2 else -1, s)
      else (if S_ISLNK (st_mode (a_stat a)) then 0 else 1, s))"

section \<open>Removing\<close>

definition io_unlink :: "os \<Rightarrow> string \<Rightarrow> pst \<Rightarrow> int \<times> pst" where
  "io_unlink os path s =
     (let (a, s) = psys os (Unlink path) s in
      if a_ret a \<noteq> 0 then (-1, s) else (0, invalidate path s))"

definition io_unlink_quiet :: "os \<Rightarrow> string \<Rightarrow> pst \<Rightarrow> int \<times> pst" where
  "io_unlink_quiet os path s =
     (let (a, s) = psys os (Unlink path) s in
      if a_ret a \<noteq> 0 \<and> a_errno a \<noteq> ENOENT then (-1, s) else (0, invalidate path s))"

definition is_dot_or_dotdot :: "string \<Rightarrow> bool" where
  "is_dot_or_dotdot name \<longleftrightarrow> name = ''.'' \<or> name = ''..''"

definition unlink_path :: "os \<Rightarrow> string \<Rightarrow> pst \<Rightarrow> int \<times> pst" where
  "unlink_path os path s =
     (let (a, s) = psys os (Unlink path) s in
      if a_ret a \<noteq> 0 \<and> a_errno a \<noteq> ENOENT then (-1, s) else (0, s))"

definition is_symlink_path :: "os \<Rightarrow> string \<Rightarrow> pst \<Rightarrow> bool \<times> pst" where
  "is_symlink_path os path s =
     (let (a, s) = psys os (Lstat path) s in
      (a_ret a = 0 \<and> S_ISLNK (st_mode (a_stat a)), s))"

definition unlink_cached :: "os \<Rightarrow> string \<Rightarrow> pst \<Rightarrow> int \<times> pst" where
  "unlink_cached os path s =
     (let (r, s) = unlink_path os path s in (r, if r = 0 then invalidate path s else s))"

text \<open>The loop of \<open>rmtree_dir\<close> has the names that are still to come and \<open>rc\<close> as arguments.\<close>

function io_rmtree :: "os \<Rightarrow> string \<Rightarrow> pst \<Rightarrow> int \<times> pst"
  and rmtree_dir :: "os \<Rightarrow> string list \<Rightarrow> string \<Rightarrow> int \<Rightarrow> pst \<Rightarrow> int \<times> pst" where
  "io_rmtree os path s =
     (let (l, s) = is_symlink_path os path s in
      if l then unlink_cached os path s
      else
        let (d, s) = psys os (Opendir path) s in
        if a_ret d < 0 then unlink_cached os path s
        else
          let (rc, s) = rmtree_dir os (a_names d) path 0 s in
          if rc \<noteq> 0 then (-1, s)
          else
            let (a, s) = psys os (Rmdir path) s in
            if a_ret a \<noteq> 0 \<and> a_errno a \<noteq> ENOENT then (-1, s) else (0, invalidate path s))"
| "rmtree_dir os names path rc s =
     (case names of
        [] \<Rightarrow> (rc, s)
      | e # es \<Rightarrow>
          if is_dot_or_dotdot e then rmtree_dir os es path rc s
          else if 4096 \<le> length (path @ ''/'' @ e) then rmtree_dir os es path (-1) s
          else
            let (r, s) = io_rmtree os (path @ ''/'' @ e) s
            in rmtree_dir os es path (if r \<noteq> 0 then -1 else rc) s)"
  by pat_completeness auto
termination
  by (relation "inv_image (less_than <*lex*> less_than <*lex*> less_than)
       (\<lambda>x. case x of Inl (os, path, s) \<Rightarrow> (4096 - length path, 1 :: nat, 0)
                    | Inr (os, names, path, rc, s) \<Rightarrow> (4096 - length path, 0, length names))") auto

declare io_rmtree.simps [simp del] rmtree_dir.simps [simp del]

section \<open>Making directories\<close>

definition mkdirm :: "os \<Rightarrow> string \<Rightarrow> nat \<Rightarrow> pst \<Rightarrow> int \<times> pst" where
  "mkdirm os path mode s = (let (a, s) = psys os (Mkdir path mode) s in (if a_ret a \<noteq> 0 then -1 else 0, s))"

definition mkdir_check_existing :: "os \<Rightarrow> string \<Rightarrow> pst \<Rightarrow> int \<times> pst" where
  "mkdir_check_existing os path s =
     (let (d, s) = io_isdir os path s in (if d < 0 then -1 else if d = 0 then 0 else -1, s))"

definition mkdir_existing :: "os \<Rightarrow> string \<Rightarrow> pst \<Rightarrow> int \<times> pst" where
  "mkdir_existing os path s =
     (let (r, s) = mkdir_check_existing os path s in (r, if r = 0 then invalidate path s else s))"

text \<open>0755 is 493.\<close>

function io_mkdir :: "os \<Rightarrow> string \<Rightarrow> pst \<Rightarrow> int \<times> pst"
  and mkdir_deep :: "os \<Rightarrow> string \<Rightarrow> pst \<Rightarrow> int \<times> pst"
  and mkdir_parent :: "os \<Rightarrow> string \<Rightarrow> pst \<Rightarrow> int \<times> pst" where
  "io_mkdir os path s =
     (let (a, s) = psys os (Mkdir path 493) s in
      if a_ret a = 0 then (0, invalidate path s)
      else if a_errno a = EEXIST then mkdir_existing os path s
      else if a_errno a \<noteq> ENOENT then (-1, s)
      else mkdir_deep os path s)"
| "mkdir_deep os path s =
     (let (r, s) = mkdir_parent os path s in
      if r \<noteq> 0 then (-1, s)
      else
        let (r, s) = mkdirm os path 493 s in
        (r, if r = 0 then invalidate path s else s))"
| "mkdir_parent os path s =
     (case strrchr_pos (CHR ''/'') path of
        None \<Rightarrow> (0, s)
      | Some len \<Rightarrow>
          if len = 0 then (0, s)
          else if 4096 \<le> len then (-1, s)
          else io_mkdir os (take len path) s)"
  by pat_completeness auto
termination
  by (relation "inv_image (less_than <*lex*> less_than)
       (\<lambda>x. case x of Inl (os, path, s) \<Rightarrow> (length path, 2 :: nat)
                    | Inr (Inl (os, path, s)) \<Rightarrow> (length path, 1)
                    | Inr (Inr (os, path, s)) \<Rightarrow> (length path, 0))")
    (auto dest: strrchr_pos_Some)

declare io_mkdir.simps [simp del] mkdir_deep.simps [simp del] mkdir_parent.simps [simp del]

definition mkdir_chown :: "os \<Rightarrow> string \<Rightarrow> u32 \<Rightarrow> u32 \<Rightarrow> nat \<Rightarrow> pst \<Rightarrow> int \<times> pst" where
  "mkdir_chown os path uid gid mode s =
     (let (a, s) = psys os (Mkdir path mode) s in
      if a_ret a \<noteq> 0 then (-1, s)
      else
        let s = invalidate path s in
        if uid \<noteq> 0 \<or> gid \<noteq> 0 then
          let (a, s) = psys os (Chown path uid gid) s in (if a_ret a \<noteq> 0 then -1 else 0, s)
        else (0, s))"

text \<open>The loop runs over the positions after the first character; the path is cut at each slash.\<close>

fun mkdir_parents :: "os \<Rightarrow> string \<Rightarrow> u32 \<Rightarrow> u32 \<Rightarrow> nat list \<Rightarrow> pst \<Rightarrow> int \<times> pst" where
  "mkdir_parents os path uid gid [] s = (0, s)"
| "mkdir_parents os path uid gid (p # ps) s =
     (if path ! p \<noteq> CHR ''/'' then mkdir_parents os path uid gid ps s
      else
        let (e, s) = io_exists_at os (take p path) s in
        if e = 0 then mkdir_parents os path uid gid ps s
        else
          let (r, s) = mkdir_chown os (take p path) uid gid 493 s in
          if r \<noteq> 0 then (-1, s) else mkdir_parents os path uid gid ps s)"

definition io_mkdir_own :: "os \<Rightarrow> string \<Rightarrow> u32 \<Rightarrow> u32 \<Rightarrow> nat \<Rightarrow> pst \<Rightarrow> int \<times> pst" where
  "io_mkdir_own os path uid gid mode s =
     (let (e, s) = io_exists_at os path s in
      if e < 0 then (-1, s)
      else if e = 0 then (0, s)
      else
        let (r, s) = mkdir_parents os path uid gid [1..<length path] s in
        if r \<noteq> 0 then (-1, s) else mkdir_chown os path uid gid mode s)"

text \<open>01777 is 1023.\<close>

definition io_mkdtmp :: "os \<Rightarrow> string \<Rightarrow> bool \<Rightarrow> pst \<Rightarrow> int \<times> pst" where
  "io_mkdtmp os path sticky s =
     (let (a, s) = psys os (Mkdir path (if sticky then 1023 else 493)) s in
      if a_ret a \<noteq> 0 then (-1, s) else (0, invalidate path s))"

section \<open>Other changes\<close>

definition io_symlink :: "os \<Rightarrow> string \<Rightarrow> string \<Rightarrow> pst \<Rightarrow> int \<times> pst" where
  "io_symlink os target path s =
     (let (a, s) = psys os (Symlink target path) s in
      if a_ret a \<noteq> 0 then (-1, s) else (0, invalidate path s))"

definition io_chown :: "os \<Rightarrow> string \<Rightarrow> u32 \<Rightarrow> u32 \<Rightarrow> pst \<Rightarrow> int \<times> pst" where
  "io_chown os path uid gid s =
     (let (a, s) = psys os (Chown path uid gid) s in (if a_ret a \<noteq> 0 then -1 else 0, s))"

text \<open>\<open>O_WRONLY | O_CREAT | O_CLOEXEC\<close> is 524353.\<close>

definition io_touch :: "os \<Rightarrow> string \<Rightarrow> pst \<Rightarrow> int \<times> pst" where
  "io_touch os path s =
     (let (a, s) = psys os (Open path 524353) s in
      if a_ret a < 0 then (-1, s)
      else let (_, s) = psys os (Close (a_ret a)) s in (0, invalidate path s))"

section \<open>A file system of directories\<close>

text \<open>
  The directory above a path, as \<open>mkdir_parent\<close> cuts it; the root and the working directory are
  always there and have none.
\<close>

definition dir_above :: "string \<Rightarrow> string option" where
  "dir_above path =
     (case strrchr_pos (CHR ''/'') path of
        None \<Rightarrow> None
      | Some n \<Rightarrow> if n = 0 then None else Some (take n path))"

lemma dir_above_shorter: "dir_above path = Some q \<Longrightarrow> length q < length path"
  by (auto simp: dir_above_def dest: strrchr_pos_Some split: option.splits if_splits)

function lineage :: "string \<Rightarrow> string list" where
  "lineage path = path # (case dir_above path of None \<Rightarrow> [] | Some q \<Rightarrow> lineage q)"
  by pat_completeness auto
termination by (relation "measure length") (auto dest: dir_above_shorter)

declare lineage.simps [simp del]

text \<open>The directories there are: some at the start, and those made since.\<close>

definition dirs_now :: "string set \<Rightarrow> trace \<Rightarrow> string set" where
  "dirs_now D tr = D \<union> {p. \<exists>m a. (Mkdir p m, a) \<in> set tr \<and> a_ret a = 0}"

definition fails :: "int \<Rightarrow> answer" where
  "fails e = (ret (-1))\<lparr>a_errno := e\<rparr>"

definition dir_os :: "string set \<Rightarrow> os" where
  "dir_os D tr c =
     (case c of
        Mkdir p m \<Rightarrow>
          if p \<in> dirs_now D tr then fails EEXIST
          else (case dir_above p of
                  None \<Rightarrow> ret 0
                | Some q \<Rightarrow> if q \<in> dirs_now D tr then ret 0 else fails ENOENT)
      | Stat p \<Rightarrow>
          if p \<in> dirs_now D tr then (ret 0)\<lparr>a_stat := \<lparr>st_uid = 0, st_gid = 0, st_mode = 16877, st_size = 0, st_dev = 0\<rparr>\<rparr>
          else fails ENOENT
      | _ \<Rightarrow> ret 0)"

lemma fails_simps [simp]: "a_ret (fails e) = -1" "a_errno (fails e) = e"
  by (simp_all add: fails_def)

lemma dirs_now_made [simp]:
  "dirs_now D (tr @ [(Mkdir p m, a)]) = (if a_ret a = 0 then insert p (dirs_now D tr) else dirs_now D tr)"
  "dirs_now D (tr @ [(Stat p, a)]) = dirs_now D tr"
  by (auto simp: dirs_now_def)

lemma errnos [simp]: "ENOENT \<noteq> EEXIST" "EEXIST \<noteq> ENOENT" "ENOENT \<noteq> 0" "EEXIST \<noteq> 0"
  by (simp_all add: ENOENT_def EEXIST_def)

lemma psys_eq: "psys os c s = (os (fst s) c, (fst s @ [(c, os (fst s) c)], snd s))"
  by (simp add: psys_def sys_def Let_def)

lemma lineage_length: "q \<in> set (lineage p) \<Longrightarrow> length q \<le> length p"
proof (induction p arbitrary: q rule: lineage.induct)
  case (1 p)
  show ?case
  proof (cases "dir_above p")
    case None
    then show ?thesis using "1.prems" by (simp add: lineage.simps [of p])
  next
    case (Some r)
    then have "q = p \<or> q \<in> set (lineage r)" using "1.prems" by (simp add: lineage.simps [of p])
    then show ?thesis using "1.IH" [OF Some, of q] dir_above_shorter [OF Some] by auto
  qed
qed

text \<open>With every directory there is the one above it.\<close>

definition has_parents :: "string set \<Rightarrow> bool" where
  "has_parents C \<longleftrightarrow> (\<forall>p \<in> C. \<forall>q. dir_above p = Some q \<longrightarrow> q \<in> C)"

lemma lineage_present: "has_parents C \<Longrightarrow> p \<in> C \<Longrightarrow> set (lineage p) \<subseteq> C"
proof (induction p rule: lineage.induct)
  case (1 p)
  show ?case
  proof (cases "dir_above p")
    case None
    then show ?thesis using "1.prems" by (simp add: lineage.simps [of p])
  next
    case (Some r)
    then have "r \<in> C" using "1.prems" by (auto simp: has_parents_def)
    then show ?thesis using "1.IH" [OF Some] "1.prems" Some by (simp add: lineage.simps [of p])
  qed
qed

lemma mkdir_existing_ok:
  assumes "path \<in> dirs_now D (fst s)"
  shows "\<exists>s'. mkdir_existing (dir_os D) path s = (0, s') \<and> dirs_now D (fst s') = dirs_now D (fst s)"
  using assms
  by (simp add: mkdir_existing_def mkdir_check_existing_def io_isdir_def psys_eq dir_os_def Let_def
      S_ISDIR_def invalidate_def)

lemma io_mkdir_eq:
  "io_mkdir os path s =
     (let a = os (fst s) (Mkdir path 493); s1 = (fst s @ [(Mkdir path 493, a)], snd s) in
      if a_ret a = 0 then (0, invalidate path s1)
      else if a_errno a = EEXIST then mkdir_existing os path s1
      else if a_errno a \<noteq> ENOENT then (-1, s1)
      else mkdir_deep os path s1)"
  by (subst io_mkdir.simps) (simp add: psys_eq Let_def)

lemma io_mkdir_above:
  assumes len: "length path \<le> 4096" and new: "path \<notin> dirs_now D (fst s)"
    and q: "dir_above path = Some q" "q \<notin> dirs_now D (fst s)"
    and above: "\<And>t. length q < length path \<Longrightarrow> length q \<le> 4096 \<Longrightarrow> dirs_now D (fst t) = dirs_now D (fst s) \<Longrightarrow>
      \<exists>s'. io_mkdir (dir_os D) q t = (0, s') \<and> dirs_now D (fst s') = dirs_now D (fst s) \<union> set (lineage q)"
  shows "\<exists>s'. io_mkdir (dir_os D) path s = (0, s') \<and>
    dirs_now D (fst s') = dirs_now D (fst s) \<union> set (lineage path)"
proof -
  let ?os = "dir_os D" and ?m = "Mkdir path 493"
  let ?a = "?os (fst s) ?m"
  let ?s1 = "(fst s @ [(?m, ?a)], snd s)"
  have a: "?a = fails ENOENT" using assms by (simp add: dir_os_def)
  obtain n where n: "strrchr_pos (CHR ''/'') path = Some n" "n \<noteq> 0" "q = take n path"
    using q(1) by (auto simp: dir_above_def split: option.splits if_splits)
  have nl: "n < length path" using strrchr_pos_Some [OF n(1)] by simp
  have ql: "length q < length path" "length q \<le> 4096" using n nl len by simp_all
  obtain s2 where s2: "io_mkdir ?os q ?s1 = (0, s2)"
    and c2: "dirs_now D (fst s2) = dirs_now D (fst s) \<union> set (lineage q)"
    using above [OF ql, of ?s1] a by auto
  have "path \<notin> set (lineage q)" using lineage_length [of path q] ql by auto
  then have p2: "path \<notin> dirs_now D (fst s2)" using c2 new by simp
  have q2: "q \<in> dirs_now D (fst s2)" using c2 by (simp add: lineage.simps [of q])
  have par: "mkdir_parent ?os path ?s1 = (0, s2)" using n nl len s2 by (simp add: mkdir_parent.simps)
  let ?b = "?os (fst s2) ?m"
  have b: "?b = ret 0" using p2 q2 q(1) by (simp add: dir_os_def)
  have "io_mkdir ?os path s = (0, invalidate path (fst s2 @ [(?m, ?b)], snd s2))"
    unfolding io_mkdir_eq using a par b by (simp add: mkdir_deep.simps mkdirm_def psys_eq Let_def)
  then show ?thesis using b c2 q(1) by (auto simp: invalidate_def lineage.simps [of path])
qed

lemma io_mkdir_dirs:
  assumes "length path \<le> 4096" and "has_parents (dirs_now D (fst s))"
  shows "\<exists>s'. io_mkdir (dir_os D) path s = (0, s') \<and>
    dirs_now D (fst s') = dirs_now D (fst s) \<union> set (lineage path)"
  using assms
proof (induction "length path" arbitrary: path s rule: less_induct)
  case less
  let ?C = "dirs_now D (fst s)"
  consider (there) "path \<in> ?C"
    | (ready) "path \<notin> ?C" "\<And>q. dir_above path = Some q \<Longrightarrow> q \<in> ?C"
    | (deep) q where "path \<notin> ?C" "dir_above path = Some q" "q \<notin> ?C"
    by blast
  then show ?case
  proof cases
    case there
    then have "?C \<union> set (lineage path) = ?C" using lineage_present [OF less.prems(2) there] by auto
    then show ?thesis
      using there mkdir_existing_ok [of path D "(fst s @ [(Mkdir path 493, fails EEXIST)], snd s)"]
      by (auto simp: io_mkdir_eq dir_os_def Let_def)
  next
    case ready
    then have "dir_os D (fst s) (Mkdir path 493) = ret 0" by (auto simp: dir_os_def split: option.splits)
    then have "io_mkdir (dir_os D) path s = (0, invalidate path (fst s @ [(Mkdir path 493, ret 0)], snd s))"
      by (simp add: io_mkdir_eq)
    then show ?thesis using ready lineage_present [OF less.prems(2)]
      by (cases "dir_above path") (auto simp: invalidate_def lineage.simps [of path])
  next
    case (deep q)
    show ?thesis
    proof (rule io_mkdir_above [OF less.prems(1) deep])
      fix t :: pst
      assume "length q < length path" "length q \<le> 4096" "dirs_now D (fst t) = ?C"
      then show "\<exists>s'. io_mkdir (dir_os D) q t = (0, s') \<and> dirs_now D (fst s') = ?C \<union> set (lineage q)"
        using less.hyps [of q t] less.prems(2) by simp
    qed
  qed
qed

text \<open>
  \<open>io_mkdir\<close> makes the directory and everything above it that is missing.  On any set of
  directories that contains each one's parent, for a path of at most 4096 characters, it returns 0
  whether the path is new, exists already or lacks several levels, and afterwards the
  directories are the old ones and the whole lineage of the path, nothing else.
\<close>

theorem io_mkdir_makes_lineage:
  assumes "length path \<le> 4096" and "has_parents D"
  shows "fst (io_mkdir (dir_os D) path ([], io_cache0)) = 0 \<and>
    dirs_now D (fst (snd (io_mkdir (dir_os D) path ([], io_cache0)))) = D \<union> set (lineage path)"
proof -
  have "dirs_now D [] = D" by (simp add: dirs_now_def)
  then show ?thesis using io_mkdir_dirs [of path D "([], io_cache0)"] assms by auto
qed

lemma io_mkdir_makes_lineage_witness:
  "fst (io_mkdir (dir_os {''/run''}) ''/run/user/1000'' ([], io_cache0)) = 0 \<and>
   dirs_now {''/run''} (fst (snd (io_mkdir (dir_os {''/run''}) ''/run/user/1000'' ([], io_cache0)))) =
     {''/run'', ''/run/user'', ''/run/user/1000''}"
proof -
  have "dir_above ''/run'' = None" "dir_above ''/run/user'' = Some ''/run''"
    "dir_above ''/run/user/1000'' = Some ''/run/user''"
    by (simp_all add: dir_above_def)
  moreover from this have "has_parents {''/run''}" by (simp add: has_parents_def)
  ultimately show ?thesis
    using io_mkdir_makes_lineage [of "''/run/user/1000''" "{''/run''}"]
    by (auto simp: lineage.simps)
qed

section \<open>Removing a tree\<close>

text \<open>A path that is the root of the tree or is reached from it through proper names.\<close>

definition in_tree :: "string \<Rightarrow> string \<Rightarrow> bool" where
  "in_tree root p \<longleftrightarrow> (\<exists>es. (\<forall>e \<in> set es. \<not> is_dot_or_dotdot e) \<and> p = root @ concat (map ((#) (CHR ''/'')) es))"

fun rm_call :: "string \<Rightarrow> syscall \<Rightarrow> bool" where
  "rm_call root (Lstat p) \<longleftrightarrow> in_tree root p"
| "rm_call root (Opendir p) \<longleftrightarrow> in_tree root p"
| "rm_call root (Unlink p) \<longleftrightarrow> in_tree root p"
| "rm_call root (Rmdir p) \<longleftrightarrow> in_tree root p"
| "rm_call root _ \<longleftrightarrow> False"

fun_cases rm_callE: "rm_call root c"

text \<open>Every directory is opened right after \<open>lstat\<close> said that it is no symbolic link.\<close>

fun opens_checked :: "trace \<Rightarrow> bool" where
  "opens_checked (x # y # r) \<longleftrightarrow>
     (case fst y of
        Opendir p \<Rightarrow> fst x = Lstat p \<and> \<not> (a_ret (snd x) = 0 \<and> S_ISLNK (st_mode (a_stat (snd x))))
      | _ \<Rightarrow> True) \<and> opens_checked (y # r)"
| "opens_checked [x] \<longleftrightarrow> True"
| "opens_checked [] \<longleftrightarrow> True"

definition starts_quiet :: "trace \<Rightarrow> bool" where
  "starts_quiet tr \<longleftrightarrow> (case tr of [] \<Rightarrow> True | x # _ \<Rightarrow> (\<forall>p. fst x \<noteq> Opendir p))"

lemma opens_checked_append:
  "opens_checked a \<Longrightarrow> opens_checked b \<Longrightarrow> starts_quiet b \<Longrightarrow> opens_checked (a @ b)"
proof (induction a rule: opens_checked.induct)
  case (2 v)
  then show ?case by (cases b) (auto simp: starts_quiet_def split: syscall.splits)
qed (auto split: syscall.splits)

lemma starts_quiet_append: "starts_quiet a \<Longrightarrow> starts_quiet b \<Longrightarrow> starts_quiet (a @ b)"
  by (cases a) (auto simp: starts_quiet_def)

definition rm_trace :: "string \<Rightarrow> trace \<Rightarrow> bool" where
  "rm_trace root tr \<longleftrightarrow> list_all (rm_call root) (calls tr) \<and> opens_checked tr \<and> starts_quiet tr"

lemma rm_trace_append: "rm_trace root a \<Longrightarrow> rm_trace root b \<Longrightarrow> rm_trace root (a @ b)"
  by (auto simp: rm_trace_def opens_checked_append starts_quiet_append)

lemma in_tree_child:
  assumes "in_tree root p" and "\<not> is_dot_or_dotdot e"
  shows "in_tree root (p @ ''/'' @ e)"
proof -
  obtain es where es: "\<forall>x \<in> set es. \<not> is_dot_or_dotdot x" "p = root @ concat (map ((#) (CHR ''/'')) es)"
    using assms(1) by (auto simp: in_tree_def)
  then have "p @ ''/'' @ e = root @ concat (map ((#) (CHR ''/'')) (es @ [e]))" by simp
  moreover have "\<forall>x \<in> set (es @ [e]). \<not> is_dot_or_dotdot x" using es assms(2) by simp
  ultimately show ?thesis unfolding in_tree_def by blast
qed

lemma rm_single:
  "in_tree root p \<Longrightarrow> rm_trace root [(Unlink p, a)] \<and> rm_trace root [(Rmdir p, b)] \<and> rm_trace root [(Lstat p, l)]"
  by (simp add: rm_trace_def starts_quiet_def)

definition rm_extends :: "string \<Rightarrow> pst \<Rightarrow> pst \<Rightarrow> bool" where
  "rm_extends root s t \<longleftrightarrow> (\<exists>ext. fst t = fst s @ ext \<and> rm_trace root ext)"

lemma rm_extends_refl [simp]: "rm_extends root s s"
  by (simp add: rm_extends_def rm_trace_def starts_quiet_def)

lemma rm_extends_trans: "rm_extends root s t \<Longrightarrow> rm_extends root t u \<Longrightarrow> rm_extends root s u"
  unfolding rm_extends_def using rm_trace_append by (metis append.assoc)

lemma rm_extends_calls:
  assumes "in_tree root p"
  shows "rm_extends root s (fst s @ [(Unlink p, a)], k)" and "rm_extends root s (fst s @ [(Rmdir p, a)], k)"
    and "rm_extends root s (fst s @ [(Lstat p, a)], k)"
  using rm_single [OF assms] by (simp_all add: rm_extends_def)

lemma rm_extends_unlink: "in_tree root p \<Longrightarrow> rm_extends root s (snd (unlink_cached os p s))"
  using rm_extends_calls(1) [of root p s]
  by (simp add: unlink_cached_def unlink_path_def psys_eq invalidate_def Let_def)

lemma rm_extends_open:
  assumes "in_tree root p" and "\<not> (a_ret l = 0 \<and> S_ISLNK (st_mode (a_stat l)))"
  shows "rm_extends root s ((fst s @ [(Lstat p, l)]) @ [(Opendir p, d)], k)"
  using assms by (simp add: rm_extends_def rm_trace_def starts_quiet_def calls_def)

lemma rm_extends_rmtree:
  assumes p: "in_tree root path"
    and l: "is_symlink_path os path s = (l, s1)" and d: "psys os (Opendir path) s1 = (d, s2)"
    and sub: "\<not> l \<Longrightarrow> \<not> a_ret d < 0 \<Longrightarrow> rm_extends root s2 (snd (rmtree_dir os (a_names d) path 0 s2))"
  shows "rm_extends root s (snd (io_rmtree os path s))"
proof -
  have s1: "rm_extends root s s1" using l rm_extends_calls(3) [OF p, of s] by (auto simp: is_symlink_path_def psys_eq)
  have s2: "rm_extends root s s2" if "\<not> l"
    using that l d rm_extends_open [OF p, of _ s] by (auto simp: is_symlink_path_def psys_eq)
  obtain rc s3 where r: "rmtree_dir os (a_names d) path 0 s2 = (rc, s3)" by (metis prod.exhaust)
  have fin: "rm_extends root s3 (snd (let (a, s) = psys os (Rmdir path) s3 in
      if a_ret a \<noteq> 0 \<and> a_errno a \<noteq> ENOENT then (-1, s) else (0 :: int, invalidate path s)))"
    using rm_extends_calls(2) [OF p] by (simp add: psys_eq invalidate_def)
  show ?thesis
  proof (cases "l \<or> a_ret d < 0")
    case True
    then show ?thesis using l d rm_extends_trans [OF s1 rm_extends_unlink [OF p]] rm_extends_trans [OF s2 rm_extends_unlink [OF p]]
      by (subst io_rmtree.simps) auto
  next
    case False
    then have "rm_extends root s s3" using sub r rm_extends_trans [OF s2] by simp
    then show ?thesis using False l d r rm_extends_trans [OF _ fin] by (subst io_rmtree.simps) simp
  qed
qed

lemma rmtree_extends:
  "in_tree root path \<Longrightarrow> rm_extends root s (snd (io_rmtree os path s))"
  "in_tree root path \<Longrightarrow> rm_extends root s (snd (rmtree_dir os names path rc s))"
proof (induction os path s and os names path rc s rule: io_rmtree_rmtree_dir.induct)
  case (1 os path s)
  obtain l s1 where l: "is_symlink_path os path s = (l, s1)" by (metis prod.exhaust)
  obtain d s2 where d: "psys os (Opendir path) s1 = (d, s2)" by (metis prod.exhaust)
  show ?case by (rule rm_extends_rmtree [OF "1.prems" l d]) (rule "1.IH" [OF l [symmetric] refl _ d [symmetric] refl _ "1.prems"])
next
  case (2 os names path rc s)
  show ?case
  proof (cases names)
    case (Cons e es)
    show ?thesis
    proof (cases "is_dot_or_dotdot e \<or> 4096 \<le> length (path @ ''/'' @ e)")
      case True
      then show ?thesis using "2.IH"(1,2) [OF Cons] "2.prems" Cons by (subst rmtree_dir.simps) auto
    next
      case False
      then have n: "\<not> is_dot_or_dotdot e" "\<not> 4096 \<le> length (path @ ''/'' @ e)" by blast+
      obtain r s1 where r: "io_rmtree os (path @ ''/'' @ e) s = (r, s1)" by (metis prod.exhaust)
      have "rm_extends root s s1" using "2.IH"(3) [OF Cons n] in_tree_child [OF "2.prems" n(1)] r by simp
      moreover have "rmtree_dir os names path rc s = rmtree_dir os es path (if r \<noteq> 0 then -1 else rc) s1"
        by (subst rmtree_dir.simps) (use Cons n r in simp)
      ultimately show ?thesis
        using rm_extends_trans [OF _ "2.IH"(4) [OF Cons n r [symmetric] refl "2.prems"]] by simp
    qed
  qed (simp add: rmtree_dir.simps)
qed

text \<open>
  C34: removing a tree never leaves it.  Whatever the system answers, every path that \<open>io_rmtree\<close>
  touches is the given one or reached from it through names other than \<open>.\<close> and \<open>..\<close>, and a
  directory is opened only right after an \<open>lstat\<close> on it, and not when that has said that it is a symbolic link.  (A
  \<open>lstat\<close> that fails does not keep the code from opening the path.)
\<close>

theorem io_rmtree_stays_in_tree:
  "\<exists>ext. fst (snd (io_rmtree os root s)) = fst s @ ext \<and>
    list_all (rm_call root) (calls ext) \<and> opens_checked ext"
proof -
  have "in_tree root root" unfolding in_tree_def by (rule exI [of _ "[]"]) simp
  from rmtree_extends(1) [OF this] show ?thesis unfolding rm_extends_def rm_trace_def by blast
qed

end
