(* ===== verification/IoCalls.thy ===== *)
theory IoCalls
  imports IoFs
begin

text \<open>
  Which system calls the file-system operations can make, as an interface: \<open>call_policy\<close> is a
  set of allowed calls that contains those of \<^verbatim>\<open>src/util/io.c\<close>, and its lemmas say that every
  operation of that file extends the trace with allowed calls only, whatever the system
  answers.  The components that use the operations interpret it with the policy they keep.
\<close>

fun fs_call :: "syscall \<Rightarrow> bool" where
  "fs_call (Stat p) = True"
| "fs_call (Lstat p) = True"
| "fs_call (Access p) = True"
| "fs_call (Mkdir p m) = True"
| "fs_call (Chown p u g) = True"
| "fs_call (Unlink p) = True"
| "fs_call (Rmdir p) = True"
| "fs_call (Symlink t p) = True"
| "fs_call (Open p f) = True"
| "fs_call (Opendir p) = True"
| "fs_call (Close f) = True"
| "fs_call c = False"

fun_cases fs_callE: "fs_call c"

text \<open>\<open>adds P s s'\<close>: from \<open>s\<close> to \<open>s'\<close> the trace grew by calls that satisfy \<open>P\<close>.\<close>

definition adds :: "(syscall \<Rightarrow> bool) \<Rightarrow> pst \<Rightarrow> pst \<Rightarrow> bool" where
  "adds P s s' \<longleftrightarrow> (\<exists>ext. fst s' = fst s @ ext \<and> list_all P (calls ext))"

named_theorems adds_intros \<open>operations that only add allowed calls\<close>

lemma adds_refl [simp, adds_intros]: "adds P s s"
  by (simp add: adds_def)

lemma adds_trans: "adds P a b \<Longrightarrow> adds P b c \<Longrightarrow> adds P a c"
  by (auto simp: adds_def)

lemma adds_psys: "P c \<Longrightarrow> adds P s (snd (psys os c s))"
  by (simp add: adds_def psys_eq)

lemma adds_psys_iff [simp]: "adds P s (fst s @ [(c, a)], x) \<longleftrightarrow> P c"
  by (auto simp: adds_def)

lemma adds_invalidate [simp]: "adds P a (invalidate p s) \<longleftrightarrow> adds P a s"
  by (simp add: adds_def invalidate_def)

lemma adds_mono: "adds P a b \<Longrightarrow> (\<And>c. P c \<Longrightarrow> Q c) \<Longrightarrow> adds Q a b"
  by (auto simp: adds_def list_all_iff)

text \<open>A sequence of two operations, the second of which may start in any state.\<close>

lemma adds_seq:
  "adds P s (snd (f s)) \<Longrightarrow> (\<And>r t. adds P t (snd (g r t))) \<Longrightarrow> adds P s (snd (case f s of (r, t) \<Rightarrow> g r t))"
  by (cases "f s") (metis adds_trans prod.case snd_conv)

text \<open>Rules for a sequence of operations that hand the state on.\<close>

lemma adds_if: "(c \<Longrightarrow> adds P s (snd a)) \<Longrightarrow> (\<not> c \<Longrightarrow> adds P s (snd b)) \<Longrightarrow> adds P s (snd (if c then a else b))"
  by simp

lemma adds_done: "adds P s (snd (r, s))"
  by simp

lemmas adds_steps = adds_if adds_done adds_seq [where g = "\<lambda>r t. _ r t"]

text \<open>\<open>did_of K cs s s'\<close>: from \<open>s\<close> to \<open>s'\<close> the trace grew, and \<open>cs\<close> are the calls of kind \<open>K\<close> among it.\<close>

definition did_of :: "(syscall \<Rightarrow> bool) \<Rightarrow> syscall list \<Rightarrow> pst \<Rightarrow> pst \<Rightarrow> bool" where
  "did_of K cs s s' \<longleftrightarrow> (\<exists>ext. fst s' = fst s @ ext \<and> filter K (calls ext) = cs)"

lemma did_trans: "did_of K a s t \<Longrightarrow> did_of K b t u \<Longrightarrow> did_of K (a @ b) s u"
  by (auto simp: did_of_def)

lemma did_nothing: "adds (\<lambda>c. \<not> K c) s s' \<Longrightarrow> did_of K [] s s'"
  by (auto simp: did_of_def adds_def list_all_iff filter_empty_conv)

lemma did_before: "did_of K [] s t \<Longrightarrow> did_of K ms t u \<Longrightarrow> did_of K ms s u"
  using did_trans by fastforce

lemma did_call: "did_of K (filter K [c]) s (fst s @ [(c, a)], x)"
  by (auto simp: did_of_def)

locale call_policy =
  fixes allowed :: "syscall \<Rightarrow> bool"
  assumes allowed_fs: "fs_call c \<Longrightarrow> allowed c"
begin

lemma adds_call: "fs_call c \<Longrightarrow> adds allowed s (snd (psys os c s))"
  by (rule adds_psys) (rule allowed_fs)

lemma exists_adds: "adds allowed s (snd (io_exists_at os p s))"
  by (auto simp: io_exists_at_def psys_eq Let_def split_def intro: allowed_fs adds_call)

lemma isdir_adds: "adds allowed s (snd (io_isdir os p s))"
  by (simp add: io_isdir_def psys_eq Let_def allowed_fs)

lemma islink_adds: "adds allowed s (snd (io_islink os p s))"
  by (simp add: io_islink_def psys_eq Let_def allowed_fs)

lemma unlink_adds: "adds allowed s (snd (io_unlink os p s))"
  by (simp add: io_unlink_def psys_eq Let_def allowed_fs)

lemma unlink_quiet_adds: "adds allowed s (snd (io_unlink_quiet os p s))"
  by (simp add: io_unlink_quiet_def psys_eq Let_def allowed_fs)

lemma mkdir_existing_adds: "adds allowed s (snd (mkdir_existing os p s))"
  by (simp add: mkdir_existing_def mkdir_check_existing_def io_isdir_def psys_eq Let_def allowed_fs)

lemma mkdir_adds:
  "adds allowed s (snd (io_mkdir os p s))" "adds allowed s (snd (mkdir_deep os p s))"
  "adds allowed s (snd (mkdir_parent os p s))"
proof (induction os p s and os p s and os p s rule: io_mkdir_mkdir_deep_mkdir_parent.induct)
  case (1 os path s)
  let ?m = "Mkdir path 493"
  let ?a = "os (fst s) ?m"
  let ?s1 = "(fst s @ [(?m, ?a)], snd s)"
  have q: "adds allowed s ?s1" using allowed_fs by simp
  have "adds allowed ?s1 (snd (mkdir_deep os path ?s1))" if "a_ret ?a \<noteq> 0" "a_errno ?a \<noteq> EEXIST" "a_errno ?a = ENOENT"
    using 1 that by (simp add: psys_eq)
  then show ?case
    using q adds_trans [OF q mkdir_existing_adds] adds_trans [OF q]
    by (subst io_mkdir.simps) (auto simp: psys_eq)
next
  case (2 os path s)
  obtain r s1 where p: "mkdir_parent os path s = (r, s1)" by (cases "mkdir_parent os path s")
  then have q: "adds allowed s s1" using 2 by simp
  have "adds allowed s1 (snd (mkdirm os path 493 s1))" by (simp add: mkdirm_def psys_eq allowed_fs)
  then have "adds allowed s (snd (mkdirm os path 493 s1))" using q adds_trans by blast
  then show ?case using q by (subst mkdir_deep.simps) (auto simp: p split_def Let_def)
next
  case (3 os path s)
  then show ?case by (subst mkdir_parent.simps) (auto split: option.splits)
qed

lemma mkdir_chown_adds: "adds allowed s (snd (mkdir_chown os p u g m s))"
  by (auto simp: mkdir_chown_def psys_eq Let_def adds_def invalidate_def allowed_fs)

lemma mkdir_parents_adds: "adds allowed s (snd (mkdir_parents os p u g ps s))"
proof (induction os p u g ps s rule: mkdir_parents.induct)
  case (2 os path uid gid p ps s)
  obtain e s1 where e: "io_exists_at os (take p path) s = (e, s1)" by (cases "io_exists_at os (take p path) s")
  obtain r s2 where r: "mkdir_chown os (take p path) uid gid 493 s1 = (r, s2)"
    by (cases "mkdir_chown os (take p path) uid gid 493 s1")
  have q: "adds allowed s s1" "adds allowed s1 s2"
    using exists_adds [of s os "take p path"] mkdir_chown_adds [of s1 os "take p path" uid gid 493] e r by simp_all
  then have q2: "adds allowed s s2" using adds_trans by blast
  show ?case
  proof (cases "path ! p = CHR ''/''")
    case slash: True
    have "e = 0 \<Longrightarrow> adds allowed s (snd (mkdir_parents os path uid gid ps s1))"
      by (rule adds_trans [OF q(1)]) (use "2.IH"(2) slash e in simp)
    moreover have "e \<noteq> 0 \<Longrightarrow> r = 0 \<Longrightarrow> adds allowed s (snd (mkdir_parents os path uid gid ps s2))"
      by (rule adds_trans [OF q2]) (use "2.IH"(3) slash e r in simp)
    ultimately show ?thesis using slash q2 by (simp add: e r)
  qed (use "2.IH"(1) in simp)
qed simp

lemma mkdir_own_adds: "adds allowed s (snd (io_mkdir_own os p u g m s))"
proof -
  obtain e s1 where e: "io_exists_at os p s = (e, s1)" by (cases "io_exists_at os p s")
  obtain r s2 where r: "mkdir_parents os p u g [1..<length p] s1 = (r, s2)"
    by (cases "mkdir_parents os p u g [1..<length p] s1")
  have "adds allowed s s1" "adds allowed s1 s2"
    using exists_adds [of s os p] mkdir_parents_adds [of s1 os p u g "[1..<length p]"] e r by simp_all
  then show ?thesis
    using adds_trans [of _ s s1 s2] adds_trans [OF adds_trans mkdir_chown_adds, of s s1 s2] r
    by (auto simp add: io_mkdir_own_def e split: prod.splits)
qed

lemma mkdtmp_adds: "adds allowed s (snd (io_mkdtmp os p st s))"
  by (simp add: io_mkdtmp_def psys_eq Let_def allowed_fs)

lemma symlink_adds: "adds allowed s (snd (io_symlink os t p s))"
  by (simp add: io_symlink_def psys_eq Let_def allowed_fs)

lemma touch_adds: "adds allowed s (snd (io_touch os p s))"
  by (auto simp: io_touch_def psys_eq Let_def adds_def invalidate_def allowed_fs)

lemmas io_adds = exists_adds isdir_adds islink_adds unlink_adds unlink_quiet_adds mkdir_adds mkdir_own_adds
  mkdtmp_adds symlink_adds touch_adds

end

end
