(* ===== verification/Launch.thy ===== *)
theory Launch
  imports Env User IoCalls
begin

text \<open>
  Starting the command (\<^verbatim>\<open>src/core/launch.c\<close>): the command line, the last environment
  variables, the working directory, the change of identity and \<open>execvpe\<close>.  The user's databases
  \<open>pwdb\<close> and \<open>grdb\<close> are parameters, as is the success \<open>ok\<close> of the allocations.  A NULL argument
  vector and one whose first entry is NULL are both the empty list.  The result \<open>None\<close> is a
  lookup in a full environment map, which does not end.
\<close>

definition build_login_argv :: "bool \<Rightarrow> string \<Rightarrow> string list option" where
  "build_login_argv ok shell =
     (let base = (case strrchr_pos (CHR ''/'') shell of None \<Rightarrow> shell | Some i \<Rightarrow> drop (i + 1) shell)
      in if ok then Some [CHR ''-'' # base] else None)"

definition fill_home_user ::
  "(string \<Rightarrow> passwd list option) \<Rightarrow> bool \<Rightarrow> env_t \<Rightarrow> user \<Rightarrow> (env_t \<times> user) option" where
  "fill_home_user pwdb ok e u =
     (let (home, u) = get_home pwdb u in
      case env_map_ensure ok (emap e) ''HOME'' (Some home) of
        None \<Rightarrow> None
      | Some m \<Rightarrow>
          let (name, u) = get_name pwdb u in
          (case env_map_ensure ok m ''USER'' name of
             None \<Rightarrow> None
           | Some m \<Rightarrow> Some (e\<lparr>emap := m\<rparr>, u)))"

definition fill_shell ::
  "(string \<Rightarrow> passwd list option) \<Rightarrow> bool \<Rightarrow> env_t \<Rightarrow> user \<Rightarrow> (env_t \<times> user) option" where
  "fill_shell pwdb ok e u =
     (if guest_shell_override e then
        let (sh, u) = get_shell pwdb u in
        (case env_map_put ok (emap e) ''SHELL'' sh of
           None \<Rightarrow> None
         | Some m \<Rightarrow> Some (e\<lparr>emap := m\<rparr>, u))
      else Some (e, u))"

definition pick_shell ::
  "(string \<Rightarrow> passwd list option) \<Rightarrow> user \<Rightarrow> env_t \<Rightarrow> (string \<times> user) option" where
  "pick_shell pwdb u e =
     (case env_map_get (emap e) ''SHELL'' of
        None \<Rightarrow> None
      | Some (Some s) \<Rightarrow> Some (s, u)
      | Some None \<Rightarrow> Some (get_shell pwdb u))"

record launch_cmd =
  lc_cmd :: "string option"
  lc_argv :: "string list"

definition is_dash :: "string list \<Rightarrow> bool" where
  "is_dash argv \<longleftrightarrow> argv \<noteq> [] \<and> argv ! 0 = ''-''"

definition has_command :: "string list \<Rightarrow> bool" where
  "has_command argv \<longleftrightarrow> argv \<noteq> []"

definition prepare_command ::
  "(string \<Rightarrow> passwd list option) \<Rightarrow> bool \<Rightarrow> user \<Rightarrow> env_t \<Rightarrow> string list \<Rightarrow> (launch_cmd \<times> user) option" where
  "prepare_command pwdb ok u e argv =
     (let c = \<lparr>lc_cmd = None, lc_argv = argv\<rparr> in
      if has_command argv \<and> \<not> is_dash argv then Some (c\<lparr>lc_cmd := Some (argv ! 0)\<rparr>, u)
      else
        (case (if is_dash argv then pick_shell pwdb u e else Some (get_shell pwdb u)) of
           None \<Rightarrow> None
         | Some (shell, u) \<Rightarrow>
             (case build_login_argv ok shell of
                None \<Rightarrow> Some (c, u)
              | Some av \<Rightarrow> Some (\<lparr>lc_cmd = Some shell, lc_argv = av\<rparr>, u))))"

definition setup_cwd :: "os \<Rightarrow> string option \<Rightarrow> pst \<Rightarrow> int \<times> pst" where
  "setup_cwd os cwd s =
     (case cwd of
        None \<Rightarrow> (0, s)
      | Some d \<Rightarrow>
          if d = [] then (0, s)
          else
            let (a, s) = psys os (Chdir d) s in
            if a_ret a \<noteq> 0 then
              let (r, s) = io_mkdir os d s in
              if r \<noteq> 0 then (-1, s)
              else let (a, s) = psys os (Chdir d) s in (if a_ret a \<noteq> 0 then -1 else 0, s)
            else (0, s))"

definition do_priv_drop ::
  "os \<Rightarrow> (string \<Rightarrow> passwd list option) \<Rightarrow> (string \<Rightarrow> group list option) \<Rightarrow> user \<Rightarrow> pst \<Rightarrow> int \<times> user \<times> pst" where
  "do_priv_drop os pwdb grdb u s =
     (let (gid, u) = get_gid pwdb grdb u; (a, s) = psys os (Setregid gid gid) s in
      if a_ret a \<noteq> 0 then (-1, u, s)
      else
        let (gl, u) = get_groups pwdb grdb u; (a, s) = psys os (Setgroups gl) s in
        if a_ret a \<noteq> 0 then (-1, u, s)
        else
          let (uid, u) = get_uid pwdb u; (a, s) = psys os (Setreuid uid uid) s in
          if a_ret a \<noteq> 0 then (-1, u, s) else (0, u, s))"

text \<open>\<open>umask (0022)\<close> and \<open>execvpe\<close>, which comes back only when it fails; 022 is 18.\<close>

definition exec_or_fail :: "os \<Rightarrow> string \<Rightarrow> string list \<Rightarrow> string list \<Rightarrow> pst \<Rightarrow> pst" where
  "exec_or_fail os cmd argv envp s =
     (let (_, s) = psys os (Umask 18) s; (_, s) = psys os (Execve cmd argv envp) s in s)"

definition launch_exec ::
  "os \<Rightarrow> (string \<Rightarrow> passwd list option) \<Rightarrow> (string \<Rightarrow> group list option) \<Rightarrow> user \<Rightarrow> string option \<Rightarrow>
   string \<Rightarrow> string list \<Rightarrow> string list \<Rightarrow> pst \<Rightarrow> int \<times> user \<times> pst" where
  "launch_exec os pwdb grdb u cwd cmd argv envp s =
     (let (r, s) = setup_cwd os cwd s in
      if r \<noteq> 0 then (-1, u, s)
      else
        let (r, u, s) = do_priv_drop os pwdb grdb u s in
        if r \<noteq> 0 then (-1, u, s)
        else (-1, u, exec_or_fail os cmd argv envp s))"

text \<open>\<open>okb\<close> is the success of the array of \<open>env_map_build\<close>.\<close>

definition launch_cage ::
  "os \<Rightarrow> (string \<Rightarrow> passwd list option) \<Rightarrow> (string \<Rightarrow> group list option) \<Rightarrow> bool \<Rightarrow> bool \<Rightarrow> user \<Rightarrow> env_t \<Rightarrow>
   string option \<Rightarrow> string list \<Rightarrow> pst \<Rightarrow> (int \<times> env_t \<times> user \<times> pst) option" where
  "launch_cage os pwdb grdb ok okb u e cwd argv s =
     (case prepare_command pwdb ok u e argv of
        None \<Rightarrow> None
      | Some (c, u) \<Rightarrow>
          (case lc_cmd c of
             None \<Rightarrow> Some (-1, e, u, s)
           | Some cmd \<Rightarrow>
               (case fill_home_user pwdb ok e u of
                  None \<Rightarrow> None
                | Some (e, u) \<Rightarrow>
                    (case fill_shell pwdb ok e u of
                       None \<Rightarrow> None
                     | Some (e, u) \<Rightarrow>
                         if \<not> okb then Some (-1, e, u, s)
                         else
                           let envp = env_map_build (emap e);
                               (r, u, s) = launch_exec os pwdb grdb u cwd cmd (lc_argv c) envp s
                           in Some (r, e, u, s)))))"

section \<open>Nothing runs before the identity has changed\<close>

fun is_exec :: "syscall \<Rightarrow> bool" where
  "is_exec (Execve c a e) \<longleftrightarrow> True"
| "is_exec (Execvp c a) \<longleftrightarrow> True"
| "is_exec _ \<longleftrightarrow> False"

definition no_exec :: "trace \<Rightarrow> bool" where
  "no_exec tr \<longleftrightarrow> list_all (\<lambda>c. \<not> is_exec c) (calls tr)"

lemma no_exec_simps [simp]:
  "no_exec []" "no_exec (a @ b) \<longleftrightarrow> no_exec a \<and> no_exec b" "no_exec [(c, r)] \<longleftrightarrow> \<not> is_exec c"
  "no_exec ((c, r) # tr) \<longleftrightarrow> \<not> is_exec c \<and> no_exec tr"
  by (auto simp: no_exec_def calls_def)

text \<open>A step that only adds calls that are no \<open>exec\<close>.\<close>

definition quiet :: "pst \<Rightarrow> pst \<Rightarrow> bool" where
  "quiet s s' \<longleftrightarrow> (\<exists>ext. fst s' = fst s @ ext \<and> no_exec ext)"

lemma quiet_refl [simp]: "quiet s s"
  by (simp add: quiet_def)

lemma quiet_trans: "quiet a b \<Longrightarrow> quiet b c \<Longrightarrow> quiet a c"
  by (auto simp: quiet_def)

lemma quiet_psys [simp]: "\<not> is_exec c \<Longrightarrow> quiet s (snd (psys os c s))"
  by (simp add: quiet_def psys_eq)

lemma quiet_invalidate [simp]: "quiet a (invalidate p s) \<longleftrightarrow> quiet a s"
  by (simp add: quiet_def invalidate_def)

lemma fs_call_no_exec: "fs_call c \<Longrightarrow> \<not> is_exec c"
  by (erule fs_callE) simp_all

text \<open>The file-system operations execute nothing.\<close>

interpretation exec_free: call_policy "\<lambda>c. \<not> is_exec c"
  by unfold_locales (rule fs_call_no_exec)

lemma quiet_adds: "quiet s s' \<longleftrightarrow> adds (\<lambda>c. \<not> is_exec c) s s'"
  by (simp add: quiet_def adds_def no_exec_def)

lemma quiet_io_mkdir: "quiet s (snd (io_mkdir os p s))"
  unfolding quiet_adds by (rule exec_free.mkdir_adds)

lemma quiet_setup_cwd: "quiet s (snd (setup_cwd os cwd s))"
proof (cases cwd)
  case (Some d)
  let ?c = "Chdir d"
  let ?s1 = "snd (psys os ?c s)"
  have 1: "quiet s ?s1" by simp
  have 2: "quiet s (snd (io_mkdir os d ?s1))" using quiet_trans [OF 1 quiet_io_mkdir(1)] .
  have 3: "quiet s (snd (psys os ?c (snd (io_mkdir os d ?s1))))" using quiet_trans [OF 2 quiet_psys] by simp
  show ?thesis using Some 1 2 3 by (auto simp: setup_cwd_def split_def Let_def)
qed (simp add: setup_cwd_def)

text \<open>What the trace looks like when the command is executed.\<close>

definition drop_and_exec :: "u32 \<Rightarrow> u32 list \<Rightarrow> u32 \<Rightarrow> string \<Rightarrow> string list \<Rightarrow> string list \<Rightarrow> trace \<Rightarrow> bool" where
  "drop_and_exec gid gl uid cmd argv envp ext \<longleftrightarrow>
     (\<exists>pre a1 a2 a3 a4 a5. no_exec pre \<and> a_ret a1 = 0 \<and> a_ret a2 = 0 \<and> a_ret a3 = 0 \<and>
       ext = pre @ [(Setregid gid gid, a1), (Setgroups gl, a2), (Setreuid uid uid, a3),
                    (Umask 18, a4), (Execve cmd argv envp, a5)])"

lemma launch_exec_trace:
  assumes "launch_exec os pwdb grdb u cwd cmd argv envp s = (r, u', s')"
  shows "r = -1 \<and> (quiet s s' \<or>
    (\<exists>ext u1 u2. fst s' = fst s @ ext \<and> u1 = snd (get_gid pwdb grdb u) \<and> u2 = snd (get_groups pwdb grdb u1) \<and>
      drop_and_exec (fst (get_gid pwdb grdb u)) (fst (get_groups pwdb grdb u1)) (fst (get_uid pwdb u2))
        cmd argv envp ext))"
proof -
  obtain rc s1 where c: "setup_cwd os cwd s = (rc, s1)" by (cases "setup_cwd os cwd s")
  then have q: "quiet s s1" using quiet_setup_cwd [of s os cwd] by simp
  obtain gid u1 where g: "get_gid pwdb grdb u = (gid, u1)" by (cases "get_gid pwdb grdb u")
  obtain gl u2 where l: "get_groups pwdb grdb u1 = (gl, u2)" by (cases "get_groups pwdb grdb u1")
  obtain uid u3 where i: "get_uid pwdb u2 = (uid, u3)" by (cases "get_uid pwdb u2")
  let ?c1 = "Setregid gid gid" and ?c2 = "Setgroups gl" and ?c3 = "Setreuid uid uid"
  let ?a1 = "os (fst s1) ?c1"
  let ?t1 = "fst s1 @ [(?c1, ?a1)]"
  let ?a2 = "os ?t1 ?c2"
  let ?t2 = "?t1 @ [(?c2, ?a2)]"
  let ?a3 = "os ?t2 ?c3"
  let ?t3 = "?t2 @ [(?c3, ?a3)]"
  have d: "do_priv_drop os pwdb grdb u s1 =
     (if a_ret ?a1 \<noteq> 0 then (-1, u1, (?t1, snd s1))
      else if a_ret ?a2 \<noteq> 0 then (-1, u2, (?t2, snd s1))
      else if a_ret ?a3 \<noteq> 0 then (-1, u3, (?t3, snd s1)) else (0, u3, (?t3, snd s1)))"
    by (simp add: do_priv_drop_def g l i psys_eq Let_def)
  obtain pre where pre: "fst s1 = fst s @ pre" "no_exec pre" using q by (auto simp: quiet_def)
  consider (cwd) "rc \<noteq> 0" | (fail) "rc = 0" "\<not> (a_ret ?a1 = 0 \<and> a_ret ?a2 = 0 \<and> a_ret ?a3 = 0)"
    | (ok) "rc = 0" "a_ret ?a1 = 0" "a_ret ?a2 = 0" "a_ret ?a3 = 0" by blast
  then show ?thesis
  proof cases
    case cwd
    then show ?thesis using assms q by (simp add: launch_exec_def c)
  next
    case fail
    then have "r = -1" and "s' \<in> {(?t1, snd s1), (?t2, snd s1), (?t3, snd s1)}"
      using assms by (auto simp: launch_exec_def c d Let_def split: if_splits)
    then have "quiet s s'" using pre by (auto simp: quiet_def)
    then show ?thesis using \<open>r = -1\<close> by simp
  next
    case ok
    let ?a4 = "os ?t3 (Umask 18)"
    let ?t4 = "?t3 @ [(Umask 18, ?a4)]"
    let ?a5 = "os ?t4 (Execve cmd argv envp)"
    have "r = -1" and "fst s' = ?t4 @ [(Execve cmd argv envp, ?a5)]"
      using assms ok by (auto simp: launch_exec_def c d exec_or_fail_def psys_eq Let_def)
    moreover have "drop_and_exec gid gl uid cmd argv envp (pre @ [(?c1, ?a1), (?c2, ?a2), (?c3, ?a3),
        (Umask 18, ?a4), (Execve cmd argv envp, ?a5)])"
      unfolding drop_and_exec_def using pre(2) ok by blast
    ultimately show ?thesis using pre(1) by (simp add: g l i)
  qed
qed

text \<open>
  C3: the command never runs with the privileges of the launcher.  Whatever the system answers,
  either nothing is executed, or the calls end with \<open>setregid\<close>, \<open>setgroups\<close> and \<open>setreuid\<close> in
  this order, each having returned 0, the umask, and one \<open>execvpe\<close> of the prepared command,
  with the group, the groups and the user that the getters give for the given user (whose
  databases the preparation may have read) and the environment built last; the launcher itself only ever
  returns -1.
\<close>

theorem launch_drops_before_exec:
  "case launch_cage os pwdb grdb ok okb u e cwd argv s of
     None \<Rightarrow> True
   | Some (r, e', u', s') \<Rightarrow> r = -1 \<and>
       (quiet s s' \<or>
        (\<exists>ext c e1 up uh u0 u1 u2. fst s' = fst s @ ext \<and> lc_cmd c \<noteq> None \<and>
          prepare_command pwdb ok u e argv = Some (c, up) \<and>
          fill_home_user pwdb ok e up = Some (e1, uh) \<and> fill_shell pwdb ok e1 uh = Some (e', u0) \<and>
          u1 = snd (get_gid pwdb grdb u0) \<and> u2 = snd (get_groups pwdb grdb u1) \<and>
          drop_and_exec (fst (get_gid pwdb grdb u0)) (fst (get_groups pwdb grdb u1)) (fst (get_uid pwdb u2))
            (the (lc_cmd c)) (lc_argv c) (env_map_build (emap e')) ext))"
proof (cases "launch_cage os pwdb grdb ok okb u e cwd argv s")
  case (Some q)
  obtain c u1 where p: "prepare_command pwdb ok u e argv = Some (c, u1)"
    using Some by (auto simp: launch_cage_def split: option.splits)
  show ?thesis
  proof (cases "lc_cmd c")
    case None
    then show ?thesis using Some by (auto simp: launch_cage_def p)
  next
    case cmd: (Some cmd)
    obtain e1 u2 where h: "fill_home_user pwdb ok e u1 = Some (e1, u2)"
      using Some cmd by (auto simp: launch_cage_def p split: option.splits)
    obtain e2 u3 where sh: "fill_shell pwdb ok e1 u2 = Some (e2, u3)"
      using Some cmd h by (auto simp: launch_cage_def p split: option.splits)
    show ?thesis
    proof (cases okb)
      case False
      then show ?thesis using Some cmd h sh by (auto simp: launch_cage_def p)
    next
      case True
      obtain r u' s' where x: "launch_exec os pwdb grdb u3 cwd cmd (lc_argv c) (env_map_build (emap e2)) s = (r, u', s')"
        by (cases "launch_exec os pwdb grdb u3 cwd cmd (lc_argv c) (env_map_build (emap e2)) s")
      then have "q = (r, e2, u', s')" using Some cmd h sh True by (simp add: launch_cage_def p Let_def)
      then show ?thesis using Some launch_exec_trace [OF x] cmd p h sh by simp
    qed
  qed
qed simp

end
