(* ===== verification/Super.thy ===== *)
theory Super
  imports Os
begin

text \<open>
  Running as root (\<^verbatim>\<open>src/core/super.c\<close>): a set-user-ID binary takes on all identities of root
  and repairs its own owner and mode; a plain one starts itself through \<open>sudo --fix\<close>.  A function
  that may leave the process returns \<open>Exited\<close>.  The repeated \<open>waitpid\<close> may not end, and then
  the result is \<open>None\<close>.  Mode bits are numbers: 04755 is 2541 and \<open>S_ISUID\<close> is 2048.
\<close>

definition SELF_EXE :: string where "SELF_EXE = ''/proc/self/exe''"

definition fix_owner :: "os \<Rightarrow> stat \<Rightarrow> trace \<Rightarrow> int \<times> trace" where
  "fix_owner os st tr =
     (if st_uid st = 0 \<and> st_gid st = 0 then (0, tr)
      else
        let (a, tr) = sys os (Chown SELF_EXE 0 0) tr
        in (if a_ret a \<noteq> 0 then -1 else 0, tr))"

definition fix_mode :: "os \<Rightarrow> stat \<Rightarrow> trace \<Rightarrow> int \<times> trace" where
  "fix_mode os st tr =
     (if st_mode st mod 4096 = 2541 then (0, tr)
      else
        let (a, tr) = sys os (Chmod SELF_EXE 2541) tr
        in (if a_ret a \<noteq> 0 then -1 else 0, tr))"

definition super_fix :: "os \<Rightarrow> trace \<Rightarrow> int \<times> trace" where
  "super_fix os tr =
     (let (a, tr) = sys os (Stat SELF_EXE) tr in
      if a_ret a \<noteq> 0 then (-1, tr)
      else
        let (r, tr) = fix_owner os (a_stat a) tr in
        if r \<noteq> 0 then (-1, tr) else fix_mode os (a_stat a) tr)"

definition close_std_fds :: "os \<Rightarrow> trace \<Rightarrow> trace" where
  "close_std_fds os tr = snd (sys os (Close 2) (snd (sys os (Close 1) (snd (sys os (Close 0) tr)))))"

text \<open>
  \<open>wait_exit_ok\<close>; \<open>*status\<close> is read off the answer's mode field: \<open>WIFEXITED\<close> holds when the low
  seven bits are 0 and \<open>WEXITSTATUS\<close> is the next byte.
\<close>

partial_function (option) wait_exit_ok :: "os \<Rightarrow> int \<Rightarrow> trace \<Rightarrow> (int \<times> trace) option" where
  "wait_exit_ok os pid tr =
     (let (a, tr) = sys os (Waitpid pid) tr in
      if a_ret a < 0 \<and> a_errno a = EINTR then wait_exit_ok os pid tr
      else
        let status = st_mode (a_stat a) in
        Some (if a_ret a < 0 \<or> status mod 128 \<noteq> 0 \<or> status div 256 mod 256 \<noteq> 0 then -1 else 0, tr))"

definition try_sudo_reexec :: "os \<Rightarrow> string list \<Rightarrow> trace \<Rightarrow> (outcome \<times> trace) option" where
  "try_sudo_reexec os argv tr =
     (let (f, tr) = sys os Fork tr; pid = a_ret f in
      if pid = -1 then Some (Returned (-1), tr)
      else if pid = 0 then
        let tr = close_std_fds os tr;
            (_, tr) = sys os (Execvp ''sudo'' [''sudo'', ''--'', argv ! 0, ''--fix'']) tr;
            (_, tr) = sys os (Exit 127) tr
        in Some (Exited 127, tr)
      else
        (case wait_exit_ok os pid tr of
           None \<Rightarrow> None
         | Some (r, tr) \<Rightarrow>
             if r \<noteq> 0 then Some (Returned (-1), tr)
             else let (_, tr) = sys os (Execvp (argv ! 0) argv) tr in Some (Returned (-1), tr)))"

definition is_suid_binary :: "os \<Rightarrow> trace \<Rightarrow> bool \<times> trace" where
  "is_suid_binary os tr =
     (let (a, tr) = sys os (Stat SELF_EXE) tr; st = a_stat a in
      (a_ret a = 0 \<and> st_uid st = 0 \<and> st_gid st = 0 \<and> st_mode st div 2048 mod 2 = 1, tr))"

definition drop_saved_ids :: "os \<Rightarrow> u32 \<Rightarrow> u32 \<Rightarrow> u32 \<Rightarrow> trace \<Rightarrow> int \<times> trace" where
  "drop_saved_ids os ruid egid rgid tr =
     (let (a, tr) = (if ruid \<noteq> 0 then sys os (Setreuid 0 0) tr else (ret 0, tr)) in
      if a_ret a \<noteq> 0 then (-1, tr)
      else
        let (b, tr) = (if egid \<noteq> 0 \<or> rgid \<noteq> 0 then sys os (Setregid 0 0) tr else (ret 0, tr)) in
        if a_ret b \<noteq> 0 then (-1, tr) else (0, tr))"

definition super_escalate ::
  "os \<Rightarrow> string list \<Rightarrow> u32 \<Rightarrow> u32 \<Rightarrow> u32 \<Rightarrow> u32 \<Rightarrow> trace \<Rightarrow> (outcome \<times> trace) option" where
  "super_escalate os argv euid ruid egid rgid tr =
     (if euid \<noteq> 0 then
        let (suid, tr) = is_suid_binary os tr in
        if suid then Some (Returned (-1), tr) else try_sudo_reexec os argv tr
      else
        let (r, tr) = drop_saved_ids os ruid egid rgid tr in
        if r \<noteq> 0 then Some (Returned (-1), tr)
        else
          let (_, tr) = sys os (Umask 0) tr; (r, tr) = super_fix os tr in Some (Returned r, tr))"

section \<open>What success means\<close>

text \<open>The calls of a successful escalation: identities, umask, then the state of the binary.\<close>

definition ids_calls :: "u32 \<Rightarrow> u32 \<Rightarrow> u32 \<Rightarrow> syscall list" where
  "ids_calls ruid egid rgid =
     (if ruid \<noteq> 0 then [Setreuid 0 0] else []) @ (if egid \<noteq> 0 \<or> rgid \<noteq> 0 then [Setregid 0 0] else [])"

definition fix_calls :: "stat \<Rightarrow> syscall list" where
  "fix_calls st =
     (if st_uid st = 0 \<and> st_gid st = 0 then [] else [Chown SELF_EXE 0 0]) @
     (if st_mode st mod 4096 = 2541 then [] else [Chmod SELF_EXE 2541])"

text \<open>\<open>ok_trace\<close>: the given calls, each of which returned 0.\<close>

definition ok_trace :: "syscall list \<Rightarrow> trace \<Rightarrow> bool" where
  "ok_trace cs tr \<longleftrightarrow> calls tr = cs \<and> list_all (\<lambda>(c, a). a_ret a = 0) tr"

lemma ok_trace_append: "ok_trace cs a \<Longrightarrow> ok_trace ds b \<Longrightarrow> ok_trace (cs @ ds) (a @ b)"
  by (simp add: ok_trace_def)

lemma drop_saved_ids_trace:
  "fst (drop_saved_ids os ruid egid rgid tr) = 0 \<Longrightarrow>
   \<exists>ext. snd (drop_saved_ids os ruid egid rgid tr) = tr @ ext \<and> ok_trace (ids_calls ruid egid rgid) ext"
  by (cases "ruid = 0"; cases "egid = 0 \<and> rgid = 0")
    (auto simp: drop_saved_ids_def sys_def Let_def ids_calls_def ok_trace_def calls_def split: if_splits)

lemma super_fix_trace:
  "fst (super_fix os tr) = 0 \<Longrightarrow>
   \<exists>a ext. snd (super_fix os tr) = tr @ (Stat SELF_EXE, a) # ext \<and> a_ret a = 0 \<and> ok_trace (fix_calls (a_stat a)) ext"
  by (auto simp: super_fix_def fix_owner_def fix_mode_def sys_def Let_def fix_calls_def ok_trace_def calls_def
      split: if_splits)

text \<open>
  C33: the program goes on only as root.  \<open>super_escalate\<close> returns 0 only when the effective user
  is root, every other identity that was not root's has been set to root's with success, and after
  the umask the binary has been found or made root's with mode 04755.  With another
  effective user it never returns 0.
\<close>

theorem super_escalate_only_root:
  assumes ran: "super_escalate os argv euid ruid egid rgid tr = Some (Returned 0, tr')"
  shows "euid = 0 \<and> (\<exists>ids um a fix. tr' = tr @ ids @ (Umask 0, um) # (Stat SELF_EXE, a) # fix \<and>
    ok_trace (ids_calls ruid egid rgid) ids \<and> a_ret a = 0 \<and> ok_trace (fix_calls (a_stat a)) fix)"
proof (cases "euid = 0")
  case False
  have t: "try_sudo_reexec os argv t2 = Some (Returned r, t3) \<Longrightarrow> r = -1" for t2 r t3
    by (auto simp: try_sudo_reexec_def Let_def split_def split: if_splits option.splits)
  show ?thesis
    using False ran t [of "snd (is_suid_binary os tr)" 0 tr']
    by (auto simp: super_escalate_def Let_def split_def split: if_splits)
next
  case True
  obtain r t1 where d: "drop_saved_ids os ruid egid rgid tr = (r, t1)"
    by (cases "drop_saved_ids os ruid egid rgid tr")
  have r0: "r = 0" using ran True d by (auto simp: super_escalate_def Let_def split: if_splits)
  obtain ids where ids: "t1 = tr @ ids" "ok_trace (ids_calls ruid egid rgid) ids"
    using drop_saved_ids_trace [of os ruid egid rgid tr] d r0 by auto
  let ?t2 = "t1 @ [(Umask 0, os t1 (Umask 0))]"
  have f: "super_fix os ?t2 = (0, tr')"
    using ran True d r0 by (cases "super_fix os ?t2") (simp add: super_escalate_def sys_def Let_def)
  obtain a ext where "tr' = ?t2 @ (Stat SELF_EXE, a) # ext" "a_ret a = 0" "ok_trace (fix_calls (a_stat a)) ext"
    using super_fix_trace [of os ?t2] f by auto
  then show ?thesis using ids True by auto
qed

lemma super_escalate_only_root_witness:
  "\<exists>tr'. super_escalate (\<lambda>tr c. ret 0) [''cage''] 0 1000 0 1000 [] = Some (Returned 0, tr') \<and>
     calls tr' = [Setreuid 0 0, Setregid 0 0, Umask 0, Stat SELF_EXE, Chmod SELF_EXE 2541] \<and>
     (\<exists>ids um a fix. tr' = [] @ ids @ (Umask 0, um) # (Stat SELF_EXE, a) # fix \<and>
       ok_trace (ids_calls 1000 0 1000) ids \<and> a_ret a = 0 \<and> ok_trace (fix_calls (a_stat a)) fix)"
proof -
  obtain tr' where t: "super_escalate (\<lambda>tr c. ret 0) [''cage''] 0 1000 0 1000 [] = Some (Returned 0, tr')"
    and c: "calls tr' = [Setreuid 0 0, Setregid 0 0, Umask 0, Stat SELF_EXE, Chmod SELF_EXE 2541]"
    by (simp add: super_escalate_def drop_saved_ids_def super_fix_def fix_owner_def fix_mode_def sys_def Let_def
        ret_def calls_def)
  show ?thesis using t c super_escalate_only_root [OF t] by blast
qed

end
