(* ===== verification/IoAt.thy ===== *)
theory IoAt
  imports Os
begin

text \<open>
  Operations relative to a directory descriptor (\<^verbatim>\<open>src/util/io_at.c\<close>): a path is walked one
  component at a time, with every directory opened without following symbolic links and made when
  it is missing, and the last component is created in the directory the walk ends in.  A cursor
  into the path is the rest of it; the name that \<open>next_comp\<close> copies out is its last result.
\<close>

definition AT_DIR_FLAGS :: nat where "AT_DIR_FLAGS = 0x2B0000"
definition AT_TOUCH_FLAGS :: nat where "AT_TOUCH_FLAGS = 0xA0041"

text \<open>
  \<open>AT_DIR_FLAGS\<close> is \<open>O_PATH | O_NOFOLLOW | O_DIRECTORY | O_CLOEXEC\<close> and \<open>AT_TOUCH_FLAGS\<close> is
  \<open>O_WRONLY | O_CREAT | O_NOFOLLOW | O_CLOEXEC\<close>; \<open>O_NOFOLLOW\<close> is bit 17.
\<close>

definition no_follow :: "nat \<Rightarrow> bool" where
  "no_follow flags \<longleftrightarrow> flags div 2 ^ 17 mod 2 = 1"

record owner =
  o_uid :: u32
  o_gid :: u32

definition next_comp :: "string \<Rightarrow> int \<times> string \<times> string" where
  "next_comp p =
     (let p = dropWhile (\<lambda>c. c = CHR ''/'') p in
      if p = [] then (0, p, [])
      else
        let name = takeWhile (\<lambda>c. c \<noteq> CHR ''/'') p; p = dropWhile (\<lambda>c. c \<noteq> CHR ''/'') p
        in if 256 \<le> length name then (-1, p, []) else (1, p, name))"

definition open_component_nofollow :: "os \<Rightarrow> int \<Rightarrow> string \<Rightarrow> trace \<Rightarrow> int \<times> trace" where
  "open_component_nofollow os dirfd name tr =
     (let (a, tr) = sys os (Openat dirfd name AT_DIR_FLAGS 0) tr in (a_ret a, tr))"

definition create_dir_component :: "os \<Rightarrow> int \<Rightarrow> string \<Rightarrow> owner \<Rightarrow> trace \<Rightarrow> int \<times> trace" where
  "create_dir_component os dirfd name ow tr =
     (let (a, tr) = sys os (Mkdirat dirfd name 493) tr in
      if a_ret a \<noteq> 0 then (-1, tr)
      else if o_uid ow \<noteq> 0 \<or> o_gid ow \<noteq> 0 then
        let (a, tr) = sys os (Fchownat dirfd name (o_uid ow) (o_gid ow)) tr
        in (if a_ret a \<noteq> 0 then -1 else 0, tr)
      else (0, tr))"

definition ensure_dir_component :: "os \<Rightarrow> int \<Rightarrow> string \<Rightarrow> owner \<Rightarrow> trace \<Rightarrow> int \<times> trace" where
  "ensure_dir_component os dirfd name ow tr =
     (let (a, tr) = sys os (Fstatat dirfd name) tr in
      if a_ret a = 0 then
        if \<not> S_ISDIR (st_mode (a_stat a)) then (-1, tr) else open_component_nofollow os dirfd name tr
      else
        let (r, tr) = create_dir_component os dirfd name ow tr in
        if r \<noteq> 0 then (-1, tr) else open_component_nofollow os dirfd name tr)"

definition no_more_components :: "string \<Rightarrow> bool" where
  "no_more_components p \<longleftrightarrow> fst (next_comp p) = 0"

definition release_parent :: "os \<Rightarrow> int \<Rightarrow> int \<Rightarrow> trace \<Rightarrow> trace" where
  "release_parent os parent rootfd tr =
     (if parent \<noteq> rootfd then snd (sys os (Close parent) tr) else tr)"

lemma next_comp_shorter:
  assumes "0 < fst (next_comp p)"
  shows "length (fst (snd (next_comp p))) < length p"
proof -
  define q where "q = dropWhile (\<lambda>c. c = CHR ''/'') p"
  have n: "next_comp p = (if q = [] then (0, q, [])
     else if 256 \<le> length (takeWhile (\<lambda>c. c \<noteq> CHR ''/'') q) then (-1, dropWhile (\<lambda>c. c \<noteq> CHR ''/'') q, [])
     else (1, dropWhile (\<lambda>c. c \<noteq> CHR ''/'') q, takeWhile (\<lambda>c. c \<noteq> CHR ''/'') q))"
    by (simp add: next_comp_def Let_def q_def)
  have qn: "q \<noteq> []" using assms by (auto simp: n)
  then obtain c r where q: "q = c # r" by (cases q) auto
  have "hd q \<noteq> CHR ''/''" using hd_dropWhile [of "\<lambda>c. c = CHR ''/''" p] qn unfolding q_def by blast
  then have "dropWhile (\<lambda>c. c \<noteq> CHR ''/'') q = dropWhile (\<lambda>c. c \<noteq> CHR ''/'') r" by (simp add: q)
  then have "length (dropWhile (\<lambda>c. c \<noteq> CHR ''/'') q) < length q"
    using length_dropWhile_le [of "\<lambda>c. c \<noteq> CHR ''/''" r] by (simp add: q)
  moreover have "length q \<le> length p" unfolding q_def by (rule length_dropWhile_le)
  ultimately show ?thesis using qn by (simp add: n)
qed

text \<open>The result is the directory of the last component, and that component.\<close>

function descend_loop :: "os \<Rightarrow> int \<Rightarrow> owner \<Rightarrow> string \<Rightarrow> int \<Rightarrow> trace \<Rightarrow> int \<times> string \<times> trace" where
  "descend_loop os rootfd ow p cur tr =
     (let rc = fst (next_comp p); c = snd (snd (next_comp p)) in
      if 0 < rc then
        if no_more_components (fst (snd (next_comp p))) then (cur, c, tr)
        else
          let (fd, tr) = ensure_dir_component os cur c ow tr in
          if fd < 0 then (-1, [], release_parent os cur rootfd tr)
          else descend_loop os rootfd ow (fst (snd (next_comp p))) fd (release_parent os cur rootfd tr)
      else (-1, [], release_parent os cur rootfd tr))"
  by pat_completeness auto
termination
  by (relation "measure (\<lambda>(os, rootfd, ow, p, cur, tr). length p)") (auto dest: next_comp_shorter)

declare descend_loop.simps [simp del]

definition descend_components :: "os \<Rightarrow> int \<Rightarrow> string \<Rightarrow> owner \<Rightarrow> trace \<Rightarrow> int \<times> string \<times> trace" where
  "descend_components os rootfd rel ow tr = descend_loop os rootfd ow rel rootfd tr"

definition chown_leaf :: "os \<Rightarrow> int \<Rightarrow> string \<Rightarrow> u32 \<Rightarrow> u32 \<Rightarrow> trace \<Rightarrow> int \<times> trace" where
  "chown_leaf os parent leaf uid gid tr =
     (if uid = 0 \<and> gid = 0 then (0, tr)
      else
        let (a, tr) = sys os (Fchownat parent leaf uid gid) tr
        in (if a_ret a \<noteq> 0 then -1 else 0, tr))"

definition mkdir_leaf :: "os \<Rightarrow> int \<Rightarrow> string \<Rightarrow> owner \<Rightarrow> nat \<Rightarrow> trace \<Rightarrow> int \<times> trace" where
  "mkdir_leaf os parent leaf ow mode tr =
     (let (a, tr) = sys os (Mkdirat parent leaf mode) tr in
      if a_ret a \<noteq> 0 \<and> a_errno a \<noteq> EEXIST then (-1, tr)
      else chown_leaf os parent leaf (o_uid ow) (o_gid ow) tr)"

definition io_mkdir_own_at :: "os \<Rightarrow> int \<Rightarrow> string \<Rightarrow> u32 \<Rightarrow> u32 \<Rightarrow> nat \<Rightarrow> trace \<Rightarrow> int \<times> trace" where
  "io_mkdir_own_at os rootfd rel uid gid mode tr =
     (let ow = \<lparr>o_uid = uid, o_gid = gid\<rparr>; (parent, leaf, tr) = descend_components os rootfd rel ow tr in
      if parent < 0 then (-1, tr)
      else
        let (r, tr) = mkdir_leaf os parent leaf ow mode tr
        in (r, release_parent os parent rootfd tr))"

definition io_mkdir_parents_at :: "os \<Rightarrow> int \<Rightarrow> string \<Rightarrow> u32 \<Rightarrow> u32 \<Rightarrow> nat \<Rightarrow> trace \<Rightarrow> int \<times> trace" where
  "io_mkdir_parents_at os rootfd rel uid gid mode tr =
     (let parents = \<lparr>o_uid = 0, o_gid = 0\<rparr>; leaf_owner = \<lparr>o_uid = uid, o_gid = gid\<rparr>;
          (parent, leaf, tr) = descend_components os rootfd rel parents tr in
      if parent < 0 then (-1, tr)
      else
        let (r, tr) = mkdir_leaf os parent leaf leaf_owner mode tr
        in (r, release_parent os parent rootfd tr))"

text \<open>0644 is 420.\<close>

definition io_touch_at :: "os \<Rightarrow> int \<Rightarrow> string \<Rightarrow> u32 \<Rightarrow> u32 \<Rightarrow> trace \<Rightarrow> int \<times> trace" where
  "io_touch_at os rootfd rel uid gid tr =
     (let ow = \<lparr>o_uid = uid, o_gid = gid\<rparr>; (parent, leaf, tr) = descend_components os rootfd rel ow tr in
      if parent < 0 then (-1, tr)
      else
        let (a, tr) = sys os (Openat parent leaf AT_TOUCH_FLAGS 420) tr; fd = a_ret a in
        if fd < 0 then (-1, release_parent os parent rootfd tr)
        else
          let (_, tr) = sys os (Close fd) tr;
              (r, tr) = chown_leaf os parent leaf uid gid tr
          in (r, release_parent os parent rootfd tr))"

section \<open>Confinement\<close>

text \<open>
  The descriptors that are open after a trace, or \<open>None\<close> when the trace uses a descriptor
  that is not open, closes the root, follows a link, or names anything but a proper entry of
  the directory.
\<close>

definition entry_name :: "string \<Rightarrow> bool" where
  "entry_name n \<longleftrightarrow> n \<noteq> [] \<and> CHR ''/'' \<notin> set n \<and> n \<noteq> ''..'' \<and> length n < 256"

fun fd_step :: "int \<Rightarrow> int list \<Rightarrow> syscall \<times> answer \<Rightarrow> int list option" where
  "fd_step root F (Openat d n fl m, a) =
     (if d \<in> set F \<and> entry_name n \<and> no_follow fl
      then Some (if a_ret a < 0 then F else a_ret a # F) else None)"
| "fd_step root F (Mkdirat d n m, a) = (if d \<in> set F \<and> entry_name n then Some F else None)"
| "fd_step root F (Fstatat d n, a) = (if d \<in> set F \<and> entry_name n then Some F else None)"
| "fd_step root F (Fchownat d n u g, a) = (if d \<in> set F \<and> entry_name n then Some F else None)"
| "fd_step root F (Close d, a) = (if d \<in> set F \<and> d \<noteq> root then Some (remove1 d F) else None)"
| "fd_step root F _ = None"

fun fd_run :: "int \<Rightarrow> int list \<Rightarrow> trace \<Rightarrow> int list option" where
  "fd_run root F [] = Some F"
| "fd_run root F (e # tr) = (case fd_step root F e of None \<Rightarrow> None | Some F' \<Rightarrow> fd_run root F' tr)"

lemma fd_run_append: "fd_run root F a = Some G \<Longrightarrow> fd_run root F (a @ b) = fd_run root G b"
  by (induction a arbitrary: F) (auto split: option.splits)

text \<open>The descriptors held during a walk: the root, and the current directory when it is another.\<close>

definition held :: "int \<Rightarrow> int \<Rightarrow> int list" where
  "held root cur = (if cur = root then [root] else [cur, root])"

text \<open>\<open>fd_extends\<close>: what a piece of the code adds to the trace takes the open descriptors from one list to another.\<close>

definition fd_extends :: "int \<Rightarrow> int list \<Rightarrow> trace \<Rightarrow> int list \<Rightarrow> trace \<Rightarrow> bool" where
  "fd_extends root F tr G tr' \<longleftrightarrow> (\<exists>ext. tr' = tr @ ext \<and> fd_run root F ext = Some G)"

lemma fd_extends_refl [simp]: "fd_extends root F tr F tr"
  by (auto simp: fd_extends_def)

lemma fd_extends_trans: "fd_extends root F a G b \<Longrightarrow> fd_extends root G b H c \<Longrightarrow> fd_extends root F a H c"
  by (auto simp: fd_extends_def fd_run_append)

lemma fd_extends_step:
  "fd_step root F (c, os tr c) = Some G \<Longrightarrow> fd_extends root F tr G (tr @ [(c, os tr c)])"
  by (auto simp: fd_extends_def)

lemma held_mem [simp]: "cur \<in> set (held root cur)" "root \<in> set (held root cur)"
  by (simp_all add: held_def)

lemma flags_no_follow [simp]: "no_follow AT_DIR_FLAGS" "no_follow AT_TOUCH_FLAGS"
  by (simp_all add: no_follow_def AT_DIR_FLAGS_def AT_TOUCH_FLAGS_def)

text \<open>A new descriptor is not the root's, which is open.\<close>

definition fresh_fds :: "os \<Rightarrow> int \<Rightarrow> bool" where
  "fresh_fds os root \<longleftrightarrow> (\<forall>tr d n fl m. a_ret (os tr (Openat d n fl m)) \<noteq> root)"

lemma release_extends:
  "fd_extends root (held root cur) tr [root] (release_parent os cur root tr)"
  by (auto simp: release_parent_def held_def intro!: fd_extends_step)

lemma ensure_dir_extends:
  assumes "entry_name n" and "cur \<in> set F" and "ensure_dir_component os cur n ow tr = (fd, tr')"
  shows "fd_extends root F tr (if fd < 0 then F else fd # F) tr' \<and>
    (0 \<le> fd \<longrightarrow> (\<exists>t fl m. fd = a_ret (os t (Openat cur n fl m))))"
proof -
  note S = fd_extends_step [where root = root and F = F]
  have op: "fd_extends root F t (if fd < 0 then F else fd # F) t' \<and>
      (0 \<le> fd \<longrightarrow> (\<exists>t fl m. fd = a_ret (os t (Openat cur n fl m))))"
    if "open_component_nofollow os cur n t = (fd, t')" for t t'
    using that assms S [of "Openat cur n AT_DIR_FLAGS 0" os t]
    by (auto simp: open_component_nofollow_def sys_def Let_def)
  let ?st = "Fstatat cur n"
  let ?t1 = "tr @ [(?st, os tr ?st)]"
  have 1: "fd_extends root F tr F ?t1" by (rule S) (use assms in simp)
  have cr: "fd_extends root F t F (snd (create_dir_component os cur n ow t))" for t
  proof -
    let ?m = "Mkdirat cur n 493"
    let ?u = "t @ [(?m, os t ?m)]"
    let ?c = "Fchownat cur n (o_uid ow) (o_gid ow)"
    have a: "fd_extends root F t F ?u" by (rule S) (use assms in simp)
    have b: "fd_extends root F ?u F (?u @ [(?c, os ?u ?c)])" by (rule S) (use assms in simp)
    show ?thesis using a fd_extends_trans [OF a b]
      by (simp add: create_dir_component_def sys_def Let_def)
  qed
  show ?thesis
  proof (cases "a_ret (os tr ?st) = 0")
    case True
    then show ?thesis
      using assms(3) 1 op [of ?t1 tr'] fd_extends_trans [OF 1]
      by (auto simp: ensure_dir_component_def sys_def Let_def split: if_splits)
  next
    case False
    obtain r t2 where c: "create_dir_component os cur n ow ?t1 = (r, t2)"
      by (cases "create_dir_component os cur n ow ?t1")
    have 2: "fd_extends root F tr F t2" using fd_extends_trans [OF 1 cr [of ?t1]] c by simp
    show ?thesis
      using assms(3) False 2 op [of t2 tr'] fd_extends_trans [OF 2] c
      by (auto simp: ensure_dir_component_def sys_def Let_def split: if_splits)
  qed
qed

text \<open>Components of a path without \<open>..\<close> are entry names.\<close>

definition no_dotdot :: "string \<Rightarrow> bool" where
  "no_dotdot p \<longleftrightarrow> ''..'' \<notin> set (split_on (CHR ''/'') p)"

lemma split_skip: "set (split_on c (dropWhile (\<lambda>x. x = c) p)) \<subseteq> set (split_on c p)"
  by (induction p) auto

lemma next_comp_entry:
  assumes "0 < fst (next_comp p)" and "no_dotdot p"
  shows "entry_name (snd (snd (next_comp p)))" and "no_dotdot (fst (snd (next_comp p)))"
proof -
  define q where "q = dropWhile (\<lambda>c. c = CHR ''/'') p"
  let ?n = "takeWhile (\<lambda>c. c \<noteq> CHR ''/'') q" and ?r = "dropWhile (\<lambda>c. c \<noteq> CHR ''/'') q"
  have n: "next_comp p = (if q = [] then (0, q, []) else if 256 \<le> length ?n then (-1, ?r, []) else (1, ?r, ?n))"
    by (simp add: next_comp_def Let_def q_def)
  have qn: "q \<noteq> []" "length ?n < 256" using assms(1) by (auto simp: n split: if_splits)
  have hq: "hd q \<noteq> CHR ''/''" using hd_dropWhile [of "\<lambda>c. c = CHR ''/''" p] qn(1) unfolding q_def by blast
  have sp: "split_on (CHR ''/'') q = ?n # (case ?r of [] \<Rightarrow> [] | _ # rest \<Rightarrow> split_on (CHR ''/'') rest)"
    by (rule split_on_takeWhile)
  have qd: "''..'' \<notin> set (split_on (CHR ''/'') q)"
    using assms(2) split_skip [of "CHR ''/''" p] unfolding q_def no_dotdot_def by blast
  have "?n \<noteq> []" using qn(1) hq by (cases q) auto
  moreover have "CHR ''/'' \<notin> set ?n" by (auto dest: set_takeWhileD)
  moreover have "?n \<noteq> ''..''" using qd sp by auto
  ultimately show "entry_name (snd (snd (next_comp p)))" using qn by (simp add: n entry_name_def)
  show "no_dotdot (fst (snd (next_comp p)))"
  proof (cases ?r)
    case Nil
    then have "fst (snd (next_comp p)) = []" using qn by (simp add: n del: dropWhile_eq_Nil_conv)
    then show ?thesis by (simp add: no_dotdot_def)
  next
    case (Cons c rest)
    have "?r \<noteq> []" using Cons by simp
    then have "hd ?r = CHR ''/''" using hd_dropWhile [of "\<lambda>c. c \<noteq> CHR ''/''" q] by blast
    then have "c = CHR ''/''" using Cons by simp
    moreover have "''..'' \<notin> set (split_on (CHR ''/'') rest)" using qd sp Cons by auto
    ultimately show ?thesis using qn Cons by (simp add: n no_dotdot_def)
  qed
qed

lemma descend_extends:
  assumes "no_dotdot p" and "fresh_fds os root" and "0 \<le> root" and "0 \<le> cur"
    and "descend_loop os root ow p cur tr = (d, leaf, tr')"
  shows "(d < 0 \<longrightarrow> fd_extends root (held root cur) tr [root] tr') \<and>
    (0 \<le> d \<longrightarrow> entry_name leaf \<and> fd_extends root (held root cur) tr (held root d) tr')"
  using assms
proof (induction os root ow p cur tr rule: descend_loop.induct)
  case (1 os root ow p cur tr)
  let ?p' = "fst (snd (next_comp p))" and ?c = "snd (snd (next_comp p))"
  note R = release_extends [of root cur _ os]
  have u: "descend_loop os root ow p cur tr =
     (if 0 < fst (next_comp p) then
        if no_more_components ?p' then (cur, ?c, tr)
        else
          let (fd, tr) = ensure_dir_component os cur ?c ow tr in
          if fd < 0 then (-1, [], release_parent os cur root tr)
          else descend_loop os root ow ?p' fd (release_parent os cur root tr)
      else (-1, [], release_parent os cur root tr))"
    by (subst descend_loop.simps) (simp only: Let_def)
  consider (stop) "\<not> 0 < fst (next_comp p)" | (leaf) "0 < fst (next_comp p)" "no_more_components ?p'"
    | (down) "0 < fst (next_comp p)" "\<not> no_more_components ?p'" by blast
  then show ?case
  proof cases
    case stop
    then show ?thesis using "1.prems"(5) R [of tr] unfolding u by auto
  next
    case leaf
    then show ?thesis using "1.prems" next_comp_entry(1) [OF leaf(1) "1.prems"(1)] unfolding u by auto
  next
    case down
    note E = next_comp_entry [OF down(1) "1.prems"(1)]
    obtain fd t where f: "ensure_dir_component os cur ?c ow tr = (fd, t)"
      by (cases "ensure_dir_component os cur ?c ow tr")
    have e: "fd_extends root (held root cur) tr (if fd < 0 then held root cur else fd # held root cur) t"
      "0 \<le> fd \<longrightarrow> (\<exists>t fl m. fd = a_ret (os t (Openat cur ?c fl m)))"
      using ensure_dir_extends [OF E(1) held_mem(1) f] by blast+
    have r: "descend_loop os root ow p cur tr =
      (if fd < 0 then (-1, [], release_parent os cur root t)
       else descend_loop os root ow ?p' fd (release_parent os cur root t))"
      unfolding u using down f by simp
    show ?thesis
    proof (cases "fd < 0")
      case True
      then show ?thesis using "1.prems"(5) fd_extends_trans [OF _ R [of t]] e(1) unfolding r by auto
    next
      case False
      have nr: "fd \<noteq> root" using e(2) False "1.prems"(2) unfolding fresh_fds_def by (metis not_less)
      have "fd_extends root (fd # held root cur) t (held root fd) (release_parent os cur root t)"
        using nr by (auto simp: release_parent_def held_def intro!: fd_extends_step)
      then have x: "fd_extends root (held root cur) tr (held root fd) (release_parent os cur root t)"
        using e(1) False fd_extends_trans by auto
      have "(d < 0 \<longrightarrow> fd_extends root (held root fd) (release_parent os cur root t) [root] tr') \<and>
        (0 \<le> d \<longrightarrow> entry_name leaf \<and> fd_extends root (held root fd) (release_parent os cur root t) (held root d) tr')"
        using "1.IH" [OF refl refl down f [symmetric] refl False E(2)] "1.prems"(2,3) False "1.prems"(5) unfolding r by simp
      then show ?thesis using fd_extends_trans [OF x] by blast
    qed
  qed
qed

lemma leaf_extends:
  assumes "entry_name leaf" and "d \<in> set F"
  shows "fd_extends root F tr F (snd (chown_leaf os d leaf uid gid tr))"
    and "fd_extends root F tr F (snd (mkdir_leaf os d leaf ow mode tr))"
proof -
  note S = fd_extends_step [where root = root and F = F]
  show c: "fd_extends root F tr F (snd (chown_leaf os d leaf uid gid tr))" for uid gid tr
    using S [of "Fchownat d leaf uid gid" os tr] assms by (simp add: chown_leaf_def sys_def Let_def)
  show "fd_extends root F tr F (snd (mkdir_leaf os d leaf ow mode tr))"
    using S [of "Mkdirat d leaf mode" os tr] assms c fd_extends_trans
    by (auto simp: mkdir_leaf_def sys_def Let_def)
qed

lemma components_extend:
  assumes "no_dotdot rel" and "fresh_fds os root" and "0 \<le> root"
    and "descend_components os root rel ow tr = (d, leaf, t)"
  shows "(d < 0 \<longrightarrow> fd_extends root [root] tr [root] t) \<and>
    (0 \<le> d \<longrightarrow> entry_name leaf \<and> fd_extends root [root] tr (held root d) t)"
proof -
  have "held root root = [root]" by (simp add: held_def)
  then show ?thesis
    using descend_extends [OF assms(1-3) assms(3)] assms(4) unfolding descend_components_def by metis
qed

lemma mkdir_at_extends:
  assumes "no_dotdot rel" and "fresh_fds os root" and "0 \<le> root"
    and d: "descend_components os root rel ow tr = (d, leaf, t)"
  shows "fd_extends root [root] tr [root] (snd (if d < 0 then (-1, t) else
      let (r, t) = mkdir_leaf os d leaf ow' mode t in (r, release_parent os d root t)))"
proof (cases "d < 0")
  case False
  then have w: "entry_name leaf" "fd_extends root [root] tr (held root d) t"
    using components_extend [OF assms] by auto
  show ?thesis
    using False fd_extends_trans [OF fd_extends_trans [OF w(2) leaf_extends(2) [OF w(1) held_mem(1)]] release_extends]
    by (simp add: split_def Let_def)
qed (use components_extend [OF assms] in simp)

lemma mkdir_own_at_extends:
  assumes "no_dotdot rel" and "fresh_fds os root" and "0 \<le> root"
  shows "fd_extends root [root] tr [root] (snd (io_mkdir_own_at os root rel uid gid mode tr))"
proof (cases "descend_components os root rel \<lparr>o_uid = uid, o_gid = gid\<rparr> tr")
  case (fields d leaf t)
  show ?thesis using mkdir_at_extends [OF assms fields, where ow' = "\<lparr>o_uid = uid, o_gid = gid\<rparr>"]
    by (simp add: io_mkdir_own_at_def fields Let_def)
qed

lemma mkdir_parents_at_extends:
  assumes "no_dotdot rel" and "fresh_fds os root" and "0 \<le> root"
  shows "fd_extends root [root] tr [root] (snd (io_mkdir_parents_at os root rel uid gid mode tr))"
proof (cases "descend_components os root rel \<lparr>o_uid = 0, o_gid = 0\<rparr> tr")
  case (fields d leaf t)
  show ?thesis using mkdir_at_extends [OF assms fields, where ow' = "\<lparr>o_uid = uid, o_gid = gid\<rparr>"]
    by (simp add: io_mkdir_parents_at_def fields Let_def)
qed

lemma touch_at_extends:
  assumes "no_dotdot rel" and "fresh_fds os root" and "0 \<le> root"
  shows "fd_extends root [root] tr [root] (snd (io_touch_at os root rel uid gid tr))"
proof (cases "descend_components os root rel \<lparr>o_uid = uid, o_gid = gid\<rparr> tr")
  case (fields d leaf t)
  note walk = components_extend [OF assms fields]
  let ?c = "Openat d leaf AT_TOUCH_FLAGS 420"
  let ?fd = "a_ret (os t ?c)" and ?t1 = "t @ [(?c, os t ?c)]"
  show ?thesis
  proof (cases "d < 0")
    case True
    then show ?thesis using walk by (simp add: io_touch_at_def fields Let_def)
  next
    case False
    then have w: "entry_name leaf" "fd_extends root [root] tr (held root d) t" using walk by auto
    have nr: "?fd \<noteq> root" using assms(2) unfolding fresh_fds_def by blast
    have o1: "fd_extends root (held root d) t (if ?fd < 0 then held root d else ?fd # held root d) ?t1"
      by (rule fd_extends_step) (use w in simp)
    have cl: "fd_extends root (?fd # held root d) ?t1 (held root d) (?t1 @ [(Close ?fd, os ?t1 (Close ?fd))])"
      by (rule fd_extends_step) (use nr in simp)
    show ?thesis
    proof (cases "?fd < 0")
      case True
      then show ?thesis
        using False fd_extends_trans [OF fd_extends_trans [OF w(2) o1] ] release_extends
        by (simp add: io_touch_at_def fields Let_def sys_def)
    next
      case fd: False
      then have "fd_extends root [root] tr (held root d) (?t1 @ [(Close ?fd, os ?t1 (Close ?fd))])"
        using fd_extends_trans [OF fd_extends_trans [OF w(2) o1], of "held root d"] cl by simp
      from fd_extends_trans [OF fd_extends_trans [OF this leaf_extends(1) [OF w(1) held_mem(1)]] release_extends]
      show ?thesis using False fd by (simp add: io_touch_at_def fields Let_def sys_def split_def)
    qed
  qed
qed

text \<open>
  C19: the operations relative to a directory stay inside it.  For a path without a \<open>..\<close>
  component and a system that hands out descriptors other than the root's, whatever else it
  answers, \<open>io_mkdir_own_at\<close> and \<open>io_touch_at\<close> name single entries only, open them without following
  links, use only the root's descriptor and those they opened themselves, never close the
  root, and have closed everything else when they return.
\<close>

theorem at_operations_confined:
  assumes "no_dotdot rel" and "fresh_fds os root" and "0 \<le> root"
  shows "\<exists>e1 e2 e3. snd (io_mkdir_own_at os root rel uid gid mode tr) = tr @ e1 \<and> fd_run root [root] e1 = Some [root] \<and>
    snd (io_mkdir_parents_at os root rel uid gid mode tr) = tr @ e2 \<and> fd_run root [root] e2 = Some [root] \<and>
    snd (io_touch_at os root rel uid gid tr) = tr @ e3 \<and> fd_run root [root] e3 = Some [root]"
  using mkdir_own_at_extends [OF assms] mkdir_parents_at_extends [OF assms] touch_at_extends [OF assms]
  unfolding fd_extends_def by blast

lemma at_operations_confined_witness:
  "\<exists>e1 e2 e3. snd (io_mkdir_own_at (\<lambda>tr c. ret 7) 3 ''run/user/1000'' 1000 1000 448 []) = [] @ e1 \<and>
      fd_run 3 [3] e1 = Some [3] \<and>
    snd (io_mkdir_parents_at (\<lambda>tr c. ret 7) 3 ''run/user/1000'' 1000 1000 448 []) = [] @ e2 \<and>
      fd_run 3 [3] e2 = Some [3] \<and>
    snd (io_touch_at (\<lambda>tr c. ret 7) 3 ''run/user/1000'' 1000 1000 []) = [] @ e3 \<and> fd_run 3 [3] e3 = Some [3]"
  by (rule at_operations_confined) (simp_all add: no_dotdot_def fresh_fds_def)

end
