(* ===== verification/Args.thy ===== *)
theory Args
  imports Prelude
begin

text \<open>
  The command line: \<open>cli/args.c\<close> with the configuration record of \<open>cli/args.h\<close>.  The arrays of
  strings with their counters are lists, whose length is the counter.  \<open>getopt_long\<close> is modelled
  as the C library defines it for an option string that begins with \<open>+:\<close>: it stops at the first
  argument that is no option, reports a missing argument as \<open>:\<close> and prints nothing.  Its state
  is \<open>optind\<close> and the rest of the argument it is in the middle of.
\<close>

section \<open>The configuration\<close>

definition CAGE_MAX_ENVVARS :: nat where "CAGE_MAX_ENVVARS = 256"
definition CAGE_MAX_VOLUMES :: nat where "CAGE_MAX_VOLUMES = 256"
definition CAGE_MAX_CMD_ARGS :: nat where "CAGE_MAX_CMD_ARGS = 256"

record vol =
  v_host :: string
  v_target :: string

definition vol_zero :: vol where "vol_zero = \<lparr>v_host = [], v_target = []\<rparr>"

record cage_config =
  cf_appdir :: "string option"
  cf_unshare_cgroup :: bool
  cf_currentdir :: string
  cf_envvars :: "string list"
  cf_graphical :: bool
  cf_group :: "string option"
  cf_show_help :: bool
  cf_initscript :: "string option"
  cf_kill_mode :: bool
  cf_lowerdir :: string
  cf_unshare_net :: bool
  cf_name :: "string option"
  cf_pidfile :: "string option"
  cf_upperdir :: "string option"
  cf_user :: string
  cf_show_version :: bool
  cf_volumes :: "string list"
  cf_volumes_parsed :: "vol list"
  cf_workdir :: "string option"
  cf_has_dashdash :: bool
  cf_command :: "string list"

definition cage_config_init :: cage_config where
  "cage_config_init =
     \<lparr>cf_appdir = None, cf_unshare_cgroup = False, cf_currentdir = ''/'', cf_envvars = [], cf_graphical = False,
      cf_group = None, cf_show_help = False, cf_initscript = None, cf_kill_mode = False, cf_lowerdir = ''/'',
      cf_unshare_net = False, cf_name = None, cf_pidfile = None, cf_upperdir = None, cf_user = ''0'',
      cf_show_version = False, cf_volumes = [], cf_volumes_parsed = replicate CAGE_MAX_VOLUMES vol_zero,
      cf_workdir = None, cf_has_dashdash = False, cf_command = []\<rparr>"

section \<open>One option\<close>

text \<open>The \<open>handle_\<close> functions; the string is \<open>optarg\<close>.\<close>

type_synonym handler = "string \<Rightarrow> cage_config \<Rightarrow> int \<times> cage_config"

definition handle_a :: handler where "handle_a arg cfg = (0, cfg\<lparr>cf_appdir := Some arg\<rparr>)"
definition handle_C :: handler where "handle_C arg cfg = (0, cfg\<lparr>cf_unshare_cgroup := True\<rparr>)"
definition handle_c :: handler where "handle_c arg cfg = (0, cfg\<lparr>cf_currentdir := arg\<rparr>)"
definition handle_e :: handler where
  "handle_e arg cfg =
     (if CAGE_MAX_ENVVARS \<le> length (cf_envvars cfg) then (-1, cfg)
      else (0, cfg\<lparr>cf_envvars := cf_envvars cfg @ [arg]\<rparr>))"
definition handle_G :: handler where "handle_G arg cfg = (0, cfg\<lparr>cf_graphical := True\<rparr>)"
definition handle_g :: handler where "handle_g arg cfg = (0, cfg\<lparr>cf_group := Some arg\<rparr>)"
definition handle_i :: handler where "handle_i arg cfg = (0, cfg\<lparr>cf_initscript := Some arg\<rparr>)"
definition handle_k :: handler where "handle_k arg cfg = (0, cfg\<lparr>cf_kill_mode := True\<rparr>)"
definition handle_l :: handler where "handle_l arg cfg = (0, cfg\<lparr>cf_lowerdir := arg\<rparr>)"
definition handle_N :: handler where "handle_N arg cfg = (0, cfg\<lparr>cf_unshare_net := True\<rparr>)"
definition handle_n :: handler where
  "handle_n arg cfg =
     (if arg = [] \<or> strchr_pos CHR ''/'' arg \<noteq> None then (-1, cfg) else (0, cfg\<lparr>cf_name := Some arg\<rparr>))"
definition handle_p :: handler where "handle_p arg cfg = (0, cfg\<lparr>cf_pidfile := Some arg\<rparr>)"
definition handle_U :: handler where "handle_U arg cfg = (0, cfg\<lparr>cf_upperdir := Some arg\<rparr>)"
definition handle_u :: handler where "handle_u arg cfg = (0, cfg\<lparr>cf_user := arg\<rparr>)"
definition handle_v :: handler where
  "handle_v arg cfg =
     (if CAGE_MAX_VOLUMES \<le> length (cf_volumes cfg) then (-1, cfg)
      else (0, cfg\<lparr>cf_volumes := cf_volumes cfg @ [arg]\<rparr>))"
definition handle_w :: handler where "handle_w arg cfg = (0, cfg\<lparr>cf_workdir := Some arg\<rparr>)"

definition opt_handlers :: "(char \<times> handler) list" where
  "opt_handlers =
     [(CHR ''a'', handle_a), (CHR ''C'', handle_C), (CHR ''c'', handle_c), (CHR ''e'', handle_e),
      (CHR ''G'', handle_G), (CHR ''g'', handle_g), (CHR ''i'', handle_i), (CHR ''k'', handle_k),
      (CHR ''l'', handle_l), (CHR ''N'', handle_N), (CHR ''n'', handle_n), (CHR ''p'', handle_p),
      (CHR ''U'', handle_U), (CHR ''u'', handle_u), (CHR ''v'', handle_v), (CHR ''w'', handle_w)]"

definition handle_normal :: "char \<Rightarrow> handler" where
  "handle_normal opt arg cfg =
     (case map_of opt_handlers opt of None \<Rightarrow> (0, cfg) | Some fn \<Rightarrow> fn arg cfg)"

definition handle_opt :: "char \<Rightarrow> handler" where
  "handle_opt opt arg cfg =
     (if opt = CHR ''h'' then (0, cfg\<lparr>cf_show_help := True\<rparr>)
      else if opt = CHR ''V'' then (0, cfg\<lparr>cf_show_version := True\<rparr>)
      else if opt = CHR '':'' then (-1, cfg)
      else if opt = CHR ''?'' then (-1, cfg)
      else handle_normal opt arg cfg)"

section \<open>The option scanner of the C library\<close>

text \<open>The short options after \<open>+:\<close> and whether they take an argument; the long names of \<open>long_opts\<close>.\<close>

definition short_opts :: "(char \<times> bool) list" where
  "short_opts =
     [(CHR ''a'', True), (CHR ''C'', False), (CHR ''c'', True), (CHR ''e'', True), (CHR ''G'', False),
      (CHR ''g'', True), (CHR ''h'', False), (CHR ''i'', True), (CHR ''k'', False), (CHR ''l'', True),
      (CHR ''N'', False), (CHR ''n'', True), (CHR ''p'', True), (CHR ''U'', True), (CHR ''u'', True),
      (CHR ''V'', False), (CHR ''v'', True), (CHR ''w'', True)]"

definition long_opts :: "(string \<times> bool \<times> char) list" where
  "long_opts =
     [(''appdir'', True, CHR ''a''), (''cgroup'', False, CHR ''C''), (''cwd'', True, CHR ''c''),
      (''env'', True, CHR ''e''), (''gui'', False, CHR ''G''), (''group'', True, CHR ''g''),
      (''help'', False, CHR ''h''), (''init'', True, CHR ''i''), (''kill'', False, CHR ''k''),
      (''lower'', True, CHR ''l''), (''net'', False, CHR ''N''), (''name'', True, CHR ''n''),
      (''pidfile'', True, CHR ''p''), (''upper'', True, CHR ''U''), (''user'', True, CHR ''u''),
      (''version'', False, CHR ''V''), (''volume'', True, CHR ''v''), (''work'', True, CHR ''w'')]"

text \<open>
  The entry of a long name: an exact match, or the only entry it abbreviates (no two entries
  agree in their value, so two candidates are ambiguous).
\<close>

definition long_entry :: "string \<Rightarrow> (bool \<times> char) option" where
  "long_entry name =
     (case map_of long_opts name of
        Some e \<Rightarrow> Some e
      | None \<Rightarrow>
          (case filter (\<lambda>(n, _). starts_with name n) long_opts of
             [(_, e)] \<Rightarrow> Some e
           | _ \<Rightarrow> None))"

text \<open>
  One call: \<open>None\<close> stands for -1; otherwise the option character, \<open>optarg\<close> (empty when there is
  none) and the new state.  \<open>args\<close> is \<open>argv\<close>, \<open>i\<close> is \<open>optind\<close> and \<open>next\<close> the rest of the
  argument being scanned.  An argument is taken from the next element when the option does not
  carry it; when there is none the result is \<open>:\<close>.
\<close>

definition take_arg :: "string list \<Rightarrow> nat \<Rightarrow> char \<Rightarrow> char \<times> string \<times> nat \<times> string" where
  "take_arg args i c = (if i < length args then (c, args ! i, i + 1, []) else (CHR '':'', [], i, []))"

definition getopt_short :: "string list \<Rightarrow> nat \<Rightarrow> string \<Rightarrow> char \<times> string \<times> nat \<times> string" where
  "getopt_short args i next =
     (let c = next ! 0; rest = tl next; j = (if rest = [] then i + 1 else i) in
      case map_of short_opts c of
        None \<Rightarrow> (CHR ''?'', [], j, rest)
      | Some False \<Rightarrow> (c, [], j, rest)
      | Some True \<Rightarrow> if rest \<noteq> [] then (c, rest, i + 1, []) else take_arg args j c)"

definition getopt_long_name :: "string list \<Rightarrow> nat \<Rightarrow> string \<Rightarrow> char \<times> string \<times> nat \<times> string" where
  "getopt_long_name args i word =
     (let (name, val) = (case strchr_pos CHR ''='' word of
                           None \<Rightarrow> (word, None)
                         | Some k \<Rightarrow> (take k word, Some (drop (k + 1) word))) in
      case long_entry name of
        None \<Rightarrow> (CHR ''?'', [], i + 1, [])
      | Some (has_arg, c) \<Rightarrow>
          (case val of
             Some v \<Rightarrow> if has_arg then (c, v, i + 1, []) else (CHR ''?'', [], i + 1, [])
           | None \<Rightarrow> if has_arg then take_arg args (i + 1) c else (c, [], i + 1, [])))"

definition getopt_long ::
  "string list \<Rightarrow> nat \<Rightarrow> string \<Rightarrow> (char \<times> string) option \<times> nat \<times> string" where
  "getopt_long args i next =
     (if next \<noteq> [] then
        (case getopt_short args i next of (c, a, j, r) \<Rightarrow> (Some (c, a), j, r))
      else if i < length args \<and> args ! i = ''--'' then (None, i + 1, [])
      else if length args \<le> i then (None, i, [])
      else if args ! i = [] \<or> args ! i ! 0 \<noteq> CHR ''-'' \<or> length (args ! i) = 1 then (None, i, [])
      else if args ! i ! 1 = CHR ''-'' then
        (case getopt_long_name args i (drop 2 (args ! i)) of (c, a, j, r) \<Rightarrow> (Some (c, a), j, r))
      else (case getopt_short args i (tl (args ! i)) of (c, a, j, r) \<Rightarrow> (Some (c, a), j, r)))"

text \<open>What is left to scan, which every call that returns an option makes smaller.\<close>

definition scan_from :: "string list \<Rightarrow> nat \<Rightarrow> nat" where
  "scan_from args i = (\<Sum>a\<leftarrow>drop i args. length a + 1)"

definition to_scan :: "string list \<Rightarrow> nat \<Rightarrow> string \<Rightarrow> nat" where
  "to_scan args i next =
     (if next = [] then scan_from args i else length next + scan_from args (i + 1))"

lemma scan_from_Suc: "i < length args \<Longrightarrow> scan_from args i = length (args ! i) + 1 + scan_from args (Suc i)"
  by (simp add: scan_from_def flip: Cons_nth_drop_Suc)

lemma scan_from_le: "scan_from args (Suc i) \<le> scan_from args i"
  by (cases "i < length args") (simp_all add: scan_from_Suc, simp add: scan_from_def)

lemma take_arg_scan:
  "take_arg args i c = (r, a, j, rest) \<Longrightarrow> to_scan args j rest \<le> scan_from args i"
  using scan_from_le [of args i] by (auto simp: take_arg_def to_scan_def split: if_splits)

lemma getopt_short_scan:
  assumes "getopt_short args i next = (r, a, j, rest)" "next \<noteq> []"
  shows "to_scan args j rest < length next + scan_from args (i + 1)"
proof (cases "tl next = [] \<and> map_of short_opts (next ! 0) = Some True")
  case True
  then have "take_arg args (i + 1) (next ! 0) = (r, a, j, rest)"
    using assms by (simp add: getopt_short_def Let_def)
  then show ?thesis using take_arg_scan [of args "i + 1"] assms(2) by (metis add_0 add_less_mono1 length_greater_0_conv order_le_less_trans)
next
  case False
  then show ?thesis using assms
    by (cases "next") (auto simp: getopt_short_def Let_def to_scan_def split: option.splits if_splits bool.splits)
qed

lemma getopt_long_name_scan:
  "getopt_long_name args i word = (r, a, j, rest) \<Longrightarrow> to_scan args j rest \<le> scan_from args (i + 1)"
  by (auto simp: getopt_long_name_def Let_def to_scan_def [of _ _ "[]"] split: option.splits if_splits prod.splits
      dest!: take_arg_scan)

lemma getopt_long_scan:
  assumes "getopt_long args i next = (Some o', j, rest)"
  shows "to_scan args j rest < to_scan args i next"
proof (cases "next = []")
  case False
  then show ?thesis using assms getopt_short_scan [of args i "next"]
    by (auto simp: getopt_long_def to_scan_def split: prod.splits)
next
  case True
  then have i: "i < length args" and n: "2 \<le> length (args ! i)"
    using assms by (cases "args ! i"; cases "tl (args ! i)"; auto simp: getopt_long_def split: if_splits)+
  have s: "to_scan args i next = length (args ! i) + 1 + scan_from args (i + 1)"
    using True scan_from_Suc [OF i] by (simp add: to_scan_def)
  have t: "tl (args ! i) \<noteq> []" using n by (cases "args ! i") auto
  show ?thesis
  proof (cases "args ! i ! 1 = CHR ''-''")
    case True
    then obtain c a where "getopt_long_name args i (drop 2 (args ! i)) = (c, a, j, rest)"
      using assms \<open>next = []\<close> i by (auto simp: getopt_long_def split: if_splits prod.splits)
    then show ?thesis using getopt_long_name_scan s n by fastforce
  next
    case False
    then obtain c a where "getopt_short args i (tl (args ! i)) = (c, a, j, rest)"
      using assms \<open>next = []\<close> i by (auto simp: getopt_long_def split: if_splits prod.splits)
    then show ?thesis using getopt_short_scan [OF _ t] s n by fastforce
  qed
qed

section \<open>Parsing\<close>

definition collect_commands :: "string list \<Rightarrow> nat \<Rightarrow> cage_config \<Rightarrow> int \<times> cage_config" where
  "collect_commands argv start cfg =
     foldl (\<lambda>(r, cfg) arg.
              if r \<noteq> 0 then (r, cfg)
              else if CAGE_MAX_CMD_ARGS \<le> length (cf_command cfg) then (-1, cfg)
              else (0, cfg\<lparr>cf_command := cf_command cfg @ [arg]\<rparr>)) (0, cfg) (drop start argv)"

text \<open>The loop over the options: the result is its return value, \<open>optind\<close> and \<open>prev\<close>.\<close>

function parse_opts ::
  "string list \<Rightarrow> nat \<Rightarrow> string \<Rightarrow> nat \<Rightarrow> cage_config \<Rightarrow> (int \<times> cage_config) \<times> nat \<times> nat" where
  "parse_opts argv i next prev cfg =
     (case getopt_long argv i next of
        (None, j, _) \<Rightarrow> ((0, cfg), j, prev)
      | (Some (opt, arg), j, rest) \<Rightarrow>
          (case handle_opt opt arg cfg of
             (r, cfg) \<Rightarrow> if r \<noteq> 0 then ((r, cfg), j, j) else parse_opts argv j rest j cfg))"
  by pat_completeness auto
termination
  by (relation "measure (\<lambda>(argv, i, next, _). to_scan argv i next)") (auto dest!: getopt_long_scan [OF sym])

declare parse_opts.simps [simp del]

definition cage_parse_args :: "string list \<Rightarrow> cage_config \<Rightarrow> int \<times> cage_config" where
  "cage_parse_args argv cfg =
     (case parse_opts argv 1 [] 1 cfg of
        ((r, cfg), j, prev) \<Rightarrow>
          if r \<noteq> 0 then (r, cfg)
          else collect_commands argv j
            (cfg\<lparr>cf_has_dashdash := (1 \<le> prev \<and> prev < length argv \<and> j = prev + 1 \<and> argv ! prev = ''--'')\<rparr>))"

section \<open>Every spelling of an option\<close>

text \<open>
  The ways to write an option: \<open>-o arg\<close>, \<open>-oarg\<close>, \<open>--option arg\<close> and \<open>--option=arg\<close>; an option
  without argument has the first and the third.
\<close>

datatype spelling = Short | Attached | Long | Long_eq

definition name_of :: "char \<Rightarrow> string" where
  "name_of c = (case filter (\<lambda>(_, _, d). d = c) long_opts of (n, _) # _ \<Rightarrow> n | [] \<Rightarrow> [])"

definition takes_arg :: "char \<Rightarrow> bool" where
  "takes_arg c = (map_of short_opts c = Some True)"

fun spell :: "spelling \<times> char \<times> string \<Rightarrow> string list" where
  "spell (Short, c, arg) = [CHR ''-'', c] # (if takes_arg c then [arg] else [])"
| "spell (Attached, c, arg) = [CHR ''-'' # c # arg]"
| "spell (Long, c, arg) = (''--'' @ name_of c) # (if takes_arg c then [arg] else [])"
| "spell (Long_eq, c, arg) = [''--'' @ name_of c @ CHR ''='' # arg]"

fun spell_ok :: "spelling \<times> char \<times> string \<Rightarrow> bool" where
  "spell_ok (sp, c, arg) \<longleftrightarrow>
     (if takes_arg c then (if sp = Attached then arg \<noteq> [] else True)
      else c \<in> set (map fst short_opts) \<and> arg = [] \<and> sp \<in> {Short, Long})"

text \<open>What the options mean: the handlers one after the other, until one fails.\<close>

fun apply_opts :: "(spelling \<times> char \<times> string) list \<Rightarrow> cage_config \<Rightarrow> int \<times> cage_config" where
  "apply_opts [] cfg = (0, cfg)"
| "apply_opts ((_, c, arg) # os) cfg =
     (case handle_opt c arg cfg of (r, cfg) \<Rightarrow> if r \<noteq> 0 then (r, cfg) else apply_opts os cfg)"

text \<open>An element at which \<open>getopt_long\<close> stops.\<close>

definition no_option :: "string \<Rightarrow> bool" where
  "no_option a \<longleftrightarrow> a = [] \<or> a ! 0 \<noteq> CHR ''-'' \<or> length a = 1"

lemma opt_table_all:
  "list_all (\<lambda>(c, b). long_entry (name_of c) = Some (b, c) \<and> CHR ''='' \<notin> set (name_of c) \<and> name_of c \<noteq> [] \<and>
     c \<noteq> CHR ''-'') short_opts"
  by code_simp

lemma opt_table:
  assumes "map_of short_opts c = Some b"
  shows "long_entry (name_of c) = Some (b, c)" and "CHR ''='' \<notin> set (name_of c)" and "name_of c \<noteq> []"
    and "c \<noteq> CHR ''-''"
  using opt_table_all map_of_SomeD [OF assms] by (auto simp: list_all_iff)

lemma takes_arg_lookup: "takes_arg c \<Longrightarrow> map_of short_opts c = Some True"
  "\<not> takes_arg c \<Longrightarrow> c \<in> set (map fst short_opts) \<Longrightarrow> map_of short_opts c = Some False"
  by (auto simp: takes_arg_def short_opts_def split: if_splits)

lemma getopt_spelled:
  assumes "spell_ok (sp, c, arg)"
  shows "getopt_long (pre @ spell (sp, c, arg) @ rest) (length pre) [] =
    (Some (c, arg), length pre + length (spell (sp, c, arg)), [])"
proof -
  obtain b where b: "map_of short_opts c = Some b" "b = takes_arg c"
    using assms takes_arg_lookup by (cases "takes_arg c") auto
  note T = opt_table [OF b(1)]
  have n: "strchr_pos CHR ''='' (name_of c) = None" "strchr_pos CHR ''='' (name_of c @ CHR ''='' # arg) = Some (length (name_of c))"
    using T(2) by (simp_all add: cstr_simps)
  show ?thesis using assms b T n
    by (cases sp; cases "takes_arg c") (auto simp: getopt_long_def getopt_short_def getopt_long_name_def
        Let_def take_arg_def nth_append split: prod.splits)
qed

lemma spell_length: "spell o' \<noteq> []"
  by (cases o' rule: spell.cases) simp_all

lemma parse_opts_spelled:
  "list_all spell_ok os \<Longrightarrow>
   (fst (apply_opts os cfg) \<noteq> 0 \<longrightarrow>
      fst (parse_opts (pre @ concat (map spell os) @ rest) (length pre) [] (length pre) cfg) = apply_opts os cfg) \<and>
   (apply_opts os cfg = (0, cfg') \<longrightarrow>
      parse_opts (pre @ concat (map spell os) @ rest) (length pre) [] (length pre) cfg =
      parse_opts (pre @ concat (map spell os) @ rest) (length (pre @ concat (map spell os))) []
        (length (pre @ concat (map spell os))) cfg')"
proof (induction os arbitrary: pre cfg)
  case (Cons o' os)
  obtain sp c arg where o': "o' = (sp, c, arg)" by (cases o')
  let ?argv = "pre @ concat (map spell (o' # os)) @ rest"
  have ok: "spell_ok (sp, c, arg)" "list_all spell_ok os" using Cons.prems by (simp_all add: o' del: spell_ok.simps)
  have g: "getopt_long ?argv (length pre) [] = (Some (c, arg), length (pre @ spell o'), [])"
    using getopt_spelled [OF ok(1), of pre "concat (map spell os) @ rest"] by (simp add: o')
  obtain r cfg1 where h: "handle_opt c arg cfg = (r, cfg1)" by (cases "handle_opt c arg cfg")
  have p: "parse_opts ?argv (length pre) [] (length pre) cfg =
      (if r \<noteq> 0 then ((r, cfg1), length (pre @ spell o'), length (pre @ spell o'))
       else parse_opts ?argv (length (pre @ spell o')) [] (length (pre @ spell o')) cfg1)"
    by (subst parse_opts.simps) (simp only: g h prod.case option.case)
  have a: "apply_opts (o' # os) cfg = (if r \<noteq> 0 then (r, cfg1) else apply_opts os cfg1)"
    by (simp add: o' h)
  show ?case
  proof (cases "r = 0")
    case True
    then show ?thesis using Cons.IH [OF ok(2), of cfg1 "pre @ spell o'"] p a by simp
  qed (use p a in simp)
qed simp

text \<open>The handlers leave the command alone.\<close>

lemma handle_opt_command: "cf_command (snd (handle_opt c arg cfg)) = cf_command cfg"
  by (simp add: handle_opt_def handle_normal_def opt_handlers_def handle_a_def handle_C_def handle_c_def
      handle_e_def handle_G_def handle_g_def handle_i_def handle_k_def handle_l_def handle_N_def handle_n_def
      handle_p_def handle_U_def handle_u_def handle_v_def handle_w_def split: option.splits)

lemma apply_opts_command: "cf_command (snd (apply_opts os cfg)) = cf_command cfg"
  by (induction os cfg rule: apply_opts.induct)
    (auto split: prod.splits dest: arg_cong [where f = "\<lambda>x. cf_command (snd x)"] simp: handle_opt_command)

lemma collect_commands_all:
  assumes "length (cf_command cfg) \<le> CAGE_MAX_CMD_ARGS"
  shows "collect_commands (pre @ cmds) (length pre) cfg =
     (if length (cf_command cfg) + length cmds \<le> CAGE_MAX_CMD_ARGS then 0 else -1,
      cfg\<lparr>cf_command := cf_command cfg @ take (CAGE_MAX_CMD_ARGS - length (cf_command cfg)) cmds\<rparr>)"
proof -
  let ?f = "\<lambda>(r :: int, cfg) arg. if r \<noteq> 0 then (r, cfg)
      else if CAGE_MAX_CMD_ARGS \<le> length (cf_command cfg) then (-1, cfg)
      else (0, cfg\<lparr>cf_command := cf_command cfg @ [arg]\<rparr>)"
  have stuck: "r \<noteq> 0 \<Longrightarrow> foldl ?f (r, c) cs = (r, c)" for r c cs by (induction cs) simp_all
  have "length (cf_command cfg) \<le> CAGE_MAX_CMD_ARGS \<Longrightarrow> foldl ?f (0, cfg) cmds =
     (if length (cf_command cfg) + length cmds \<le> CAGE_MAX_CMD_ARGS then 0 else -1,
      cfg\<lparr>cf_command := cf_command cfg @ take (CAGE_MAX_CMD_ARGS - length (cf_command cfg)) cmds\<rparr>)" for cfg
  proof (induction cmds arbitrary: cfg)
    case (Cons a cmds)
    show ?case
    proof (cases "length (cf_command cfg) = CAGE_MAX_CMD_ARGS")
      case True
      then show ?thesis by (simp add: stuck)
    next
      case False
      then show ?thesis using Cons.prems Cons.IH [of "cfg\<lparr>cf_command := cf_command cfg @ [a]\<rparr>"]
        by (simp add: Suc_diff_Suc [symmetric] take_Cons')
    qed
  qed simp
  from this [OF assms] show ?thesis by (simp add: collect_commands_def)
qed

text \<open>
  C14: the command line means what its options say, in whatever way they are written.  For every
  list of options, each in any of the spellings \<open>-o arg\<close>, \<open>-oarg\<close>, \<open>--option arg\<close> and
  \<open>--option=arg\<close> and with any argument, also one that looks like an option, \<open>cage_parse_args\<close> fails
  exactly when one of the handlers fails, with the configuration reached there; otherwise it has applied
  them in order, has taken everything behind as the command, at most 256 words of it (a longer
  command fails), and has noted \<open>--\<close> exactly when it ended the options.
\<close>

theorem parse_args_any_spelling:
  assumes opts: "list_all spell_ok opts"
    and stop: "dd \<or> cmds = [] \<or> no_option (cmds ! 0)"
    and room: "length (cf_command cfg) \<le> CAGE_MAX_CMD_ARGS"
    and res: "apply_opts opts cfg = (r, cfg')"
  shows "cage_parse_args (prog # concat (map spell opts) @ (if dd then [''--''] else []) @ cmds) cfg =
    (if r \<noteq> 0 then (r, cfg')
     else (if length (cf_command cfg') + length cmds \<le> CAGE_MAX_CMD_ARGS then 0 else -1,
           cfg'\<lparr>cf_has_dashdash := dd,
                cf_command := cf_command cfg' @ take (CAGE_MAX_CMD_ARGS - length (cf_command cfg')) cmds\<rparr>))"
proof -
  let ?rest = "(if dd then [''--''] else []) @ cmds"
  let ?argv = "[prog] @ concat (map spell opts) @ ?rest" and ?i = "length ([prog] @ concat (map spell opts))"
  note P = parse_opts_spelled [OF opts, of cfg "[prog]" ?rest cfg']
  show ?thesis
  proof (cases "r = 0")
    case False
    then show ?thesis using P res by (auto simp: cage_parse_args_def split: prod.splits)
  next
    case True
    have g: "getopt_long ?argv ?i [] = (None, if dd then ?i + 1 else ?i, [])"
      using stop by (cases cmds) (auto simp: getopt_long_def nth_append no_option_def)
    have e: "parse_opts ?argv ?i [] ?i cfg' = ((0, cfg'), if dd then ?i + 1 else ?i, ?i)"
      by (subst parse_opts.simps) (simp only: g prod.case option.case)
    have p: "parse_opts ?argv 1 [] 1 cfg = ((0, cfg'), if dd then ?i + 1 else ?i, ?i)"
      unfolding e [symmetric] using P res True by simp
    have d: "(1 \<le> ?i \<and> ?i < length ?argv \<and> (if dd then ?i + 1 else ?i) = ?i + 1 \<and> ?argv ! ?i = ''--'') = dd"
      by (auto simp: nth_append)
    have c: "length (cf_command cfg') \<le> CAGE_MAX_CMD_ARGS"
      using room apply_opts_command [of opts cfg] res by simp
    note C = collect_commands_all [of "cfg'\<lparr>cf_has_dashdash := dd\<rparr>" "[prog] @ concat (map spell opts) @ (if dd then [''--''] else [])" cmds]
    show ?thesis using True p d C c by (cases dd) (simp_all add: cage_parse_args_def)
  qed
qed

lemma parse_args_any_spelling_witness:
  "fst (apply_opts [(Attached, CHR ''u'', ''1000''), (Long_eq, CHR ''e'', ''A=-v''), (Short, CHR ''n'', ''--'')] cage_config_init) = 0 \<and>
   (let cfg' = snd (apply_opts [(Attached, CHR ''u'', ''1000''), (Long_eq, CHR ''e'', ''A=-v''), (Short, CHR ''n'', ''--'')]
                     cage_config_init) in
    cf_user cfg' = ''1000'' \<and> cf_envvars cfg' = [''A=-v''] \<and> cf_name cfg' = Some ''--'' \<and>
    cage_parse_args [''cage'', ''-u1000'', ''--env=A=-v'', ''-n'', ''--'', ''--'', ''-x''] cage_config_init =
      (0, cfg'\<lparr>cf_has_dashdash := True, cf_command := [''-x'']\<rparr>))"
proof -
  let ?o = "[(Attached, CHR ''u'', ''1000''), (Long_eq, CHR ''e'', ''A=-v''), (Short, CHR ''n'', ''--'')]"
  let ?c = "cage_config_init\<lparr>cf_user := ''1000'', cf_envvars := [''A=-v''], cf_name := Some ''--''\<rparr>"
  have r: "apply_opts ?o cage_config_init = (0, ?c)"
    by (simp add: handle_opt_def handle_normal_def opt_handlers_def handle_u_def handle_e_def handle_n_def
        CAGE_MAX_ENVVARS_def cage_config_init_def)
  have s: "list_all spell_ok ?o" by (simp add: takes_arg_def short_opts_def)
  have "spell (Attached, CHR ''u'', ''1000'') = [''-u1000'']" "spell (Long_eq, CHR ''e'', ''A=-v'') = [''--env=A=-v'']"
      "spell (Short, CHR ''n'', ''--'') = [''-n'', ''--'']"
    by (simp_all add: takes_arg_def short_opts_def name_of_def long_opts_def)
  then show ?thesis
    using parse_args_any_spelling [OF s, of True "[''-x'']" cage_config_init 0 ?c "''cage''"] r
    by (simp add: Let_def CAGE_MAX_CMD_ARGS_def cage_config_init_def)
qed

end
