(* ===== verification/Vol.thy ===== *)
theory Vol
  imports Args IoCalls Mem
begin

text \<open>
  User volumes (\<^verbatim>\<open>src/sandbox/vol.c\<close>): the specification \<open>host:target\<close>, and binding the host path
  to the target inside the guest's root.  Both arrays of \<open>vol_t\<close> have 4096 bytes.
\<close>

section \<open>Specifications\<close>

definition set_target :: "vol \<Rightarrow> string \<Rightarrow> nat option \<Rightarrow> int \<times> vol" where
  "set_target v spec colon =
     (case colon of
        Some k \<Rightarrow>
          let target = drop (k + 1) spec in
          if target = [] \<or> 4096 \<le> length target then (-1, v) else (0, v\<lparr>v_target := target\<rparr>)
      | None \<Rightarrow> if 4096 \<le> length spec then (-1, v) else (0, v\<lparr>v_target := spec\<rparr>))"

definition parse_vol :: "string \<Rightarrow> int \<times> vol" where
  "parse_vol spec =
     (let colon = strchr_pos CHR '':'' spec;
          (r, v) = set_target vol_zero spec colon in
      if r \<noteq> 0 then (-1, v)
      else if mem_path_escapes (v_target v) then (-1, v)
      else
        let host_len = (case colon of Some k \<Rightarrow> k | None \<Rightarrow> length spec) in
        if host_len = 0 \<or> 4096 \<le> host_len then (-1, v) else (0, v\<lparr>v_host := take host_len spec\<rparr>))"

text \<open>The loop of \<open>prepare_volumes\<close> over the indices that are still to come.\<close>

fun prepare_from :: "nat list \<Rightarrow> cage_config \<Rightarrow> int \<times> cage_config" where
  "prepare_from [] cfg = (0, cfg)"
| "prepare_from (i # is) cfg =
     (let (r, v) = parse_vol (cf_volumes cfg ! i);
          cfg = cfg\<lparr>cf_volumes_parsed := (cf_volumes_parsed cfg)[i := v]\<rparr> in
      if r \<noteq> 0 then (-1, cfg) else prepare_from is cfg)"

definition prepare_volumes :: "cage_config \<Rightarrow> int \<times> cage_config" where
  "prepare_volumes cfg = prepare_from [0..<length (cf_volumes cfg)] cfg"

section \<open>Mounting\<close>

definition MS_NOSUID :: nat where "MS_NOSUID = 2"
definition MS_NODEV :: nat where "MS_NODEV = 4"
definition MS_NOEXEC :: nat where "MS_NOEXEC = 8"
definition MS_NOATIME :: nat where "MS_NOATIME = 1024"
definition MS_BIND :: nat where "MS_BIND = 4096"
definition MS_MOVE :: nat where "MS_MOVE = 8192"
definition MS_REC :: nat where "MS_REC = 16384"
definition MS_PRIVATE :: nat where "MS_PRIVATE = 262144"

definition ensure_host :: "os \<Rightarrow> string \<Rightarrow> pst \<Rightarrow> int \<times> pst" where
  "ensure_host os path s =
     (let (a, s) = psys os (Stat path) s in
      if a_ret a = 0 then (0, s) else io_mkdir_own os path 0 0 493 s)"

definition create_guest_dir :: "os \<Rightarrow> string \<Rightarrow> pst \<Rightarrow> int \<times> pst" where
  "create_guest_dir os guest s = io_mkdir os guest s"

definition create_guest_file :: "os \<Rightarrow> string \<Rightarrow> pst \<Rightarrow> int \<times> pst" where
  "create_guest_file os guest s =
     (let (r, s) = (case strrchr_pos CHR ''/'' guest of
                      Some p \<Rightarrow> if p \<noteq> 0 then io_mkdir_own os (take p guest) 0 0 493 s else (0, s)
                    | None \<Rightarrow> (0, s))
      in if r \<noteq> 0 then (-1, s) else io_touch os guest s)"

definition mount_bind_private :: "os \<Rightarrow> string \<Rightarrow> string \<Rightarrow> pst \<Rightarrow> int \<times> pst" where
  "mount_bind_private os src dst s =
     (let (a, s) = psys os (Ns (Mount (Some src) dst None (MS_BIND + MS_REC) None)) s in
      if a_ret a \<noteq> 0 then (-1, s)
      else
        let (a, s) = psys os (Ns (Mount None dst None MS_PRIVATE None)) s in
        if a_ret a \<noteq> 0 then (-1, s) else (0, s))"

definition create_guest :: "os \<Rightarrow> string \<Rightarrow> int \<Rightarrow> pst \<Rightarrow> int \<times> pst" where
  "create_guest os guest is_dir s =
     (if is_dir = 0 then create_guest_dir os guest s
      else if is_dir = 1 then create_guest_file os guest s else (-1, s))"

definition mount_user_volume :: "os \<Rightarrow> vol \<Rightarrow> string \<Rightarrow> pst \<Rightarrow> int \<times> pst" where
  "mount_user_volume os v root s =
     (let guest = mem_path root (v_target v);
          (r, s) = ensure_host os (v_host v) s in
      if r \<noteq> 0 then (-1, s)
      else
        let (d, s) = io_isdir os (v_host v) s; (r, s) = create_guest os guest d s in
        if r \<noteq> 0 then (-1, s)
        else
          let (r, s) = mount_bind_private os (v_host v) guest s in
          if r \<noteq> 0 then (-1, s) else (0, s))"

section \<open>What an accepted specification is\<close>

definition vol_ok :: "vol \<Rightarrow> bool" where
  "vol_ok v \<longleftrightarrow> v_host v \<noteq> [] \<and> length (v_host v) < 4096 \<and> v_target v \<noteq> [] \<and> length (v_target v) < 4096 \<and>
     \<not> mem_path_escapes (v_target v)"

lemma parse_vol_ok:
  assumes "parse_vol spec = (0, v)"
  shows "vol_ok v \<and> (spec = v_host v @ CHR '':'' # v_target v \<or> (spec = v_host v \<and> v_target v = spec))"
proof (cases "strchr_pos CHR '':'' spec")
  case None
  then show ?thesis using assms
    by (auto simp: parse_vol_def set_target_def vol_ok_def vol_zero_def Let_def split: if_splits)
next
  case (Some k)
  then have "spec = take k spec @ CHR '':'' # drop (Suc k) spec"
    using strchr_pos_Some [OF Some] id_take_nth_drop [of k spec] by simp
  moreover have "v = \<lparr>v_host = take k spec, v_target = drop (Suc k) spec\<rparr> \<and> vol_ok v"
    using assms Some strchr_pos_Some [OF Some]
    by (auto simp: parse_vol_def set_target_def vol_ok_def vol_zero_def Let_def split: if_splits)
  ultimately show ?thesis by (metis vol.select_convs)
qed

lemma prepare_from_ok:
  assumes "prepare_from is cfg = (0, cfg')"
  shows "cf_volumes cfg' = cf_volumes cfg \<and> length (cf_volumes_parsed cfg') = length (cf_volumes_parsed cfg) \<and>
    (\<forall>i < length (cf_volumes_parsed cfg).
       (i \<in> set is \<longrightarrow> parse_vol (cf_volumes cfg ! i) = (0, cf_volumes_parsed cfg' ! i)) \<and>
       (i \<notin> set is \<longrightarrow> cf_volumes_parsed cfg' ! i = cf_volumes_parsed cfg ! i))"
  using assms
proof (induction "is" arbitrary: cfg)
  case (Cons i js)
  obtain r v where v: "parse_vol (cf_volumes cfg ! i) = (r, v)" by (cases "parse_vol (cf_volumes cfg ! i)")
  let ?cfg = "cfg\<lparr>cf_volumes_parsed := (cf_volumes_parsed cfg)[i := v]\<rparr>"
  have r: "r = 0" and p: "prepare_from js ?cfg = (0, cfg')"
    using Cons.prems v by (simp_all add: Let_def split: if_splits)
  note H = Cons.IH [OF p, simplified]
  show ?case
  proof (intro conjI allI impI)
    fix j
    assume j: "j < length (cf_volumes_parsed cfg)" "j \<in> set (i # js)"
    then show "parse_vol (cf_volumes cfg ! j) = (0, cf_volumes_parsed cfg' ! j)"
      using H v r by (cases "j \<in> set js") auto
  next
    fix j
    assume "j < length (cf_volumes_parsed cfg)" "j \<notin> set (i # js)"
    then show "cf_volumes_parsed cfg' ! j = cf_volumes_parsed cfg ! j" using H by auto
  qed (use H in auto)
qed simp

lemma prepare_volumes_ok:
  assumes "prepare_volumes cfg = (0, cfg')" "length (cf_volumes cfg) \<le> length (cf_volumes_parsed cfg)"
  shows "cf_volumes cfg' = cf_volumes cfg \<and> length (cf_volumes_parsed cfg') = length (cf_volumes_parsed cfg) \<and>
    (\<forall>i < length (cf_volumes cfg'). parse_vol (cf_volumes cfg ! i) = (0, cf_volumes_parsed cfg' ! i))"
  using prepare_from_ok [OF assms(1) [unfolded prepare_volumes_def]] assms(2) by auto

end
