(* ===== verification/Files.thy ===== *)
theory Files
  imports IoFs IoRead Bytes
begin

text \<open>
  Files that a component reads whole, as a parameter: what a path holds after a trace, with the
  schedule of the reads.  The reading itself is \<open>io_read_cap\<close> of the component on whole-file reads.
\<close>

type_synonym files = "trace \<Rightarrow> string \<Rightarrow> byte list option \<times> sched"

definition read_at :: "files \<Rightarrow> string \<Rightarrow> nat \<Rightarrow> pst \<Rightarrow> int \<times> byte buf" where
  "read_at files path cap s = (case files (fst s) path of (f, sc) \<Rightarrow> io_read_cap f sc BUF_INIT cap)"

text \<open>The contents of a buffer as a C string: up to the first NUL.\<close>

definition buf_str :: "byte buf \<Rightarrow> string" where
  "buf_str b = cstr_at (bdata b) 0"

text \<open>A file whose reads do not fail is read whole, if it fits the cap.\<close>

lemma read_at_all:
  assumes "files (fst s) path = (Some f, sc)" "\<forall>i. sc i \<noteq> None" "cap = 0 \<or> length f \<le> cap"
  shows "fst (read_at files path cap s) = 0 \<and> buf_str (snd (read_at files path cap s)) = cstr_at f 0"
  using read_loop_all [of sc cap BUF_INIT f 0] assms
  by (auto simp: read_at_def io_read_cap_def read_file_def buf_terminate_def buf_str_def Let_def split_def)

lemma cstr_at_map: "char_of (0 :: nat) \<notin> set s \<Longrightarrow> cstr_at (map byte_of s) 0 = s"
  by (induction s) (auto simp: cstr_at_def)

end
