(* ===== verification/Cgroup.thy ===== *)
theory Cgroup
  imports Vol Files Dec
begin

text \<open>
  The control-group files (\<^verbatim>\<open>src/sandbox/cgroup.c\<close>) and mounting the hierarchies
  (\<^verbatim>\<open>src/sandbox/cg_mount.c\<close>).
\<close>

definition CGROUP_MAX_CTRL :: nat where "CGROUP_MAX_CTRL = 32"

section \<open>Rows of \<^verbatim>\<open>/proc/cgroups\<close>\<close>

definition advance_line :: "string \<Rightarrow> string" where
  "advance_line p = (case strchr_pos (CHR 0x0A) p of Some k \<Rightarrow> drop (k + 1) p | None \<Rightarrow> [])"

lemma advance_line_shorter: "p \<noteq> [] \<Longrightarrow> length (advance_line p) < length p"
  by (auto simp: advance_line_def split: option.splits)

text \<open>
  The loop; the names found so far fill the caller's array of 32, and \<open>None\<close> is the store past
  its end that one more name makes.
\<close>

function cgroup_rows :: "string \<Rightarrow> string list \<Rightarrow> string list option" where
  "cgroup_rows p names =
     (if p = [] then Some names
      else
        (case (if p ! 0 \<noteq> CHR ''#'' then strchr_pos (CHR 0x09) p else None) of
           None \<Rightarrow> cgroup_rows (advance_line p) names
         | Some l \<Rightarrow>
             if CGROUP_MAX_CTRL \<le> length names then None
             else cgroup_rows (advance_line p) (names @ [take (if 63 < l then 63 else l) p])))"
  by pat_completeness auto
termination by (relation "measure (\<lambda>(p, _). length p)") (auto simp: advance_line_shorter)

declare cgroup_rows.simps [simp del]

definition read_proc_cgroups :: "files \<Rightarrow> pst \<Rightarrow> (int \<times> string list) option" where
  "read_proc_cgroups files s =
     (let (r, b) = read_at files ''/proc/cgroups'' 0 s in
      if r \<noteq> 0 then Some (-1, [])
      else map_option (\<lambda>ns. (int (length ns), ns)) (cgroup_rows (buf_str b) []))"

section \<open>Enabling controllers\<close>

text \<open>\<open>build_subtree_value\<close>: \<open>len\<close> characters of \<open>in\<close>; the result is the text before the NUL.\<close>

definition build_subtree_value :: "string \<Rightarrow> nat \<Rightarrow> nat \<Rightarrow> string option" where
  "build_subtree_value inp len cap =
     (if len = 0 \<or> cap < 2 * len + 2 then None
      else Some (foldl (\<lambda>out c. out @ (if c = CHR '' '' then '' +'' else [c])) ''+'' (take len inp)))"

section \<open>Mounting\<close>

definition ensure_dir_cg :: "os \<Rightarrow> string \<Rightarrow> pst \<Rightarrow> int \<times> pst" where
  "ensure_dir_cg os path s =
     (let (e, s) = io_exists_at os path s in
      if e < 0 then (-1, s) else if e = 1 then io_mkdir os path s else (0, s))"

definition CG_FLAGS :: nat where "CG_FLAGS = MS_NOSUID + MS_NOEXEC + MS_NODEV"

definition mount_cgroup_v2 :: "os \<Rightarrow> string \<Rightarrow> pst \<Rightarrow> int \<times> pst" where
  "mount_cgroup_v2 os root s =
     (let cg = mem_path root ''sys/fs/cgroup'';
          (r, s) = ensure_dir_cg os cg s in
      if r \<noteq> 0 then (-1, s)
      else
        let (a, s) = psys os (Ns (Mount (Some ''cgroup2'') cg (Some ''cgroup2'') CG_FLAGS (Some ''nsdelegate''))) s in
        if a_ret a \<noteq> 0 then (-1, s) else (0, s))"

definition mount_one_v1 :: "os \<Rightarrow> string \<Rightarrow> string \<Rightarrow> pst \<Rightarrow> int \<times> pst" where
  "mount_one_v1 os p name s =
     (let (r, s) = io_mkdir os p s in
      if r \<noteq> 0 then (-1, s)
      else
        let (a, s) = psys os (Ns (Mount (Some ''cgroup'') p (Some ''cgroup'') CG_FLAGS (Some name))) s in
        if a_ret a \<noteq> 0 then (-1, s) else (0, s))"

definition mount_cgroup_tmpfs :: "os \<Rightarrow> string \<Rightarrow> pst \<Rightarrow> int \<times> pst" where
  "mount_cgroup_tmpfs os cg s =
     (let (r, s) = io_mkdir os cg s in
      if r \<noteq> 0 then (-1, s)
      else
        let (a, s) = psys os (Ns (Mount (Some ''tmpfs'') cg (Some ''tmpfs'') CG_FLAGS None)) s in
        if a_ret a \<noteq> 0 then (-1, s) else (0, s))"

definition mount_one_cgroup_v1 :: "os \<Rightarrow> string \<Rightarrow> string \<Rightarrow> pst \<Rightarrow> int \<times> pst" where
  "mount_one_cgroup_v1 os cg ctrl s = mount_one_v1 os (mem_path cg ctrl) ctrl s"

fun mount_controllers :: "os \<Rightarrow> string \<Rightarrow> string list \<Rightarrow> pst \<Rightarrow> int \<times> pst" where
  "mount_controllers os cg [] s = (0, s)"
| "mount_controllers os cg (c # cs) s =
     (let (r, s) = mount_one_cgroup_v1 os cg c s in
      if r \<noteq> 0 then (-1, s) else mount_controllers os cg cs s)"

definition mount_cgroup_v1 :: "os \<Rightarrow> files \<Rightarrow> string \<Rightarrow> pst \<Rightarrow> (int \<times> pst) option" where
  "mount_cgroup_v1 os files root s =
     (let cg = mem_path root ''sys/fs/cgroup'';
          (r, s) = mount_cgroup_tmpfs os cg s in
      if r \<noteq> 0 then Some (-1, s)
      else
        (case read_proc_cgroups files s of
           None \<Rightarrow> None
         | Some (count, ctrls) \<Rightarrow> if count < 0 then Some (-1, s) else Some (mount_controllers os cg ctrls s)))"

definition mount_cgroups :: "os \<Rightarrow> files \<Rightarrow> string \<Rightarrow> int \<Rightarrow> pst \<Rightarrow> (int \<times> pst) option" where
  "mount_cgroups os files root has_cgroup s =
     (if has_cgroup = -2 then Some (0, s)
      else if has_cgroup \<ge> 2 then Some (mount_cgroup_v2 os root s)
      else if has_cgroup = 1 then mount_cgroup_v1 os files root s
      else Some (-1, s))"

end
