(* ===== verification/Setup.thy ===== *)
theory Setup
  imports Cgroup
begin

text \<open>
  The files the guest needs besides the mounts (\<^verbatim>\<open>src/sandbox/setup.c\<close>): name resolution, the
  directories of \<^verbatim>\<open>/run\<close> and shared memory.  The path that \<open>mkstemp\<close> and \<open>realpath\<close> give back is
  the first name of the answer.  Memory for \<open>strdup\<close> is available.
\<close>

definition RESOLV_MAX :: nat where "RESOLV_MAX = 64 * 1024"

section \<open>Name servers\<close>

text \<open>A pointer into the text is the suffix it points to, \<open>n\<close> the length of the value there.\<close>

definition val_is_local_ip4 :: "string \<Rightarrow> nat \<Rightarrow> bool" where
  "val_is_local_ip4 v n \<longleftrightarrow> 4 \<le> n \<and> starts_with ''127.'' v"

definition val_is_local_ip6 :: "string \<Rightarrow> nat \<Rightarrow> bool" where
  "val_is_local_ip6 v n \<longleftrightarrow> 3 \<le> n \<and> starts_with ''::1'' v"

definition val_is_localhost_name :: "string \<Rightarrow> nat \<Rightarrow> bool" where
  "val_is_localhost_name v n \<longleftrightarrow> 9 \<le> n \<and> starts_with ''localhost'' v"

definition val_is_empty :: "string \<Rightarrow> nat \<Rightarrow> bool" where
  "val_is_empty v n \<longleftrightarrow> list_all (\<lambda>c. c = CHR '' '' \<or> c = CHR 0x09) (take n v)"

definition val_is_localhost :: "string \<Rightarrow> nat \<Rightarrow> bool" where
  "val_is_localhost v n \<longleftrightarrow>
     val_is_local_ip4 v n \<or> val_is_local_ip6 v n \<or> val_is_localhost_name v n \<or> val_is_empty v n"

definition line_is_localhost_ns :: "string \<Rightarrow> nat \<Rightarrow> bool" where
  "line_is_localhost_ns p len \<longleftrightarrow>
     \<not> (len < 11 \<or> \<not> starts_with ''nameserver '' p) \<and> val_is_localhost (drop 11 p) (len - 11)"

definition line_has_real_ns :: "string \<Rightarrow> nat \<Rightarrow> bool" where
  "line_has_real_ns p len \<longleftrightarrow> 11 \<le> len \<and> starts_with ''nameserver '' p \<and> \<not> line_is_localhost_ns p len"

function has_real_ns_in_content :: "string \<Rightarrow> bool" where
  "has_real_ns_in_content p =
     (if p = [] then False
      else
        let nl = strchr_pos (CHR 0x0A) p;
            len = (case nl of Some k \<Rightarrow> k | None \<Rightarrow> length p) in
        if line_has_real_ns p len then True
        else (case nl of None \<Rightarrow> False | Some k \<Rightarrow> has_real_ns_in_content (drop (k + 1) p)))"
  by pat_completeness auto
termination by (relation "measure length") auto

declare has_real_ns_in_content.simps [simp del]

definition needs_default_dns :: "files \<Rightarrow> pst \<Rightarrow> bool" where
  "needs_default_dns files s =
     (let (r, b) = read_at files ''/etc/resolv.conf'' RESOLV_MAX s in
      if r \<noteq> 0 then True else \<not> has_real_ns_in_content (buf_str b))"

definition DEFAULT_DNS :: string where
  "DEFAULT_DNS = ''nameserver 8.8.8.8'' @ [CHR 0x0A] @ ''nameserver 1.1.1.1'' @ [CHR 0x0A]"

definition setup_resolv_write_dns :: "os \<Rightarrow> int \<Rightarrow> pst \<Rightarrow> int \<times> pst" where
  "setup_resolv_write_dns os fd s =
     (let (a, s) = psys os (Write fd DEFAULT_DNS) s in
      (if a_ret a = int (length DEFAULT_DNS) then 0 else -1, s))"

text \<open>0644 is 420.\<close>

definition setup_resolv_file_bind :: "os \<Rightarrow> string \<Rightarrow> pst \<Rightarrow> int \<times> pst" where
  "setup_resolv_file_bind os target s =
     (let (m, s) = psys os (Ns (Mkstemp ''/tmp/cage-dns-XXXXXX'')) s; fd = a_ret m; tmp = a_path m in
      if fd < 0 then (-1, s)
      else
        let (c, s) = psys os (Ns (Fchmod fd 420)) s;
            (w, s) = (if a_ret c = 0 then setup_resolv_write_dns os fd s else (-1, s));
            (x, s) = psys os (Close fd) s in
        if w \<noteq> 0 \<or> a_ret x \<noteq> 0 then let (_, s) = psys os (Unlink tmp) s in (-1, s)
        else
          let (a, s) = psys os (Ns (Mount (Some tmp) target None MS_BIND None)) s;
              (_, s) = psys os (Unlink tmp) s
          in (if a_ret a \<noteq> 0 then -1 else 0, s))"

definition setup_resolv_bind :: "os \<Rightarrow> string \<Rightarrow> pst \<Rightarrow> int \<times> pst" where
  "setup_resolv_bind os path s =
     (let (p, s) = psys os (Ns (Realpath ''/etc/resolv.conf'')) s in
      if a_ret p \<noteq> 0 then (-1, s)
      else
        let (r, s) = io_touch os path s in
        if r \<noteq> 0 then (-1, s)
        else
          let (a, s) = psys os (Ns (Mount (Some (a_path p)) path None MS_BIND None)) s in
          if a_ret a \<noteq> 0 then (-1, s) else (0, s))"

definition handle_nonreg_resolv :: "os \<Rightarrow> string \<Rightarrow> pst \<Rightarrow> int \<times> pst" where
  "handle_nonreg_resolv os resolv s =
     (let (r, s) = io_unlink os resolv s in
      if r \<noteq> 0 then (-1, s)
      else let (r, s) = io_touch os resolv s in if r \<noteq> 0 then (-1, s) else (1, s))"

definition resolv_has_content :: "files \<Rightarrow> string \<Rightarrow> pst \<Rightarrow> int" where
  "resolv_has_content files resolv s =
     (let (r, b) = read_at files resolv RESOLV_MAX s in
      if r \<noteq> 0 then -1 else if has_real_ns_in_content (buf_str b) then 1 else 0)"

definition resolv_existing_regular :: "files \<Rightarrow> string \<Rightarrow> stat \<Rightarrow> cage_config \<Rightarrow> pst \<Rightarrow> int" where
  "resolv_existing_regular files resolv st cfg s =
     (if st_size st = 0 then 1
      else if \<not> cf_unshare_net cfg then 0
      else let has = resolv_has_content files resolv s in if has < 0 then -1 else if has > 0 then 0 else 1)"

definition create_resolv_file :: "os \<Rightarrow> string \<Rightarrow> pst \<Rightarrow> int \<times> pst" where
  "create_resolv_file os resolv s =
     (let (bad, s) =
        (case strrchr_pos CHR ''/'' resolv of
           None \<Rightarrow> (False, s)
         | Some k \<Rightarrow>
             let (e, s) = io_exists_at os (take k resolv) s in
             if e = 1 then let (r, s) = io_mkdir os (take k resolv) s in (r \<noteq> 0, s) else (False, s)) in
      if bad then (-1, s)
      else let (r, s) = io_touch os resolv s in (if r \<noteq> 0 then -1 else 1, s))"

definition check_or_create_resolv :: "os \<Rightarrow> files \<Rightarrow> string \<Rightarrow> cage_config \<Rightarrow> pst \<Rightarrow> int \<times> pst" where
  "check_or_create_resolv os files resolv cfg s =
     (let (a, s) = psys os (Lstat resolv) s in
      if a_ret a \<noteq> 0 then (if a_errno a = ENOENT then create_resolv_file os resolv s else (-1, s))
      else if \<not> S_ISREG (st_mode (a_stat a)) then handle_nonreg_resolv os resolv s
      else (resolv_existing_regular files resolv (a_stat a) cfg s, s))"

definition do_resolv_replace :: "os \<Rightarrow> files \<Rightarrow> string \<Rightarrow> cage_config \<Rightarrow> pst \<Rightarrow> int \<times> pst" where
  "do_resolv_replace os files resolv cfg s =
     (if cf_unshare_net cfg \<and> needs_default_dns files s then setup_resolv_file_bind os resolv s
      else setup_resolv_bind os resolv s)"

definition setup_resolv :: "os \<Rightarrow> files \<Rightarrow> string \<Rightarrow> cage_config \<Rightarrow> pst \<Rightarrow> int \<times> pst" where
  "setup_resolv os files root cfg s =
     (let resolv = mem_path root ''etc/resolv.conf'';
          (r, s) = check_or_create_resolv os files resolv cfg s in
      if r < 0 then (-1, s) else if r = 0 then (0, s) else do_resolv_replace os files resolv cfg s)"

section \<open>Run directories and shared memory\<close>

definition setup_run_dirs :: "os \<Rightarrow> string \<Rightarrow> pst \<Rightarrow> int \<times> pst" where
  "setup_run_dirs os root s =
     (let (r, s) = io_mkdtmp os (mem_path root ''run/lock'') True s in
      if r \<noteq> 0 then (-1, s) else io_mkdtmp os (mem_path root ''run/user'') False s)"

definition setup_devshm_symlink :: "os \<Rightarrow> string \<Rightarrow> pst \<Rightarrow> int \<times> pst" where
  "setup_devshm_symlink os root s =
     (let (r, s) = io_symlink os ''/dev/shm'' (mem_path root ''run/shm'') s in
      if r \<noteq> 0 then (-1, s)
      else
        let ds = mem_path root ''dev/shm''; (r, s) = io_mkdir os ds s in
        if r \<noteq> 0 then (-1, s)
        else
          let (a, s) = psys os (Ns (Mount (Some ''tmpfs'') ds (Some ''tmpfs'') 0 None)) s in
          if a_ret a \<noteq> 0 then (-1, s) else (0, s))"

definition setup_devshm_dir :: "os \<Rightarrow> string \<Rightarrow> pst \<Rightarrow> int \<times> pst" where
  "setup_devshm_dir os root s =
     (let (r, s) = io_mkdtmp os (mem_path root ''run/shm'') True s in if r \<noteq> 0 then (-1, s) else (0, s))"

definition setup_devshm :: "os \<Rightarrow> string \<Rightarrow> pst \<Rightarrow> int \<times> pst" where
  "setup_devshm os root s =
     (let (r, s) = io_islink os ''/dev/shm'' s in
      if r < 0 then (-1, s)
      else if r = 0 then setup_devshm_dir os root s else setup_devshm_symlink os root s)"

definition mount_misc :: "os \<Rightarrow> files \<Rightarrow> string \<Rightarrow> cage_config \<Rightarrow> pst \<Rightarrow> int \<times> pst" where
  "mount_misc os files root cfg s =
     (let (r, s) = setup_resolv os files root cfg s in
      if r \<noteq> 0 then (-1, s)
      else
        let (r, s) = setup_run_dirs os root s in
        if r \<noteq> 0 then (-1, s)
        else let (r, s) = setup_devshm os root s in if r \<noteq> 0 then (-1, s) else (0, s))"

end
