(* ===== verification/Mounts.thy ===== *)
theory Mounts
  imports Setup
begin

text \<open>
  Everything mounted into the guest's root (\<^verbatim>\<open>src/sandbox/mount.c\<close>): the virtual file systems, the
  devices, temporary file systems, control groups, the files of \<^verbatim>\<open>src/sandbox/setup.c\<close> and, last, the
  user's volumes.
\<close>

fun strip_trailing_slash :: "string \<Rightarrow> string" where
  "strip_trailing_slash p = (if 1 < length p \<and> last p = CHR ''/'' then strip_trailing_slash (butlast p) else p)"

declare strip_trailing_slash.simps [simp del]

definition ensure_dir :: "os \<Rightarrow> string \<Rightarrow> pst \<Rightarrow> int \<times> pst" where
  "ensure_dir os path s =
     (let (e, s) = io_exists_at os path s in
      if e = 1 then io_mkdir os path s
      else if e \<noteq> 0 then (-1, s)
      else let (d, s) = io_isdir os path s in if d \<noteq> 0 then (-1, s) else (0, s))"

definition mount_bind :: "os \<Rightarrow> string \<Rightarrow> string \<Rightarrow> string \<Rightarrow> pst \<Rightarrow> int \<times> pst" where
  "mount_bind os root sub src s =
     (let p = mem_path root sub; (r, s) = ensure_dir os p s in
      if r \<noteq> 0 then (-1, s)
      else
        let (a, s) = psys os (Ns (Mount (Some src) p None (MS_BIND + MS_REC) None)) s in
        (if a_ret a = 0 then 0 else -1, s))"

definition mount_fs_type ::
  "os \<Rightarrow> string \<Rightarrow> string \<Rightarrow> string \<Rightarrow> nat \<Rightarrow> string option \<Rightarrow> pst \<Rightarrow> int \<times> pst" where
  "mount_fs_type os root sub type flags data s =
     (let p = mem_path root sub; (r, s) = ensure_dir os p s in
      if r \<noteq> 0 then (-1, s)
      else
        let (a, s) = psys os (Ns (Mount (Some type) p (Some type) flags data)) s in
        (if a_ret a = 0 then 0 else -1, s))"

fun mount_vols :: "os \<Rightarrow> string \<Rightarrow> vol list \<Rightarrow> pst \<Rightarrow> int \<times> pst" where
  "mount_vols os root [] s = (0, s)"
| "mount_vols os root (v # vs) s =
     (let (r, s) = mount_user_volume os v root s in if r \<noteq> 0 then (-1, s) else mount_vols os root vs s)"

definition mount_volumes :: "os \<Rightarrow> string \<Rightarrow> cage_config \<Rightarrow> pst \<Rightarrow> int \<times> pst" where
  "mount_volumes os root cfg s = mount_vols os root (take (length (cf_volumes cfg)) (cf_volumes_parsed cfg)) s"

definition mount_dev :: "os \<Rightarrow> string \<Rightarrow> pst \<Rightarrow> int \<times> pst" where
  "mount_dev os root s = mount_bind os root ''dev'' ''/dev'' s"

definition mount_virtual_fses :: "os \<Rightarrow> string \<Rightarrow> pst \<Rightarrow> int \<times> pst" where
  "mount_virtual_fses os root s =
     (let f = MS_NOSUID + MS_NOEXEC + MS_NODEV; (r, s) = mount_fs_type os root ''proc'' ''proc'' f None s in
      if r \<noteq> 0 then (-1, s) else mount_fs_type os root ''sys'' ''sysfs'' f None s)"

definition mount_tmpfses :: "os \<Rightarrow> string \<Rightarrow> pst \<Rightarrow> int \<times> pst" where
  "mount_tmpfses os root s =
     (let nd = MS_NOSUID + MS_NODEV + MS_NOATIME; ne = MS_NOSUID + MS_NOEXEC;
          (r, s) = mount_fs_type os root ''run'' ''tmpfs'' ne (Some ''mode=0755'') s in
      if r \<noteq> 0 then (-1, s)
      else
        let (r, s) = mount_fs_type os root ''tmp'' ''tmpfs'' nd None s in
        if r \<noteq> 0 then (-1, s) else mount_fs_type os root ''var/tmp'' ''tmpfs'' nd None s)"

definition mount_all :: "os \<Rightarrow> files \<Rightarrow> string \<Rightarrow> cage_config \<Rightarrow> int \<Rightarrow> pst \<Rightarrow> (int \<times> pst) option" where
  "mount_all os files root cfg has_cgroup s =
     (let (r, s) = mount_virtual_fses os root s in
      if r \<noteq> 0 then Some (-1, s)
      else
        let (r, s) = mount_dev os root s in
        if r \<noteq> 0 then Some (-1, s)
        else
          let (r, s) = mount_tmpfses os root s in
          if r \<noteq> 0 then Some (-1, s)
          else
            (case mount_cgroups os files root has_cgroup s of
               None \<Rightarrow> None
             | Some (r, s) \<Rightarrow>
                 if r \<noteq> 0 then Some (-1, s)
                 else
                   let (r, s) = mount_misc os files root cfg s in
                   if r \<noteq> 0 then Some (-1, s) else Some (mount_volumes os root cfg s)))"

end
