(* ===== verification/MountSpec.thy ===== *)
theory MountSpec
  imports Mounts
begin

text \<open>
  What the mounting of the guest keeps: every mount lies under the guest's root and no program is
  run, whatever the system answers, and a successful run has made the planned mounts in the planned order, the
  user's volumes last.
\<close>

section \<open>Mounts under a root\<close>

definition under :: "string \<Rightarrow> string \<Rightarrow> bool" where
  "under root p \<longleftrightarrow> starts_with (resolve_path root) (resolve_path p)"

text \<open>
  The calls of this stage: a mount has its target under the root, and nothing runs a program,
  makes a process, changes the root directory or the identity.
\<close>

fun confined :: "string \<Rightarrow> syscall \<Rightarrow> bool" where
  "confined root (Ns (Mount src dst ty fl d)) \<longleftrightarrow> under root dst"
| "confined root (Ns (Chroot p)) \<longleftrightarrow> False"
| "confined root (Execve p a e) \<longleftrightarrow> False"
| "confined root (Execvp p a) \<longleftrightarrow> False"
| "confined root Fork \<longleftrightarrow> False"
| "confined root (Setreuid r e) \<longleftrightarrow> False"
| "confined root (Setregid r e) \<longleftrightarrow> False"
| "confined root (Setgroups l) \<longleftrightarrow> False"
| "confined root _ \<longleftrightarrow> True"

lemma confined_fs: "fs_call c \<Longrightarrow> confined root c"
  by (erule fs_callE) simp_all

interpretation kept: call_policy "confined root" for root
  by unfold_locales (rule confined_fs)

lemma under_mem_path: "\<not> mem_path_escapes app \<Longrightarrow> under root (mem_path root app)"
  using mem_path_under [of app root] by (auto simp: under_def starts_with_iff)

lemma under_trans: "under b c \<Longrightarrow> under a b \<Longrightarrow> under a c"
  by (auto simp: under_def starts_with_iff)

lemma under_fixed [simp]:
  "under root (mem_path root ''proc'')" "under root (mem_path root ''sys'')" "under root (mem_path root ''dev'')"
  "under root (mem_path root ''run'')" "under root (mem_path root ''tmp'')" "under root (mem_path root ''var/tmp'')"
  "under root (mem_path root ''sys/fs/cgroup'')" "under root (mem_path root ''etc/resolv.conf'')"
  "under root (mem_path root ''dev/shm'')"
  by (rule under_mem_path; simp add: mem_path_escapes_iff)+

lemma mount_adds: "under root d \<Longrightarrow> adds (confined root) s (snd (psys os (Ns (Mount src d ty fl x)) s))"
  by (rule adds_psys) simp

lemma other_adds: "confined root c \<Longrightarrow> adds (confined root) s (snd (psys os c s))"
  by (rule adds_psys)

section \<open>Every mount is confined\<close>

lemma user_volume_confined:
  assumes "\<not> mem_path_escapes (v_target v)"
  shows "adds (confined root) s (snd (mount_user_volume os v root s))"
proof -
  note u = under_mem_path [OF assms]
  have h: "adds (confined root) s (snd (ensure_host os p s))" for p s
    unfolding ensure_host_def Let_def by (intro adds_steps other_adds kept.io_adds) simp
  have g: "adds (confined root) s (snd (create_guest os p d s))" for p d s
    unfolding create_guest_def create_guest_dir_def create_guest_file_def Let_def
    by (intro adds_steps kept.io_adds) (simp add: kept.mkdir_own_adds split: option.splits)
  have m: "adds (confined root) s (snd (mount_bind_private os src (mem_path root (v_target v)) s))" for src s
    unfolding mount_bind_private_def Let_def by (intro adds_steps mount_adds u)
  show ?thesis unfolding mount_user_volume_def Let_def by (intro adds_steps h g m kept.io_adds)
qed

lemma volumes_confined:
  "list_all (\<lambda>v. \<not> mem_path_escapes (v_target v)) vs \<Longrightarrow> adds (confined root) s (snd (mount_vols os root vs s))"
proof (induction vs arbitrary: s)
  case (Cons v vs)
  then have a: "adds (confined root) s (snd (mount_user_volume os v root s))"
    and b: "\<And>t. adds (confined root) t (snd (mount_vols os root vs t))"
    using user_volume_confined by simp_all
  show ?case unfolding mount_vols.simps Let_def by (intro adds_steps a b)
qed simp

lemma ensure_dir_adds: "adds (confined root) s (snd (ensure_dir os p s))"
  unfolding ensure_dir_def Let_def by (intro adds_steps kept.io_adds)

lemma mount_bind_confined: "under root (mem_path root sub) \<Longrightarrow> adds (confined root) s (snd (mount_bind os root sub src s))"
  unfolding mount_bind_def Let_def by (intro adds_steps ensure_dir_adds mount_adds)

lemma mount_fs_confined:
  "under root (mem_path root sub) \<Longrightarrow> adds (confined root) s (snd (mount_fs_type os root sub type flags data s))"
  unfolding mount_fs_type_def Let_def by (intro adds_steps ensure_dir_adds mount_adds)

lemma base_confined:
  "adds (confined root) s (snd (mount_virtual_fses os root s))" "adds (confined root) s (snd (mount_dev os root s))"
  "adds (confined root) s (snd (mount_tmpfses os root s))"
  unfolding mount_virtual_fses_def mount_dev_def mount_tmpfses_def Let_def
  by (intro adds_steps mount_fs_confined mount_bind_confined under_fixed)+

lemma resolv_confined:
  assumes "under root p"
  shows "adds (confined root) s (snd (do_resolv_replace os files p cfg s))"
    and "adds (confined root) s (snd (check_or_create_resolv os files p cfg s))"
proof -
  note w = setup_resolv_write_dns_def
  have a: "adds (confined root) s (snd (setup_resolv_file_bind os p s))" for s
    unfolding setup_resolv_file_bind_def setup_resolv_write_dns_def Let_def
    by (intro adds_steps mount_adds assms other_adds) simp_all
  have b: "adds (confined root) s (snd (setup_resolv_bind os p s))" for s
    unfolding setup_resolv_bind_def Let_def by (intro adds_steps mount_adds assms other_adds kept.io_adds) simp
  show "adds (confined root) s (snd (do_resolv_replace os files p cfg s))"
    unfolding do_resolv_replace_def by (intro adds_steps a b)
  have c: "adds (confined root) s (snd (handle_nonreg_resolv os p s))" for s
    unfolding handle_nonreg_resolv_def Let_def by (intro adds_steps kept.io_adds)
  have d: "adds (confined root) s (snd (case strrchr_pos CHR ''/'' p of None \<Rightarrow> (False, s)
         | Some k \<Rightarrow> let (e, s) = io_exists_at os (take k p) s in
             if e = 1 then let (r, s) = io_mkdir os (take k p) s in (r \<noteq> 0, s) else (False, s)))" for s
    unfolding Let_def by (cases "strrchr_pos CHR ''/'' p") (simp, simp only: option.case, intro adds_steps kept.io_adds)
  have e: "adds (confined root) s (snd (create_resolv_file os p s))" for s
    unfolding create_resolv_file_def by (subst Let_def) (intro adds_steps d, simp only: Let_def, intro adds_steps kept.io_adds)
  show "adds (confined root) s (snd (check_or_create_resolv os files p cfg s))"
    unfolding check_or_create_resolv_def Let_def by (intro adds_steps c e other_adds) simp
qed

lemma misc_confined: "adds (confined root) s (snd (mount_misc os files root cfg s))"
proof -
  have a: "adds (confined root) s (snd (setup_resolv os files root cfg s))" for s
    unfolding setup_resolv_def Let_def by (intro adds_steps resolv_confined under_fixed)
  have b: "adds (confined root) s (snd (setup_run_dirs os root s))" for s
    unfolding setup_run_dirs_def Let_def by (intro adds_steps kept.io_adds)
  have c: "adds (confined root) s (snd (setup_devshm os root s))" for s
    unfolding setup_devshm_def setup_devshm_dir_def setup_devshm_symlink_def Let_def
    by (intro adds_steps kept.io_adds mount_adds under_fixed)
  show ?thesis unfolding mount_misc_def Let_def by (intro adds_steps a b c)
qed

section \<open>Control groups\<close>

lemma controllers_confined:
  "list_all (\<lambda>c. \<not> mem_path_escapes c) cs \<Longrightarrow> under root cg \<Longrightarrow>
   adds (confined root) s (snd (mount_controllers os cg cs s))"
proof (induction cs arbitrary: s)
  case (Cons c cs)
  then have u: "under root (mem_path cg c)" using under_trans [OF under_mem_path] by simp
  have a: "adds (confined root) s (snd (mount_one_cgroup_v1 os cg c s))" for s
    unfolding mount_one_cgroup_v1_def mount_one_v1_def Let_def by (intro adds_steps kept.io_adds mount_adds u)
  have b: "\<And>t. adds (confined root) t (snd (mount_controllers os cg cs t))" using Cons by simp
  show ?case unfolding mount_controllers.simps Let_def by (intro adds_steps a b)
qed simp

text \<open>The controllers the kernel names have plain names.\<close>

definition plain_controllers :: "files \<Rightarrow> bool" where
  "plain_controllers files \<longleftrightarrow>
     (\<forall>s n cs. read_proc_cgroups files s = Some (n, cs) \<longrightarrow> list_all (\<lambda>c. \<not> mem_path_escapes c) cs)"

lemma cgroups_confined:
  assumes "mount_cgroups os files root hc s = Some (r, s')" and "hc = 1 \<longrightarrow> plain_controllers files"
  shows "adds (confined root) s s'"
proof -
  have a: "adds (confined root) s (snd (mount_cgroup_v2 os root s))" for s
    unfolding mount_cgroup_v2_def ensure_dir_cg_def Let_def by (intro adds_steps kept.io_adds mount_adds under_fixed)
  have b: "adds (confined root) s (snd (mount_cgroup_tmpfs os (mem_path root ''sys/fs/cgroup'') s))" for s
    unfolding mount_cgroup_tmpfs_def Let_def by (intro adds_steps kept.io_adds mount_adds under_fixed)
  show ?thesis
  proof (cases "hc = 1")
    case False
    then show ?thesis using assms(1) a [of s] by (auto simp: mount_cgroups_def split: if_splits)
  next
    case True
    obtain q t where t: "mount_cgroup_tmpfs os (mem_path root ''sys/fs/cgroup'') s = (q, t)"
      by (cases "mount_cgroup_tmpfs os (mem_path root ''sys/fs/cgroup'') s")
    have "adds (confined root) s t" using b [of s] t by simp
    moreover have "adds (confined root) t s'"
      if q0: "q = 0"
    proof -
      obtain n cs where c: "read_proc_cgroups files t = Some (n, cs)"
        using assms(1) True t q0 by (auto simp: mount_cgroups_def mount_cgroup_v1_def Let_def split: option.splits if_splits)
      then have "list_all (\<lambda>c. \<not> mem_path_escapes c) cs" using assms(2) True unfolding plain_controllers_def by blast
      from controllers_confined [OF this under_fixed(7), of root t os] show ?thesis
        using assms(1) True t q0 c by (auto simp: mount_cgroups_def mount_cgroup_v1_def Let_def split: if_splits)
    qed
    ultimately show ?thesis
      using assms(1) True t adds_trans by (fastforce simp: mount_cgroups_def mount_cgroup_v1_def Let_def split: if_splits)
  qed
qed

section \<open>Which mounts a successful run makes\<close>

fun is_mount :: "syscall \<Rightarrow> bool" where
  "is_mount (Ns (Mount src dst ty fl d)) \<longleftrightarrow> True"
| "is_mount _ \<longleftrightarrow> False"

abbreviation did :: "syscall list \<Rightarrow> pst \<Rightarrow> pst \<Rightarrow> bool" where
  "did \<equiv> did_of is_mount"

lemma no_mount_fs: "fs_call c \<Longrightarrow> \<not> is_mount c"
  by (erule fs_callE) simp_all

interpretation still: call_policy "\<lambda>c. \<not> is_mount c"
  by unfold_locales (rule no_mount_fs)

definition fs_mount :: "string \<Rightarrow> string \<Rightarrow> string \<Rightarrow> nat \<Rightarrow> string option \<Rightarrow> syscall" where
  "fs_mount root sub type flags data = Ns (Mount (Some type) (mem_path root sub) (Some type) flags data)"

definition base_mounts :: "string \<Rightarrow> syscall list" where
  "base_mounts root =
     [fs_mount root ''proc'' ''proc'' 14 None, fs_mount root ''sys'' ''sysfs'' 14 None,
      Ns (Mount (Some ''/dev'') (mem_path root ''dev'') None 20480 None),
      fs_mount root ''run'' ''tmpfs'' 10 (Some ''mode=0755''), fs_mount root ''tmp'' ''tmpfs'' 1030 None,
      fs_mount root ''var/tmp'' ''tmpfs'' 1030 None]"

definition cgroup_mounts :: "string \<Rightarrow> int \<Rightarrow> string list \<Rightarrow> syscall list" where
  "cgroup_mounts root hc ctrls =
     (let cg = mem_path root ''sys/fs/cgroup'' in
      if hc = -2 then []
      else if hc \<ge> 2 then [Ns (Mount (Some ''cgroup2'') cg (Some ''cgroup2'') 14 (Some ''nsdelegate''))]
      else Ns (Mount (Some ''tmpfs'') cg (Some ''tmpfs'') 14 None) #
        map (\<lambda>c. Ns (Mount (Some ''cgroup'') (mem_path cg c) (Some ''cgroup'') 14 (Some c))) ctrls)"

definition volume_mounts :: "string \<Rightarrow> vol \<Rightarrow> syscall list" where
  "volume_mounts root v =
     [Ns (Mount (Some (v_host v)) (mem_path root (v_target v)) None 20480 None),
      Ns (Mount None (mem_path root (v_target v)) None 262144 None)]"

text \<open>
  The mount of name resolution: none where the guest has a regular file with something in it,
  otherwise the host's own file, by its real path, or, with a network of its own, a
  temporary file that the two default servers have been written to.
\<close>

definition dns_mounts :: "string \<Rightarrow> cage_config \<Rightarrow> trace \<Rightarrow> syscall list \<Rightarrow> bool" where
  "dns_mounts root cfg tr ms \<longleftrightarrow>
     (let p = mem_path root ''etc/resolv.conf'' in
      (ms = [] \<and> (\<exists>a. (Lstat p, a) \<in> set tr \<and> a_ret a = 0 \<and> S_ISREG (st_mode (a_stat a)) \<and> st_size (a_stat a) \<noteq> 0)) \<or>
      (\<exists>q. (Ns (Realpath ''/etc/resolv.conf''), q) \<in> set tr \<and> a_ret q = 0 \<and> ms = [Ns (Mount (Some (a_path q)) p None 4096 None)]) \<or>
      (cf_unshare_net cfg \<and> (\<exists>m w. (Ns (Mkstemp ''/tmp/cage-dns-XXXXXX''), m) \<in> set tr \<and> 0 \<le> a_ret m \<and>
         (Write (a_ret m) (''nameserver 8.8.8.8'' @ CHR 0x0A # ''nameserver 1.1.1.1'' @ [CHR 0x0A]), w) \<in> set tr \<and> a_ret w = 38 \<and>
         ms = [Ns (Mount (Some (a_path m)) p None 4096 None)])))"

text \<open>Shared memory: a file system of its own unless the host's directory is a symbolic link.\<close>

definition shm_mounts :: "string \<Rightarrow> trace \<Rightarrow> syscall list \<Rightarrow> bool" where
  "shm_mounts root tr ms \<longleftrightarrow> (\<exists>a. (Lstat ''/dev/shm'', a) \<in> set tr \<and>
     ms = (if a_ret a = 0 \<and> S_ISLNK (st_mode (a_stat a)) then []
           else [Ns (Mount (Some ''tmpfs'') (mem_path root ''dev/shm'') (Some ''tmpfs'') 0 None)]))"

text \<open>The controllers are those that \<^verbatim>\<open>/proc/cgroups\<close> listed at some point of the run.\<close>

definition ctrls_listed :: "files \<Rightarrow> pst \<Rightarrow> string list \<Rightarrow> bool" where
  "ctrls_listed files s ctrls \<longleftrightarrow> (\<exists>t n ext. fst s = fst t @ ext \<and> read_proc_cgroups files t = Some (n, ctrls))"

text \<open>\<open>made Q s t\<close>: the part of the trace between \<open>s\<close> and \<open>t\<close>, with the mounts in it, satisfies \<open>Q\<close>.\<close>

definition made :: "(trace \<Rightarrow> syscall list \<Rightarrow> bool) \<Rightarrow> pst \<Rightarrow> pst \<Rightarrow> bool" where
  "made Q s t \<longleftrightarrow> (\<exists>ext. fst t = fst s @ ext \<and> Q ext (filter is_mount (calls ext)))"

lemma more_trace:
  "dns_mounts root cfg x ms \<Longrightarrow> dns_mounts root cfg (w @ x @ y) ms" "shm_mounts root x ms \<Longrightarrow> shm_mounts root (w @ x @ y) ms"
  by (auto simp: dns_mounts_def shm_mounts_def Let_def)

lemma quiet_filter: "list_all (\<lambda>c. \<not> is_mount c) cs \<Longrightarrow> filter is_mount cs = []"
  by (auto simp: list_all_iff filter_empty_conv)

lemmas mount_flags = MS_NOSUID_def MS_NOEXEC_def MS_NODEV_def MS_NOATIME_def MS_BIND_def MS_REC_def MS_PRIVATE_def
  CG_FLAGS_def

lemma ensure_dir_still: "ensure_dir os p s = (r, t) \<Longrightarrow> did [] s t"
proof -
  have "adds (\<lambda>c. \<not> is_mount c) s (snd (ensure_dir os p s))"
    unfolding ensure_dir_def Let_def by (intro adds_steps still.io_adds)
  then show "ensure_dir os p s = (r, t) \<Longrightarrow> did [] s t" using did_nothing by simp
qed

lemma mount_fs_did:
  assumes "mount_fs_type os root sub type flags data s = (0, t)"
  shows "did [fs_mount root sub type flags data] s t"
proof -
  obtain r u where e: "ensure_dir os (mem_path root sub) s = (r, u)" by (cases "ensure_dir os (mem_path root sub) s")
  have "did [fs_mount root sub type flags data] u t"
    using assms did_call [of is_mount "fs_mount root sub type flags data" u]
    by (auto simp: mount_fs_type_def e psys_eq Let_def fs_mount_def split: if_splits)
  then show ?thesis using did_before [OF ensure_dir_still [OF e]] by simp
qed

lemma mount_dev_did:
  assumes "mount_dev os root s = (0, t)"
  shows "did [Ns (Mount (Some ''/dev'') (mem_path root ''dev'') None 20480 None)] s t"
proof -
  let ?m = "Ns (Mount (Some ''/dev'') (mem_path root ''dev'') None 20480 None)"
  obtain r u where e: "ensure_dir os (mem_path root ''dev'') s = (r, u)" by (cases "ensure_dir os (mem_path root ''dev'') s")
  have "did [?m] u t"
    using assms did_call [of is_mount ?m u]
    by (auto simp: mount_dev_def mount_bind_def e psys_eq Let_def mount_flags split: if_splits)
  then show ?thesis using did_before [OF ensure_dir_still [OF e]] by simp
qed

lemma base_did:
  assumes "mount_virtual_fses os root s = (0, t)" "mount_dev os root t = (0, u)" "mount_tmpfses os root u = (0, w)"
  shows "did (base_mounts root) s w"
proof -
  note M = mount_fs_did [of os root]
  obtain a where a: "mount_fs_type os root ''proc'' ''proc'' 14 None s = (0, a)"
      "mount_fs_type os root ''sys'' ''sysfs'' 14 None a = (0, t)"
    using assms(1) by (auto simp: mount_virtual_fses_def Let_def mount_flags split: prod.splits if_splits)
  obtain b where b: "mount_fs_type os root ''run'' ''tmpfs'' 10 (Some ''mode=0755'') u = (0, b)"
    and b': "(let (r, s) = mount_fs_type os root ''tmp'' ''tmpfs'' 1030 None b in
        if r \<noteq> 0 then (-1, s) else mount_fs_type os root ''var/tmp'' ''tmpfs'' 1030 None s) = (0, w)"
    using assms(3) by (auto simp: mount_tmpfses_def Let_def mount_flags split: prod.splits if_splits)
  obtain c where c: "mount_fs_type os root ''tmp'' ''tmpfs'' 1030 None b = (0, c)"
      "mount_fs_type os root ''var/tmp'' ''tmpfs'' 1030 None c = (0, w)"
    using b' by (auto simp: Let_def split: prod.splits if_splits)
  show ?thesis
    using did_trans [OF M [OF a(1)] did_trans [OF M [OF a(2)] did_trans [OF mount_dev_did [OF assms(2)]
      did_trans [OF M [OF b] did_trans [OF M [OF c(1)] M [OF c(2)]]]]]]
    by (simp add: base_mounts_def)
qed

lemma user_volume_did:
  assumes "mount_user_volume os v root s = (0, t)"
  shows "did (volume_mounts root v) s t"
proof -
  let ?g = "mem_path root (v_target v)" and ?q = "\<lambda>c. \<not> is_mount c"
  let ?m1 = "Ns (Mount (Some (v_host v)) ?g None 20480 None)" and ?m2 = "Ns (Mount None ?g None 262144 None)"
  obtain r a where a: "ensure_host os (v_host v) s = (r, a)" by (cases "ensure_host os (v_host v) s")
  obtain d b where b: "io_isdir os (v_host v) a = (d, b)" by (cases "io_isdir os (v_host v) a")
  obtain q c where c: "create_guest os ?g d b = (q, c)" by (cases "create_guest os ?g d b")
  have "adds ?q s (snd (ensure_host os (v_host v) s))"
    unfolding ensure_host_def Let_def by (intro adds_steps still.adds_call still.io_adds) simp
  moreover have "adds ?q b (snd (create_guest os ?g d b))"
    unfolding create_guest_def create_guest_dir_def create_guest_file_def Let_def
    by (intro adds_steps still.io_adds) (simp add: still.mkdir_own_adds split: option.splits)
  moreover have "adds ?q a b" using still.isdir_adds [of a os "v_host v"] b by simp
  ultimately have "adds ?q s a" "adds ?q a b" "adds ?q b c" using a c by simp_all
  then have quiet: "did [] s c" using did_nothing adds_trans by blast
  have "mount_bind_private os (v_host v) ?g c = (0, t)"
    using assms a b c by (auto simp: mount_user_volume_def Let_def split: prod.splits if_splits)
  then have "t = (fst c @ [(?m1, os (fst c) ?m1)] @ [(?m2, os (fst c @ [(?m1, os (fst c) ?m1)]) ?m2)], snd c)"
    by (auto simp: mount_bind_private_def psys_eq Let_def mount_flags split: if_splits)
  then have "did [?m1, ?m2] c t" by (simp add: did_of_def)
  then show ?thesis using did_before [OF quiet] by (simp add: volume_mounts_def)
qed

lemma volumes_did:
  "mount_vols os root vs s = (0, t) \<Longrightarrow> did (concat (map (volume_mounts root) vs)) s t"
proof (induction vs arbitrary: s)
  case (Cons v vs)
  then obtain u where u: "mount_user_volume os v root s = (0, u)" "mount_vols os root vs u = (0, t)"
    by (auto simp: Let_def split: prod.splits if_splits)
  show ?case using did_trans [OF user_volume_did [OF u(1)] Cons.IH [OF u(2)]] by simp
qed (simp add: did_of_def)

lemma controllers_did:
  "mount_controllers os cg cs s = (0, t) \<Longrightarrow>
   did (map (\<lambda>c. Ns (Mount (Some ''cgroup'') (mem_path cg c) (Some ''cgroup'') 14 (Some c))) cs) s t"
proof (induction cs arbitrary: s)
  case (Cons c cs)
  let ?m = "Ns (Mount (Some ''cgroup'') (mem_path cg c) (Some ''cgroup'') 14 (Some c))"
  obtain u where u: "mount_one_v1 os (mem_path cg c) c s = (0, u)" "mount_controllers os cg cs u = (0, t)"
    using Cons.prems by (auto simp: Let_def mount_one_cgroup_v1_def split: prod.splits if_splits)
  obtain r a where a: "io_mkdir os (mem_path cg c) s = (r, a)" by (cases "io_mkdir os (mem_path cg c) s")
  have "did [] s a" using did_nothing still.mkdir_adds(1) [of s os "mem_path cg c"] a by simp
  moreover have "did [?m] a u" using u(1) a did_call [of is_mount ?m a]
    by (auto simp: mount_one_v1_def psys_eq Let_def mount_flags split: if_splits)
  ultimately show ?case using did_trans [OF did_before Cons.IH [OF u(2)]] by fastforce
qed (simp add: did_of_def)

lemma resolv_bind_made:
  assumes "setup_resolv_bind os (mem_path root ''etc/resolv.conf'') s = (0, t)"
  shows "made (dns_mounts root cfg) s t"
proof -
  let ?p = "mem_path root ''etc/resolv.conf''" and ?q = "os (fst s) (Ns (Realpath ''/etc/resolv.conf''))"
  let ?s1 = "(fst s @ [(Ns (Realpath ''/etc/resolv.conf''), ?q)], snd s)"
  obtain r u where u: "io_touch os ?p ?s1 = (r, u)" by (metis prod.exhaust)
  obtain x where x: "fst u = fst ?s1 @ x" "list_all (\<lambda>c. \<not> is_mount c) (calls x)"
    using still.touch_adds [of ?s1 os ?p] u by (auto simp: adds_def)
  let ?m = "Ns (Mount (Some (a_path ?q)) ?p None 4096 None)"
  have t: "a_ret ?q = 0" "fst t = fst u @ [(?m, os (fst u) ?m)]"
    using assms u by (auto simp: setup_resolv_bind_def psys_eq Let_def mount_flags split: if_splits)
  then have "fst t = fst s @ (Ns (Realpath ''/etc/resolv.conf''), ?q) # x @ [(?m, os (fst u) ?m)]" using x(1) by simp
  then show ?thesis unfolding made_def using t(1) quiet_filter [OF x(2)]
    by (intro exI conjI) (assumption, auto simp: dns_mounts_def Let_def calls_def)
qed

lemma resolv_file_made:
  assumes "setup_resolv_file_bind os (mem_path root ''etc/resolv.conf'') s = (0, t)" "cf_unshare_net cfg"
  shows "made (dns_mounts root cfg) s t"
  using assms
  by (auto simp: setup_resolv_file_bind_def setup_resolv_write_dns_def psys_eq Let_def made_def dns_mounts_def mount_flags
      DEFAULT_DNS_def split: if_splits)

lemma check_resolv_still:
  assumes "check_or_create_resolv os files p cfg s = (r, t)"
  shows "adds (\<lambda>c. \<not> is_mount c) s t"
proof -
  let ?q = "\<lambda>c. \<not> is_mount c"
  have c: "adds ?q s (snd (handle_nonreg_resolv os p s))" for s
    unfolding handle_nonreg_resolv_def Let_def by (intro adds_steps still.io_adds)
  have d: "adds ?q s (snd (case strrchr_pos CHR ''/'' p of None \<Rightarrow> (False, s)
         | Some k \<Rightarrow> let (e, s) = io_exists_at os (take k p) s in
             if e = 1 then let (r, s) = io_mkdir os (take k p) s in (r \<noteq> 0, s) else (False, s)))" for s
    unfolding Let_def by (cases "strrchr_pos CHR ''/'' p") (simp, simp only: option.case, intro adds_steps still.io_adds)
  have e: "adds ?q s (snd (create_resolv_file os p s))" for s
    unfolding create_resolv_file_def by (subst Let_def) (intro adds_steps d, simp only: Let_def, intro adds_steps still.io_adds)
  have "adds ?q s (snd (check_or_create_resolv os files p cfg s))"
    unfolding check_or_create_resolv_def Let_def by (intro adds_steps c e still.adds_call) simp
  then show ?thesis using assms by simp
qed

lemma check_resolv_kept:
  assumes "check_or_create_resolv os files (mem_path root ''etc/resolv.conf'') cfg s = (0, t)"
  shows "made (dns_mounts root cfg) s t"
proof -
  have "fst (create_resolv_file os p u) \<noteq> 0" "fst (handle_nonreg_resolv os p u) \<noteq> 0" for p u
    by (auto simp: create_resolv_file_def handle_nonreg_resolv_def Let_def split: prod.splits)
  then show ?thesis using assms
    by (auto simp: check_or_create_resolv_def resolv_existing_regular_def psys_eq Let_def made_def dns_mounts_def
        split: if_splits) (metis fst_conv)+
qed

lemma setup_resolv_made:
  assumes "setup_resolv os files root cfg s = (0, t)"
  shows "made (dns_mounts root cfg) s t"
proof -
  let ?p = "mem_path root ''etc/resolv.conf''"
  obtain r u where u: "check_or_create_resolv os files ?p cfg s = (r, u)" by (metis prod.exhaust)
  show ?thesis
  proof (cases "r = 0")
    case True
    then show ?thesis using assms u check_resolv_kept by (auto simp: setup_resolv_def Let_def)
  next
    case False
    then have "do_resolv_replace os files ?p cfg u = (0, t)"
      using assms u by (auto simp: setup_resolv_def Let_def split: if_splits)
    then have "made (dns_mounts root cfg) u t"
      using resolv_file_made resolv_bind_made by (auto simp: do_resolv_replace_def split: if_splits)
    then show ?thesis using check_resolv_still [OF u] more_trace(1) [where y = "[]"] quiet_filter
      by (fastforce simp: made_def adds_def)
  qed
qed

lemma devshm_made:
  assumes "setup_devshm os root s = (0, t)"
  shows "made (shm_mounts root) s t"
proof -
  let ?q = "\<lambda>c. \<not> is_mount c" and ?l = "os (fst s) (Lstat ''/dev/shm'')"
  let ?s1 = "(fst s @ [(Lstat ''/dev/shm'', ?l)], snd s)"
  let ?m = "Ns (Mount (Some ''tmpfs'') (mem_path root ''dev/shm'') (Some ''tmpfs'') 0 None)"
  show ?thesis
  proof (cases "a_ret ?l = 0 \<and> S_ISLNK (st_mode (a_stat ?l))")
    case True
    then have "t = snd (setup_devshm_dir os root ?s1)"
      using assms by (simp add: setup_devshm_def io_islink_def psys_eq Let_def)
    moreover have "adds ?q ?s1 (snd (setup_devshm_dir os root ?s1))"
      unfolding setup_devshm_dir_def Let_def by (intro adds_steps still.io_adds)
    ultimately obtain x where "fst t = fst s @ (Lstat ''/dev/shm'', ?l) # x" "list_all ?q (calls x)"
      by (auto simp: adds_def)
    then show ?thesis using True quiet_filter by (auto simp: made_def shm_mounts_def calls_def)
  next
    case False
    then have d: "setup_devshm_symlink os root ?s1 = (0, t)"
      using assms by (auto simp: setup_devshm_def io_islink_def psys_eq Let_def split: if_splits)
    obtain r u where u: "io_symlink os ''/dev/shm'' (mem_path root ''run/shm'') ?s1 = (r, u)" by (metis prod.exhaust)
    obtain r2 v where v: "io_mkdir os (mem_path root ''dev/shm'') u = (r2, v)" by (metis prod.exhaust)
    have t: "fst t = fst v @ [(?m, os (fst v) ?m)]"
      using d u v by (auto simp: setup_devshm_symlink_def psys_eq Let_def split: if_splits)
    have "adds ?q ?s1 u" "adds ?q u v"
      using still.symlink_adds [of ?s1 os "''/dev/shm''" "mem_path root ''run/shm''"] u
        still.mkdir_adds(1) [of u os "mem_path root ''dev/shm''"] v by simp_all
    then have "adds ?q ?s1 v" by (rule adds_trans)
    then obtain x where "fst v = fst ?s1 @ x" "list_all ?q (calls x)" by (auto simp: adds_def)
    then have "fst t = fst s @ (Lstat ''/dev/shm'', ?l) # x @ [(?m, os (fst v) ?m)]" "list_all ?q (calls x)"
      using t by simp_all
    then show ?thesis unfolding made_def using False quiet_filter [of "calls x"]
      by (intro exI conjI) (assumption, auto simp: shm_mounts_def calls_def)
  qed
qed

text \<open>Both together, the run directories between them.\<close>

lemma misc_made:
  assumes "mount_misc os files root cfg s = (0, t)"
  shows "made (\<lambda>ext ms. \<exists>dns shm. ms = dns @ shm \<and> dns_mounts root cfg ext dns \<and> shm_mounts root ext shm) s t"
proof -
  obtain u where u: "setup_resolv os files root cfg s = (0, u)"
    using assms by (auto simp: mount_misc_def Let_def split: prod.splits if_splits)
  obtain v where v: "setup_run_dirs os root u = (0, v)"
    using assms u by (auto simp: mount_misc_def Let_def split: prod.splits if_splits)
  have d: "setup_devshm os root v = (0, t)"
    using assms u v by (auto simp: mount_misc_def Let_def split: prod.splits if_splits)
  have "adds (\<lambda>c. \<not> is_mount c) u (snd (setup_run_dirs os root u))"
    unfolding setup_run_dirs_def Let_def by (intro adds_steps still.io_adds)
  then obtain y where y: "fst v = fst u @ y" "filter is_mount (calls y) = []" using v quiet_filter by (auto simp: adds_def)
  obtain x where x: "fst u = fst s @ x" "dns_mounts root cfg x (filter is_mount (calls x))"
    using setup_resolv_made [OF u] by (auto simp: made_def)
  obtain z where z: "fst t = fst v @ z" "shm_mounts root z (filter is_mount (calls z))"
    using devshm_made [OF d] by (auto simp: made_def)
  have "fst t = fst s @ (x @ y @ z)" using x y z by simp
  moreover have "dns_mounts root cfg (x @ y @ z) (filter is_mount (calls x))"
    "shm_mounts root (x @ y @ z) (filter is_mount (calls z))"
    using more_trace(1) [OF x(2), of "[]" "y @ z"] more_trace(2) [OF z(2), of "x @ y" "[]"] by simp_all
  ultimately show ?thesis unfolding made_def using y(2) by (intro exI [of _ "x @ y @ z"]) auto
qed

lemma cgroups_did:
  assumes "mount_cgroups os files root hc s = Some (0, t)"
  shows "\<exists>ctrls. did (cgroup_mounts root hc ctrls) s t \<and> (hc = 1 \<longrightarrow> ctrls_listed files t ctrls)"
proof -
  let ?cg = "mem_path root ''sys/fs/cgroup''"
  consider (none) "hc = -2" | (v2) "2 \<le> hc" | (v1) "hc = 1"
    using assms by (auto simp: mount_cgroups_def split: if_splits)
  then show ?thesis
  proof cases
    case none
    then show ?thesis using assms by (auto simp: mount_cgroups_def cgroup_mounts_def did_of_def)
  next
    case v2
    let ?m = "Ns (Mount (Some ''cgroup2'') ?cg (Some ''cgroup2'') 14 (Some ''nsdelegate''))"
    obtain r a where a: "ensure_dir_cg os ?cg s = (r, a)" by (cases "ensure_dir_cg os ?cg s")
    have "adds (\<lambda>c. \<not> is_mount c) s (snd (ensure_dir_cg os ?cg s))"
      unfolding ensure_dir_cg_def Let_def by (intro adds_steps still.io_adds)
    then have "did [] s a" using did_nothing a by simp
    moreover have "did [?m] a t" using assms v2 a did_call [of is_mount ?m a]
      by (auto simp: mount_cgroups_def mount_cgroup_v2_def psys_eq Let_def mount_flags split: if_splits)
    ultimately show ?thesis using did_before v2 by (auto simp: cgroup_mounts_def Let_def)
  next
    case v1
    let ?m = "Ns (Mount (Some ''tmpfs'') ?cg (Some ''tmpfs'') 14 None)"
    obtain b where b: "mount_cgroup_tmpfs os ?cg s = (0, b)"
      using assms v1 by (auto simp: mount_cgroups_def mount_cgroup_v1_def Let_def split: prod.splits if_splits)
    obtain n cs where read: "read_proc_cgroups files b = Some (n, cs)" and c: "mount_controllers os ?cg cs b = (0, t)"
      using assms v1 b by (auto simp: mount_cgroups_def mount_cgroup_v1_def Let_def split: option.splits if_splits)
    obtain r a where a: "io_mkdir os ?cg s = (r, a)" by (cases "io_mkdir os ?cg s")
    have "did [] s a" using did_nothing still.mkdir_adds(1) [of s os ?cg] a by simp
    moreover have "did [?m] a b" using b a did_call [of is_mount ?m a]
      by (auto simp: mount_cgroup_tmpfs_def psys_eq Let_def mount_flags split: if_splits)
    ultimately have "did [?m] s b" by (rule did_before)
    moreover have "\<exists>ext. fst t = fst b @ ext" using controllers_did [OF c] by (auto simp: did_of_def)
    ultimately have "ctrls_listed files t cs" using read unfolding ctrls_listed_def by blast
    then show ?thesis using did_trans [OF \<open>did [?m] s b\<close> controllers_did [OF c]] v1
      by (auto simp: cgroup_mounts_def Let_def)
  qed
qed

section \<open>The guest's mounts\<close>

lemma prepared_plain:
  assumes "prepare_volumes cfg = (0, cfg')" "length (cf_volumes cfg) \<le> length (cf_volumes_parsed cfg)"
  shows "list_all (\<lambda>v. \<not> mem_path_escapes (v_target v)) (take (length (cf_volumes cfg')) (cf_volumes_parsed cfg'))"
proof -
  note P = prepare_volumes_ok [OF assms]
  have "\<not> mem_path_escapes (v_target (cf_volumes_parsed cfg' ! i))" if "i < length (cf_volumes cfg')" for i
    using P that parse_vol_ok [of "cf_volumes cfg ! i" "cf_volumes_parsed cfg' ! i"] by (auto simp: vol_ok_def)
  then show ?thesis using P assms(2) by (auto simp: list_all_length)
qed

text \<open>The mounts of a whole run, given what the system answered in it.\<close>

definition planned :: "files \<Rightarrow> string \<Rightarrow> cage_config \<Rightarrow> int \<Rightarrow> pst \<Rightarrow> trace \<Rightarrow> syscall list \<Rightarrow> bool" where
  "planned files root cfg hc s' ext ms \<longleftrightarrow>
     (\<exists>ctrls dns shm. ms = base_mounts root @ cgroup_mounts root hc ctrls @ dns @ shm @
        concat (map (volume_mounts root) (take (length (cf_volumes cfg)) (cf_volumes_parsed cfg))) \<and>
      (hc = 1 \<longrightarrow> ctrls_listed files s' ctrls) \<and> dns_mounts root cfg ext dns \<and> shm_mounts root ext shm)"

lemma mount_all_planned:
  assumes "did (base_mounts root) s c" "did (cgroup_mounts root hc ctrls) c d" "hc = 1 \<longrightarrow> ctrls_listed files d ctrls"
    and e: "mount_misc os files root cfg d = (0, e)"
    and f: "did (concat (map (volume_mounts root) (take (length (cf_volumes cfg)) (cf_volumes_parsed cfg)))) e f"
  shows "made (planned files root cfg hc f) s f"
proof -
  obtain x where x: "fst d = fst s @ x" "filter is_mount (calls x) = base_mounts root @ cgroup_mounts root hc ctrls"
    using did_trans [OF assms(1,2)] by (auto simp: did_of_def)
  obtain y dns shm where y: "fst e = fst d @ y" "filter is_mount (calls y) = dns @ shm" "dns_mounts root cfg y dns" "shm_mounts root y shm"
    using misc_made [OF e] by (auto simp: made_def)
  obtain z where z: "fst f = fst e @ z" "filter is_mount (calls z) =
      concat (map (volume_mounts root) (take (length (cf_volumes cfg)) (cf_volumes_parsed cfg)))"
    using f by (auto simp: did_of_def)
  have "fst f = fst d @ y @ z" using y z by simp
  then have "hc = 1 \<longrightarrow> ctrls_listed files f ctrls" using assms(3) unfolding ctrls_listed_def by (metis append.assoc)
  moreover have "dns_mounts root cfg (x @ y @ z) dns" "shm_mounts root (x @ y @ z) shm"
    using more_trace y(3,4) by blast+
  ultimately have "planned files root cfg hc f (x @ y @ z) (filter is_mount (calls (x @ y @ z)))"
    unfolding planned_def using x(2) y(2) z(2) by (intro exI [of _ ctrls] exI [of _ dns] exI [of _ shm]) simp
  moreover have "fst f = fst s @ (x @ y @ z)" using x y z by simp
  ultimately show ?thesis unfolding made_def by blast
qed

lemma mount_all_steps:
  assumes "mount_all os files root cfg hc s = Some (r, s')"
    and v: "list_all (\<lambda>v. \<not> mem_path_escapes (v_target v)) (take (length (cf_volumes cfg)) (cf_volumes_parsed cfg))"
    and p: "hc = 1 \<longrightarrow> plain_controllers files"
  shows "adds (confined root) s s' \<and>
    (r = 0 \<longrightarrow> made (planned files root cfg hc s') s s')"
proof -
  obtain ra a where a: "mount_virtual_fses os root s = (ra, a)" by (cases "mount_virtual_fses os root s")
  obtain rb b where b: "mount_dev os root a = (rb, b)" by (cases "mount_dev os root a")
  obtain rc c where c: "mount_tmpfses os root b = (rc, c)" by (cases "mount_tmpfses os root b")
  have "adds (confined root) s a" "adds (confined root) a b" "adds (confined root) b c"
    using base_confined(1) [of root s os] base_confined(2) [of root a os] base_confined(3) [of root b os] a b c by simp_all
  then have A: "adds (confined root) s a" "adds (confined root) s b" "adds (confined root) s c"
    using adds_trans by blast+
  show ?thesis
  proof (cases "ra = 0 \<and> rb = 0 \<and> rc = 0")
    case False
    then have "r = -1" "s' = a \<or> s' = b \<or> s' = c"
      using assms(1) a b c by (auto simp: mount_all_def Let_def split: if_splits)
    then show ?thesis using A by auto
  next
    case True
    obtain rd d where d: "mount_cgroups os files root hc c = Some (rd, d)"
      using assms(1) a b c True by (auto simp: mount_all_def Let_def split: option.splits)
    obtain re e where e: "mount_misc os files root cfg d = (re, e)" by (cases "mount_misc os files root cfg d")
    have D: "adds (confined root) s d" using adds_trans A(3) cgroups_confined [OF d p] by blast
    have E: "adds (confined root) d e" using misc_confined [of root d os files cfg] e by simp
    obtain rf f where f: "mount_volumes os root cfg e = (rf, f)" by (cases "mount_volumes os root cfg e")
    have F: "adds (confined root) e f" using volumes_confined [OF v, of root e os] f by (simp add: mount_volumes_def)
    have R: "(r, s') = (if rd \<noteq> 0 then (-1, d) else if re \<noteq> 0 then (-1, e) else (rf, f))"
      using assms(1) a b c True d e f by (simp add: mount_all_def Let_def split: if_splits)
    have G: "adds (confined root) s e" using adds_trans [OF D E] .
    have "s' \<in> {d, e, f}" using R by (auto split: if_splits)
    then have conf: "adds (confined root) s s'" using D G adds_trans [OF G F] by blast
    have "made (planned files root cfg hc s') s s'" if r: "r = 0"
    proof -
      have z: "rd = 0" "re = 0" "rf = 0" "s' = f" using R r by (auto split: if_splits)
      obtain ctrls where 1: "did (cgroup_mounts root hc ctrls) c d" "hc = 1 \<longrightarrow> ctrls_listed files d ctrls"
        using cgroups_did d z(1) by blast
      have 3: "did (concat (map (volume_mounts root) (take (length (cf_volumes cfg)) (cf_volumes_parsed cfg)))) e f"
        using volumes_did f z(3) by (simp add: mount_volumes_def)
      have "did (base_mounts root) s c" using base_did a b c True by blast
      from mount_all_planned [OF this 1 _ 3] show ?thesis using e z by simp
    qed
    then show ?thesis using conf by blast
  qed
qed

text \<open>
  C13: nothing is mounted outside the guest.  For any answers of the system, with the volumes that
  \<open>prepare_volumes\<close> accepted and control groups whose names are plain, every mount that \<open>mount_all\<close>
  makes, whether it succeeds or stops half-way, has a target that resolves lexically to the
  root or a place below it, and no program is run, no process made and neither the root directory
  nor the identity changed; and when it succeeds its mounts are, in order, the virtual file
  systems, the devices, the temporary file systems, the control groups, which in a version 1 hierarchy are those
  that \<^verbatim>\<open>/proc/cgroups\<close> listed, name resolution, shared memory, and for each volume the recursive
  bind of its host path followed by making it private.  For name resolution it is one bind of the
  host's file, by the real path the system gave for it, or, only with a network of its own, of the temporary file
  that the two default servers were written to, and it is left out only if the guest's own file is
  regular and not empty; for shared memory it is a fresh file system, left out only if the host's
  \<^verbatim>\<open>/dev/shm\<close> is a symbolic link.
\<close>

theorem mount_all_confined:
  assumes vols: "prepare_volumes cfg0 = (0, cfg)" "length (cf_volumes cfg0) \<le> length (cf_volumes_parsed cfg0)"
    and plain: "hc = 1 \<longrightarrow> plain_controllers files"
    and run: "mount_all os files root cfg hc s = Some (r, s')"
  shows "adds (confined root) s s' \<and>
    (r = 0 \<longrightarrow> made (planned files root cfg hc s') s s')"
  using mount_all_steps [OF run prepared_plain [OF vols] plain] .

text \<open>A system in which every call succeeds and every path is a directory, and a configuration with one volume.\<close>

definition fine_os :: os where
  "fine_os tr c = (ret 0)\<lparr>a_stat := \<lparr>st_uid = 0, st_gid = 0, st_mode = 16877, st_size = 0, st_dev = 0\<rparr>\<rparr>"

definition no_files :: files where "no_files tr p = (None, \<lambda>_. None)"

definition one_volume :: cage_config where
  "one_volume = cage_config_init\<lparr>cf_volumes := [''/data:/srv/./x'']\<rparr>"

definition good :: "pst \<Rightarrow> bool" where
  "good s \<longleftrightarrow> (\<forall>p r. Some (p, r) \<in> set (snd s) \<longrightarrow> r = 0 \<or> r = 1)"

definition fine :: "int \<times> pst \<Rightarrow> bool" where
  "fine x \<longleftrightarrow> fst x = 0 \<and> good (snd x)"

lemma fine_seq: "fine x \<Longrightarrow> (\<And>t. good t \<Longrightarrow> fine (g 0 t)) \<Longrightarrow> fine (case x of (r, t) \<Rightarrow> g r t)"
  by (cases x) (simp add: fine_def)

lemma fine_call: "(\<And>a t. a_ret a = 0 \<Longrightarrow> a_stat a = \<lparr>st_uid = 0, st_gid = 0, st_mode = 16877, st_size = 0, st_dev = 0\<rparr> \<Longrightarrow>
   a_names a = [] \<Longrightarrow> good t \<Longrightarrow> fine (g a t)) \<Longrightarrow> good s \<Longrightarrow> fine (case psys fine_os c s of (a, t) \<Rightarrow> g a t)"
  by (simp add: psys_eq fine_os_def good_def)

lemma fine_if: "c = False \<Longrightarrow> fine b \<Longrightarrow> fine (if c then a else b)" "c = True \<Longrightarrow> fine a \<Longrightarrow> fine (if c then a else b)"
  by simp_all

lemma fine_0: "good s \<Longrightarrow> fine (0, s)"
  by (simp add: fine_def)

lemma good_invalidate: "good s \<Longrightarrow> good (invalidate p s)"
  unfolding good_def invalidate_def io_cache_invalidate_def
  by (fastforce split: option.splits if_splits)

lemma good_trace: "good (tr, c) \<longleftrightarrow> good (t, c)"
  by (simp add: good_def)

lemma lookup_good: "good s \<Longrightarrow> io_cache_lookup (snd s) p \<in> {0, 1, 2}"
  by (auto simp: lookup_cached cached_def good_def split: option.splits) (metis cached_set map_of_SomeD)

lemma store_good: "good (tr, c) \<Longrightarrow> good (t, io_cache_store c p 0)"
  by (auto simp: good_def io_cache_store_def Let_def map_option_case dest!: set_update_subset_insert [THEN subsetD]
      split: if_splits option.splits)

lemma exists_fine:
  assumes "good s"
  obtains e t where "io_exists_at fine_os p s = (e, t)" "e = 0 \<or> e = 1" "good t"
proof -
  have "good (snd (io_exists_at fine_os p s)) \<and> fst (io_exists_at fine_os p s) \<in> {0, 1}"
    using lookup_good [OF assms, of p] assms store_good [of "fst s" "snd s"]
    by (auto simp: io_exists_at_def psys_eq fine_os_def io_exists_def access_class_def good_def)
  then show thesis using that by (cases "io_exists_at fine_os p s") auto
qed

lemma mkdir_fine: "good s \<Longrightarrow> fine (io_mkdir fine_os p s)"
  using good_invalidate [of "(fst s @ [(Mkdir p 493, fine_os (fst s) (Mkdir p 493))], snd s)" p] good_trace [of "fst s" "snd s"]
  by (subst io_mkdir.simps) (simp add: psys_eq fine_os_def fine_def)

lemma isdir_fine: "good s \<Longrightarrow> fine (io_isdir fine_os p s)"
  by (simp add: io_isdir_def psys_eq fine_os_def fine_def S_ISDIR_def good_def)

lemma ensure_dir_fine:
  assumes "good s"
  shows "fine (ensure_dir fine_os p s)"
proof -
  obtain e t where e: "io_exists_at fine_os p s = (e, t)" "e = 0 \<or> e = 1" "good t"
    using exists_fine [OF assms] .
  have "fine (case io_isdir fine_os p t of (d, s) \<Rightarrow> if d \<noteq> 0 then (-1, s) else (0, s))"
    by (rule fine_seq, rule isdir_fine, rule e(3)) (simp add: fine_def)
  then show ?thesis using e mkdir_fine by (auto simp: ensure_dir_def Let_def)
qed

lemmas fine_rules = fine_seq fine_call fine_0 ensure_dir_fine mkdir_fine isdir_fine

lemma mount_fs_fine: "good s \<Longrightarrow> fine (mount_fs_type fine_os root sub type flags data s)"
  unfolding mount_fs_type_def Let_def
  by (rule fine_seq, erule ensure_dir_fine) (simp, rule fine_call, simp_all add: fine_def)

lemma mount_bind_fine: "good s \<Longrightarrow> fine (mount_bind fine_os root sub src s)"
  unfolding mount_bind_def Let_def
  by (rule fine_seq, erule ensure_dir_fine) (simp, rule fine_call, simp_all add: fine_def)

lemma base_fine:
  "good s \<Longrightarrow> fine (mount_virtual_fses fine_os root s)" "good s \<Longrightarrow> fine (mount_tmpfses fine_os root s)"
  unfolding mount_virtual_fses_def mount_tmpfses_def Let_def
  by (intro fine_seq fine_if mount_fs_fine; simp)+

lemma good_psys: "good s \<Longrightarrow> good (snd (psys os c s))"
  by (simp add: psys_eq good_def)

lemma cgroup_fine: "good s \<Longrightarrow> fine (mount_cgroup_v2 fine_os root s)"
proof -
  assume "good s"
  obtain e t where e: "io_exists_at fine_os (mem_path root ''sys/fs/cgroup'') s = (e, t)" "e = 0 \<or> e = 1" "good t"
    using exists_fine [OF \<open>good s\<close>] .
  have "fine (ensure_dir_cg fine_os (mem_path root ''sys/fs/cgroup'') s)"
    using e mkdir_fine fine_0 by (auto simp: ensure_dir_cg_def Let_def)
  then show ?thesis unfolding mount_cgroup_v2_def Let_def
    by (rule fine_seq) (simp, rule fine_call, simp_all add: fine_def)
qed

lemma small_fine:
  assumes "good s"
  shows "fine (io_mkdtmp fine_os p st s)" "fine (io_symlink fine_os q p s)" "fine (io_touch fine_os p s)"
    "fine (io_unlink fine_os p s)"
  using assms good_invalidate [OF good_psys [OF assms]] good_invalidate [OF good_psys [OF good_psys [OF assms]]]
  unfolding io_mkdtmp_def io_symlink_def io_touch_def io_unlink_def Let_def
  by (simp_all add: fine_def split_def psys_eq) (simp_all add: fine_os_def psys_eq)

lemma misc_fine:
  assumes "good s" and net: "\<not> cf_unshare_net cfg"
  shows "fine (mount_misc fine_os files root cfg s)"
proof -
  let ?p = "mem_path root ''etc/resolv.conf''"
  have b: "fine (setup_resolv_bind fine_os ?p t)" if "good t" for t
    unfolding setup_resolv_bind_def Let_def using that
    by - (rule fine_call, simp, rule fine_seq, erule small_fine, simp, rule fine_call, simp_all add: fine_def)
  have h: "\<exists>t'. handle_nonreg_resolv fine_os ?p t = (1, t') \<and> good t'" if g: "good t" for t
  proof -
    obtain u where u: "io_unlink fine_os ?p t = (0, u)" "good u"
      using small_fine(4) [OF g, of ?p] by (cases "io_unlink fine_os ?p t") (simp add: fine_def)
    obtain w where w: "io_touch fine_os ?p u = (0, w)" "good w"
      using small_fine(3) [OF u(2), of ?p] by (cases "io_touch fine_os ?p u") (simp add: fine_def)
    show ?thesis using u w by (simp add: handle_nonreg_resolv_def)
  qed
  have c: "\<exists>t'. check_or_create_resolv fine_os files ?p cfg t = (1, t') \<and> good t'" if "good t" for t
    using h [OF good_psys [OF that, of fine_os "Lstat ?p"]]
    by (simp add: check_or_create_resolv_def psys_eq) (simp add: fine_os_def S_ISREG_def)
  have r: "fine (setup_resolv fine_os files root cfg t)" if "good t" for t
    using c [OF that] b net by (auto simp: setup_resolv_def do_resolv_replace_def Let_def)
  have d: "fine (setup_run_dirs fine_os root t)" if "good t" for t
    unfolding setup_run_dirs_def Let_def by (intro fine_seq fine_if small_fine that; simp add: small_fine)
  have m: "fine (setup_devshm fine_os root t)" if "good t" for t
  proof -
    have l: "io_islink fine_os ''/dev/shm'' t = (1, snd (psys fine_os (Lstat ''/dev/shm'') t))"
      by (simp add: io_islink_def psys_eq fine_os_def S_ISLNK_def)
    have "fine (setup_devshm_symlink fine_os root u)" if "good u" for u
      unfolding setup_devshm_symlink_def Let_def using that
      by - (rule fine_seq, erule small_fine, simp, rule fine_seq, erule mkdir_fine, simp, rule fine_call, simp_all add: fine_def)
    then show ?thesis using good_psys [OF that] by (simp add: setup_devshm_def l)
  qed
  show ?thesis unfolding mount_misc_def Let_def
    by (intro fine_seq fine_if r d m fine_0 assms; simp)
qed

lemma volume_fine: "good s \<Longrightarrow> fine (mount_user_volume fine_os v root s)"
proof -
  have h: "fine (ensure_host fine_os p t)" if "good t" for p t
    unfolding ensure_host_def Let_def by (rule fine_call) (simp_all add: fine_def that)
  have m: "fine (mount_bind_private fine_os p q t)" if "good t" for p q t
    unfolding mount_bind_private_def Let_def by (rule fine_call, simp, rule fine_call) (simp_all add: fine_def that)
  have c: "fine (create_guest fine_os p 0 t)" if "good t" for p t
    using mkdir_fine [OF that] by (simp add: create_guest_def create_guest_dir_def)
  assume "good s"
  then show ?thesis unfolding mount_user_volume_def Let_def
    by (intro fine_seq fine_if h isdir_fine c m fine_0; simp)
qed

lemma mount_all_fine:
  assumes "good s" "\<not> cf_unshare_net cfg" "hc = 2 \<or> hc = -2"
  shows "\<exists>s'. mount_all fine_os files root cfg hc s = Some (0, s')"
proof -
  have v: "fine (mount_vols fine_os root vs t)" if "good t" for vs t
    using that
  proof (induction vs arbitrary: t)
    case (Cons v vs)
    show ?case unfolding mount_vols.simps Let_def
      by (intro fine_seq fine_if volume_fine Cons; simp)
  qed (simp add: fine_def)
  obtain a where a: "mount_virtual_fses fine_os root s = (0, a)" "good a"
    using base_fine(1) [OF assms(1), of root] by (cases "mount_virtual_fses fine_os root s") (simp add: fine_def)
  obtain b where b: "mount_dev fine_os root a = (0, b)" "good b"
    using mount_bind_fine [OF a(2), of root "''dev''" "''/dev''"] by (cases "mount_dev fine_os root a") (auto simp: fine_def mount_dev_def)
  obtain c where c: "mount_tmpfses fine_os root b = (0, c)" "good c"
    using base_fine(2) [OF b(2), of root] by (cases "mount_tmpfses fine_os root b") (simp add: fine_def)
  have "\<exists>d. mount_cgroups fine_os files root hc c = Some (0, d) \<and> good d"
    using cgroup_fine [OF c(2), of root] c(2) assms(3)
    by (cases "mount_cgroup_v2 fine_os root c") (fastforce simp: fine_def mount_cgroups_def)
  then obtain d where d: "mount_cgroups fine_os files root hc c = Some (0, d)" "good d" by blast
  obtain e where e: "mount_misc fine_os files root cfg d = (0, e)" "good e"
    using misc_fine [OF d(2) assms(2), of files root] by (cases "mount_misc fine_os files root cfg d") (simp add: fine_def)
  obtain f where f: "mount_volumes fine_os root cfg e = (0, f)"
    using v [OF e(2)] by (metis fine_def mount_volumes_def prod.collapse)
  show ?thesis using a b c d e f by (simp add: mount_all_def)
qed

lemma mount_all_confined_witness:
  "\<exists>cfg s'. prepare_volumes one_volume = (0, cfg) \<and>
     mount_all fine_os no_files ''/r'' cfg 2 ([], io_cache0) = Some (0, s') \<and>
     adds (confined ''/r'') ([], io_cache0) s' \<and>
     (\<exists>ext dns shm. fst s' = ext \<and> dns_mounts ''/r'' cfg ext dns \<and> shm_mounts ''/r'' ext shm \<and>
        filter is_mount (calls ext) = base_mounts ''/r'' @ [Ns (Mount (Some ''cgroup2'') (mem_path ''/r'' ''sys/fs/cgroup'')
          (Some ''cgroup2'') 14 (Some ''nsdelegate''))] @ dns @ shm @
        volume_mounts ''/r'' \<lparr>v_host = ''/data'', v_target = ''/srv/./x''\<rparr>)"
proof -
  let ?v = "\<lparr>v_host = ''/data'', v_target = ''/srv/./x''\<rparr>"
  let ?cfg = "one_volume\<lparr>cf_volumes_parsed := (cf_volumes_parsed one_volume)[0 := ?v]\<rparr>"
  have v: "parse_vol ''/data:/srv/./x'' = (0, ?v)"
    by (simp add: parse_vol_def set_target_def vol_zero_def mem_path_escapes_iff)
  have p: "prepare_volumes one_volume = (0, ?cfg)"
    by (simp add: prepare_volumes_def one_volume_def cage_config_init_def v)
  have l: "length (cf_volumes one_volume) \<le> length (cf_volumes_parsed one_volume)"
    by (simp add: one_volume_def cage_config_init_def CAGE_MAX_VOLUMES_def)
  have t: "take (length (cf_volumes ?cfg)) (cf_volumes_parsed ?cfg) = [?v]"
    by (simp add: one_volume_def cage_config_init_def CAGE_MAX_VOLUMES_def replicate_Suc [of 255, simplified])
  obtain s' where m: "mount_all fine_os no_files ''/r'' ?cfg 2 ([], io_cache0) = Some (0, s')"
    using mount_all_fine [of "([], io_cache0)" ?cfg 2 no_files "''/r''"]
    by (auto simp: good_def io_cache0_def one_volume_def cage_config_init_def)
  have h: "(2 :: int) = 1 \<longrightarrow> plain_controllers no_files" by simp
  have c: "concat (map (volume_mounts ''/r'') (take (length (cf_volumes ?cfg)) (cf_volumes_parsed ?cfg))) =
      volume_mounts ''/r'' ?v"
    by (simp only: t list.map concat.simps append_Nil2)
  have "adds (confined ''/r'') ([], io_cache0) s'" and M: "made (planned no_files ''/r'' ?cfg 2 s') ([], io_cache0) s'"
    using mount_all_confined [OF p l h m] by blast+
  moreover from M obtain ctrls dns shm where "dns_mounts ''/r'' ?cfg (fst s') dns" "shm_mounts ''/r'' (fst s') shm"
      "filter is_mount (calls (fst s')) = base_mounts ''/r'' @ cgroup_mounts ''/r'' 2 ctrls @ dns @ shm @ volume_mounts ''/r'' ?v"
    unfolding made_def planned_def c by auto
  ultimately show ?thesis using p m by (intro exI [of _ ?cfg] exI [of _ s']) (auto simp: cgroup_mounts_def Let_def)
qed

end
