(* ===== verification/Proc.thy ===== *)
theory Proc
  imports IoCalls IoRead Bytes Dec Files
begin

text \<open>
  The running instance (\<^verbatim>\<open>src/core/proc.c\<close>): its pid file, waiting for it, stopping it and joining
  its namespaces.  \<open>waitpid\<close> delivers the status in the mode field of its answer.  Waiting is a
  partial function, because a wait may be interrupted for ever.  \<open>strtol\<close> reports an overflow
  through \<open>errno\<close>; the value it gives then lies outside the accepted range anyway.
\<close>

definition PID_DIR :: string where "PID_DIR = ''/run/cage''"

definition compute_pidfile :: "string option \<Rightarrow> string" where
  "compute_pidfile name =
     (case name of None \<Rightarrow> mem_cat [PID_DIR, ''/pid''] | Some n \<Rightarrow> mem_cat [PID_DIR, ''/'', n, ''.pid''])"

definition ensure_dir_pid :: "os \<Rightarrow> string \<Rightarrow> pst \<Rightarrow> int \<times> pst" where
  "ensure_dir_pid os dir s =
     (let (e, s) = io_exists_at os dir s in
      if e = 1 then io_mkdir os dir s
      else if e \<noteq> 0 then (-1, s)
      else let (d, s) = io_isdir os dir s in if d \<noteq> 0 then (-1, s) else (0, s))"

text \<open>\<open>O_WRONLY | O_CREAT | O_EXCL | O_CLOEXEC\<close> is 524481, \<open>LOCK_EX\<close> is 2 and \<open>LOCK_UN\<close> 8.\<close>

definition open_and_lock :: "os \<Rightarrow> string \<Rightarrow> pst \<Rightarrow> int \<times> pst" where
  "open_and_lock os path s =
     (let (a, s) = psys os (Open path 524481) s; fd = a_ret a in
      if fd < 0 then (-1, s)
      else
        let (l, s) = psys os (Ns (Flock fd 2)) s in
        if a_ret l \<noteq> 0 then let (_, s) = psys os (Close fd) s in (-1, s) else (fd, s))"

definition create_pidfile :: "os \<Rightarrow> string \<Rightarrow> pst \<Rightarrow> int \<times> pst" where
  "create_pidfile os path s =
     (let (r, s) =
        (case strrchr_pos CHR ''/'' path of
           None \<Rightarrow> (0, s)
         | Some dlen \<Rightarrow> if 4096 \<le> dlen then (-1, s) else ensure_dir_pid os (take dlen path) s) in
      if r \<noteq> 0 then (-1, s)
      else let (fd, s) = open_and_lock os path s in if fd < 0 then (-1, s) else (fd, s))"

section \<open>Reading a pid\<close>

definition INT_MAX :: int where "INT_MAX = 2147483647"

definition parse_pid :: "string \<Rightarrow> int" where
  "parse_pid buf =
     (let (pid, e) = strtol10 buf in
      if e = 0 \<or> e < length buf then -1 else if pid \<le> 0 \<or> INT_MAX < pid then -1 else pid)"

text \<open>The result is the pid and the descriptor; \<open>O_RDONLY | O_CLOEXEC\<close> is 524288.\<close>

definition readpid :: "os \<Rightarrow> string \<Rightarrow> pst \<Rightarrow> (int \<times> int) \<times> pst" where
  "readpid os path s =
     (let (a, s) = psys os (Open path 524288) s; f = a_ret a in
      if f < 0 then ((-1, 0), s)
      else
        let (l, s) = psys os (Ns (Flock f 2)) s in
        if a_ret l \<noteq> 0 then let (_, s) = psys os (Close f) s in ((-1, 0), s)
        else
          let (n, s) = psys os (Read f 63) s in
          if a_ret n < 0 then let (_, s) = psys os (Close f) s in ((-1, 0), s)
          else
            let pid = parse_pid (cstr_at (take (nat (a_ret n)) (a_data n)) 0) in
            if pid < 0 then let (_, s) = psys os (Close f) s in ((-1, 0), s) else ((pid, f), s))"

definition close_pid :: "os \<Rightarrow> int \<Rightarrow> pst \<Rightarrow> pst" where
  "close_pid os fd s = (let (_, s) = psys os (Ns (Flock fd 8)) s; (_, s) = psys os (Close fd) s in s)"

section \<open>Waiting\<close>

partial_function (option) pidwait :: "os \<Rightarrow> int \<Rightarrow> nat \<Rightarrow> pst \<Rightarrow> ((int \<times> nat) \<times> pst) option" where
  "pidwait os pid st s =
     (let (a, s) = psys os (Waitpid pid) s in
      if a_ret a \<ge> 0 then Some ((0, st_mode (a_stat a)), s)
      else if a_errno a = EINTR then pidwait os pid st s
      else if a_errno a = ECHILD then Some ((0, st), s)
      else Some ((-1, st), s))"

text \<open>\<open>WIFEXITED\<close>, \<open>WEXITSTATUS\<close>, \<open>WIFSIGNALED\<close> and \<open>WTERMSIG\<close> written out.\<close>

definition exit_code_from_status :: "nat \<Rightarrow> nat" where
  "exit_code_from_status status =
     (if status mod 128 = 0 then status div 256 mod 256
      else if status mod 128 \<noteq> 127 then 128 + status mod 128 else 1)"

section \<open>Stopping\<close>

definition SIGKILL :: nat where "SIGKILL = 9"
definition SIGTERM :: nat where "SIGTERM = 15"

definition pidexists :: "os \<Rightarrow> int \<Rightarrow> pst \<Rightarrow> int \<times> pst" where
  "pidexists os pid s =
     (let (a, s) = psys os (Ns (Kill pid 0)) s in
      if a_ret a = 0 then (0, s) else if a_errno a = ESRCH then (1, s) else (-1, s))"

text \<open>The polls still to come count down from 50.\<close>

fun poll_exit :: "os \<Rightarrow> int \<Rightarrow> nat \<Rightarrow> pst \<Rightarrow> int option \<times> pst" where
  "poll_exit os pid 0 s = (None, s)"
| "poll_exit os pid (Suc n) s =
     (let (r, s) = pidexists os pid s in
      if r = 1 then (Some 0, s)
      else if r < 0 then (Some (-1), s)
      else let (_, s) = psys os (Ns (Nanosleep 100000000)) s in poll_exit os pid n s)"

definition waitpid_graceful :: "os \<Rightarrow> int \<Rightarrow> pst \<Rightarrow> (int \<times> pst) option" where
  "waitpid_graceful os pid s =
     (case poll_exit os pid 50 s of
        (Some r, s) \<Rightarrow> Some (r, s)
      | (None, s) \<Rightarrow>
          let (a, s) = psys os (Ns (Kill pid SIGKILL)) s in
          if a_ret a \<noteq> 0 then Some (if a_errno a = ESRCH then 0 else -1, s)
          else map_option (\<lambda>((r, _), s). (r, s)) (pidwait os pid 0 s))"

definition kill_gracefully :: "os \<Rightarrow> int \<Rightarrow> pst \<Rightarrow> (int \<times> pst) option" where
  "kill_gracefully os pid s =
     (let (a, s) = psys os (Ns (Kill pid SIGTERM)) s in
      if a_ret a \<noteq> 0 then Some (if a_errno a = ESRCH then 0 else -1, s)
      else waitpid_graceful os pid s)"

definition read_pid_stat :: "files \<Rightarrow> int \<Rightarrow> pst \<Rightarrow> int \<times> byte buf" where
  "read_pid_stat files pid s = read_at files (''/proc/'' @ dec_int pid @ ''/stat'') 0 s"

definition pid_zombie :: "files \<Rightarrow> int \<Rightarrow> pst \<Rightarrow> bool" where
  "pid_zombie files pid s =
     (let (r, b) = read_pid_stat files pid s; t = buf_str b in
      if r \<noteq> 0 then True
      else
        (case strrchr_pos CHR '')'' t of
           None \<Rightarrow> True
         | Some k \<Rightarrow> if k + 2 < length t \<and> t ! (k + 1) = CHR '' '' then t ! (k + 2) = CHR ''Z'' else True))"

definition pid_joinable :: "os \<Rightarrow> files \<Rightarrow> int \<Rightarrow> pst \<Rightarrow> bool \<times> pst" where
  "pid_joinable os files pid s =
     (let (e, s) = pidexists os pid s in (e = 0 \<and> \<not> pid_zombie files pid s, s))"

definition stop_target :: "os \<Rightarrow> files \<Rightarrow> int \<Rightarrow> pst \<Rightarrow> (int \<times> pst) option" where
  "stop_target os files pid s =
     (if pid_zombie files pid s then Some (0, s) else kill_gracefully os pid s)"

definition kill_pidfile :: "os \<Rightarrow> files \<Rightarrow> string \<Rightarrow> pst \<Rightarrow> (int \<times> pst) option" where
  "kill_pidfile os files pidfile s =
     (let ((pid, fd), s) = readpid os pidfile s in
      if pid < 0 then Some (-1, s)
      else
        (case stop_target os files pid (close_pid os fd s) of
           None \<Rightarrow> None
         | Some (r, s) \<Rightarrow> let (_, s) = io_unlink_quiet os pidfile s in Some (r, s)))"

definition resolve_pidfile :: "string option \<Rightarrow> string option \<Rightarrow> string" where
  "resolve_pidfile name pidfile = (case pidfile of Some p \<Rightarrow> p | None \<Rightarrow> compute_pidfile name)"

definition killpid :: "os \<Rightarrow> files \<Rightarrow> string option \<Rightarrow> string option \<Rightarrow> pst \<Rightarrow> (int \<times> pst) option" where
  "killpid os files name pidfile s =
     (let pf = resolve_pidfile name pidfile; (r, s) = io_exists_at os pf s in
      if r = 1 then Some (0, s)
      else if r = 0 then kill_pidfile os files pf s
      else Some (-1, s))"

definition detect_existing :: "os \<Rightarrow> files \<Rightarrow> string option \<Rightarrow> string option \<Rightarrow> pst \<Rightarrow> int \<times> pst" where
  "detect_existing os files name pidfile s =
     (let pf = resolve_pidfile name pidfile; (ok, s) = io_exists_at os pf s in
      if ok \<noteq> 0 then (- (if ok \<noteq> 1 then 1 else 0), s)
      else
        let ((pid, fd), s) = readpid os pf s;
            (j, s) = (if pid \<ge> 0 then pid_joinable os files pid (close_pid os fd s) else (False, s)) in
        if j then (pid, s)
        else let (_, s) = io_unlink_quiet os pf s in (0, s))"

section \<open>Joining\<close>

definition CLONE_NEWNS :: nat where "CLONE_NEWNS = 0x20000"
definition CLONE_NEWCGROUP :: nat where "CLONE_NEWCGROUP = 0x02000000"
definition CLONE_NEWPID :: nat where "CLONE_NEWPID = 0x20000000"
definition CLONE_NEWNET :: nat where "CLONE_NEWNET = 0x40000000"

definition ns_flag :: "string \<Rightarrow> nat" where
  "ns_flag ns = (if ns = ''pid'' then CLONE_NEWPID else if ns = ''cgroup'' then CLONE_NEWCGROUP
     else if ns = ''net'' then CLONE_NEWNET else CLONE_NEWNS)"

definition join_ns :: "os \<Rightarrow> int \<Rightarrow> string \<Rightarrow> pst \<Rightarrow> int \<times> pst" where
  "join_ns os target ns s =
     (let path = ''/proc/'' @ dec_int target @ ''/ns/'' @ ns in
      if 64 \<le> length path then (-1, s)
      else
        let (a, s) = psys os (Open path 524288) s; fd = a_ret a in
        if fd < 0 then (-1, s)
        else
          let (r, s) = psys os (Ns (Setns fd (ns_flag ns))) s; (_, s) = psys os (Close fd) s in
          (if a_ret r \<noteq> 0 then -1 else 0, s))"

definition join_namespaces :: "os \<Rightarrow> int \<Rightarrow> pst \<Rightarrow> int \<times> pst" where
  "join_namespaces os target s =
     (let (r, s) = join_ns os target ''pid'' s in
      if r \<noteq> 0 then (-1, s)
      else
        let (r, s) = join_ns os target ''cgroup'' s in
        if r \<noteq> 0 then (-1, s)
        else
          let (r, s) = join_ns os target ''net'' s in
          if r \<noteq> 0 then (-1, s) else join_ns os target ''mnt'' s)"

section \<open>Only the recorded process is signalled\<close>

fun is_kill :: "syscall \<Rightarrow> bool" where
  "is_kill (Ns (Kill p sig)) \<longleftrightarrow> True"
| "is_kill _ \<longleftrightarrow> False"

lemma fs_call_no_kill: "fs_call c \<Longrightarrow> \<not> is_kill c"
  by (erule fs_callE) simp_all

interpretation unsignalled: call_policy "\<lambda>c. \<not> is_kill c"
  by unfold_locales (rule fs_call_no_kill)

lemma parse_pid_range: "0 \<le> parse_pid t \<Longrightarrow> 0 < parse_pid t \<and> parse_pid t \<le> INT_MAX"
  by (auto simp: parse_pid_def Let_def split: prod.splits if_splits)

text \<open>The termination signal followed by \<open>k\<close> polls.\<close>

definition term_polls :: "int \<Rightarrow> nat \<Rightarrow> syscall list" where
  "term_polls p k = Ns (Kill p SIGTERM) # replicate k (Ns (Kill p 0))"

lemma poll_exit_did:
  "poll_exit os p n s = (r, s') \<Longrightarrow>
   \<exists>k \<le> n. did_of is_kill (replicate k (Ns (Kill p 0))) s s' \<and> (r = None \<longrightarrow> k = n)"
proof (induction n arbitrary: s)
  case 0
  then show ?case by (simp add: did_of_def)
next
  case (Suc n)
  let ?c = "Ns (Kill p 0)"
  let ?a = "os (fst s) ?c"
  let ?s1 = "(fst s @ [(?c, ?a)], snd s)"
  let ?d = "Ns (Nanosleep 100000000)"
  let ?s2 = "(fst ?s1 @ [(?d, os (fst ?s1) ?d)], snd s)"
  have 1: "did_of is_kill [?c] s ?s1" using did_call [of is_kill ?c s] by simp
  have 2: "did_of is_kill [] ?s1 ?s2" using did_call [of is_kill ?d ?s1] by simp
  show ?case
  proof (cases "a_ret ?a = 0")
    case True
    then have "poll_exit os p n ?s2 = (r, s')" using Suc.prems by (simp add: pidexists_def psys_eq Let_def)
    from Suc.IH [OF this] obtain k where k: "k \<le> n" "did_of is_kill (replicate k ?c) ?s2 s'" "r = None \<longrightarrow> k = n"
      by auto
    have "did_of is_kill (replicate (Suc k) ?c) s s'"
      using did_trans [OF 1 did_before [OF 2 k(2)]] by simp
    then show ?thesis using k by (intro exI [of _ "Suc k"]) simp
  next
    case False
    then have "s' = ?s1" "r \<noteq> None" using Suc.prems by (auto simp: pidexists_def psys_eq Let_def split: if_splits)
    then show ?thesis using 1 by (intro exI [of _ 1]) auto
  qed
qed

lemma pidwait_adds: "pidwait os p st s = Some y \<Longrightarrow> adds (\<lambda>c. \<not> is_kill c) s (snd y)"
proof (erule pidwait.raw_induct [rotated])
  fix wait os p st s y
  assume IH: "\<And>os p st s y. wait os p st s = Some y \<Longrightarrow> adds (\<lambda>c. \<not> is_kill c) s (snd y)"
    and e: "(let (a, s) = psys os (Waitpid p) s in
      if a_ret a \<ge> 0 then Some ((0, st_mode (a_stat a)), s)
      else if a_errno a = EINTR then wait os p st s
      else if a_errno a = ECHILD then Some ((0, st), s)
      else Some ((-1, st), s)) = Some y"
  let ?s1 = "snd (psys os (Waitpid p) s)"
  have q: "adds (\<lambda>c. \<not> is_kill c) s ?s1" by (rule adds_psys) simp
  show "adds (\<lambda>c. \<not> is_kill c) s (snd y)"
  proof (cases "snd y = ?s1")
    case False
    then have "wait os p st ?s1 = Some y" using e by (auto simp: Let_def split_def split: if_splits)
    from IH [OF this] show ?thesis using adds_trans [OF q] by blast
  qed (use q in simp)
qed

lemma psys_other: "\<not> K c \<Longrightarrow> did_of K [] s (snd (psys os c s))"
  by (rule did_nothing, rule adds_psys)

lemma waitpid_graceful_did:
  assumes "waitpid_graceful os p s = Some (r, s')"
  shows "\<exists>k. (k \<le> 50 \<and> did_of is_kill (replicate k (Ns (Kill p 0))) s s') \<or>
    did_of is_kill (replicate 50 (Ns (Kill p 0)) @ [Ns (Kill p SIGKILL)]) s s'"
proof -
  obtain q t where q: "poll_exit os p 50 s = (q, t)" by (cases "poll_exit os p 50 s")
  obtain k where k: "k \<le> 50" "did_of is_kill (replicate k (Ns (Kill p 0))) s t" "q = None \<longrightarrow> k = 50"
    using poll_exit_did [OF q] by auto
  show ?thesis
  proof (cases q)
    case Some
    then show ?thesis using assms q k by (auto simp: waitpid_graceful_def)
  next
    case None
    let ?c = "Ns (Kill p SIGKILL)"
    let ?u = "(fst t @ [(?c, os (fst t) ?c)], snd t)"
    have u: "did_of is_kill [?c] t ?u" using did_call [of is_kill ?c t] by simp
    have "did_of is_kill [] ?u s'"
    proof (cases "a_ret (os (fst t) ?c) = 0")
      case True
      then obtain st where "pidwait os p 0 ?u = Some ((r, st), s')"
        using assms q None by (auto simp: waitpid_graceful_def psys_eq)
      from did_nothing [OF pidwait_adds [OF this]] show ?thesis by simp
    next
      case False
      then have "s' = ?u" using assms q None by (auto simp: waitpid_graceful_def psys_eq Let_def)
      then show ?thesis by (simp add: did_of_def)
    qed
    then show ?thesis using did_trans [OF k(2) did_trans [OF u]] None k(3) by fastforce
  qed
qed

lemma kill_gracefully_did:
  assumes "kill_gracefully os p s = Some (r, s')"
  shows "\<exists>k. (k \<le> 50 \<and> did_of is_kill (term_polls p k) s s') \<or>
    did_of is_kill (term_polls p 50 @ [Ns (Kill p SIGKILL)]) s s'"
proof -
  let ?c = "Ns (Kill p SIGTERM)"
  let ?u = "(fst s @ [(?c, os (fst s) ?c)], snd s)"
  have u: "did_of is_kill [?c] s ?u" using did_call [of is_kill ?c s] by simp
  show ?thesis
  proof (cases "a_ret (os (fst s) ?c) = 0")
    case True
    then have "waitpid_graceful os p ?u = Some (r, s')" using assms by (simp add: kill_gracefully_def psys_eq)
    from waitpid_graceful_did [OF this] show ?thesis
      using did_trans [OF u] by (fastforce simp: term_polls_def)
  next
    case False
    then have "s' = ?u" using assms by (auto simp: kill_gracefully_def psys_eq Let_def)
    then show ?thesis using u by (intro exI [of _ 0]) (simp add: term_polls_def)
  qed
qed

text \<open>What reading the pid file adds, and where an accepted pid comes from.\<close>

lemma readpid_trace:
  assumes "readpid os path s = ((p, fd), t)"
  shows "did_of is_kill [] s t \<and>
    (0 \<le> p \<longrightarrow> 0 < p \<and> p \<le> INT_MAX \<and>
       (\<exists>f n ext. fst t = fst s @ ext \<and> (Read f 63, n) \<in> set ext \<and>
          p = parse_pid (cstr_at (take (nat (a_ret n)) (a_data n)) 0)))"
proof -
  have q: "adds (\<lambda>c. \<not> is_kill c) s (snd (readpid os path s))"
    unfolding readpid_def Let_def by (auto simp: psys_eq adds_def)
  have "did_of is_kill [] s t" using did_nothing q assms by simp
  then show ?thesis using assms parse_pid_range
    by (auto simp: readpid_def psys_eq Let_def split: if_splits)
qed

text \<open>The number that the parent writes is the number that is read back.\<close>

lemma parse_pid_written:
  assumes "0 < n" "int n \<le> INT_MAX"
  shows "parse_pid (dec_nat n) = int n"
  using assms strtol10_dec_nat [of n] by (simp add: parse_pid_def INT_MAX_def)

lemma stop_target_did:
  assumes "stop_target os files p s = Some (r, s')"
  shows "did_of is_kill [] s s' \<or>
    (\<exists>k. (k \<le> 50 \<and> did_of is_kill (term_polls p k) s s') \<or>
       did_of is_kill (term_polls p 50 @ [Ns (Kill p SIGKILL)]) s s')"
  using assms kill_gracefully_did [of os p s r s']
  by (auto simp: stop_target_def did_of_def split: if_splits)

lemma close_pid_did: "did_of is_kill [] s (close_pid os fd s)"
  by (simp add: close_pid_def psys_eq did_of_def)

text \<open>The signals of a run that has stopped an instance: all to the process whose number it read.\<close>

definition recorded_kills :: "trace \<Rightarrow> bool" where
  "recorded_kills ext \<longleftrightarrow>
     (\<exists>p f n k. 0 < p \<and> p \<le> INT_MAX \<and> (Read f 63, n) \<in> set ext \<and>
        p = parse_pid (cstr_at (take (nat (a_ret n)) (a_data n)) 0) \<and> k \<le> 50 \<and>
        filter is_kill (calls ext) \<in> {term_polls p k, term_polls p 50 @ [Ns (Kill p SIGKILL)]})"

lemma recorded_kills_append:
  "recorded_kills ext \<Longrightarrow> filter is_kill (calls a) = [] \<Longrightarrow> recorded_kills (a @ ext)"
  unfolding recorded_kills_def by auto

lemma kill_pidfile_kills:
  assumes "kill_pidfile os files pf s = Some (r, s')"
  shows "\<exists>ext. fst s' = fst s @ ext \<and> (filter is_kill (calls ext) = [] \<or> recorded_kills ext)"
proof -
  obtain p fd b where b: "readpid os pf s = ((p, fd), b)" by (metis prod.collapse)
  note B = readpid_trace [OF b]
  show ?thesis
  proof (cases "p < 0")
    case True
    then have "s' = b" using assms b by (simp add: kill_pidfile_def)
    then show ?thesis using B by (auto simp: did_of_def)
  next
    case False
    let ?c = "close_pid os fd b"
    obtain q d where d: "stop_target os files p ?c = Some (q, d)"
      using assms b False by (auto simp: kill_pidfile_def split: option.splits)
    have s': "s' = snd (io_unlink_quiet os pf d)" using assms b False d by (simp add: kill_pidfile_def split_def Let_def)
    have U: "did_of is_kill [] d s'" unfolding s' by (rule did_nothing) (rule unsignalled.unlink_quiet_adds)
    obtain f n ext where r: "fst b = fst s @ ext" "(Read f 63, n) \<in> set ext"
        "p = parse_pid (cstr_at (take (nat (a_ret n)) (a_data n)) 0)" "0 < p" "p \<le> INT_MAX"
      using B False by auto
    obtain y z where x: "fst ?c = fst b @ y" "filter is_kill (calls y) = []" "fst s' = fst d @ z" "filter is_kill (calls z) = []"
      using U close_pid_did [of b os fd] unfolding did_of_def by blast
    have w: "filter is_kill (calls ext) = []" using B r(1) by (auto simp: did_of_def)
    obtain v where v: "fst d = fst ?c @ v" "filter is_kill (calls v) = [] \<or> (\<exists>k \<le> 50. filter is_kill (calls v) \<in>
        {term_polls p k, term_polls p 50 @ [Ns (Kill p SIGKILL)]})"
      using stop_target_did [OF d] unfolding did_of_def by blast
    have "fst s' = fst s @ (ext @ y @ v @ z)" "filter is_kill (calls (ext @ y @ v @ z)) = filter is_kill (calls v)"
      using x r(1) v(1) w by simp_all
    moreover have "(Read f 63, n) \<in> set (ext @ y @ v @ z)" using r(2) by simp
    ultimately show ?thesis using v(2) r(3-5) unfolding recorded_kills_def by metis
  qed
qed

text \<open>
  C38: stopping an instance signals no other process than the recorded one.  Whatever the pid file
  holds and whatever the system answers, a call of \<open>killpid\<close> that returns has sent no signal at
  all, or it has sent signals to one process only, whose number is positive, fits an \<open>int\<close> and is
  the number read from the file: first the termination signal, then at most 50 polls with
  signal 0, and a kill only after all 50.
\<close>

theorem kill_only_recorded:
  assumes run: "killpid os files name pidfile s = Some (r, s')"
  shows "\<exists>ext. fst s' = fst s @ ext \<and>
    (filter is_kill (calls ext) = [] \<or>
     (\<exists>p f n k. 0 < p \<and> p \<le> INT_MAX \<and> (Read f 63, n) \<in> set ext \<and>
        p = parse_pid (cstr_at (take (nat (a_ret n)) (a_data n)) 0) \<and> k \<le> 50 \<and>
        filter is_kill (calls ext) \<in> {term_polls p k, term_polls p 50 @ [Ns (Kill p SIGKILL)]}))"
proof -
  let ?pf = "resolve_pidfile name pidfile"
  obtain e a where e: "io_exists_at os ?pf s = (e, a)" by (cases "io_exists_at os ?pf s")
  have "did_of is_kill [] s a" using did_nothing unsignalled.exists_adds [of s os ?pf] e by simp
  then obtain x where x: "fst a = fst s @ x" "filter is_kill (calls x) = []" by (auto simp: did_of_def)
  have "\<exists>ext. fst s' = fst s @ ext \<and> (filter is_kill (calls ext) = [] \<or> recorded_kills ext)"
  proof (cases "e = 0")
    case False
    then have "s' = a" using run e by (auto simp: killpid_def Let_def split: if_splits)
    then show ?thesis using x by auto
  next
    case True
    then have "kill_pidfile os files ?pf a = Some (r, s')" using run e by (simp add: killpid_def)
    from kill_pidfile_kills [OF this] obtain ext where
      "fst s' = fst s @ (x @ ext)" "filter is_kill (calls ext) = [] \<or> recorded_kills ext" using x(1) by auto
    then show ?thesis using x(2) recorded_kills_append by (intro exI [of _ "x @ ext"]) auto
  qed
  then show ?thesis unfolding recorded_kills_def .
qed

text \<open>A pid file that holds 42, and a process that dies between the look at it and the signal.\<close>

definition dying_os :: os where
  "dying_os tr c =
     (case c of
        Read f n \<Rightarrow> (ret 2)\<lparr>a_data := map byte_of ''42''\<rparr>
      | Ns (Kill p sig) \<Rightarrow> (ret (-1))\<lparr>a_errno := ESRCH\<rparr>
      | _ \<Rightarrow> ret 0)"

definition running_42 :: files where
  "running_42 tr p = (Some (map byte_of ''42 (sleep) S 1''), \<lambda>_. Some 4096)"

lemma alive_42: "\<not> pid_zombie running_42 42 s"
proof -
  have nul: "char_of (0 :: nat) \<notin> set ''42 (sleep) S 1''" by code_simp
  have "fst (read_pid_stat running_42 42 s) = 0 \<and> buf_str (snd (read_pid_stat running_42 42 s)) = ''42 (sleep) S 1''"
    using read_at_all [of running_42 s "''/proc/'' @ dec_int 42 @ ''/stat''" "map byte_of ''42 (sleep) S 1''" "\<lambda>_. Some 4096" 0]
      cstr_at_map [OF nul]
    by (simp add: read_pid_stat_def running_42_def)
  then show ?thesis by (simp add: pid_zombie_def split_def Let_def)
qed

lemma pid_42: "parse_pid (cstr_at (take 2 (map byte_of ''42'')) 0) = 42"
  by code_simp

lemma kill_run:
  "\<exists>s'. killpid dying_os running_42 (Some ''a'') None ([], []) = Some (0, s') \<and>
     filter is_kill (calls (fst s')) = [Ns (Kill 42 15)]"
  by (simp add: killpid_def io_exists_at_def psys_eq dying_os_def io_exists_def access_class_def io_cache_store_def
      kill_pidfile_def readpid_def close_pid_def stop_target_def alive_42 kill_gracefully_def SIGTERM_def
      io_unlink_quiet_def pid_42 [simplified] Let_def ESRCH_def ENOENT_def invalidate_def)

lemma kill_only_recorded_witness:
  "\<exists>s'. killpid dying_os running_42 (Some ''a'') None ([], []) = Some (0, s') \<and>
     filter is_kill (calls (fst s')) = [Ns (Kill 42 15)] \<and>
     (\<exists>p f n k. 0 < p \<and> p \<le> INT_MAX \<and> (Read f 63, n) \<in> set (fst s') \<and>
        p = parse_pid (cstr_at (take (nat (a_ret n)) (a_data n)) 0) \<and> k \<le> 50 \<and>
        filter is_kill (calls (fst s')) \<in> {term_polls p k, term_polls p 50 @ [Ns (Kill p SIGKILL)]})"
proof -
  obtain s' where s': "killpid dying_os running_42 (Some ''a'') None ([], []) = Some (0, s')"
    and f: "filter is_kill (calls (fst s')) = [Ns (Kill 42 15)]"
    using kill_run by blast
  show ?thesis using kill_only_recorded [OF s'] s' f by (auto simp del: insert_iff)
qed

end
