(* ===== verification/ModDeps.thy ===== *)
theory ModDeps
  imports Mem Dec
begin

text \<open>
  Kernel module files and dependency lines (\<^verbatim>\<open>src/pkg/mod_format.c\<close>, \<^verbatim>\<open>src/pkg/mod_util.h\<close>, the pure part
  of \<^verbatim>\<open>src/pkg/resolve.c\<close> and the line scanner of \<^verbatim>\<open>src/pkg/modprobe.c\<close>).  A pointer with a length,
  or with an end pointer, is the slice of the text it stands for.  Memory is available.
\<close>

section \<open>Formats\<close>

record mod_format =
  mf_code :: int
  mf_magic :: "byte list"
  mf_suffix :: string
  mf_filter :: "string option"

definition formats :: "mod_format list" where
  "formats =
     [\<lparr>mf_code = 1, mf_magic = [0x1F, 0x8B], mf_suffix = ''.gz'', mf_filter = None\<rparr>,
      \<lparr>mf_code = 2, mf_magic = [0xFD, 0x37], mf_suffix = ''.xz'', mf_filter = Some ''xzcat''\<rparr>,
      \<lparr>mf_code = 3, mf_magic = [0x28, 0xB5, 0x2F, 0xFD], mf_suffix = ''.zst'', mf_filter = Some ''zstdcat''\<rparr>]"

definition mod_format_by_magic :: "byte list \<Rightarrow> mod_format option" where
  "mod_format_by_magic p = find (\<lambda>f. starts_with (mf_magic f) p) formats"

definition mod_format_by_code :: "int \<Rightarrow> mod_format option" where
  "mod_format_by_code code = find (\<lambda>f. mf_code f = code) formats"

definition mod_format_suffix_ok :: "string \<Rightarrow> bool" where
  "mod_format_suffix_ok s \<longleftrightarrow> s = [] \<or> list_ex (\<lambda>f. s = mf_suffix f) formats"

section \<open>Names\<close>

definition MODULES_BASE :: string where "MODULES_BASE = ''/lib/modules''"

definition dash :: "char \<Rightarrow> char" where
  "dash c = (if c = CHR ''-'' then CHR ''_'' else c)"

definition module_name_eq :: "string \<Rightarrow> string \<Rightarrow> nat \<Rightarrow> bool" where
  "module_name_eq name s len \<longleftrightarrow> len = length name \<and> map dash name = map dash (take len s)"

definition build_modules_path :: "string \<Rightarrow> string \<Rightarrow> string \<Rightarrow> string" where
  "build_modules_path base release rest = mem_cat [base, ''/'', release, ''/'', rest]"

definition skip_to_name :: "string \<Rightarrow> string" where
  "skip_to_name p = (case strrchr_pos CHR ''/'' p of None \<Rightarrow> p | Some k \<Rightarrow> drop (k + 1) p)"

section \<open>Lines of \<^verbatim>\<open>modules.dep\<close>\<close>

text \<open>The part before the colon and the part behind it.\<close>

definition parse_dep_line :: "string \<Rightarrow> (string \<times> string) option" where
  "parse_dep_line line = map_option (\<lambda>k. (take k line, drop (k + 1) line)) (strchr_pos CHR '':'' line)"

definition name_matches :: "string \<Rightarrow> string \<Rightarrow> bool" where
  "name_matches name s =
     (let nlen = length name in
      if length s < nlen + 3 \<or> take 3 (drop nlen s) \<noteq> ''.ko'' then False
      else if \<not> module_name_eq name s nlen then False
      else mod_format_suffix_ok (drop (nlen + 3) s))"

definition find_in_deps :: "string \<Rightarrow> string \<Rightarrow> bool" where
  "find_in_deps line name =
     (case parse_dep_line line of
        None \<Rightarrow> False
      | Some (path, _) \<Rightarrow> if path = [] then False else name_matches name (skip_to_name path))"

text \<open>The loop of \<open>try_add_dep\<close> that looks for the last \<open>.ko\<close>; its result is the end of it.\<close>

fun ko_end :: "string \<Rightarrow> nat \<Rightarrow> nat" where
  "ko_end w n = (if 3 \<le> n \<and> take 3 (drop (n - 3) w) \<noteq> ''.ko'' then ko_end w (n - 1) else n)"

declare ko_end.simps [simp del]

definition try_add_dep :: "string \<Rightarrow> string list \<Rightarrow> string list" where
  "try_add_dep w deps =
     (if length w \<le> 3 then deps
      else
        let ko_at = ko_end w (length w) in
        if ko_at < 3 then deps
        else if \<not> mod_format_suffix_ok (drop ko_at w) then deps
        else deps @ [skip_to_name (take (ko_at - 3) w)])"

lemma word_skipped:
  assumes "dropWhile is_space str \<noteq> []"
  shows "length (dropWhile (\<lambda>c. \<not> is_space c) (dropWhile is_space str)) < length str"
proof -
  obtain c cs where c: "dropWhile is_space str = c # cs" using assms by (cases "dropWhile is_space str") auto
  then have "\<not> is_space c" using hd_dropWhile [of is_space str] by simp
  then have "length (dropWhile (\<lambda>c. \<not> is_space c) (c # cs)) \<le> length cs"
    using length_dropWhile_le [of "\<lambda>c. \<not> is_space c" cs] by simp
  then show ?thesis using c length_dropWhile_le [of is_space str] by simp
qed

function deps_loop :: "string \<Rightarrow> string list \<Rightarrow> string list" where
  "deps_loop str deps =
     (let dp = dropWhile is_space str in
      if dp = [] then deps
      else deps_loop (dropWhile (\<lambda>c. \<not> is_space c) dp) (try_add_dep (takeWhile (\<lambda>c. \<not> is_space c) dp) deps))"
  by pat_completeness auto
termination by (relation "measure (\<lambda>(str, _). length str)") (auto simp: word_skipped)

declare deps_loop.simps [simp del]

definition extract_deps :: "string \<Rightarrow> string list" where
  "extract_deps str = deps_loop str []"

text \<open>The line of the module, already split.\<close>

function find_in_buf :: "string \<Rightarrow> string \<Rightarrow> (string \<times> string) option" where
  "find_in_buf buf name =
     (if buf = [] then None
      else
        let nl = strchr_pos (CHR 0x0A) buf;
            line = (case nl of None \<Rightarrow> buf | Some k \<Rightarrow> take k buf) in
        if find_in_deps line name then parse_dep_line line
        else (case nl of None \<Rightarrow> None | Some k \<Rightarrow> find_in_buf (drop (k + 1) buf) name))"
  by pat_completeness auto
termination by (relation "measure (\<lambda>(buf, _). length buf)") auto

declare find_in_buf.simps [simp del]

section \<open>Lists of loaded and built-in modules\<close>

definition line_has_name :: "string \<Rightarrow> string \<Rightarrow> bool" where
  "line_has_name line name =
     (let s = skip_to_name (takeWhile (\<lambda>c. \<not> is_space c) line); nlen = length name in
      if length s < nlen \<or> \<not> module_name_eq name s nlen then False
      else
        let rest = length s - nlen in
        if rest = 0 then True else if rest = 3 then take 3 (drop nlen s) = ''.ko'' else False)"

function scan_module_list :: "string \<Rightarrow> string \<Rightarrow> bool" where
  "scan_module_list data name =
     (if data = [] then False
      else
        let nl = strchr_pos (CHR 0x0A) data in
        if line_has_name (case nl of None \<Rightarrow> data | Some k \<Rightarrow> take k data) name then True
        else (case nl of None \<Rightarrow> False | Some k \<Rightarrow> scan_module_list (drop (k + 1) data) name))"
  by pat_completeness auto
termination by (relation "measure (\<lambda>(data, _). length data)") auto

declare scan_module_list.simps [simp del]

end
