(* ===== verification/Modload.thy ===== *)
theory Modload
  imports ModDeps Files Gzip IoCalls
begin

text \<open>
  Loading one kernel module (\<^verbatim>\<open>src/pkg/modload.c\<close>).  \<open>fork\<close> is seen from the parent; what the child
  does is \<open>exec_filter\<close>.  \<open>write_all\<close> and \<open>pipe_to_fd\<close> are partial functions: a write that keeps being
  interrupted, or keeps taking nothing, is repeated for ever.  The table of the CRC is handed on.
\<close>

definition finit_module_fd :: "os \<Rightarrow> int \<Rightarrow> nat \<Rightarrow> pst \<Rightarrow> (int \<times> int) \<times> pst" where
  "finit_module_fd os fd flags s =
     (let (a, s) = psys os (Dev (Finit_module fd [] flags)) s in
      if a_ret a \<noteq> 0 then (if a_errno a = EEXIST then ((0, a_errno a), s) else ((-1, a_errno a), s))
      else ((0, 0), s))"

definition decompress_magic :: "byte list \<Rightarrow> int" where
  "decompress_magic p = (case mod_format_by_magic p of Some f \<Rightarrow> mf_code f | None \<Rightarrow> 0)"

text \<open>\<open>data\<close> is what is still to be written.\<close>

partial_function (option) write_all :: "os \<Rightarrow> int \<Rightarrow> byte list \<Rightarrow> pst \<Rightarrow> (int \<times> pst) option" where
  "write_all os fd data s =
     (if data = [] then Some (0, s)
      else
        (let (a, s) = psys os (Dev (Write_data fd data)) s in
         if a_ret a < 0 then (if a_errno a = EINTR then write_all os fd data s else Some (-1, s))
         else write_all os fd (drop (nat (a_ret a)) data) s))"

definition buf_write_to_fd :: "os \<Rightarrow> int \<Rightarrow> byte list \<Rightarrow> pst \<Rightarrow> (int \<times> pst) option" where
  "buf_write_to_fd os fd data s =
     (case write_all os fd data s of
        None \<Rightarrow> None
      | Some (r, s) \<Rightarrow>
          if r \<noteq> 0 then Some (-1, s)
          else let (a, s) = psys os (Dev (Lseek fd)) s in Some (if a_ret a = -1 then -1 else 0, s))"

text \<open>The descriptor, or -1.\<close>

definition decompress_gzip_to_fd ::
  "os \<Rightarrow> files \<Rightarrow> crc_state \<Rightarrow> string \<Rightarrow> pst \<Rightarrow> ((int \<times> crc_state) \<times> pst) option" where
  "decompress_gzip_to_fd os files crc path s =
     (let (r, compressed) = (case files (fst s) path of (f, sc) \<Rightarrow> open_and_read f sc BUF_INIT) in
      if r \<noteq> 0 then Some ((-1, crc), s)
      else
        (case decompress_gzip crc (bdata compressed) BUF_INIT of
           (None, crc) \<Rightarrow> Some ((-1, crc), s)
         | (Some data, crc) \<Rightarrow>
             let (a, s) = psys os (Dev Memfd_create) s; fd = a_ret a in
             if fd < 0 then Some ((-1, crc), s)
             else
               (case buf_write_to_fd os fd (bdata data) s of
                  None \<Rightarrow> None
                | Some (r, s) \<Rightarrow>
                    if r \<noteq> 0 then let (_, s) = psys os (Close fd) s in Some ((-1, crc), s)
                    else Some ((fd, crc), s))))"

partial_function (option) pipe_to_fd :: "os \<Rightarrow> int \<Rightarrow> pst \<Rightarrow> (int \<times> pst) option" where
  "pipe_to_fd os fd s =
     (let (a, s) = psys os (Dev (Fread 8192)) s in
      if a_data a = [] then Some (0, s)
      else
        (case write_all os fd (a_data a) s of
           None \<Rightarrow> None
         | Some (r, s) \<Rightarrow> if r \<noteq> 0 then Some (-1, s) else pipe_to_fd os fd s))"

text \<open>The child of \<open>spawn_filter\<close>: its standard output is the pipe, and it never returns.\<close>

definition exec_filter :: "os \<Rightarrow> string \<Rightarrow> string \<Rightarrow> int \<Rightarrow> pst \<Rightarrow> outcome \<times> pst" where
  "exec_filter os prog path write_fd s =
     (let (d, s) = psys os (Dev (Dup2 write_fd 1)) s in
      if a_ret d < 0 then let (_, s) = psys os (Exit 127) s in (Exited 127, s)
      else
        let (_, s) = psys os (Close write_fd) s;
            (_, s) = psys os (Execvp prog [prog, path]) s;
            (_, s) = psys os (Exit 127) s
        in (Exited 127, s))"

definition open_read_end :: "os \<Rightarrow> int \<Rightarrow> int \<Rightarrow> pst \<Rightarrow> bool \<times> pst" where
  "open_read_end os fd pid s =
     (let (a, s) = psys os (Dev (Fdopen fd)) s in
      if a_ret a \<noteq> 0 then
        let (_, s) = psys os (Close fd) s; (_, s) = psys os (Waitpid pid) s in (False, s)
      else (True, s))"

text \<open>The pid of the filter, or -1.\<close>

definition spawn_filter :: "os \<Rightarrow> pst \<Rightarrow> int \<times> pst" where
  "spawn_filter os s =
     (let (p, s) = psys os (Dev Pipe) s; r_end = int (st_size (a_stat p)); w_end = int (st_dev (a_stat p)) in
      if a_ret p \<noteq> 0 then (-1, s)
      else
        let (f, s) = psys os Fork s; pid = a_ret f in
        if pid < 0 then
          let (_, s) = psys os (Close r_end) s; (_, s) = psys os (Close w_end) s in (-1, s)
        else
          let (_, s) = psys os (Close w_end) s; (ok, s) = open_read_end os r_end pid s in
          (if ok then pid else -1, s))"

definition child_ok :: "os \<Rightarrow> int \<Rightarrow> pst \<Rightarrow> bool \<times> pst" where
  "child_ok os pid s =
     (let (a, s) = psys os (Waitpid pid) s; status = st_mode (a_stat a) in
      (\<not> a_ret a < 0 \<and> status mod 128 = 0 \<and> status div 256 mod 256 = 0, s))"

text \<open>\<open>fclose\<close> closes the read end, which the model does not name.\<close>

definition decompress_xzstd_to_fd :: "os \<Rightarrow> int \<Rightarrow> pst \<Rightarrow> (int \<times> pst) option" where
  "decompress_xzstd_to_fd os fd s =
     (let (pid, s) = spawn_filter os s in
      if pid < 0 then Some (-1, s)
      else
        (case pipe_to_fd os fd s of
           None \<Rightarrow> None
         | Some (r, s) \<Rightarrow>
             let (ok, s) = child_ok os pid s in
             if \<not> ok \<or> r \<noteq> 0 then Some (-1, s)
             else let (a, s) = psys os (Dev (Lseek fd)) s in Some (if a_ret a = -1 then -1 else 0, s)))"

definition open_module :: "os \<Rightarrow> string \<Rightarrow> pst \<Rightarrow> int \<times> pst" where
  "open_module os path s =
     (let (a, s) = psys os (Open path 524288) s in (if a_ret a < 0 then -1 else a_ret a, s))"

definition finish_finit :: "os \<Rightarrow> int \<Rightarrow> pst \<Rightarrow> int \<times> pst" where
  "finish_finit os fd s =
     (let ((r, _), s) = finit_module_fd os fd 0 s; (_, s) = psys os (Close fd) s in
      (if r \<noteq> 0 then -1 else 0, s))"

definition load_decompressed ::
  "os \<Rightarrow> files \<Rightarrow> crc_state \<Rightarrow> string \<Rightarrow> int \<Rightarrow> pst \<Rightarrow> ((int \<times> crc_state) \<times> pst) option" where
  "load_decompressed os files crc path code s =
     (case mod_format_by_code code of
        None \<Rightarrow> Some ((-1, crc), s)
      | Some f \<Rightarrow>
          (case mf_filter f of
             None \<Rightarrow>
               (case decompress_gzip_to_fd os files crc path s of
                  None \<Rightarrow> None
                | Some ((fd, crc), s) \<Rightarrow>
                    if fd < 0 then Some ((-1, crc), s)
                    else let (r, s) = finish_finit os fd s in Some ((r, crc), s))
           | Some prog \<Rightarrow>
               let (a, s) = psys os (Dev Memfd_create) s; fd = a_ret a in
               if fd < 0 then Some ((-1, crc), s)
               else
                 (case decompress_xzstd_to_fd os fd s of
                    None \<Rightarrow> None
                  | Some (r, s) \<Rightarrow>
                      if r \<noteq> 0 then let (_, s) = psys os (Close fd) s in Some ((-1, crc), s)
                      else let (r, s) = finish_finit os fd s in Some ((r, crc), s))))"

definition load_compressed_module ::
  "os \<Rightarrow> files \<Rightarrow> crc_state \<Rightarrow> int \<Rightarrow> string \<Rightarrow> int \<Rightarrow> pst \<Rightarrow> ((int \<times> crc_state) \<times> pst) option" where
  "load_compressed_module os files crc fd path code s =
     (let (_, s) = psys os (Dev (Lseek fd)) s;
          ((r, saved), s) = finit_module_fd os fd 4 s;
          (_, s) = psys os (Close fd) s in
      if r = 0 then Some ((0, crc), s)
      else if saved \<noteq> EOPNOTSUPP then Some ((-1, crc), s)
      else load_decompressed os files crc path code s)"

definition load_module_path ::
  "os \<Rightarrow> files \<Rightarrow> crc_state \<Rightarrow> string \<Rightarrow> pst \<Rightarrow> ((int \<times> crc_state) \<times> pst) option" where
  "load_module_path os files crc path s =
     (let (fd, s) = open_module os path s in
      if fd < 0 then Some ((-1, crc), s)
      else
        let (n, s) = psys os (Read fd 4) s;
            code = decompress_magic (if a_ret n > 0 then take (nat (a_ret n)) (a_data n) else []) in
        if code \<noteq> 0 then load_compressed_module os files crc fd path code s
        else
          let (_, s) = psys os (Dev (Lseek fd)) s; (r, s) = finish_finit os fd s in Some ((r, crc), s))"

end
