(* ===== verification/Modprobe.thy ===== *)
theory Modprobe
  imports Modload
begin

text \<open>
  Loading a module with its dependencies (\<^verbatim>\<open>src/pkg/resolve.c\<close> and \<^verbatim>\<open>src/pkg/modprobe.c\<close>).  The static
  buffers of the two files are the record \<open>mods\<close>; a buffer whose capacity is 0 is the one whose
  data pointer is NULL.  \<open>uname\<close> gives the release as the path of its answer.
\<close>

record mods =
  mo_deps :: "byte buf"
  mo_deps_path :: string
  mo_proc :: "byte buf"
  mo_builtin :: "byte buf"
  mo_crc :: crc_state

definition mods0 :: mods where
  "mods0 = \<lparr>mo_deps = BUF_INIT, mo_deps_path = [], mo_proc = BUF_INIT, mo_builtin = BUF_INIT, mo_crc = crc_state0\<rparr>"

type_synonym mst = "pst \<times> mods"

definition text_of :: "byte buf \<Rightarrow> string" where
  "text_of b = map char_at (bdata b)"

definition have_data :: "byte buf \<Rightarrow> bool" where
  "have_data b \<longleftrightarrow> bcap b \<noteq> 0"

definition mcall :: "os \<Rightarrow> syscall \<Rightarrow> mst \<Rightarrow> answer \<times> mst" where
  "mcall os c x = (let (a, s) = psys os c (fst x) in (a, (s, snd x)))"

section \<open>Resolving\<close>

definition cache_matches :: "mods \<Rightarrow> string \<Rightarrow> bool" where
  "cache_matches m path \<longleftrightarrow> have_data (mo_deps m) \<and> mo_deps_path m = path"

definition load_deps_file :: "files \<Rightarrow> string \<Rightarrow> mst \<Rightarrow> int \<times> mst" where
  "load_deps_file files path x =
     (let (s, m) = x; m = m\<lparr>mo_deps := BUF_INIT, mo_deps_path := take 4159 path\<rparr> in
      if 4160 \<le> length path then (-1, (s, m))
      else let (r, b) = read_at files path 0 s in (r, (s, m\<lparr>mo_deps := b\<rparr>)))"

text \<open>The release, when the table is available.\<close>

definition read_deps :: "os \<Rightarrow> files \<Rightarrow> mst \<Rightarrow> string option \<times> mst" where
  "read_deps os files x =
     (let (u, x) = mcall os (Dev Uname) x in
      if a_ret u \<noteq> 0 then (None, x)
      else
        let path = build_modules_path MODULES_BASE (a_path u) ''modules.dep'';
            (r, x) = (if cache_matches (snd x) path then (0, x) else load_deps_file files path x)
        in (if r = 0 then Some (a_path u) else None, x))"

definition build_mod_path :: "string \<Rightarrow> string \<Rightarrow> string" where
  "build_mod_path mod_path release = build_modules_path MODULES_BASE release mod_path"

definition process_dep_line :: "string \<times> string \<Rightarrow> string \<Rightarrow> string \<times> string list" where
  "process_dep_line d release = (build_mod_path (fst d) release, extract_deps (snd d))"

definition resolve_module :: "os \<Rightarrow> files \<Rightarrow> string \<Rightarrow> mst \<Rightarrow> (string \<times> string list) option \<times> mst" where
  "resolve_module os files name x =
     (case read_deps os files x of
        (None, x) \<Rightarrow> (None, x)
      | (Some release, x) \<Rightarrow>
          (case find_in_buf (text_of (mo_deps (snd x))) name of
             None \<Rightarrow> (None, x)
           | Some d \<Rightarrow> (Some (process_dep_line d release), x)))"

section \<open>Status\<close>

definition modprobe_cache_invalidate :: "mst \<Rightarrow> mst" where
  "modprobe_cache_invalidate x = (fst x, (snd x)\<lparr>mo_proc := BUF_INIT, mo_builtin := BUF_INIT\<rparr>)"

definition is_loaded :: "files \<Rightarrow> string \<Rightarrow> mst \<Rightarrow> int \<times> mst" where
  "is_loaded files name x =
     (let (s, m) = x;
          (r, m) = (if have_data (mo_proc m) then (0, m)
                    else let (r, b) = read_at files ''/proc/modules'' 0 s in (r, m\<lparr>mo_proc := b\<rparr>)) in
      if r \<noteq> 0 then (-1, (s, m))
      else (if scan_module_list (text_of (mo_proc m)) name then 1 else 0, (s, m)))"

definition is_builtin :: "os \<Rightarrow> files \<Rightarrow> string \<Rightarrow> mst \<Rightarrow> int \<times> mst" where
  "is_builtin os files name x =
     (let (r, x) =
        (if have_data (mo_builtin (snd x)) then (0, x)
         else
           let (u, x) = mcall os (Dev Uname) x in
           if a_ret u \<noteq> 0 then (-1, x)
           else
             let (r, b) = read_at files (build_modules_path MODULES_BASE (a_path u) ''modules.builtin'') 0 (fst x)
             in (r, (fst x, (snd x)\<lparr>mo_builtin := b\<rparr>))) in
      if r \<noteq> 0 then (-1, x)
      else (if scan_module_list (text_of (mo_builtin (snd x))) name then 1 else 0, x))"

definition check_module_status :: "os \<Rightarrow> files \<Rightarrow> string \<Rightarrow> mst \<Rightarrow> int \<times> mst" where
  "check_module_status os files name x =
     (let (loaded, x) = is_loaded files name x in
      if loaded < 0 then (-1, x)
      else if loaded = 1 then (1, x)
      else
        let (builtin, x) = is_builtin os files name x in
        if builtin < 0 then (-1, x) else if builtin = 1 then (1, x) else (0, x))"

section \<open>Loading\<close>

definition load_path :: "os \<Rightarrow> files \<Rightarrow> string \<Rightarrow> mst \<Rightarrow> (int \<times> mst) option" where
  "load_path os files path x =
     map_option (\<lambda>((r, crc), s). (r, (s, (snd x)\<lparr>mo_crc := crc\<rparr>)))
       (load_module_path os files (mo_crc (snd x)) path (fst x))"

definition load_dep :: "os \<Rightarrow> files \<Rightarrow> string \<Rightarrow> mst \<Rightarrow> (int \<times> mst) option" where
  "load_dep os files name x =
     (case resolve_module os files name x of
        (None, x) \<Rightarrow> Some (-1, x)
      | (Some (dep_path, _), x) \<Rightarrow> load_path os files dep_path x)"

fun load_deps :: "os \<Rightarrow> files \<Rightarrow> string list \<Rightarrow> mst \<Rightarrow> (int \<times> mst) option" where
  "load_deps os files [] x = Some (0, x)"
| "load_deps os files (d # ds) x =
     (case load_dep os files d x of
        None \<Rightarrow> None
      | Some (r, x) \<Rightarrow> if r \<noteq> 0 then Some (-1, x) else load_deps os files ds x)"

definition modprobe_load :: "os \<Rightarrow> files \<Rightarrow> string \<Rightarrow> mst \<Rightarrow> (int \<times> mst) option" where
  "modprobe_load os files name x =
     (let (status, x) = check_module_status os files name x in
      if status < 0 then Some (-1, x)
      else if status = 1 then Some (0, x)
      else
        (case resolve_module os files name x of
           (None, x) \<Rightarrow> Some (-1, x)
         | (Some (mod_path, deps), x) \<Rightarrow>
             (case load_deps os files deps x of
                None \<Rightarrow> None
              | Some (r, x) \<Rightarrow>
                  if r \<noteq> 0 then Some (-1, x)
                  else
                    (case load_path os files mod_path x of
                       None \<Rightarrow> None
                     | Some (r, x) \<Rightarrow> Some (r, if r = 0 then modprobe_cache_invalidate x else x)))))"

end
