(* ===== verification/ModSpec.thy ===== *)
theory ModSpec
  imports Modprobe
begin

text \<open>
  A compressed module is handed to the kernel as its contents: reading the file, inflating it,
  writing it to a memory file in however many pieces, and loading that file, composed.
\<close>

text \<open>The bytes that the write calls of a trace took.\<close>

definition took :: "syscall \<times> answer \<Rightarrow> byte list" where
  "took = (\<lambda>(c, a). case c of Dev (Write_data fd d) \<Rightarrow> if a_ret a < 0 then [] else take (nat (a_ret a)) d | _ \<Rightarrow> [])"

definition only_writes :: "int \<Rightarrow> trace \<Rightarrow> bool" where
  "only_writes fd tr \<longleftrightarrow> list_all (\<lambda>c. case c of Dev (Write_data f d) \<Rightarrow> f = fd | _ \<Rightarrow> False) (calls tr)"

definition writes_to :: "int \<Rightarrow> byte list \<Rightarrow> pst \<Rightarrow> pst \<Rightarrow> bool" where
  "writes_to fd data s s' \<longleftrightarrow> (\<exists>w. fst s' = fst s @ w \<and> only_writes fd w \<and> concat (map took w) = data)"

lemma write_all_takes: "write_all os fd data s = Some y \<Longrightarrow> fst y = 0 \<longrightarrow> writes_to fd data s (snd y)"
proof (erule write_all.raw_induct [rotated])
  fix wr os fd data s y
  assume IH: "\<And>os fd data s y. wr os fd data s = Some y \<Longrightarrow> fst y = 0 \<longrightarrow> writes_to fd data s (snd y)"
    and e: "(if data = [] then Some (0 :: int, s)
      else
        (let (a, s) = psys os (Dev (Write_data fd data)) s in
         if a_ret a < 0 then (if a_errno a = EINTR then wr os fd data s else Some (-1, s))
         else wr os fd (drop (nat (a_ret a)) data) s)) = Some y"
  let ?c = "Dev (Write_data fd data)"
  let ?a = "os (fst s) ?c"
  let ?t = "(fst s @ [(?c, ?a)], snd s)"
  have step: "writes_to fd (took (?c, ?a) @ d) s u" if "writes_to fd d ?t u" for d u
    using that by (fastforce simp: writes_to_def only_writes_def)
  show "fst y = 0 \<longrightarrow> writes_to fd data s (snd y)"
  proof (cases "data = []")
    case True
    then show ?thesis using e by (auto simp: writes_to_def only_writes_def)
  next
    case False
    consider (again) "a_ret ?a < 0" "wr os fd data ?t = Some y" | (bad) "fst y = -1"
      | (part) "0 \<le> a_ret ?a" "wr os fd (drop (nat (a_ret ?a)) data) ?t = Some y"
      using e False by (fastforce simp: psys_eq Let_def split: if_splits)
    then show ?thesis
    proof cases
      case again
      then show ?thesis using step [of data "snd y"] IH [OF again(2)] by (simp add: took_def)
    next
      case part
      then show ?thesis using step [of "drop (nat (a_ret ?a)) data" "snd y"] IH [OF part(2)]
        by (simp add: took_def)
    next
      case bad
      then have "fst y \<noteq> 0" by simp
      then show ?thesis by blast
    qed
  qed
qed

lemma open_read_loop_all:
  assumes "\<forall>i. \<exists>k. sc i = Some k \<and> 4096 \<le> k"
  shows "fst (open_read_loop sc i rest b) = 0 \<and> bdata (snd (open_read_loop sc i rest b)) = bdata b @ rest"
proof (induction "length rest" arbitrary: i rest b rule: less_induct)
  case less
  obtain k where k: "sc i = Some k" "4096 \<le> k" using assms by blast
  have r: "sys_read sc i CHUNK rest = Some (take 4096 rest)"
    using k by (simp add: sys_read_def CHUNK_def min_def)
  have g: "bdata (buf_grow b (of_nat CHUNK)) = bdata b" by (simp add: buf_grow_def)
  show ?case
  proof (cases "4096 \<le> length rest")
    case True
    then show ?thesis using less [of "drop 4096 rest"] r g
      by (subst (1 2) open_read_loop.simps) (simp add: Let_def CHUNK_def min_def)
  next
    case False
    then show ?thesis using r g by (subst (1 2) open_read_loop.simps) (simp add: Let_def CHUNK_def)
  qed
qed

text \<open>
  C35: the kernel gets the module, not its compressed form.  Let a file be a gzip member of the
  data \<open>blocks_data [] bs\<close> whose reads come back full.  If \<open>load_decompressed\<close> succeeds on it, it has
  made a memory file, written to that file alone, in however many and however interrupted
  writes, exactly this data, gone back to its start and loaded it; and the kernel accepted the
  module or had it already.
\<close>

theorem gzip_module_is_loaded:
  assumes member: "gz_header_ok h" "bs \<noteq> []" "blocks_ok [] bs" "length (blocks_data [] bs) < 2 ^ 64"
    and cont: "files (fst s) path = (Some (gzip_member h bs), sc)" "\<forall>i. \<exists>k. sc i = Some k \<and> 4096 \<le> k"
    and crc: "crc_ready crc"
    and run: "load_decompressed os files crc path 1 s = Some ((0, crc'), s')"
  shows "\<exists>m w l a c. let fd = a_ret m in
    fst s' = fst s @ [(Dev Memfd_create, m)] @ w @
      [(Dev (Lseek fd), l), (Dev (Finit_module fd [] 0), a), (Close fd, c)] \<and>
    0 \<le> fd \<and> only_writes fd w \<and> concat (map took w) = blocks_data [] bs \<and>
    (a_ret a = 0 \<or> a_errno a = EEXIST)"
proof -
  obtain b where b: "open_and_read (Some (gzip_member h bs)) sc BUF_INIT = (0, b)" "bdata b = gzip_member h bs"
    using open_read_loop_all [OF cont(2), of 0 "gzip_member h bs" BUF_INIT]
    by (cases "open_read_loop sc 0 (gzip_member h bs) BUF_INIT") (simp add: open_and_read_def BUF_INIT_def)
  obtain out crc1 where z: "decompress_gzip crc (gzip_member h bs) BUF_INIT = (Some out, crc1)"
      "bdata out = blocks_data [] bs"
    using decompress_gzip_member [OF member crc] by blast
  have f: "mod_format_by_code 1 = Some \<lparr>mf_code = 1, mf_magic = [0x1F, 0x8B], mf_suffix = ''.gz'', mf_filter = None\<rparr>"
    by (simp add: mod_format_by_code_def formats_def)
  let ?m = "os (fst s) (Dev Memfd_create)"
  let ?t = "(fst s @ [(Dev Memfd_create, ?m)], snd s)"
  have g: "decompress_gzip_to_fd os files crc path s =
      (if a_ret ?m < 0 then Some ((-1, crc1), ?t)
       else case buf_write_to_fd os (a_ret ?m) (blocks_data [] bs) ?t of
              None \<Rightarrow> None
            | Some (r, s) \<Rightarrow>
                if r \<noteq> 0 then let (_, s) = psys os (Close (a_ret ?m)) s in Some ((-1, crc1), s)
                else Some ((a_ret ?m, crc1), s))"
    by (simp add: decompress_gzip_to_fd_def cont(1) b z psys_eq Let_def)
  have pos: "0 \<le> a_ret ?m"
    using run by (auto simp: load_decompressed_def f g split: if_splits)
  obtain u where u: "buf_write_to_fd os (a_ret ?m) (blocks_data [] bs) ?t = Some (0, u)"
    using run pos by (fastforce simp: load_decompressed_def f g psys_eq Let_def split: option.splits prod.splits if_splits)
  then obtain v where v: "write_all os (a_ret ?m) (blocks_data [] bs) ?t = Some (0, v)"
      "u = snd (psys os (Dev (Lseek (a_ret ?m))) v)"
    by (auto simp: buf_write_to_fd_def psys_eq Let_def split: option.splits if_splits)
  obtain w where w: "fst v = fst ?t @ w" "only_writes (a_ret ?m) w" "concat (map took w) = blocks_data [] bs"
    using write_all_takes [OF v(1)] by (auto simp: writes_to_def)
  have "finish_finit os (a_ret ?m) u = (0, s')"
    using run pos u by (auto simp: load_decompressed_def f g Let_def split: prod.splits)
  then obtain a c where a: "fst s' = fst u @ [(Dev (Finit_module (a_ret ?m) [] 0), a), (Close (a_ret ?m), c)]"
      "a_ret a = 0 \<or> a_errno a = EEXIST"
    by (auto simp: finish_finit_def finit_module_fd_def psys_eq Let_def split: if_splits)
  show ?thesis
    by (rule exI [of _ ?m], rule exI [of _ w]) (use a w pos v(2) in \<open>auto simp: psys_eq Let_def\<close>)
qed

text \<open>A system whose writes take everything and whose other calls succeed.\<close>

definition taking_os :: os where
  "taking_os tr c = (case c of Dev (Write_data fd d) \<Rightarrow> ret (int (length d)) | _ \<Rightarrow> ret 0)"

definition sample_file :: files where
  "sample_file tr p = (Some (gzip_member sample_header [Stored [1, 2, 3]]), \<lambda>_. Some 4096)"

lemma write_all_taking: "\<exists>u. write_all taking_os fd data s = Some (0, u)"
  by (subst write_all.simps) (simp add: psys_eq taking_os_def Let_def write_all.simps [of _ _ "[]"])

lemma load_sample: "\<exists>crc' s'. load_decompressed taking_os sample_file crc_state0 p 1 ([], []) = Some ((0, crc'), s')"
proof -
  obtain b where b: "open_and_read (Some (gzip_member sample_header [Stored [1, 2, 3]])) (\<lambda>_. Some 4096) BUF_INIT = (0, b)"
      "bdata b = gzip_member sample_header [Stored [1, 2, 3]]"
    using open_read_loop_all [of "\<lambda>_. Some 4096" 0 "gzip_member sample_header [Stored [1, 2, 3]]" BUF_INIT]
    by (cases "open_read_loop (\<lambda>_. Some 4096) 0 (gzip_member sample_header [Stored [1, 2, 3]]) BUF_INIT")
      (simp add: open_and_read_def BUF_INIT_def)
  obtain out crc1 where z: "decompress_gzip crc_state0 (gzip_member sample_header [Stored [1, 2, 3]]) BUF_INIT = (Some out, crc1)"
    using sample_member [of "[1, 2, 3]"] by auto
  have c0: "taking_os tr (Dev Memfd_create) = ret 0" for tr by (simp add: taking_os_def)
  let ?t = "(([(Dev Memfd_create, ret 0)], []) :: pst)"
  obtain u where u: "write_all taking_os 0 (bdata out) ?t = Some (0, u)" using write_all_taking by blast
  have "buf_write_to_fd taking_os 0 (bdata out) ?t = Some (0, snd (psys taking_os (Dev (Lseek 0)) u))"
    by (simp add: buf_write_to_fd_def u psys_eq taking_os_def)
  moreover have "fst (finish_finit taking_os 0 v) = 0" for v
    by (simp add: finish_finit_def finit_module_fd_def psys_eq taking_os_def Let_def)
  ultimately show ?thesis
    by (simp add: load_decompressed_def mod_format_by_code_def formats_def decompress_gzip_to_fd_def sample_file_def b z
        psys_eq c0 split_def Let_def)
qed

lemma gzip_module_is_loaded_witness:
  "\<exists>crc' s'. load_decompressed taking_os sample_file crc_state0 ''m.ko.gz'' 1 ([], []) = Some ((0, crc'), s') \<and>
     (\<exists>m w l a c. let fd = a_ret m in
        fst s' = [] @ [(Dev Memfd_create, m)] @ w @
          [(Dev (Lseek fd), l), (Dev (Finit_module fd [] 0), a), (Close fd, c)] \<and>
        0 \<le> fd \<and> only_writes fd w \<and> concat (map took w) = [1, 2, 3] \<and> (a_ret a = 0 \<or> a_errno a = EEXIST))"
proof -
  obtain crc' s' where r: "load_decompressed taking_os sample_file crc_state0 ''m.ko.gz'' 1 ([], []) = Some ((0, crc'), s')"
    using load_sample by blast
  have h: "gz_header_ok sample_header" "blocks_ok [] [Stored [1, 2, 3 :: byte]]"
    by (simp_all add: gz_header_ok_def sample_header_def)
  have d: "blocks_data [] [Stored [1, 2, 3]] = [1, 2, 3]" by (simp add: blocks_data_def)
  have f: "sample_file (fst ([], [])) ''m.ko.gz'' = (Some (gzip_member sample_header [Stored [1, 2, 3]]), \<lambda>_. Some 4096)"
    by (simp add: sample_file_def)
  show ?thesis
    using gzip_module_is_loaded [OF h(1) _ h(2) _ _ _ crc_ready_state0 r, of "\<lambda>_. Some 4096"] f r by (auto simp: d)
qed

end
