(* ===== verification/Loop.thy ===== *)
theory Loop
  imports Modprobe
begin

text \<open>
  Loop devices (\<^verbatim>\<open>src/sandbox/loop.c\<close>).  The state is that of the module loader, because the loop
  module may have to be loaded.  \<open>O_RDWR | O_CLOEXEC\<close> is 524290, \<open>LO_FLAGS_AUTOCLEAR\<close> is 4.
\<close>

definition loop_open_control :: "os \<Rightarrow> files \<Rightarrow> mst \<Rightarrow> (int \<times> mst) option" where
  "loop_open_control os files x =
     (let (e, x) = mcall os (Access ''/dev/loop-control'') x in
      if a_ret e \<noteq> 0 \<and> a_errno e \<noteq> ENOENT \<and> a_errno e \<noteq> EACCES then Some (-1, x)
      else
        (case (if a_ret e \<noteq> 0 then modprobe_load os files ''loop'' x else Some (0, x)) of
           None \<Rightarrow> None
         | Some (r, x) \<Rightarrow>
             if r \<noteq> 0 then Some (-1, x)
             else let (a, x) = mcall os (Dev Loop_control) x in Some (a_ret a, x)))"

definition loop_control_alloc :: "os \<Rightarrow> files \<Rightarrow> mst \<Rightarrow> (int \<times> mst) option" where
  "loop_control_alloc os files x =
     (case loop_open_control os files x of
        None \<Rightarrow> None
      | Some (fd, x) \<Rightarrow>
          if fd < 0 then Some (-1, x)
          else
            let (g, x) = mcall os (Dev (Loop_get_free fd)) x in
            if a_ret g \<ge> 0 then let (_, x) = mcall os (Close fd) x in Some (a_ret g, x)
            else
              let (n, x) = (if a_errno g \<noteq> ENOSPC then
                              let (a, x) = mcall os (Dev (Loop_add fd)) x in (a_ret a, x)
                            else (-1, x));
                  (_, x) = mcall os (Close fd) x
              in Some (if n \<ge> 0 then n else -1, x))"

text \<open>The numbers still to be tried; 256 in all.\<close>

fun dev_scan_from :: "os \<Rightarrow> nat list \<Rightarrow> mst \<Rightarrow> int \<times> mst" where
  "dev_scan_from os [] x = (-1, x)"
| "dev_scan_from os (n # ns) x =
     (let (f, x) = mcall os (Dev (Loop_open (int n))) x; fd = a_ret f in
      if fd < 0 then dev_scan_from os ns x
      else
        let (g, x) = mcall os (Dev (Loop_get_stat fd)) x; (_, x) = mcall os (Close fd) x in
        if a_ret g < 0 \<and> a_errno g = ENXIO then (int n, x) else dev_scan_from os ns x)"

definition scan_loop_devices :: "os \<Rightarrow> mst \<Rightarrow> int \<times> mst" where
  "scan_loop_devices os x = dev_scan_from os [0..<256] x"

definition find_free_loop :: "os \<Rightarrow> files \<Rightarrow> mst \<Rightarrow> (int \<times> mst) option" where
  "find_free_loop os files x =
     (case loop_control_alloc os files x of
        None \<Rightarrow> None
      | Some (n, x) \<Rightarrow> if n \<ge> 0 then Some (n, x) else Some (scan_loop_devices os x))"

definition loop_set_autoclear :: "os \<Rightarrow> int \<Rightarrow> mst \<Rightarrow> int \<times> mst" where
  "loop_set_autoclear os fd x =
     (let (a, x) = mcall os (Dev (Loop_set_status fd 4)) x in
      if a_ret a \<noteq> 0 then let (_, x) = mcall os (Dev (Loop_clr_fd fd)) x in (a_ret a, x) else (a_ret a, x))"

definition open_rw :: "os \<Rightarrow> string \<Rightarrow> mst \<Rightarrow> int \<times> mst" where
  "open_rw os path x = (let (a, x) = mcall os (Open path 524290) x in (a_ret a, x))"

text \<open>The open loop device and its name.\<close>

definition io_loop :: "os \<Rightarrow> files \<Rightarrow> string \<Rightarrow> mst \<Rightarrow> ((int \<times> string) \<times> mst) option" where
  "io_loop os files path x =
     (case find_free_loop os files x of
        None \<Rightarrow> None
      | Some (n, x) \<Rightarrow>
          if n < 0 then Some ((-1, []), x)
          else
            let dev = ''/dev/loop'' @ dec_int n; (img_fd, x) = open_rw os path x in
            if img_fd < 0 then Some ((-1, dev), x)
            else
              let (l, x) = mcall os (Dev (Loop_open n)) x; loop_fd = a_ret l in
              if loop_fd < 0 then let (_, x) = mcall os (Close img_fd) x in Some ((-1, dev), x)
              else
                let (a, x) = mcall os (Dev (Loop_set_fd loop_fd img_fd)) x;
                    (_, x) = mcall os (Close img_fd) x;
                    (err, x) = (if a_ret a = 0 then loop_set_autoclear os loop_fd x else (a_ret a, x)) in
                if err \<noteq> 0 then let (_, x) = mcall os (Close loop_fd) x in Some ((-1, dev), x)
                else Some ((loop_fd, dev), x))"

end
