(* ===== verification/Appdir.thy ===== *)
theory Appdir
  imports Args IoCalls
begin

text \<open>
  The application directories (\<^verbatim>\<open>src/sandbox/appdir.c\<close>): where the upper, work and lower directory of
  the overlay lie.  Each array of \<open>appdir_t\<close> has 4096 bytes; \<open>None\<close> is a path that does not fit.
\<close>

definition APPDIR_BASE :: string where "APPDIR_BASE = ''/var/lib/cage''"

record appdir =
  ad_appdir :: string
  ad_upperdir :: string
  ad_workdir :: string
  ad_lowerdir :: string
  ad_dirs_created :: bool

definition appdir_zero :: appdir where
  "appdir_zero = \<lparr>ad_appdir = [], ad_upperdir = [], ad_workdir = [], ad_lowerdir = [], ad_dirs_created = False\<rparr>"

text \<open>\<open>snprintf\<close> into an array of 4096 bytes, with an overlong text refused.\<close>

definition fit :: "string \<Rightarrow> string option" where
  "fit t = (if length t < 4096 then Some t else None)"

definition join :: "nat \<Rightarrow> string \<Rightarrow> string \<Rightarrow> string option" where
  "join n base leaf =
     (if n < length base + 1 + length leaf + 1 then None else Some (base @ ''/'' @ leaf))"

definition set_appdir :: "cage_config \<Rightarrow> string option" where
  "set_appdir cfg =
     (case cf_appdir cfg of
        Some a \<Rightarrow> fit a
      | None \<Rightarrow>
          (case cf_name cfg of
             Some n \<Rightarrow> fit (APPDIR_BASE @ ''/app-'' @ n)
           | None \<Rightarrow> fit (APPDIR_BASE @ ''/default'')))"

definition set_dir :: "nat \<Rightarrow> string option \<Rightarrow> string \<Rightarrow> string option \<Rightarrow> string option" where
  "set_dir n src appdir suffix =
     (case src of
        Some p \<Rightarrow> if n \<le> length p then None else Some p
      | None \<Rightarrow> (case suffix of Some x \<Rightarrow> join n appdir x | None \<Rightarrow> Some ''/''))"

definition resolve_appdir :: "cage_config \<Rightarrow> appdir option" where
  "resolve_appdir cfg =
     (case set_appdir cfg of
        None \<Rightarrow> None
      | Some a \<Rightarrow>
          (case set_dir 4096 (cf_upperdir cfg) a (Some ''upper'') of
             None \<Rightarrow> None
           | Some u \<Rightarrow>
               (case set_dir 4096 (cf_workdir cfg) a (Some ''work'') of
                  None \<Rightarrow> None
                | Some w \<Rightarrow>
                    (case set_dir 4096 (Some (cf_lowerdir cfg)) a None of
                       None \<Rightarrow> None
                     | Some l \<Rightarrow>
                         Some (appdir_zero\<lparr>ad_appdir := a, ad_upperdir := u, ad_workdir := w, ad_lowerdir := l\<rparr>)))))"

end
