(* ===== verification/Overlay.thy ===== *)
theory Overlay
  imports Appdir Modprobe
begin

text \<open>
  The overlay (\<^verbatim>\<open>src/sandbox/overlay.c\<close>): its option string, and mounting it, with the module loaded
  when the kernel does not know the file system.  Messages are not modelled, and so the call of
  \<open>statfs\<close> that only chooses one is the only trace of them.
\<close>

section \<open>Options\<close>

definition needs_escape :: "char \<Rightarrow> bool" where
  "needs_escape c \<longleftrightarrow> c = CHR 0x5C \<or> c = CHR '',''"

definition count_escapes :: "string \<Rightarrow> nat" where
  "count_escapes s = foldl (\<lambda>n c. if needs_escape c then n + 1 else n) 0 s"

definition append_comp :: "string \<Rightarrow> string \<Rightarrow> string \<Rightarrow> string" where
  "append_comp p pfx s = foldl (\<lambda>p c. if needs_escape c then p @ [CHR 0x5C, c] else p @ [c]) (p @ pfx) s"

text \<open>The size that is allocated and the text that is written.\<close>

definition overlay_opts_size :: "string \<Rightarrow> string \<Rightarrow> string \<Rightarrow> nat" where
  "overlay_opts_size lower upper work =
     33 + length lower + length upper + length work +
     (count_escapes lower + count_escapes upper + count_escapes work) * 3"

definition build_overlay_opts :: "string \<Rightarrow> string \<Rightarrow> string \<Rightarrow> string" where
  "build_overlay_opts lower upper work =
     append_comp (append_comp (append_comp [] ''lowerdir='' lower) '',upperdir='' upper) '',workdir='' work"

section \<open>Mounting\<close>

definition try_mount_overlay :: "os \<Rightarrow> files \<Rightarrow> string \<Rightarrow> string \<Rightarrow> mst \<Rightarrow> (int \<times> mst) option" where
  "try_mount_overlay os files root opts x =
     (let m = Ns (Mount (Some ''overlay'') root (Some ''overlay'') 0 (Some opts));
          (a, x) = mcall os m x in
      if a_ret a = 0 \<or> a_errno a \<noteq> ENODEV then Some (a_ret a, x)
      else
        (case modprobe_load os files ''overlay'' x of
           None \<Rightarrow> None
         | Some (r, x) \<Rightarrow> if r \<noteq> 0 then Some (-1, x) else let (a, x) = mcall os m x in Some (a_ret a, x)))"

definition overlay_mount_result :: "os \<Rightarrow> int \<Rightarrow> string \<Rightarrow> mst \<Rightarrow> int \<times> mst" where
  "overlay_mount_result os r upper x =
     (if r = 0 then (0, x) else let (_, x) = mcall os (Ns (Statfs upper)) x in (-1, x))"

definition prepare_overlay :: "os \<Rightarrow> files \<Rightarrow> string \<Rightarrow> appdir \<Rightarrow> mst \<Rightarrow> (int \<times> mst) option" where
  "prepare_overlay os files root dirs x =
     (let (s, m) = x;
          (bad, s) =
            (if ad_dirs_created dirs then (False, s)
             else
               let s = (case strrchr_pos CHR ''/'' (ad_upperdir dirs) of
                          Some k \<Rightarrow> snd (io_mkdir os (take k (ad_upperdir dirs)) s)
                        | None \<Rightarrow> s);
                   (r, s) = io_mkdir os (ad_upperdir dirs) s in
               if r \<noteq> 0 then (True, s)
               else let (r, s) = io_mkdir os (ad_workdir dirs) s in (r \<noteq> 0, s)) in
      if bad then Some (-1, (s, m))
      else
        (case try_mount_overlay os files root
                (build_overlay_opts (ad_lowerdir dirs) (ad_upperdir dirs) (ad_workdir dirs)) (s, m) of
           None \<Rightarrow> None
         | Some (r, x) \<Rightarrow> Some (overlay_mount_result os r (ad_upperdir dirs) x)))"

section \<open>The options are read back as the directories\<close>

text \<open>
  How the kernel's overlay driver takes the options apart: at the commas that no backslash
  protects, each into a key and a value at the first equals sign; then one level of backslashes
  is dropped from the value of \<^verbatim>\<open>upperdir\<close> and of \<^verbatim>\<open>workdir\<close>, and that of
  \<^verbatim>\<open>lowerdir\<close> is cut into layers at the colons that no backslash protects, with one level of
  backslashes dropped from each.
\<close>

fun split_opts :: "string \<Rightarrow> string \<times> string list" where
  "split_opts [] = ([], [])"
| "split_opts (c # s) =
     (if c = CHR 0x5C then
        (case s of
           [] \<Rightarrow> ([c], [])
         | d # t \<Rightarrow> (case split_opts t of (h, r) \<Rightarrow> (c # d # h, r)))
      else (case split_opts s of (h, r) \<Rightarrow> if c = CHR '','' then ([], h # r) else (c # h, r)))"

fun unescape :: "string \<Rightarrow> string" where
  "unescape [] = []"
| "unescape (c # s) =
     (if c = CHR 0x5C then (case s of [] \<Rightarrow> [] | d # t \<Rightarrow> d # unescape t) else c # unescape s)"

fun split_layers :: "string \<Rightarrow> string list" where
  "split_layers [] = [[]]"
| "split_layers (c # s) =
     (if c = CHR 0x5C then
        (case s of
           [] \<Rightarrow> [[]]
         | d # t \<Rightarrow> (case split_layers t of [] \<Rightarrow> [[d]] | h # r \<Rightarrow> (d # h) # r))
      else if c = CHR '':'' then [] # split_layers s
      else (case split_layers s of [] \<Rightarrow> [[c]] | h # r \<Rightarrow> (c # h) # r))"

datatype overlay_opt = Lower "string list" | Upper string | Work string | Unknown_opt string

definition read_opt :: "string \<Rightarrow> overlay_opt" where
  "read_opt s =
     (let key = takeWhile (\<lambda>c. c \<noteq> CHR ''='') s; val = drop (length key + 1) s in
      if key = ''lowerdir'' then Lower (split_layers val)
      else if key = ''upperdir'' then Upper (unescape val)
      else if key = ''workdir'' then Work (unescape val)
      else Unknown_opt s)"

definition kernel_opts :: "string \<Rightarrow> overlay_opt list" where
  "kernel_opts s = (case split_opts s of (h, r) \<Rightarrow> map read_opt (h # r))"

definition escaped :: "string \<Rightarrow> string" where
  "escaped s = concat (map (\<lambda>c. if needs_escape c then [CHR 0x5C, c] else [c]) s)"

lemma append_comp_escaped: "append_comp p pfx s = p @ pfx @ escaped s"
proof -
  have "foldl (\<lambda>p c. if needs_escape c then p @ [CHR 0x5C, c] else p @ [c]) q s = q @ escaped s" for q
    by (induction s arbitrary: q) (simp_all add: escaped_def)
  then show ?thesis by (simp add: append_comp_def)
qed

lemma count_escapes_filter: "count_escapes s = length (filter needs_escape s)"
proof -
  have "foldl (\<lambda>n c. if needs_escape c then n + 1 else n) k s = k + length (filter needs_escape s)" for k :: nat
    by (induction s arbitrary: k) simp_all
  then show ?thesis by (simp add: count_escapes_def)
qed

lemma length_escaped: "length (escaped s) = length s + length (filter needs_escape s)"
  by (induction s) (simp_all add: escaped_def)

lemma split_escaped:
  "split_opts (escaped s @ t) = (case split_opts t of (h, r) \<Rightarrow> (escaped s @ h, r))"
  by (induction s) (auto simp: escaped_def needs_escape_def split: prod.splits)

lemma unescape_escaped: "unescape (escaped s @ t) = s @ unescape t"
  by (induction s) (auto simp: escaped_def needs_escape_def)

lemma plain_escaped: "list_all (\<lambda>c. \<not> needs_escape c) p \<Longrightarrow> escaped p = p"
  by (induction p) (simp_all add: escaped_def)

lemma split_layers_escaped: "split_layers (escaped s) = split_on (CHR '':'') s"
proof (induction s)
  case (Cons c s)
  have e: "escaped (c # s) = (if needs_escape c then CHR 0x5C # c # escaped s else c # escaped s)"
    by (simp add: escaped_def)
  show ?case using Cons.IH unfolding e by (auto simp: needs_escape_def split: list.splits)
qed (simp add: escaped_def)

lemma read_opt_escaped:
  "read_opt (''lowerdir='' @ escaped s) = Lower (split_on (CHR '':'') s)"
  "read_opt (''upperdir='' @ escaped s) = Upper s"
  "read_opt (''workdir='' @ escaped s) = Work s"
  using unescape_escaped [of s "[]"] by (simp_all add: read_opt_def Let_def split_layers_escaped)

text \<open>
  C36: the kernel sees the upper and the work directory that were meant, and the layers that the
  lower directory names.  For all three directories, whatever commas, backslashes, colons and equals signs they
  contain, the option string taken apart the way the overlay driver does gives exactly three
  options: the lower layers, which are the given text cut at its colons, so the given directory
  alone just when it has no colon; the upper and the work directory as they were given.  And the
  string with its terminating NUL fits the memory that was allocated for it.
\<close>

theorem overlay_opts_roundtrip:
  "kernel_opts (build_overlay_opts lower upper work) = [Lower (split_on (CHR '':'') lower), Upper upper, Work work] \<and>
   (CHR '':'' \<notin> set lower \<longleftrightarrow> split_on (CHR '':'') lower = [lower]) \<and>
   length (build_overlay_opts lower upper work) + 1 \<le> overlay_opts_size lower upper work"
proof -
  have p: "escaped ''lowerdir='' = ''lowerdir=''" "escaped ''upperdir='' = ''upperdir=''" "escaped ''workdir='' = ''workdir=''"
    by (simp_all add: plain_escaped needs_escape_def)
  have e: "escaped (a @ b) = escaped a @ escaped b" for a b by (simp add: escaped_def)
  have b: "build_overlay_opts lower upper work =
      escaped (''lowerdir='' @ lower) @ CHR '','' # escaped (''upperdir='' @ upper) @ CHR '','' # escaped (''workdir='' @ work)"
    unfolding build_overlay_opts_def append_comp_escaped e p by simp
  have c: "split_opts (CHR '','' # t) = (case split_opts t of (h, r) \<Rightarrow> ([], h # r))" for t by simp
  have l: "split_opts (escaped s) = (escaped s, [])" for s using split_escaped [of s "[]"] by simp
  have "split_opts (build_overlay_opts lower upper work) =
      (escaped (''lowerdir='' @ lower), [escaped (''upperdir='' @ upper), escaped (''workdir='' @ work)])"
    unfolding b by (simp only: split_escaped c l prod.case append_Nil2)
  then have "kernel_opts (build_overlay_opts lower upper work) =
     [Lower (split_on (CHR '':'') lower), Upper upper, Work work]"
    unfolding kernel_opts_def e p by (simp only: prod.case list.map read_opt_escaped)
  moreover have "length (build_overlay_opts lower upper work) + 1 \<le> overlay_opts_size lower upper work"
    unfolding build_overlay_opts_def append_comp_escaped overlay_opts_size_def
    by (simp add: length_escaped count_escapes_filter)
  moreover have "CHR '':'' \<notin> set lower \<longleftrightarrow> split_on (CHR '':'') lower = [lower]"
    using split_on_nosep [of "CHR '':''" lower] split_on_pieces [of lower "CHR '':''" lower] by auto
  ultimately show ?thesis by blast
qed

end
