(* ===== verification/Ext4Fix.thy ===== *)
theory Ext4Fix
  imports Loop Overlay Ext4Image
begin

text \<open>
  The ext4 loopback for application directories that conflict with the lower directory
  (\<^verbatim>\<open>src/sandbox/ext4fix.c\<close>).  The state adds to that of the module loader the image files by path; the
  parameter \<open>ev\<close> gives the environment of the image writer after a trace.  Messages are not
  modelled, memory is available.
\<close>

type_synonym imgs = "string \<Rightarrow> img_file"
type_synonym fst_state = "mst \<times> imgs"

definition OVERLAYFS_SUPER_MAGIC :: nat where "OVERLAYFS_SUPER_MAGIC = 0x794c7630"
definition LOOP_SUFFIX :: string where "LOOP_SUFFIX = ''-loop''"

record loop_t =
  lp_loopdir :: string
  lp_loop_img :: string
  lp_loop_appdir :: string

section \<open>Paths\<close>

definition grandparent :: "string \<Rightarrow> string option" where
  "grandparent path =
     (case strrchr_pos CHR ''/'' path of
        None \<Rightarrow> None
      | Some k \<Rightarrow>
          if k = 0 then None
          else
            (case strrchr_pos CHR ''/'' (take k path) of
               None \<Rightarrow> Some (take k path)
             | Some j \<Rightarrow> if j > 0 then Some (take j path) else Some (take k path)))"

function resolve_existing_parent :: "os \<Rightarrow> string \<Rightarrow> pst \<Rightarrow> (int \<times> string) \<times> pst" where
  "resolve_existing_parent os path s =
     (let (r, s) = io_exists_at os path s in
      if r < 0 then ((-1, path), s)
      else if r = 0 then ((0, path), s)
      else
        (case strrchr_pos CHR ''/'' path of
           None \<Rightarrow> ((0, path), s)
         | Some k \<Rightarrow> if k = 0 then ((0, take 1 path), s) else resolve_existing_parent os (take k path) s))"
  by pat_completeness auto
termination
  by (relation "measure (\<lambda>(os, path, s). length path)") (auto dest: strrchr_pos_Some)

declare resolve_existing_parent.simps [simp del]

definition stat_dev :: "os \<Rightarrow> string \<Rightarrow> string \<Rightarrow> pst \<Rightarrow> int \<times> pst" where
  "stat_dev os a b s =
     (let (x, s) = psys os (Stat a) s in
      if a_ret x \<noteq> 0 then (-1, s)
      else
        let (y, s) = psys os (Stat b) s in
        if a_ret y \<noteq> 0 then (-1, s)
        else (if st_dev (a_stat x) = st_dev (a_stat y) then 1 else 0, s))"

definition is_within :: "string \<Rightarrow> string \<Rightarrow> bool" where
  "is_within path dir =
     (let dl = (if dir \<noteq> [] \<and> last dir = CHR ''/'' then length dir - 1 else length dir) in
      if dl = 0 then path \<noteq> [] \<and> path ! 0 = CHR ''/''
      else if take dl path \<noteq> take dl dir then False
      else length path = dl \<or> path ! dl = CHR ''/'')"

definition on_overlayfs :: "os \<Rightarrow> string \<Rightarrow> pst \<Rightarrow> bool \<times> pst" where
  "on_overlayfs os path s =
     (let (a, s) = psys os (Ns (Statfs path)) s in
      (a_ret a = 0 \<and> st_dev (a_stat a) = OVERLAYFS_SUPER_MAGIC, s))"

text \<open>The second component is the device of the lower directory, when it could be looked at.\<close>

definition needs_loopback :: "os \<Rightarrow> string \<Rightarrow> string \<Rightarrow> pst \<Rightarrow> (int \<times> nat) \<times> pst" where
  "needs_loopback os ap lowerdir s =
     (let (a, s) = psys os (Stat lowerdir) s; dev = st_dev (a_stat a) in
      if a_ret a \<noteq> 0 then ((-1, 0), s)
      else if is_within ap lowerdir then let (r, s) = stat_dev os lowerdir ap s in ((r, dev), s)
      else let (o', s) = on_overlayfs os ap s in ((if o' then 1 else 0, dev), s))"

definition same_fs_detect :: "os \<Rightarrow> string \<Rightarrow> string \<Rightarrow> pst \<Rightarrow> (int \<times> nat) \<times> pst" where
  "same_fs_detect os lowerdir upperdir s =
     (let ap = (case strrchr_pos CHR ''/'' upperdir of Some k \<Rightarrow> take k upperdir | None \<Rightarrow> upperdir);
          ((r, ap), s) = resolve_existing_parent os ap s in
      if r \<noteq> 0 then ((-1, 0), s) else needs_loopback os ap lowerdir s)"

definition appdir_parent :: "string \<Rightarrow> string option" where
  "appdir_parent appdir =
     fit (case strrchr_pos CHR ''/'' appdir of
            None \<Rightarrow> appdir
          | Some k \<Rightarrow> if k = 0 then appdir else take k appdir)"

definition derive_loopdir :: "string \<Rightarrow> string option" where
  "derive_loopdir appdir =
     (case appdir_parent appdir of
        None \<Rightarrow> None
      | Some parent \<Rightarrow>
          fit (parent @
               (if 5 \<le> length parent \<and> drop (length parent - 5) parent = LOOP_SUFFIX then [] else LOOP_SUFFIX)))"

definition path_under :: "string \<Rightarrow> string \<Rightarrow> bool" where
  "path_under path dir \<longleftrightarrow>
     starts_with dir path \<and> (length path = length dir \<or> path ! length dir = CHR ''/'')"

definition appdir_leaf :: "string \<Rightarrow> string" where
  "appdir_leaf appdir =
     (case strrchr_pos CHR ''/'' appdir of Some k \<Rightarrow> drop (k + 1) appdir | None \<Rightarrow> ''default'')"

definition loop_build :: "string \<Rightarrow> string \<Rightarrow> loop_t option" where
  "loop_build base leaf =
     (case fit base of
        None \<Rightarrow> None
      | Some d \<Rightarrow>
          (case fit (d @ ''.img'') of
             None \<Rightarrow> None
           | Some i \<Rightarrow>
               (case fit (d @ ''/'' @ leaf) of
                  None \<Rightarrow> None
                | Some a \<Rightarrow> Some \<lparr>lp_loopdir = d, lp_loop_img = i, lp_loop_appdir = a\<rparr>)))"

definition loop_fill :: "string \<Rightarrow> loop_t option" where
  "loop_fill appdir =
     (case derive_loopdir appdir of None \<Rightarrow> None | Some d \<Rightarrow> loop_build d (appdir_leaf appdir))"

definition mkdir_checked :: "os \<Rightarrow> string \<Rightarrow> pst \<Rightarrow> int \<times> pst" where
  "mkdir_checked os path s = (let (r, s) = io_mkdir os path s in (if r \<noteq> 0 then -1 else 0, s))"

definition set_loop_appdir :: "appdir \<Rightarrow> loop_t \<Rightarrow> bool \<Rightarrow> int \<times> appdir" where
  "set_loop_appdir dirs lp keep_work =
     (case fit (lp_loop_appdir lp) of
        None \<Rightarrow> (-1, dirs\<lparr>ad_appdir := take 4095 (lp_loop_appdir lp)\<rparr>)
      | Some a \<Rightarrow>
          let dirs = dirs\<lparr>ad_appdir := a\<rparr> in
          (case fit (a @ ''/upper'') of
             None \<Rightarrow> (-1, dirs\<lparr>ad_upperdir := take 4095 (a @ ''/upper'')\<rparr>)
           | Some u \<Rightarrow>
               let dirs = dirs\<lparr>ad_upperdir := u\<rparr> in
               if keep_work then (0, dirs)
               else
                 (case fit (a @ ''/work'') of
                    None \<Rightarrow> (-1, dirs\<lparr>ad_workdir := take 4095 (a @ ''/work'')\<rparr>)
                  | Some w \<Rightarrow> (0, dirs\<lparr>ad_workdir := w\<rparr>))))"

section \<open>The image\<close>

text \<open>A call on the path of an image that succeeds changes the files.\<close>

definition fcall :: "os \<Rightarrow> syscall \<Rightarrow> fst_state \<Rightarrow> answer \<times> fst_state" where
  "fcall os c z = (let (a, x) = mcall os c (fst z) in (a, (x, snd z)))"

definition unlink_img :: "os \<Rightarrow> string \<Rightarrow> fst_state \<Rightarrow> fst_state" where
  "unlink_img os path z =
     (let ((s, m), fs) = z; (r, s') = io_unlink_quiet os path s in
      ((s', m), if a_ret (os (fst s) (Unlink path)) = 0 then fs(path := None) else fs))"

definition build_ext4_img :: "os \<Rightarrow> (trace \<Rightarrow> ext4_env) \<Rightarrow> string \<Rightarrow> fst_state \<Rightarrow> int \<times> fst_state" where
  "build_ext4_img os ev img z =
     (let (p, z) = fcall os (Ns Getpid) z; tmp = img @ ''.tmp.'' @ dec_int (a_ret p) in
      if 4096 \<le> length tmp then (-1, z)
      else
        let (x, fs) = unlink_img os tmp z;
            (r, f) = ext4_create_img (ev (fst (fst x))) (fs tmp);
            z = (x, fs(tmp := f)) in
        if r \<noteq> 0 then (-1, unlink_img os tmp z)
        else
          let (a, (x, fs)) = fcall os (Dev (Rename tmp img)) z in
          if a_ret a \<noteq> 0 then (-1, unlink_img os tmp (x, fs))
          else (0, (x, fs(img := fs tmp, tmp := None))))"

definition setup_ext4_img :: "os \<Rightarrow> (trace \<Rightarrow> ext4_env) \<Rightarrow> string \<Rightarrow> fst_state \<Rightarrow> int \<times> fst_state" where
  "setup_ext4_img os ev img z =
     (let ((s, m), fs) = z; (e, s) = io_exists_at os img s; z = ((s, m), fs) in
      if e < 0 then (-1, z)
      else if e = 0 \<and> ext4_image_valid (ev (fst s)) (fs img) then (0, z)
      else build_ext4_img os ev img z)"

section \<open>Mounting it\<close>

definition require_real_dir :: "os \<Rightarrow> string \<Rightarrow> mst \<Rightarrow> int \<times> mst" where
  "require_real_dir os path x =
     (let (a, x) = mcall os (Dev (Isdir_nofollow path)) x in (if a_ret a = 1 then 0 else -1, x))"

definition use_provisioned_loopback ::
  "os \<Rightarrow> appdir \<Rightarrow> loop_t \<Rightarrow> nat \<Rightarrow> bool \<Rightarrow> mst \<Rightarrow> (int \<times> appdir) \<times> mst" where
  "use_provisioned_loopback os dirs lp root_dev keep_work x =
     (let (l, x) = mcall os (Lstat (lp_loopdir lp)) x in
      if a_ret l \<noteq> 0 then ((-1, dirs), x)
      else
        let (r, x) = require_real_dir os (lp_loopdir lp) x in
        if r \<noteq> 0 then ((-1, dirs), x)
        else if st_dev (a_stat l) = root_dev then ((-1, dirs), x)
        else
          let (r, dirs) = set_loop_appdir dirs lp keep_work in
          if r \<noteq> 0 then ((-1, dirs), x) else ((0, dirs\<lparr>ad_dirs_created := True\<rparr>), x))"

definition setup_ext4_loopback ::
  "os \<Rightarrow> files \<Rightarrow> (trace \<Rightarrow> ext4_env) \<Rightarrow> appdir \<Rightarrow> loop_t \<Rightarrow> bool \<Rightarrow> fst_state \<Rightarrow> ((int \<times> appdir) \<times> fst_state) option" where
  "setup_ext4_loopback os files ev dirs lp keep_work z =
     (let (r, z) = setup_ext4_img os ev (lp_loop_img lp) z in
      if r \<noteq> 0 then Some ((-1, dirs), z)
      else
        (case io_loop os files (lp_loop_img lp) (fst z) of
           None \<Rightarrow> None
         | Some ((loop_fd, dev), x) \<Rightarrow>
             let z = (x, snd z) in
             if loop_fd < 0 then Some ((-1, dirs), z)
             else
               let (m, z) = fcall os (Ns (Mount (Some dev) (lp_loopdir lp) (Some ''ext4'') 0 None)) z;
                   (_, z) = fcall os (Close loop_fd) z in
               if a_ret m \<noteq> 0 then Some ((-1, dirs), z)
               else
                 let (r, dirs) = set_loop_appdir dirs lp keep_work in
                 if r \<noteq> 0 then Some ((-1, dirs), z)
                 else
                   let ((s, m), fs) = z; (r, s) = mkdir_checked os (ad_appdir dirs) s
                   in Some ((r, dirs), ((s, m), fs))))"

definition ensure_ext4_mounted ::
  "os \<Rightarrow> files \<Rightarrow> (trace \<Rightarrow> ext4_env) \<Rightarrow> appdir \<Rightarrow> loop_t \<Rightarrow> nat \<Rightarrow> bool \<Rightarrow> fst_state \<Rightarrow>
     ((int \<times> appdir) \<times> fst_state) option" where
  "ensure_ext4_mounted os files ev dirs lp root_dev keep_work z =
     (let (l, z) = fcall os (Lstat (lp_loopdir lp)) z in
      if a_ret l = 0 then
        let (r, x) = require_real_dir os (lp_loopdir lp) (fst z); z = (x, snd z) in
        if r \<noteq> 0 then Some ((-1, dirs), z)
        else if st_dev (a_stat l) \<noteq> root_dev then Some (set_loop_appdir dirs lp keep_work, z)
        else setup_ext4_loopback os files ev dirs lp keep_work z
      else
        let ((s, m), fs) = z; (r, s) = io_mkdir os (lp_loopdir lp) s; z = ((s, m), fs) in
        if r \<noteq> 0 then Some ((-1, dirs), z)
        else setup_ext4_loopback os files ev dirs lp keep_work z)"

definition loop_dirs_set :: "appdir \<Rightarrow> cage_config \<Rightarrow> loop_t \<Rightarrow> int \<times> appdir" where
  "loop_dirs_set dirs cfg lp =
     (case cf_workdir cfg of
        Some w \<Rightarrow>
          if \<not> path_under w (lp_loopdir lp) then (-1, dirs)
          else (case fit (lp_loop_appdir lp @ ''/upper'') of
                  None \<Rightarrow> (-1, dirs\<lparr>ad_upperdir := take 4095 (lp_loop_appdir lp @ ''/upper'')\<rparr>)
                | Some u \<Rightarrow> (0, dirs\<lparr>ad_upperdir := u\<rparr>))
      | None \<Rightarrow>
          (case fit (lp_loop_appdir lp @ ''/upper'') of
             None \<Rightarrow> (-1, dirs\<lparr>ad_upperdir := take 4095 (lp_loop_appdir lp @ ''/upper'')\<rparr>)
           | Some u \<Rightarrow> (0, dirs\<lparr>ad_upperdir := u\<rparr>)))"

definition handle_same_fs ::
  "os \<Rightarrow> files \<Rightarrow> (trace \<Rightarrow> ext4_env) \<Rightarrow> cage_config \<Rightarrow> appdir \<Rightarrow> fst_state \<Rightarrow> ((int \<times> appdir) \<times> fst_state) option" where
  "handle_same_fs os files ev cfg dirs z =
     (let ((s, m), fs) = z; ((r, lower_dev), s) = same_fs_detect os (ad_lowerdir dirs) (ad_upperdir dirs) s;
          z = ((s, m), fs) in
      if r \<le> 0 then Some ((r, dirs), z)
      else if cf_upperdir cfg \<noteq> None then Some ((-1, dirs), z)
      else
        (case loop_fill (ad_appdir dirs) of
           None \<Rightarrow> Some ((-1, dirs), z)
         | Some lp \<Rightarrow>
             let (r, dirs) = loop_dirs_set dirs cfg lp in
             if r \<noteq> 0 then Some ((-1, dirs), z)
             else
               let ((s, m), fs) = z; (e, s) = io_exists_at os (ad_upperdir dirs) s; z = ((s, m), fs) in
               if e = 0 then
                 let (rd, x) = use_provisioned_loopback os dirs lp lower_dev (cf_workdir cfg \<noteq> None) (fst z)
                 in Some (rd, (x, snd z))
               else ensure_ext4_mounted os files ev dirs lp lower_dev (cf_workdir cfg \<noteq> None) z))"

section \<open>Installing an image\<close>

text \<open>An image the validity check accepts whenever it can open and read the file.\<close>

definition complete_img :: "img_file \<Rightarrow> bool" where
  "complete_img f \<longleftrightarrow> (\<forall>ev. ev_open ev \<and> ev_io ev 0 = None \<longrightarrow> ext4_image_valid ev f)"

lemma unlink_img_other: "p \<noteq> q \<Longrightarrow> snd (unlink_img os q z) p = snd z p"
  by (cases z) (auto simp: unlink_img_def split: prod.splits)

lemma build_ext4_img_installs:
  assumes "build_ext4_img os ev img z = (r, z')"
  shows "(r = 0 \<longrightarrow> complete_img (snd z' img)) \<and> (r \<noteq> 0 \<longrightarrow> snd z' img = snd z img)"
proof -
  obtain x0 fs0 where z: "z = (x0, fs0)" by (cases z)
  obtain p x1 where p: "fcall os (Ns Getpid) z = (p, (x1, fs0))"
    by (rule that [of "fst (mcall os (Ns Getpid) x0)" "snd (mcall os (Ns Getpid) x0)"])
      (simp add: z fcall_def split_def Let_def)
  define tmp where "tmp = img @ ''.tmp.'' @ dec_int (a_ret p)"
  have ne: "img \<noteq> tmp" by (simp add: tmp_def)
  obtain x2 fs2 where u: "unlink_img os tmp (x1, fs0) = (x2, fs2)" by (cases "unlink_img os tmp (x1, fs0)")
  obtain e f where c: "ext4_create_img (ev (fst (fst x2))) (fs2 tmp) = (e, f)"
    by (cases "ext4_create_img (ev (fst (fst x2))) (fs2 tmp)")
  have k: "fs2 img = fs0 img" using unlink_img_other [OF ne, of os "(x1, fs0)"] u by simp
  let ?z2 = "(x2, fs2(tmp := f))"
  obtain a x3 where a: "fcall os (Dev (Rename tmp img)) ?z2 = (a, (x3, fs2(tmp := f)))"
    by (rule that [of "fst (mcall os (Dev (Rename tmp img)) x2)" "snd (mcall os (Dev (Rename tmp img)) x2)"])
      (simp add: fcall_def split_def Let_def)
  have b: "build_ext4_img os ev img z =
      (if 4096 \<le> length tmp then (-1, (x1, fs0))
       else if e \<noteq> 0 then (-1, unlink_img os tmp ?z2)
       else if a_ret a \<noteq> 0 then (-1, unlink_img os tmp (x3, fs2(tmp := f)))
       else (0, (x3, (fs2(tmp := f))(img := f, tmp := None))))"
    unfolding build_ext4_img_def by (simp only: p Let_def prod.case tmp_def [symmetric] u c a fun_upd_same)
  have "complete_img f" if "e = 0"
    using create_img_valid [OF c [unfolded that]] by (simp add: complete_img_def)
  then show ?thesis
    using assms [unfolded b] ne unlink_img_other [OF ne, of os ?z2] unlink_img_other [OF ne, of os "(x3, fs2(tmp := f))"] k
    by (auto simp: z split: if_splits)
qed

text \<open>
  C37: an image is installed whole or not at all.  However the transfers, the rename and every
  other call turn out, after \<open>setup_ext4_img\<close> the path holds what it held before, or a complete image
  that the validity check accepts; it holds a complete one when the result is 0 and the file
  had not been found valid, and what it held before when the result is not 0.
\<close>

theorem image_installed_atomically:
  assumes "setup_ext4_img os ev img z = (r, z')"
  shows "(snd z' img = snd z img \<or> complete_img (snd z' img)) \<and>
    (r \<noteq> 0 \<longrightarrow> snd z' img = snd z img) \<and>
    (r = 0 \<longrightarrow> complete_img (snd z' img) \<or> (\<exists>tr. ext4_image_valid (ev tr) (snd z img) \<and> snd z' img = snd z img))"
proof -
  obtain s m fs where z: "z = ((s, m), fs)" by (metis prod.collapse)
  obtain e s1 where e: "io_exists_at os img s = (e, s1)" by (cases "io_exists_at os img s")
  have "setup_ext4_img os ev img z =
      (if e < 0 then (-1, ((s1, m), fs))
       else if e = 0 \<and> ext4_image_valid (ev (fst s1)) (fs img) then (0, ((s1, m), fs))
       else build_ext4_img os ev img ((s1, m), fs))"
    by (simp add: setup_ext4_img_def z e Let_def)
  then consider "r = -1" "z' = ((s1, m), fs)" | "r = 0" "z' = ((s1, m), fs)" "ext4_image_valid (ev (fst s1)) (fs img)"
    | "build_ext4_img os ev img ((s1, m), fs) = (r, z')"
    using assms by (auto split: if_splits)
  then show ?thesis
  proof cases
    case 3
    from build_ext4_img_installs [OF this] show ?thesis by (auto simp: z)
  qed (auto simp: z)
qed

text \<open>A device that never fails, and a system on which nothing exists yet.\<close>

definition fine_env :: ext4_env where
  "fine_env = \<lparr>ev_open = True, ev_trunc = True, ev_uuid = Some (replicate 16 1), ev_hash = Some (replicate 16 2),
     ev_now = 5, ev_mem = True, ev_io = (\<lambda>_. None), ev_unlink = True\<rparr>"

definition empty_os :: os where
  "empty_os tr c =
     (case c of
        Access p \<Rightarrow> (ret (-1))\<lparr>a_errno := ENOENT\<rparr>
      | Unlink p \<Rightarrow> (ret (-1))\<lparr>a_errno := ENOENT\<rparr>
      | _ \<Rightarrow> ret 0)"

lemma create_img_runs: "\<exists>f. ext4_create_img fine_env None = (0, f)"
proof -
  let ?m = "\<lparr>mk_now = 5, mk_seed = crc32c_e2fs (NOT 0) u, mk_uuid = u, mk_hash_seed = h\<rparr>"
  have "fst (do_create_writes (\<lambda>_. None) True m d) = 0" for m d
    using do_create_writes_fine by (simp add: faultless_def)
  then show ?thesis
    by (auto simp: ext4_create_img_def fine_env_def gen_uuid_def Let_def split: prod.splits) (metis fst_conv)+
qed

lemma setup_runs:
  "\<exists>z'. setup_ext4_img empty_os (\<lambda>_. fine_env) ''/x-loop.img'' ((([], io_cache0), mods0), \<lambda>_. None) = (0, z')"
proof -
  obtain f where f: "ext4_create_img fine_env None = (0, f)" using create_img_runs by blast
  have l: "io_cache_lookup io_cache0 p = 2" for p by (simp add: lookup_cached cached_def io_cache0_def)
  obtain s1 where e: "io_exists_at empty_os ''/x-loop.img'' ([], io_cache0) = (1, s1)"
    by (simp add: io_exists_at_def l psys_eq empty_os_def io_exists_def access_class_def ENOENT_def EACCES_def)
  have "\<exists>z'. build_ext4_img empty_os (\<lambda>_. fine_env) ''/x-loop.img'' ((s1, mods0), \<lambda>_. None) = (0, z')"
    by (simp add: build_ext4_img_def fcall_def mcall_def psys_eq empty_os_def unlink_img_def split_def Let_def
        dec_int_def dec_nat.simps f)
  then show ?thesis by (simp add: setup_ext4_img_def e Let_def)
qed

lemma image_installed_atomically_witness:
  "\<exists>z'. setup_ext4_img empty_os (\<lambda>_. fine_env) ''/x-loop.img'' ((([], io_cache0), mods0), \<lambda>_. None) = (0, z') \<and>
     complete_img (snd z' ''/x-loop.img'')"
proof -
  obtain z' where z': "setup_ext4_img empty_os (\<lambda>_. fine_env) ''/x-loop.img'' ((([], io_cache0), mods0), \<lambda>_. None) = (0, z')"
    using setup_runs by blast
  have "\<not> ext4_image_valid fine_env None" by (simp add: ext4_image_valid_def)
  then show ?thesis using image_installed_atomically [OF z'] z' by auto
qed

end
