(* ===== verification/Handshake.thy ===== *)
theory Handshake
  imports Prelude
begin

text \<open>
  The futex handshake by which the parent (\<^verbatim>\<open>do_parent_net\<close> with \<^verbatim>\<open>net_ready\<close> and
  \<^verbatim>\<open>wait_flag\<close>, core/cage.c) and the child (\<^verbatim>\<open>do_child_net\<close>, core/child.c) agree on when
  the guest's network may be configured.  The two processes share one word.  Each has a program
  counter that names its next access to the word or its next system call; a step relation per
  process says what that access does, and \<open>hs_step\<close> interleaves them.  \<open>intr\<close> says whether a
  blocked \<^verbatim>\<open>FUTEX_WAIT\<close> may return without a wake-up (a signal handler ran: \<^verbatim>\<open>EINTR\<close>).
\<close>

datatype ppc = PCheck | PLoop | PPeek | PSleep | PSetup | PStore | PWake | PDone | PGaveUp

datatype cpc = CStore | CWake | CTest | CWait | CBlocked | CReady | CDead

record hs =
  hs_flag :: int
  hs_parent :: ppc
  hs_child :: cpc

definition hs0 :: hs where
  "hs0 = \<lparr>hs_flag = 0, hs_parent = PCheck, hs_child = CStore\<rparr>"

text \<open>
  The parent.  \<open>PPeek\<close> is the \<^verbatim>\<open>waitid\<close> that sees a child that has exited, \<open>PSleep\<close> the timed
  \<^verbatim>\<open>FUTEX_WAIT\<close>, which returns by a wake-up, by the timeout or because the word is not 0, and
  \<open>PSetup\<close> the host's side of the network, whose failures are ignored.
\<close>

inductive parent_step :: "hs \<Rightarrow> hs \<Rightarrow> bool" where
  p_check_set: "hs_parent s = PCheck \<Longrightarrow> hs_flag s = 1 \<Longrightarrow> parent_step s (s\<lparr>hs_parent := PSetup\<rparr>)"
| p_check_unset: "hs_parent s = PCheck \<Longrightarrow> hs_flag s \<noteq> 1 \<Longrightarrow> parent_step s (s\<lparr>hs_parent := PLoop\<rparr>)"
| p_loop_set: "hs_parent s = PLoop \<Longrightarrow> hs_flag s = 1 \<Longrightarrow> parent_step s (s\<lparr>hs_parent := PSetup\<rparr>)"
| p_loop_unset: "hs_parent s = PLoop \<Longrightarrow> hs_flag s \<noteq> 1 \<Longrightarrow> parent_step s (s\<lparr>hs_parent := PPeek\<rparr>)"
| p_peek_dead: "hs_parent s = PPeek \<Longrightarrow> hs_child s = CDead \<Longrightarrow> parent_step s (s\<lparr>hs_parent := PGaveUp\<rparr>)"
| p_peek_alive: "hs_parent s = PPeek \<Longrightarrow> hs_child s \<noteq> CDead \<Longrightarrow> parent_step s (s\<lparr>hs_parent := PSleep\<rparr>)"
| p_sleep: "hs_parent s = PSleep \<Longrightarrow> parent_step s (s\<lparr>hs_parent := PLoop\<rparr>)"
| p_setup: "hs_parent s = PSetup \<Longrightarrow> parent_step s (s\<lparr>hs_parent := PStore\<rparr>)"
| p_store: "hs_parent s = PStore \<Longrightarrow> parent_step s (s\<lparr>hs_parent := PWake, hs_flag := 2\<rparr>)"
| p_wake: "hs_parent s = PWake \<Longrightarrow>
    parent_step s (s\<lparr>hs_parent := PDone, hs_child := (if hs_child s = CBlocked then CReady else hs_child s)\<rparr>)"

text \<open>
  The child.  \<^verbatim>\<open>FUTEX_WAIT\<close> compares the word and blocks in one step; the child goes on to
  \<^verbatim>\<open>net_setup_child\<close> (\<open>CReady\<close>) however the call returns, and calls it once.
\<close>

inductive child_step :: "bool \<Rightarrow> hs \<Rightarrow> hs \<Rightarrow> bool" for intr :: bool where
  c_store: "hs_child s = CStore \<Longrightarrow> child_step intr s (s\<lparr>hs_child := CWake, hs_flag := 1\<rparr>)"
| c_wake: "hs_child s = CWake \<Longrightarrow> child_step intr s (s\<lparr>hs_child := CTest\<rparr>)"
| c_test_set: "hs_child s = CTest \<Longrightarrow> hs_flag s = 2 \<Longrightarrow> child_step intr s (s\<lparr>hs_child := CReady\<rparr>)"
| c_test_unset: "hs_child s = CTest \<Longrightarrow> hs_flag s \<noteq> 2 \<Longrightarrow> child_step intr s (s\<lparr>hs_child := CWait\<rparr>)"
| c_wait_block: "hs_child s = CWait \<Longrightarrow> hs_flag s = 1 \<Longrightarrow> child_step intr s (s\<lparr>hs_child := CBlocked\<rparr>)"
| c_wait_again: "hs_child s = CWait \<Longrightarrow> hs_flag s \<noteq> 1 \<Longrightarrow> child_step intr s (s\<lparr>hs_child := CReady\<rparr>)"
| c_interrupted: "intr \<Longrightarrow> hs_child s = CBlocked \<Longrightarrow> child_step intr s (s\<lparr>hs_child := CReady\<rparr>)"

text \<open>Interleaving; the child may also be killed at any point.\<close>

inductive hs_step :: "bool \<Rightarrow> hs \<Rightarrow> hs \<Rightarrow> bool" for intr :: bool where
  by_parent: "parent_step s t \<Longrightarrow> hs_step intr s t"
| by_child: "child_step intr s t \<Longrightarrow> hs_step intr s t"
| child_killed: "hs_step intr s (s\<lparr>hs_child := CDead\<rparr>)"

inductive_cases parent_stepE: "parent_step s t"
inductive_cases child_stepE: "child_step intr s t"
inductive_cases hs_stepE: "hs_step intr s t"

abbreviation hs_reach :: "bool \<Rightarrow> hs \<Rightarrow> bool" where
  "hs_reach intr s \<equiv> (hs_step intr)\<^sup>*\<^sup>* hs0 s"

subsection \<open>The invariant\<close>

text \<open>The first part holds with interrupted waits too.\<close>

definition hs_sound :: "hs \<Rightarrow> bool" where
  "hs_sound s \<longleftrightarrow>
     (case hs_parent s of
        PSetup \<Rightarrow> hs_flag s = 1 \<and> hs_child s \<noteq> CStore
      | PStore \<Rightarrow> hs_flag s = 1 \<and> hs_child s \<noteq> CStore
      | PWake \<Rightarrow> hs_flag s = 2 \<and> hs_child s \<noteq> CStore
      | PDone \<Rightarrow> hs_flag s = 2 \<and> hs_child s \<noteq> CStore \<and> hs_child s \<noteq> CBlocked
      | PGaveUp \<Rightarrow> hs_child s = CDead
      | _ \<Rightarrow> hs_flag s = 0 \<and> hs_child s \<in> {CStore, CDead} \<or> hs_flag s = 1 \<and> hs_child s \<noteq> CStore)"

definition hs_inv :: "hs \<Rightarrow> bool" where
  "hs_inv s \<longleftrightarrow> hs_sound s \<and> (hs_child s = CReady \<longrightarrow> hs_flag s = 2)"

lemma hs_sound_parent: "hs_sound s \<Longrightarrow> parent_step s t \<Longrightarrow> hs_sound t"
  by (erule parent_stepE; auto simp: hs_sound_def)

lemma hs_sound_child: "hs_sound s \<Longrightarrow> child_step intr s t \<Longrightarrow> hs_sound t"
  by (erule child_stepE; auto simp: hs_sound_def split: ppc.splits)

lemma hs_sound_killed: "hs_sound s \<Longrightarrow> hs_sound (s\<lparr>hs_child := CDead\<rparr>)"
  by (auto simp: hs_sound_def split: ppc.splits)

lemma hs_sound_step: "hs_step intr s t \<Longrightarrow> hs_sound s \<Longrightarrow> hs_sound t"
  by (auto elim!: hs_stepE intro: hs_sound_parent hs_sound_child hs_sound_killed)

lemma hs_sound_reach: "hs_reach intr s \<Longrightarrow> hs_sound s"
proof (induction rule: rtranclp_induct)
  case base
  show ?case by (simp add: hs_sound_def hs0_def)
qed (rule hs_sound_step)

lemma hs_inv_parent: "hs_inv s \<Longrightarrow> parent_step s t \<Longrightarrow> hs_inv t"
proof -
  assume s: "hs_inv s" and t: "parent_step s t"
  have "hs_child t = CReady \<Longrightarrow> hs_flag t = 2"
    using t s by (cases; auto simp: hs_inv_def hs_sound_def split: if_splits)
  then show ?thesis using s t hs_sound_parent by (auto simp: hs_inv_def)
qed

lemma hs_inv_child: "hs_inv s \<Longrightarrow> child_step False s t \<Longrightarrow> hs_inv t"
proof -
  assume s: "hs_inv s" and t: "child_step False s t"
  have "hs_child t = CReady \<Longrightarrow> hs_flag t = 2"
    using t s by (cases; auto simp: hs_inv_def hs_sound_def split: ppc.splits)
  then show ?thesis using s t hs_sound_child by (auto simp: hs_inv_def)
qed

lemma hs_inv_killed: "hs_inv s \<Longrightarrow> hs_inv (s\<lparr>hs_child := CDead\<rparr>)"
  by (simp add: hs_inv_def hs_sound_killed)

lemma hs_inv_reach: "hs_reach False s \<Longrightarrow> hs_inv s"
proof (induction rule: rtranclp_induct)
  case base
  show ?case by (simp add: hs_inv_def hs_sound_def hs0_def)
next
  case (step s t)
  then show ?case
    by (auto elim!: hs_stepE intro: hs_inv_parent hs_inv_child hs_inv_killed)
qed

text \<open>
  C11: The guest's network is configured only after the host's side is in place: as long as a
  blocked wait returns only when it is woken, in every interleaving, with the child killed or not,
  a child that has come to \<^verbatim>\<open>net_setup_child\<close> has seen the word at 2, and the parent has
  finished its set-up.
\<close>

theorem child_waits_for_host:
  assumes "hs_reach False s" and "hs_child s = CReady"
  shows "hs_flag s = 2 \<and> hs_parent s \<in> {PWake, PDone}"
  using hs_inv_reach [OF assms(1)] assms(2) by (auto simp: hs_inv_def hs_sound_def split: ppc.splits)

text \<open>A run in which the child blocks before the parent looks at the word.\<close>

definition blocked_run :: "hs list" where
  "blocked_run =
     [\<lparr>hs_flag = 0, hs_parent = PCheck, hs_child = CStore\<rparr>,
      \<lparr>hs_flag = 0, hs_parent = PLoop, hs_child = CStore\<rparr>,
      \<lparr>hs_flag = 0, hs_parent = PPeek, hs_child = CStore\<rparr>,
      \<lparr>hs_flag = 0, hs_parent = PSleep, hs_child = CStore\<rparr>,
      \<lparr>hs_flag = 1, hs_parent = PSleep, hs_child = CWake\<rparr>,
      \<lparr>hs_flag = 1, hs_parent = PSleep, hs_child = CTest\<rparr>,
      \<lparr>hs_flag = 1, hs_parent = PSleep, hs_child = CWait\<rparr>,
      \<lparr>hs_flag = 1, hs_parent = PSleep, hs_child = CBlocked\<rparr>,
      \<lparr>hs_flag = 1, hs_parent = PLoop, hs_child = CBlocked\<rparr>,
      \<lparr>hs_flag = 1, hs_parent = PSetup, hs_child = CBlocked\<rparr>]"

fun is_run :: "('a \<Rightarrow> 'a \<Rightarrow> bool) \<Rightarrow> 'a \<Rightarrow> 'a list \<Rightarrow> bool" where
  "is_run r s [] = True"
| "is_run r s (t # ts) = (r s t \<and> is_run r t ts)"

lemma is_run_reaches: "is_run r s ts \<Longrightarrow> ts \<noteq> [] \<Longrightarrow> r\<^sup>*\<^sup>* s (List.last ts)"
proof (induction ts arbitrary: s)
  case (Cons t ts)
  show ?case
  proof (cases "ts = []")
    case False
    with Cons show ?thesis by (auto intro: converse_rtranclp_into_rtranclp)
  qed (use Cons.prems in auto)
qed simp

lemmas parent_stepsI = parent_step.intros [THEN by_parent]
lemmas child_stepsI = child_step.intros [THEN by_child]

inductive_simps parent_step_at: "parent_step \<lparr>hs_flag = f, hs_parent = p, hs_child = c\<rparr> t"
inductive_simps child_step_at: "child_step i \<lparr>hs_flag = f, hs_parent = p, hs_child = c\<rparr> t"

lemma blocked_run_steps: "is_run (hs_step i) hs0 (List.tl blocked_run)"
  by (simp add: blocked_run_def hs0_def hs_step.simps parent_step_at child_step_at)

lemma blocked_run_reach: "hs_reach i \<lparr>hs_flag = 1, hs_parent = PSetup, hs_child = CBlocked\<rparr>"
  using is_run_reaches [OF blocked_run_steps [of i]] by (simp add: blocked_run_def)

lemma ready_reach: "hs_reach False \<lparr>hs_flag = 2, hs_parent = PDone, hs_child = CReady\<rparr>"
proof -
  have "is_run (hs_step False) \<lparr>hs_flag = 1, hs_parent = PSetup, hs_child = CBlocked\<rparr>
     [\<lparr>hs_flag = 1, hs_parent = PStore, hs_child = CBlocked\<rparr>,
      \<lparr>hs_flag = 2, hs_parent = PWake, hs_child = CBlocked\<rparr>,
      \<lparr>hs_flag = 2, hs_parent = PDone, hs_child = CReady\<rparr>]"
    by (simp add: hs_step.simps parent_step_at)
  from is_run_reaches [OF this] blocked_run_reach show ?thesis by (auto intro: rtranclp_trans)
qed

theorem child_waits_for_host_witness:
  "hs_flag \<lparr>hs_flag = 2, hs_parent = PDone, hs_child = CReady\<rparr> = 2 \<and>
   hs_parent \<lparr>hs_flag = 2, hs_parent = PDone, hs_child = CReady\<rparr> \<in> {PWake, PDone}"
  by (rule child_waits_for_host [OF ready_reach]) simp

text \<open>
  A wait that returns without a wake-up breaks this: \<^verbatim>\<open>do_child_net\<close> does not look at the word
  again, so the child configures its side while the parent is still creating the pair of links.
\<close>

theorem interrupted_child_runs_ahead:
  "\<exists>s. hs_reach True s \<and> hs_child s = CReady \<and> hs_flag s = 1 \<and> hs_parent s = PSetup"
proof -
  have "hs_step True \<lparr>hs_flag = 1, hs_parent = PSetup, hs_child = CBlocked\<rparr>
      \<lparr>hs_flag = 1, hs_parent = PSetup, hs_child = CReady\<rparr>"
    by (simp add: hs_step.simps child_step_at)
  with blocked_run_reach [of True] show ?thesis
    by (intro exI [of _ "\<lparr>hs_flag = 1, hs_parent = PSetup, hs_child = CReady\<rparr>"])
       (auto intro: rtranclp.rtrancl_into_rtrancl)
qed

subsection \<open>The handshake ends\<close>

text \<open>
  A step that changes something: one of the two processes goes on, or the child, still alive, is
  killed.  The rank bounds the number of such steps.
\<close>

definition goes_on :: "bool \<Rightarrow> hs \<Rightarrow> hs \<Rightarrow> bool" where
  "goes_on intr s t \<longleftrightarrow> parent_step s t \<or> child_step intr s t"

definition live_step :: "bool \<Rightarrow> hs \<Rightarrow> hs \<Rightarrow> bool" where
  "live_step intr s t \<longleftrightarrow> goes_on intr s t \<or> hs_child s \<noteq> CDead \<and> t = s\<lparr>hs_child := CDead\<rparr>"

fun prank :: "ppc \<Rightarrow> nat" where
  "prank PPeek = 6" | "prank PSleep = 5" | "prank PLoop = 4" | "prank PCheck = 4"
| "prank PSetup = 3" | "prank PStore = 2" | "prank PWake = 1" | "prank PDone = 0" | "prank PGaveUp = 0"

fun crank :: "cpc \<Rightarrow> nat" where
  "crank CStore = 6" | "crank CWake = 5" | "crank CTest = 4" | "crank CWait = 3"
| "crank CBlocked = 2" | "crank CReady = 1" | "crank CDead = 0"

definition hs_rank :: "hs \<Rightarrow> nat" where
  "hs_rank s = prank (hs_parent s) + crank (hs_child s)"

lemma live_step_sound: "hs_sound s \<Longrightarrow> live_step intr s t \<Longrightarrow> hs_sound t"
  by (auto simp: live_step_def goes_on_def intro: hs_sound_parent hs_sound_child hs_sound_killed)

lemma live_step_rank:
  "hs_sound s \<Longrightarrow> hs_flag s \<noteq> 0 \<Longrightarrow> live_step intr s t \<Longrightarrow> hs_rank t < hs_rank s \<and> hs_flag t \<noteq> 0"
  unfolding live_step_def goes_on_def
  by (elim disjE conjE parent_stepE child_stepE; (cases "hs_child s")?; auto simp: hs_sound_def hs_rank_def)

lemma live_steps_rank:
  "(live_step intr ^^ n) s t \<Longrightarrow> hs_sound s \<Longrightarrow> hs_flag s \<noteq> 0 \<Longrightarrow>
   hs_sound t \<and> hs_flag t \<noteq> 0 \<and> n + hs_rank t \<le> hs_rank s"
proof (induction n arbitrary: t)
  case (Suc n)
  then obtain u where "(live_step intr ^^ n) s u" "live_step intr u t" by auto
  with Suc.IH [of u] Suc.prems(2,3) live_step_rank [of u intr t] live_step_sound [of u intr t] show ?case by force
qed simp

lemma stuck_is_final:
  assumes inv: "hs_sound s" and stuck: "\<And>t. \<not> goes_on intr s t"
  shows "hs_parent s = PDone \<and> hs_child s \<in> {CReady, CDead} \<or> hs_parent s = PGaveUp \<and> hs_child s = CDead"
proof -
  have p: "\<not> parent_step s t" and c: "\<not> child_step intr s t" for t
    using stuck by (auto simp: goes_on_def)
  have "hs_parent s \<in> {PDone, PGaveUp}"
    using p by (cases "hs_parent s"; cases "hs_flag s = 1"; cases "hs_child s = CDead";
      auto dest: parent_step.intros)
  moreover have "hs_child s \<in> {CBlocked, CReady, CDead}"
    using c by (cases "hs_child s") (blast intro: child_step.intros)+
  ultimately show ?thesis using inv by (auto simp: hs_sound_def)
qed

text \<open>
  C12: The handshake cannot hang.  Take any state that the two processes can reach and in which the
  child has announced itself.  Every schedule from there, in which the child may be killed at any
  point and, if \<open>intr\<close>, a blocked wait may be interrupted at any point, has at most eleven steps;
  and as long as neither the parent is done with the child past its wait, nor the child dead
  and the parent done or gone away, one of the two can go on.
\<close>

theorem handshake_ends:
  assumes "hs_reach intr s" and "hs_flag s \<noteq> 0" and "(live_step intr ^^ n) s t"
  shows "n \<le> 11 \<and>
    ((\<exists>u. goes_on intr t u) \<or>
     hs_parent t = PDone \<and> hs_child t \<in> {CReady, CDead} \<or>
     hs_parent t = PGaveUp \<and> hs_child t = CDead)"
proof -
  have inv: "hs_sound s" by (rule hs_sound_reach [OF assms(1)])
  then have "hs_child s \<noteq> CStore \<or> hs_parent s = PGaveUp"
    using assms(2) by (auto simp: hs_sound_def split: ppc.splits)
  then have "hs_rank s \<le> 11"
    using inv by (cases "hs_parent s"; cases "hs_child s"; simp add: hs_rank_def hs_sound_def)
  moreover have "hs_sound t" "n + hs_rank t \<le> hs_rank s"
    using live_steps_rank [OF assms(3) inv assms(2)] by simp_all
  ultimately show ?thesis
    using stuck_is_final [of t intr] by (intro conjI) (linarith, blast)
qed

lemma peeking_reach: "hs_reach i \<lparr>hs_flag = 1, hs_parent = PPeek, hs_child = CBlocked\<rparr>"
proof -
  have "is_run (hs_step i) hs0
     [\<lparr>hs_flag = 0, hs_parent = PLoop, hs_child = CStore\<rparr>,
      \<lparr>hs_flag = 0, hs_parent = PPeek, hs_child = CStore\<rparr>,
      \<lparr>hs_flag = 1, hs_parent = PPeek, hs_child = CWake\<rparr>,
      \<lparr>hs_flag = 1, hs_parent = PPeek, hs_child = CTest\<rparr>,
      \<lparr>hs_flag = 1, hs_parent = PPeek, hs_child = CWait\<rparr>,
      \<lparr>hs_flag = 1, hs_parent = PPeek, hs_child = CBlocked\<rparr>]"
    by (simp add: hs0_def hs_step.simps parent_step_at child_step_at)
  from is_run_reaches [OF this] show ?thesis by simp
qed

text \<open>A run that is interrupted: the child goes on while the parent has not looked at the word again.\<close>

theorem handshake_ends_witness:
  "(2::nat) \<le> 11 \<and>
    ((\<exists>u. goes_on True \<lparr>hs_flag = 1, hs_parent = PSleep, hs_child = CReady\<rparr> u) \<or>
     hs_parent \<lparr>hs_flag = 1, hs_parent = PSleep, hs_child = CReady\<rparr> = PDone \<and>
       hs_child \<lparr>hs_flag = 1, hs_parent = PSleep, hs_child = CReady\<rparr> \<in> {CReady, CDead} \<or>
     hs_parent \<lparr>hs_flag = 1, hs_parent = PSleep, hs_child = CReady\<rparr> = PGaveUp \<and>
       hs_child \<lparr>hs_flag = 1, hs_parent = PSleep, hs_child = CReady\<rparr> = CDead)"
proof (rule handshake_ends [OF peeking_reach])
  have "live_step True \<lparr>hs_flag = 1, hs_parent = PPeek, hs_child = CBlocked\<rparr> \<lparr>hs_flag = 1, hs_parent = PSleep, hs_child = CBlocked\<rparr>"
    and "live_step True \<lparr>hs_flag = 1, hs_parent = PSleep, hs_child = CBlocked\<rparr> \<lparr>hs_flag = 1, hs_parent = PSleep, hs_child = CReady\<rparr>"
    by (simp_all add: live_step_def goes_on_def parent_step_at child_step_at)
  then show "(live_step True ^^ 2) \<lparr>hs_flag = 1, hs_parent = PPeek, hs_child = CBlocked\<rparr>
      \<lparr>hs_flag = 1, hs_parent = PSleep, hs_child = CReady\<rparr>"
    by (auto simp: numeral_2_eq_2)
qed simp

end
