(* ===== verification/Acl.thy ===== *)
theory Acl
  imports IoFs Bytes Dec
begin

text \<open>
  Giving the guest's user access to a socket (\<^verbatim>\<open>src/sandbox/acl.c\<close>) with
  \<^verbatim>\<open>sys_open_rdonly\<close> (\<^verbatim>\<open>src/util/syscall.c\<close>).  \<open>struct acl_ent\<close> is written out as its 44 bytes on
  a little-endian host: a 32-bit version and five entries of a tag, a permission and a 32-bit id.
\<close>

text \<open>\<open>S_ISSOCK\<close>, \<open>S_IWUSR\<close> (0200) and \<open>S_IWGRP\<close> (020).\<close>

definition S_ISSOCK :: "nat \<Rightarrow> bool" where "S_ISSOCK m \<longleftrightarrow> m div 4096 mod 16 = 12"
definition S_IWUSR :: "nat \<Rightarrow> bool" where "S_IWUSR m \<longleftrightarrow> m div 128 mod 2 = 1"
definition S_IWGRP :: "nat \<Rightarrow> bool" where "S_IWGRP m \<longleftrightarrow> m div 16 mod 2 = 1"

section \<open>Opening\<close>

text \<open>\<open>O_PATH | O_NOFOLLOW | O_CLOEXEC\<close> is 2752512 and \<open>O_PATH | O_CLOEXEC\<close> is 2621440.\<close>

definition OPEN_NOFOLLOW :: nat where "OPEN_NOFOLLOW = 2752512"
definition OPEN_FOLLOW :: nat where "OPEN_FOLLOW = 2621440"

definition sys_open_rdonly :: "os \<Rightarrow> string \<Rightarrow> bool \<Rightarrow> pst \<Rightarrow> int \<times> pst" where
  "sys_open_rdonly os path nofollow s =
     (let (refused, s) =
        (if nofollow then
           let (a, s) = psys os (Open path OPEN_NOFOLLOW) s in
           if a_ret a \<ge> 0 then
             let (f, s) = psys os (Ipc (Fstat (a_ret a))) s in
             if a_ret f = 0 \<and> S_ISLNK (st_mode (a_stat f))
             then let (_, s) = psys os (Close (a_ret a)) s in (True, s)
             else (False, s)
           else (False, s)
         else (False, s))
      in if refused then (-1, s) else let (a, s) = psys os (Open path OPEN_FOLLOW) s in (a_ret a, s))"

section \<open>The decision and the entry\<close>

definition match_grp :: "stat \<Rightarrow> u32 list \<Rightarrow> bool" where
  "match_grp st groups = list_ex (\<lambda>g. st_gid st = g \<and> S_IWGRP (st_mode st)) groups"

definition acl_skip :: "stat \<Rightarrow> u32 \<Rightarrow> u32 \<Rightarrow> u32 list \<Rightarrow> bool" where
  "acl_skip st uid gid groups =
     (if st_uid st = uid \<and> S_IWUSR (st_mode st) then True
      else if st_gid st = gid \<and> S_IWGRP (st_mode st) then True
      else match_grp st groups)"

definition acl_tmpl :: "u16 list" where
  "acl_tmpl = [1, 6, 0, 0, 2, 6, 0, 0, 4, 6, 0, 0, 16, 6, 0, 0, 32, 6, 0, 0]"

text \<open>\<open>memcpy (a.e + 6, &uid, 4)\<close>.\<close>

definition acl_entry :: "u32 \<Rightarrow> byte list" where
  "acl_entry uid = put_bytes (le32 2 @ concat (map le16 acl_tmpl)) (4 + 2 * 6) (le32 uid)"

definition fd_setxattr :: "os \<Rightarrow> int \<Rightarrow> string \<Rightarrow> byte list \<Rightarrow> pst \<Rightarrow> int \<times> pst" where
  "fd_setxattr os fd name val s =
     (let path = ''/proc/self/fd/'' @ dec_int fd in
      if 64 \<le> length path then (-1, s)
      else let (a, s) = psys os (Ipc (Setxattr path name val)) s in (a_ret a, s))"

definition acl_set_fd :: "os \<Rightarrow> int \<Rightarrow> u32 \<Rightarrow> u32 \<Rightarrow> u32 list \<Rightarrow> pst \<Rightarrow> int \<times> pst" where
  "acl_set_fd os fd uid gid groups s =
     (let (f, s) = psys os (Ipc (Fstat fd)) s in
      if a_ret f \<noteq> 0 then (-1, s)
      else if \<not> S_ISSOCK (st_mode (a_stat f)) then (0, s)
      else if uid = 0 \<or> acl_skip (a_stat f) uid gid groups then (0, s)
      else
        let (r, s) = fd_setxattr os fd ''system.posix_acl_access'' (acl_entry uid) s in
        (if r \<noteq> 0 then -1 else 0, s))"

definition acl_set :: "os \<Rightarrow> string \<Rightarrow> u32 \<Rightarrow> u32 \<Rightarrow> u32 list \<Rightarrow> pst \<Rightarrow> int \<times> pst" where
  "acl_set os path uid gid groups s =
     (let (fd, s) = sys_open_rdonly os path True s in
      if fd < 0 then (-1, s)
      else
        let (r, s) = acl_set_fd os fd uid gid groups s; (_, s) = psys os (Close fd) s in (r, s))"

definition acl_guest_set :: "os \<Rightarrow> string \<Rightarrow> u32 \<Rightarrow> u32 \<Rightarrow> u32 list \<Rightarrow> pst \<Rightarrow> int \<times> pst" where
  "acl_guest_set os path uid gid groups s = acl_set os path uid gid groups s"

section \<open>What the attribute says\<close>

text \<open>The kernel's reading of the attribute: the version and the entries.\<close>

record acl_perm =
  ap_tag :: u16
  ap_perm :: u16
  ap_id :: u32

definition acl_at :: "byte list \<Rightarrow> nat \<Rightarrow> acl_perm" where
  "acl_at b k = \<lparr>ap_tag = get16 b (4 + 8 * k), ap_perm = get16 b (6 + 8 * k), ap_id = get32 b (8 + 8 * k)\<rparr>"

definition read_acl :: "byte list \<Rightarrow> u32 \<times> acl_perm list" where
  "read_acl b = (get32 b 0, map (acl_at b) [0..<(length b - 4) div 8])"

text \<open>May a process use the file for writing by its owner, its group or one of its groups?\<close>

definition mode_writable :: "stat \<Rightarrow> u32 \<Rightarrow> u32 \<Rightarrow> u32 list \<Rightarrow> bool" where
  "mode_writable st uid gid groups \<longleftrightarrow>
     st_uid st = uid \<and> S_IWUSR (st_mode st) \<or> st_gid st \<in> set (gid # groups) \<and> S_IWGRP (st_mode st)"

lemma acl_skip_iff: "acl_skip st uid gid groups \<longleftrightarrow> mode_writable st uid gid groups"
  by (auto simp: acl_skip_def mode_writable_def match_grp_def list_ex_iff)

lemma acl_entry_bytes:
  "acl_entry uid = le32 2 @ le16 1 @ le16 6 @ le32 0 @ le16 2 @ le16 6 @ le32 uid @ le16 4 @ le16 6 @ le32 0 @
     le16 16 @ le16 6 @ le32 0 @ le16 32 @ le16 6 @ le32 0"
  by (simp add: acl_entry_def acl_tmpl_def put_bytes_def le16_def le32_def)

lemma read_acl_entry:
  "read_acl (acl_entry uid) =
     (2, [\<lparr>ap_tag = 1, ap_perm = 6, ap_id = 0\<rparr>, \<lparr>ap_tag = 2, ap_perm = 6, ap_id = uid\<rparr>,
          \<lparr>ap_tag = 4, ap_perm = 6, ap_id = 0\<rparr>, \<lparr>ap_tag = 16, ap_perm = 6, ap_id = 0\<rparr>,
          \<lparr>ap_tag = 32, ap_perm = 6, ap_id = 0\<rparr>])"
proof -
  have "get32 (acl_entry uid) 16 = uid"
    using get32_at [of 16 "acl_entry uid" uid] by (simp add: acl_entry_bytes le16_def le32_def)
  then show ?thesis
    by (simp add: read_acl_def acl_at_def acl_entry_bytes upt_rec get16_def get32_def le16_def le32_def)
qed

fun is_setxattr :: "syscall \<Rightarrow> bool" where
  "is_setxattr (Ipc (Setxattr p n v)) = True"
| "is_setxattr _ = False"

definition fd_path :: "int \<Rightarrow> string" where
  "fd_path fd = ''/proc/self/fd/'' @ dec_int fd"

lemma fd_setxattr_eq:
  "length (fd_path fd) < 64 \<Longrightarrow>
   fd_setxattr os fd n v s = (let (a, s) = psys os (Ipc (Setxattr (fd_path fd) n v)) s in (a_ret a, s))"
  unfolding fd_setxattr_def fd_path_def by simp

text \<open>
  C39: Exactly the sockets that the guest's user could not use get an access list.  With a
  descriptor whose path fits, \<open>acl_set_fd\<close> writes an attribute just when the descriptor is a
  socket, the user is not root and the mode bits give neither the user, as owner, nor any of the
  user's groups write access; it writes it once, to that descriptor, and the kernel reads it as
  the user's own entry with read and write permission beside the four mandatory entries.
\<close>

theorem acl_granted_when_needed:
  assumes "length (fd_path fd) < 64"
  shows "\<exists>ext b. fst (snd (acl_set_fd os fd uid gid groups s)) = fst s @ ext \<and>
    filter is_setxattr (calls ext) =
      (let f = os (fst s) (Ipc (Fstat fd)); st = a_stat f in
       if a_ret f = 0 \<and> S_ISSOCK (st_mode st) \<and> uid \<noteq> 0 \<and> \<not> mode_writable st uid gid groups
       then [Ipc (Setxattr (fd_path fd) ''system.posix_acl_access'' b)] else []) \<and>
    read_acl b = (2, [\<lparr>ap_tag = 1, ap_perm = 6, ap_id = 0\<rparr>, \<lparr>ap_tag = 2, ap_perm = 6, ap_id = uid\<rparr>,
      \<lparr>ap_tag = 4, ap_perm = 6, ap_id = 0\<rparr>, \<lparr>ap_tag = 16, ap_perm = 6, ap_id = 0\<rparr>,
      \<lparr>ap_tag = 32, ap_perm = 6, ap_id = 0\<rparr>])"
proof -
  define name where "name = ''system.posix_acl_access''"
  have "\<exists>ext. fst (snd (acl_set_fd os fd uid gid groups s)) = fst s @ ext \<and>
    filter is_setxattr (calls ext) =
      (let f = os (fst s) (Ipc (Fstat fd)); st = a_stat f in
       if a_ret f = 0 \<and> S_ISSOCK (st_mode st) \<and> uid \<noteq> 0 \<and> \<not> mode_writable st uid gid groups
       then [Ipc (Setxattr (fd_path fd) name (acl_entry uid))] else [])"
    unfolding acl_set_fd_def name_def [symmetric]
    by (simp add: fd_setxattr_eq [OF assms] psys_eq acl_skip_iff Let_def)
  then show ?thesis unfolding name_def using read_acl_entry by blast
qed

text \<open>A socket owned by user 1000 in group 1000 with mode 0755, and user 1001.\<close>

definition sock_os :: os where
  "sock_os tr c = (case c of
      Ipc (Fstat f) \<Rightarrow> (ret 0)\<lparr>a_stat := \<lparr>st_uid = 1000, st_gid = 1000, st_mode = 49645, st_size = 0, st_dev = 0\<rparr>\<rparr>
    | _ \<Rightarrow> ret 3)"

theorem acl_granted_when_needed_witness:
  "\<exists>ext b. fst (snd (acl_set_fd sock_os 3 1001 1001 [7] ([], []))) = [] @ ext \<and>
    filter is_setxattr (calls ext) = [Ipc (Setxattr (fd_path 3) ''system.posix_acl_access'' b)] \<and>
    read_acl b = (2, [\<lparr>ap_tag = 1, ap_perm = 6, ap_id = 0\<rparr>, \<lparr>ap_tag = 2, ap_perm = 6, ap_id = 1001\<rparr>,
      \<lparr>ap_tag = 4, ap_perm = 6, ap_id = 0\<rparr>, \<lparr>ap_tag = 16, ap_perm = 6, ap_id = 0\<rparr>,
      \<lparr>ap_tag = 32, ap_perm = 6, ap_id = 0\<rparr>])"
proof -
  have 1: "length (fd_path 3) < 64" by (simp add: fd_path_def dec_int_def dec_nat.simps)
  define name where "name = ''system.posix_acl_access''"
  have 2: "a_ret (sock_os [] (Ipc (Fstat 3))) = 0"
    "a_stat (sock_os [] (Ipc (Fstat 3))) = \<lparr>st_uid = 1000, st_gid = 1000, st_mode = 49645, st_size = 0, st_dev = 0\<rparr>"
    by (simp_all add: sock_os_def)
  have 3: "\<not> mode_writable \<lparr>st_uid = 1000, st_gid = 1000, st_mode = 49645, st_size = 0, st_dev = 0\<rparr> 1001 1001 [7]"
    by (simp add: mode_writable_def S_IWUSR_def S_IWGRP_def)
  show ?thesis
    using acl_granted_when_needed [OF 1, of sock_os 1001 1001 "[7]" "([], [])"] 2 3
    unfolding name_def [symmetric] by (simp add: S_ISSOCK_def Let_def)
qed

text \<open>
  The descriptor that receives the attribute always comes from an open that follows symbolic
  links: \<open>sys_open_rdonly\<close> looks at a first descriptor and then opens the path again.
\<close>

theorem acl_descriptor_follows_links:
  assumes "sys_open_rdonly os path True s = (fd, s')" and "0 \<le> fd"
  shows "\<exists>a tr. fst s' = tr @ [(Open path OPEN_FOLLOW, a)] \<and> a_ret a = fd"
  using assms unfolding sys_open_rdonly_def Let_def by (auto simp: psys_eq split: if_splits)

end
