(* ===== verification/Gui.thy ===== *)
theory Gui
  imports Acl IoAt Mounts
begin

text \<open>
  Sharing the host's graphical session, first part (\<^verbatim>\<open>src/sandbox/gui.c\<close> but its entry point): the
  context, making a target in the guest's root and mounting on it, and the files in the user's home.
  An operation that changes the context returns it.  Memory is available, so building a path does
  not fail.
\<close>

record gui_ctx =
  g_root :: string
  g_uid :: u32
  g_gid :: u32
  g_groups :: "u32 list"
  g_host_wl :: "string option"
  g_host_ps :: "string option"
  g_host_pc :: "string option"
  g_host_xch :: "string option"
  g_host_xrd :: "string option"
  g_host_home :: "string option"
  g_host_display :: "string option"
  g_guest_wl :: "string option"
  g_guest_ps :: "string option"
  g_guest_pc :: "string option"
  g_guest_xrd :: "string option"
  g_xrd_created :: bool
  g_guest_xrd_env :: bool
  g_guest_xch :: "string option"
  g_guest_home_used :: bool
  g_guest_display :: "string option"
  g_guest_x11num :: int

text \<open>An operation of the directory-relative kind keeps the existence cache.\<close>

definition at_fd :: "(trace \<Rightarrow> int \<times> trace) \<Rightarrow> pst \<Rightarrow> int \<times> pst" where
  "at_fd f s = (let (r, tr) = f (fst s) in (r, (tr, snd s)))"

section \<open>Targets (\<^verbatim>\<open>gui.c\<close>)\<close>

definition parent_of :: "string \<Rightarrow> string option" where
  "parent_of rel =
     (case strrchr_pos CHR ''/'' rel of
        None \<Rightarrow> None
      | Some par \<Rightarrow> if par = 0 then None else Some (take par rel))"

text \<open>\<open>O_PATH | O_DIRECTORY | O_CLOEXEC\<close> is 2686976.\<close>

definition open_root :: "os \<Rightarrow> gui_ctx \<Rightarrow> pst \<Rightarrow> int \<times> pst" where
  "open_root os g s = (let (a, s) = psys os (Open (g_root g) 2686976) s in (a_ret a, s))"

definition ensure_mount_target :: "os \<Rightarrow> gui_ctx \<Rightarrow> string \<Rightarrow> u32 \<Rightarrow> u32 \<Rightarrow> pst \<Rightarrow> int \<times> pst" where
  "ensure_mount_target os g sub uid gid s =
     (let (rootfd, s) = open_root os g s in
      if rootfd < 0 then (-1, s)
      else
        let (r, s) = (case parent_of sub of
              Some dir \<Rightarrow> at_fd (io_mkdir_parents_at os rootfd dir uid gid 493) s | None \<Rightarrow> (0, s));
            (r, s) = (if r = 0 then at_fd (io_touch_at os rootfd sub uid gid) s else (r, s));
            (_, s) = psys os (Close rootfd) s
        in (r, s))"

definition mount_file :: "os \<Rightarrow> gui_ctx \<Rightarrow> string \<Rightarrow> string \<Rightarrow> u32 \<Rightarrow> u32 \<Rightarrow> pst \<Rightarrow> int \<times> pst" where
  "mount_file os g sub src uid gid s =
     (let p = mem_path (g_root g) sub; (r, s) = ensure_mount_target os g sub uid gid s in
      if r \<noteq> 0 then (-1, s)
      else
        let (a, s) = psys os (Ns (Mount (Some src) p None MS_BIND None)) s in
        (if a_ret a \<noteq> 0 then -1 else 0, s))"

definition mount_file_acl :: "os \<Rightarrow> gui_ctx \<Rightarrow> string \<Rightarrow> string \<Rightarrow> pst \<Rightarrow> int \<times> pst" where
  "mount_file_acl os g tgt src s =
     (let (r, s) = mount_file os g tgt src (g_uid g) (g_gid g) s in
      if r \<noteq> 0 then (r, s)
      else acl_guest_set os (mem_path (g_root g) tgt) (g_uid g) (g_gid g) (g_groups g) s)"

section \<open>Files in the home directory (\<^verbatim>\<open>gui.c\<close>)\<close>

definition try_cookie :: "os \<Rightarrow> string option \<Rightarrow> pst \<Rightarrow> string option \<times> pst" where
  "try_cookie os path s =
     (case path of
        None \<Rightarrow> (None, s)
      | Some p \<Rightarrow> let (e, s) = io_exists_at os p s in (if e = 0 then Some p else None, s))"

definition cat_and_try :: "os \<Rightarrow> string \<Rightarrow> string \<Rightarrow> pst \<Rightarrow> string option \<times> pst" where
  "cat_and_try os base suf s =
     (let p = mem_cat [base, suf]; (e, s) = io_exists_at os p s in (if e = 0 then Some p else None, s))"

definition find_pulse_cookie :: "os \<Rightarrow> gui_ctx \<Rightarrow> string \<Rightarrow> pst \<Rightarrow> string option \<times> pst" where
  "find_pulse_cookie os g home s =
     (let (c, s) = try_cookie os (g_host_pc g) s in
      if c \<noteq> None then (c, s)
      else
        let (c, s) = (case g_host_xch g of
              Some x \<Rightarrow> cat_and_try os x ''/pulse/cookie'' s | None \<Rightarrow> (None, s)) in
        if c \<noteq> None then (c, s)
        else
          let (c, s) = cat_and_try os home ''/.config/pulse/cookie'' s in
          if c \<noteq> None then (c, s) else cat_and_try os home ''/.pulse-cookie'' s)"

definition mount_hfile :: "os \<Rightarrow> gui_ctx \<Rightarrow> string \<Rightarrow> string \<Rightarrow> string \<Rightarrow> pst \<Rightarrow> int \<times> pst" where
  "mount_hfile os g h c f s =
     (let src = mem_path h f; (e, s) = io_exists_at os src s in
      if e \<noteq> 0 then (0, s) else mount_file_acl os g (mem_path c f) src s)"

definition resolve_guest_cookie_path :: "gui_ctx \<Rightarrow> string \<Rightarrow> string" where
  "resolve_guest_cookie_path g container_home =
     (case g_guest_pc g of
        Some p \<Rightarrow> p
      | None \<Rightarrow>
          (case g_guest_xch g of
             Some x \<Rightarrow> mem_cat [x, ''/pulse/cookie'']
           | None \<Rightarrow> mem_path container_home ''/.config/pulse/cookie''))"

definition mount_xauthority :: "os \<Rightarrow> gui_ctx \<Rightarrow> string \<Rightarrow> string \<Rightarrow> pst \<Rightarrow> int \<times> gui_ctx \<times> pst" where
  "mount_xauthority os g host_home container_home s =
     (let (e, s) = io_exists_at os (mem_path host_home ''/.Xauthority'') s in
      if e \<noteq> 0 then (0, g, s)
      else
        let g = g\<lparr>g_guest_home_used := True\<rparr>;
            (r, s) = mount_hfile os g host_home container_home ''/.Xauthority'' s
        in (r, g, s))"

definition skip_lead :: "string \<Rightarrow> string" where
  "skip_lead p = dropWhile (\<lambda>c. c = CHR ''/'') p"

definition ensure_guest_home :: "os \<Rightarrow> gui_ctx \<Rightarrow> string \<Rightarrow> pst \<Rightarrow> int \<times> pst" where
  "ensure_guest_home os g home s =
     (if mem_path_escapes home then (-1, s)
      else
        let (rootfd, s) = open_root os g s in
        if rootfd < 0 then (-1, s)
        else
          let (r, s) = at_fd (io_mkdir_parents_at os rootfd (skip_lead home) (g_uid g) (g_gid g) 493) s;
              (_, s) = psys os (Close rootfd) s
          in (r, s))"

definition ensure_guest_home_if_needed :: "os \<Rightarrow> gui_ctx \<Rightarrow> string \<Rightarrow> pst \<Rightarrow> int \<times> gui_ctx \<times> pst" where
  "ensure_guest_home_if_needed os g h s =
     (if g_guest_home_used g \<or> g_guest_pc g \<noteq> None \<or> g_guest_xch g \<noteq> None then (0, g, s)
      else
        let g = g\<lparr>g_guest_home_used := True\<rparr>; (r, s) = ensure_guest_home os g h s in (r, g, s))"

definition prepare_cookie_dirs :: "os \<Rightarrow> gui_ctx \<Rightarrow> string \<Rightarrow> pst \<Rightarrow> int \<times> pst" where
  "prepare_cookie_dirs os g guest_rel s =
     (if mem_path_escapes guest_rel then (-1, s)
      else
        let (rootfd, s) = open_root os g s in
        if rootfd < 0 then (-1, s)
        else
          let rel = skip_lead guest_rel;
              (r, s) = (case parent_of rel of
                Some dir \<Rightarrow> at_fd (io_mkdir_own_at os rootfd dir (g_uid g) (g_gid g) 493) s | None \<Rightarrow> (0, s));
              (r, s) = (if r = 0 then at_fd (io_touch_at os rootfd rel (g_uid g) (g_gid g)) s else (r, s));
              (_, s) = psys os (Close rootfd) s
          in (r, s))"

definition mount_cookie :: "os \<Rightarrow> gui_ctx \<Rightarrow> string \<Rightarrow> string \<Rightarrow> pst \<Rightarrow> int \<times> gui_ctx \<times> pst" where
  "mount_cookie os g host_home container_home s =
     (let (cookie, s) = find_pulse_cookie os g host_home s in
      case cookie of
        None \<Rightarrow> (0, g, s)
      | Some c \<Rightarrow>
          let guest = resolve_guest_cookie_path g container_home;
              (r, g, s) = ensure_guest_home_if_needed os g container_home s;
              (r, s) = (if r = 0 then prepare_cookie_dirs os g guest s else (r, s));
              (r, s) = (if r = 0 then mount_file_acl os g guest c s else (r, s))
          in (r, g, s))"

definition mount_user_files :: "os \<Rightarrow> gui_ctx \<Rightarrow> string \<Rightarrow> string \<Rightarrow> pst \<Rightarrow> int \<times> gui_ctx \<times> pst" where
  "mount_user_files os g host_home container_home s =
     (let (r, g, s) = mount_xauthority os g host_home container_home s in
      if r \<noteq> 0 then (r, g, s) else mount_cookie os g host_home container_home s)"

definition mount_user_home :: "os \<Rightarrow> gui_ctx \<Rightarrow> string option \<Rightarrow> pst \<Rightarrow> int \<times> gui_ctx \<times> pst" where
  "mount_user_home os g container_home s =
     (case (g_host_home g, container_home) of
        (Some h, Some c) \<Rightarrow> mount_user_files os g h c s
      | _ \<Rightarrow> (0, g, s))"

end
