(* ===== verification/GuiSocks.thy ===== *)
theory GuiSocks
  imports Gui
begin

text \<open>
  Sharing the host's graphical session, second part: the X11 displays
  (\<^verbatim>\<open>src/sandbox/gui_x11.c\<close>), the Wayland and PulseAudio sockets (\<^verbatim>\<open>src/sandbox/gui_xdg.c\<close>) and the
  entry point \<open>setup_gui_mounts\<close> (\<^verbatim>\<open>gui.c\<close>).  An entry of a directory is its name with its \<open>d_type\<close>.
\<close>

section \<open>X11\<close>

definition set_sock_acl :: "os \<Rightarrow> string \<Rightarrow> gui_ctx \<Rightarrow> pst \<Rightarrow> int \<times> pst" where
  "set_sock_acl os name g s =
     (let path = ''/tmp/.X11-unix/'' @ name in
      if 4096 \<le> length path then (-1, s) else acl_set os path (g_uid g) (g_gid g) (g_groups g) s)"

text \<open>The number is a \<open>long\<close> cut to an \<open>int\<close>.\<close>

definition to_int :: "int \<Rightarrow> int" where
  "to_int n = sint (word_of_int n :: u32)"

definition parse_display_n :: "string option \<Rightarrow> int" where
  "parse_display_n d =
     (case d of
        Some (c # t) \<Rightarrow>
          if c \<noteq> CHR '':'' then -1
          else let (n, e) = strtol10 t in if e = 0 \<or> n < 0 then -1 else to_int n
      | _ \<Rightarrow> -1)"

text \<open>\<open>DT_SOCK\<close> is 12.\<close>

definition match_x11_sock :: "string \<times> byte \<Rightarrow> int \<Rightarrow> bool" where
  "match_x11_sock e disp_n =
     (if take 1 (fst e) \<noteq> ''X'' \<or> snd e \<noteq> 12 then False
      else if disp_n < 0 then True
      else fst e = ''X'' @ dec_int disp_n)"

fun set_acls :: "os \<Rightarrow> gui_ctx \<Rightarrow> int \<Rightarrow> (string \<times> byte) list \<Rightarrow> pst \<Rightarrow> int \<times> pst" where
  "set_acls os g disp_n [] s = (0, s)"
| "set_acls os g disp_n (e # es) s =
     (if \<not> match_x11_sock e disp_n then set_acls os g disp_n es s
      else
        let (r, s) = set_sock_acl os (fst e) g s in
        if r \<noteq> 0 then (-1, s) else set_acls os g disp_n es s)"

definition set_x11_acls :: "os \<Rightarrow> gui_ctx \<Rightarrow> int \<Rightarrow> pst \<Rightarrow> int \<times> pst" where
  "set_x11_acls os g disp_n s =
     (let (d, s) = psys os (Opendir ''/tmp/.X11-unix'') s in
      if a_ret d < 0 then (0, s) else set_acls os g disp_n (zip (a_names d) (a_data d)) s)"

definition try_x_display :: "string \<Rightarrow> int \<Rightarrow> int" where
  "try_x_display name best =
     (if take 1 name \<noteq> ''X'' then best
      else
        let t = drop 1 name; (n, e) = strtol10 t in
        if e = length t \<and> 0 \<le> n \<and> (best < 0 \<or> n < best) then to_int n else best)"

definition scan_lowest_x_socket :: "os \<Rightarrow> pst \<Rightarrow> int \<times> pst" where
  "scan_lowest_x_socket os s =
     (let (d, s) = psys os (Opendir ''/tmp/.X11-unix'') s in
      if a_ret d < 0 then (-1, s) else (foldl (\<lambda>best e. try_x_display e best) (-1) (a_names d), s))"

text \<open>The host's and the guest's number, or nothing if X11 is to be skipped.\<close>

definition resolve_x11_displays :: "string option \<Rightarrow> string option \<Rightarrow> (int \<times> int) option" where
  "resolve_x11_displays host_disp guest_disp =
     (let host_n = parse_display_n host_disp in
      case guest_disp of
        Some d \<Rightarrow> let guest_n = parse_display_n (Some d) in if guest_n < 0 then None else Some (host_n, guest_n)
      | None \<Rightarrow>
          if host_n < 0 \<and> host_disp \<noteq> None \<and> host_disp \<noteq> Some [] then None else Some (host_n, host_n))"

definition resolve_host_x11 :: "os \<Rightarrow> int \<Rightarrow> pst \<Rightarrow> int option \<times> pst" where
  "resolve_host_x11 os host_n s =
     (if 0 \<le> host_n then
        let (a, s) = psys os (Access (''/tmp/.X11-unix/X'' @ dec_int host_n)) s in
        (if a_ret a \<noteq> 0 then None else Some host_n, s)
      else
        let (a, s) = psys os (Access ''/tmp/.X11-unix'') s in
        if a_ret a \<noteq> 0 then (None, s)
        else let (n, s) = scan_lowest_x_socket os s in (if n < 0 then None else Some n, s))"

definition mount_x11_socket :: "os \<Rightarrow> gui_ctx \<Rightarrow> int \<Rightarrow> int \<Rightarrow> pst \<Rightarrow> int \<times> pst" where
  "mount_x11_socket os g host_n guest_n s =
     (if host_n = guest_n then
        let (r, s) = mount_bind os (g_root g) ''tmp/.X11-unix'' ''/tmp/.X11-unix'' s in
        if r \<noteq> 0 then (-1, s) else set_x11_acls os g guest_n s
      else
        mount_file_acl os g (''tmp/.X11-unix/X'' @ dec_int guest_n) (''/tmp/.X11-unix/X'' @ dec_int host_n) s)"

definition resolve_x11_pair :: "os \<Rightarrow> gui_ctx \<Rightarrow> pst \<Rightarrow> (int \<times> int) option \<times> pst" where
  "resolve_x11_pair os g s =
     (case resolve_x11_displays (g_host_display g) (g_guest_display g) of
        None \<Rightarrow> (None, s)
      | Some (host_n, guest_n) \<Rightarrow>
          let (h, s) = resolve_host_x11 os host_n s in
          (case h of None \<Rightarrow> None | Some h \<Rightarrow> Some (h, if guest_n < 0 then h else guest_n), s))"

definition x11_resolve_display :: "os \<Rightarrow> gui_ctx \<Rightarrow> pst \<Rightarrow> gui_ctx \<times> pst" where
  "x11_resolve_display os g s =
     (let (p, s) = resolve_x11_pair os g s in
      (case p of Some (_, n) \<Rightarrow> g\<lparr>g_guest_x11num := n\<rparr> | None \<Rightarrow> g, s))"

definition mount_x11 :: "os \<Rightarrow> gui_ctx \<Rightarrow> pst \<Rightarrow> int \<times> gui_ctx \<times> pst" where
  "mount_x11 os g s =
     (let (p, s) = resolve_x11_pair os g s in
      case p of
        None \<Rightarrow> (0, g, s)
      | Some (h, n) \<Rightarrow>
          let (r, s) = mount_x11_socket os g h n s in
          if r \<noteq> 0 then (-1, g, s) else (0, g\<lparr>g_guest_x11num := n\<rparr>, s))"

section \<open>The runtime directory\<close>

text \<open>0700 is 448.\<close>

definition ensure_xdg_parent :: "os \<Rightarrow> gui_ctx \<Rightarrow> string \<Rightarrow> pst \<Rightarrow> int \<times> pst" where
  "ensure_xdg_parent os g abspath s =
     (case strrchr_pos CHR ''/'' abspath of
        None \<Rightarrow> (0, s)
      | Some n \<Rightarrow> if n = 0 then (0, s) else io_mkdir_own os (take n abspath) (g_uid g) (g_gid g) 448 s)"

definition fill_xdg :: "gui_ctx \<Rightarrow> nat \<Rightarrow> string option" where
  "fill_xdg g sz =
     (let t = (case g_guest_xrd g of Some x \<Rightarrow> x | None \<Rightarrow> ''/run/user/'' @ dec_nat (unat (g_uid g))) in
      if sz \<le> length t then None else Some t)"

text \<open>The result has the text written to the caller's buffer.\<close>

definition create_guest_xdg_root :: "os \<Rightarrow> gui_ctx \<Rightarrow> nat \<Rightarrow> pst \<Rightarrow> int \<times> string \<times> gui_ctx \<times> pst" where
  "create_guest_xdg_root os g sz s =
     (case fill_xdg g sz of
        None \<Rightarrow> (-1, [], g, s)
      | Some buf \<Rightarrow>
          let p = mem_path (g_root g) buf;
              (r, s) = (if \<not> g_guest_xrd_env g then ensure_xdg_parent os g p s else (0, s));
              (r, s) = (if r = 0 then io_mkdir_own os p (g_uid g) (g_gid g) 448 s else (r, s))
          in if r \<noteq> 0 then (-1, buf, g, s) else (0, buf, g\<lparr>g_xrd_created := True\<rparr>, s))"

definition touch_target :: "os \<Rightarrow> gui_ctx \<Rightarrow> string \<Rightarrow> pst \<Rightarrow> int \<times> pst" where
  "touch_target os g tgt s = io_touch os (mem_path (g_root g) tgt) s"

definition ensure_guest_xdg_pulse :: "os \<Rightarrow> gui_ctx \<Rightarrow> pst \<Rightarrow> int \<times> gui_ctx \<times> pst" where
  "ensure_guest_xdg_pulse os g s =
     (let (r, xdg, g, s) = create_guest_xdg_root os g 512 s in
      if r \<noteq> 0 then (-1, g, s)
      else
        let (r, s) = io_mkdir_own os (mem_path (mem_path (g_root g) xdg) ''pulse'') (g_uid g) (g_gid g) 448 s
        in (r, g, s))"

section \<open>Wayland\<close>

definition ensure_target_present :: "os \<Rightarrow> gui_ctx \<Rightarrow> string \<Rightarrow> nat \<Rightarrow> pst \<Rightarrow> int \<times> gui_ctx \<times> pst" where
  "ensure_target_present os g t xdg_sz s =
     (let (r, s) = io_exists_at os (mem_path (g_root g) t) s;
          (r, g, s) =
            (if r \<noteq> 0 then
               let (r, _, g, s) = create_guest_xdg_root os g xdg_sz s;
                   (r, s) = (if r = 0 then touch_target os g t s else (r, s))
               in (r, g, s)
             else (r, g, s))
      in (r, g\<lparr>g_xrd_created := True\<rparr>, s))"

definition ensure_wayland_target :: "os \<Rightarrow> gui_ctx \<Rightarrow> string \<Rightarrow> nat \<Rightarrow> pst \<Rightarrow> int \<times> string \<times> gui_ctx \<times> pst" where
  "ensure_wayland_target os g wn sz s =
     (case fill_xdg g 512 of
        None \<Rightarrow> (-1, [], g, s)
      | Some xdg \<Rightarrow>
          let t = xdg @ ''/'' @ wn in
          if sz \<le> length t then (-1, [], g, s)
          else let (r, g, s) = ensure_target_present os g t 512 s in (r, t, g, s))"

definition mount_wayland :: "os \<Rightarrow> gui_ctx \<Rightarrow> string \<Rightarrow> string \<Rightarrow> pst \<Rightarrow> int \<times> gui_ctx \<times> pst" where
  "mount_wayland os g host_xrd wl s =
     (let src = mem_path host_xrd wl; (e, s) = io_exists_at os src s in
      if e \<noteq> 0 then (0, g, s)
      else
        let wn = (case g_guest_wl g of Some w \<Rightarrow> w | None \<Rightarrow> wl);
            (r, p, g, s) = ensure_wayland_target os g wn 1024 s;
            (r, s) = (if r = 0 then mount_file_acl os g p src s else (r, s))
        in (r, g, s))"

section \<open>PulseAudio\<close>

definition resolve_pulse_src :: "string option \<Rightarrow> string \<Rightarrow> string option" where
  "resolve_pulse_src host_ps host_xrd =
     (case host_ps of
        Some p \<Rightarrow>
          if starts_with ''unix:'' p then Some (drop 5 p)
          else if strchr_pos CHR ''/'' p \<noteq> None then Some p
          else None
      | None \<Rightarrow> Some (mem_cat [host_xrd, ''/pulse/native'']))"

definition pulse_target :: "gui_ctx \<Rightarrow> nat \<Rightarrow> string option" where
  "pulse_target g sz =
     (case g_guest_ps g of
        Some gp \<Rightarrow> Some (if starts_with ''unix:'' gp then drop 5 gp else gp)
      | None \<Rightarrow>
          let t = (case g_guest_xrd g of
                Some x \<Rightarrow> x @ ''/pulse/native''
              | None \<Rightarrow> ''run/user/'' @ dec_nat (unat (g_uid g)) @ ''/pulse/native'')
          in if sz \<le> length t then None else Some t)"

definition prepare_default_pulse_target :: "os \<Rightarrow> gui_ctx \<Rightarrow> string \<Rightarrow> pst \<Rightarrow> int \<times> gui_ctx \<times> pst" where
  "prepare_default_pulse_target os g tgt s =
     (let (r, g, s) = ensure_guest_xdg_pulse os g s;
          (r, s) = (if r = 0 then touch_target os g tgt s else (r, s))
      in (r, g, s))"

definition prepare_custom_pulse_target :: "os \<Rightarrow> gui_ctx \<Rightarrow> string \<Rightarrow> pst \<Rightarrow> int \<times> pst" where
  "prepare_custom_pulse_target os g tgt s =
     (let p = mem_path (g_root g) tgt;
          (r, s) = (case strrchr_pos CHR ''/'' p of
                Some n \<Rightarrow> io_mkdir_own os (take n p) (g_uid g) (g_gid g) 448 s | None \<Rightarrow> (0, s))
      in if r = 0 then touch_target os g tgt s else (r, s))"

definition ensure_pulse_target :: "os \<Rightarrow> gui_ctx \<Rightarrow> string \<Rightarrow> pst \<Rightarrow> int \<times> gui_ctx \<times> pst" where
  "ensure_pulse_target os g tgt s =
     (let (e, s) = io_exists_at os (mem_path (g_root g) tgt) s in
      if e \<noteq> 0 then
        if g_guest_ps g = None then prepare_default_pulse_target os g tgt s
        else let (r, s) = prepare_custom_pulse_target os g tgt s in (r, g, s)
      else (0, if g_guest_ps g = None \<and> \<not> g_xrd_created g then g\<lparr>g_xrd_created := True\<rparr> else g, s))"

definition mount_pulse :: "os \<Rightarrow> gui_ctx \<Rightarrow> string \<Rightarrow> pst \<Rightarrow> int \<times> gui_ctx \<times> pst" where
  "mount_pulse os g host_xrd s =
     (case resolve_pulse_src (g_host_ps g) host_xrd of
        None \<Rightarrow> (0, g, s)
      | Some src \<Rightarrow>
          let (e, s) = io_exists_at os src s in
          if e \<noteq> 0 then (0, g, s)
          else
            (case pulse_target g 512 of
               None \<Rightarrow> (-1, g, s)
             | Some tgt \<Rightarrow>
                 let (r, g, s) = ensure_pulse_target os g tgt s;
                     (r, s) = (if r = 0 then mount_file_acl os g tgt src s else (r, s))
                 in (r, g, s)))"

definition host_wl_name :: "gui_ctx \<Rightarrow> string" where
  "host_wl_name g = (case g_host_wl g of Some w \<Rightarrow> w | None \<Rightarrow> ''wayland-0'')"

definition mount_xdg_socks :: "os \<Rightarrow> gui_ctx \<Rightarrow> pst \<Rightarrow> int \<times> gui_ctx \<times> pst" where
  "mount_xdg_socks os g s =
     (case g_host_xrd g of
        None \<Rightarrow> (0, g, s)
      | Some xrd \<Rightarrow>
          let (r, g, s) = mount_wayland os g xrd (host_wl_name g) s;
              (q, g, s) = mount_pulse os g xrd s
          in (if q \<noteq> 0 then -1 else r, g, s))"

section \<open>Without mounting\<close>

definition wayland_sock_present :: "os \<Rightarrow> gui_ctx \<Rightarrow> string \<Rightarrow> pst \<Rightarrow> bool \<times> pst" where
  "wayland_sock_present os g host_xrd s =
     (let (e, s) = io_exists_at os (mem_path host_xrd (host_wl_name g)) s in (e = 0, s))"

definition pulse_sock_present :: "os \<Rightarrow> gui_ctx \<Rightarrow> string \<Rightarrow> pst \<Rightarrow> bool \<times> pst" where
  "pulse_sock_present os g host_xrd s =
     (if g_guest_ps g \<noteq> None then (False, s)
      else
        (case resolve_pulse_src (g_host_ps g) host_xrd of
           None \<Rightarrow> (False, s)
         | Some p \<Rightarrow> let (e, s) = io_exists_at os p s in (e = 0, s)))"

definition xdg_detect_socks :: "os \<Rightarrow> gui_ctx \<Rightarrow> pst \<Rightarrow> gui_ctx \<times> pst" where
  "xdg_detect_socks os g s =
     (let g = g\<lparr>g_xrd_created := False\<rparr> in
      case g_host_xrd g of
        None \<Rightarrow> (g, s)
      | Some xrd \<Rightarrow>
          let (w, s) = wayland_sock_present os g xrd s;
              (p, s) = (if w then (True, s) else pulse_sock_present os g xrd s)
          in (g\<lparr>g_xrd_created := p\<rparr>, s))"

section \<open>All of it\<close>

definition setup_gui_mounts :: "os \<Rightarrow> gui_ctx \<Rightarrow> string option \<Rightarrow> pst \<Rightarrow> int \<times> gui_ctx \<times> pst" where
  "setup_gui_mounts os g container_home s =
     (if (case container_home of Some h \<Rightarrow> mem_path_escapes h | None \<Rightarrow> False) then (-1, g, s)
      else
        let (r, g, s) = mount_x11 os g s in
        if r \<noteq> 0 then (-1, g, s)
        else
          let (r, g, s) = mount_xdg_socks os g s in
          if r \<noteq> 0 then (-1, g, s) else mount_user_home os g container_home s)"

end
