(* ===== verification/Child.thy ===== *)
theory Child
  imports GuiSocks Launch Env Proc Net Modprobe Ext4 "HOL-Library.Monad_Syntax"
begin

text \<open>
  The steps of the child process (\<^verbatim>\<open>src/core/child.c\<close>) with the two look-ups of
  \<^verbatim>\<open>src/core/prep.c\<close> it uses.  A process that may leave through \<^verbatim>\<open>_exit\<close> gives \<open>Inl\<close> of its exit
  code; \<open>None\<close> is a run that does not end.  The world fixes what the program reads from outside:
  the system's answers, files read whole, the guest's user databases at each point of the run, the
  host's environment, the answers the image writer gets and what fresh stack memory holds.
  After a \<^verbatim>\<open>fork\<close> that answers 0 the trace goes on as the child's, otherwise as the parent's.
\<close>

record world =
  w_os :: os
  w_files :: files
  w_ext4 :: "trace \<Rightarrow> ext4_env"
  w_passwd :: "trace \<Rightarrow> string \<Rightarrow> passwd list option"
  w_group :: "trace \<Rightarrow> string \<Rightarrow> group list option"
  w_getenv :: "string \<Rightarrow> string option"
  w_stack :: "byte list"

section \<open>Runs that may leave the process\<close>

type_synonym ('s, 'a) run = "((int + 'a) \<times> 's) option"

definition bindx :: "('s, 'a) run \<Rightarrow> ('a \<Rightarrow> 's \<Rightarrow> ('s, 'b) run) \<Rightarrow> ('s, 'b) run" where
  "bindx m f = (case m of None \<Rightarrow> None | Some (Inl c, s) \<Rightarrow> Some (Inl c, s) | Some (Inr x, s) \<Rightarrow> f x s)"

definition quit :: "world \<Rightarrow> int \<Rightarrow> pst \<Rightarrow> (pst, 'a) run" where
  "quit w code s = (let (_, s) = psys (w_os w) (Exit code) s in Some (Inl code, s))"

text \<open>A run on the state of the file system, in a state that also has the module buffers.\<close>

definition lift_run :: "(pst \<Rightarrow> (pst, 'a) run) \<Rightarrow> mst \<Rightarrow> (mst, 'a) run" where
  "lift_run f x = map_option (\<lambda>(r, s). (r, (s, snd x))) (f (fst x))"

abbreviation pwdb :: "world \<Rightarrow> pst \<Rightarrow> string \<Rightarrow> passwd list option" where
  "pwdb w s \<equiv> w_passwd w (fst s)"

abbreviation grdb :: "world \<Rightarrow> pst \<Rightarrow> string \<Rightarrow> group list option" where
  "grdb w s \<equiv> w_group w (fst s)"

section \<open>Look-ups (\<^verbatim>\<open>prep.c\<close>)\<close>

fun find_env :: "string list \<Rightarrow> string \<Rightarrow> string option" where
  "find_env [] key = None"
| "find_env (e # es) key =
     (if starts_with key e \<and> length key < length e \<and> e ! length key = CHR ''='' then
        (case drop (length key + 1) e of [] \<Rightarrow> None | v \<Rightarrow> Some v)
      else find_env es key)"

definition find_envvar :: "cage_config \<Rightarrow> string \<Rightarrow> string option" where
  "find_envvar cfg key = find_env (cf_envvars cfg) key"

definition resolve_script :: "os \<Rightarrow> string \<Rightarrow> string \<Rightarrow> pst \<Rightarrow> string option \<times> pst" where
  "resolve_script os script root s =
     (let (a, s) = psys os (Access script) s;
          (ok, s) =
            (if a_ret a \<noteq> 0
             then let (b, s) = psys os (Access (mem_path root script)) s in (a_ret b = 0, s)
             else (True, s))
      in (if \<not> ok \<or> 4096 \<le> length script then None else Some script, s))"

section \<open>The init script\<close>

definition child_fork :: "os \<Rightarrow> pst \<Rightarrow> int \<times> pst" where
  "child_fork os s = (let (a, s) = psys os Fork s in (a_ret a, s))"

definition put_home_user_shell :: "env_t \<Rightarrow> string \<Rightarrow> string option \<Rightarrow> string \<Rightarrow> env_t option" where
  "put_home_user_shell env hm name shell = do {
     m \<leftarrow> env_map_put True (emap env) ''HOME'' hm;
     m \<leftarrow> env_map_put True m ''USER'' (case name of Some u \<Rightarrow> u | None \<Rightarrow> ''root'');
     m \<leftarrow> env_map_put True m ''SHELL'' shell;
     Some (env\<lparr>emap := m\<rparr>) }"

definition exec_script :: "world \<Rightarrow> string \<Rightarrow> string \<Rightarrow> string list \<Rightarrow> pst \<Rightarrow> (pst, 'a) run" where
  "exec_script w sh script env s = (let (_, s) = psys (w_os w) (Execve sh [sh, script] env) s in quit w 127 s)"

definition jail_root :: "world \<Rightarrow> string \<Rightarrow> pst \<Rightarrow> (pst, unit) run" where
  "jail_root w root s =
     (let (a, s) = psys (w_os w) (Chdir root) s in
      if a_ret a \<noteq> 0 then quit w 127 s
      else
        let (b, s) = psys (w_os w) (Ns (Chroot ''.'')) s in
        if a_ret b \<noteq> 0 then quit w 127 s
        else
          let (c, s) = psys (w_os w) (Chdir ''/'') s in
          if a_ret c \<noteq> 0 then quit w 127 s else Some (Inr (), s))"

definition init_child :: "world \<Rightarrow> string \<Rightarrow> env_t \<Rightarrow> string \<Rightarrow> user \<Rightarrow> pst \<Rightarrow> (pst, 'a) run" where
  "init_child w root env script u s =
     bindx (jail_root w root s) (\<lambda>_ s.
       let (_, s) = psys (w_os w) (Umask 18) s; (_, s) = psys (w_os w) (Setgroups []) s in do {
         (sh, u) \<leftarrow> (if guest_shell_override env then Some (let (sh, u) = get_shell (pwdb w s) u in (Some sh, u))
                    else map_option (\<lambda>sh. (sh, u)) (env_map_get (emap env) ''SHELL''));
         let sh = (case sh of Some sh \<Rightarrow> sh | None \<Rightarrow> ''/bin/sh'');
         let (hm, u) = get_home (pwdb w s) u;
         let (uname, u) = get_name (pwdb w s) u;
         env \<leftarrow> put_home_user_shell env hm uname sh;
         exec_script w sh script (env_map_build (emap env)) s })"

definition run_init :: "world \<Rightarrow> string \<Rightarrow> string \<Rightarrow> env_t \<Rightarrow> user \<Rightarrow> pst \<Rightarrow> (pst, int) run" where
  "run_init w script root env u s =
     (let (pid, s) = child_fork (w_os w) s in
      if pid < 0 then Some (Inr (-1), s)
      else if pid = 0 then init_child w root env script u s
      else
        (case pidwait (w_os w) pid 0 s of
           None \<Rightarrow> None
         | Some ((r, st), s) \<Rightarrow> Some (Inr (if r \<noteq> 0 then -1 else if st = 0 then 0 else -1), s)))"

definition do_init :: "world \<Rightarrow> string \<Rightarrow> string \<Rightarrow> env_t \<Rightarrow> user \<Rightarrow> pst \<Rightarrow> (pst, unit) run" where
  "do_init w script root env u s =
     (let (path, s) = resolve_script (w_os w) script root s in
      case path of
        None \<Rightarrow> quit w 1 s
      | Some path \<Rightarrow> bindx (run_init w path root env u s) (\<lambda>r s. if r \<noteq> 0 then quit w 1 s else Some (Inr (), s)))"

section \<open>The graphical session\<close>

definition fill_guest_env :: "gui_ctx \<Rightarrow> cage_config \<Rightarrow> gui_ctx" where
  "fill_guest_env g cfg =
     g\<lparr>g_guest_wl := find_envvar cfg ''WAYLAND_DISPLAY'', g_guest_ps := find_envvar cfg ''PULSE_SERVER'',
       g_guest_pc := find_envvar cfg ''PULSE_COOKIE'', g_guest_xrd := find_envvar cfg ''XDG_RUNTIME_DIR'',
       g_guest_xch := find_envvar cfg ''XDG_CONFIG_HOME'', g_guest_display := find_envvar cfg ''DISPLAY''\<rparr>"

definition fill_gui_ctx :: "world \<Rightarrow> cage_config \<Rightarrow> user \<Rightarrow> string \<Rightarrow> env_t \<Rightarrow> pst \<Rightarrow> gui_ctx \<times> user" where
  "fill_gui_ctx w cfg u root env s =
     (let (gl, u) = get_groups (pwdb w s) (grdb w s) u;
          (uid, u) = get_uid (pwdb w s) u;
          (gid, u) = get_gid (pwdb w s) (grdb w s) u;
          g = \<lparr>g_root = root, g_uid = uid, g_gid = gid, g_groups = gl,
               g_host_wl = w_getenv w ''WAYLAND_DISPLAY'', g_host_ps = w_getenv w ''PULSE_SERVER'',
               g_host_pc = w_getenv w ''PULSE_COOKIE'', g_host_xch = w_getenv w ''XDG_CONFIG_HOME'',
               g_host_xrd = host_xdg env, g_host_home = host_home env, g_host_display = w_getenv w ''DISPLAY'',
               g_guest_wl = None, g_guest_ps = None, g_guest_pc = None, g_guest_xrd = None, g_xrd_created = False,
               g_guest_xrd_env = False, g_guest_xch = None, g_guest_home_used = False, g_guest_display = None,
               g_guest_x11num = -1\<rparr>
      in (fill_guest_env g cfg, u))"

definition maybe_set_xdg_runtime :: "gui_ctx \<Rightarrow> env_t \<Rightarrow> u32 \<Rightarrow> env_t option" where
  "maybe_set_xdg_runtime g env uid =
     (if g_xrd_created g \<and> \<not> g_guest_xrd_env g then
        map_option (\<lambda>m. env\<lparr>emap := m\<rparr>)
          (env_map_put True (emap env) ''XDG_RUNTIME_DIR'' (take 63 (''/run/user/'' @ dec_nat (unat uid))))
      else Some env)"

definition fixup_home :: "world \<Rightarrow> env_t \<Rightarrow> user \<Rightarrow> pst \<Rightarrow> (env_t \<times> user) option" where
  "fixup_home w env u s =
     (case env_map_get (emap env) ''HOME'' of
        None \<Rightarrow> None
      | Some (Some _) \<Rightarrow> Some (env, u)
      | Some None \<Rightarrow>
          let (h, u) = get_home (pwdb w s) u in
          map_option (\<lambda>m. (env\<lparr>emap := m\<rparr>, u)) (env_map_put True (emap env) ''HOME'' h))"

definition host_home_ok :: "os \<Rightarrow> string option \<Rightarrow> pst \<Rightarrow> bool \<times> pst" where
  "host_home_ok os h s =
     (case h of
        Some (c # t) \<Rightarrow>
          if c \<noteq> CHR ''/'' \<or> mem_path_escapes (c # t) then (False, s)
          else let (d, s) = io_isdir os (c # t) s in (d = 0, s)
      | _ \<Rightarrow> (False, s))"

definition resolve_host_home :: "world \<Rightarrow> env_t \<Rightarrow> pst \<Rightarrow> env_t \<times> pst" where
  "resolve_host_home w env s =
     (let h = (case w_getenv w ''SUDO_HOME'' of Some h \<Rightarrow> Some h | None \<Rightarrow> w_getenv w ''HOME'');
          (ok, s) = host_home_ok (w_os w) h s
      in (env\<lparr>host_home := if ok then h else None\<rparr>, s))"

definition resolve_host_paths :: "world \<Rightarrow> env_t \<Rightarrow> u32 \<Rightarrow> pst \<Rightarrow> env_t \<times> pst" where
  "resolve_host_paths w env ruid s =
     (let env = (if host_xdg env = None then env\<lparr>host_xdg := Some (get_host_xdg_dir (w_getenv w) 64 (unat ruid))\<rparr>
                 else env)
      in if host_home env = None then resolve_host_home w env s else (env, s))"

text \<open>
  \<open>env_set_gui_envs\<close> asks \<open>io_exists\<close> about two paths; it gets the answers that the system gives at
  this point.
\<close>

definition apply_gui_env :: "world \<Rightarrow> gui_ctx \<Rightarrow> env_t \<Rightarrow> user \<Rightarrow> u32 \<Rightarrow> pst \<Rightarrow> (env_t \<times> user) option" where
  "apply_gui_env w g env u ruid s = do {
     let disp = (case g_guest_display g of Some d \<Rightarrow> Some d | None \<Rightarrow> g_host_display g);
     env \<leftarrow> env_set_gui_envs (w_getenv w) (\<lambda>p. fst (io_exists_at (w_os w) p s) = 0) env disp (g_guest_x11num g)
              (g_host_wl g) (unat ruid);
     let (uid, u) = get_uid (pwdb w s) u;
     env \<leftarrow> maybe_set_xdg_runtime g env uid;
     Some (env, u) }"

definition begin_gui_ctx ::
  "world \<Rightarrow> cage_config \<Rightarrow> user \<Rightarrow> string \<Rightarrow> env_t \<Rightarrow> u32 \<Rightarrow> pst \<Rightarrow> ((gui_ctx \<times> env_t \<times> user) \<times> pst) option" where
  "begin_gui_ctx w cfg u root env ruid s = do {
     let (env, s) = resolve_host_paths w env ruid s;
     (env, u) \<leftarrow> fixup_home w env u s;
     let (g, u) = fill_gui_ctx w cfg u root env s;
     let g = g\<lparr>g_xrd_created := False, g_guest_xrd_env := (find_envvar cfg ''XDG_RUNTIME_DIR'' \<noteq> None)\<rparr>;
     Some ((g, env, u), s) }"

definition child_setup_gui ::
  "world \<Rightarrow> cage_config \<Rightarrow> user \<Rightarrow> string \<Rightarrow> env_t \<Rightarrow> u32 \<Rightarrow> pst \<Rightarrow> (pst, env_t \<times> user) run" where
  "child_setup_gui w cfg u root env ruid s =
     (if \<not> cf_graphical cfg then Some (Inr (env, u), s)
      else do {
        ((g, env, u), s) \<leftarrow> begin_gui_ctx w cfg u root env ruid s;
        hm \<leftarrow> env_map_get (emap env) ''HOME'';
        let (r, g, s) = setup_gui_mounts (w_os w) g hm s;
        if r \<noteq> 0 then quit w 1 s
        else do { (env, u) \<leftarrow> apply_gui_env w g env u ruid s; Some (Inr (env, u), s) } })"

definition child_gui_env_only ::
  "world \<Rightarrow> cage_config \<Rightarrow> user \<Rightarrow> string \<Rightarrow> env_t \<Rightarrow> u32 \<Rightarrow> pst \<Rightarrow> ((env_t \<times> user) \<times> pst) option" where
  "child_gui_env_only w cfg u root env ruid s =
     (if \<not> cf_graphical cfg then Some ((env, u), s)
      else do {
        ((g, env, u), s) \<leftarrow> begin_gui_ctx w cfg u root env ruid s;
        let (g, s) = x11_resolve_display (w_os w) g s;
        let (g, s) = xdg_detect_socks (w_os w) g s;
        (env, u) \<leftarrow> apply_gui_env w g env u ruid s;
        Some ((env, u), s) })"

definition child_gui_env_inherit ::
  "world \<Rightarrow> cage_config \<Rightarrow> user \<Rightarrow> env_t \<Rightarrow> string option \<Rightarrow> pst \<Rightarrow> (env_t \<times> user) option" where
  "child_gui_env_inherit w cfg u env inst_env s =
     (if \<not> cf_graphical cfg then Some (env, u)
      else do {
        (env, u) \<leftarrow> fixup_home w env u s;
        m \<leftarrow> env_inherit_gui (emap env) inst_env;
        Some (env\<lparr>emap := m\<rparr>, u) })"

section \<open>Signalling the parent and running the command\<close>

definition do_child_net :: "world \<Rightarrow> int \<Rightarrow> int \<Rightarrow> pst \<Rightarrow> (int \<times> pst) option" where
  "do_child_net w net_id futex s =
     (let (_, s) = psys (w_os w) (Ipc (Store futex 1)) s;
          (_, s) = psys (w_os w) (Ipc (Futex_wake futex 1)) s;
          (v, s) = psys (w_os w) (Ipc (Load futex)) s;
          s = (if a_ret v \<noteq> 2 then snd (psys (w_os w) (Ipc (Futex_wait futex 1)) s) else s)
      in map_option (\<lambda>(r, tr). (r, (tr, snd s))) (net_setup_child (w_os w) net_id (w_stack w) (fst s)))"

definition child_root_ready :: "world \<Rightarrow> int \<Rightarrow> pst \<Rightarrow> pst" where
  "child_root_ready w futex s =
     (let (_, s) = psys (w_os w) (Ipc (Store futex 1)) s;
          (_, s) = psys (w_os w) (Ipc (Futex_wake futex 1)) s;
          (_, s) = psys (w_os w) (Ipc (Unmap futex 4096)) s in s)"

definition child_run :: "world \<Rightarrow> user \<Rightarrow> env_t \<Rightarrow> cage_config \<Rightarrow> pst \<Rightarrow> (pst, 'a) run" where
  "child_run w u env cfg s =
     (case launch_cage (w_os w) (pwdb w s) (grdb w s) True True u env (Some (cf_currentdir cfg)) (cf_command cfg) s of
        None \<Rightarrow> None
      | Some (rc, _, _, s) \<Rightarrow> quit w (if rc = 0 then 0 else 1) s)"

end
