(* ===== verification/CgroupEnter.thy ===== *)
theory CgroupEnter
  imports Cgroup Proc
begin

text \<open>
  Entering, preparing and removing control groups: the rest of \<^verbatim>\<open>src/sandbox/cgroup.c\<close>,
  \<^verbatim>\<open>src/sandbox/cgroup_setup.c\<close> and \<^verbatim>\<open>src/sandbox/cgroup_rmdir.c\<close>.  A \<^verbatim>\<open>write\<close> answers with the
  number of bytes taken.  Removing a tree is a partial function: a path that is already 4095
  characters long is cut back to itself when a child's name is added.
\<close>

section \<open>Writing a pid\<close>

text \<open>\<open>O_WRONLY\<close> is 1.  The text is at most 12 characters long, so the buffer of 32 is enough.\<close>

definition write_text :: "os \<Rightarrow> string \<Rightarrow> string \<Rightarrow> pst \<Rightarrow> (answer option) \<times> pst" where
  "write_text os path val s =
     (let (a, s) = psys os (Open path 1) s; fd = a_ret a in
      if fd < 0 then (None, s)
      else
        let (w, s) = psys os (Write fd val) s; (_, s) = psys os (Close fd) s in (Some w, s))"

definition write_pid :: "os \<Rightarrow> string \<Rightarrow> int \<Rightarrow> pst \<Rightarrow> int \<times> pst" where
  "write_pid os path pid s =
     (let val = dec_int pid @ [CHR 0x0A] in
      case write_text os path val s of
        (None, s) \<Rightarrow> (-1, s)
      | (Some w, s) \<Rightarrow> (if a_ret w = int (length val) then 0 else -1, s))"

section \<open>The controllers\<close>

definition write_subtree :: "os \<Rightarrow> string \<Rightarrow> string \<Rightarrow> pst \<Rightarrow> int \<times> pst" where
  "write_subtree os cg val s =
     (case write_text os (mem_path cg ''cgroup.subtree_control'') val s of
        (None, s) \<Rightarrow> (-1, s)
      | (Some w, s) \<Rightarrow> (if a_ret w = int (length val) then 0 else -1, s))"

definition trim_trailing_newline :: "string \<Rightarrow> string" where
  "trim_trailing_newline s = (if s \<noteq> [] \<and> last s = CHR 0x0A then butlast s else s)"

definition enable_cgroup_controllers :: "os \<Rightarrow> files \<Rightarrow> string \<Rightarrow> pst \<Rightarrow> int \<times> pst" where
  "enable_cgroup_controllers os files cg s =
     (let (r, b) = read_at files (mem_path cg ''cgroup.controllers'') 0 s in
      if r \<noteq> 0 then (0, s)
      else
        let t = trim_trailing_newline (buf_str b) in
        (case build_subtree_value t (length t) 256 of
           Some val \<Rightarrow> write_subtree os cg val s
         | None \<Rightarrow> (0, s)))"

text \<open>\<open>cgroup_get_type\<close>; \<open>CHR 0x09\<close> is the tab.\<close>

definition cgroup_get_type :: "files \<Rightarrow> pst \<Rightarrow> int" where
  "cgroup_get_type files s =
     (let (r, b) = read_at files ''/proc/filesystems'' 0 s in
      if r \<noteq> 0 then -1
      else if occurs_in ''cgroup2'' (buf_str b) then 2
      else if occurs_in (CHR 0x09 # ''cgroup'') (buf_str b) then 1 else 0)"

text \<open>The result of one attempt: 0 written, 1 busy, -1 failed.\<close>

definition try_write_subtree :: "os \<Rightarrow> string \<Rightarrow> string \<Rightarrow> pst \<Rightarrow> int \<times> pst" where
  "try_write_subtree os sub val s =
     (case write_text os sub val s of
        (None, s) \<Rightarrow> (-1, s)
      | (Some w, s) \<Rightarrow>
          (if a_ret w = int (length val) then 0 else if a_errno w = EBUSY then 1 else -1, s))"

text \<open>The loop from attempt \<open>a\<close> on; \<open>50 << a\<close> milliseconds between attempts.\<close>

function subtree_attempts :: "os \<Rightarrow> string \<Rightarrow> string \<Rightarrow> nat \<Rightarrow> pst \<Rightarrow> pst" where
  "subtree_attempts os sub val a s =
     (if 4 \<le> a then s
      else
        let (r, s) = try_write_subtree os sub val s in
        if r = 0 then s
        else if r < 0 \<or> a = 3 then s
        else
          let (_, s) = psys os (Ns (Nanosleep (50 * 2 ^ a * 1000000))) s
          in subtree_attempts os sub val (a + 1) s)"
  by pat_completeness auto
termination by (relation "measure (\<lambda>(_, _, _, a, _). 4 - a)") auto

declare subtree_attempts.simps [simp del]

definition write_subtree_value :: "os \<Rightarrow> string \<Rightarrow> string \<Rightarrow> pst \<Rightarrow> pst" where
  "write_subtree_value os cgdir val s = subtree_attempts os (mem_path cgdir ''cgroup.subtree_control'') val 0 s"

definition write_enable_controllers :: "os \<Rightarrow> files \<Rightarrow> string \<Rightarrow> pst \<Rightarrow> int \<times> pst" where
  "write_enable_controllers os files cgdir s =
     (let (r, b) = read_at files (mem_path cgdir ''cgroup.controllers'') 0 s in
      if r \<noteq> 0 then (0, s)
      else
        let t = trim_trailing_newline (buf_str b) in
        if t = [] then (0, s)
        else
          (case build_subtree_value t (length t) 256 of
             Some val \<Rightarrow> (0, write_subtree_value os cgdir val s)
           | None \<Rightarrow> (0, s)))"

section \<open>Detecting and preparing the hierarchy\<close>

definition check_cgroup_mount :: "os \<Rightarrow> pst \<Rightarrow> int \<times> pst" where
  "check_cgroup_mount os s =
     (let (e, s) = io_exists_at os (mem_path ''/sys/fs/cgroup'' ''cgroup.controllers'') s in
      if e < 0 then (-1, s)
      else if e = 0 then (0, s)
      else
        let (e, s) = io_exists_at os ''/sys/fs/cgroup'' s in
        if e < 0 then (-1, s) else if e = 1 then (-1, s) else (1, s))"

text \<open>The middle component of the result is \<open>root_private\<close>.\<close>

definition cgroup_detect_mount :: "os \<Rightarrow> bool \<Rightarrow> pst \<Rightarrow> int \<times> bool \<times> pst" where
  "cgroup_detect_mount os root_private s =
     (let (r, s) = check_cgroup_mount os s in
      if r \<noteq> 1 then (r, root_private, s)
      else
        let (u, s) = psys os (Ns (Unshare CLONE_NEWNS)) s in
        if a_ret u \<noteq> 0 then (-1, root_private, s)
        else
          let (m, s) = psys os (Ns (Mount None ''/'' None (MS_REC + MS_PRIVATE) None)) s in
          if a_ret m \<noteq> 0 then (-1, root_private, s)
          else
            let (c, s) = psys os (Ns (Mount (Some ''cgroup2'') ''/sys/fs/cgroup'' (Some ''cgroup2'')
                 (MS_NOSUID + MS_NOEXEC + MS_NODEV) None)) s in
            if a_ret c = 0 \<or> a_errno c = ENODEV then (0, True, s) else (-1, True, s))"

definition cage_dir :: "string \<Rightarrow> int \<Rightarrow> string" where
  "cage_dir root pid = root @ ''/cage-'' @ dec_int pid"

definition make_cgroup_dir :: "os \<Rightarrow> string \<Rightarrow> int \<Rightarrow> pst \<Rightarrow> string option \<times> pst" where
  "make_cgroup_dir os root pid s =
     (let cgdir = cage_dir root pid in
      if 4096 \<le> length cgdir then (None, s)
      else
        let (a, s) = psys os (Mkdir cgdir 493) s in
        if a_ret a \<noteq> 0 \<and> a_errno a \<noteq> EEXIST then (None, s) else (Some cgdir, s))"

definition write_procs :: "os \<Rightarrow> string \<Rightarrow> int \<Rightarrow> pst \<Rightarrow> int \<times> pst" where
  "write_procs os cgdir pid s = write_pid os (mem_path cgdir ''cgroup.procs'') pid s"

definition cgroup_pre_unshare_at :: "os \<Rightarrow> files \<Rightarrow> string \<Rightarrow> int \<Rightarrow> int \<Rightarrow> pst \<Rightarrow> int \<times> pst" where
  "cgroup_pre_unshare_at os files root fs_type pid s =
     (if fs_type \<noteq> 2 then (0, s)
      else
        let (r, s) = enable_cgroup_controllers os files root s in
        if r \<noteq> 0 then (-1, s)
        else
          (case make_cgroup_dir os root pid s of
             (None, s) \<Rightarrow> (-1, s)
           | (Some cgdir, s) \<Rightarrow>
               let (r, s) = write_procs os cgdir pid s in
               if r \<noteq> 0 then (-1, s) else write_enable_controllers os files cgdir s))"

definition cgroup_pre_unshare :: "os \<Rightarrow> files \<Rightarrow> int \<Rightarrow> int \<Rightarrow> pst \<Rightarrow> int \<times> pst" where
  "cgroup_pre_unshare os files fs_type pid s = cgroup_pre_unshare_at os files ''/sys/fs/cgroup'' fs_type pid s"

section \<open>Entering\<close>

definition cgroup_v1_enter_one :: "os \<Rightarrow> string \<Rightarrow> string \<Rightarrow> string \<Rightarrow> int \<Rightarrow> pst \<Rightarrow> int \<times> pst" where
  "cgroup_v1_enter_one os cg ctrl name pid s =
     (let cgdir = mem_path (mem_path cg ctrl) name; (r, s) = io_mkdir os cgdir s in
      if r \<noteq> 0 then (-1, s) else write_pid os (mem_path cgdir ''cgroup.procs'') pid s)"

definition cgroup_v2_enter :: "os \<Rightarrow> string \<Rightarrow> string \<Rightarrow> int \<Rightarrow> pst \<Rightarrow> int \<times> pst" where
  "cgroup_v2_enter os root name pid s =
     (let dir = mem_path (mem_path root ''sys/fs/cgroup'') name; (r, s) = io_mkdir os dir s in
      if r \<noteq> 0 then (-1, s) else write_pid os (mem_path dir ''cgroup.procs'') pid s)"

fun v1_enter_all :: "os \<Rightarrow> string \<Rightarrow> string list \<Rightarrow> string \<Rightarrow> int \<Rightarrow> pst \<Rightarrow> int \<times> pst" where
  "v1_enter_all os cg [] name pid s = (0, s)"
| "v1_enter_all os cg (c # cs) name pid s =
     (if starts_with ''name='' c then v1_enter_all os cg cs name pid s
      else
        let (r, s) = cgroup_v1_enter_one os cg c name pid s in
        if r \<noteq> 0 then (-1, s) else v1_enter_all os cg cs name pid s)"

definition cgroup_v1_enter :: "os \<Rightarrow> files \<Rightarrow> string \<Rightarrow> string \<Rightarrow> int \<Rightarrow> pst \<Rightarrow> (int \<times> pst) option" where
  "cgroup_v1_enter os files root name pid s =
     (case read_proc_cgroups files s of
        None \<Rightarrow> None
      | Some (n, ctrls) \<Rightarrow>
          if n < 0 then Some (-1, s) else Some (v1_enter_all os (mem_path root ''sys/fs/cgroup'') ctrls name pid s))"

definition cgroup_enter :: "os \<Rightarrow> files \<Rightarrow> string \<Rightarrow> bool \<Rightarrow> pst \<Rightarrow> (int \<times> pst) option" where
  "cgroup_enter os files root is_cgroup2 s =
     (if is_cgroup2 then Some (cgroup_v2_enter os root ''cage-parent'' 1 s)
      else cgroup_v1_enter os files root ''cage-parent'' 1 s)"

section \<open>Removing\<close>

text \<open>
  \<open>cgroup_rmdir_recursive\<close> (no names) and the loop of \<open>rmdir_children\<close> over the names still to come,
  as one function; \<open>snprintf\<close> keeps 4095 characters of a child's path.
\<close>

partial_function (option) rmdir_walk :: "os \<Rightarrow> string list option \<Rightarrow> string \<Rightarrow> pst \<Rightarrow> (int \<times> pst) option" where
  "rmdir_walk os names path s =
     (case names of
        None \<Rightarrow>
          let (d, s) = psys os (Opendir path) s in
          if a_ret d < 0 then Some (if a_errno d = ENOENT then 0 else -1, s)
          else
            Option.bind (rmdir_walk os (Some (a_names d)) path s) (\<lambda>(_, s).
              let (a, s) = psys os (Rmdir path) s in
              if a_ret a = 0 \<or> a_errno a = ENOENT then Some (0, invalidate path s) else Some (-1, s))
      | Some [] \<Rightarrow> Some (0, s)
      | Some (e # es) \<Rightarrow>
          if is_dot_or_dotdot e then rmdir_walk os (Some es) path s
          else
            let child = take 4095 (path @ ''/'' @ e); (l, s) = psys os (Lstat child) s in
            if a_ret l \<noteq> 0 then rmdir_walk os (Some es) path s
            else if S_ISDIR (st_mode (a_stat l)) then
              Option.bind (rmdir_walk os None child s) (\<lambda>(_, s). rmdir_walk os (Some es) path s)
            else rmdir_walk os (Some es) path s)"

definition cgroup_rmdir_recursive :: "os \<Rightarrow> string \<Rightarrow> pst \<Rightarrow> (int \<times> pst) option" where
  "cgroup_rmdir_recursive os path s = rmdir_walk os None path s"

definition cgroup_cleanup_at :: "os \<Rightarrow> string \<Rightarrow> int \<Rightarrow> int \<Rightarrow> pst \<Rightarrow> pst option" where
  "cgroup_cleanup_at os root pid fs_type s =
     (if fs_type \<noteq> 2 then Some s
      else
        let cgdir = cage_dir root pid in
        if 4096 \<le> length cgdir then Some s
        else
          let (e, s) = io_exists_at os cgdir s in
          if e \<noteq> 0 then Some s
          else
            let procs = root @ ''/cgroup.procs'' in
            if 4096 \<le> length procs then Some s
            else
              let (_, s) = write_pid os procs pid s in
              map_option (\<lambda>(_, s). invalidate cgdir s) (cgroup_rmdir_recursive os cgdir s))"

definition cgroup_cleanup :: "os \<Rightarrow> int \<Rightarrow> int \<Rightarrow> pst \<Rightarrow> pst option" where
  "cgroup_cleanup os pid fs_type s = cgroup_cleanup_at os ''/sys/fs/cgroup'' pid fs_type s"

section \<open>What a clean-up touches\<close>

text \<open>
  A directory of the group \<open>c\<close>: the group itself or what is reached from it through proper names, or a
  path below it that fills its buffer of 4096 bytes, whose last name may have been cut.
\<close>

definition group_path :: "string \<Rightarrow> string \<Rightarrow> bool" where
  "group_path c p \<longleftrightarrow> in_tree c p \<or> (length p = 4095 \<and> starts_with (c @ ''/'') p)"

text \<open>
  The calls a clean-up of the group of \<open>pid\<close> may make: looking for the group, writing the pid to the
  parent group's \<^verbatim>\<open>cgroup.procs\<close>, and listing, examining and removing directories of the group.
\<close>

fun cleanup_call :: "string \<Rightarrow> int \<Rightarrow> syscall \<Rightarrow> bool" where
  "cleanup_call root pid (Access p) = (p = cage_dir root pid)"
| "cleanup_call root pid (Open p fl) = (p = root @ ''/cgroup.procs'' \<and> fl = 1)"
| "cleanup_call root pid (Write fd t) = (t = dec_int pid @ [CHR 0x0A])"
| "cleanup_call root pid (Close fd) = True"
| "cleanup_call root pid (Opendir p) = group_path (cage_dir root pid) p"
| "cleanup_call root pid (Lstat p) = group_path (cage_dir root pid) p"
| "cleanup_call root pid (Rmdir p) = group_path (cage_dir root pid) p"
| "cleanup_call root pid _ = False"

lemma group_path_self [simp]: "group_path c c"
  unfolding group_path_def in_tree_def by (rule disjI1, rule exI [of _ "[]"]) simp

lemma group_path_child:
  assumes p: "group_path c p" and e: "\<not> is_dot_or_dotdot e" and len: "length c \<le> 4095"
  shows "group_path c (take 4095 (p @ ''/'' @ e))"
proof (cases "length (p @ ''/'' @ e) \<le> 4095")
  case True
  then show ?thesis using p in_tree_child [OF _ e] by (auto simp: group_path_def)
next
  case False
  have below: "starts_with (c @ ''/'') p \<or> p = c"
  proof (cases "in_tree c p")
    case True
    then obtain es where "p = c @ concat (map ((#) (CHR ''/'')) es)" by (auto simp: in_tree_def)
    then show ?thesis by (cases es) (auto simp: starts_with_iff)
  qed (use p in \<open>auto simp: group_path_def\<close>)
  show ?thesis
  proof (cases "length c = 4095")
    case True
    then have "take 4095 (p @ ''/'' @ e) = c" using below by (auto simp: starts_with_iff)
    then show ?thesis by simp
  next
    case here: False
    then have "length (c @ ''/'') \<le> 4095" using len by simp
    moreover obtain r where "p @ ''/'' @ e = (c @ ''/'') @ r" using below by (auto simp: starts_with_iff)
    ultimately have "take 4095 (p @ ''/'' @ e) = (c @ ''/'') @ take (4095 - length (c @ ''/'')) r"
      by (metis take_append take_all)
    then have "starts_with (c @ ''/'') (take 4095 (p @ ''/'' @ e))" unfolding starts_with_iff by blast
    moreover have "length (take 4095 (p @ ''/'' @ e)) = 4095" using False by simp
    ultimately show ?thesis unfolding group_path_def by blast
  qed
qed

lemma adds_bind: "adds P s t \<Longrightarrow> adds P t u \<Longrightarrow> adds P s u"
  by (rule adds_trans)

lemma adds_cons_call: "P c \<Longrightarrow> adds P (fst s @ [(c, os (fst s) c)], snd s) u \<Longrightarrow> adds P s u"
  using adds_trans [of P s "(fst s @ [(c, os (fst s) c)], snd s)" u] by simp

lemma walk_dir_adds:
  assumes p: "group_path (cage_dir root pid) path"
    and sub: "\<And>names z. walk names (snd (psys os (Opendir path) s)) = Some (z :: int \<times> pst) \<Longrightarrow>
      adds (cleanup_call root pid) (snd (psys os (Opendir path) s)) (snd z)"
    and e: "(let (d, s) = psys os (Opendir path) s in
          if a_ret d < 0 then Some (if a_errno d = ENOENT then 0 else -1, s)
          else
            Option.bind (walk (a_names d) s) (\<lambda>(_, s).
              let (a, s) = psys os (Rmdir path) s in
              if a_ret a = 0 \<or> a_errno a = ENOENT then Some (0, invalidate path s) else Some (-1 :: int, s)))
        = Some (y :: int \<times> pst)"
  shows "adds (cleanup_call root pid) s (snd y)"
proof -
  let ?P = "cleanup_call root pid" and ?d = "os (fst s) (Opendir path)"
  let ?s1 = "(fst s @ [(Opendir path, ?d)], snd s)"
  have "adds ?P ?s1 (snd y)"
  proof (cases "a_ret ?d < 0")
    case False
    let ?u = "\<lambda>t. snd (psys os (Rmdir path) t)"
    from False obtain a t where z: "walk (a_names ?d) ?s1 = Some (a, t)"
      and y: "snd y = ?u t \<or> snd y = invalidate path (?u t)"
      using e by (auto simp: psys_eq Let_def bind_eq_Some_conv split: if_splits)
    have "adds ?P t (?u t)" using p by (intro adds_psys) simp
    then have "adds ?P t (snd y)" using y by auto
    then show ?thesis using sub [of "a_names ?d" "(a, t)"] z adds_trans by (fastforce simp: psys_eq)
  qed (use e in \<open>auto simp: psys_eq Let_def\<close>)
  then show ?thesis using p adds_cons_call [of ?P "Opendir path" s os "snd y"] by simp
qed

lemma walk_entry_adds:
  assumes c: "group_path (cage_dir root pid) child"
    and rest: "\<And>t z. walk (Some es) path t = Some z \<Longrightarrow> adds (cleanup_call root pid) t (snd z)"
    and sub: "\<And>t z. walk None child t = Some z \<Longrightarrow> adds (cleanup_call root pid) t (snd z)"
    and e: "(let (l, s) = psys os (Lstat child) s in
            if a_ret l \<noteq> 0 then walk (Some es) path s
            else if S_ISDIR (st_mode (a_stat l)) then
              Option.bind (walk None child s) (\<lambda>(_, s). walk (Some es) path s)
            else walk (Some es) path s) = Some (y :: int \<times> pst)"
  shows "adds (cleanup_call root pid) s (snd y)"
proof -
  let ?P = "cleanup_call root pid"
  let ?s1 = "(fst s @ [(Lstat child, os (fst s) (Lstat child))], snd s)"
  have "adds ?P ?s1 (snd y)"
  proof (cases "walk (Some es) path ?s1 = Some y")
    case False
    then obtain z where "walk None child ?s1 = Some z" "walk (Some es) path (snd z) = Some y"
      using e by (auto simp: psys_eq Let_def bind_eq_Some_conv split: if_splits)
    then show ?thesis using sub rest adds_trans by blast
  qed (rule rest)
  then show ?thesis using c adds_cons_call [of ?P "Lstat child" s os "snd y"] by simp
qed

lemma rmdir_walk_adds:
  assumes "rmdir_walk os names path s = Some y" and "group_path (cage_dir root pid) path"
    and len: "length (cage_dir root pid) \<le> 4095"
  shows "adds (cleanup_call root pid) s (snd y)"
  using assms(2)
proof (induction rule: rmdir_walk.raw_induct [OF _ assms(1), consumes 0, case_names step])
  case (step walk os names path s y)
  note e = step(2) and p = step(3)
  have IH: "adds (cleanup_call root pid) t (snd z)"
    if "walk os ns q t = Some z" "group_path (cage_dir root pid) q" for os ns q t z
    by (rule step(1) [OF that])
  show ?case
  proof (cases names)
    case None
    show ?thesis
      by (rule walk_dir_adds [OF p, where walk = "\<lambda>ns. walk os (Some ns) path" and os = os])
        (use IH p e None in auto)
  next
    case (Some l)
    show ?thesis
    proof (cases l)
      case (Cons n ns)
      show ?thesis
      proof (cases "is_dot_or_dotdot n")
        case False
        define c where "c = take 4095 (path @ ''/'' @ n)"
        have cp: "group_path (cage_dir root pid) c" unfolding c_def by (rule group_path_child [OF p False len])
        show ?thesis
          by (rule walk_entry_adds [OF cp, where walk = "walk os" and os = os and es = ns and path = path])
            (use IH p cp e [unfolded Some Cons option.case list.case if_not_P [OF False] Let_def, folded c_def] in
              \<open>simp_all only: Let_def\<close>)
      qed (use IH e p Some Cons in auto)
    qed (use e Some in auto)
  qed
qed

lemma cleanup_adds:
  assumes "cgroup_cleanup_at os root pid fs_type s = Some s'"
  shows "adds (cleanup_call root pid) s s' \<and> (fs_type \<noteq> 2 \<longrightarrow> s' = s)"
proof (cases "fs_type = 2 \<and> length (cage_dir root pid) < 4096")
  case False
  then have "s' = s" using assms by (auto simp: cgroup_cleanup_at_def Let_def split: if_splits)
  then show ?thesis by simp
next
  case True
  let ?d = "cage_dir root pid"
  let ?P = "cleanup_call root pid"
  obtain e t where e: "io_exists_at os ?d s = (e, t)" by (cases "io_exists_at os ?d s")
  have t: "adds ?P s t"
    using e by (auto simp: io_exists_at_def psys_eq Let_def split: if_splits prod.splits)
  have w: "adds ?P t (snd (write_pid os (root @ ''/cgroup.procs'') pid t))"
    by (simp add: write_pid_def write_text_def psys_eq Let_def adds_def)
  have "adds ?P t s'"
  proof (cases "e = 0 \<and> length (root @ ''/cgroup.procs'') < 4096")
    case False
    then have "s' = t" using assms True e by (auto simp: cgroup_cleanup_at_def Let_def split: if_splits)
    then show ?thesis by simp
  next
    case big: True
    let ?u = "snd (write_pid os (root @ ''/cgroup.procs'') pid t)"
    obtain y where y: "rmdir_walk os None ?d ?u = Some y" and s': "s' = invalidate ?d (snd y)"
      using assms True big e
      by (auto simp: cgroup_cleanup_at_def cgroup_rmdir_recursive_def Let_def split_def)
    have "adds ?P ?u (snd y)" by (rule rmdir_walk_adds [OF y]) (use True in simp_all)
    then show ?thesis using w s' adds_trans by fastforce
  qed
  then have "adds ?P s s'" using t adds_trans by blast
  then show ?thesis using True by simp
qed

text \<open>
  C40: Cleaning up removes nothing but the instance's own group.  A clean-up of a version 2
  hierarchy that returns has looked for the group, written the pid to the parent group and, below
  that, only listed, examined and removed the group itself and what is reached from it through
  directory names other than \<open>.\<close> and \<open>..\<close>, so neither the parent nor another instance's group whose name begins
  alike; it never unlinks a file.  The one exception are paths below the group that fill their 4096
  bytes: there \<open>snprintf\<close> may have cut the last name.
\<close>

theorem cleanup_only_own_group:
  assumes "cgroup_cleanup_at os root pid fs_type s = Some s'"
  shows "\<exists>ext. fst s' = fst s @ ext \<and> list_all (cleanup_call root pid) (calls ext) \<and> (fs_type \<noteq> 2 \<longrightarrow> ext = [])"
  using cleanup_adds [OF assms] by (auto simp: adds_def)

text \<open>A group with one sub-group and no process left.\<close>

definition group_os :: os where
  "group_os tr c = (case c of
      Opendir p \<Rightarrow> if p = ''/c/cage-7'' then (ret 3)\<lparr>a_names := [''.'', ''x'']\<rparr> else ret 3
    | Lstat p \<Rightarrow> (ret 0)\<lparr>a_stat := \<lparr>st_uid = 0, st_gid = 0, st_mode = 16877, st_size = 0, st_dev = 0\<rparr>\<rparr>
    | Write fd t \<Rightarrow> ret 2
    | _ \<Rightarrow> ret 0)"

lemma group_dir: "cage_dir ''/c'' 7 = ''/c/cage-7''"
  by code_simp

lemma group_walk:
  "\<exists>s'. rmdir_walk group_os None ''/c/cage-7'' s = Some (0, s') \<and>
     [c \<leftarrow> calls (drop (length (fst s)) (fst s')). case c of Rmdir p \<Rightarrow> True | _ \<Rightarrow> False] = [Rmdir ''/c/cage-7/x'', Rmdir ''/c/cage-7'']"
proof -
  have 1: "rmdir_walk group_os (Some []) p t = Some (0, t)" for p t
    by (simp add: rmdir_walk.simps)
  have 2: "rmdir_walk group_os None ''/c/cage-7/x'' t = Some (0, invalidate ''/c/cage-7/x''
      (fst t @ [(Opendir ''/c/cage-7/x'', ret 3), (Rmdir ''/c/cage-7/x'', ret 0)], snd t))" for t
    by (subst rmdir_walk.simps) (simp add: psys_eq group_os_def ret_def 1 [unfolded group_os_def] rmdir_walk.simps [of _ "Some []"])
  define d where "d = (ret 0)\<lparr>a_stat := \<lparr>st_uid = 0, st_gid = 0, st_mode = 16877, st_size = 0, st_dev = 0\<rparr>\<rparr>"
  have 3: "rmdir_walk group_os (Some [''.'', ''x'']) ''/c/cage-7'' t = Some (0, invalidate ''/c/cage-7/x''
      (fst t @ [(Lstat ''/c/cage-7/x'', d), (Opendir ''/c/cage-7/x'', ret 3), (Rmdir ''/c/cage-7/x'', ret 0)], snd t))" for t
    by (subst rmdir_walk.simps, simp add: is_dot_or_dotdot_def, subst rmdir_walk.simps)
      (simp add: is_dot_or_dotdot_def psys_eq 1 2 [simplified] S_ISDIR_def group_os_def d_def Let_def)
  show ?thesis
    by (subst rmdir_walk.simps) (simp add: psys_eq 3 [simplified] group_os_def invalidate_def)
qed

theorem cleanup_only_own_group_witness:
  "\<exists>s' ext. cgroup_cleanup_at group_os ''/c'' 7 2 ([], []) = Some s' \<and> fst s' = ext \<and>
     list_all (cleanup_call ''/c'' 7) (calls ext)"
proof -
  have "\<exists>s'. cgroup_cleanup_at group_os ''/c'' 7 2 ([], []) = Some s'"
  proof -
    obtain e t where e: "io_exists_at group_os ''/c/cage-7'' ([], []) = (e, t)"
      by (cases "io_exists_at group_os ''/c/cage-7'' ([], [])")
    obtain w where "rmdir_walk group_os None ''/c/cage-7'' (snd (write_pid group_os ''/c/cgroup.procs'' 7 t)) = Some (0, w)"
      using group_walk by blast
    then show ?thesis using e
      by (simp add: cgroup_cleanup_at_def group_dir cgroup_rmdir_recursive_def Let_def split_def)
  qed
  then obtain s' where s': "cgroup_cleanup_at group_os ''/c'' 7 2 ([], []) = Some s'" by blast
  show ?thesis using cleanup_only_own_group [OF s'] s' by auto
qed

end
