(* ===== verification/NsSetup.thy ===== *)
theory NsSetup
  imports Child CgroupEnter Ext4Fix
begin

text \<open>
  Namespaces and the course of the child (\<^verbatim>\<open>src/sandbox/nssetup.c\<close>), and the preparation of the
  root directory before it (\<^verbatim>\<open>src/core/prep.c\<close>, \<^verbatim>\<open>early_setup_appdir\<close> of \<^verbatim>\<open>src/sandbox/mount.c\<close>).
  The child works on the state of the file system and the module buffers; the preparation also has
  the image files.  The environment that the C code passes by pointer is handed on.
\<close>

section \<open>Contexts\<close>

record run_ctx =
  rc_env :: env_t
  rc_net_futex :: int
  rc_root_futex :: int
  rc_net_id :: int
  rc_host_ruid :: u32
  rc_cg_fs_type :: int

record prep_result =
  pr_root :: string
  pr_child :: int
  pr_dirs :: appdir
  pr_cg_fs_type :: int
  pr_cg_pid :: int

section \<open>Namespaces\<close>

definition CLONE_NEWIPC :: nat where "CLONE_NEWIPC = 0x08000000"
definition CLONE_NEWUTS :: nat where "CLONE_NEWUTS = 0x04000000"

definition ns_setup :: "os \<Rightarrow> pst \<Rightarrow> int \<times> pst" where
  "ns_setup os s =
     (let (a, s) = psys os (Ns (Unshare (CLONE_NEWPID + CLONE_NEWIPC))) s in (if a_ret a \<noteq> 0 then -1 else 0, s))"

definition mount_ns_setup :: "os \<Rightarrow> bool \<Rightarrow> bool \<Rightarrow> bool \<Rightarrow> pst \<Rightarrow> int \<times> pst" where
  "mount_ns_setup os root_private unshare_cgroup unshare_net s =
     (let flags = CLONE_NEWNS + (if unshare_cgroup then CLONE_NEWCGROUP else 0);
          flags = (if unshare_net then flags + CLONE_NEWNET + CLONE_NEWUTS else flags);
          (a, s) = psys os (Ns (Unshare flags)) s in
      if a_ret a \<noteq> 0 then (-1, s)
      else if root_private then (0, s)
      else
        let (b, s) = psys os (Ns (Mount None ''/'' None (MS_REC + MS_PRIVATE) None)) s in
        (if a_ret b \<noteq> 0 then -1 else 0, s))"

section \<open>Steps of the child\<close>

definition inner_child_net :: "world \<Rightarrow> run_ctx \<Rightarrow> pst \<Rightarrow> (pst, unit) run" where
  "inner_child_net w rc s =
     (if rc_net_id rc < 0 then Some (Inr (), s)
      else
        (case do_child_net w (rc_net_id rc) (rc_net_futex rc) s of
           None \<Rightarrow> None
         | Some (r, s) \<Rightarrow> if r < 0 then quit w 1 s else Some (Inr (), s)))"

definition eager_resolve_user :: "world \<Rightarrow> user \<Rightarrow> pst \<Rightarrow> user" where
  "eager_resolve_user w u s =
     (let u = user_resolve (pwdb w s) u;
          u = snd (get_uid (pwdb w s) u);
          u = snd (get_gid (pwdb w s) (grdb w s) u)
      in snd (get_groups (pwdb w s) (grdb w s) u))"

definition move_and_chroot :: "world \<Rightarrow> string \<Rightarrow> pst \<Rightarrow> (pst, unit) run" where
  "move_and_chroot w root s =
     (let (a, s) = psys (w_os w) (Chdir root) s in
      if a_ret a \<noteq> 0 then quit w 1 s
      else
        let (b, s) = psys (w_os w) (Ns (Mount (Some root) ''/'' None MS_MOVE None)) s in
        if a_ret b \<noteq> 0 then quit w 1 s
        else
          let (c, s) = psys (w_os w) (Ns (Chroot ''.'')) s in
          if a_ret c \<noteq> 0 then quit w 1 s else Some (Inr (), s))"

definition do_child_init :: "world \<Rightarrow> string \<Rightarrow> string \<Rightarrow> env_t \<Rightarrow> pst \<Rightarrow> (pst, unit) run" where
  "do_child_init w root script env s = do_init w script root env (user_root_new (Some root)) s"

definition enter_cgroup_and_init :: "world \<Rightarrow> cage_config \<Rightarrow> env_t \<Rightarrow> int \<Rightarrow> pst \<Rightarrow> (pst, unit) run" where
  "enter_cgroup_and_init w cfg env has_cgroup s =
     (case (if cf_unshare_cgroup cfg then cgroup_enter (w_os w) (w_files w) ''/'' (2 \<le> has_cgroup) s else Some (0, s)) of
        None \<Rightarrow> None
      | Some (r, s) \<Rightarrow>
          if r \<noteq> 0 then quit w 1 s
          else (case cf_initscript cfg of Some script \<Rightarrow> do_child_init w ''/'' script env s | None \<Rightarrow> Some (Inr (), s)))"

definition reread_guest_user :: "world \<Rightarrow> cage_config \<Rightarrow> pst \<Rightarrow> (pst, user) run" where
  "reread_guest_user w cfg s =
     (case user_new (Some (cf_user cfg)) (cf_group cfg) (Some ''/'') of
        None \<Rightarrow> quit w 1 s
      | Some u \<Rightarrow> Some (Inr (eager_resolve_user w u s), s))"

text \<open>The result has the environment and the user.\<close>

definition do_child_setup :: "world \<Rightarrow> string \<Rightarrow> cage_config \<Rightarrow> run_ctx \<Rightarrow> int \<Rightarrow> pst \<Rightarrow> (pst, env_t \<times> user) run" where
  "do_child_setup w root cfg rc has_cgroup s =
     (case mount_all (w_os w) (w_files w) root cfg has_cgroup s of
        None \<Rightarrow> None
      | Some (r, s) \<Rightarrow>
          if r \<noteq> 0 then quit w 1 s
          else
            (case parse_envs (w_getenv w) (cf_envvars cfg) of
               None \<Rightarrow> None
             | Some (Inl _) \<Rightarrow> quit w 1 s
             | Some (Inr env) \<Rightarrow>
                 (case user_new (Some (cf_user cfg)) (cf_group cfg) (Some root) of
                    None \<Rightarrow> quit w 1 s
                  | Some u \<Rightarrow> child_setup_gui w cfg (eager_resolve_user w u s) root env (rc_host_ruid rc) s)))"

definition setup_mount_namespaces ::
  "world \<Rightarrow> prep_result \<Rightarrow> cage_config \<Rightarrow> run_ctx \<Rightarrow> bool \<Rightarrow> mst \<Rightarrow> (int \<times> mst) option" where
  "setup_mount_namespaces w pr cfg rc root_private x =
     (let (r, s) = mount_ns_setup (w_os w) root_private (cf_unshare_cgroup cfg) (0 \<le> rc_net_id rc) (fst x) in
      if r \<noteq> 0 then Some (-1, (s, snd x))
      else prepare_overlay (w_os w) (w_files w) (pr_root pr) (pr_dirs pr) (s, snd x))"

text \<open>Everything the child does after the mounts have been prepared.\<close>

definition run_in_root ::
  "world \<Rightarrow> prep_result \<Rightarrow> cage_config \<Rightarrow> run_ctx \<Rightarrow> pst \<Rightarrow> (pst, unit) run" where
  "run_in_root w pr cfg rc s =
     bindx (inner_child_net w rc s) (\<lambda>_ s.
     let has_cgroup = (if cf_unshare_cgroup cfg then rc_cg_fs_type rc else -2) in
     bindx (do_child_setup w (pr_root pr) cfg rc has_cgroup s) (\<lambda>(env, u) s.
     bindx (move_and_chroot w (pr_root pr) s) (\<lambda>_ s.
     let s = child_root_ready w (rc_root_futex rc) s in
     bindx (enter_cgroup_and_init w cfg env has_cgroup s) (\<lambda>_ s.
     bindx (if cf_initscript cfg \<noteq> None then reread_guest_user w cfg s else Some (Inr u, s)) (\<lambda>u s.
     child_run w u env cfg s)))))"

definition run_mount_inner ::
  "world \<Rightarrow> prep_result \<Rightarrow> cage_config \<Rightarrow> run_ctx \<Rightarrow> bool \<Rightarrow> mst \<Rightarrow> (mst, unit) run" where
  "run_mount_inner w pr cfg rc root_private x =
     (case setup_mount_namespaces w pr cfg rc root_private x of
        None \<Rightarrow> None
      | Some (r, x) \<Rightarrow>
          if r \<noteq> 0 then lift_run (quit w 1) x else lift_run (run_in_root w pr cfg rc) x)"

text \<open>The result is the child's number or -1.\<close>

definition fork_mount_child ::
  "world \<Rightarrow> prep_result \<Rightarrow> cage_config \<Rightarrow> run_ctx \<Rightarrow> bool \<Rightarrow> mst \<Rightarrow> (mst, int) run" where
  "fork_mount_child w pr cfg rc root_private x =
     (let (pid, s) = child_fork (w_os w) (fst x); x = (s, snd x) in
      if pid < 0 then Some (Inr (-1), x)
      else if pid = 0 then
        bindx (run_mount_inner w pr cfg rc root_private x) (\<lambda>_ x. lift_run (quit w 1) x)
      else Some (Inr pid, x))"

text \<open>The result is -1 or 0 with the root that \<open>mkdtemp\<close> made and the child.\<close>

definition prepare_mounts ::
  "world \<Rightarrow> prep_result \<Rightarrow> cage_config \<Rightarrow> run_ctx \<Rightarrow> bool \<Rightarrow> mst \<Rightarrow> (mst, int \<times> prep_result) run" where
  "prepare_mounts w pr cfg rc root_private x =
     (let (a, x) = mcall (w_os w) (Ns (Mkdtemp (pr_root pr))) x in
      if a_ret a < 0 then Some (Inr (-1, pr), x)
      else
        let pr = pr\<lparr>pr_root := a_path a\<rparr>; (r, s) = ns_setup (w_os w) (fst x); x = (s, snd x) in
        if r \<noteq> 0 then Some (Inr (-1, pr), x)
        else
          bindx (fork_mount_child w pr cfg rc root_private x) (\<lambda>pid x.
            Some (Inr (if pid < 0 then (-1, pr) else (0, pr\<lparr>pr_child := pid\<rparr>)), x)))"

section \<open>Preparing the root (\<^verbatim>\<open>prep.c\<close>)\<close>

definition early_setup_appdir :: "world \<Rightarrow> cage_config \<Rightarrow> fst_state \<Rightarrow> ((int \<times> appdir) \<times> fst_state) option" where
  "early_setup_appdir w cfg z =
     (case resolve_appdir cfg of
        None \<Rightarrow> Some ((-1, appdir_zero), z)
      | Some d \<Rightarrow>
          let d = d\<lparr>ad_lowerdir := strip_trailing_slash (ad_lowerdir d),
                    ad_upperdir := strip_trailing_slash (ad_upperdir d),
                    ad_workdir := strip_trailing_slash (ad_workdir d)\<rparr>
          in handle_same_fs (w_os w) (w_files w) (w_ext4 w) cfg d z)"

definition prep_pidfile :: "cage_config \<Rightarrow> string" where
  "prep_pidfile cfg = (case cf_pidfile cfg of Some p \<Rightarrow> p | None \<Rightarrow> compute_pidfile (cf_name cfg))"

text \<open>The result is -1 or 0, the prepared directories and \<open>root_private\<close>.\<close>

definition early_prep ::
  "world \<Rightarrow> cage_config \<Rightarrow> prep_result \<Rightarrow> bool \<Rightarrow> fst_state \<Rightarrow> ((int \<times> prep_result \<times> bool) \<times> fst_state) option" where
  "early_prep w cfg pr root_private z =
     (case early_setup_appdir w cfg z of
        None \<Rightarrow> None
      | Some ((r, d), z) \<Rightarrow>
          let pr = pr\<lparr>pr_dirs := d\<rparr> in
          if r \<noteq> 0 then Some ((-1, pr, root_private), z)
          else if pr_cg_fs_type pr \<noteq> 2 then Some ((0, pr, root_private), z)
          else
            let ((s, m), fs) = z; (r, root_private, s) = cgroup_detect_mount (w_os w) root_private s in
            if r \<noteq> 0 then Some ((-1, pr, root_private), ((s, m), fs))
            else
              let (r, s) = cgroup_pre_unshare (w_os w) (w_files w) (pr_cg_fs_type pr) (pr_cg_pid pr) s in
              Some ((if r \<noteq> 0 then -1 else 0, pr, root_private), ((s, m), fs)))"

definition unprepare :: "os \<Rightarrow> string \<Rightarrow> pst \<Rightarrow> pst" where
  "unprepare os root s = snd (io_rmtree os root s)"

text \<open>
  \<open>do_root_prep\<close>; after a failure the root is given up (\<open>None\<close>).  A process that leaves on the way
  is the child.
\<close>

definition do_root_prep ::
  "world \<Rightarrow> cage_config \<Rightarrow> prep_result \<Rightarrow> run_ctx \<Rightarrow> bool \<Rightarrow> fst_state \<Rightarrow>
   (fst_state, int \<times> prep_result \<times> bool \<times> bool) run" where
  "do_root_prep w cfg pr rc root_private z =
     (case early_prep w cfg pr root_private z of
        None \<Rightarrow> None
      | Some ((r, pr, root_private), z) \<Rightarrow>
          if r \<noteq> 0 then Some (Inr (-1, pr, False, root_private), z)
          else
            (case prepare_mounts w (pr\<lparr>pr_root := ''/tmp/cage-XXXXXX''\<rparr>) cfg rc root_private (fst z) of
               None \<Rightarrow> None
             | Some (Inl c, x) \<Rightarrow> Some (Inl c, (x, snd z))
             | Some (Inr (r, pr), x) \<Rightarrow>
                 if r \<noteq> 0
                 then Some (Inr (-1, pr, False, root_private), ((unprepare (w_os w) (pr_root pr) (fst x), snd x), snd z))
                 else Some (Inr (0, pr, True, root_private), (x, snd z))))"

end
