(* ===== verification/Cage.thy ===== *)
theory Cage
  imports NsSetup Super Nft Veth Args
begin

text \<open>
  Starting an instance (\<^verbatim>\<open>src/core/cage.c\<close>), joining a running one (\<^verbatim>\<open>src/core/reuse.c\<close>) and the
  program's entry point (\<^verbatim>\<open>src/main.c\<close>).  A run that leaves the process on the way is the child's, or
  that of the process that became \<^verbatim>\<open>sudo\<close>.  Waiting for a word in shared memory is a partial function,
  because the other process may never store it and never exit.
\<close>

text \<open>Runs on the trace alone, and on parts of the larger states.\<close>

definition on_trace :: "(trace \<Rightarrow> ('a \<times> trace) option) \<Rightarrow> pst \<Rightarrow> ('a \<times> pst) option" where
  "on_trace f s = map_option (\<lambda>(r, tr). (r, (tr, snd s))) (f (fst s))"

definition tr_fst :: "(trace \<Rightarrow> 'a \<times> trace) \<Rightarrow> pst \<Rightarrow> 'a \<times> pst" where
  "tr_fst f s = (let (r, tr) = f (fst s) in (r, (tr, snd s)))"

section \<open>The host's side of the network\<close>

definition nl_send_msg :: "os \<Rightarrow> int \<Rightarrow> byte list \<Rightarrow> pst \<Rightarrow> pst" where
  "nl_send_msg os fd buf s = snd (tr_fst (netlink_send os fd (take (unat (nlmsg_len buf 0)) buf)) s)"

definition parent_nl_addr6 :: "os \<Rightarrow> int \<Rightarrow> int \<Rightarrow> int \<Rightarrow> pst \<Rightarrow> pst" where
  "parent_nl_addr6 os fd net_id host_idx s =
     (let (r, mbuf) = netlink_fill_addr6 64 host_idx NET6_PREFIXLEN (net6_addr net_id True) in
      if r = 0 then nl_send_msg os fd mbuf s else s)"

definition parent_nl_cmds :: "world \<Rightarrow> int \<Rightarrow> int \<Rightarrow> int \<Rightarrow> pst \<Rightarrow> pst option" where
  "parent_nl_cmds w fd net_id nsfd s =
     (let os = w_os w; host = take 31 (CAGE_VETH_HOST_PFX @ dec_int net_id) in
      case on_trace (netlink_create_veth os fd host CAGE_VETH_PEER_NAME nsfd (w_stack w)) s of
        None \<Rightarrow> None
      | Some (None, s) \<Rightarrow> Some s
      | Some (Some host_idx, s) \<Rightarrow>
          let (r, mbuf) = netlink_fill_addr 256 host_idx 31 (NET_HOST_IP net_id);
              s = (if r = 0 then nl_send_msg os fd mbuf s else s);
              (r, mbuf) = netlink_fill_up 256 host_idx;
              s = (if r = 0 then nl_send_msg os fd mbuf s else s)
          in Some (parent_nl_addr6 os fd net_id host_idx s))"

partial_function (option) wait_flag :: "os \<Rightarrow> int \<Rightarrow> int \<Rightarrow> int \<Rightarrow> pst \<Rightarrow> (int \<times> pst) option" where
  "wait_flag os flag want child s =
     (let (v, s) = psys os (Ipc (Load flag)) s in
      if a_ret v = want then Some (0, s)
      else
        let (i, s) = psys os (Ipc (Wait_nohang child)) s in
        if a_ret i = 0 \<and> int (st_size (a_stat i)) = child then Some (-1, s)
        else
          let (_, s) = psys os (Ipc (Futex_wait_to flag 0 20000000)) s
          in wait_flag os flag want child s)"

definition net_ready :: "os \<Rightarrow> int \<Rightarrow> int \<Rightarrow> pst \<Rightarrow> (int \<times> pst) option" where
  "net_ready os futex child s =
     (let (v, s) = psys os (Ipc (Load futex)) s in
      if a_ret v = 1 then Some (0, s) else wait_flag os futex 1 child s)"

definition do_parent_net :: "world \<Rightarrow> int \<Rightarrow> int \<Rightarrow> int \<Rightarrow> pst \<Rightarrow> pst option" where
  "do_parent_net w child net_id futex s =
     (let os = w_os w in
      case net_ready os futex child s of
        None \<Rightarrow> None
      | Some (r, s) \<Rightarrow>
          if r \<noteq> 0 then Some s
          else
            let (n, s) = psys os (Open (''/proc/'' @ dec_int child @ ''/ns/net'') 524288) s; nsfd = a_ret n in
            (case
               (if 0 \<le> nsfd then
                  let (f, s) = tr_fst (netlink_open os) s in
                  map_option (\<lambda>s. snd (psys os (Close nsfd) s))
                    (case f of
                       None \<Rightarrow> Some s
                     | Some fd \<Rightarrow>
                         map_option (\<lambda>s. snd (tr_fst (\<lambda>tr. ((), netlink_close os fd tr)) s)) (parent_nl_cmds w fd net_id nsfd s))
                else Some s) of
               None \<Rightarrow> None
             | Some s \<Rightarrow>
                 let (_, s) = psys os (Ipc (Store futex 2)) s; (_, s) = psys os (Ipc (Futex_wake futex 1)) s
                 in Some s))"

text \<open>\<open>mmap\<close> answers the address, or -1; a new page is zeroed by the store.\<close>

definition create_futex :: "os \<Rightarrow> pst \<Rightarrow> int option \<times> pst" where
  "create_futex os s =
     (let (a, s) = psys os (Ipc (Map_shared 4096)) s in
      if a_ret a = -1 then (None, s)
      else let (_, s) = psys os (Ipc (Store (a_ret a) 0)) s in (Some (a_ret a), s))"

text \<open>The result has the word's address and the number of the link, which is -1 while there is none.\<close>

definition setup_net_links :: "world \<Rightarrow> pst \<Rightarrow> ((int option \<times> int) \<times> pst) option" where
  "setup_net_links w s =
     (let os = w_os w; (n, s) = tr_fst (netlink_open os) s in
      case n of
        None \<Rightarrow> Some ((None, -1), s)
      | Some nfd \<Rightarrow>
          (case on_trace (netlink_alloc_veth_id os nfd CAGE_VETH_HOST_PFX (w_stack w)) s of
             None \<Rightarrow> None
           | Some (vid, s) \<Rightarrow>
               let s = snd (tr_fst (\<lambda>tr. ((), netlink_close os nfd tr)) s) in
               (case vid of
                  None \<Rightarrow> Some ((None, -1), s)
                | Some i \<Rightarrow>
                    let (r, s) = tr_fst (net_enable_ip_forward os) s in
                    if r < 0 then Some ((None, int i), s)
                    else
                      (case on_trace (net_setup_nat os (w_stack w)) s of
                         None \<Rightarrow> None
                       | Some (r, s) \<Rightarrow>
                           if r < 0 then Some ((None, int i), s)
                           else
                             let (_, s) = tr_fst (net_enable_ip6_forward os) s in
                             (case on_trace (net_setup_nat6 os (w_stack w)) s of
                                None \<Rightarrow> None
                              | Some (_, s) \<Rightarrow> let (f, s) = create_futex os s in Some ((f, int i), s))))))"

definition unlink_pidfile :: "os \<Rightarrow> string \<Rightarrow> pst \<Rightarrow> pst" where
  "unlink_pidfile os pidfile s = snd (io_unlink_quiet os pidfile s)"

definition free_futex :: "os \<Rightarrow> int option \<Rightarrow> pst \<Rightarrow> pst" where
  "free_futex os fut s = (case fut of None \<Rightarrow> s | Some a \<Rightarrow> snd (psys os (Ipc (Unmap a 4096)) s))"

section \<open>The state of a start\<close>

text \<open>\<open>free_pidfile\<close> only says what to free, and is left out; \<open>root\<close> is None once it is given up.\<close>

record spawn_st =
  sp_env :: "env_t option"   \<comment> \<open>zeroed here; the child parses its own\<close>
  sp_pidfile :: string
  sp_root :: "string option"
  sp_child :: int
  sp_pidfd :: int
  sp_net_id :: int
  sp_cg_fs_type :: int
  sp_cgroup_root_private :: bool
  sp_cg_pid :: int
  sp_net_futex :: "int option"
  sp_root_futex :: "int option"

definition spawn_st_init :: spawn_st where
  "spawn_st_init = \<lparr>sp_env = None, sp_pidfile = [], sp_root = None, sp_child = -1, sp_pidfd = -1, sp_net_id = -1,
     sp_cg_fs_type = 0, sp_cgroup_root_private = False, sp_cg_pid = 0, sp_net_futex = None, sp_root_futex = None\<rparr>"

definition setup_net_or_fail :: "world \<Rightarrow> cage_config \<Rightarrow> spawn_st \<Rightarrow> mst \<Rightarrow> ((int \<times> spawn_st) \<times> mst) option" where
  "setup_net_or_fail w cfg st x =
     (if \<not> cf_unshare_net cfg then Some ((0, st), x)
      else
        (case modprobe_load (w_os w) (w_files w) ''veth'' x of
           None \<Rightarrow> None
         | Some (r, x) \<Rightarrow>
             if r \<noteq> 0 then Some ((-1, st), x)
             else
               map_option (\<lambda>((f, i), s).
                   ((if f = None then -1 else 0, st\<lparr>sp_net_futex := f, sp_net_id := i\<rparr>), (s, snd x)))
                 (setup_net_links w (fst x))))"

definition setup_cgroup :: "world \<Rightarrow> cage_config \<Rightarrow> spawn_st \<Rightarrow> pst \<Rightarrow> (int \<times> spawn_st) \<times> pst" where
  "setup_cgroup w cfg st s =
     (if \<not> cf_unshare_cgroup cfg then ((0, st), s)
      else
        let t = cgroup_get_type (w_files w) s; st = st\<lparr>sp_cg_fs_type := t\<rparr> in
        if t < 0 then ((-1, st), s)
        else let (p, s) = psys (w_os w) (Ns Getpid) s in ((0, st\<lparr>sp_cg_pid := a_ret p\<rparr>), s))"

text \<open>The environment in the child's context is the zeroed one, which it never reads before parsing.\<close>

definition env_zero :: env_t where
  "env_zero = \<lparr>efields = replicate 6 None, guest_shell_override = False, host_xdg = None, host_home = None, emap = env_map_zero\<rparr>"

definition do_setup_prep :: "world \<Rightarrow> cage_config \<Rightarrow> spawn_st \<Rightarrow> u32 \<Rightarrow> fst_state \<Rightarrow> (fst_state, int \<times> spawn_st) run" where
  "do_setup_prep w cfg st ruid z =
     (let ((s, m), fs) = z; (f, s) = create_futex (w_os w) s; st = st\<lparr>sp_root_futex := f\<rparr>; z = ((s, m), fs) in
      case f of
        None \<Rightarrow> Some (Inr (-1, st), z)
      | Some root_futex \<Rightarrow>
          let rc = \<lparr>rc_env = env_zero, rc_net_futex = (case sp_net_futex st of Some a \<Rightarrow> a | None \<Rightarrow> 0),
                    rc_root_futex = root_futex, rc_net_id = sp_net_id st, rc_host_ruid = ruid,
                    rc_cg_fs_type = sp_cg_fs_type st\<rparr>;
              pr = \<lparr>pr_root = [], pr_child = 0, pr_dirs = appdir_zero, pr_cg_fs_type = sp_cg_fs_type st,
                    pr_cg_pid = sp_cg_pid st\<rparr>
          in bindx (do_root_prep w cfg pr rc (sp_cgroup_root_private st) z) (\<lambda>(r, pr, _, priv) z.
               let st = st\<lparr>sp_cgroup_root_private := priv\<rparr> in
               if r < 0 then Some (Inr (-1, st), z)
               else Some (Inr (0, st\<lparr>sp_root := Some (pr_root pr), sp_child := pr_child pr\<rparr>), z)))"

definition remove_root :: "os \<Rightarrow> spawn_st \<Rightarrow> pst \<Rightarrow> spawn_st \<times> pst" where
  "remove_root os st s =
     (case sp_root st of
        None \<Rightarrow> (st, s)
      | Some root \<Rightarrow>
          let (a, s) = psys os (Rmdir root) s;
              s = (if a_ret a \<noteq> 0 then snd (io_rmtree os root s) else s)
          in (st\<lparr>sp_root := None\<rparr>, s))"

definition wait_root_ready :: "os \<Rightarrow> int \<Rightarrow> int \<Rightarrow> pst \<Rightarrow> (int \<times> pst) option" where
  "wait_root_ready os ready child s = wait_flag os ready 1 child s"

definition finish_child :: "world \<Rightarrow> spawn_st \<Rightarrow> pst \<Rightarrow> (int \<times> pst) option" where
  "finish_child w st s =
     (case pidwait (w_os w) (sp_child st) 0 s of
        None \<Rightarrow> None
      | Some ((r, status), s) \<Rightarrow>
          (case cgroup_cleanup (w_os w) (sp_cg_pid st) (sp_cg_fs_type st) (unlink_pidfile (w_os w) (sp_pidfile st) s) of
             None \<Rightarrow> None
           | Some s \<Rightarrow>
               let (_, s) = remove_root (w_os w) st s
               in Some (if r \<noteq> 0 then 1 else int (exit_code_from_status status), s)))"

definition spawn_cleanup :: "world \<Rightarrow> spawn_st \<Rightarrow> pst \<Rightarrow> pst option" where
  "spawn_cleanup w st s =
     (let os = w_os w;
          s = free_futex os (sp_net_futex st) s;
          s = free_futex os (sp_root_futex st) s;
          s = (if 0 \<le> sp_pidfd st then close_pid os (sp_pidfd st) s else s);
          s = unlink_pidfile os (sp_pidfile st) s
      in map_option (\<lambda>s. snd (remove_root os st s)) (cgroup_cleanup os (sp_cg_pid st) (sp_cg_fs_type st) s))"

definition do_setup :: "world \<Rightarrow> cage_config \<Rightarrow> spawn_st \<Rightarrow> u32 \<Rightarrow> fst_state \<Rightarrow> (fst_state, int \<times> spawn_st) run" where
  "do_setup w cfg st ruid z =
     (case setup_net_or_fail w cfg st (fst z) of
        None \<Rightarrow> None
      | Some ((r, st), x) \<Rightarrow>
          if r < 0 then Some (Inr (-1, st), (x, snd z))
          else
            let ((r, st), s) = setup_cgroup w cfg st (fst x); z = ((s, snd x), snd z) in
            if r < 0 then Some (Inr (-1, st), z) else do_setup_prep w cfg st ruid z)"

definition spawn_init :: "world \<Rightarrow> cage_config \<Rightarrow> u32 \<Rightarrow> fst_state \<Rightarrow> (fst_state, int \<times> spawn_st) run" where
  "spawn_init w cfg ruid z =
     (let st = spawn_st_init\<lparr>sp_pidfile := prep_pidfile cfg\<rparr>;
          ((s, m), fs) = z; (pidfd, s) = create_pidfile (w_os w) (sp_pidfile st) s; z = ((s, m), fs);
          st = st\<lparr>sp_pidfd := pidfd\<rparr> in
      if pidfd < 0 then Some (Inr (-1, st), z)
      else
        bindx (do_setup w cfg st ruid z) (\<lambda>(r, st) z.
          if r \<noteq> 0 then
            map_option (\<lambda>s. (Inr (-1, st), ((s, snd (fst z)), snd z))) (spawn_cleanup w st (fst (fst z)))
          else Some (Inr (0, st), z)))"

definition spawn_exec :: "world \<Rightarrow> spawn_st \<Rightarrow> pst \<Rightarrow> (int \<times> pst) option" where
  "spawn_exec w st s =
     (let os = w_os w;
          (_, s) = psys os (Write (sp_pidfd st) (dec_int (sp_child st))) s;
          s = close_pid os (sp_pidfd st) s; st = st\<lparr>sp_pidfd := -1\<rparr> in
      case (case sp_net_futex st of
              Some f \<Rightarrow> if 0 \<le> sp_net_id st then do_parent_net w (sp_child st) (sp_net_id st) f s else Some s
            | None \<Rightarrow> Some s) of
        None \<Rightarrow> None
      | Some s \<Rightarrow>
          let s = free_futex os (sp_net_futex st) s in
          (case sp_root_futex st of
             None \<Rightarrow> None
           | Some rf \<Rightarrow>
               (case wait_root_ready os rf (sp_child st) s of
                  None \<Rightarrow> None
                | Some (r, s) \<Rightarrow>
                    let (st, s) = (if r = 0 then remove_root os st s else (st, s)) in
                    finish_child w st (free_futex os (sp_root_futex st) s))))"

definition spawn_cage :: "world \<Rightarrow> cage_config \<Rightarrow> u32 \<Rightarrow> fst_state \<Rightarrow> (fst_state, int) run" where
  "spawn_cage w cfg ruid z =
     bindx (spawn_init w cfg ruid z) (\<lambda>(r, st) z.
       if r < 0 then Some (Inr (-1), z)
       else map_option (\<lambda>(r, s). (Inr r, ((s, snd (fst z)), snd z))) (spawn_exec w st (fst (fst z))))"

section \<open>Joining a running instance (\<^verbatim>\<open>reuse.c\<close>)\<close>

text \<open>\<open>__read_pid_environ\<close> and \<open>env_read_pid_environ\<close> of \<^verbatim>\<open>src/util/env.c\<close>: the whole buffer, with its NULs.\<close>

definition env_read_pid_environ :: "world \<Rightarrow> int \<Rightarrow> pst \<Rightarrow> string option" where
  "env_read_pid_environ w pid s =
     (let (r, b) = Files.read_at (w_files w) (''/proc/'' @ dec_int pid @ ''/environ'') 0 s in
      if r \<noteq> 0 then None else Some (text_of b))"

text \<open>The outer \<open>None\<close> is a run without end; \<open>Inl\<close> is the result -1.\<close>

definition reuse_setup_env ::
  "world \<Rightarrow> cage_config \<Rightarrow> user \<Rightarrow> string \<Rightarrow> string option \<Rightarrow> u32 \<Rightarrow> pst \<Rightarrow> ((int + env_t \<times> user) \<times> pst) option" where
  "reuse_setup_env w cfg u root inst_env ruid s =
     (case parse_envs (w_getenv w) (cf_envvars cfg) of
        None \<Rightarrow> None
      | Some (Inl _) \<Rightarrow> Some (Inl (-1), s)
      | Some (Inr env) \<Rightarrow>
          if inst_env \<noteq> None
          then map_option (\<lambda>x. (Inr x, s)) (child_gui_env_inherit w cfg u env inst_env s)
          else map_option (\<lambda>(x, s). (Inr x, s)) (child_gui_env_only w cfg u root env ruid s))"

definition reuse_child :: "world \<Rightarrow> cage_config \<Rightarrow> u32 \<Rightarrow> string option \<Rightarrow> pst \<Rightarrow> (pst, 'a) run" where
  "reuse_child w cfg ruid inst_env s =
     (let (a, s) = psys (w_os w) (Ns (Chroot ''.'')) s in
      if a_ret a \<noteq> 0 then quit w 1 s
      else
        (case user_new (Some (cf_user cfg)) (cf_group cfg) (Some ''/'') of
           None \<Rightarrow> quit w 1 s
         | Some u \<Rightarrow>
             (case reuse_setup_env w cfg u ''/'' inst_env ruid s of
                None \<Rightarrow> None
              | Some (Inl _, s) \<Rightarrow> quit w 1 s
              | Some (Inr (env, u), s) \<Rightarrow>
                  (case launch_cage (w_os w) (pwdb w s) (grdb w s) True True u env (Some (cf_currentdir cfg)) (cf_command cfg) s of
                     None \<Rightarrow> None
                   | Some (r, _, _, s) \<Rightarrow> quit w (if r \<noteq> 0 then 1 else 0) s))))"

definition wait_status :: "os \<Rightarrow> int \<Rightarrow> pst \<Rightarrow> (int \<times> pst) option" where
  "wait_status os child s =
     map_option (\<lambda>((r, status), s). (if r \<noteq> 0 then 1 else int (exit_code_from_status status), s)) (pidwait os child 0 s)"

definition spawn_existing :: "world \<Rightarrow> cage_config \<Rightarrow> int \<Rightarrow> u32 \<Rightarrow> pst \<Rightarrow> (pst, int) run" where
  "spawn_existing w cfg old_pid ruid s =
     (let os = w_os w; (a, s) = psys os (Chdir (''/proc/'' @ dec_int old_pid @ ''/root'')) s in
      if a_ret a \<noteq> 0 then Some (Inr (-1), s)
      else
        let inst_env = (if cf_graphical cfg then env_read_pid_environ w old_pid s else None);
            (r, s) = join_namespaces os old_pid s in
        if r \<noteq> 0 then Some (Inr (-1), s)
        else
          let (child, s) = child_fork os s in
          if child < 0 then Some (Inr (-1), s)
          else if child = 0 then reuse_child w cfg ruid inst_env s
          else map_option (\<lambda>(r, s). (Inr r, s)) (wait_status os child s))"

section \<open>The entry point (\<^verbatim>\<open>main.c\<close>)\<close>

definition handle_fix :: "os \<Rightarrow> string list \<Rightarrow> pst \<Rightarrow> int \<times> pst" where
  "handle_fix os argv s =
     (if length argv = 2 \<and> argv ! 1 = ''--fix''
      then let (r, s) = tr_fst (super_fix os) s in (if r \<noteq> 0 then 1 else 0, s)
      else (-1, s))"

definition handle_config_exits :: "world \<Rightarrow> cage_config \<Rightarrow> pst \<Rightarrow> (int \<times> pst) option" where
  "handle_config_exits w cfg s =
     (if cf_show_help cfg then Some (0, s)
      else if cf_show_version cfg then Some (0, s)
      else if cf_kill_mode cfg
      then map_option (\<lambda>(r, s). (if r \<noteq> 0 then 1 else 0, s)) (killpid (w_os w) (w_files w) (cf_name cfg) (cf_pidfile cfg) s)
      else Some (-1, s))"

definition do_spawn :: "world \<Rightarrow> cage_config \<Rightarrow> u32 \<Rightarrow> fst_state \<Rightarrow> (fst_state, int) run" where
  "do_spawn w cfg ruid z =
     (let ((s, m), fs) = z; (existing, s) = detect_existing (w_os w) (w_files w) (cf_name cfg) (cf_pidfile cfg) s;
          z = ((s, m), fs) in
      if existing < 0 then Some (Inr 1, z)
      else
        bindx (if 0 < existing
               then map_option (\<lambda>(r, s). (r, ((s, m), fs))) (spawn_existing w cfg existing ruid s)
               else spawn_cage w cfg ruid z)
          (\<lambda>r z. Some (Inr (if r < 0 then 1 else r), z)))"

definition check_no_command :: "cage_config \<Rightarrow> int" where
  "check_no_command cfg = (if 0 < length (cf_command cfg) then 0 else if cf_has_dashdash cfg then 0 else 1)"

definition prepare_run :: "cage_config \<Rightarrow> int \<times> cage_config" where
  "prepare_run cfg = (if check_no_command cfg \<noteq> 0 then (-1, cfg) else prepare_volumes cfg)"

text \<open>Real and effective user, then real and effective group.\<close>

definition get_ids :: "os \<Rightarrow> pst \<Rightarrow> (u32 \<times> u32 \<times> u32 \<times> u32) option \<times> pst" where
  "get_ids os s =
     (let (u, s) = psys os (Ipc Getresuid) s in
      if a_ret u \<noteq> 0 then (None, s)
      else
        let (g, s) = psys os (Ipc Getresgid) s in
        if a_ret g \<noteq> 0 then (None, s)
        else (Some (st_uid (a_stat u), st_gid (a_stat u), st_uid (a_stat g), st_gid (a_stat g)), s))"

definition escalate :: "world \<Rightarrow> string list \<Rightarrow> pst \<Rightarrow> (pst, int \<times> u32) run" where
  "escalate w argv s =
     (let (i, s) = get_ids (w_os w) s in
      case i of
        None \<Rightarrow> Some (Inr (-1, 0), s)
      | Some (ruid, euid, rgid, egid) \<Rightarrow>
          (case on_trace (super_escalate (w_os w) argv euid ruid egid rgid) s of
             None \<Rightarrow> None
           | Some (Returned r, s) \<Rightarrow> Some (Inr (r, ruid), s)
           | Some (Exited c, s) \<Rightarrow> Some (Inl c, s)))"

text \<open>The exit status of the program, or that of a process that left earlier.\<close>

definition main_cage :: "world \<Rightarrow> string list \<Rightarrow> fst_state \<Rightarrow> (fst_state, int) run" where
  "main_cage w argv z =
     (let ((s, m), fs) = z; (r, s) = handle_fix (w_os w) argv s in
      if 0 \<le> r then Some (Inr r, ((s, m), fs))
      else
        bindx (map_option (\<lambda>(r, s). (r, ((s, m), fs))) (escalate w argv s)) (\<lambda>(r, ruid) z.
          if r \<noteq> 0 then Some (Inr 1, z)
          else
            let (r, cfg) = cage_parse_args argv cage_config_init in
            if r \<noteq> 0 then Some (Inr 1, z)
            else
              (case handle_config_exits w cfg (fst (fst z)) of
                 None \<Rightarrow> None
               | Some (r, s) \<Rightarrow>
                   let z = ((s, snd (fst z)), snd z) in
                   if 0 \<le> r then Some (Inr r, z)
                   else
                     let (r, cfg) = prepare_run cfg in
                     if r \<noteq> 0 then Some (Inr 1, z) else do_spawn w cfg ruid z)))"

end
