(* ===== verification/GuiSpec.thy ===== *)
theory GuiSpec
  imports GuiSocks MountSpec
begin

text \<open>
  What sharing the graphical session keeps: every bind mount lies under the guest's root, provided
  the guest's values of three variables have no \<^verbatim>\<open>..\<close> element; the other three paths are checked by
  the code.  Without the proviso the runtime directory is made outside the root.
\<close>

section \<open>Calls relative to a directory\<close>

text \<open>The calls of \<^verbatim>\<open>io_at.c\<close> are no mounts.\<close>

definition tadds :: "(syscall \<Rightarrow> bool) \<Rightarrow> trace \<Rightarrow> trace \<Rightarrow> bool" where
  "tadds P tr tr' \<longleftrightarrow> (\<exists>ext. tr' = tr @ ext \<and> list_all P (calls ext))"

lemma tadds_refl [simp]: "tadds P tr tr"
  by (simp add: tadds_def)

lemma tadds_trans: "tadds P a b \<Longrightarrow> tadds P b c \<Longrightarrow> tadds P a c"
  by (auto simp: tadds_def)

lemma tadds_sys: "P c \<Longrightarrow> tadds P tr (snd (sys os c tr))"
  by (simp add: tadds_def)

lemma tadds_seq:
  "tadds P tr (snd (f tr)) \<Longrightarrow> (\<And>r t. tadds P t (snd (k r t))) \<Longrightarrow> tadds P tr (snd (case f tr of (r, t) \<Rightarrow> k r t))"
  by (cases "f tr") (metis prod.case snd_conv tadds_trans)

lemma tadds_if: "(c \<Longrightarrow> tadds P s (snd a)) \<Longrightarrow> (\<not> c \<Longrightarrow> tadds P s (snd b)) \<Longrightarrow> tadds P s (snd (if c then a else b))"
  by simp

lemma tadds_done: "tadds P s (snd (r, s))"
  by simp

lemmas tadds_steps = tadds_if tadds_done tadds_seq [where k = "\<lambda>r t. _ r t"]

lemma adds_at_fd: "tadds P (fst s) (snd (f (fst s))) \<Longrightarrow> adds P s (snd (at_fd f s))"
  by (auto simp: at_fd_def adds_def tadds_def split_def Let_def)

lemma ensure_component_adds: "tadds (confined root) tr (snd (ensure_dir_component os d n ow tr))"
  unfolding ensure_dir_component_def open_component_nofollow_def create_dir_component_def Let_def
  by (intro tadds_steps tadds_sys) simp_all

lemma release_adds: "tadds (confined root) tr (release_parent os p r tr)"
  by (simp add: release_parent_def tadds_def)

lemma descend_adds: "tadds (confined root) tr (snd (snd (descend_loop os rootfd ow p cur tr)))"
proof (induction os rootfd ow p cur tr rule: descend_loop.induct)
  case (1 os rootfd ow p cur tr)
  let ?c = "snd (snd (next_comp p))"
  obtain fd t where e: "ensure_dir_component os cur ?c ow tr = (fd, t)"
    by (cases "ensure_dir_component os cur ?c ow tr")
  have a: "tadds (confined root) tr t" using ensure_component_adds [of root tr os cur ?c ow] e by simp
  have b: "tadds (confined root) tr (release_parent os cur rootfd t)" by (rule tadds_trans [OF a release_adds])
  show ?case
    using 1 e b release_adds [of root tr os cur rootfd] tadds_trans [OF b]
    by (subst descend_loop.simps) (auto simp: Let_def)
qed

lemma chown_leaf_adds: "tadds (confined root) tr (snd (chown_leaf os p l u g tr))"
  unfolding chown_leaf_def Let_def by (intro tadds_steps tadds_sys) simp_all

lemma mkdir_leaf_adds: "tadds (confined root) tr (snd (mkdir_leaf os p l ow m tr))"
  unfolding mkdir_leaf_def Let_def by (intro tadds_steps tadds_sys chown_leaf_adds) simp_all

text \<open>After the walk, work in the directory found and leave it.\<close>

lemma after_walk:
  assumes "\<And>d l t. tadds (confined root) t (snd (k d l t))"
  shows "tadds (confined root) tr (snd (case descend_components os rootfd rel ow tr of (d, l, t) \<Rightarrow> k d l t))"
  using descend_adds [of root tr os rootfd ow rel rootfd] assms
  by (auto simp: descend_components_def split: prod.splits) (metis snd_conv tadds_trans)

lemma leave_adds: "tadds (confined root) tr (snd (r, release_parent os p q tr))"
  by (simp add: release_adds)

lemma at_adds:
  "tadds (confined root) tr (snd (io_mkdir_own_at os fd rel u g m tr))"
  "tadds (confined root) tr (snd (io_mkdir_parents_at os fd rel u g m tr))"
  "tadds (confined root) tr (snd (io_touch_at os fd rel u g tr))"
  unfolding io_mkdir_own_at_def io_mkdir_parents_at_def io_touch_at_def Let_def
  by (intro after_walk tadds_if tadds_done leave_adds tadds_seq mkdir_leaf_adds chown_leaf_adds tadds_sys; simp)+

lemma at_fd_adds:
  "adds (confined root) s (snd (at_fd (io_mkdir_own_at os fd rel u g m) s))"
  "adds (confined root) s (snd (at_fd (io_mkdir_parents_at os fd rel u g m) s))"
  "adds (confined root) s (snd (at_fd (io_touch_at os fd rel u g) s))"
  by (rule adds_at_fd, rule at_adds)+

section \<open>Single mounts\<close>

lemma acl_adds: "adds (confined root) s (snd (acl_set os p u g gl s))"
proof -
  have a: "adds (confined root) t (snd (acl_set_fd os fd u g gl t))" for fd t
    unfolding acl_set_fd_def fd_setxattr_def Let_def by (intro adds_steps other_adds) simp_all
  have b: "adds (confined root) t (snd (sys_open_rdonly os p True t))" for t
    unfolding sys_open_rdonly_def Let_def by (intro adds_steps other_adds) simp_all
  show ?thesis unfolding acl_set_def Let_def by (intro adds_steps a b other_adds) simp_all
qed

lemma open_root_adds: "adds (confined root) s (snd (open_root os g s))"
  unfolding open_root_def Let_def by (intro adds_steps other_adds) simp

lemma target_adds: "adds (confined root) s (snd (ensure_mount_target os g sub u gi s))"
proof -
  have a: "adds (confined root) t (snd (case parent_of sub of
       Some dir \<Rightarrow> at_fd (io_mkdir_parents_at os fd dir u gi 493) t | None \<Rightarrow> (0, t)))" for fd t
    by (cases "parent_of sub") (simp_all add: at_fd_adds)
  show ?thesis unfolding ensure_mount_target_def Let_def
    by (intro adds_steps open_root_adds a at_fd_adds other_adds) simp
qed

lemma mount_file_acl_adds:
  assumes "\<not> mem_path_escapes tgt"
  shows "adds (confined (g_root g)) s (snd (mount_file_acl os g tgt src s))"
  unfolding mount_file_acl_def mount_file_def acl_guest_set_def Let_def
  by (intro adds_steps target_adds mount_adds under_mem_path assms acl_adds)

section \<open>Operations that change the context\<close>

text \<open>Only the three fields that record what was done change.\<close>

definition same_ctx :: "gui_ctx \<Rightarrow> gui_ctx \<Rightarrow> bool" where
  "same_ctx g h \<longleftrightarrow>
     h = g\<lparr>g_xrd_created := g_xrd_created h, g_guest_home_used := g_guest_home_used h, g_guest_x11num := g_guest_x11num h\<rparr>"

lemma same_ctx_fields:
  assumes "same_ctx g h"
  shows "g_root h = g_root g" "g_guest_xrd h = g_guest_xrd g" "g_guest_wl h = g_guest_wl g"
    "g_guest_ps h = g_guest_ps g" "g_host_wl h = g_host_wl g"
  using assms unfolding same_ctx_def
  by (metis gui_ctx.select_convs gui_ctx.surjective gui_ctx.update_convs(16,19,21))+

lemma same_ctx_refl [simp]: "same_ctx g g"
  by (simp add: same_ctx_def)

lemma same_ctx_trans: "same_ctx g h \<Longrightarrow> same_ctx h k \<Longrightarrow> same_ctx g k"
  by (cases g; cases h; cases k) (auto simp: same_ctx_def)

lemma same_ctx_updates [simp]:
  "same_ctx g (g\<lparr>g_xrd_created := b\<rparr>)" "same_ctx g (g\<lparr>g_guest_home_used := b\<rparr>)" "same_ctx g (g\<lparr>g_guest_x11num := n\<rparr>)"
  by (simp_all add: same_ctx_def)

text \<open>\<open>stays g s x\<close>: the result \<open>x\<close> has the context \<open>g\<close> up to those fields, and added confined calls to \<open>s\<close>.\<close>

definition stays :: "gui_ctx \<Rightarrow> pst \<Rightarrow> int \<times> gui_ctx \<times> pst \<Rightarrow> bool" where
  "stays g s x \<longleftrightarrow> same_ctx g (fst (snd x)) \<and> adds (confined (g_root g)) s (snd (snd x))"

lemma stays_done: "same_ctx g h \<Longrightarrow> stays g s (r, h, s)"
  by (simp add: stays_def)

lemma stays_if: "(c \<Longrightarrow> stays g s a) \<Longrightarrow> (\<not> c \<Longrightarrow> stays g s b) \<Longrightarrow> stays g s (if c then a else b)"
  by simp

lemma stays_call:
  "adds (confined (g_root g)) s (snd x) \<Longrightarrow> (\<And>r t. stays g t (k r t)) \<Longrightarrow> stays g s (case x of (r, t) \<Rightarrow> k r t)"
  by (cases x) (auto simp: stays_def intro: adds_trans)

lemma stays_seq:
  "stays g s x \<Longrightarrow> (\<And>r h t. same_ctx g h \<Longrightarrow> stays h t (k r h t)) \<Longrightarrow> stays g s (case x of (r, h, t) \<Rightarrow> k r h t)"
  by (cases x) (auto simp: stays_def same_ctx_fields intro: adds_trans same_ctx_trans)

lemma stays_from: "same_ctx g h \<Longrightarrow> stays h s x \<Longrightarrow> stays g s x"
  by (auto simp: stays_def same_ctx_fields intro: same_ctx_trans)

lemmas stays_steps = stays_if stays_call stays_seq

text \<open>The guest's values that the code joins to the root without a look at them.\<close>

definition plain :: "string option \<Rightarrow> bool" where
  "plain v \<longleftrightarrow> (case v of None \<Rightarrow> True | Some p \<Rightarrow> \<not> mem_path_escapes p)"

definition plain_ctx :: "gui_ctx \<Rightarrow> bool" where
  "plain_ctx g \<longleftrightarrow> plain (g_guest_xrd g) \<and> plain (g_guest_wl g) \<and> plain (map_option (\<lambda>p. if starts_with ''unix:'' p then drop 5 p else p) (g_guest_ps g)) \<and>
     (g_guest_wl g = None \<longrightarrow> plain (g_host_wl g))"

lemma host_wl_plain: "plain (g_host_wl g) \<Longrightarrow> \<not> mem_path_escapes (host_wl_name g)"
  by (simp add: plain_def host_wl_name_def mem_path_escapes_iff split: option.splits)

lemma plain_same: "same_ctx g h \<Longrightarrow> plain_ctx g \<Longrightarrow> plain_ctx h"
  by (simp add: plain_ctx_def same_ctx_fields)

subsection \<open>X11\<close>

lemma digits_no_dots: "\<not> mem_path_escapes (''tmp/.X11-unix/X'' @ dec_int n)"
proof -
  have "CHR ''/'' \<notin> set (dec_int n)"
    using dec_nat_is_digit [of "CHR ''/''"] by (auto simp: dec_int_def is_digit_def)
  then have "CHR ''/'' \<notin> set (CHR ''X'' # dec_int n)" by simp
  from split_on_nosep [OF this] show ?thesis by (simp add: mem_path_escapes_iff)
qed

lemma set_acls_adds: "adds (confined (g_root g)) s (snd (set_acls os g n es s))"
proof (induction es arbitrary: s)
  case (Cons e es)
  have a: "adds (confined (g_root g)) s (snd (set_sock_acl os (fst e) g s))" for s
    unfolding set_sock_acl_def Let_def by (intro adds_steps acl_adds)
  show ?case unfolding set_acls.simps Let_def by (intro adds_steps a Cons)
qed simp

lemma x11_socket_adds: "adds (confined (g_root g)) s (snd (mount_x11_socket os g h n s))"
proof -
  have u: "under (g_root g) (mem_path (g_root g) ''tmp/.X11-unix'')"
    by (rule under_mem_path) (simp add: mem_path_escapes_iff)
  have a: "adds (confined (g_root g)) t (snd (set_x11_acls os g k t))" for k t
    unfolding set_x11_acls_def Let_def by (intro adds_steps set_acls_adds kept.adds_call) simp_all
  show ?thesis unfolding mount_x11_socket_def Let_def
    by (intro adds_steps mount_bind_confined u a mount_file_acl_adds digits_no_dots)
qed

lemma resolve_x11_adds: "adds (confined r) s (snd (resolve_x11_pair os g s))"
proof -
  have a: "adds (confined r) t (snd (resolve_host_x11 os n t))" for n t
    unfolding resolve_host_x11_def scan_lowest_x_socket_def Let_def by (intro adds_steps kept.adds_call) simp_all
  show ?thesis
  proof (cases "resolve_x11_displays (g_host_display g) (g_guest_display g)")
    case (Some p)
    then show ?thesis unfolding resolve_x11_pair_def Let_def
      by (cases p) (simp only: option.case prod.case, intro adds_steps a)
  qed (simp add: resolve_x11_pair_def)
qed

lemma mount_x11_stays: "stays g s (mount_x11 os g s)"
proof -
  have "stays g t (case p of None \<Rightarrow> (0, g, t) | Some (h, n) \<Rightarrow>
      let (r, s) = mount_x11_socket os g h n t in if r \<noteq> 0 then (-1, g, s) else (0, g\<lparr>g_guest_x11num := n\<rparr>, s))" for p t
  proof (cases p)
    case (Some hn)
    then show ?thesis unfolding Let_def
      by (cases hn) (simp only: option.case prod.case, intro stays_steps x11_socket_adds, simp_all add: stays_done)
  qed (simp add: stays_done)
  then show ?thesis unfolding mount_x11_def by (subst Let_def) (intro stays_call resolve_x11_adds)
qed

subsection \<open>Joined paths\<close>

lemma split_on_prefix: "set (split_on c p) \<subseteq> set (split_on c (p @ replicate k c))"
proof (cases k)
  case (Suc j)
  then have "p @ replicate k c = p @ c # replicate j c" by simp
  then show ?thesis by (simp add: split_on_append)
qed simp

lemma mem_path_plain:
  assumes "\<not> mem_path_escapes base" and "\<not> mem_path_escapes app"
  shows "\<not> mem_path_escapes (mem_path base app)"
proof -
  let ?b = "take (path_base_len base (length base)) base"
  obtain k where b: "base = ?b @ replicate k (CHR ''/'')"
    using path_base_len_spec [of "length base" base] by auto
  have "''..'' \<notin> set (split_on (CHR ''/'') ?b)"
    using assms(1) split_on_prefix [of "CHR ''/''" ?b k] b by (auto simp: mem_path_escapes_iff)
  moreover obtain j where "app = replicate j (CHR ''/'') @ skip_slashes app"
    using skip_slashes_split by blast
  then have "split_on (CHR ''/'') app = replicate j [] @ split_on (CHR ''/'') (skip_slashes app)"
    by (metis split_on_replicate)
  ultimately show ?thesis
    using assms(2) by (auto simp: mem_path_escapes_iff mem_path_def split_on_append)
qed

lemma plain_join: "\<not> mem_path_escapes a \<Longrightarrow> \<not> mem_path_escapes b \<Longrightarrow> \<not> mem_path_escapes (a @ CHR ''/'' # b)"
  by (simp add: mem_path_escapes_iff split_on_append)

lemma number_plain: "CHR ''/'' \<notin> set (dec_nat n)" "\<not> mem_path_escapes (dec_nat n)"
proof -
  show *: "CHR ''/'' \<notin> set (dec_nat n)"
    using dec_nat_is_digit [of "CHR ''/''"] by (auto simp: is_digit_def)
  have "CHR ''.'' \<notin> set (dec_nat n)"
    using dec_nat_is_digit [of "CHR ''.''"] by (auto simp: is_digit_def)
  then have "dec_nat n \<noteq> ''..''" by auto
  then show "\<not> mem_path_escapes (dec_nat n)" by (simp add: mem_path_escapes_iff split_on_nosep [OF *])
qed

lemma run_user_plain: "\<not> mem_path_escapes (''/run/user/'' @ dec_nat n)" "\<not> mem_path_escapes (''run/user/'' @ dec_nat n)"
  using plain_join [of "''/run/user''" "dec_nat n"] plain_join [of "''run/user''" "dec_nat n"] number_plain
  by (simp_all add: mem_path_escapes_iff)

subsection \<open>The runtime directory and its sockets\<close>

text \<open>The same for a result that also carries a text, which satisfies \<open>Q\<close> on success.\<close>

definition stays_text :: "(string \<Rightarrow> bool) \<Rightarrow> gui_ctx \<Rightarrow> pst \<Rightarrow> int \<times> string \<times> gui_ctx \<times> pst \<Rightarrow> bool" where
  "stays_text Q g s x \<longleftrightarrow> (case x of (r, b, h, t) \<Rightarrow> stays g s (r, h, t) \<and> (r = 0 \<longrightarrow> Q b))"

lemma stays_text_seq:
  "stays_text Q g s x \<Longrightarrow> (\<And>r b h t. same_ctx g h \<Longrightarrow> r = 0 \<longrightarrow> Q b \<Longrightarrow> stays h t (k r b h t)) \<Longrightarrow>
   stays g s (case x of (r, b, h, t) \<Rightarrow> k r b h t)"
  by (cases x) (auto simp: stays_text_def stays_def same_ctx_fields intro: adds_trans same_ctx_trans)

lemma xdg_parent_adds: "adds (confined root) s (snd (ensure_xdg_parent os g p s))"
  unfolding ensure_xdg_parent_def by (auto split: option.split simp: kept.mkdir_own_adds)

lemma create_xdg_stays: "stays_text (\<lambda>b. fill_xdg g n = Some b) g s (create_guest_xdg_root os g n s)"
proof (cases "fill_xdg g n")
  case (Some buf)
  let ?p = "mem_path (g_root g) buf"
  obtain r t where r: "(if \<not> g_guest_xrd_env g then ensure_xdg_parent os g ?p s else (0, s)) = (r, t)"
    by (cases "if \<not> g_guest_xrd_env g then ensure_xdg_parent os g ?p s else (0, s)")
  have a: "adds (confined (g_root g)) s t" using xdg_parent_adds [of "g_root g" s os g ?p] r by (auto split: if_splits)
  obtain q u where q: "(if r = 0 then io_mkdir_own os ?p (g_uid g) (g_gid g) 448 t else (r, t)) = (q, u)"
    by (cases "if r = 0 then io_mkdir_own os ?p (g_uid g) (g_gid g) 448 t else (r, t)")
  have "adds (confined (g_root g)) t u"
    using kept.mkdir_own_adds [of "g_root g" t os ?p "g_uid g" "g_gid g" 448] q by (auto split: if_splits)
  then have "adds (confined (g_root g)) s u" using a adds_trans by blast
  then show ?thesis using Some r q
    by (simp add: create_guest_xdg_root_def stays_text_def stays_def Let_def split del: if_split) simp
qed (simp add: create_guest_xdg_root_def stays_text_def stays_def)

lemma touch_target_adds: "adds (confined root) s (snd (touch_target os g t s))"
  by (simp add: touch_target_def kept.touch_adds)

lemma fill_xdg_plain: "plain_ctx g \<Longrightarrow> fill_xdg g n = Some x \<Longrightarrow> \<not> mem_path_escapes x"
  by (auto simp: fill_xdg_def plain_ctx_def plain_def Let_def run_user_plain [simplified] split: option.splits if_splits)

lemma done_step: "adds (confined root) s (snd (x, s))"
  by simp

lemma target_present_stays: "stays g s (ensure_target_present os g t n s)"
proof -
  have a: "stays h u (if r \<noteq> 0 then let (r, _, g, s) = create_guest_xdg_root os h n u;
        (r, s) = (if r = 0 then touch_target os g t s else (r, s)) in (r, g, s) else (r, h, u))" for r h u
    unfolding Let_def
    by (intro stays_if stays_text_seq [OF create_xdg_stays] stays_call adds_if touch_target_adds done_step stays_done same_ctx_refl)
  show ?thesis unfolding ensure_target_present_def Let_def
    by (intro stays_call kept.exists_adds stays_seq [OF a [unfolded Let_def]] stays_done) simp
qed

lemma wayland_target_stays:
  assumes "plain_ctx g" and "\<not> mem_path_escapes wn"
  shows "stays_text (\<lambda>t. \<not> mem_path_escapes t) g s (ensure_wayland_target os g wn n s)"
proof (cases "fill_xdg g 512")
  case (Some xdg)
  have "\<not> mem_path_escapes (xdg @ CHR ''/'' # wn)"
    using plain_join fill_xdg_plain [OF assms(1) Some] assms(2) by blast
  then show ?thesis
    using Some target_present_stays [of g s os "xdg @ CHR ''/'' # wn" 512]
    by (auto simp: ensure_wayland_target_def stays_text_def stays_def Let_def split: prod.splits)
qed (simp add: ensure_wayland_target_def stays_text_def stays_def)

lemma mount_at_plain:
  "r = 0 \<longrightarrow> \<not> mem_path_escapes p \<Longrightarrow>
   adds (confined (g_root g)) s (snd (if r = 0 then mount_file_acl os g p src s else (r, s)))"
  by (simp add: mount_file_acl_adds)

lemma wayland_stays:
  assumes "plain_ctx g" and "g_guest_wl g = None \<Longrightarrow> \<not> mem_path_escapes wl"
  shows "stays g s (mount_wayland os g xrd wl s)"
proof -
  let ?wn = "case g_guest_wl g of Some w \<Rightarrow> w | None \<Rightarrow> wl"
  have "\<not> mem_path_escapes ?wn" using assms by (auto simp: plain_ctx_def plain_def split: option.splits)
  note w = wayland_target_stays [OF assms(1) this]
  show ?thesis unfolding mount_wayland_def Let_def
    by (intro stays_call kept.exists_adds stays_if stays_done same_ctx_refl stays_text_seq [OF w] mount_at_plain)
qed

lemma pulse_target_stays: "stays g s (ensure_pulse_target os g tgt s)"
proof -
  have d: "stays g s (prepare_default_pulse_target os g tgt s)" for s
  proof -
    have "stays g s (ensure_guest_xdg_pulse os g s)" for s
      unfolding ensure_guest_xdg_pulse_def Let_def
      by (intro stays_text_seq [OF create_xdg_stays] stays_if stays_done same_ctx_refl stays_call kept.mkdir_own_adds)
    then show ?thesis unfolding prepare_default_pulse_target_def Let_def
      by (intro stays_seq stays_call adds_if touch_target_adds done_step stays_done same_ctx_refl)
  qed
  have c: "adds (confined root) s (snd (prepare_custom_pulse_target os h tgt s))" for root h s
  proof -
    have "adds (confined root) s (snd (case strrchr_pos CHR ''/'' p of
        Some n \<Rightarrow> io_mkdir_own os (take n p) (g_uid h) (g_gid h) 448 s | None \<Rightarrow> (0, s)))" for p s
      by (cases "strrchr_pos CHR ''/'' p") (simp_all add: kept.mkdir_own_adds)
    then show ?thesis unfolding prepare_custom_pulse_target_def Let_def
      by (intro adds_seq adds_if touch_target_adds done_step)
  qed
  show ?thesis unfolding ensure_pulse_target_def Let_def
    by (intro stays_call kept.exists_adds stays_if d c stays_done) simp_all
qed

lemma pulse_target_plain: "plain_ctx g \<Longrightarrow> pulse_target g n = Some t \<Longrightarrow> \<not> mem_path_escapes t"
  using plain_join [of "''run/user/'' @ dec_nat (unat (g_uid g))" "''pulse/native''"] run_user_plain(2)
    plain_join [of _ "''pulse/native''"]
  by (auto simp: pulse_target_def plain_ctx_def plain_def Let_def mem_path_escapes_iff split: option.splits if_splits)

lemma pulse_stays:
  assumes "plain_ctx g"
  shows "stays g s (mount_pulse os g xrd s)"
proof -
  have m: "stays g t (let (r, h, t) = ensure_pulse_target os g tgt t;
      (r, t) = (if r = 0 then mount_file_acl os h tgt src t else (r, t)) in (r, h, t))"
    if "pulse_target g 512 = Some tgt" for tgt src t
    unfolding Let_def using pulse_target_plain [OF assms that]
    by (intro stays_seq [OF pulse_target_stays] stays_call mount_at_plain stays_done same_ctx_refl) simp
  have "stays g t (case pulse_target g 512 of None \<Rightarrow> (-1, g, t)
     | Some tgt \<Rightarrow> let (r, g, s) = ensure_pulse_target os g tgt t;
         (r, s) = (if r = 0 then mount_file_acl os g tgt src s else (r, s)) in (r, g, s))" for src t
    using m by (cases "pulse_target g 512") (simp_all add: stays_done)
  note b = this [unfolded Let_def]
  show ?thesis
  proof (cases "resolve_pulse_src (g_host_ps g) xrd")
    case (Some src)
    show ?thesis unfolding mount_pulse_def Some option.case Let_def
      by (intro stays_call kept.exists_adds stays_if stays_done same_ctx_refl b)
  qed (simp add: mount_pulse_def stays_done)
qed

lemma xdg_stays:
  assumes "plain_ctx g"
  shows "stays g s (mount_xdg_socks os g s)"
proof (cases "g_host_xrd g")
  case (Some xrd)
  have w: "g_guest_wl g = None \<Longrightarrow> \<not> mem_path_escapes (host_wl_name g)"
    using assms host_wl_plain by (simp add: plain_ctx_def)
  show ?thesis unfolding mount_xdg_socks_def Some option.case Let_def
    by (intro stays_seq [OF wayland_stays [OF assms w]] stays_seq [OF pulse_stays [OF plain_same [OF _ assms]]]
      stays_done same_ctx_refl)
qed (simp add: mount_xdg_socks_def stays_done)

subsection \<open>Files in the home directory\<close>

lemma xauthority_plain [simp]: "\<not> mem_path_escapes ''/.Xauthority''"
  by (simp add: mem_path_escapes_iff)

lemma xauthority_stays:
  assumes "\<not> mem_path_escapes c"
  shows "stays g s (mount_xauthority os g h c s)"
proof -
  have a: "adds (confined (g_root g)) t (snd (mount_hfile os k h c ''/.Xauthority'' t))" if "g_root k = g_root g" for k t
    unfolding mount_hfile_def Let_def
    by (intro adds_steps kept.exists_adds mount_file_acl_adds [of _ k, unfolded that] mem_path_plain assms xauthority_plain)
  show ?thesis unfolding mount_xauthority_def Let_def
    by (intro stays_call kept.exists_adds stays_if stays_done same_ctx_refl a same_ctx_updates) simp
qed

lemma find_cookie_adds: "adds (confined root) s (snd (find_pulse_cookie os g h s))"
proof -
  have a: "adds (confined root) t (snd (cat_and_try os b f t))" for b f t
    unfolding cat_and_try_def Let_def by (intro adds_steps kept.exists_adds)
  have b: "adds (confined root) t (snd (try_cookie os p t))" for p t
    by (cases p) (simp_all add: try_cookie_def kept.exists_adds split_def Let_def)
  have c: "adds (confined root) t (snd (case x of Some x \<Rightarrow> cat_and_try os x f t | None \<Rightarrow> (None, t)))" for x f t
    by (cases x) (simp_all add: a)
  show ?thesis unfolding find_pulse_cookie_def Let_def by (intro adds_steps a b c)
qed

lemma guest_home_stays: "stays g s (ensure_guest_home_if_needed os g h s)"
proof -
  have a: "adds (confined root) t (snd (ensure_guest_home os k h t))" for root k t
    unfolding ensure_guest_home_def Let_def
    by (intro adds_steps open_root_adds at_fd_adds other_adds) simp
  show ?thesis unfolding ensure_guest_home_if_needed_def Let_def
    by (intro stays_if stays_done same_ctx_refl stays_call a same_ctx_updates)
qed

lemma cookie_dirs_adds:
  "adds (confined root) s (snd (prepare_cookie_dirs os g p s)) \<and>
   (fst (prepare_cookie_dirs os g p s) = 0 \<longrightarrow> \<not> mem_path_escapes p)"
proof -
  have a: "adds (confined root) t (snd (case parent_of q of
       Some dir \<Rightarrow> at_fd (io_mkdir_own_at os fd dir (g_uid g) (g_gid g) 493) t | None \<Rightarrow> (0, t)))" for q fd t
    by (cases "parent_of q") (simp_all add: at_fd_adds)
  have "adds (confined root) s (snd (prepare_cookie_dirs os g p s))"
    unfolding prepare_cookie_dirs_def Let_def
    by (intro adds_steps open_root_adds a at_fd_adds other_adds) simp
  then show ?thesis by (simp add: prepare_cookie_dirs_def)
qed

lemma stays_call_if:
  "adds (confined (g_root g)) s (snd x) \<Longrightarrow> (\<And>r t. (fst x = r \<Longrightarrow> stays g t (k r t))) \<Longrightarrow>
   stays g s (case x of (r, t) \<Rightarrow> k r t)"
  by (cases x) (auto simp: stays_def intro: adds_trans)

lemma cookie_stays: "stays g s (mount_cookie os g h c s)"
proof -
  have m: "stays g t (case (if r = 0 then prepare_cookie_dirs os g p t else (r, t)) of
      (r, t) \<Rightarrow> case (if r = 0 then mount_file_acl os g p src t else (r, t)) of (r, t) \<Rightarrow> (r, g, t))" for g r t p src
    using cookie_dirs_adds [of "g_root g" t os g p]
    by (intro stays_call_if [where x = "if r = 0 then prepare_cookie_dirs os g p t else (r, t)"]
        stays_call mount_at_plain stays_done same_ctx_refl) (auto split: if_splits)
  have "stays g t (case q of None \<Rightarrow> (0, g, t)
      | Some src \<Rightarrow> let guest = resolve_guest_cookie_path g c; (r, g, s) = ensure_guest_home_if_needed os g c t;
          (r, s) = (if r = 0 then prepare_cookie_dirs os g guest s else (r, s));
          (r, s) = (if r = 0 then mount_file_acl os g guest src s else (r, s)) in (r, g, s))" for q t
  proof (cases q)
    case (Some src)
    show ?thesis unfolding Some option.case Let_def by (intro stays_seq [OF guest_home_stays] m)
  qed (simp add: stays_done)
  note q = this [unfolded Let_def]
  show ?thesis unfolding mount_cookie_def Let_def by (intro stays_call find_cookie_adds q)
qed

lemma home_stays:
  assumes "\<And>c. home = Some c \<Longrightarrow> \<not> mem_path_escapes c"
  shows "stays g s (mount_user_home os g home s)"
proof (cases "g_host_home g = None \<or> home = None")
  case False
  then obtain h c where hc: "g_host_home g = Some h" "home = Some c" by auto
  note a = xauthority_stays [OF assms [OF hc(2)]]
  show ?thesis unfolding mount_user_home_def hc option.case prod.case mount_user_files_def Let_def
    by (intro stays_seq [OF a] stays_if stays_done same_ctx_refl cookie_stays)
qed (auto simp: mount_user_home_def stays_done split: option.splits)

section \<open>All of it\<close>

lemma setup_gui_stays:
  assumes "plain_ctx g"
  shows "stays g s (setup_gui_mounts os g home s)"
proof (cases "case home of Some h \<Rightarrow> mem_path_escapes h | None \<Rightarrow> False")
  case False
  then have c: "\<And>c. home = Some c \<Longrightarrow> \<not> mem_path_escapes c" by auto
  show ?thesis unfolding setup_gui_mounts_def Let_def
    by (intro stays_if stays_done same_ctx_refl stays_seq [OF mount_x11_stays]
      stays_seq [OF xdg_stays [OF plain_same [OF _ assms]]] home_stays c)
qed (simp add: setup_gui_mounts_def stays_done)

text \<open>
  C18: The session's sockets and files are mounted into the guest only: whatever the system
  answers, and whatever the home directory, the cookie's path and the configuration directory of
  the guest are, every mount that \<open>setup_gui_mounts\<close> makes lies under the guest's root and no program is run,
  provided the guest's runtime directory, Wayland display and PulseAudio server have no \<^verbatim>\<open>..\<close> element,
  nor has the host's Wayland display where the guest gives none of its own, since its name is
  then used inside the guest too.
\<close>

theorem gui_mounts_confined:
  assumes "plain_ctx g"
  shows "\<exists>ext. fst (snd (snd (setup_gui_mounts os g home s))) = fst s @ ext \<and>
    list_all (confined (g_root g)) (calls ext)"
  using setup_gui_stays [OF assms, of s os home] by (simp add: stays_def adds_def)

definition ctx0 :: gui_ctx where
  "ctx0 = \<lparr>g_root = ''/r'', g_uid = 1000, g_gid = 1000, g_groups = [], g_host_wl = None, g_host_ps = None,
     g_host_pc = None, g_host_xch = None, g_host_xrd = Some ''/x'', g_host_home = Some ''/h'', g_host_display = None,
     g_guest_wl = None, g_guest_ps = None, g_guest_pc = Some ''../k'', g_guest_xrd = Some ''/x'',
     g_xrd_created = False, g_guest_xrd_env = True, g_guest_xch = None, g_guest_home_used = False,
     g_guest_display = None, g_guest_x11num = -1\<rparr>"

theorem gui_mounts_confined_witness:
  "\<exists>ext. fst (snd (snd (setup_gui_mounts (\<lambda>_ _. ret 0) ctx0 (Some ''/root'') ([], [])))) = fst (([], []) :: pst) @ ext \<and>
    list_all (confined (g_root ctx0)) (calls ext)"
  by (rule gui_mounts_confined)
    (simp add: plain_ctx_def plain_def ctx0_def mem_path_escapes_iff)

section \<open>The runtime directory is not checked\<close>

text \<open>A system on which everything exists but one path.\<close>

definition lacks :: "string \<Rightarrow> os" where
  "lacks p tr c = (case c of Access q \<Rightarrow> if q = p then fails ENOENT else ret 0 | _ \<Rightarrow> ret 0)"

text \<open>
  With a \<^verbatim>\<open>..\<close> in the guest's \<^verbatim>\<open>XDG_RUNTIME_DIR\<close> the code makes a directory outside the guest's root
  and gives it to the user.
\<close>

theorem runtime_dir_escapes:
  "\<exists>g s'. g_root g = ''/r'' \<and> g_guest_xrd g = Some ''/../e'' \<and>
     create_guest_xdg_root (lacks ''/r/../e'') g 512 ([], []) = (0, ''/../e'', g\<lparr>g_xrd_created := True\<rparr>, s') \<and>
     Mkdir ''/r/../e'' 448 \<in> set (calls (fst s')) \<and> Chown ''/r/../e'' 1000 1000 \<in> set (calls (fst s')) \<and>
     resolve_path ''/r/../e'' = [''e''] \<and> \<not> under (g_root g) ''/r/../e''"
proof -
  define g where "g = ctx0\<lparr>g_guest_xrd := Some ''/../e''\<rparr>"
  have p: "mem_path (g_root g) ''/../e'' = ''/r/../e''" by (simp add: g_def ctx0_def mem_path_def)
  have f: "fill_xdg g 512 = Some ''/../e''" "g_guest_xrd_env g" "g_uid g = 1000" "g_gid g = 1000"
    by (simp_all add: g_def ctx0_def fill_xdg_def)
  have "\<exists>s'. io_mkdir_own (lacks ''/r/../e'') ''/r/../e'' 1000 1000 448 ([], []) = (0, s') \<and>
      Mkdir ''/r/../e'' 448 \<in> set (calls (fst s')) \<and> Chown ''/r/../e'' 1000 1000 \<in> set (calls (fst s'))"
    by (simp add: io_mkdir_own_def io_exists_at_def psys_eq lacks_def access_class_def io_exists_def
        io_cache_store_def upt_rec mkdir_chown_def invalidate_def Let_def)
  then show ?thesis
    using f p by (intro exI [of _ g])
      (auto simp: create_guest_xdg_root_def g_def ctx0_def under_def resolve_path_def starts_with_def)
qed

end
