(* ===== verification/NetCalls.thy ===== *)
theory NetCalls
  imports Net GuiSpec Child
begin

text \<open>
  Which calls the guest's network set-up makes, and rules for runs that may leave the process.
  \<open>net_policy\<close> extends the policy of the file-system operations by the calls on a socket.
\<close>

section \<open>Partial runs\<close>

text \<open>\<open>xadds\<close>: a run that ends has added allowed calls only; \<open>taddo\<close> is the same on the trace alone.\<close>

definition xadds :: "(syscall \<Rightarrow> bool) \<Rightarrow> pst \<Rightarrow> ('a \<times> pst) option \<Rightarrow> bool" where
  "xadds P s m \<longleftrightarrow> (\<forall>r s'. m = Some (r, s') \<longrightarrow> adds P s s')"

definition taddo :: "(syscall \<Rightarrow> bool) \<Rightarrow> trace \<Rightarrow> ('a \<times> trace) option \<Rightarrow> bool" where
  "taddo P tr m \<longleftrightarrow> (\<forall>r tr'. m = Some (r, tr') \<longrightarrow> tadds P tr tr')"

lemma xaddsD: "xadds P s m \<Longrightarrow> m = Some (r, s') \<Longrightarrow> adds P s s'"
  unfolding xadds_def by blast

lemma xadds_None [simp]: "xadds P s None"
  by (simp add: xadds_def)

lemma xadds_Some: "adds P s (snd x) \<Longrightarrow> xadds P s (Some x)"
  by (cases x) (simp add: xadds_def)

lemma xadds_if: "(c \<Longrightarrow> xadds P s a) \<Longrightarrow> (\<not> c \<Longrightarrow> xadds P s b) \<Longrightarrow> xadds P s (if c then a else b)"
  by simp

lemma xadds_seq: "adds P s (snd x) \<Longrightarrow> (\<And>r t. xadds P t (f r t)) \<Longrightarrow> xadds P s (case x of (r, t) \<Rightarrow> f r t)"
  by (cases x) (fastforce simp: xadds_def intro: adds_trans)

lemma xadds_option:
  "xadds P s m \<Longrightarrow> (\<And>r t. xadds P t (f r t)) \<Longrightarrow> xadds P s (case m of None \<Rightarrow> None | Some (r, t) \<Rightarrow> f r t)"
  by (cases m) (fastforce simp: xadds_def intro: adds_trans)+

lemma xadds_bindx: "xadds P s m \<Longrightarrow> (\<And>x t. xadds P t (f x t)) \<Longrightarrow> xadds P s (bindx m f)"
  unfolding bindx_def xadds_def by (fastforce split: option.splits sum.splits intro: adds_trans)

lemma xadds_quit: "P (Exit c) \<Longrightarrow> xadds P s (quit w c s)"
  by (simp add: quit_def psys_eq xadds_def)

lemma xadds_map: "xadds P s m \<Longrightarrow> xadds P s (map_option (\<lambda>(r, t). (f r, t)) m)"
  by (auto simp: xadds_def)

lemma xadds_trace:
  "taddo P (fst s) m \<Longrightarrow> xadds P s (map_option (\<lambda>(r, tr). (r, (tr, snd s))) m)"
  by (auto simp: xadds_def taddo_def adds_def tadds_def)

lemma xadds_from: "adds P s t \<Longrightarrow> xadds P t m \<Longrightarrow> xadds P s m"
  unfolding xadds_def using adds_trans by blast

lemma xadds_mono: "xadds P s m \<Longrightarrow> (\<And>c. P c \<Longrightarrow> Q c) \<Longrightarrow> xadds Q s m"
  unfolding xadds_def using adds_mono by blast

lemma xadds_psys: "P c \<Longrightarrow> (\<And>r t. xadds P t (f r t)) \<Longrightarrow> xadds P s (case psys os c s of (r, t) \<Rightarrow> f r t)"
  by (rule xadds_seq [OF adds_psys])

lemma xadds_bind: "(\<And>x. xadds P s (f x)) \<Longrightarrow> xadds P s (Option.bind m f)"
  by (cases m) simp_all

lemma xadds_split: "(\<And>a b. xadds P s (f a b)) \<Longrightarrow> xadds P s (case p of (a, b) \<Rightarrow> f a b)"
  by (cases p) simp

lemmas xadds_steps = xadds_if xadds_bindx xadds_option xadds_quit xadds_map xadds_None

lemma taddo_Some: "tadds P tr (snd x) \<Longrightarrow> taddo P tr (Some x)"
  by (cases x) (simp add: taddo_def)

lemma taddo_option:
  "taddo P tr m \<Longrightarrow> (\<And>r t. taddo P t (f r t)) \<Longrightarrow> taddo P tr (case m of None \<Rightarrow> None | Some (r, t) \<Rightarrow> f r t)"
  by (cases m) (fastforce simp: taddo_def intro: tadds_trans)+

lemma taddo_seq: "tadds P tr (snd x) \<Longrightarrow> (\<And>r t. taddo P t (f r t)) \<Longrightarrow> taddo P tr (case x of (r, t) \<Rightarrow> f r t)"
  by (cases x) (fastforce simp: taddo_def intro: tadds_trans)

lemma taddo_if: "(c \<Longrightarrow> taddo P s a) \<Longrightarrow> (\<not> c \<Longrightarrow> taddo P s b) \<Longrightarrow> taddo P s (if c then a else b)"
  by simp

section \<open>The calls on a socket\<close>

fun net_call :: "syscall \<Rightarrow> bool" where
  "net_call (Socket d p) = True"
| "net_call (Bind fd) = True"
| "net_call (Sendmsg fd m) = True"
| "net_call (Recvmsg fd n w) = True"
| "net_call (Close fd) = True"
| "net_call c = False"

fun_cases net_callE: "net_call c"

locale net_policy = call_policy allowed for allowed :: "syscall \<Rightarrow> bool" +
  assumes net_allowed: "net_call c \<Longrightarrow> allowed c"
begin

lemma sys_adds: "net_call c \<Longrightarrow> tadds allowed tr (snd (sys os c tr))"
  by (rule tadds_sys) (rule net_allowed)

lemma open_adds: "tadds allowed tr (snd (netlink_open os tr))"
  using net_allowed by (simp add: netlink_open_def nl_open_def tadds_def Let_def split_def)

lemma close_adds: "tadds allowed tr (netlink_close os fd tr)"
  unfolding netlink_close_def by (rule sys_adds) simp

lemma send_adds: "tadds allowed tr (snd (netlink_send os fd m tr))"
  using net_allowed by (simp add: netlink_send_def tadds_def Let_def split_def)

lemma recv_adds: "tadds allowed tr (snd (snd (netlink_recv os fd n tr)))"
  using net_allowed by (simp add: netlink_recv_def netlink_recv_flags_def tadds_def Let_def split_def)

lemma recv_dump_adds: "recv_dump_loop os fd cap buf tot tr = Some (r, b, n, tr') \<Longrightarrow> tadds allowed tr tr'"
proof (induction os fd cap buf tot tr rule: recv_dump_loop.induct)
  case (1 os fd cap buf tot tr)
  obtain k d t where k: "netlink_recv os fd (cap - tot) tr = (k, d, t)" by (metis prod.exhaust)
  have t: "tadds allowed tr t" using recv_adds [of tr os fd "cap - tot"] by (simp add: k)
  show ?case
  proof (cases "cap \<le> tot \<or> k < 0 \<or> length d = 0 \<or> nl_has_done (put_bytes buf tot d) tot (length d) \<noteq> Some False")
    case True
    then have "tr' = tr \<or> tr' = t" using "1.prems" k
      by (subst (asm) recv_dump_loop.simps) (auto simp: Let_def split: if_splits option.splits bool.splits)
    then show ?thesis using t by auto
  next
    case False
    then have w: "recv_dump_loop os fd cap (put_bytes buf tot d) (tot + length d) t = Some (r, b, n, tr')"
      using "1.prems" k by (subst (asm) recv_dump_loop.simps) (simp add: Let_def)
    have h: "nl_has_done (put_bytes buf tot d) (tot + length d - length d) (length d) = Some False"
      using False by simp
    have "tadds allowed t tr'" by (rule "1.IH" [OF _ k [symmetric] refl refl _ _ refl refl h]) (use False w in simp_all)
    then show ?thesis using t tadds_trans by blast
  qed
qed

lemma transact_adds: "tadds allowed tr (snd (nl_transact os fd cap fb tr))"
proof (cases fb)
  case (Pair f b)
  obtain r t where s: "netlink_send os fd (take (unat (nlmsg_len b 0)) b) tr = (r, t)" by (metis prod.exhaust)
  obtain q d u where v: "netlink_recv os fd cap t = (q, d, u)" by (metis prod.exhaust)
  show ?thesis using send_adds [of tr os fd "take (unat (nlmsg_len b 0)) b"] recv_adds [of t os fd cap] tadds_trans
    by (auto simp: nl_transact_def Pair s v)
qed

lemma find_adds: "taddo allowed tr (link_dump_find os fd name junk tr)"
proof -
  have "tadds allowed tr tr'" if f: "link_dump_find os fd name junk tr = Some (x, tr')" for x tr'
  proof -
    obtain n b where d: "netlink_fill_dump_link 16384 junk = (n, b)" by (metis prod.exhaust)
    obtain r t where s: "netlink_send os fd (take (nat n) b) tr = (r, t)" by (metis prod.exhaust)
    have t: "tadds allowed tr t" using send_adds [of tr os fd "take (nat n) b"] by (simp add: s)
    have "tr' = tr \<or> tr' = t \<or> (\<exists>q e l. netlink_recv_dump os fd 16384 b t = Some (q, e, l, tr'))"
      using f by (auto simp: link_dump_find_def netlink_dump_find_ifname_def d s Let_def split: if_splits option.splits)
    then show ?thesis using t recv_dump_adds [of os fd 16384 b 0 t] tadds_trans [OF t] unfolding netlink_recv_dump_def
      by (elim disjE exE) simp_all
  qed
  then show ?thesis by (simp add: taddo_def)
qed

lemma v4_adds: "tadds allowed tr (snd (config_child_v4 os fd i idx tr))"
  unfolding config_child_v4_def addr_add_def link_up_def default_route_add_def Let_def
  by (intro tadds_steps transact_adds)

lemma v6_adds: "tadds allowed tr (config_child_v6 os fd i idx tr)"
proof -
  obtain r t where a: "addr6_add os fd idx i False tr = (r, t)" by (metis prod.exhaust)
  have "tadds allowed tr t" using transact_adds [of tr os fd 128] a by (metis addr6_add_def snd_conv)
  moreover have "tadds allowed t (snd (default_route6_add os fd idx i t))"
    unfolding default_route6_add_def by (rule transact_adds)
  ultimately show ?thesis using tadds_trans by (auto simp: config_child_v6_def a)
qed

lemma child_link_adds: "taddo allowed tr (config_child_link os fd i junk tr)"
proof -
  have "taddo allowed t (case x of None \<Rightarrow> Some (-1, t) | Some idx \<Rightarrow>
      case config_child_v4 os fd i idx t of (r, t) \<Rightarrow> if r < 0 then Some (-1, t) else Some (0, config_child_v6 os fd i idx t))"
    for x t
    by (cases x) (auto intro!: taddo_seq taddo_if taddo_Some v4_adds v6_adds)
  then have "taddo allowed tr (case link_dump_find os fd CAGE_VETH_PEER_NAME junk tr of None \<Rightarrow> None
      | Some (x, t) \<Rightarrow> (case x of None \<Rightarrow> Some (-1, t) | Some idx \<Rightarrow>
      case config_child_v4 os fd i idx t of (r, t) \<Rightarrow> if r < 0 then Some (-1, t) else Some (0, config_child_v6 os fd i idx t)))"
    by (intro taddo_option find_adds)
  then show ?thesis unfolding config_child_link_def Let_def by (auto simp: taddo_def split: option.splits)
qed

lemma loopback_adds: "taddo allowed tr (setup_loopback os fd junk tr)"
proof -
  have "taddo allowed t (case x of None \<Rightarrow> Some (-1, t) | Some idx \<Rightarrow> Some (link_up os fd idx t))" for x t
    by (cases x) (auto intro!: taddo_Some transact_adds simp: link_up_def)
  then have "taddo allowed tr (case link_dump_find os fd ''lo'' junk tr of None \<Rightarrow> None
      | Some (x, t) \<Rightarrow> (case x of None \<Rightarrow> Some (-1, t) | Some idx \<Rightarrow> Some (link_up os fd idx t)))"
    by (intro taddo_option find_adds)
  then show ?thesis unfolding setup_loopback_def by (auto simp: taddo_def split: option.splits)
qed

lemma setup_child_adds: "taddo allowed tr (net_setup_child os i junk tr)"
proof -
  have "taddo allowed t (case f of None \<Rightarrow> Some (-1, t) | Some fd \<Rightarrow>
      (case config_child_link os fd i junk t of None \<Rightarrow> None
       | Some (r, t) \<Rightarrow> if r < 0 then Some (-1, netlink_close os fd t)
         else (case setup_loopback os fd junk t of None \<Rightarrow> None
           | Some (r, t) \<Rightarrow> Some (if r < 0 then -1 else 0, netlink_close os fd t))))" for f t
    by (cases f) (auto intro!: taddo_option taddo_if taddo_Some child_link_adds loopback_adds close_adds)
  then show ?thesis unfolding net_setup_child_def Let_def by (intro taddo_seq open_adds)
qed

end

end
