(* ===== verification/CageSpec.thy ===== *)
theory CageSpec
  imports Cage NetCalls
begin

text \<open>
  Properties of the whole program: what an accepted command line is worth to the rest of the program
  and what the guest's command can rely on when it starts.
\<close>

section \<open>The configuration a run works with\<close>

text \<open>The bounds of the arrays of \<open>cage_config_t\<close>, and a name that is one path element.\<close>

definition config_ok :: "cage_config \<Rightarrow> bool" where
  "config_ok cfg \<longleftrightarrow>
     length (cf_envvars cfg) \<le> CAGE_MAX_ENVVARS \<and> length (cf_volumes cfg) \<le> CAGE_MAX_VOLUMES \<and>
     length (cf_volumes_parsed cfg) = CAGE_MAX_VOLUMES \<and> length (cf_command cfg) \<le> CAGE_MAX_CMD_ARGS \<and>
     (case cf_name cfg of None \<Rightarrow> True | Some n \<Rightarrow> n \<noteq> [] \<and> CHR ''/'' \<notin> set n)"

lemma config_ok_init: "config_ok cage_config_init"
  by (simp add: config_ok_def cage_config_init_def)

lemma handle_opt_ok: "config_ok cfg \<Longrightarrow> config_ok (snd (handle_opt c arg cfg))"
  by (auto simp: config_ok_def handle_opt_def handle_normal_def opt_handlers_def handle_a_def handle_C_def handle_c_def
      handle_e_def handle_G_def handle_g_def handle_i_def handle_k_def handle_l_def handle_N_def handle_n_def
      handle_p_def handle_U_def handle_u_def handle_v_def handle_w_def strchr_pos_None split: option.splits)

lemma parse_opts_ok: "config_ok cfg \<Longrightarrow> config_ok (snd (fst (parse_opts argv i rest prev cfg)))"
proof (induction argv i rest prev cfg rule: parse_opts.induct)
  case (1 argv i rest prev cfg)
  show ?case
  proof (cases "getopt_long argv i rest")
    case (fields a j r)
    show ?thesis
    proof (cases a)
      case None
      then show ?thesis using fields "1.prems" by (subst parse_opts.simps) simp
    next
      case (Some oa)
      obtain opt arg where oa: "oa = (opt, arg)" by (cases oa)
      obtain k cfg1 where h: "handle_opt opt arg cfg = (k, cfg1)" by (cases "handle_opt opt arg cfg")
      have ok: "config_ok cfg1" using handle_opt_ok [OF "1.prems", of opt arg] h by simp
      show ?thesis using fields Some oa h ok "1.IH" [OF fields [symmetric]]
        by (subst parse_opts.simps) auto
    qed
  qed
qed

lemma collect_commands_ok:
  assumes "config_ok cfg"
  shows "config_ok (snd (collect_commands argv i cfg))"
proof -
  have "config_ok (snd p) \<Longrightarrow> config_ok (snd (foldl (\<lambda>(r, cfg) arg. if r \<noteq> 0 then (r, cfg)
      else if CAGE_MAX_CMD_ARGS \<le> length (cf_command cfg) then (-1, cfg)
      else (0, cfg\<lparr>cf_command := cf_command cfg @ [arg]\<rparr>)) p args))" for p :: "int \<times> cage_config" and args
    by (induction args arbitrary: p) (auto simp: config_ok_def split: prod.splits)
  from this [of "(0, cfg)"] show ?thesis using assms by (simp add: collect_commands_def)
qed

lemma parse_args_ok:
  assumes "config_ok cfg"
  shows "config_ok (snd (cage_parse_args argv cfg))"
proof -
  obtain r cfg1 j prev where p: "parse_opts argv 1 [] 1 cfg = ((r, cfg1), j, prev)"
    by (metis prod.exhaust)
  have "config_ok cfg1" using parse_opts_ok [OF assms, of argv 1 "[]" 1] p by simp
  then have "config_ok (cfg1\<lparr>cf_has_dashdash := d\<rparr>)" for d by (simp add: config_ok_def)
  then show ?thesis using \<open>config_ok cfg1\<close> collect_commands_ok p unfolding cage_parse_args_def by simp
qed

text \<open>A prepared run: the array of parsed volumes is filled, and there is something to run.\<close>

lemma prepare_run_ok:
  assumes "config_ok cfg" "prepare_run cfg = (0, cfg')"
  shows "config_ok cfg' \<and> (\<forall>i < length (cf_volumes cfg). parse_vol (cf_volumes cfg ! i) = (0, cf_volumes_parsed cfg' ! i)) \<and>
    length (cf_volumes cfg') = length (cf_volumes cfg) \<and> (cf_command cfg' \<noteq> [] \<or> cf_has_dashdash cfg')"
proof -
  have p: "prepare_volumes cfg = (0, cfg')" using assms(2) by (auto simp: prepare_run_def split: if_splits)
  have "prepare_from is cfg = (r, cfg') \<Longrightarrow> cf_envvars cfg' = cf_envvars cfg \<and> cf_command cfg' = cf_command cfg \<and>
      cf_name cfg' = cf_name cfg \<and> cf_has_dashdash cfg' = cf_has_dashdash cfg" for "is" r cfg cfg'
    by (induction "is" cfg rule: prepare_from.induct) (auto simp: Let_def split: prod.splits if_splits)
  from this [OF p [unfolded prepare_volumes_def]] show ?thesis
    using prepare_volumes_ok [OF p] assms
    by (auto simp: config_ok_def prepare_run_def check_no_command_def split: if_splits)
qed

text \<open>
  C17: the rest of the program works on well-formed configurations only.  Whatever the command line,
  also one that is refused, the counters of \<open>cage_config_t\<close> stay within their arrays of 256 elements and a name is not
  empty and holds no slash.  When \<open>main\<close> goes on, there is a command or \<open>--\<close> was given, every
  specification has its entry in the array of parsed volumes, that entry is what the
  specification says, \<open>host:target\<close> or one path for both, both paths are not empty and fit their 4096
  bytes, and no target has \<open>..\<close> as an element.
\<close>

theorem configuration_is_well_formed:
  assumes "cage_parse_args argv cage_config_init = (r, cfg)"
  shows "config_ok cfg \<and>
    (prepare_run cfg = (0, cfg') \<longrightarrow>
       config_ok cfg' \<and> (cf_command cfg' \<noteq> [] \<or> cf_has_dashdash cfg') \<and>
       list_all2 (\<lambda>spec v. vol_ok v \<and> (spec = v_host v @ CHR '':'' # v_target v \<or> (spec = v_host v \<and> v_target v = spec)))
         (cf_volumes cfg) (take (length (cf_volumes cfg')) (cf_volumes_parsed cfg')))"
proof -
  have ok: "config_ok cfg" using parse_args_ok [OF config_ok_init, of argv] assms by simp
  show ?thesis
  proof (intro conjI impI)
    assume "prepare_run cfg = (0, cfg')"
    note P = prepare_run_ok [OF ok this]
    then show "config_ok cfg'" "cf_command cfg' \<noteq> [] \<or> cf_has_dashdash cfg'" by simp_all
    have "length (cf_volumes cfg) \<le> length (cf_volumes_parsed cfg')" using P by (simp add: config_ok_def)
    then show "list_all2 (\<lambda>spec v. vol_ok v \<and> (spec = v_host v @ CHR '':'' # v_target v \<or> (spec = v_host v \<and> v_target v = spec)))
         (cf_volumes cfg) (take (length (cf_volumes cfg')) (cf_volumes_parsed cfg'))"
      using P parse_vol_ok [of "cf_volumes cfg ! i" "cf_volumes_parsed cfg' ! i" for i] by (simp add: list_all2_conv_all_nth)
  qed (rule ok)
qed

lemma configuration_is_well_formed_witness:
  "let cfg = snd (cage_parse_args [''cage'', ''-v'', ''/a:b'', ''-v/c'', ''--''] cage_config_init);
       cfg' = snd (prepare_run cfg) in
   prepare_run cfg = (0, cfg') \<and> config_ok cfg' \<and> cf_has_dashdash cfg' \<and>
   take 2 (cf_volumes_parsed cfg') = [\<lparr>v_host = ''/a'', v_target = ''b''\<rparr>, \<lparr>v_host = ''/c'', v_target = ''/c''\<rparr>]"
proof -
  let ?argv = "[''cage'', ''-v'', ''/a:b'', ''-v/c'', ''--'']"
  define cfg where "cfg = cage_config_init\<lparr>cf_volumes := [''/a:b'', ''/c''], cf_has_dashdash := True\<rparr>"
  have 1: "cage_parse_args ?argv cage_config_init = (0, cfg)"
    unfolding cfg_def by code_simp
  define cfg' where "cfg' = cfg\<lparr>cf_volumes_parsed := \<lparr>v_host = ''/a'', v_target = ''b''\<rparr> # \<lparr>v_host = ''/c'', v_target = ''/c''\<rparr> #
      replicate 254 vol_zero\<rparr>"
  have 2: "prepare_run cfg = (0, cfg')"
    unfolding cfg_def cfg'_def by code_simp
  show ?thesis using configuration_is_well_formed [OF 1, of cfg'] 1 2
    by (simp add: cfg'_def cfg_def)
qed

section \<open>How the trace of the child grows\<close>

interpretation any_call: net_policy "\<lambda>_. True"
  by unfold_locales simp_all

abbreviation grows :: "pst \<Rightarrow> pst \<Rightarrow> bool" where
  "grows \<equiv> adds (\<lambda>_. True)"

lemma grows_mono: "adds P s s' \<Longrightarrow> grows s s'"
  by (rule adds_mono) simp_all

lemma grows_psys [simp]: "grows s (snd (psys os c s))"
  by (rule adds_psys) simp

lemma pidwait_waits:
  assumes "P (Waitpid pid)"
  shows "xadds P s (pidwait os pid st s)"
proof -
  have "pid = pid \<longrightarrow> adds P s (snd x)" if "pidwait os pid st s = Some x" for x
  proof (rule pidwait.raw_induct [OF _ that, where P = "\<lambda>os p st s x. p = pid \<longrightarrow> adds P s (snd x)"], rule impI)
    fix wait os p st s x
    assume IH: "\<And>os p st s x. wait os p st s = Some x \<Longrightarrow> p = pid \<longrightarrow> adds P s (snd x)" and p: "p = pid"
      and e: "(let (a, s) = psys os (Waitpid p) s in
        if a_ret a \<ge> 0 then Some ((0, st_mode (a_stat a)), s)
        else if a_errno a = EINTR then wait os p st s
        else if a_errno a = ECHILD then Some ((0, st), s) else Some ((-1, st), s)) = Some x"
    let ?t = "snd (psys os (Waitpid p) s)"
    have t: "adds P s ?t" using assms p by (intro adds_psys) simp
    have "snd x = ?t \<or> wait os p st ?t = Some x"
      using e by (auto simp: psys_eq split: if_splits)
    then show "adds P s (snd x)"
    proof
      assume "wait os p st ?t = Some x"
      then have "adds P ?t (snd x)" using IH p by blast
      then show ?thesis by (rule adds_trans [OF t])
    qed (use t in simp)
  qed
  then show ?thesis by (auto simp: xadds_def)
qed

lemma write_pid_grows: "grows s (snd (write_pid os p n s))"
  by (simp add: write_pid_def write_text_def psys_eq Let_def adds_def)

lemma v1_enter_grows: "grows s (snd (v1_enter_all os cg cs name pid s))"
proof (induction os cg cs name pid s rule: v1_enter_all.induct)
  case (2 os cg c cs name pid s)
  have "grows s (snd (cgroup_v1_enter_one os cg c name pid s))"
    unfolding cgroup_v1_enter_one_def Let_def by (intro adds_steps any_call.mkdir_adds write_pid_grows)
  then show ?case using "2.IH" by (cases "cgroup_v1_enter_one os cg c name pid s") (auto intro: adds_trans)
qed simp

lemma cgroup_enter_grows: "xadds (\<lambda>_. True) s (cgroup_enter os files root v2 s)"
proof -
  have a: "grows s (snd (cgroup_v2_enter os root n pid s))" for n pid
    unfolding cgroup_v2_enter_def Let_def by (intro adds_steps any_call.mkdir_adds write_pid_grows)
  have b: "xadds (\<lambda>_. True) s (cgroup_v1_enter os files root n pid s)" for n pid
  proof (cases "read_proc_cgroups files s")
    case (Some x)
    then show ?thesis unfolding cgroup_v1_enter_def
      by (cases x) (auto intro!: xadds_Some v1_enter_grows)
  qed (simp add: cgroup_v1_enter_def)
  show ?thesis unfolding cgroup_enter_def by (intro xadds_if xadds_Some a b)
qed

lemma jail_grows: "xadds (\<lambda>_. True) s (jail_root w root s)"
  by (auto simp: jail_root_def quit_def psys_eq Let_def xadds_def adds_def)

lemma exec_script_grows: "xadds (\<lambda>_. True) s (exec_script w sh script env s)"
  unfolding exec_script_def Let_def by (intro xadds_seq xadds_quit grows_psys) simp_all

lemma init_child_grows: "xadds (\<lambda>_. True) s (init_child w root env script u s)"
  unfolding init_child_def Let_def
  by (intro xadds_bindx jail_grows, rule xadds_psys [OF TrueI], rule xadds_psys [OF TrueI])
    (intro xadds_bind xadds_split exec_script_grows)

lemma run_init_grows: "xadds (\<lambda>_. True) s (run_init w script root env u s)"
proof -
  have f: "grows s (snd (child_fork os s))" for os s
    by (simp add: child_fork_def psys_eq)
  have p: "xadds (\<lambda>_. True) s (case pidwait os pid 0 s of None \<Rightarrow> None
      | Some ((r, st), s) \<Rightarrow> Some (Inr (if r \<noteq> 0 then -1 else if st = 0 then 0 else -1 :: int), s))" for os pid s
  proof (cases "pidwait os pid 0 s")
    case (Some x)
    then have "grows s (snd x)" using pidwait_waits [of "\<lambda>_. True" pid s os 0] by (cases x) (auto simp: xadds_def)
    then show ?thesis using Some by (auto simp: xadds_def split: prod.splits)
  qed simp
  show ?thesis unfolding run_init_def Let_def
    by (intro xadds_seq [OF f] xadds_if xadds_Some init_child_grows p) simp
qed

lemma do_init_grows: "xadds (\<lambda>_. True) s (do_init w script root env u s)"
proof -
  have r: "grows s (snd (resolve_script os script root s))" for os
    by (simp add: resolve_script_def psys_eq Let_def adds_def)
  have b: "xadds (\<lambda>_. True) s (case p of None \<Rightarrow> quit w 1 s | Some path \<Rightarrow>
      bindx (run_init w path root env u s) (\<lambda>r s. if r \<noteq> 0 then quit w 1 s else Some (Inr (), s)))" for p s
    by (cases p) (auto intro!: xadds_quit xadds_bindx run_init_grows xadds_if xadds_Some)
  show ?thesis unfolding do_init_def Let_def by (intro xadds_seq [OF r] b)
qed

lemma enter_and_init_grows: "xadds (\<lambda>_. True) s (enter_cgroup_and_init w cfg env hc s)"
proof -
  have i: "xadds (\<lambda>_. True) s (case cf_initscript cfg of Some script \<Rightarrow> do_child_init w ''/'' script env s | None \<Rightarrow> Some (Inr (), s))" for s
    by (cases "cf_initscript cfg") (auto simp: do_child_init_def intro!: do_init_grows xadds_Some)
  show ?thesis unfolding enter_cgroup_and_init_def
    by (intro xadds_option xadds_if cgroup_enter_grows xadds_quit i xadds_Some) simp_all
qed

lemma launch_exec_grows: "grows s (snd (snd (launch_exec os pw gr u cwd cmd argv envp s)))"
proof -
  obtain r t where c: "setup_cwd os cwd s = (r, t)" by (metis prod.exhaust)
  have g: "grows s t" using grows_mono [OF quiet_setup_cwd [unfolded quiet_adds], of s os cwd] c by simp
  obtain r1 u1 t1 where d: "do_priv_drop os pw gr u t = (r1, u1, t1)" by (metis prod.exhaust)
  then have "grows t t1" by (auto simp: do_priv_drop_def psys_eq Let_def split_def adds_def split: if_splits)
  moreover have "grows t1 (exec_or_fail os cmd argv envp t1)"
    by (simp add: exec_or_fail_def psys_eq adds_def)
  ultimately have "grows s t1" "grows s (exec_or_fail os cmd argv envp t1)" using g adds_trans by blast+
  then show ?thesis using g by (simp add: launch_exec_def c d)
qed

lemma child_run_grows: "xadds (\<lambda>_. True) s (child_run w u env cfg s)"
proof (cases "launch_cage (w_os w) (pwdb w s) (grdb w s) True True u env (Some (cf_currentdir cfg)) (cf_command cfg) s")
  case (Some q)
  then obtain r e v t where q: "q = (r, e, v, t)" by (cases q) auto
  have "t = s \<or> (\<exists>u cmd argv envp. t = snd (snd (launch_exec (w_os w) (pwdb w s) (grdb w s) u (Some (cf_currentdir cfg)) cmd argv envp s)))"
    using Some [unfolded q]
    by (auto simp: launch_cage_def Let_def split_def split: option.splits if_splits) (metis snd_conv)
  then have "grows s t" by (elim disjE exE; hypsubst) (rule adds_refl launch_exec_grows)+
  then show ?thesis using Some q by (auto simp: child_run_def quit_def psys_eq xadds_def intro: adds_trans)
qed (simp add: child_run_def)

section \<open>The child up to its command\<close>

interpretation kept_net: net_policy "confined root" for root
  by unfold_locales (erule net_callE, simp_all)

text \<open>The values of the session's variables that reach a path without a look at them.\<close>

definition plain_session :: "world \<Rightarrow> cage_config \<Rightarrow> bool" where
  "plain_session w cfg \<longleftrightarrow>
     plain (find_envvar cfg ''XDG_RUNTIME_DIR'') \<and> plain (find_envvar cfg ''WAYLAND_DISPLAY'') \<and>
     plain (map_option (\<lambda>p. if starts_with ''unix:'' p then drop 5 p else p) (find_envvar cfg ''PULSE_SERVER'')) \<and>
     (find_envvar cfg ''WAYLAND_DISPLAY'' = None \<longrightarrow> plain (w_getenv w ''WAYLAND_DISPLAY''))"

lemma net_confined: "xadds (confined root) s (inner_child_net w rc s)"
proof -
  have k: "xadds (confined root) s (map_option (\<lambda>(r, tr). (r, (tr, snd t))) (net_setup_child os i st (fst t)))"
    if "adds (confined root) s t" for s t os i st
    by (intro xadds_from [OF that] xadds_trace kept_net.setup_child_adds)
  have n: "xadds (confined root) s (do_child_net w i f s)" for i f s
    unfolding do_child_net_def Let_def by (intro xadds_psys k) (simp_all add: psys_eq)
  show ?thesis unfolding inner_child_net_def
    by (intro xadds_if xadds_option n xadds_quit xadds_Some) simp_all
qed

lemma host_paths_confined: "adds (confined root) s (snd (resolve_host_paths w env ruid s))"
proof -
  have h: "adds (confined root) s (snd (host_home_ok os h s))" for os h
    unfolding host_home_ok_def Let_def
    by (auto simp: split_def kept.isdir_adds split: option.splits list.splits)
  have r: "adds (confined root) s (snd (resolve_host_home w e s))" for e
    using h [of "w_os w"] by (auto simp: resolve_host_home_def split_def Let_def)
  show ?thesis by (simp add: resolve_host_paths_def Let_def r)
qed

lemma begin_gui_facts:
  assumes "begin_gui_ctx w cfg u root env ruid s = Some ((g, e, v), t)"
  shows "adds (confined root) s t \<and> g_root g = root \<and> (plain_session w cfg \<longrightarrow> plain_ctx g)"
proof -
  obtain e1 s1 where h: "resolve_host_paths w env ruid s = (e1, s1)" by (metis prod.exhaust)
  obtain e2 u2 where f: "fixup_home w e1 u s1 = Some (e2, u2)"
    using assms by (auto simp: begin_gui_ctx_def h bind_eq_Some_conv)
  obtain g1 u3 where c: "fill_gui_ctx w cfg u2 root e2 s1 = (g1, u3)" by (metis prod.exhaust)
  have g: "g = g1\<lparr>g_xrd_created := False, g_guest_xrd_env := (find_envvar cfg ''XDG_RUNTIME_DIR'' \<noteq> None)\<rparr>" "t = s1"
    using assms by (simp_all add: begin_gui_ctx_def h f c Let_def)
  have p: "g_root g1 = root" "g_guest_xrd g1 = find_envvar cfg ''XDG_RUNTIME_DIR''"
      "g_guest_wl g1 = find_envvar cfg ''WAYLAND_DISPLAY''" "g_guest_ps g1 = find_envvar cfg ''PULSE_SERVER''"
      "g_host_wl g1 = w_getenv w ''WAYLAND_DISPLAY''"
    using c by (auto simp: fill_gui_ctx_def fill_guest_env_def Let_def split_def)
  have "adds (confined root) s t" using host_paths_confined [of root s w env ruid] h g by simp
  moreover have "plain_ctx g" if "plain_session w cfg"
    using that p by (auto simp: g plain_ctx_def plain_session_def)
  ultimately show ?thesis using p g by simp
qed

lemma child_gui_confined:
  assumes "cf_graphical cfg \<longrightarrow> plain_session w cfg"
  shows "xadds (confined root) s (child_setup_gui w cfg u root env ruid s)"
proof (cases "cf_graphical cfg")
  case True
  have "adds (confined root) s t" if r: "child_setup_gui w cfg u root env ruid s = Some (r, t)" for r t
  proof -
    obtain g e v s1 hm where b: "begin_gui_ctx w cfg u root env ruid s = Some ((g, e, v), s1)"
      and hm: "env_map_get (emap e) ''HOME'' = Some hm"
      using r True by (auto simp: child_setup_gui_def bind_eq_Some_conv)
    note B = begin_gui_facts [OF b]
    obtain k g1 s2 where m: "setup_gui_mounts (w_os w) g hm s1 = (k, g1, s2)" by (metis prod.exhaust)
    have s2: "adds (confined root) s1 s2"
      using setup_gui_stays [of g s1 "w_os w" hm] B assms True m by (simp add: stays_def)
    have "t = s2 \<or> t = snd (psys (w_os w) (Exit 1) s2)"
      using r True b hm m by (auto simp: child_setup_gui_def bind_eq_Some_conv quit_def psys_eq split: if_splits)
    moreover have "adds (confined root) s2 (snd (psys (w_os w) (Exit 1) s2))" by (rule other_adds) simp
    ultimately show ?thesis using B s2 adds_trans by blast
  qed
  then show ?thesis by (simp add: xadds_def)
qed (simp add: child_setup_gui_def xadds_Some)

lemma child_setup_confined:
  assumes "list_all (\<lambda>v. \<not> mem_path_escapes (v_target v)) (take (length (cf_volumes cfg)) (cf_volumes_parsed cfg))"
    and "hc = 1 \<longrightarrow> plain_controllers (w_files w)" and g: "cf_graphical cfg \<longrightarrow> plain_session w cfg"
  shows "xadds (confined root) s (do_child_setup w root cfg rc hc s)"
proof -
  have m: "xadds (confined root) s (mount_all (w_os w) (w_files w) root cfg hc s)"
    using mount_all_steps [OF _ assms(1,2)] unfolding xadds_def by blast
  have e: "xadds (confined root) s (case p of None \<Rightarrow> None | Some (Inl _) \<Rightarrow> quit w 1 s
      | Some (Inr env) \<Rightarrow> (case q of None \<Rightarrow> quit w 1 s
          | Some u \<Rightarrow> child_setup_gui w cfg (eager_resolve_user w u s) root env (rc_host_ruid rc) s))"
    for p :: "('x + env_t) option" and q s
    by (auto intro!: xadds_quit child_gui_confined [OF g] split: option.splits sum.splits)
  show ?thesis unfolding do_child_setup_def by (intro xadds_option m xadds_if xadds_quit e) simp
qed

text \<open>
  \<open>entered root ext\<close>: the calls \<open>ext\<close> enter the root, all three steps answered with 0, after
  confined calls only.  \<open>runs_nothing\<close> allows the failed attempts to enter as well.
\<close>

definition entered :: "string \<Rightarrow> trace \<Rightarrow> bool" where
  "entered root ext \<longleftrightarrow> (\<exists>pre a b c post.
     ext = pre @ [(Chdir root, a), (Ns (Mount (Some root) ''/'' None MS_MOVE None), b), (Ns (Chroot ''.''), c)] @ post \<and>
     a_ret a = 0 \<and> a_ret b = 0 \<and> a_ret c = 0 \<and> list_all (confined root) (calls pre))"

definition runs_nothing :: "string \<Rightarrow> syscall \<Rightarrow> bool" where
  "runs_nothing root c \<longleftrightarrow>
     confined root c \<or> c = Ns (Mount (Some root) ''/'' None MS_MOVE None) \<or> c = Ns (Chroot ''.'')"

lemma move_and_chroot_steps:
  "(\<exists>t a b c. move_and_chroot w root s = Some (Inr (), t) \<and> a_ret a = 0 \<and> a_ret b = 0 \<and> a_ret c = 0 \<and>
      fst t = fst s @ [(Chdir root, a), (Ns (Mount (Some root) ''/'' None MS_MOVE None), b), (Ns (Chroot ''.''), c)]) \<or>
   (\<exists>t. move_and_chroot w root s = Some (Inl 1, t) \<and> adds (runs_nothing root) s t)"
  by (auto simp: move_and_chroot_def quit_def psys_eq Let_def adds_def runs_nothing_def)

lemma bindx_cases:
  assumes "bindx m f = Some (r, t)" "xadds P s m"
  obtains c where "m = Some (Inl c, t)" "r = Inl c" "adds P s t"
  | x u where "m = Some (Inr x, u)" "f x u = Some (r, t)" "adds P s u"
  using assms by (auto simp: bindx_def xadds_def split: option.splits sum.splits prod.splits)

text \<open>The exit code of a child that does not get to its command.\<close>

definition exits_1 :: "(pst, 'a) run \<Rightarrow> bool" where
  "exits_1 m \<longleftrightarrow> (\<forall>c t. m = Some (Inl c, t) \<longrightarrow> c = 1)"

lemma exits_1_steps:
  "exits_1 None" "exits_1 (Some (Inr x, t))" "exits_1 (quit w 1 s)"
  "(\<And>x. exits_1 (h x)) \<Longrightarrow> exits_1 (Option.bind y h)"
  "(\<And>a b. exits_1 (k a b)) \<Longrightarrow> exits_1 (case z of (a, b) \<Rightarrow> k a b)"
  "(\<And>a b c d. exits_1 (f a b c d)) \<Longrightarrow> exits_1 ((case p of (a, b, c) \<Rightarrow> f a b c) s)"
  "exits_1 m \<Longrightarrow> exits_1 n \<Longrightarrow> exits_1 (if c then m else n)"
  by (auto simp: exits_1_def quit_def psys_eq bind_eq_Some_conv split: prod.splits)

lemma setup_exits_1: "exits_1 (inner_child_net w rc s)" "exits_1 (do_child_setup w root cfg rc hc s)"
proof -
  have g: "exits_1 (child_setup_gui w cfg u root env ruid s)" for u env ruid s
    unfolding child_setup_gui_def Let_def by (intro exits_1_steps)
  show "exits_1 (inner_child_net w rc s)"
    by (auto simp: inner_child_net_def intro!: exits_1_steps split: option.splits)
  show "exits_1 (do_child_setup w root cfg rc hc s)"
    by (auto simp: do_child_setup_def intro!: exits_1_steps g split: option.splits sum.splits)
qed

text \<open>What follows the entry only grows the trace.\<close>

definition after_entry :: "world \<Rightarrow> cage_config \<Rightarrow> run_ctx \<Rightarrow> int \<Rightarrow> env_t \<Rightarrow> user \<Rightarrow> pst \<Rightarrow> (pst, unit) run" where
  "after_entry w cfg rc hc env u s =
     (let s = child_root_ready w (rc_root_futex rc) s in
      bindx (enter_cgroup_and_init w cfg env hc s) (\<lambda>_ s.
      bindx (if cf_initscript cfg \<noteq> None then reread_guest_user w cfg s else Some (Inr u, s)) (\<lambda>u s.
      child_run w u env cfg s)))"

lemma after_entry_grows: "xadds (\<lambda>_. True) s (after_entry w cfg rc hc env u s)"
proof -
  have r: "grows s (child_root_ready w f s)" for f
    by (simp add: child_root_ready_def psys_eq adds_def)
  have q: "xadds (\<lambda>_. True) s (if cf_initscript cfg \<noteq> None then reread_guest_user w cfg s else Some (Inr u, s))" for s
    by (auto simp: reread_guest_user_def intro!: xadds_quit xadds_Some split: option.splits)
  show ?thesis unfolding after_entry_def Let_def
    by (intro xadds_from [OF r [of "rc_root_futex rc"]] xadds_bindx enter_and_init_grows q child_run_grows)
qed

lemma run_in_root_eq:
  "run_in_root w pr cfg rc s =
     (let hc = (if cf_unshare_cgroup cfg then rc_cg_fs_type rc else -2) in
      bindx (inner_child_net w rc s) (\<lambda>_ s.
      bindx (do_child_setup w (pr_root pr) cfg rc hc s) (\<lambda>(env, u) s.
      bindx (move_and_chroot w (pr_root pr) s) (\<lambda>_ s. after_entry w cfg rc hc env u s))))"
  by (simp add: run_in_root_def after_entry_def Let_def)

lemma run_in_root_trace:
  assumes run: "run_in_root w pr cfg rc s = Some (res, s')"
    and v: "list_all (\<lambda>v. \<not> mem_path_escapes (v_target v)) (take (length (cf_volumes cfg)) (cf_volumes_parsed cfg))"
    and c: "cf_unshare_cgroup cfg \<and> rc_cg_fs_type rc = 1 \<longrightarrow> plain_controllers (w_files w)"
    and g: "cf_graphical cfg \<longrightarrow> plain_session w cfg"
  shows "\<exists>ext. fst s' = fst s @ ext \<and>
    (entered (pr_root pr) ext \<or> res = Inl 1 \<and> list_all (runs_nothing (pr_root pr)) (calls ext))"
proof -
  let ?root = "pr_root pr"
  define hc where "hc = (if cf_unshare_cgroup cfg then rc_cg_fs_type rc else -2)"
  have hc: "hc = 1 \<longrightarrow> plain_controllers (w_files w)" using c by (auto simp: hc_def split: if_splits)
  have quiet: "\<exists>ext. fst t = fst s @ ext \<and> list_all (runs_nothing ?root) (calls ext)" if "adds (runs_nothing ?root) s t" for t
    using that by (simp add: adds_def)
  have weak: "adds (confined ?root) s t \<Longrightarrow> adds (runs_nothing ?root) s t" for s t
    by (erule adds_mono) (simp add: runs_nothing_def)
  note R = run [unfolded run_in_root_eq Let_def, folded hc_def]
  show ?thesis
  proof (cases rule: bindx_cases [OF R net_confined [of ?root s w rc]])
    case (1 k)
    then have "res = Inl 1" using setup_exits_1(1) unfolding exits_1_def by blast
    then show ?thesis using quiet [OF weak [OF 1(3)]] by blast
  next
    case (2 x s1)
    show ?thesis
    proof (cases rule: bindx_cases [OF 2(2) child_setup_confined [OF v hc g, of ?root s1 rc]])
      case (1 k)
      then have "res = Inl 1" using setup_exits_1(2) unfolding exits_1_def by blast
      then show ?thesis using quiet [OF weak [OF adds_trans [OF 2(3) 1(3)]]] by blast
    next
      case (2 y s2)
      obtain env u where y: "y = (env, u)" by (cases y)
      have pre: "adds (confined ?root) s s2" using \<open>adds (confined ?root) s s1\<close> 2(3) by (rule adds_trans)
      then obtain p where p: "fst s2 = fst s @ p" "list_all (confined ?root) (calls p)" by (auto simp: adds_def)
      note m = 2(2) [unfolded y prod.case bindx_def]
      from move_and_chroot_steps [of w ?root s2] show ?thesis
      proof (elim disjE exE conjE)
        fix t a b d
        assume t: "move_and_chroot w ?root s2 = Some (Inr (), t)" "a_ret a = 0" "a_ret b = 0" "a_ret d = 0"
          "fst t = fst s2 @ [(Chdir ?root, a), (Ns (Mount (Some ?root) ''/'' None MS_MOVE None), b), (Ns (Chroot ''.''), d)]"
        then have "after_entry w cfg rc hc env u t = Some (res, s')" using m by simp
        then have "grows t s'" by (rule xaddsD [OF after_entry_grows])
        then obtain post where post: "fst s' = fst t @ post" by (auto simp: adds_def)
        have "entered ?root (p @ [(Chdir ?root, a), (Ns (Mount (Some ?root) ''/'' None MS_MOVE None), b),
            (Ns (Chroot ''.''), d)] @ post)" using t(2-4) p(2) unfolding entered_def by blast
        then show ?thesis using t(5) p(1) post by auto
      next
        fix t
        assume t: "move_and_chroot w ?root s2 = Some (Inl 1, t)" "adds (runs_nothing ?root) s2 t"
        then have "res = Inl 1" "s' = t" using m by simp_all
        then show ?thesis using quiet [OF adds_trans [OF weak [OF pre] t(2)]] by blast
      qed
    qed
  qed
qed

text \<open>
  C2: no program of the guest runs outside it.  Take any accepted command line and any answers of
  the system; when the session is shared, the guest's values of three session variables, and the host's
  Wayland display where the guest gives none of its own, have no \<^verbatim>\<open>..\<close> element, and the names of version 1
  control groups are plain.  Then a child that ends has, whatever happened on the way, either entered its root, by \<open>chdir\<close>, the move of the mount to \<^verbatim>\<open>/\<close> and
  \<open>chroot\<close>, each of which succeeded, after nothing but calls that mount below the root, run no program, make
  no process and change no identity; or it has done no such thing at all and left with the exit code 1.
  So the init script and the command, which are executed later, never see the host's root.
\<close>

theorem guest_command_confined:
  assumes parse: "cage_parse_args argv cage_config_init = (r0, cfg0)" and prep: "prepare_run cfg0 = (0, cfg)"
    and session: "cf_graphical cfg \<longrightarrow> plain_session w cfg"
    and groups: "cf_unshare_cgroup cfg \<and> rc_cg_fs_type rc = 1 \<longrightarrow> plain_controllers (w_files w)"
    and run: "run_in_root w pr cfg rc s = Some (res, s')"
  shows "\<exists>ext. fst s' = fst s @ ext \<and>
    (entered (pr_root pr) ext \<or> res = Inl 1 \<and> list_all (runs_nothing (pr_root pr)) (calls ext))"
proof -
  have "config_ok cfg0" using parse_args_ok [OF config_ok_init, of argv] parse by simp
  moreover have "prepare_volumes cfg0 = (0, cfg)" using prep by (simp add: prepare_run_def split: if_splits)
  ultimately have "list_all (\<lambda>v. \<not> mem_path_escapes (v_target v)) (take (length (cf_volumes cfg)) (cf_volumes_parsed cfg))"
    by (intro prepared_plain) (auto simp: config_ok_def)
  then show ?thesis by (rule run_in_root_trace [OF run _ groups session])
qed

text \<open>A world in which everything succeeds, and there are no files and no databases.\<close>

definition fine_world :: world where
  "fine_world = \<lparr>w_os = fine_os, w_files = no_files, w_ext4 = (\<lambda>_. fine_env), w_passwd = (\<lambda>_ _. None),
     w_group = (\<lambda>_ _. None), w_getenv = (\<lambda>_. None), w_stack = []\<rparr>"

lemma fill_home_user_ok:
  assumes "env_map_ok (emap e)"
  shows "\<exists>e' u'. fill_home_user db True e u = Some (e', u') \<and> env_map_ok (emap e')"
  using assms envs.put_absent_inv
  by (auto simp: fill_home_user_def Let_def split_def ensure_put_absent split: option.splits)

lemma child_run_ends:
  assumes "env_map_ok (emap e)" "has_command (cf_command cfg)" "\<not> is_dash (cf_command cfg)"
  shows "\<exists>x. child_run w u e cfg s = Some x"
proof -
  obtain e1 u1 where h: "fill_home_user (pwdb w s) True e u = Some (e1, u1)" "env_map_ok (emap e1)"
    using fill_home_user_ok [OF assms(1)] by blast
  have "\<exists>q. fill_shell (pwdb w s) True e1 u1 = Some q"
    using h(2) by (auto simp: fill_shell_def map_put_eq split_def Let_def)
  then show ?thesis using assms(2,3) h
    by (auto simp: child_run_def launch_cage_def prepare_command_def quit_def psys_eq Let_def split_def)
qed

definition sh_argv :: "string list" where
  "sh_argv = [''cage'', ''-v'', ''/a:b'', ''--'', ''sh'']"

definition sh_config :: cage_config where
  "sh_config = cage_config_init\<lparr>cf_volumes := [''/a:b''], cf_has_dashdash := True, cf_command := [''sh'']\<rparr>"

definition sh_prepared :: cage_config where
  "sh_prepared = sh_config\<lparr>cf_volumes_parsed := \<lparr>v_host = ''/a'', v_target = ''b''\<rparr> # replicate 255 vol_zero\<rparr>"

lemma sh_run: "cage_parse_args sh_argv cage_config_init = (0, sh_config)" "prepare_run sh_config = (0, sh_prepared)"
  by code_simp+

definition sh_prep :: prep_result where
  "sh_prep = \<lparr>pr_root = ''/r'', pr_child = 0, pr_dirs = appdir_zero, pr_cg_fs_type = 0, pr_cg_pid = 0\<rparr>"

definition sh_ctx :: run_ctx where
  "sh_ctx = \<lparr>rc_env = env_zero, rc_net_futex = 0, rc_root_futex = 7, rc_net_id = -1, rc_host_ruid = 1000, rc_cg_fs_type = 0\<rparr>"

lemma user_0: "\<exists>u. user_new (Some ''0'') None r = Some u"
proof -
  have "parse_id ''0'' \<noteq> None" by (simp add: parse_id_def digits_val_def digit_val_def Let_def)
  then have "user_new (Some ''0'') None r \<noteq> None"
    by (auto simp: user_new_def parse_user_body_def parse_user_identity_def store_identity_def add_tokens_def
        append_tokens_def COLON_def Let_def split: option.splits)
  then show ?thesis by blast
qed

lemma sh_run_ends: "\<exists>res s'. run_in_root fine_world sh_prep sh_prepared sh_ctx ([], io_cache0) = Some (res, s')"
proof -
  have f: "w_os fine_world = fine_os" "w_files fine_world = no_files" "w_getenv fine_world = (\<lambda>_. None)"
    by (simp_all add: fine_world_def)
  have c: "\<not> cf_unshare_cgroup sh_prepared" "\<not> cf_graphical sh_prepared" "cf_initscript sh_prepared = None"
      "\<not> cf_unshare_net sh_prepared" "cf_envvars sh_prepared = []" "cf_user sh_prepared = ''0''" "cf_group sh_prepared = None"
      "cf_command sh_prepared = [''sh'']"
    by (simp_all add: sh_prepared_def sh_config_def cage_config_init_def)
  obtain t where t: "mount_all fine_os no_files ''/r'' sh_prepared (-2) ([], io_cache0) = Some (0, t)"
    using mount_all_fine [of "([], io_cache0)" sh_prepared "-2" no_files "''/r''"] c by (auto simp: good_def io_cache0_def)
  obtain env where e: "parse_envs (\<lambda>_. None) [] = Some (Inr env)" "env_map_ok (emap env)"
    using parse_envs_map [of "[]" "\<lambda>_. None"] by auto
  obtain u where u: "user_new (Some ''0'') None (Some ''/r'') = Some u" using user_0 by blast
  have m: "\<exists>t'. move_and_chroot fine_world ''/r'' t = Some (Inr (), t')" for t
    by (simp add: move_and_chroot_def f psys_eq fine_os_def ret_def)
  have a: "\<exists>x :: (int + unit) \<times> pst. child_run fine_world v env sh_prepared s = Some x" for v s
    by (rule child_run_ends [OF e(2)]) (simp_all add: c has_command_def is_dash_def)
  obtain t' where t': "move_and_chroot fine_world ''/r'' t = Some (Inr (), t')" using m by blast
  obtain x :: "(int + unit) \<times> pst" where "child_run fine_world (eager_resolve_user fine_world u t) env sh_prepared (child_root_ready fine_world 7 t') = Some x"
    using a by blast
  then have "run_in_root fine_world sh_prep sh_prepared sh_ctx ([], io_cache0) = Some x"
    by (simp add: run_in_root_def inner_child_net_def sh_ctx_def sh_prep_def bindx_def do_child_setup_def
        f c t t' e(1) u child_setup_gui_def enter_cgroup_and_init_def Let_def)
  then show ?thesis by (cases x) blast
qed

lemma guest_command_confined_witness:
  "\<exists>res s' ext. run_in_root fine_world sh_prep sh_prepared sh_ctx ([], io_cache0) = Some (res, s') \<and> fst s' = ext \<and>
     (entered ''/r'' ext \<or> res = Inl 1 \<and> list_all (runs_nothing ''/r'') (calls ext))"
proof -
  obtain res s' where r: "run_in_root fine_world sh_prep sh_prepared sh_ctx ([], io_cache0) = Some (res, s')"
    using sh_run_ends by blast
  have g: "\<not> cf_graphical sh_prepared" "\<not> cf_unshare_cgroup sh_prepared"
    by (simp_all add: sh_prepared_def sh_config_def cage_config_init_def)
  show ?thesis using guest_command_confined [OF sh_run _ _ r] g r by (auto simp: sh_prep_def)
qed

section \<open>A start that fails\<close>

lemma in_tree_refl: "in_tree root root"
  unfolding in_tree_def by (rule exI [of _ "[]"]) simp

text \<open>A system without shared memory: the start fails after the pid file has been locked.\<close>

definition unshared_os :: os where
  "unshared_os tr c = (case c of Ipc (Map_shared n) \<Rightarrow> ret (-1) | _ \<Rightarrow> fine_os tr c)"

definition unshared_world :: world where
  "unshared_world = fine_world\<lparr>w_os := unshared_os\<rparr>"

definition pid_config :: cage_config where
  "pid_config = cage_config_init\<lparr>cf_pidfile := Some ''p''\<rparr>"

lemma unshared_spawn:
  "\<exists>s. spawn_cage unshared_world pid_config 1000 ((([], io_cache0), m), fs) = Some (Inr (-1), ((s, m), fs))"
  by (simp add: spawn_cage_def spawn_init_def create_pidfile_def open_and_lock_def prep_pidfile_def pid_config_def
      cage_config_init_def psys_eq unshared_world_def unshared_os_def fine_world_def fine_os_def ret_def Let_def
      do_setup_def setup_net_or_fail_def setup_cgroup_def spawn_st_init_def do_setup_prep_def create_futex_def
      bindx_def spawn_cleanup_def free_futex_def close_pid_def unlink_pidfile_def cgroup_cleanup_def
      cgroup_cleanup_at_def remove_root_def)

end
