(* ===== verification/MainSpec.thy ===== *)
theory MainSpec
  imports CageSpec
begin

text \<open>
  Properties of the other way to start a command, inside a running instance: what a joining process has
  done before it executes the command.  At the end a world with a running instance, in which the whole
  program joins it.
\<close>

section \<open>Nothing is executed\<close>

interpretation exec_free_net: net_policy "\<lambda>c. \<not> is_exec c"
  by unfold_locales (erule net_callE, simp_all)

lemma confined_quiet: "adds (confined r) s t \<Longrightarrow> quiet s t"
  unfolding quiet_adds by (erule adds_mono, erule contrapos_pn) (case_tac c, simp_all)

lemma quietI: "fst t = fst s @ ext \<Longrightarrow> no_exec ext \<Longrightarrow> quiet s t"
  by (auto simp: quiet_def)

lemma launch_cage_trace:
  assumes "launch_cage os pw gr ok okb u env cwd argv s = Some (r, e', u', t)"
  shows "r = -1 \<and> (quiet s t \<or>
    (\<exists>ext gid gl uid cmd av envp. fst t = fst s @ ext \<and> drop_and_exec gid gl uid cmd av envp ext))"
proof -
  have "r = -1 \<and> t = s \<or> (\<exists>u cmd av envp v. launch_exec os pw gr u cwd cmd av envp s = (r, v, t))"
    using assms by (auto simp: launch_cage_def Let_def split: option.splits if_splits prod.splits)
  then show ?thesis
  proof (elim disjE exE conjE)
    fix u cmd av envp v
    assume "launch_exec os pw gr u cwd cmd av envp s = (r, v, t)"
    from launch_exec_trace [OF this] show ?thesis by blast
  qed simp
qed

lemma quiet_then_exec:
  assumes "no_exec p" "drop_and_exec gid gl uid cmd av envp ext"
  shows "drop_and_exec gid gl uid cmd av envp (p @ ext)"
proof -
  obtain pre a1 a2 a3 a4 a5 where "no_exec pre" "a_ret a1 = 0" "a_ret a2 = 0" "a_ret a3 = 0"
      "ext = pre @ [(Setregid gid gid, a1), (Setgroups gl, a2), (Setreuid uid uid, a3), (Umask 18, a4), (Execve cmd av envp, a5)]"
    using assms(2) unfolding drop_and_exec_def by blast
  then show ?thesis using assms(1) unfolding drop_and_exec_def
    by (intro exI [of _ "p @ pre"] exI [of _ a1] exI [of _ a2] exI [of _ a3] exI [of _ a4] exI [of _ a5]) simp
qed

section \<open>Entering the namespaces\<close>

definition ns_path :: "int \<Rightarrow> string \<Rightarrow> string" where
  "ns_path pid ns = ''/proc/'' @ dec_int pid @ ''/ns/'' @ ns"

text \<open>
  The namespaces an instance is entered by, with the kernel's flag for each (\<open>CLONE_NEWPID\<close>, \<open>CLONE_NEWCGROUP\<close>,
  \<open>CLONE_NEWNET\<close>, \<open>CLONE_NEWNS\<close>).  One of them was opened and entered, and the kernel answered 0.
\<close>

definition namespaces :: "(string \<times> nat) list" where
  "namespaces = [(''pid'', 0x20000000), (''cgroup'', 0x02000000), (''net'', 0x40000000), (''mnt'', 0x00020000)]"

fun joined_ns :: "int \<Rightarrow> trace \<Rightarrow> string \<times> nat \<Rightarrow> bool" where
  "joined_ns pid tr (ns, flag) \<longleftrightarrow> (\<exists>a b. (Open (ns_path pid ns) 524288, a) \<in> set tr \<and>
     (Ns (Setns (a_ret a) flag), b) \<in> set tr \<and> a_ret b = 0)"

text \<open>A change of directory.\<close>

fun is_chdir :: "syscall \<Rightarrow> bool" where
  "is_chdir (Chdir d) = True"
| "is_chdir c = False"

lemma join_ns_trace:
  assumes "join_ns os pid ns s = (r, t)"
  shows "\<exists>ext. fst t = fst s @ ext \<and> no_exec ext \<and> (r = 0 \<longrightarrow> joined_ns pid ext (ns, ns_flag ns))"
  using assms by (auto simp: join_ns_def psys_eq Let_def ns_path_def split: if_splits)

lemma joined_more: "joined_ns pid x n \<Longrightarrow> joined_ns pid (x @ y) n" "joined_ns pid y n \<Longrightarrow> joined_ns pid (x @ y) n"
  by (cases n; auto)+

lemma namespaces_flags: "map (\<lambda>n. (n, ns_flag n)) (map fst namespaces) = namespaces"
  by (simp add: namespaces_def ns_flag_def CLONE_NEWPID_def CLONE_NEWCGROUP_def CLONE_NEWNET_def CLONE_NEWNS_def)

fun join_list :: "os \<Rightarrow> int \<Rightarrow> string list \<Rightarrow> pst \<Rightarrow> int \<times> pst" where
  "join_list os pid [] s = (0, s)"
| "join_list os pid (n # ns) s = (let (r, s) = join_ns os pid n s in if r \<noteq> 0 then (-1, s) else join_list os pid ns s)"

lemma join_list_trace:
  "join_list os pid ns s = (r, t) \<Longrightarrow>
   \<exists>ext. fst t = fst s @ ext \<and> no_exec ext \<and> (r = 0 \<longrightarrow> list_all (joined_ns pid ext) (map (\<lambda>n. (n, ns_flag n)) ns))"
proof (induction ns arbitrary: s)
  case (Cons n ns)
  obtain q u where u: "join_ns os pid n s = (q, u)" by (metis prod.exhaust)
  obtain x where x: "fst u = fst s @ x" "no_exec x" "q = 0 \<longrightarrow> joined_ns pid x (n, ns_flag n)" using join_ns_trace [OF u] by blast
  show ?case
  proof (cases "q = 0")
    case True
    then have "join_list os pid ns u = (r, t)" using Cons.prems u by simp
    then obtain y where "fst t = fst u @ y" "no_exec y" "r = 0 \<longrightarrow> list_all (joined_ns pid y) (map (\<lambda>n. (n, ns_flag n)) ns)" using Cons.IH by blast
    then show ?thesis using x True joined_more by (intro exI [of _ "x @ y"]) (auto simp: list_all_iff simp del: joined_ns.simps)
  next
    case False
    then show ?thesis using Cons.prems u x by auto
  qed
qed simp

lemma join_namespaces_list: "(fst (join_namespaces os pid s) = 0 \<longrightarrow> fst (join_list os pid (map fst namespaces) s) = 0) \<and>
    snd (join_namespaces os pid s) = snd (join_list os pid (map fst namespaces) s)"
  by (auto simp: join_namespaces_def namespaces_def Let_def split: prod.splits)

text \<open>Entering them does not change the directory.\<close>

lemma join_ns_steady: "adds (\<lambda>c. \<not> is_chdir c) s (snd (join_ns os pid ns s))"
  by (simp add: join_ns_def psys_eq Let_def) (simp add: adds_def)

lemma join_namespaces_steady: "adds (\<lambda>c. \<not> is_chdir c) s (snd (join_namespaces os pid s))"
  unfolding join_namespaces_def Let_def by (intro adds_seq adds_if adds_done join_ns_steady)

section \<open>The joining process\<close>

lemma quiet_run: "xadds (confined r) s m \<Longrightarrow> m = Some (x, t) \<Longrightarrow> quiet s t"
  by (rule confined_quiet) (rule xaddsD)

lemma reuse_env_quiet:
  assumes "reuse_setup_env w cfg u root inst ruid s = Some (x, t)"
  shows "quiet s t"
proof -
  have x11: "adds (confined r) s (snd (x11_resolve_display os g s))" for r os g s
    using resolve_x11_adds [of r s os g] by (simp add: x11_resolve_display_def split_def Let_def)
  have sock: "adds (confined r) s (snd (wayland_sock_present os g h s))" "adds (confined r) s (snd (pulse_sock_present os g h s))"
    for r os g h s
    using kept.exists_adds [of r s os] by (auto simp: wayland_sock_present_def pulse_sock_present_def Let_def split_def split: option.splits)
  have xdg: "adds (confined r) s (snd (xdg_detect_socks os g s))" for r os g s
  proof (cases "g_host_xrd g")
    case (Some h)
    have p: "adds (confined r) t (snd (if c then (True, t) else pulse_sock_present os k h t))" for c k t
      using sock(2) by simp
    have k: "g_host_xrd (g\<lparr>g_xrd_created := False\<rparr>) = Some h" using Some by simp
    show ?thesis unfolding xdg_detect_socks_def Let_def k option.case by (intro adds_seq adds_done sock(1) p)
  qed (simp add: xdg_detect_socks_def)
  have "quiet s t" if g: "child_gui_env_only w cfg u root env ruid s = Some (y, t)" for env y t
  proof (cases "cf_graphical cfg")
    case True
    then obtain gx e v s1 where b: "begin_gui_ctx w cfg u root env ruid s = Some ((gx, e, v), s1)"
      and k: "t = snd (xdg_detect_socks (w_os w) (fst (x11_resolve_display (w_os w) gx s1)) (snd (x11_resolve_display (w_os w) gx s1)))"
      using g by (auto simp: child_gui_env_only_def bind_eq_Some_conv Let_def split_def)
    have "adds (confined root) s t"
      unfolding k by (rule adds_trans [OF _ adds_trans [OF x11 xdg]]) (use begin_gui_facts [OF b] in simp)
    then show ?thesis by (rule confined_quiet)
  qed (use g in \<open>simp add: child_gui_env_only_def\<close>)
  then show ?thesis using assms
    by (auto simp: reuse_setup_env_def split: option.splits sum.splits if_splits)
qed

text \<open>
  What a joining child has done after its \<open>fork\<close>: nothing executed, or \<open>chroot\<close> into the directory it
  stands in, then the change of identity and the command, at the end the exit code 1.
\<close>

definition jailed_exec :: "trace \<Rightarrow> bool" where
  "jailed_exec ext \<longleftrightarrow> (\<exists>b run e gid gl uid cmd argv envp. ext = (Ns (Chroot ''.''), b) # run @ [(Exit 1, e)] \<and>
     a_ret b = 0 \<and> drop_and_exec gid gl uid cmd argv envp run)"

lemma quit_still:
  assumes "quiet (fst s @ [(c, a)], k) u" and "Some (x, t) = quit w e u" and "\<not> is_exec c"
  shows "\<exists>c ext. x = Inl c \<and> fst t = fst s @ ext \<and> (no_exec ext \<or> jailed_exec ext)"
  using assms by (auto simp: quit_def psys_eq quiet_def)

lemma launch_then_quit:
  assumes b: "a_ret b = 0" and q: "quiet (fst s @ [(Ns (Chroot ''.''), b)], k) u"
    and d: "fst v = fst u @ ext" "drop_and_exec gid gl uid cmd av envp ext" and x: "Some (x, t) = quit w 1 v"
  shows "\<exists>c ext. x = Inl c \<and> fst t = fst s @ ext \<and> (no_exec ext \<or> jailed_exec ext)"
proof -
  obtain p where p: "fst u = (fst s @ [(Ns (Chroot ''.''), b)]) @ p" "no_exec p" using q by (auto simp: quiet_def)
  have "x = Inl 1" "fst t = fst s @ ((Ns (Chroot ''.''), b) # (p @ ext) @ [(Exit 1, w_os w (fst v) (Exit 1))])"
    using x d(1) p(1) by (simp_all add: quit_def psys_eq)
  moreover have "jailed_exec ((Ns (Chroot ''.''), b) # (p @ ext) @ [(Exit 1, w_os w (fst v) (Exit 1))])"
    unfolding jailed_exec_def using b quiet_then_exec [OF p(2) d(2)] by blast
  ultimately show ?thesis by blast
qed

lemma reuse_child_trace:
  assumes "reuse_child w cfg ruid inst s = Some (x, t)"
  shows "\<exists>c ext. x = Inl c \<and> fst t = fst s @ ext \<and> (no_exec ext \<or> jailed_exec ext)"
proof -
  let ?b = "w_os w (fst s) (Ns (Chroot ''.''))"
  let ?s1 = "(fst s @ [(Ns (Chroot ''.''), ?b)], snd s)"
  note still = quit_still [of s "Ns (Chroot ''.'')" ?b "snd s" _ x t w, simplified is_exec.simps]
  show ?thesis
  proof (cases "a_ret ?b = 0 \<and> user_new (Some (cf_user cfg)) (cf_group cfg) (Some ''/'') \<noteq> None")
    case False
    then have "Some (x, t) = quit w 1 ?s1"
      using assms by (auto simp: reuse_child_def psys_eq Let_def split: if_splits)
    then show ?thesis using still quiet_refl by blast
  next
    case True
    then obtain u where b: "a_ret ?b = 0" and u: "user_new (Some (cf_user cfg)) (cf_group cfg) (Some ''/'') = Some u" by blast
    obtain y s2 where y: "reuse_setup_env w cfg u ''/'' inst ruid ?s1 = Some (y, s2)"
      using assms b u by (auto simp: reuse_child_def psys_eq Let_def split: option.splits)
    note q = reuse_env_quiet [OF y]
    show ?thesis
    proof (cases y)
      case (Inl k)
      then have "Some (x, t) = quit w 1 s2" using assms b u y by (simp add: reuse_child_def psys_eq Let_def)
      then show ?thesis using still q by blast
    next
      case (Inr ev)
      obtain env v where ev: "ev = (env, v)" by (cases ev)
      obtain r e1 v1 s3 where l: "launch_cage (w_os w) (pwdb w s2) (grdb w s2) True True v env (Some (cf_currentdir cfg)) (cf_command cfg) s2 = Some (r, e1, v1, s3)"
        using assms b u y Inr ev by (auto simp: reuse_child_def psys_eq Let_def split: option.splits)
      note L = launch_cage_trace [OF l]
      have x: "Some (x, t) = quit w 1 s3" using assms b u y Inr ev l L by (simp add: reuse_child_def psys_eq Let_def)
      show ?thesis
      proof (cases "quiet s2 s3")
        case True
        then show ?thesis using still [OF quiet_trans [OF q] x] by blast
      next
        case False
        then obtain ext gid gl uid cmd av envp where d: "fst s3 = fst s2 @ ext" "drop_and_exec gid gl uid cmd av envp ext"
          using L by blast
        show ?thesis by (rule launch_then_quit [OF b q d x])
      qed
    qed
  qed
qed

text \<open>
  The whole of it: the process has changed to the instance's root directory, then each of the namespaces
  was opened and entered, without a further change of directory, and only then comes the part above.
\<close>

definition joined_run :: "int \<Rightarrow> trace \<Rightarrow> bool" where
  "joined_run pid ext \<longleftrightarrow> (\<exists>a mid run. ext = (Chdir (''/proc/'' @ dec_int pid @ ''/root''), a) # mid @ run \<and> a_ret a = 0 \<and>
     no_exec mid \<and> list_all (\<lambda>c. \<not> is_chdir c) (calls mid) \<and> list_all (joined_ns pid mid) namespaces \<and> jailed_exec run)"

lemma joined_runI:
  assumes "a_ret a = 0" "no_exec x" "list_all (\<lambda>c. \<not> is_chdir c) (calls x)" "list_all (joined_ns pid x) namespaces" "jailed_exec run"
  shows "joined_run pid ((Chdir (''/proc/'' @ dec_int pid @ ''/root''), a) # (x @ [(Fork, f)]) @ run)"
  unfolding joined_run_def using assms joined_more(1)
  by (intro exI [of _ a] exI [of _ "x @ [(Fork, f)]"] exI [of _ run]) (simp add: list_all_iff calls_def)

lemma join_namespaces_trace:
  assumes "join_namespaces os pid s = (r, t)"
  shows "\<exists>x. fst t = fst s @ x \<and> no_exec x \<and> list_all (\<lambda>c. \<not> is_chdir c) (calls x) \<and>
    (r = 0 \<longrightarrow> list_all (joined_ns pid x) namespaces)"
proof -
  have c: "adds (\<lambda>c. \<not> is_chdir c) s t" using join_namespaces_steady [of s os pid] assms by simp
  obtain r1 where l: "join_list os pid (map fst namespaces) s = (r1, t)" "r = 0 \<longrightarrow> r1 = 0"
    using join_namespaces_list [of os pid s] assms by (cases "join_list os pid (map fst namespaces) s") auto
  obtain x where x: "fst t = fst s @ x" "no_exec x" "r1 = 0 \<longrightarrow> list_all (joined_ns pid x) namespaces"
    using join_list_trace [OF l(1)] unfolding namespaces_flags by blast
  then show ?thesis using c l(2) by (auto simp: adds_def)
qed

lemma pidwait_quiet: "pidwait os pid st s = Some (x, t) \<Longrightarrow> quiet s t"
  unfolding quiet_adds by (rule xaddsD [OF pidwait_waits]) simp_all

text \<open>
  C4: joining an instance never runs a command outside it.  Whatever the system answers, the process
  that comes back has executed nothing; the process it makes executes nothing either, or it has
  first changed to the root directory of the instance, then, without changing its directory again, entered the
  instance's pid, cgroup, network and mount namespaces, each opened under the instance's pid and entered with
  success under the kernel's flag for its kind, made the directory it stands in, the instance's root, its root, and has
  then given up the launcher's groups, group and user, in each step with success, before the one
  execution of the command; if that returns the process leaves.
\<close>

theorem joined_command_confined:
  assumes run: "spawn_existing w cfg pid ruid s = Some (res, s')"
  shows "\<exists>ext. fst s' = fst s @ ext \<and> (no_exec ext \<or> (\<exists>c. res = Inl c) \<and> joined_run pid ext)"
proof -
  define root where "root = ''/proc/'' @ dec_int pid @ ''/root''"
  note E = run [unfolded spawn_existing_def Let_def, folded root_def]
  let ?c = "Chdir root"
  let ?a = "w_os w (fst s) ?c"
  let ?s1 = "(fst s @ [(?c, ?a)], snd s)"
  obtain r t where j: "join_namespaces (w_os w) pid ?s1 = (r, t)" by (metis prod.exhaust)
  obtain x where x: "fst t = fst ?s1 @ x" "no_exec x" "r = 0 \<longrightarrow> list_all (joined_ns pid x) namespaces"
    and still: "list_all (\<lambda>c. \<not> is_chdir c) (calls x)"
    using join_namespaces_trace [OF j] by blast
  let ?f = "w_os w (fst t) Fork"
  let ?u = "(fst t @ [(Fork, ?f)], snd t)"
  have q: "quiet s ?s1" "quiet s t" "quiet s ?u" using x by (auto simp: quiet_def)
  have quietly: "?thesis" if "quiet s s'" using that by (auto simp: quiet_def)
  show ?thesis
  proof (cases "a_ret ?a = 0 \<and> r = 0 \<and> 0 \<le> a_ret ?f")
    case False
    then have "s' \<in> {?s1, t, ?u}"
      using E j by (auto simp: psys_eq child_fork_def split: if_splits)
    then show ?thesis using q quietly by blast
  next
    case True
    define inst where "inst = (if cf_graphical cfg then env_read_pid_environ w pid ?s1 else None)"
    show ?thesis
    proof (cases "a_ret ?f = 0")
      case child: True
      then have "reuse_child w cfg ruid inst ?u = Some (res, s')"
        using E j True by (simp add: psys_eq child_fork_def inst_def)
      from reuse_child_trace [OF this] obtain c ext where c: "res = Inl c" "fst s' = fst ?u @ ext" "no_exec ext \<or> jailed_exec ext"
        by blast
      have e: "fst s' = fst s @ ((?c, ?a) # (x @ [(Fork, ?f)]) @ ext)" using c(2) x(1) by simp
      have "no_exec ext \<Longrightarrow> ?thesis" using e x(2) by auto
      moreover have "jailed_exec ext \<Longrightarrow> ?thesis"
        using e c(1) joined_runI [of ?a x pid ext, folded root_def] True x still by blast
      ultimately show ?thesis using c(3) by blast
    next
      case False
      obtain k status where "pidwait (w_os w) (a_ret ?f) 0 ?u = Some ((k, status), s')"
        using E j True False by (auto simp: psys_eq child_fork_def wait_status_def)
      then have "quiet ?u s'" by (rule pidwait_quiet)
      then show ?thesis using quiet_trans [OF q(3)] quietly by blast
    qed
  qed
qed

lemma fine_zero [simp]: "a_ret (fine_os tr c) = 0" "a_errno (fine_os tr c) = 0"
  by (simp_all add: fine_os_def ret_def)

lemma joins_42:
  assumes "\<And>tr p n. a_ret (os tr (Open p n)) = 0" "\<And>tr c. a_ret (os tr (Ns c)) = 0"
  shows "\<exists>t. join_namespaces os 42 s = (0, t)"
proof -
  have d: "dec_int 42 = ''42''" by code_simp
  have "\<exists>t. join_ns os 42 ns s = (0, t)" if "ns \<in> fst ` set namespaces" for ns s
    using that by (auto simp: join_ns_def d psys_eq assms namespaces_def)
  then have j: "\<exists>t. join_ns os 42 ''pid'' s = (0, t)" "\<exists>t. join_ns os 42 ''cgroup'' s = (0, t)"
      "\<exists>t. join_ns os 42 ''net'' s = (0, t)" "\<exists>t. join_ns os 42 ''mnt'' s = (0, t)" for s
    by (simp_all add: namespaces_def)
  obtain a where a: "join_ns os 42 ''pid'' s = (0, a)" using j(1) by blast
  obtain b where b: "join_ns os 42 ''cgroup'' a = (0, b)" using j(2) by blast
  obtain c where c: "join_ns os 42 ''net'' b = (0, c)" using j(3) by blast
  show ?thesis using j(4) [of c] by (simp add: join_namespaces_def a b c)
qed

lemma join_ends: "\<exists>res s'. spawn_existing fine_world sh_prepared 42 1000 s = Some (res, s')"
proof -
  have f: "w_os fine_world = fine_os" "w_getenv fine_world = (\<lambda>_. None)"
    by (simp_all add: fine_world_def)
  have c: "\<not> cf_graphical sh_prepared" "cf_envvars sh_prepared = []" "cf_user sh_prepared = ''0''" "cf_group sh_prepared = None"
      "cf_command sh_prepared = [''sh'']"
    by (simp_all add: sh_prepared_def sh_config_def cage_config_init_def)
  let ?s1 = "snd (psys fine_os (Chdir (''/proc/'' @ dec_int 42 @ ''/root'')) s)"
  have "\<exists>t. join_namespaces fine_os 42 ?s1 = (0, t)" by (rule joins_42) simp_all
  then obtain t where t: "join_namespaces fine_os 42 ?s1 = (0, t)" by blast
  obtain env where e: "parse_envs (\<lambda>_. None) [] = Some (Inr env)" "env_map_ok (emap env)"
    using parse_envs_map [of "[]" "\<lambda>_. None"] by auto
  have l: "launch_cage fine_os (pwdb fine_world u) (grdb fine_world u) True True v env (Some (cf_currentdir sh_prepared)) [''sh''] u \<noteq> None" for v u
  proof
    assume n: "launch_cage fine_os (pwdb fine_world u) (grdb fine_world u) True True v env (Some (cf_currentdir sh_prepared)) [''sh''] u = None"
    have "\<exists>x :: (int + unit) \<times> pst. child_run fine_world v env sh_prepared u = Some x"
      by (rule child_run_ends [OF e(2)]) (simp_all add: c has_command_def is_dash_def)
    then show False using n by (simp add: child_run_def f c)
  qed
  then have l: "(launch_cage fine_os (w_passwd fine_world tr) (w_group fine_world tr) True True v env
      (Some (cf_currentdir sh_prepared)) [''sh''] (tr, ch) = None) = False" for v tr ch
    by (metis fst_conv)
  have "\<exists>r. reuse_child fine_world sh_prepared 1000 None u = Some r" for u :: pst
    by (auto simp: l reuse_child_def psys_eq f c reuse_setup_env_def e(1) child_gui_env_only_def quit_def
        split: option.splits)
  then show ?thesis using t
    by (simp add: spawn_existing_def f c psys_eq child_fork_def fine_os_def ret_def)
qed

lemma joined_command_confined_witness:
  "\<exists>res s' ext. spawn_existing fine_world sh_prepared 42 1000 ([], io_cache0) = Some (res, s') \<and> fst s' = ext \<and>
     (no_exec ext \<or> (\<exists>c. res = Inl c) \<and> joined_run 42 ext)"
proof -
  obtain res s' where r: "spawn_existing fine_world sh_prepared 42 1000 ([], io_cache0) = Some (res, s')"
    using join_ends by blast
  show ?thesis using joined_command_confined [OF r] r by auto
qed

section \<open>A world with a running instance\<close>

text \<open>
  An instance runs as process 42.  \<open>fork\<close> answers \<open>child\<close>, and the command started there exits with 7.
\<close>

definition joined_os :: "int \<Rightarrow> os" where
  "joined_os child tr c =
     (case c of
        Fork \<Rightarrow> ret child
      | Waitpid p \<Rightarrow> (ret child)\<lparr>a_stat := \<lparr>st_uid = 0, st_gid = 0, st_mode = 1792, st_size = 0, st_dev = 0\<rparr>\<rparr>
      | Read f n \<Rightarrow> (ret 2)\<lparr>a_data := map byte_of ''42''\<rparr>
      | _ \<Rightarrow> fine_os tr c)"

definition joined_world :: "int \<Rightarrow> world" where
  "joined_world child = fine_world\<lparr>w_os := joined_os child, w_files := running_42\<rparr>"

lemma joined_world_sel:
  "w_os (joined_world n) = joined_os n" "w_files (joined_world n) = running_42" "w_getenv (joined_world n) = (\<lambda>_. None)"
  by (simp_all add: joined_world_def fine_world_def)

lemma joined_cases:
  "joined_os n tr (Ns c) = fine_os tr (Ns c)" "joined_os n tr (Access p) = fine_os tr (Access p)"
  "joined_os n tr (Open p k) = fine_os tr (Open p k)" "joined_os n tr (Close f) = fine_os tr (Close f)"
  "joined_os n tr (Chdir p) = fine_os tr (Chdir p)" "joined_os n tr Fork = ret n"
  by (simp_all add: joined_os_def)

lemma finds_42: "\<exists>t. detect_existing (joined_os n) running_42 None None (tr, io_cache0) = (42, t)"
proof -
  have p: "pid_joinable (joined_os n) running_42 42 u = (True, snd (psys (joined_os n) (Ns (Kill 42 0)) u))" for u
    using alive_42 by (simp add: pid_joinable_def pidexists_def psys_eq joined_cases)
  have "cached io_cache0 q = None" for q by (simp add: cached_None io_cache0_def)
  then have e: "\<exists>c. io_exists_at (joined_os n) q (tr, io_cache0) = (0, c)" for q
    by (simp add: io_exists_at_def lookup_cached psys_eq joined_cases io_exists_def access_class_def)
  have r: "\<exists>f v. readpid (joined_os n) q u = ((42, f), v)" for q u
    by (simp add: readpid_def psys_eq joined_cases joined_os_def ret_def pid_42 [simplified] Let_def)
  obtain c where c: "io_exists_at (joined_os n) (resolve_pidfile None None) (tr, io_cache0) = (0, c)" using e by blast
  obtain f v where "readpid (joined_os n) (resolve_pidfile None None) c = ((42, f), v)" using r by blast
  then show ?thesis by (simp add: detect_existing_def c p)
qed

lemma joined_start: "\<exists>t. join_namespaces (joined_os n) 42 s = (0, t)"
  by (rule joins_42) (simp_all add: joined_cases)

text \<open>The whole run, given what joining gives.\<close>

lemma joined_main:
  assumes join: "\<And>u. \<exists>t. spawn_existing (joined_world n) sh_prepared 42 0 u = Some (r, t) \<and> P (fst t)"
    and r: "\<And>k. r = Inr k \<Longrightarrow> 0 \<le> k"
  shows "\<exists>z'. main_cage (joined_world n) sh_argv ((([], io_cache0), mods0), \<lambda>_. None) = Some (r, z') \<and> P (fst (fst (fst z')))"
proof -
  have nofix: "handle_fix (joined_os n) sh_argv s = (-1, s)" for s
    by (simp add: handle_fix_def sh_argv_def)
  have "\<exists>tr. escalate (joined_world n) sh_argv ([], io_cache0) = Some (Inr (0, 0), (tr, io_cache0))"
    by (simp add: escalate_def get_ids_def psys_eq joined_world_sel joined_os_def fine_os_def ret_def
        on_trace_def super_escalate_def drop_saved_ids_def super_fix_def fix_owner_def fix_mode_def sys_def Let_def)
  then obtain tr where e: "escalate (joined_world n) sh_argv ([], io_cache0) = Some (Inr (0, 0), (tr, io_cache0))" by blast
  obtain u where u: "detect_existing (joined_os n) running_42 None None (tr, io_cache0) = (42, u)" using finds_42 by blast
  obtain t where t: "spawn_existing (joined_world n) sh_prepared 42 0 u = Some (r, t)" "P (fst t)" using join by blast
  have c: "cf_name sh_prepared = None" "cf_pidfile sh_prepared = None"
      "\<not> cf_show_help sh_config" "\<not> cf_show_version sh_config" "\<not> cf_kill_mode sh_config"
    by (simp_all add: sh_prepared_def sh_config_def cage_config_init_def)
  have d: "do_spawn (joined_world n) sh_prepared 0 (((tr, io_cache0), m), fs) = Some (r, ((t, m), fs))" for m fs
    using r by (cases r) (auto simp: do_spawn_def joined_world_sel c u t bindx_def)
  show ?thesis using t(2) by (simp add: main_cage_def joined_world_sel nofix e bindx_def sh_run handle_config_exits_def c d)
qed

lemma main_joined:
  "\<exists>z'. main_cage (joined_world 43) sh_argv ((([], io_cache0), mods0), \<lambda>_. None) = Some (Inr 7, z')"
proof -
  have "\<exists>t. spawn_existing (joined_world 43) sh_prepared 42 0 s = Some (Inr 7, t)" for s
  proof -
    let ?s1 = "snd (psys (joined_os 43) (Chdir (''/proc/'' @ dec_int 42 @ ''/root'')) s)"
    obtain t where "join_namespaces (joined_os 43) 42 ?s1 = (0, t)" using joined_start by blast
    then show ?thesis
      by (simp add: spawn_existing_def joined_world_sel psys_eq joined_cases joined_os_def ret_def child_fork_def
          wait_status_def pidwait.simps sh_prepared_def sh_config_def cage_config_init_def exit_code_from_status_def)
  qed
  then show ?thesis using joined_main [of 43 "Inr 7" "\<lambda>_. True"] by simp
qed

end
