(* ===== verification/TraceInv.thy ===== *)
theory TraceInv
  imports MainSpec
begin

text \<open>
  Knowledge about the trace that every part of the program keeps up to the point where the guest's root
  is entered.  The locale \<open>trace_inv\<close> takes a property of traces that only the \<open>special\<close> calls can
  destroy, which are \<open>execve\<close> and entering a namespace of an instance or a new one of process numbers; its lemmas say, function by function and in the order of the sources, that it is kept by
  everything the launcher and the child do before a command of the guest is executed, whatever the
  system answers, but for the few steps that enter such a namespace.  Its extension \<open>entry_inv\<close> is for
  properties that only \<open>execve\<close> can destroy, and adds those steps.  A result that may be missing is treated by \<open>pred_option\<close>: if there is one, the
  property holds of its trace.  Programs found through \<^verbatim>\<open>PATH\<close>, which are \<^verbatim>\<open>sudo\<close>, the
  program itself and the filters for compressed modules, go through \<open>execvp\<close> and are not concerned.
\<close>

section \<open>Rules for results that may be missing\<close>

named_theorems keeps \<open>operations that keep what is known of the trace\<close>

fun is_execve :: "syscall \<Rightarrow> bool" where
  "is_execve (Execve p a e) = True"
| "is_execve c = False"

text \<open>
  The calls that are treated on their own: \<open>execve\<close>, and the ones that enter a namespace of process
  numbers, a new one (0x28000000 has that flag and the one of System V IPC) or an instance's.
\<close>

fun special :: "syscall \<Rightarrow> bool" where
  "special (Execve p a e) = True"
| "special (Ns (Unshare n)) = (n = 0x28000000)"
| "special (Ns (Setns f n)) = True"
| "special c = False"

lemma special_execve: "\<not> special c \<Longrightarrow> \<not> is_execve c"
  by (cases c) simp_all

lemmas clone_flags = CLONE_NEWNS_def CLONE_NEWCGROUP_def CLONE_NEWNET_def CLONE_NEWUTS_def

text \<open>The policies of the file system's and the network's operations.\<close>

interpretation plain_calls: call_policy "\<lambda>c. \<not> special c"
  by unfold_locales (erule fs_callE, simp_all)

interpretation plain_net: net_policy "\<lambda>c. \<not> special c"
  by unfold_locales (erule net_callE, simp_all)

lemma pred_case:
  "pred_option P m \<Longrightarrow> (\<And>x. P x \<Longrightarrow> pred_option Q (f x)) \<Longrightarrow>
   pred_option Q (case m of None \<Rightarrow> None | Some x \<Rightarrow> f x)"
  by (cases m) auto

lemma pure_case:
  "pred_option Q a \<Longrightarrow> (\<And>x. pred_option Q (f x)) \<Longrightarrow> pred_option Q (case m of None \<Rightarrow> a | Some x \<Rightarrow> f x)"
  by (cases m) auto

lemma pure_map: "(\<And>x. Q (f x)) \<Longrightarrow> pred_option Q (map_option f m)"
  by (cases m) auto

lemma pred_steps:
  "(c \<Longrightarrow> pred_option Q m) \<Longrightarrow> (\<not> c \<Longrightarrow> pred_option Q n) \<Longrightarrow> pred_option Q (if c then m else n)"
  "Q x \<Longrightarrow> pred_option Q (Some x)"
  by simp_all

lemma pure_bind: "(\<And>x. pred_option Q (f x)) \<Longrightarrow> pred_option Q (Option.bind m f)"
  by (cases m) auto

lemma pred_bind: "pred_option P m \<Longrightarrow> (\<And>x. P x \<Longrightarrow> pred_option Q (f x)) \<Longrightarrow> pred_option Q (Option.bind m f)"
  by (cases m) auto

lemma pred_map: "pred_option P m \<Longrightarrow> (\<And>x. P x \<Longrightarrow> Q (f x)) \<Longrightarrow> pred_option Q (map_option f m)"
  by (cases m) auto

lemma pred_bindx:
  "pred_option (\<lambda>x. K (snd x)) m \<Longrightarrow> (\<And>a t. K t \<Longrightarrow> pred_option (\<lambda>x. K (snd x)) (f a t)) \<Longrightarrow>
   pred_option (\<lambda>x. K (snd x)) (bindx m f)"
  by (auto simp: bindx_def split: option.splits sum.splits prod.splits)

section \<open>What every part keeps\<close>

locale trace_inv =
  fixes J :: "trace \<Rightarrow> bool"
  assumes extend: "J tr \<Longrightarrow> \<not> special c \<Longrightarrow> J (tr @ [(c, a)])"
begin

lemma sys_keeps [keeps]: "J tr \<Longrightarrow> \<not> special c \<Longrightarrow> J (snd (sys os c tr))"
  by (simp add: sys_def Let_def extend)

lemma psys_keeps [keeps]: "J (fst s) \<Longrightarrow> \<not> special c \<Longrightarrow> J (fst (snd (psys os c s)))"
  by (simp add: psys_eq extend)

lemma extend_all: "J tr \<Longrightarrow> list_all (\<lambda>c. \<not> special c) (calls ext) \<Longrightarrow> J (tr @ ext)"
proof (induction ext arbitrary: tr)
  case (Cons x ext)
  have "J (tr @ [x])" using extend [of tr "fst x" "snd x"] Cons.prems by (simp add: calls_def)
  from Cons.IH [OF this] show ?case using Cons.prems by (simp add: calls_def)
qed simp

lemma extend_list [keeps]: "J tr \<Longrightarrow> list_all (\<lambda>x. \<not> special (fst x)) ext \<Longrightarrow> J (tr @ ext)"
  by (rule extend_all) (simp_all add: calls_def list_all_iff)

lemma adds_keep: "adds P s t \<Longrightarrow> (\<And>c. P c \<Longrightarrow> \<not> special c) \<Longrightarrow> J (fst s) \<Longrightarrow> J (fst t)"
  unfolding adds_def by (metis (mono_tags, lifting) extend_all list.pred_mono_strong)

lemma tadds_keep: "tadds P tr tr' \<Longrightarrow> (\<And>c. P c \<Longrightarrow> \<not> special c) \<Longrightarrow> J tr \<Longrightarrow> J tr'"
  unfolding tadds_def by (metis (mono_tags, lifting) extend_all list.pred_mono_strong)

lemma xadds_keep:
  "xadds P s m \<Longrightarrow> (\<And>c. P c \<Longrightarrow> \<not> special c) \<Longrightarrow> J (fst s) \<Longrightarrow> pred_option (\<lambda>x. J (fst (snd x))) m"
  unfolding xadds_def by (cases m) (auto intro: adds_keep)

lemma taddo_keep: "taddo P tr m \<Longrightarrow> (\<And>c. P c \<Longrightarrow> \<not> special c) \<Longrightarrow> J tr \<Longrightarrow> pred_option (\<lambda>x. J (snd x)) m"
  unfolding taddo_def by (cases m) (auto intro: tadds_keep)

lemma tr_fst_keeps [keeps]: "J (snd (f (fst s))) \<Longrightarrow> J (fst (snd (tr_fst f s)))"
  by (simp add: tr_fst_def split_def Let_def)

lemma at_fd_keeps [keeps]: "J (snd (f (fst s))) \<Longrightarrow> J (fst (snd (at_fd f s)))"
  by (simp add: at_fd_def split_def Let_def)

lemma mcall_keeps [keeps]: "J (fst (fst x)) \<Longrightarrow> \<not> special c \<Longrightarrow> J (fst (fst (snd (mcall os c x))))"
  by (simp add: mcall_def Let_def split_def keeps)

lemma fcall_keeps [keeps]: "J (fst (fst (fst x))) \<Longrightarrow> \<not> special c \<Longrightarrow> J (fst (fst (fst (snd (fcall os c x)))))"
  by (simp add: fcall_def Let_def split_def keeps)

lemma on_trace_keeps: "pred_option (\<lambda>x. J (snd x)) (f (fst s)) \<Longrightarrow> pred_option (\<lambda>x. J (fst (snd x))) (on_trace f s)"
  by (auto simp: on_trace_def option.pred_map o_def split_def elim: option.pred_mono_strong)

lemma quit_keeps [keeps]: "J (fst s) \<Longrightarrow> pred_option (\<lambda>x. J (fst (snd x))) (quit w c s)"
  by (simp add: quit_def psys_eq keeps)

lemma rmtree_keeps [keeps]: "J (fst s) \<Longrightarrow> J (fst (snd (io_rmtree os p s)))"
proof -
  assume "J (fst s)"
  obtain ext where "fst (snd (io_rmtree os p s)) = fst s @ ext" "rm_trace p ext"
    using rmtree_extends(1) [unfolded rm_extends_def, OF in_tree_refl] by blast
  moreover have "rm_call p c \<Longrightarrow> \<not> special c" for c by (erule rm_callE) simp_all
  ultimately show ?thesis using \<open>J (fst s)\<close> by (auto simp: rm_trace_def list_all_iff intro!: extend_all)
qed

text \<open>The operations of the policies that are interpreted for the calls that execute nothing.\<close>

lemma nl_open_keeps [keeps]: "J tr \<Longrightarrow> J (snd (nl_open os pr tr))"
  by (auto simp: nl_open_def sys_def Let_def split_def keeps)

lemma net_keeps [keeps]:
  assumes "J tr"
  shows "J (snd (netlink_open os tr))" "J (netlink_close os fd tr)" "J (snd (netlink_send os fd m tr))"
    "J (snd (snd (netlink_recv os fd n tr)))" "J (snd (nl_transact os fd cap fb tr))"
    "pred_option (\<lambda>x. J (snd x)) (link_dump_find os fd p junk tr)" "pred_option (\<lambda>x. J (snd x)) (net_setup_child os i junk tr)"
  using assms
  by (blast intro: tadds_keep [OF plain_net.open_adds] tadds_keep [OF plain_net.close_adds]
      tadds_keep [OF plain_net.send_adds] tadds_keep [OF plain_net.recv_adds]
      tadds_keep [OF plain_net.transact_adds] taddo_keep [OF plain_net.find_adds]
      taddo_keep [OF plain_net.setup_child_adds])+

lemma io_keeps [keeps]:
  assumes "J (fst s)"
  shows "J (fst (snd (io_exists_at os p s)))" "J (fst (snd (io_isdir os p s)))" "J (fst (snd (io_islink os p s)))"
    "J (fst (snd (io_unlink os p s)))" "J (fst (snd (io_unlink_quiet os p s)))" "J (fst (snd (io_mkdir os p s)))"
    "J (fst (snd (io_mkdir_own os p u g m s)))" "J (fst (snd (io_mkdtmp os p b s)))"
    "J (fst (snd (io_symlink os p q s)))" "J (fst (snd (io_touch os p s)))"
  using assms
  by (blast intro: adds_keep [OF plain_calls.exists_adds] adds_keep [OF plain_calls.isdir_adds] adds_keep [OF plain_calls.islink_adds]
      adds_keep [OF plain_calls.unlink_adds] adds_keep [OF plain_calls.unlink_quiet_adds] adds_keep [OF plain_calls.mkdir_adds(1)]
      adds_keep [OF plain_calls.mkdir_own_adds] adds_keep [OF plain_calls.mkdtmp_adds] adds_keep [OF plain_calls.symlink_adds]
      adds_keep [OF plain_calls.touch_adds])+

lemma invalidate_keeps [keeps]: "J (fst s) \<Longrightarrow> J (fst (invalidate p s))"
  by (simp add: invalidate_def)

text \<open>Where a run goes on after a part that may not end; a state is read off its result by the type.\<close>

lemmas cases_keep =
  pred_case [where P = "\<lambda>x. J (snd x)"] pred_case [where P = "\<lambda>x. J (fst (snd x))"]
  pred_case [where P = "\<lambda>x. J (fst (fst (snd x)))"] pred_case [where P = "\<lambda>x. J (fst (fst (fst (snd x))))"]
  pred_case [where P = "\<lambda>x. J (fst x)"] pred_case [where P = "\<lambda>x. J (snd (snd (snd x)))"]
  pred_map [where P = "\<lambda>x. J (snd x)"] pred_map [where P = "\<lambda>x. J (fst (snd x))"]
  pred_map [where P = "\<lambda>x. J (fst (fst (snd x)))"] pred_map [where P = "\<lambda>x. J (fst x)"]
  on_trace_keeps

text \<open>Netlink.\<close>

lemma netfilter_open_keeps [keeps]: "J tr \<Longrightarrow> J (snd (netfilter_open os tr))"
  by (auto simp: netfilter_open_def Let_def split_def keeps intro!: cases_keep)

lemma netlink_recv_flags_keeps [keeps]: "J tr \<Longrightarrow> J (snd (snd (netlink_recv_flags os n k c tr)))"
  by (auto simp: netlink_recv_flags_def Let_def split_def keeps intro!: cases_keep)

lemma netlink_recv_nb_keeps [keeps]: "J tr \<Longrightarrow> J (snd (snd (netlink_recv_nb os n k tr)))"
  by (auto simp: netlink_recv_nb_def Let_def split_def keeps intro!: cases_keep)

lemma recv_dump_loop_keeps [keeps]:
  "J tr \<Longrightarrow> pred_option (\<lambda>x. J (snd (snd (snd x)))) (recv_dump_loop os n k b k2 tr)"
  using plain_net.recv_dump_adds [of os n k b k2 tr]
  by (cases "recv_dump_loop os n k b k2 tr") (auto intro: tadds_keep)

lemma netlink_recv_dump_keeps [keeps]:
  "J tr \<Longrightarrow> pred_option (\<lambda>x. J (snd (snd (snd x)))) (netlink_recv_dump os n k b tr)"
  by (auto simp: netlink_recv_dump_def Let_def split_def keeps intro!: cases_keep)

lemma netlink_send_ack_keeps [keeps]: "J tr \<Longrightarrow> J (snd (netlink_send_ack os n b tr))"
  by (auto simp: netlink_send_ack_def Let_def split_def keeps intro!: cases_keep)

text \<open>Links.\<close>

lemma netlink_dump_find_ifname_keeps [keeps]:
  "J tr \<Longrightarrow> pred_option (\<lambda>x. J (snd x)) (netlink_dump_find_ifname os n p b tr)"
  by (auto simp: netlink_dump_find_ifname_def Let_def split_def keeps intro!: cases_keep pure_case [where m = "netlink_find_ifname _ _ _"])

lemma netlink_create_veth_keeps [keeps]:
  "J tr \<Longrightarrow> pred_option (\<lambda>x. J (snd x)) (netlink_create_veth os n p p2 n2 b tr)"
  by (auto simp: netlink_create_veth_def Let_def split_def keeps intro!: cases_keep)

lemma dump_all_keeps [keeps]:
  "J tr \<Longrightarrow> pred_option (\<lambda>x. J (snd (snd (snd x)))) (dump_all os n b k tr)"
  by (auto simp: dump_all_def Let_def split_def keeps intro!: cases_keep)

text \<open>Numbers of links.\<close>

lemma netlink_alloc_veth_id_keeps [keeps]:
  "J tr \<Longrightarrow> pred_option (\<lambda>x. J (snd x)) (netlink_alloc_veth_id os n p b tr)"
  by (auto simp: netlink_alloc_veth_id_def Let_def split_def keeps intro!: cases_keep pure_case [where m = "netlink_lowest_free_veth_id _ _ _"])

text \<open>The NAT rule.\<close>

lemma nft_drain_rest_keeps [keeps]:
  "J tr \<Longrightarrow> pred_option (\<lambda>x. J (snd x)) (nft_drain_rest os n n2 tr)"
proof -
  have "J (tr) \<longrightarrow> J (snd x)" if "nft_drain_rest os n n2 tr = Some x" for os n n2 tr x
  proof (rule nft_drain_rest.raw_induct [OF _ that], rule impI)
    fix run os n n2 tr x
    assume IH: "\<And>os n n2 tr x. run os n n2 tr = Some x \<Longrightarrow> J (tr) \<longrightarrow> J (snd x)" and j: "J (tr)"
      and e: "(let (r, ack, tr) = netlink_recv_nb os n 4096 tr in
        if r = 0 then let e = nft_ack_errno ack (length ack) in run os n (if e \<noteq> 0 \<and> n2 = 0 then e else n2) tr
        else Some (n2, tr)) = Some x"
    have k: "J (tr) \<Longrightarrow> pred_option (\<lambda>x. J (snd x)) (run os n n2 tr)" for os n n2 tr
      using IH by (cases "run os n n2 tr") auto
    have "pred_option (\<lambda>x. J (snd x)) (Some x)" unfolding e [symmetric] using j by (auto simp: Let_def split_def keeps k intro!: cases_keep)
    then show "J (snd x)" by simp
  qed
  then show "J (tr) \<Longrightarrow> ?thesis" by (cases "nft_drain_rest os n n2 tr") auto
qed

lemma nft_recv_ack_keeps [keeps]: "J tr \<Longrightarrow> pred_option (\<lambda>x. J (snd x)) (nft_recv_ack os n tr)"
  by (auto simp: nft_recv_ack_def Let_def split_def keeps intro!: cases_keep)

lemma nft_batch_flush_keeps [keeps]:
  "J tr \<Longrightarrow> pred_option (\<lambda>x. J (snd x)) (nft_batch_flush os n b tr)"
  by (auto simp: nft_batch_flush_def Let_def split_def keeps intro!: cases_keep)

lemma nft_setup_family_keeps [keeps]:
  "J tr \<Longrightarrow> pred_option (\<lambda>x. J (snd x)) (nft_setup_family os y b tr)"
  by (auto simp: nft_setup_family_def Let_def split_def keeps intro!: cases_keep pure_case [where m = "fst (netfilter_open _ _)"])

lemma net_setup_nat_keeps [keeps]:
  "J tr \<Longrightarrow> pred_option (\<lambda>x. J (snd x)) (net_setup_nat os b tr)"
  by (auto simp: net_setup_nat_def Let_def split_def keeps intro!: cases_keep)

lemma net_setup_nat6_keeps [keeps]:
  "J tr \<Longrightarrow> pred_option (\<lambda>x. J (snd x)) (net_setup_nat6 os b tr)"
  by (auto simp: net_setup_nat6_def Let_def split_def keeps intro!: cases_keep)

text \<open>The switches under \<^verbatim>\<open>/proc/sys\<close>.\<close>

lemma write_str_keeps [keeps]: "J tr \<Longrightarrow> J (snd (write_str os p p2 tr))"
  by (auto simp: write_str_def Let_def split_def keeps intro!: cases_keep)

lemma write_one_keeps [keeps]: "J tr \<Longrightarrow> J (snd (write_one os p tr))"
  by (auto simp: write_one_def Let_def split_def keeps intro!: cases_keep)

lemma net_enable_ip_forward_keeps [keeps]: "J tr \<Longrightarrow> J (snd (net_enable_ip_forward os tr))"
  by (auto simp: net_enable_ip_forward_def Let_def split_def keeps intro!: cases_keep)

lemma raise_accept_ra_keeps [keeps]: "J tr \<Longrightarrow> J (snd (raise_accept_ra os p tr))"
  by (auto simp: raise_accept_ra_def Let_def split_def keeps intro!: cases_keep)

lemma raise_all_accept_ra_keeps [keeps]: "J tr \<Longrightarrow> J (snd (raise_all_accept_ra os ps tr))"
  by (induction ps arbitrary: tr) (auto simp: Let_def split_def keeps intro!: cases_keep)

lemma legacy_ip6_forward_keeps [keeps]: "J tr \<Longrightarrow> J (legacy_ip6_forward os tr)"
  by (auto simp: legacy_ip6_forward_def Let_def split_def keeps intro!: cases_keep)

lemma force_forward_existing_keeps [keeps]: "J tr \<Longrightarrow> J (force_forward_existing os ps tr)"
  by (induction ps arbitrary: tr) (auto simp: Let_def split_def keeps intro!: cases_keep)

lemma net_enable_ip6_forward_keeps [keeps]: "J tr \<Longrightarrow> J (snd (net_enable_ip6_forward os tr))"
  by (auto simp: net_enable_ip6_forward_def Let_def split_def keeps intro!: cases_keep)

text \<open>Directory-relative operations.\<close>

lemma open_component_nofollow_keeps [keeps]: "J tr \<Longrightarrow> J (snd (open_component_nofollow os n p tr))"
  by (auto simp: open_component_nofollow_def Let_def split_def keeps intro!: cases_keep)

lemma create_dir_component_keeps [keeps]: "J tr \<Longrightarrow> J (snd (create_dir_component os n p ow tr))"
  by (auto simp: create_dir_component_def Let_def split_def keeps intro!: cases_keep)

lemma ensure_dir_component_keeps [keeps]: "J tr \<Longrightarrow> J (snd (ensure_dir_component os n p ow tr))"
  by (auto simp: ensure_dir_component_def Let_def split_def keeps intro!: cases_keep)

lemma release_parent_keeps [keeps]: "J tr \<Longrightarrow> J (release_parent os n n2 tr)"
  by (auto simp: release_parent_def Let_def split_def keeps intro!: cases_keep)

lemma descend_loop_keeps [keeps]: "J tr \<Longrightarrow> J (snd (snd (descend_loop os n ow p n2 tr)))"
proof (induction os n ow p n2 tr rule: descend_loop.induct)
  case (1 os n ow p n2 tr)
  then show ?case
    by (subst descend_loop.simps) (auto simp: Let_def split_def keeps split: prod.splits)
qed

lemma descend_components_keeps [keeps]: "J tr \<Longrightarrow> J (snd (snd (descend_components os n p ow tr)))"
  by (auto simp: descend_components_def Let_def split_def keeps intro!: cases_keep)

lemma chown_leaf_keeps [keeps]: "J tr \<Longrightarrow> J (snd (chown_leaf os n p u u2 tr))"
  by (auto simp: chown_leaf_def Let_def split_def keeps intro!: cases_keep)

lemma mkdir_leaf_keeps [keeps]: "J tr \<Longrightarrow> J (snd (mkdir_leaf os n p ow k tr))"
  by (auto simp: mkdir_leaf_def Let_def split_def keeps intro!: cases_keep)

lemma io_mkdir_own_at_keeps [keeps]: "J tr \<Longrightarrow> J (snd (io_mkdir_own_at os n p u u2 k tr))"
  by (auto simp: io_mkdir_own_at_def Let_def split_def keeps intro!: cases_keep)

lemma io_mkdir_parents_at_keeps [keeps]: "J tr \<Longrightarrow> J (snd (io_mkdir_parents_at os n p u u2 k tr))"
  by (auto simp: io_mkdir_parents_at_def Let_def split_def keeps intro!: cases_keep)

lemma io_touch_at_keeps [keeps]: "J tr \<Longrightarrow> J (snd (io_touch_at os n p u u2 tr))"
  by (auto simp: io_touch_at_def Let_def split_def keeps intro!: cases_keep)

text \<open>Becoming root.\<close>

lemma fix_owner_keeps [keeps]: "J tr \<Longrightarrow> J (snd (fix_owner os st tr))"
  by (auto simp: fix_owner_def Let_def split_def keeps intro!: cases_keep)

lemma fix_mode_keeps [keeps]: "J tr \<Longrightarrow> J (snd (fix_mode os st tr))"
  by (auto simp: fix_mode_def Let_def split_def keeps intro!: cases_keep)

lemma super_fix_keeps [keeps]: "J tr \<Longrightarrow> J (snd (super_fix os tr))"
  by (auto simp: super_fix_def Let_def split_def keeps intro!: cases_keep)

lemma close_std_fds_keeps [keeps]: "J tr \<Longrightarrow> J (close_std_fds os tr)"
  by (auto simp: close_std_fds_def Let_def split_def keeps intro!: cases_keep)

lemma wait_exit_ok_keeps [keeps]: "J tr \<Longrightarrow> pred_option (\<lambda>x. J (snd x)) (wait_exit_ok os n tr)"
proof -
  have "J (tr) \<longrightarrow> J (snd x)" if "wait_exit_ok os n tr = Some x" for os n tr x
  proof (rule wait_exit_ok.raw_induct [OF _ that], rule impI)
    fix run os n tr x
    assume IH: "\<And>os n tr x. run os n tr = Some x \<Longrightarrow> J (tr) \<longrightarrow> J (snd x)" and j: "J (tr)"
      and e: "(let (a, tr) = sys os (Waitpid n) tr in
        if a_ret a < 0 \<and> a_errno a = EINTR then run os n tr
        else let status = st_mode (a_stat a) in
          Some (if a_ret a < 0 \<or> status mod 128 \<noteq> 0 \<or> status div 256 mod 256 \<noteq> 0 then -1 else 0, tr)) = Some x"
    have k: "J (tr) \<Longrightarrow> pred_option (\<lambda>x. J (snd x)) (run os n tr)" for os n tr
      using IH by (cases "run os n tr") auto
    have "pred_option (\<lambda>x. J (snd x)) (Some x)" unfolding e [symmetric] using j by (auto simp: Let_def split_def keeps k intro!: cases_keep)
    then show "J (snd x)" by simp
  qed
  then show "J (tr) \<Longrightarrow> ?thesis" by (cases "wait_exit_ok os n tr") auto
qed

lemma try_sudo_reexec_keeps [keeps]:
  "J tr \<Longrightarrow> pred_option (\<lambda>x. J (snd x)) (try_sudo_reexec os ps tr)"
  by (auto simp: try_sudo_reexec_def Let_def split_def keeps intro!: cases_keep)

lemma is_suid_binary_keeps [keeps]: "J tr \<Longrightarrow> J (snd (is_suid_binary os tr))"
  by (auto simp: is_suid_binary_def Let_def split_def keeps intro!: cases_keep)

lemma drop_saved_ids_keeps [keeps]: "J tr \<Longrightarrow> J (snd (drop_saved_ids os u u2 u3 tr))"
  by (auto simp: drop_saved_ids_def Let_def split_def keeps intro!: cases_keep)

lemma super_escalate_keeps [keeps]:
  "J tr \<Longrightarrow> pred_option (\<lambda>x. J (snd x)) (super_escalate os ps u u2 u3 u4 tr)"
  by (auto simp: super_escalate_def Let_def split_def keeps intro!: cases_keep)

text \<open>The running instance.\<close>

lemma ensure_dir_pid_keeps [keeps]: "J (fst s) \<Longrightarrow> J (fst (snd (ensure_dir_pid os p s)))"
  by (auto simp: ensure_dir_pid_def Let_def split_def keeps intro!: cases_keep)

lemma open_and_lock_keeps [keeps]: "J (fst s) \<Longrightarrow> J (fst (snd (open_and_lock os p s)))"
  by (auto simp: open_and_lock_def Let_def split_def keeps intro!: cases_keep)

lemma create_pidfile_keeps [keeps]: "J (fst s) \<Longrightarrow> J (fst (snd (create_pidfile os p s)))"
  by (auto simp: create_pidfile_def Let_def split_def keeps intro!: cases_keep split: option.split list.split)

lemma readpid_keeps [keeps]: "J (fst s) \<Longrightarrow> J (fst (snd (readpid os p s)))"
  by (auto simp: readpid_def Let_def split_def keeps intro!: cases_keep)

lemma close_pid_keeps [keeps]: "J (fst s) \<Longrightarrow> J (fst (close_pid os n s))"
  by (auto simp: close_pid_def Let_def split_def keeps intro!: cases_keep)

lemma pidwait_keeps [keeps]:
  "J (fst s) \<Longrightarrow> pred_option (\<lambda>x. J (fst (snd x))) (pidwait os n k s)"
  by (rule xadds_keep [OF pidwait_waits [of "\<lambda>c. \<not> special c"]]) simp_all

lemma pidexists_keeps [keeps]: "J (fst s) \<Longrightarrow> J (fst (snd (pidexists os n s)))"
  by (auto simp: pidexists_def Let_def split_def keeps intro!: cases_keep)

lemma poll_exit_keeps [keeps]: "J (fst s) \<Longrightarrow> J (fst (snd (poll_exit os n k s)))"
  by (induction k arbitrary: s) (auto simp: Let_def split_def keeps intro!: cases_keep)

lemma waitpid_graceful_keeps [keeps]:
  "J (fst s) \<Longrightarrow> pred_option (\<lambda>x. J (fst (snd x))) (waitpid_graceful os n s)"
  by (auto simp: waitpid_graceful_def Let_def split_def keeps intro!: cases_keep split: option.split list.split)

lemma kill_gracefully_keeps [keeps]:
  "J (fst s) \<Longrightarrow> pred_option (\<lambda>x. J (fst (snd x))) (kill_gracefully os n s)"
  by (auto simp: kill_gracefully_def Let_def split_def keeps intro!: cases_keep)

lemma pid_joinable_keeps [keeps]: "J (fst s) \<Longrightarrow> J (fst (snd (pid_joinable os files n s)))"
  by (auto simp: pid_joinable_def Let_def split_def keeps intro!: cases_keep)

lemma stop_target_keeps [keeps]:
  "J (fst s) \<Longrightarrow> pred_option (\<lambda>x. J (fst (snd x))) (stop_target os files n s)"
  by (auto simp: stop_target_def Let_def split_def keeps intro!: cases_keep)

lemma kill_pidfile_keeps [keeps]:
  "J (fst s) \<Longrightarrow> pred_option (\<lambda>x. J (fst (snd x))) (kill_pidfile os files p s)"
  by (auto simp: kill_pidfile_def Let_def split_def keeps intro!: cases_keep)

lemma killpid_keeps [keeps]:
  "J (fst s) \<Longrightarrow> pred_option (\<lambda>x. J (fst (snd x))) (killpid os files po po2 s)"
  by (auto simp: killpid_def Let_def split_def keeps intro!: cases_keep)

lemma detect_existing_keeps [keeps]: "J (fst s) \<Longrightarrow> J (fst (snd (detect_existing os files po po2 s)))"
  by (auto simp: detect_existing_def Let_def split_def keeps intro!: cases_keep)

text \<open>Socket access lists.\<close>

lemma sys_open_rdonly_keeps [keeps]: "J (fst s) \<Longrightarrow> J (fst (snd (sys_open_rdonly os p c s)))"
  by (auto simp: sys_open_rdonly_def Let_def split_def keeps intro!: cases_keep)

lemma fd_setxattr_keeps [keeps]: "J (fst s) \<Longrightarrow> J (fst (snd (fd_setxattr os n p b s)))"
  by (auto simp: fd_setxattr_def Let_def split_def keeps intro!: cases_keep)

lemma acl_set_fd_keeps [keeps]: "J (fst s) \<Longrightarrow> J (fst (snd (acl_set_fd os n u u2 us s)))"
  by (auto simp: acl_set_fd_def Let_def split_def keeps intro!: cases_keep)

lemma acl_set_keeps [keeps]: "J (fst s) \<Longrightarrow> J (fst (snd (acl_set os p u u2 us s)))"
  by (auto simp: acl_set_def Let_def split_def keeps intro!: cases_keep)

lemma acl_guest_set_keeps [keeps]: "J (fst s) \<Longrightarrow> J (fst (snd (acl_guest_set os p u u2 us s)))"
  by (auto simp: acl_guest_set_def Let_def split_def keeps intro!: cases_keep)

text \<open>Volumes.\<close>

lemma ensure_host_keeps [keeps]: "J (fst s) \<Longrightarrow> J (fst (snd (ensure_host os p s)))"
  by (auto simp: ensure_host_def Let_def split_def keeps intro!: cases_keep)

lemma create_guest_dir_keeps [keeps]: "J (fst s) \<Longrightarrow> J (fst (snd (create_guest_dir os p s)))"
  by (auto simp: create_guest_dir_def Let_def split_def keeps intro!: cases_keep)

lemma create_guest_file_keeps [keeps]: "J (fst s) \<Longrightarrow> J (fst (snd (create_guest_file os p s)))"
  by (auto simp: create_guest_file_def Let_def split_def keeps intro!: cases_keep split: option.split)

lemma mount_bind_private_keeps [keeps]: "J (fst s) \<Longrightarrow> J (fst (snd (mount_bind_private os p p2 s)))"
  by (auto simp: mount_bind_private_def Let_def split_def keeps intro!: cases_keep)

lemma create_guest_keeps [keeps]: "J (fst s) \<Longrightarrow> J (fst (snd (create_guest os p n s)))"
  by (auto simp: create_guest_def Let_def split_def keeps intro!: cases_keep)

lemma mount_user_volume_keeps [keeps]: "J (fst s) \<Longrightarrow> J (fst (snd (mount_user_volume os vol p s)))"
  by (auto simp: mount_user_volume_def Let_def split_def keeps intro!: cases_keep)

text \<open>Files of the guest.\<close>

lemma setup_resolv_write_dns_keeps [keeps]:
  "J (fst s) \<Longrightarrow> J (fst (snd (setup_resolv_write_dns os n s)))"
  by (auto simp: setup_resolv_write_dns_def Let_def split_def keeps intro!: cases_keep)

lemma setup_resolv_file_bind_keeps [keeps]:
  "J (fst s) \<Longrightarrow> J (fst (snd (setup_resolv_file_bind os p s)))"
  by (auto simp: setup_resolv_file_bind_def Let_def split_def keeps intro!: cases_keep)

lemma setup_resolv_bind_keeps [keeps]: "J (fst s) \<Longrightarrow> J (fst (snd (setup_resolv_bind os p s)))"
  by (auto simp: setup_resolv_bind_def Let_def split_def keeps intro!: cases_keep)

lemma handle_nonreg_resolv_keeps [keeps]: "J (fst s) \<Longrightarrow> J (fst (snd (handle_nonreg_resolv os p s)))"
  by (auto simp: handle_nonreg_resolv_def Let_def split_def keeps intro!: cases_keep)

lemma create_resolv_file_keeps [keeps]: "J (fst s) \<Longrightarrow> J (fst (snd (create_resolv_file os p s)))"
  by (auto simp: create_resolv_file_def Let_def split_def keeps intro!: cases_keep split: option.split list.split)

lemma check_or_create_resolv_keeps [keeps]:
  "J (fst s) \<Longrightarrow> J (fst (snd (check_or_create_resolv os files p cfg s)))"
  by (auto simp: check_or_create_resolv_def Let_def split_def keeps intro!: cases_keep)

lemma do_resolv_replace_keeps [keeps]:
  "J (fst s) \<Longrightarrow> J (fst (snd (do_resolv_replace os files p cfg s)))"
  by (auto simp: do_resolv_replace_def Let_def split_def keeps intro!: cases_keep)

lemma setup_resolv_keeps [keeps]: "J (fst s) \<Longrightarrow> J (fst (snd (setup_resolv os files p cfg s)))"
  by (auto simp: setup_resolv_def Let_def split_def keeps intro!: cases_keep)

lemma setup_run_dirs_keeps [keeps]: "J (fst s) \<Longrightarrow> J (fst (snd (setup_run_dirs os p s)))"
  by (auto simp: setup_run_dirs_def Let_def split_def keeps intro!: cases_keep)

lemma setup_devshm_symlink_keeps [keeps]: "J (fst s) \<Longrightarrow> J (fst (snd (setup_devshm_symlink os p s)))"
  by (auto simp: setup_devshm_symlink_def Let_def split_def keeps intro!: cases_keep)

lemma setup_devshm_dir_keeps [keeps]: "J (fst s) \<Longrightarrow> J (fst (snd (setup_devshm_dir os p s)))"
  by (auto simp: setup_devshm_dir_def Let_def split_def keeps intro!: cases_keep)

lemma setup_devshm_keeps [keeps]: "J (fst s) \<Longrightarrow> J (fst (snd (setup_devshm os p s)))"
  by (auto simp: setup_devshm_def Let_def split_def keeps intro!: cases_keep)

lemma mount_misc_keeps [keeps]: "J (fst s) \<Longrightarrow> J (fst (snd (mount_misc os files p cfg s)))"
  by (auto simp: mount_misc_def Let_def split_def keeps intro!: cases_keep)

text \<open>Mounting control groups.\<close>

lemma ensure_dir_cg_keeps [keeps]: "J (fst s) \<Longrightarrow> J (fst (snd (ensure_dir_cg os p s)))"
  by (auto simp: ensure_dir_cg_def Let_def split_def keeps intro!: cases_keep)

lemma mount_cgroup_v2_keeps [keeps]: "J (fst s) \<Longrightarrow> J (fst (snd (mount_cgroup_v2 os p s)))"
  by (auto simp: mount_cgroup_v2_def Let_def split_def keeps intro!: cases_keep)

lemma mount_one_v1_keeps [keeps]: "J (fst s) \<Longrightarrow> J (fst (snd (mount_one_v1 os p p2 s)))"
  by (auto simp: mount_one_v1_def Let_def split_def keeps intro!: cases_keep)

lemma mount_cgroup_tmpfs_keeps [keeps]: "J (fst s) \<Longrightarrow> J (fst (snd (mount_cgroup_tmpfs os p s)))"
  by (auto simp: mount_cgroup_tmpfs_def Let_def split_def keeps intro!: cases_keep)

lemma mount_one_cgroup_v1_keeps [keeps]: "J (fst s) \<Longrightarrow> J (fst (snd (mount_one_cgroup_v1 os p p2 s)))"
  by (auto simp: mount_one_cgroup_v1_def Let_def split_def keeps intro!: cases_keep)

lemma mount_controllers_keeps [keeps]: "J (fst s) \<Longrightarrow> J (fst (snd (mount_controllers os p ps s)))"
  by (induction ps arbitrary: s) (auto simp: Let_def split_def keeps intro!: cases_keep)

lemma mount_cgroup_v1_keeps [keeps]:
  "J (fst s) \<Longrightarrow> pred_option (\<lambda>x. J (fst (snd x))) (mount_cgroup_v1 os files p s)"
  by (auto simp: mount_cgroup_v1_def Let_def split_def keeps intro!: cases_keep split: option.split list.split)

lemma mount_cgroups_keeps [keeps]:
  "J (fst s) \<Longrightarrow> pred_option (\<lambda>x. J (fst (snd x))) (mount_cgroups os files p n s)"
  by (auto simp: mount_cgroups_def Let_def split_def keeps intro!: cases_keep)

text \<open>The guest's mounts.\<close>

lemma ensure_dir_keeps [keeps]: "J (fst s) \<Longrightarrow> J (fst (snd (ensure_dir os p s)))"
  by (auto simp: ensure_dir_def Let_def split_def keeps intro!: cases_keep)

lemma mount_bind_keeps [keeps]: "J (fst s) \<Longrightarrow> J (fst (snd (mount_bind os p p2 p3 s)))"
  by (auto simp: mount_bind_def Let_def split_def keeps intro!: cases_keep)

lemma mount_fs_type_keeps [keeps]: "J (fst s) \<Longrightarrow> J (fst (snd (mount_fs_type os p p2 p3 k po s)))"
  by (auto simp: mount_fs_type_def Let_def split_def keeps intro!: cases_keep)

lemma mount_vols_keeps [keeps]: "J (fst s) \<Longrightarrow> J (fst (snd (mount_vols os p vs s)))"
  by (induction vs arbitrary: s) (auto simp: Let_def split_def keeps intro!: cases_keep)

lemma mount_volumes_keeps [keeps]: "J (fst s) \<Longrightarrow> J (fst (snd (mount_volumes os p cfg s)))"
  by (auto simp: mount_volumes_def Let_def split_def keeps intro!: cases_keep)

lemma mount_dev_keeps [keeps]: "J (fst s) \<Longrightarrow> J (fst (snd (mount_dev os p s)))"
  by (auto simp: mount_dev_def Let_def split_def keeps intro!: cases_keep)

lemma mount_virtual_fses_keeps [keeps]: "J (fst s) \<Longrightarrow> J (fst (snd (mount_virtual_fses os p s)))"
  by (auto simp: mount_virtual_fses_def Let_def split_def keeps intro!: cases_keep)

lemma mount_tmpfses_keeps [keeps]: "J (fst s) \<Longrightarrow> J (fst (snd (mount_tmpfses os p s)))"
  by (auto simp: mount_tmpfses_def Let_def split_def keeps intro!: cases_keep)

lemma mount_all_keeps [keeps]:
  "J (fst s) \<Longrightarrow> pred_option (\<lambda>x. J (fst (snd x))) (mount_all os files p cfg n s)"
  by (auto simp: mount_all_def Let_def split_def keeps intro!: cases_keep pure_case [where m = "read_proc_cgroups _ _"])

text \<open>Control groups.\<close>

lemma write_text_keeps [keeps]: "J (fst s) \<Longrightarrow> J (fst (snd (write_text os p p2 s)))"
  by (auto simp: write_text_def Let_def split_def keeps intro!: cases_keep)

lemma write_pid_keeps [keeps]: "J (fst s) \<Longrightarrow> J (fst (snd (write_pid os p n s)))"
  by (auto simp: write_pid_def Let_def split_def keeps intro!: cases_keep split: option.split list.split)

lemma write_subtree_keeps [keeps]: "J (fst s) \<Longrightarrow> J (fst (snd (write_subtree os p p2 s)))"
  by (auto simp: write_subtree_def Let_def split_def keeps intro!: cases_keep split: option.split list.split)

lemma enable_cgroup_controllers_keeps [keeps]:
  "J (fst s) \<Longrightarrow> J (fst (snd (enable_cgroup_controllers os files p s)))"
  by (auto simp: enable_cgroup_controllers_def Let_def split_def keeps intro!: cases_keep split: option.split list.split)

lemma try_write_subtree_keeps [keeps]: "J (fst s) \<Longrightarrow> J (fst (snd (try_write_subtree os p p2 s)))"
  by (auto simp: try_write_subtree_def Let_def split_def keeps intro!: cases_keep split: option.split list.split)

lemma subtree_attempts_keeps [keeps]: "J (fst s) \<Longrightarrow> J (fst (subtree_attempts os p p2 k s))"
proof (induction "4 - k" arbitrary: k s)
  case 0
  then show ?case by (subst subtree_attempts.simps) simp
next
  case (Suc m)
  have "m = 4 - (k + 1)" using Suc.hyps(2) by simp
  then show ?case using Suc.prems Suc.hyps(1) [of "k + 1"]
    by (subst subtree_attempts.simps) (simp add: Let_def split_def keeps)
qed

lemma write_subtree_value_keeps [keeps]: "J (fst s) \<Longrightarrow> J (fst (write_subtree_value os p p2 s))"
  by (auto simp: write_subtree_value_def Let_def split_def keeps intro!: cases_keep)

lemma write_enable_controllers_keeps [keeps]:
  "J (fst s) \<Longrightarrow> J (fst (snd (write_enable_controllers os files p s)))"
  by (auto simp: write_enable_controllers_def Let_def split_def keeps intro!: cases_keep split: option.split list.split)

lemma check_cgroup_mount_keeps [keeps]: "J (fst s) \<Longrightarrow> J (fst (snd (check_cgroup_mount os s)))"
  by (auto simp: check_cgroup_mount_def Let_def split_def keeps intro!: cases_keep)

lemma cgroup_detect_mount_keeps [keeps]:
  "J (fst s) \<Longrightarrow> J (fst (snd (snd (cgroup_detect_mount os c s))))"
  by (auto simp: cgroup_detect_mount_def clone_flags Let_def split_def keeps intro!: cases_keep)

lemma make_cgroup_dir_keeps [keeps]: "J (fst s) \<Longrightarrow> J (fst (snd (make_cgroup_dir os p n s)))"
  by (auto simp: make_cgroup_dir_def Let_def split_def keeps intro!: cases_keep)

lemma write_procs_keeps [keeps]: "J (fst s) \<Longrightarrow> J (fst (snd (write_procs os p n s)))"
  by (auto simp: write_procs_def Let_def split_def keeps intro!: cases_keep)

lemma cgroup_pre_unshare_at_keeps [keeps]:
  "J (fst s) \<Longrightarrow> J (fst (snd (cgroup_pre_unshare_at os files p n n2 s)))"
  by (auto simp: cgroup_pre_unshare_at_def Let_def split_def keeps intro!: cases_keep split: option.split list.split)

lemma cgroup_pre_unshare_keeps [keeps]:
  "J (fst s) \<Longrightarrow> J (fst (snd (cgroup_pre_unshare os files n n2 s)))"
  by (auto simp: cgroup_pre_unshare_def Let_def split_def keeps intro!: cases_keep)

lemma cgroup_cleanup_keeps [keeps]:
  "J (fst s) \<Longrightarrow> pred_option (\<lambda>x. J (fst x)) (cgroup_cleanup os n n2 s)"
proof (cases "cgroup_cleanup os n n2 s")
  case (Some t)
  have "cleanup_call r n c \<Longrightarrow> \<not> special c" for r c by (cases c) simp_all
  moreover have "adds (cleanup_call ''/sys/fs/cgroup'' n) s t" using cleanup_adds [OF Some [unfolded cgroup_cleanup_def]] by blast
  ultimately show "J (fst s) \<Longrightarrow> ?thesis" using adds_keep Some by auto
qed simp

text \<open>Loading a module.\<close>

lemma finit_module_fd_keeps [keeps]: "J (fst s) \<Longrightarrow> J (fst (snd (finit_module_fd os n k s)))"
  by (auto simp: finit_module_fd_def Let_def split_def keeps intro!: cases_keep)

lemma write_all_keeps [keeps]:
  "J (fst s) \<Longrightarrow> pred_option (\<lambda>x. J (fst (snd x))) (write_all os n b s)"
proof -
  have "J (fst s) \<longrightarrow> J (fst (snd x))" if "write_all os n b s = Some x" for os n b s x
  proof (rule write_all.raw_induct [OF _ that], rule impI)
    fix run os n b s x
    assume IH: "\<And>os n b s x. run os n b s = Some x \<Longrightarrow> J (fst s) \<longrightarrow> J (fst (snd x))" and j: "J (fst s)"
      and e: "(if b = [] then Some (0, s)
        else let (a, s) = psys os (Dev (Write_data n b)) s in
          if a_ret a < 0 then (if a_errno a = EINTR then run os n b s else Some (-1, s))
          else run os n (drop (nat (a_ret a)) b) s) = Some x"
    have k: "J (fst s) \<Longrightarrow> pred_option (\<lambda>x. J (fst (snd x))) (run os n b s)" for os n b s
      using IH by (cases "run os n b s") auto
    have "pred_option (\<lambda>x. J (fst (snd x))) (Some x)" unfolding e [symmetric] using j by (auto simp: Let_def split_def keeps k intro!: cases_keep)
    then show "J (fst (snd x))" by simp
  qed
  then show "J (fst s) \<Longrightarrow> ?thesis" by (cases "write_all os n b s") auto
qed

lemma buf_write_to_fd_keeps [keeps]:
  "J (fst s) \<Longrightarrow> pred_option (\<lambda>x. J (fst (snd x))) (buf_write_to_fd os n b s)"
  by (auto simp: buf_write_to_fd_def Let_def split_def keeps intro!: cases_keep)

lemma decompress_gzip_to_fd_keeps [keeps]:
  "J (fst s) \<Longrightarrow> pred_option (\<lambda>x. J (fst (snd x))) (decompress_gzip_to_fd os files crc p s)"
  by (auto simp: decompress_gzip_to_fd_def Let_def split_def keeps intro!: cases_keep pure_case [where m = "fst (decompress_gzip _ _ _)"])

lemma pipe_to_fd_keeps [keeps]:
  "J (fst s) \<Longrightarrow> pred_option (\<lambda>x. J (fst (snd x))) (pipe_to_fd os n s)"
proof -
  have "J (fst s) \<longrightarrow> J (fst (snd x))" if "pipe_to_fd os n s = Some x" for os n s x
  proof (rule pipe_to_fd.raw_induct [OF _ that], rule impI)
    fix run os n s x
    assume IH: "\<And>os n s x. run os n s = Some x \<Longrightarrow> J (fst s) \<longrightarrow> J (fst (snd x))" and j: "J (fst s)"
      and e: "(let (a, s) = psys os (Dev (Fread 8192)) s in
        if a_data a = [] then Some (0, s)
        else case write_all os n (a_data a) s of None \<Rightarrow> None
          | Some (r, s) \<Rightarrow> if r \<noteq> 0 then Some (-1, s) else run os n s) = Some x"
    have k: "J (fst s) \<Longrightarrow> pred_option (\<lambda>x. J (fst (snd x))) (run os n s)" for os n s
      using IH by (cases "run os n s") auto
    have "pred_option (\<lambda>x. J (fst (snd x))) (Some x)" unfolding e [symmetric] using j by (auto simp: Let_def split_def keeps k intro!: cases_keep)
    then show "J (fst (snd x))" by simp
  qed
  then show "J (fst s) \<Longrightarrow> ?thesis" by (cases "pipe_to_fd os n s") auto
qed

lemma open_read_end_keeps [keeps]: "J (fst s) \<Longrightarrow> J (fst (snd (open_read_end os n n2 s)))"
  by (auto simp: open_read_end_def Let_def split_def keeps intro!: cases_keep)

lemma spawn_filter_keeps [keeps]: "J (fst s) \<Longrightarrow> J (fst (snd (spawn_filter os s)))"
  by (auto simp: spawn_filter_def Let_def split_def keeps intro!: cases_keep)

lemma child_ok_keeps [keeps]: "J (fst s) \<Longrightarrow> J (fst (snd (child_ok os n s)))"
  by (auto simp: child_ok_def Let_def split_def keeps intro!: cases_keep)

lemma decompress_xzstd_to_fd_keeps [keeps]:
  "J (fst s) \<Longrightarrow> pred_option (\<lambda>x. J (fst (snd x))) (decompress_xzstd_to_fd os n s)"
  by (auto simp: decompress_xzstd_to_fd_def Let_def split_def keeps intro!: cases_keep)

lemma open_module_keeps [keeps]: "J (fst s) \<Longrightarrow> J (fst (snd (open_module os p s)))"
  by (auto simp: open_module_def Let_def split_def keeps intro!: cases_keep)

lemma finish_finit_keeps [keeps]: "J (fst s) \<Longrightarrow> J (fst (snd (finish_finit os n s)))"
  by (auto simp: finish_finit_def Let_def split_def keeps intro!: cases_keep)

lemma load_decompressed_keeps [keeps]:
  "J (fst s) \<Longrightarrow> pred_option (\<lambda>x. J (fst (snd x))) (load_decompressed os files crc p n s)"
  by (auto simp: load_decompressed_def Let_def split_def keeps intro!: cases_keep pure_case [where m = "mod_format_by_code _"] pure_case [where m = "mf_filter _"])

lemma load_compressed_module_keeps [keeps]:
  "J (fst s) \<Longrightarrow> pred_option (\<lambda>x. J (fst (snd x))) (load_compressed_module os files crc n p n2 s)"
  by (auto simp: load_compressed_module_def Let_def split_def keeps intro!: cases_keep)

lemma load_module_path_keeps [keeps]:
  "J (fst s) \<Longrightarrow> pred_option (\<lambda>x. J (fst (snd x))) (load_module_path os files crc p s)"
  by (auto simp: load_module_path_def Let_def split_def keeps intro!: cases_keep)

text \<open>Modules and their dependencies.\<close>

lemma load_deps_file_keeps [keeps]: "J (fst (fst s)) \<Longrightarrow> J (fst (fst (snd (load_deps_file files p s))))"
  by (auto simp: load_deps_file_def Let_def split_def keeps intro!: cases_keep)

lemma read_deps_keeps [keeps]: "J (fst (fst s)) \<Longrightarrow> J (fst (fst (snd (read_deps os files s))))"
  by (auto simp: read_deps_def Let_def split_def keeps intro!: cases_keep)

lemma resolve_module_keeps [keeps]:
  "J (fst (fst s)) \<Longrightarrow> J (fst (fst (snd (resolve_module os files p s))))"
  by (auto simp: resolve_module_def Let_def split_def keeps intro!: cases_keep split: option.split list.split)

lemma modprobe_cache_invalidate_keeps [keeps]:
  "J (fst (fst s)) \<Longrightarrow> J (fst (fst (modprobe_cache_invalidate s)))"
  by (auto simp: modprobe_cache_invalidate_def Let_def split_def keeps intro!: cases_keep)

lemma is_loaded_keeps [keeps]: "J (fst (fst s)) \<Longrightarrow> J (fst (fst (snd (is_loaded files p s))))"
  by (auto simp: is_loaded_def Let_def split_def keeps intro!: cases_keep)

lemma is_builtin_keeps [keeps]: "J (fst (fst s)) \<Longrightarrow> J (fst (fst (snd (is_builtin os files p s))))"
  by (auto simp: is_builtin_def Let_def split_def keeps intro!: cases_keep)

lemma check_module_status_keeps [keeps]:
  "J (fst (fst s)) \<Longrightarrow> J (fst (fst (snd (check_module_status os files p s))))"
  by (auto simp: check_module_status_def Let_def split_def keeps intro!: cases_keep)

lemma load_path_keeps [keeps]:
  "J (fst (fst s)) \<Longrightarrow> pred_option (\<lambda>x. J (fst (fst (snd x)))) (load_path os files p s)"
  by (auto simp: load_path_def Let_def split_def keeps intro!: cases_keep split: option.split list.split)

lemma load_dep_keeps [keeps]:
  "J (fst (fst s)) \<Longrightarrow> pred_option (\<lambda>x. J (fst (fst (snd x)))) (load_dep os files p s)"
  by (auto simp: load_dep_def Let_def split_def keeps intro!: cases_keep split: option.split list.split)

lemma load_deps_keeps [keeps]:
  "J (fst (fst s)) \<Longrightarrow> pred_option (\<lambda>x. J (fst (fst (snd x)))) (load_deps os files ps s)"
  by (induction ps arbitrary: s) (auto simp: Let_def split_def keeps intro!: cases_keep)

lemma modprobe_load_keeps [keeps]:
  "J (fst (fst s)) \<Longrightarrow> pred_option (\<lambda>x. J (fst (fst (snd x)))) (modprobe_load os files p s)"
  by (auto simp: modprobe_load_def Let_def split_def keeps intro!: cases_keep pure_case [where m = "fst (resolve_module _ _ _ _)"])

text \<open>The overlay.\<close>

lemma try_mount_overlay_keeps [keeps]:
  "J (fst (fst s)) \<Longrightarrow> pred_option (\<lambda>x. J (fst (fst (snd x)))) (try_mount_overlay os files p p2 s)"
  by (auto simp: try_mount_overlay_def Let_def split_def keeps intro!: cases_keep)

lemma overlay_mount_result_keeps [keeps]:
  "J (fst (fst s)) \<Longrightarrow> J (fst (fst (snd (overlay_mount_result os n p s))))"
  by (auto simp: overlay_mount_result_def Let_def split_def keeps intro!: cases_keep)

lemma prepare_overlay_keeps [keeps]:
  "J (fst (fst s)) \<Longrightarrow> pred_option (\<lambda>x. J (fst (fst (snd x)))) (prepare_overlay os files p d s)"
  by (auto simp: prepare_overlay_def Let_def split_def keeps intro!: cases_keep split: option.split_asm)

text \<open>Loop devices.\<close>

lemma loop_open_control_keeps [keeps]:
  "J (fst (fst s)) \<Longrightarrow> pred_option (\<lambda>x. J (fst (fst (snd x)))) (loop_open_control os files s)"
  by (auto simp: loop_open_control_def Let_def split_def keeps intro!: cases_keep)

lemma loop_control_alloc_keeps [keeps]:
  "J (fst (fst s)) \<Longrightarrow> pred_option (\<lambda>x. J (fst (fst (snd x)))) (loop_control_alloc os files s)"
  by (auto simp: loop_control_alloc_def Let_def split_def keeps intro!: cases_keep)

lemma dev_scan_from_keeps [keeps]: "J (fst (fst s)) \<Longrightarrow> J (fst (fst (snd (dev_scan_from os x s))))"
  by (induction x arbitrary: s) (auto simp: Let_def split_def keeps intro!: cases_keep)

lemma scan_loop_devices_keeps [keeps]:
  "J (fst (fst s)) \<Longrightarrow> J (fst (fst (snd (scan_loop_devices os s))))"
  by (auto simp: scan_loop_devices_def Let_def split_def keeps intro!: cases_keep)

lemma find_free_loop_keeps [keeps]:
  "J (fst (fst s)) \<Longrightarrow> pred_option (\<lambda>x. J (fst (fst (snd x)))) (find_free_loop os files s)"
  by (auto simp: find_free_loop_def Let_def split_def keeps intro!: cases_keep)

lemma loop_set_autoclear_keeps [keeps]:
  "J (fst (fst s)) \<Longrightarrow> J (fst (fst (snd (loop_set_autoclear os n s))))"
  by (auto simp: loop_set_autoclear_def Let_def split_def keeps intro!: cases_keep)

lemma open_rw_keeps [keeps]: "J (fst (fst s)) \<Longrightarrow> J (fst (fst (snd (open_rw os p s))))"
  by (auto simp: open_rw_def Let_def split_def keeps intro!: cases_keep)

lemma io_loop_keeps [keeps]:
  "J (fst (fst s)) \<Longrightarrow> pred_option (\<lambda>x. J (fst (fst (snd x)))) (io_loop os files p s)"
  by (auto simp: io_loop_def Let_def split_def keeps intro!: cases_keep)

text \<open>The loopback image.\<close>

lemma resolve_existing_parent_keeps [keeps]:
  "J (fst s) \<Longrightarrow> J (fst (snd (resolve_existing_parent os p s)))"
proof (induction "length p" arbitrary: p s rule: less_induct)
  case less
  have "length (take k p) < length p" if "strrchr_pos CHR ''/'' p = Some k" for k
    using strrchr_pos_Some [OF that] by simp
  then show ?case using less
    by (subst resolve_existing_parent.simps) (simp add: Let_def split_def keeps split: option.split)
qed

lemma stat_dev_keeps [keeps]: "J (fst s) \<Longrightarrow> J (fst (snd (stat_dev os p p2 s)))"
  by (auto simp: stat_dev_def Let_def split_def keeps intro!: cases_keep)

lemma on_overlayfs_keeps [keeps]: "J (fst s) \<Longrightarrow> J (fst (snd (on_overlayfs os p s)))"
  by (auto simp: on_overlayfs_def Let_def split_def keeps intro!: cases_keep)

lemma needs_loopback_keeps [keeps]: "J (fst s) \<Longrightarrow> J (fst (snd (needs_loopback os p p2 s)))"
  by (auto simp: needs_loopback_def Let_def split_def keeps intro!: cases_keep)

lemma same_fs_detect_keeps [keeps]: "J (fst s) \<Longrightarrow> J (fst (snd (same_fs_detect os p p2 s)))"
  by (auto simp: same_fs_detect_def Let_def split_def keeps intro!: cases_keep)

lemma mkdir_checked_keeps [keeps]: "J (fst s) \<Longrightarrow> J (fst (snd (mkdir_checked os p s)))"
  by (auto simp: mkdir_checked_def Let_def split_def keeps intro!: cases_keep)

lemma unlink_img_keeps [keeps]: "J (fst (fst (fst s))) \<Longrightarrow> J (fst (fst (fst (unlink_img os p s))))"
  by (auto simp: unlink_img_def Let_def split_def keeps intro!: cases_keep)

lemma build_ext4_img_keeps [keeps]:
  "J (fst (fst (fst s))) \<Longrightarrow> J (fst (fst (fst (snd (build_ext4_img os ev p s)))))"
  by (auto simp: build_ext4_img_def Let_def split_def keeps intro!: cases_keep)

lemma setup_ext4_img_keeps [keeps]:
  "J (fst (fst (fst s))) \<Longrightarrow> J (fst (fst (fst (snd (setup_ext4_img os ev p s)))))"
  by (auto simp: setup_ext4_img_def Let_def split_def keeps intro!: cases_keep)

lemma require_real_dir_keeps [keeps]:
  "J (fst (fst s)) \<Longrightarrow> J (fst (fst (snd (require_real_dir os p s))))"
  by (auto simp: require_real_dir_def Let_def split_def keeps intro!: cases_keep)

lemma use_provisioned_loopback_keeps [keeps]:
  "J (fst (fst s)) \<Longrightarrow> J (fst (fst (snd (use_provisioned_loopback os d lp k c s))))"
  by (auto simp: use_provisioned_loopback_def Let_def split_def keeps intro!: cases_keep)

lemma setup_ext4_loopback_keeps [keeps]:
  "J (fst (fst (fst s))) \<Longrightarrow> pred_option (\<lambda>x. J (fst (fst (fst (snd x))))) (setup_ext4_loopback os files ev d lp c s)"
  by (auto simp: setup_ext4_loopback_def Let_def split_def keeps intro!: cases_keep)

lemma ensure_ext4_mounted_keeps [keeps]:
  "J (fst (fst (fst s))) \<Longrightarrow> pred_option (\<lambda>x. J (fst (fst (fst (snd x))))) (ensure_ext4_mounted os files ev d lp k c s)"
  by (auto simp: ensure_ext4_mounted_def Let_def split_def keeps intro!: cases_keep)

lemma handle_same_fs_keeps [keeps]:
  "J (fst (fst (fst s))) \<Longrightarrow> pred_option (\<lambda>x. J (fst (fst (fst (snd x))))) (handle_same_fs os files ev cfg d s)"
  by (auto simp: handle_same_fs_def Let_def split_def keeps intro!: cases_keep split: option.split list.split)

text \<open>Files of the graphical session.\<close>

lemma open_root_keeps [keeps]: "J (fst s) \<Longrightarrow> J (fst (snd (open_root os g s)))"
  by (auto simp: open_root_def Let_def split_def keeps intro!: cases_keep)

lemma ensure_mount_target_keeps [keeps]:
  "J (fst s) \<Longrightarrow> J (fst (snd (ensure_mount_target os g p u u2 s)))"
  by (auto simp: ensure_mount_target_def Let_def split_def keeps intro!: cases_keep split: option.split list.split)

lemma mount_file_keeps [keeps]: "J (fst s) \<Longrightarrow> J (fst (snd (mount_file os g p p2 u u2 s)))"
  by (auto simp: mount_file_def Let_def split_def keeps intro!: cases_keep)

lemma mount_file_acl_keeps [keeps]: "J (fst s) \<Longrightarrow> J (fst (snd (mount_file_acl os g p p2 s)))"
  by (auto simp: mount_file_acl_def Let_def split_def keeps intro!: cases_keep)

lemma try_cookie_keeps [keeps]: "J (fst s) \<Longrightarrow> J (fst (snd (try_cookie os po s)))"
  by (auto simp: try_cookie_def Let_def split_def keeps intro!: cases_keep split: option.split list.split)

lemma cat_and_try_keeps [keeps]: "J (fst s) \<Longrightarrow> J (fst (snd (cat_and_try os p p2 s)))"
  by (auto simp: cat_and_try_def Let_def split_def keeps intro!: cases_keep)

lemma find_pulse_cookie_keeps [keeps]: "J (fst s) \<Longrightarrow> J (fst (snd (find_pulse_cookie os g p s)))"
  by (auto simp: find_pulse_cookie_def Let_def split_def keeps intro!: cases_keep split: option.split list.split)

lemma mount_hfile_keeps [keeps]: "J (fst s) \<Longrightarrow> J (fst (snd (mount_hfile os g p p2 p3 s)))"
  by (auto simp: mount_hfile_def Let_def split_def keeps intro!: cases_keep)

lemma mount_xauthority_keeps [keeps]: "J (fst s) \<Longrightarrow> J (fst (snd (snd (mount_xauthority os g p p2 s))))"
  by (auto simp: mount_xauthority_def Let_def split_def keeps intro!: cases_keep)

lemma ensure_guest_home_keeps [keeps]: "J (fst s) \<Longrightarrow> J (fst (snd (ensure_guest_home os g p s)))"
  by (auto simp: ensure_guest_home_def Let_def split_def keeps intro!: cases_keep)

lemma ensure_guest_home_if_needed_keeps [keeps]:
  "J (fst s) \<Longrightarrow> J (fst (snd (snd (ensure_guest_home_if_needed os g p s))))"
  by (auto simp: ensure_guest_home_if_needed_def Let_def split_def keeps intro!: cases_keep)

lemma prepare_cookie_dirs_keeps [keeps]: "J (fst s) \<Longrightarrow> J (fst (snd (prepare_cookie_dirs os g p s)))"
  by (auto simp: prepare_cookie_dirs_def Let_def split_def keeps intro!: cases_keep split: option.split list.split)

lemma mount_cookie_keeps [keeps]: "J (fst s) \<Longrightarrow> J (fst (snd (snd (mount_cookie os g p p2 s))))"
  by (auto simp: mount_cookie_def Let_def split_def keeps intro!: cases_keep split: option.split list.split)

lemma mount_user_files_keeps [keeps]: "J (fst s) \<Longrightarrow> J (fst (snd (snd (mount_user_files os g p p2 s))))"
  by (auto simp: mount_user_files_def Let_def split_def keeps intro!: cases_keep)

lemma mount_user_home_keeps [keeps]: "J (fst s) \<Longrightarrow> J (fst (snd (snd (mount_user_home os g po s))))"
  by (auto simp: mount_user_home_def Let_def split_def keeps intro!: cases_keep split: option.split list.split)

text \<open>Sockets of the graphical session.\<close>

lemma set_sock_acl_keeps [keeps]: "J (fst s) \<Longrightarrow> J (fst (snd (set_sock_acl os p g s)))"
  by (auto simp: set_sock_acl_def Let_def split_def keeps intro!: cases_keep)

lemma set_acls_keeps [keeps]: "J (fst s) \<Longrightarrow> J (fst (snd (set_acls os g n es s)))"
  by (induction es arbitrary: s) (auto simp: Let_def split_def keeps intro!: cases_keep)

lemma set_x11_acls_keeps [keeps]: "J (fst s) \<Longrightarrow> J (fst (snd (set_x11_acls os g n s)))"
  by (auto simp: set_x11_acls_def Let_def split_def keeps intro!: cases_keep)

lemma scan_lowest_x_socket_keeps [keeps]: "J (fst s) \<Longrightarrow> J (fst (snd (scan_lowest_x_socket os s)))"
  by (auto simp: scan_lowest_x_socket_def Let_def split_def keeps intro!: cases_keep)

lemma resolve_host_x11_keeps [keeps]: "J (fst s) \<Longrightarrow> J (fst (snd (resolve_host_x11 os n s)))"
  by (auto simp: resolve_host_x11_def Let_def split_def keeps intro!: cases_keep)

lemma mount_x11_socket_keeps [keeps]: "J (fst s) \<Longrightarrow> J (fst (snd (mount_x11_socket os g n n2 s)))"
  by (auto simp: mount_x11_socket_def Let_def split_def keeps intro!: cases_keep)

lemma resolve_x11_pair_keeps [keeps]: "J (fst s) \<Longrightarrow> J (fst (snd (resolve_x11_pair os g s)))"
  by (auto simp: resolve_x11_pair_def Let_def split_def keeps intro!: cases_keep split: option.split list.split)

lemma x11_resolve_display_keeps [keeps]: "J (fst s) \<Longrightarrow> J (fst (snd (x11_resolve_display os g s)))"
  by (auto simp: x11_resolve_display_def Let_def split_def keeps intro!: cases_keep)

lemma mount_x11_keeps [keeps]: "J (fst s) \<Longrightarrow> J (fst (snd (snd (mount_x11 os g s))))"
  by (auto simp: mount_x11_def Let_def split_def keeps intro!: cases_keep split: option.split list.split)

lemma ensure_xdg_parent_keeps [keeps]: "J (fst s) \<Longrightarrow> J (fst (snd (ensure_xdg_parent os g p s)))"
  by (auto simp: ensure_xdg_parent_def Let_def split_def keeps intro!: cases_keep split: option.split list.split)

lemma create_guest_xdg_root_keeps [keeps]:
  "J (fst s) \<Longrightarrow> J (fst (snd (snd (snd (create_guest_xdg_root os g k s)))))"
  by (auto simp: create_guest_xdg_root_def Let_def split_def keeps intro!: cases_keep split: option.split list.split)

lemma touch_target_keeps [keeps]: "J (fst s) \<Longrightarrow> J (fst (snd (touch_target os g p s)))"
  by (auto simp: touch_target_def Let_def split_def keeps intro!: cases_keep)

lemma ensure_guest_xdg_pulse_keeps [keeps]:
  "J (fst s) \<Longrightarrow> J (fst (snd (snd (ensure_guest_xdg_pulse os g s))))"
  by (auto simp: ensure_guest_xdg_pulse_def Let_def split_def keeps intro!: cases_keep)

lemma ensure_target_present_keeps [keeps]:
  "J (fst s) \<Longrightarrow> J (fst (snd (snd (ensure_target_present os g p k s))))"
  by (auto simp: ensure_target_present_def Let_def split_def keeps intro!: cases_keep)

lemma ensure_wayland_target_keeps [keeps]:
  "J (fst s) \<Longrightarrow> J (fst (snd (snd (snd (ensure_wayland_target os g p k s)))))"
  by (auto simp: ensure_wayland_target_def Let_def split_def keeps intro!: cases_keep split: option.split list.split)

lemma mount_wayland_keeps [keeps]: "J (fst s) \<Longrightarrow> J (fst (snd (snd (mount_wayland os g p p2 s))))"
  by (auto simp: mount_wayland_def Let_def split_def keeps intro!: cases_keep)

lemma prepare_default_pulse_target_keeps [keeps]:
  "J (fst s) \<Longrightarrow> J (fst (snd (snd (prepare_default_pulse_target os g p s))))"
  by (auto simp: prepare_default_pulse_target_def Let_def split_def keeps intro!: cases_keep)

lemma prepare_custom_pulse_target_keeps [keeps]:
  "J (fst s) \<Longrightarrow> J (fst (snd (prepare_custom_pulse_target os g p s)))"
  by (auto simp: prepare_custom_pulse_target_def Let_def split_def keeps intro!: cases_keep split: option.split list.split)

lemma ensure_pulse_target_keeps [keeps]:
  "J (fst s) \<Longrightarrow> J (fst (snd (snd (ensure_pulse_target os g p s))))"
  by (auto simp: ensure_pulse_target_def Let_def split_def keeps intro!: cases_keep)

lemma mount_pulse_keeps [keeps]: "J (fst s) \<Longrightarrow> J (fst (snd (snd (mount_pulse os g p s))))"
  by (auto simp: mount_pulse_def Let_def split_def keeps intro!: cases_keep split: option.split list.split)

lemma mount_xdg_socks_keeps [keeps]: "J (fst s) \<Longrightarrow> J (fst (snd (snd (mount_xdg_socks os g s))))"
  by (auto simp: mount_xdg_socks_def Let_def split_def keeps intro!: cases_keep split: option.split list.split)

lemma wayland_sock_present_keeps [keeps]: "J (fst s) \<Longrightarrow> J (fst (snd (wayland_sock_present os g p s)))"
  by (auto simp: wayland_sock_present_def Let_def split_def keeps intro!: cases_keep)

lemma pulse_sock_present_keeps [keeps]: "J (fst s) \<Longrightarrow> J (fst (snd (pulse_sock_present os g p s)))"
  by (auto simp: pulse_sock_present_def Let_def split_def keeps intro!: cases_keep split: option.split list.split)

lemma xdg_detect_socks_keeps [keeps]: "J (fst s) \<Longrightarrow> J (fst (snd (xdg_detect_socks os g s)))"
  by (auto simp: xdg_detect_socks_def Let_def split_def keeps intro!: cases_keep split: option.split list.split)

lemma setup_gui_mounts_keeps [keeps]: "J (fst s) \<Longrightarrow> J (fst (snd (snd (setup_gui_mounts os g po s))))"
  by (auto simp: setup_gui_mounts_def Let_def split_def keeps intro!: cases_keep)

text \<open>The child before its root.\<close>

lemma child_fork_keeps [keeps]: "J (fst s) \<Longrightarrow> J (fst (snd (child_fork os s)))"
  by (auto simp: child_fork_def Let_def split_def keeps intro!: cases_keep)

lemma host_home_ok_keeps [keeps]: "J (fst s) \<Longrightarrow> J (fst (snd (host_home_ok os po s)))"
  by (auto simp: host_home_ok_def Let_def split_def keeps intro!: cases_keep split: option.split list.split)

lemma resolve_host_home_keeps [keeps]: "J (fst s) \<Longrightarrow> J (fst (snd (resolve_host_home w e s)))"
  by (auto simp: resolve_host_home_def Let_def split_def keeps intro!: cases_keep)

lemma resolve_host_paths_keeps [keeps]: "J (fst s) \<Longrightarrow> J (fst (snd (resolve_host_paths w e u s)))"
  by (auto simp: resolve_host_paths_def Let_def split_def keeps intro!: cases_keep)

lemma begin_gui_ctx_keeps [keeps]:
  "J (fst s) \<Longrightarrow> pred_option (\<lambda>x. J (fst (snd x))) (begin_gui_ctx w cfg v p e u s)"
  by (auto simp: begin_gui_ctx_def Let_def split_def keeps intro!: cases_keep pure_bind)

lemma child_setup_gui_keeps [keeps]:
  "J (fst s) \<Longrightarrow> pred_option (\<lambda>x. J (fst (snd x))) (child_setup_gui w cfg v p e u s)"
  unfolding child_setup_gui_def Let_def split_def
  by (intro pred_steps pred_bind [OF begin_gui_ctx_keeps] pure_bind [where m = "env_map_get _ _"] pure_bind [where m = "apply_gui_env _ _ _ _ _ _"]) (simp_all add: keeps)

lemma child_gui_env_only_keeps [keeps]:
  "J (fst s) \<Longrightarrow> pred_option (\<lambda>x. J (fst (snd x))) (child_gui_env_only w cfg v p e u s)"
  unfolding child_gui_env_only_def Let_def split_def
  by (intro pred_steps pred_bind [OF begin_gui_ctx_keeps] pure_bind [where m = "apply_gui_env _ _ _ _ _ _"]) (simp_all add: keeps)

lemma do_child_net_keeps [keeps]:
  "J (fst s) \<Longrightarrow> pred_option (\<lambda>x. J (fst (snd x))) (do_child_net w n n2 s)"
  by (auto simp: do_child_net_def Let_def split_def keeps intro!: cases_keep split: option.split list.split)

text \<open>Namespaces and preparation.\<close>

lemma mount_ns_setup_keeps [keeps]: "J (fst s) \<Longrightarrow> J (fst (snd (mount_ns_setup os c c2 c3 s)))"
  by (auto simp: mount_ns_setup_def clone_flags Let_def split_def keeps intro!: cases_keep)

lemma inner_child_net_keeps [keeps]:
  "J (fst s) \<Longrightarrow> pred_option (\<lambda>x. J (fst (snd x))) (inner_child_net w rc s)"
  by (auto simp: inner_child_net_def Let_def split_def keeps intro!: cases_keep)

lemma do_child_setup_keeps [keeps]:
  "J (fst s) \<Longrightarrow> pred_option (\<lambda>x. J (fst (snd x))) (do_child_setup w p cfg rc n s)"
  by (auto simp: do_child_setup_def Let_def split_def keeps intro!: cases_keep pure_case [where m = "parse_envs _ _"] pure_case [where m = "user_new _ _ _"] split: sum.split)

lemma setup_mount_namespaces_keeps [keeps]:
  "J (fst (fst s)) \<Longrightarrow> pred_option (\<lambda>x. J (fst (fst (snd x)))) (setup_mount_namespaces w pr cfg rc c s)"
  by (auto simp: setup_mount_namespaces_def Let_def split_def keeps intro!: cases_keep)

lemma early_setup_appdir_keeps [keeps]:
  "J (fst (fst (fst s))) \<Longrightarrow> pred_option (\<lambda>x. J (fst (fst (fst (snd x))))) (early_setup_appdir w cfg s)"
  by (auto simp: early_setup_appdir_def Let_def split_def keeps intro!: cases_keep split: option.split list.split)

lemma early_prep_keeps [keeps]:
  "J (fst (fst (fst s))) \<Longrightarrow> pred_option (\<lambda>x. J (fst (fst (fst (snd x))))) (early_prep w cfg pr c s)"
  by (auto simp: early_prep_def Let_def split_def keeps intro!: cases_keep)

lemma unprepare_keeps [keeps]: "J (fst s) \<Longrightarrow> J (fst (unprepare os p s))"
  by (auto simp: unprepare_def Let_def split_def keeps intro!: cases_keep)

text \<open>Starting, joining and the entry point.\<close>

lemma nl_send_msg_keeps [keeps]: "J (fst s) \<Longrightarrow> J (fst (nl_send_msg os n b s))"
  by (auto simp: nl_send_msg_def Let_def split_def keeps intro!: cases_keep)

lemma parent_nl_addr6_keeps [keeps]: "J (fst s) \<Longrightarrow> J (fst (parent_nl_addr6 os n n2 n3 s))"
  by (auto simp: parent_nl_addr6_def Let_def split_def keeps intro!: cases_keep)

lemma parent_nl_cmds_keeps [keeps]:
  "J (fst s) \<Longrightarrow> pred_option (\<lambda>x. J (fst x)) (parent_nl_cmds w n n2 n3 s)"
  unfolding parent_nl_cmds_def Let_def split_def
  by (intro cases_keep pred_steps pure_case [where m = "fst _"]) (simp_all add: keeps)

lemma wait_flag_keeps [keeps]:
  "J (fst s) \<Longrightarrow> pred_option (\<lambda>x. J (fst (snd x))) (wait_flag os n n2 n3 s)"
proof -
  have "J (fst s) \<longrightarrow> J (fst (snd x))" if "wait_flag os n n2 n3 s = Some x" for os n n2 n3 s x
  proof (rule wait_flag.raw_induct [OF _ that], rule impI)
    fix run os n n2 n3 s x
    assume IH: "\<And>os n n2 n3 s x. run os n n2 n3 s = Some x \<Longrightarrow> J (fst s) \<longrightarrow> J (fst (snd x))" and j: "J (fst s)"
      and e: "(let (v, s) = psys os (Ipc (Load n)) s in
        if a_ret v = n2 then Some (0, s)
        else let (i, s) = psys os (Ipc (Wait_nohang n3)) s in
          if a_ret i = 0 \<and> int (st_size (a_stat i)) = n3 then Some (-1, s)
          else let (_, s) = psys os (Ipc (Futex_wait_to n 0 20000000)) s in run os n n2 n3 s) = Some x"
    have k: "J (fst s) \<Longrightarrow> pred_option (\<lambda>x. J (fst (snd x))) (run os n n2 n3 s)" for os n n2 n3 s
      using IH by (cases "run os n n2 n3 s") auto
    have "pred_option (\<lambda>x. J (fst (snd x))) (Some x)" unfolding e [symmetric] using j by (auto simp: Let_def split_def keeps k intro!: cases_keep)
    then show "J (fst (snd x))" by simp
  qed
  then show "J (fst s) \<Longrightarrow> ?thesis" by (cases "wait_flag os n n2 n3 s") auto
qed

lemma net_ready_keeps [keeps]:
  "J (fst s) \<Longrightarrow> pred_option (\<lambda>x. J (fst (snd x))) (net_ready os n n2 s)"
  by (auto simp: net_ready_def Let_def split_def keeps intro!: cases_keep)

lemma do_parent_net_keeps [keeps]:
  "J (fst s) \<Longrightarrow> pred_option (\<lambda>x. J (fst x)) (do_parent_net w n n2 n3 s)"
  unfolding do_parent_net_def Let_def split_def
  by (intro cases_keep pred_steps pure_case [where m = "fst _"]) (simp_all add: keeps)

lemma create_futex_keeps [keeps]: "J (fst s) \<Longrightarrow> J (fst (snd (create_futex os s)))"
  by (auto simp: create_futex_def Let_def split_def keeps intro!: cases_keep)

lemma setup_net_links_keeps [keeps]:
  "J (fst s) \<Longrightarrow> pred_option (\<lambda>x. J (fst (snd x))) (setup_net_links w s)"
  unfolding setup_net_links_def Let_def split_def
  by (intro cases_keep pred_steps pure_case [where m = "fst _"]) (simp_all add: keeps)

lemma unlink_pidfile_keeps [keeps]: "J (fst s) \<Longrightarrow> J (fst (unlink_pidfile os p s))"
  by (auto simp: unlink_pidfile_def Let_def split_def keeps intro!: cases_keep)

lemma free_futex_keeps [keeps]: "J (fst s) \<Longrightarrow> J (fst (free_futex os no s))"
  by (auto simp: free_futex_def Let_def split_def keeps intro!: cases_keep split: option.split list.split)

lemma setup_net_or_fail_keeps [keeps]:
  "J (fst (fst s)) \<Longrightarrow> pred_option (\<lambda>x. J (fst (fst (snd x)))) (setup_net_or_fail w cfg st s)"
  by (auto simp: setup_net_or_fail_def Let_def split_def keeps intro!: cases_keep)

lemma setup_cgroup_keeps [keeps]: "J (fst s) \<Longrightarrow> J (fst (snd (setup_cgroup w cfg st s)))"
  by (auto simp: setup_cgroup_def Let_def split_def keeps intro!: cases_keep)

lemma remove_root_keeps [keeps]: "J (fst s) \<Longrightarrow> J (fst (snd (remove_root os st s)))"
  by (auto simp: remove_root_def Let_def split_def keeps intro!: cases_keep split: option.split list.split)

lemma wait_root_ready_keeps [keeps]:
  "J (fst s) \<Longrightarrow> pred_option (\<lambda>x. J (fst (snd x))) (wait_root_ready os n n2 s)"
  by (auto simp: wait_root_ready_def Let_def split_def keeps intro!: cases_keep)

lemma finish_child_keeps [keeps]:
  "J (fst s) \<Longrightarrow> pred_option (\<lambda>x. J (fst (snd x))) (finish_child w st s)"
  by (auto simp: finish_child_def Let_def split_def keeps intro!: cases_keep)

lemma spawn_cleanup_keeps [keeps]:
  "J (fst s) \<Longrightarrow> pred_option (\<lambda>x. J (fst x)) (spawn_cleanup w st s)"
  by (auto simp: spawn_cleanup_def Let_def split_def keeps intro!: cases_keep split: option.split list.split)

lemma spawn_exec_keeps [keeps]:
  "J (fst s) \<Longrightarrow> pred_option (\<lambda>x. J (fst (snd x))) (spawn_exec w st s)"
  by (auto simp: spawn_exec_def Let_def split_def keeps intro!: cases_keep pure_case [where m = "sp_net_futex _"] pure_case [where m = "sp_root_futex _"])

lemma reuse_setup_env_keeps [keeps]:
  "J (fst s) \<Longrightarrow> pred_option (\<lambda>x. J (fst (snd x))) (reuse_setup_env w cfg v p po u s)"
  by (auto simp: reuse_setup_env_def Let_def split_def keeps intro!: cases_keep pure_case [where m = "parse_envs _ _"] pure_map [where m = "child_gui_env_inherit _ _ _ _ _ _"] split: sum.split)

lemma wait_status_keeps [keeps]:
  "J (fst s) \<Longrightarrow> pred_option (\<lambda>x. J (fst (snd x))) (wait_status os n s)"
  by (auto simp: wait_status_def Let_def split_def keeps intro!: cases_keep split: option.split list.split)

lemma handle_fix_keeps [keeps]: "J (fst s) \<Longrightarrow> J (fst (snd (handle_fix os ps s)))"
  by (auto simp: handle_fix_def Let_def split_def keeps intro!: cases_keep)

lemma handle_config_exits_keeps [keeps]:
  "J (fst s) \<Longrightarrow> pred_option (\<lambda>x. J (fst (snd x))) (handle_config_exits w cfg s)"
  by (auto simp: handle_config_exits_def Let_def split_def keeps intro!: cases_keep split: option.split list.split)

lemma get_ids_keeps [keeps]: "J (fst s) \<Longrightarrow> J (fst (snd (get_ids os s)))"
  by (auto simp: get_ids_def Let_def split_def keeps intro!: cases_keep)

lemma escalate_keeps [keeps]:
  "J (fst s) \<Longrightarrow> pred_option (\<lambda>x. J (fst (snd x))) (escalate w ps s)"
  by (auto simp: escalate_def Let_def split_def keeps intro!: cases_keep pure_case [where m = "fst _"] split: outcome.split)

end

text \<open>Knowledge that entering a namespace does not destroy either.\<close>

locale entry_inv = trace_inv +
  assumes enter: "J tr \<Longrightarrow> \<not> is_execve c \<Longrightarrow> J (tr @ [(c, a)])"
begin

lemma entry_call [keeps]: "J (fst s) \<Longrightarrow> \<not> is_execve c \<Longrightarrow> J (fst (snd (psys os c s)))"
  by (simp add: psys_eq enter)

lemma extend_any: "J tr \<Longrightarrow> list_all (\<lambda>c. \<not> is_execve c) (calls ext) \<Longrightarrow> J (tr @ ext)"
proof (induction ext arbitrary: tr)
  case (Cons x ext)
  have "J (tr @ [x])" using enter [of tr "fst x" "snd x"] Cons.prems by (simp add: calls_def)
  from Cons.IH [OF this] show ?case using Cons.prems by (simp add: calls_def)
qed simp

lemma adds_any: "adds P s t \<Longrightarrow> (\<And>c. P c \<Longrightarrow> \<not> is_execve c) \<Longrightarrow> J (fst s) \<Longrightarrow> J (fst t)"
  unfolding adds_def by (metis (mono_tags, lifting) extend_any list.pred_mono_strong)

lemma ns_setup_keeps [keeps]: "J (fst s) \<Longrightarrow> J (fst (snd (ns_setup os s)))"
  by (auto simp: ns_setup_def Let_def split_def keeps intro!: cases_keep)

lemma join_ns_keeps [keeps]: "J (fst s) \<Longrightarrow> J (fst (snd (join_ns os n p s)))"
  by (auto simp: join_ns_def Let_def split_def keeps intro!: cases_keep)

lemma join_namespaces_keeps [keeps]: "J (fst s) \<Longrightarrow> J (fst (snd (join_namespaces os n s)))"
  by (auto simp: join_namespaces_def Let_def split_def keeps intro!: cases_keep)

end

end
