(* ===== verification/RunSpec.thy ===== *)
theory RunSpec
  imports TraceInv
begin

text \<open>
  The whole program, from \<^verbatim>\<open>main\<close> on: in every run, whichever way it takes, a command of the guest
  is executed only by a process that has changed its root before.
\<close>

section \<open>Executed inside a root\<close>

text \<open>
  A running instance: the process whose number was read, under a lock, from the pid file \<open>pf\<close> and which then
  answered to signal 0.
\<close>

definition instance_pid :: "string \<Rightarrow> trace \<Rightarrow> int \<Rightarrow> bool" where
  "instance_pid pf tr pid \<longleftrightarrow> (\<exists>p opened locked got unlocked closed alive r.
     tr = p @ [(Open pf 524288, opened), (Ns (Flock (a_ret opened) 2), locked), (Read (a_ret opened) 63, got),
       (Ns (Flock (a_ret opened) 8), unlocked), (Close (a_ret opened), closed), (Ns (Kill pid 0), alive)] @ r \<and>
     0 \<le> a_ret opened \<and> a_ret locked = 0 \<and> 0 \<le> a_ret got \<and> a_ret alive = 0 \<and> 0 < pid \<and> pid \<le> 2147483647 \<and>
     pid = parse_pid (cstr_at (take (nat (a_ret got)) (a_data got)) 0))"

text \<open>
  A root for the guest: the directory that a \<open>mkdtemp\<close> which succeeded has made in this run, or the root directory of
  the running instance.
\<close>

definition guest_root :: "string \<Rightarrow> trace \<Rightarrow> string \<Rightarrow> bool" where
  "guest_root pf tr d \<longleftrightarrow> (\<exists>t m. (Ns (Mkdtemp t), m) \<in> set tr \<and> 0 \<le> a_ret m \<and> d = a_path m) \<or>
     (\<exists>pid. instance_pid pf tr pid \<and> d = ''/proc/'' @ dec_int pid @ ''/root'')"

text \<open>
  \<open>jailed pf tr\<close>: the process has changed to such a directory and then, without a further change of
  directory, made the directory it stands in its root, both with success.  \<open>guarded pf tr\<close>: it was
  jailed before every \<open>execve\<close>.
\<close>

definition jailed :: "string \<Rightarrow> trace \<Rightarrow> bool" where
  "jailed pf tr \<longleftrightarrow> (\<exists>p d a q b r. tr = p @ [(Chdir d, a)] @ q @ [(Ns (Chroot ''.''), b)] @ r \<and>
     a_ret a = 0 \<and> a_ret b = 0 \<and> guest_root pf p d \<and> list_all (\<lambda>c. \<not> is_chdir c) (calls q))"

definition guarded :: "string \<Rightarrow> trace \<Rightarrow> bool" where
  "guarded pf tr \<longleftrightarrow> (\<forall>p c av env a r. tr = p @ (Execve c av env, a) # r \<longrightarrow> jailed pf p)"

lemma jailed_more: "jailed pf tr \<Longrightarrow> jailed pf (tr @ ext)"
  unfolding jailed_def by (metis append.assoc)

lemma jailedI:
  assumes "a_ret a = 0" "a_ret b = 0" "guest_root pf p d" "list_all (\<lambda>c. \<not> is_chdir c) (calls q)"
  shows "jailed pf (p @ [(Chdir d, a)] @ q @ [(Ns (Chroot ''.''), b)])"
  unfolding jailed_def using assms by (metis append_Nil2)

lemma guarded_Nil [simp]: "guarded pf []"
  by (simp add: guarded_def)

lemma guarded_snoc:
  assumes "guarded pf tr" "is_execve c \<longrightarrow> jailed pf tr"
  shows "guarded pf (tr @ [(c, a)])"
  unfolding guarded_def
proof (intro allI impI)
  fix p d av env v r
  assume e: "tr @ [(c, a)] = p @ (Execve d av env, v) # r"
  show "jailed pf p"
  proof (cases r rule: rev_cases)
    case Nil
    then show ?thesis using e assms(2) by auto
  next
    case (snoc r' x)
    then have "tr = p @ (Execve d av env, v) # r'" using e by simp
    then show ?thesis using assms(1) unfolding guarded_def by blast
  qed
qed

lemma guarded_jailed: "jailed pf tr \<Longrightarrow> guarded pf tr \<Longrightarrow> guarded pf (tr @ ext)"
proof (induction ext rule: rev_induct)
  case (snoc x ext)
  then show ?case using guarded_snoc [of pf "tr @ ext" "fst x" "snd x"] jailed_more by simp
qed simp

lemma guarded_grows: "grows s t \<Longrightarrow> jailed pf (fst s) \<Longrightarrow> guarded pf (fst s) \<Longrightarrow> guarded pf (fst t)"
  by (auto simp: adds_def guarded_jailed)

text \<open>The calls in \<open>M\<close> have been made, and what was executed was executed inside.\<close>

interpretation made: entry_inv "\<lambda>tr. guarded pf tr \<and> M \<subseteq> set tr" for pf M
  by unfold_locales (auto intro: guarded_snoc dest: special_execve)

interpretation kept_guard: entry_inv "guarded pf" for pf
  by unfold_locales (auto intro: guarded_snoc dest: special_execve)

section \<open>The child of a start\<close>

lemma move_and_chroot_jails:
  assumes "guarded pf (fst s)" "guest_root pf (fst s) root"
  shows "pred_option (\<lambda>(r, t). guarded pf (fst t) \<and> (r = Inr () \<longrightarrow> jailed pf (fst t))) (move_and_chroot w root s)"
proof -
  from move_and_chroot_steps [of w root s] show ?thesis
  proof (elim disjE exE conjE)
    fix t a b c
    assume t: "move_and_chroot w root s = Some (Inr (), t)" "a_ret a = 0" "a_ret b = 0" "a_ret c = 0"
      "fst t = fst s @ [(Chdir root, a), (Ns (Mount (Some root) ''/'' None MS_MOVE None), b), (Ns (Chroot ''.''), c)]"
    have "jailed pf (fst t)"
      using jailedI [OF t(2,4) assms(2), of "[(Ns (Mount (Some root) ''/'' None MS_MOVE None), b)]"] t(5) by (simp add: calls_def)
    moreover have "guarded pf (fst t)" using t(5) assms(1) kept_guard.extend_list by simp
    ultimately show ?thesis using t(1) by simp
  next
    fix t
    assume t: "move_and_chroot w root s = Some (Inl 1, t)" "adds (runs_nothing root) s t"
    have "\<not> is_execve c" if "runs_nothing root c" for c
      using that by (cases c) (auto simp: runs_nothing_def)
    then have "guarded pf (fst t)" using kept_guard.adds_any [OF t(2)] assms(1) by blast
    then show ?thesis using t(1) by simp
  qed
qed

lemma pred_bindx_rule:
  assumes "pred_option Q m" "\<And>c t. Q (Inl c, t) \<Longrightarrow> R (Inl c, t)" "\<And>a t. Q (Inr a, t) \<Longrightarrow> pred_option R (f a t)"
  shows "pred_option R (bindx m f)"
  using assms by (auto simp: bindx_def split: option.splits sum.splits prod.splits)

lemma jailed_run:
  assumes "jailed pf (fst s)" "guarded pf (fst s)" "xadds (\<lambda>_. True) s m"
  shows "pred_option (\<lambda>x. guarded pf (fst (snd x))) m"
  using assms by (cases m) (auto simp: xadds_def intro: guarded_grows)

lemma run_in_root_guarded:
  assumes "guarded pf (fst s)" "(Ns (Mkdtemp t), m) \<in> set (fst s)" "pr_root pr = a_path m" "0 \<le> a_ret m"
  shows "pred_option (\<lambda>x. guarded pf (fst (snd x))) (run_in_root w pr cfg rc s)"
  unfolding run_in_root_eq Let_def
proof (rule pred_bindx_rule)
  let ?K = "\<lambda>tr. guarded pf tr \<and> {(Ns (Mkdtemp t), m)} \<subseteq> set tr"
  let ?hc = "if cf_unshare_cgroup cfg then rc_cg_fs_type rc else -2"
  have s: "?K (fst s)" using assms by simp
  show "pred_option (\<lambda>x. ?K (fst (snd x))) (inner_child_net w rc s)"
    by (rule made.inner_child_net_keeps [OF s])
  show "guarded pf (fst (snd (Inl c, v)))" if "?K (fst (snd (Inl c, v)))" for c and v :: pst using that by simp
  fix a :: unit and s1 :: pst assume s1: "?K (fst (snd (Inr a, s1)))"
  show "pred_option (\<lambda>x. guarded pf (fst (snd x))) (bindx (do_child_setup w (pr_root pr) cfg rc ?hc s1)
      (\<lambda>(env, u) s. bindx (move_and_chroot w (pr_root pr) s) (\<lambda>_ s. after_entry w cfg rc ?hc env u s)))"
  proof (rule pred_bindx_rule)
    show "pred_option (\<lambda>x. ?K (fst (snd x))) (do_child_setup w (pr_root pr) cfg rc ?hc s1)"
      by (rule made.do_child_setup_keeps) (use s1 in simp)
    show "guarded pf (fst (snd (Inl c, v)))" if "?K (fst (snd (Inl c, v)))" for c and v :: pst using that by simp
    fix y :: "env_t \<times> user" and s2 :: pst assume s2: "?K (fst (snd (Inr y, s2)))"
    then have r: "guest_root pf (fst s2) (pr_root pr)" using assms(3,4) unfolding guest_root_def by auto
    have "pred_option (\<lambda>x. guarded pf (fst (snd x))) (bindx (move_and_chroot w (pr_root pr) s2)
        (\<lambda>_ s. after_entry w cfg rc ?hc (fst y) (snd y) s))"
    proof (rule pred_bindx_rule)
      show "pred_option (\<lambda>(r, t). guarded pf (fst t) \<and> (r = Inr () \<longrightarrow> jailed pf (fst t))) (move_and_chroot w (pr_root pr) s2)"
        by (rule move_and_chroot_jails [OF _ r]) (use s2 in simp)
    qed (auto intro: jailed_run after_entry_grows)
    then show "pred_option (\<lambda>x. guarded pf (fst (snd x))) ((case y of (env, u) \<Rightarrow> \<lambda>s. bindx (move_and_chroot w (pr_root pr) s)
        (\<lambda>_ s. after_entry w cfg rc ?hc env u s)) s2)" by (simp add: split_def)
  qed
qed

section \<open>The launcher\<close>

lemma lift_run_pred: "pred_option (\<lambda>y. K (snd y)) (f (fst x)) \<Longrightarrow> pred_option (\<lambda>y. K (fst (snd y))) (lift_run f x)"
  by (auto simp: lift_run_def option.pred_map o_def split_def elim: option.pred_mono_strong)

lemma lift_run_guarded:
  "pred_option (\<lambda>y. guarded pf (fst (snd y))) (f (fst x)) \<Longrightarrow> pred_option (\<lambda>y. guarded pf (fst (fst (snd y)))) (lift_run f x)"
  by (rule lift_run_pred)

lemma run_mount_inner_guarded:
  assumes "guarded pf (fst (fst x))" "(Ns (Mkdtemp t), m) \<in> set (fst (fst x))" "pr_root pr = a_path m" "0 \<le> a_ret m"
  shows "pred_option (\<lambda>y. guarded pf (fst (fst (snd y)))) (run_mount_inner w pr cfg rc priv x)"
  unfolding run_mount_inner_def
proof (rule pred_case)
  let ?K = "\<lambda>tr. guarded pf tr \<and> {(Ns (Mkdtemp t), m)} \<subseteq> set tr"
  show "pred_option (\<lambda>y. ?K (fst (fst (snd y)))) (setup_mount_namespaces w pr cfg rc priv x)"
    by (rule made.setup_mount_namespaces_keeps) (use assms in simp)
  fix y :: "int \<times> mst" assume "?K (fst (fst (snd y)))"
  then show "pred_option (\<lambda>y. guarded pf (fst (fst (snd y)))) (case y of (r, x) \<Rightarrow>
      if r \<noteq> 0 then lift_run (quit w 1) x else lift_run (run_in_root w pr cfg rc) x)"
    by (auto simp: split_def intro!: lift_run_guarded kept_guard.quit_keeps run_in_root_guarded [OF _ _ assms(3,4)])
qed

lemma fork_mount_child_guarded:
  assumes "guarded pf (fst (fst x))" "(Ns (Mkdtemp t), m) \<in> set (fst (fst x))" "pr_root pr = a_path m" "0 \<le> a_ret m"
  shows "pred_option (\<lambda>y. guarded pf (fst (fst (snd y)))) (fork_mount_child w pr cfg rc priv x)"
proof -
  let ?K = "\<lambda>tr. guarded pf tr \<and> {(Ns (Mkdtemp t), m)} \<subseteq> set tr"
  obtain pid s where f: "child_fork (w_os w) (fst x) = (pid, s)" by (metis prod.exhaust)
  have s: "?K (fst s)" using made.child_fork_keeps [where M = "{(Ns (Mkdtemp t), m)}" and s = "fst x" and os = "w_os w"] assms by (simp add: f)
  have "pred_option (\<lambda>y. guarded pf (fst (fst (snd y)))) (bindx (run_mount_inner w pr cfg rc priv (s, snd x)) (\<lambda>_ x. lift_run (quit w 1) x) :: (mst, int) run)"
    by (rule pred_bindx_rule [OF run_mount_inner_guarded [OF _ _ assms(3,4)]])
      (use s in \<open>auto intro!: lift_run_guarded kept_guard.quit_keeps\<close>)
  then show ?thesis using s by (simp add: fork_mount_child_def f Let_def)
qed

lemma prepare_mounts_guarded:
  assumes "guarded pf (fst (fst x))"
  shows "pred_option (\<lambda>y. guarded pf (fst (fst (snd y)))) (prepare_mounts w pr cfg rc priv x)"
proof -
  let ?t = "Ns (Mkdtemp (pr_root pr))"
  obtain a y where a: "mcall (w_os w) ?t x = (a, y)" by (metis prod.exhaust)
  let ?K = "\<lambda>tr. guarded pf tr \<and> {(?t, a)} \<subseteq> set tr"
  have y: "?K (fst (fst y))" using a assms kept_guard.mcall_keeps [of pf x ?t "w_os w"] by (auto simp: mcall_def psys_eq)
  obtain r s where r: "ns_setup (w_os w) (fst y) = (r, s)" by (metis prod.exhaust)
  have s: "?K (fst s)" using made.ns_setup_keeps [where pf = pf and M = "{(?t, a)}" and s = "fst y" and os = "w_os w"] y by (simp add: r)
  let ?pr = "pr\<lparr>pr_root := a_path a\<rparr>"
  have "pred_option (\<lambda>y. guarded pf (fst (fst (snd y)))) (bindx (fork_mount_child w ?pr cfg rc priv (s, snd y))
      (\<lambda>pid x. Some (Inr (if pid < 0 then (-1, ?pr) else (0, ?pr\<lparr>pr_child := pid\<rparr>)), x)) :: (mst, int \<times> prep_result) run)"
    if "0 \<le> a_ret a" using that
    by - (rule pred_bindx_rule [OF fork_mount_child_guarded], use s in auto)
  then show ?thesis using y s by (simp add: prepare_mounts_def a r Let_def)
qed

lemma do_root_prep_guarded:
  assumes "guarded pf (fst (fst (fst z)))"
  shows "pred_option (\<lambda>y. guarded pf (fst (fst (fst (snd y))))) (do_root_prep w cfg pr rc priv z)"
  unfolding do_root_prep_def
proof (rule pred_case)
  show "pred_option (\<lambda>y. guarded pf (fst (fst (fst (snd y))))) (early_prep w cfg pr priv z)"
    by (rule kept_guard.early_prep_keeps [OF assms])
  fix y :: "(int \<times> prep_result \<times> bool) \<times> fst_state" assume y: "guarded pf (fst (fst (fst (snd y))))"
  obtain r p b z1 where e: "y = ((r, p, b), z1)" by (metis prod.exhaust)
  have "pred_option (\<lambda>y. guarded pf (fst (fst (snd y))))
      (prepare_mounts w (p\<lparr>pr_root := ''/tmp/cage-XXXXXX''\<rparr>) cfg rc b (fst z1))"
    using y by (intro prepare_mounts_guarded) (simp add: e)
  then show "pred_option (\<lambda>y. guarded pf (fst (fst (fst (snd y))))) (case y of ((r, pr, root_private), z) \<Rightarrow>
      if r \<noteq> 0 then Some (Inr (-1, pr, False, root_private), z)
      else (case prepare_mounts w (pr\<lparr>pr_root := ''/tmp/cage-XXXXXX''\<rparr>) cfg rc root_private (fst z) of
               None \<Rightarrow> None
             | Some (Inl c, x) \<Rightarrow> Some (Inl c, (x, snd z))
             | Some (Inr (r, pr), x) \<Rightarrow>
                 if r \<noteq> 0
                 then Some (Inr (-1, pr, False, root_private), ((unprepare (w_os w) (pr_root pr) (fst x), snd x), snd z))
                 else Some (Inr (0, pr, True, root_private), (x, snd z))))"
    using y by (auto simp: e kept_guard.unprepare_keeps split: option.split sum.split)
qed

lemma do_setup_prep_guarded:
  assumes "guarded pf (fst (fst (fst z)))"
  shows "pred_option (\<lambda>y. guarded pf (fst (fst (fst (snd y))))) (do_setup_prep w cfg st ruid z)"
proof -
  obtain s m fs where z: "z = ((s, m), fs)" by (metis prod.exhaust)
  obtain f s1 where f: "create_futex (w_os w) s = (f, s1)" by (metis prod.exhaust)
  have s1: "guarded pf (fst s1)" using kept_guard.create_futex_keeps [of pf s "w_os w"] assms by (simp add: z f)
  have "pred_option (\<lambda>y. guarded pf (fst (fst (fst (snd y)))))
      (bindx (do_root_prep w cfg pr rc priv ((s1, m), fs)) (\<lambda>(r, pr, _, priv) z.
         let st = g\<lparr>sp_cgroup_root_private := priv\<rparr> in
         if r < 0 then Some (Inr (-1, st), z)
         else Some (Inr (0, st\<lparr>sp_root := Some (pr_root pr), sp_child := pr_child pr\<rparr>), z)) :: (fst_state, int \<times> spawn_st) run)" for pr rc priv g
    by (rule pred_bindx_rule [OF do_root_prep_guarded]) (use s1 in \<open>auto simp: Let_def\<close>)
  then show ?thesis using s1 by (auto simp: do_setup_prep_def z f Let_def split: option.split)
qed

lemma do_setup_guarded:
  assumes "guarded pf (fst (fst (fst z)))"
  shows "pred_option (\<lambda>y. guarded pf (fst (fst (fst (snd y))))) (do_setup w cfg st ruid z)"
  unfolding do_setup_def
proof (rule pred_case)
  show "pred_option (\<lambda>y. guarded pf (fst (fst (snd y)))) (setup_net_or_fail w cfg st (fst z))"
    by (rule kept_guard.setup_net_or_fail_keeps [OF assms])
  fix y :: "(int \<times> spawn_st) \<times> mst" assume y: "guarded pf (fst (fst (snd y)))"
  obtain r t x where e: "y = ((r, t), x)" by (metis prod.exhaust)
  have s: "guarded pf (fst (snd (setup_cgroup w cfg t (fst x))))" using kept_guard.setup_cgroup_keeps y by (simp add: e)
  then show "pred_option (\<lambda>y. guarded pf (fst (fst (fst (snd y))))) (case y of ((r, st), x) \<Rightarrow>
      if r < 0 then Some (Inr (-1, st), (x, snd z))
      else let ((r, st), s) = setup_cgroup w cfg st (fst x); z = ((s, snd x), snd z) in
        if r < 0 then Some (Inr (-1, st), z) else do_setup_prep w cfg st ruid z)"
    using y do_setup_prep_guarded by (simp add: e Let_def split_def)
qed

lemma spawn_init_guarded:
  assumes "guarded pf (fst (fst (fst z)))"
  shows "pred_option (\<lambda>y. guarded pf (fst (fst (fst (snd y))))) (spawn_init w cfg ruid z)"
proof -
  obtain s m fs where z: "z = ((s, m), fs)" by (metis prod.exhaust)
  obtain fd s1 where f: "create_pidfile (w_os w) (prep_pidfile cfg) s = (fd, s1)" by (metis prod.exhaust)
  have s1: "guarded pf (fst s1)" using kept_guard.create_pidfile_keeps [of pf s "w_os w" "prep_pidfile cfg"] assms by (simp add: z f)
  have c: "pred_option (\<lambda>y. guarded pf (fst (fst (fst (snd y)))))
      (map_option (\<lambda>s. (Inr (-1, t), ((s, snd (fst y)), snd y))) (spawn_cleanup w t (fst (fst y))) :: (fst_state, int \<times> spawn_st) run)"
    if "guarded pf (fst (fst (fst y)))" for y :: fst_state and t
    using kept_guard.spawn_cleanup_keeps [of pf "fst (fst y)" w t] that by (auto simp: option.pred_map o_def)
  have "pred_option (\<lambda>y. guarded pf (fst (fst (fst (snd y)))))
      (bindx (do_setup w cfg st ruid ((s1, m), fs)) (\<lambda>(r, st) z.
          if r \<noteq> 0 then
            map_option (\<lambda>s. (Inr (-1, st), ((s, snd (fst z)), snd z))) (spawn_cleanup w st (fst (fst z)))
          else Some (Inr (0, st), z)) :: (fst_state, int \<times> spawn_st) run)" for st
    by (rule pred_bindx_rule [OF do_setup_guarded]) (use s1 c in \<open>auto simp: split_def\<close>)
  then show ?thesis using s1 by (simp add: spawn_init_def z f Let_def)
qed

lemma spawn_cage_guarded:
  assumes "guarded pf (fst (fst (fst z)))"
  shows "pred_option (\<lambda>y. guarded pf (fst (fst (fst (snd y))))) (spawn_cage w cfg ruid z)"
  unfolding spawn_cage_def
  by (rule pred_bindx_rule [OF spawn_init_guarded [OF assms]])
    (auto simp: split_def option.pred_map o_def intro!: kept_guard.spawn_exec_keeps)

section \<open>Joining\<close>

lemma no_exec_guarded: "guarded pf tr \<Longrightarrow> no_exec ext \<Longrightarrow> guarded pf (tr @ ext)"
  by (intro kept_guard.extend_any) (auto simp: no_exec_def list_all_iff calls_def elim!: is_execve.elims)

lemma reuse_child_guarded:
  assumes "guarded pf (fst s)" "\<And>b. a_ret b = 0 \<Longrightarrow> jailed pf (fst s @ [(Ns (Chroot ''.''), b)])"
  shows "pred_option (\<lambda>y. guarded pf (fst (snd y))) (reuse_child w cfg ruid inst s :: (pst, 'a) run)"
proof (cases "reuse_child w cfg ruid inst s :: (pst, 'a) run")
  case (Some y)
  then obtain x t where y: "y = (x, t)" "reuse_child w cfg ruid inst s = Some (x, t)" by (cases y) simp
  obtain ext where e: "fst t = fst s @ ext" "no_exec ext \<or> jailed_exec ext" using reuse_child_trace [OF y(2)] by blast
  have "guarded pf (fst s @ ext)" if j: "jailed_exec ext"
  proof -
    obtain b run e where "ext = (Ns (Chroot ''.''), b) # run @ [(Exit 1, e)]" and b: "a_ret b = 0"
      using j unfolding jailed_exec_def by blast
    then have r: "ext = [(Ns (Chroot ''.''), b)] @ run @ [(Exit 1, e)]" by simp
    have "guarded pf (fst s @ [(Ns (Chroot ''.''), b)])" using assms(1) by (rule kept_guard.extend_list) simp
    then show ?thesis using guarded_jailed [OF assms(2) [OF b]] r by simp
  qed
  then show ?thesis using e no_exec_guarded [OF assms(1)] y by auto
qed simp

lemma detected_instance:
  assumes "detect_existing os files name pidfile s = (pid, t)" "0 < pid"
  shows "instance_pid (resolve_pidfile name pidfile) (fst t) pid"
proof -
  let ?pf = "resolve_pidfile name pidfile"
  obtain ok u where e: "io_exists_at os ?pf s = (ok, u)" by (metis prod.exhaust)
  obtain p fd v where r: "readpid os ?pf u = ((p, fd), v)" by (metis prod.exhaust)
  have j: "ok = 0" "0 \<le> p" "pid = p" "pid_joinable os files p (close_pid os fd v) = (True, t)"
    using assms e r by (auto simp: detect_existing_def Let_def split: if_splits prod.splits)
  obtain opened locked got where g: "fd = a_ret opened" "0 \<le> a_ret opened" "a_ret locked = 0" "0 \<le> a_ret got"
    "p = parse_pid (cstr_at (take (nat (a_ret got)) (a_data got)) 0)"
    "fst v = fst u @ [(Open ?pf 524288, opened), (Ns (Flock fd 2), locked), (Read fd 63, got)]"
    using r j(2) by (auto simp: readpid_def psys_eq Let_def split: if_splits)
  obtain unlocked closed alive where c: "a_ret alive = 0"
    "fst t = fst v @ [(Ns (Flock fd 8), unlocked), (Close fd, closed), (Ns (Kill p 0), alive)]"
    using j(4) by (auto simp: pid_joinable_def pidexists_def close_pid_def psys_eq Let_def split: if_splits)
  have "0 < p \<and> p \<le> 2147483647" using parse_pid_range j(2) g(5) by (metis INT_MAX_def)
  moreover have "fst t = fst u @ [(Open ?pf 524288, opened), (Ns (Flock (a_ret opened) 2), locked), (Read (a_ret opened) 63, got),
      (Ns (Flock (a_ret opened) 8), unlocked), (Close (a_ret opened), closed), (Ns (Kill p 0), alive)] @ []"
    using g(1,6) c(2) by simp
  ultimately show ?thesis unfolding instance_pid_def j(3) using g(2-5) c(1) by blast
qed

lemma spawn_existing_guarded:
  assumes "guarded pf (fst s)" and pid: "instance_pid pf (fst s) pid"
  shows "pred_option (\<lambda>y. guarded pf (fst (snd y))) (spawn_existing w cfg pid ruid s)"
proof -
  define root where "root = ''/proc/'' @ dec_int pid @ ''/root''"
  let ?a = "w_os w (fst s) (Chdir root)"
  let ?s1 = "(fst s @ [(Chdir root, ?a)], snd s)"
  have s1: "guarded pf (fst ?s1)" using assms kept_guard.extend_list by simp
  obtain r t where j: "join_namespaces (w_os w) pid ?s1 = (r, t)" by (metis prod.exhaust)
  obtain x where x: "fst t = fst ?s1 @ x" "list_all (\<lambda>c. \<not> is_chdir c) (calls x)"
    using join_namespaces_steady [of ?s1 "w_os w" pid] j by (auto simp: adds_def)
  have t: "guarded pf (fst t)" using kept_guard.join_namespaces_keeps [of pf ?s1 "w_os w" pid] s1 j by simp
  let ?f = "w_os w (fst t) Fork"
  let ?u = "(fst t @ [(Fork, ?f)], snd t)"
  have u: "guarded pf (fst ?u)" using t kept_guard.extend_list by simp
  have "jailed pf (fst ?u @ [(Ns (Chroot ''.''), b)])" if "a_ret ?a = 0" "a_ret b = 0" for b
    using jailedI [OF that, of pf "fst s" root "x @ [(Fork, ?f)]"] x pid unfolding guest_root_def root_def by (auto simp: calls_def)
  then have "pred_option (\<lambda>y. guarded pf (fst (snd y)))
      (reuse_child w cfg ruid inst ?u :: (pst, int) run)" if "a_ret ?a = 0" for inst
    using that by (intro reuse_child_guarded [OF u])
  moreover have "pred_option (\<lambda>y. guarded pf (fst (snd y)))
      (map_option (\<lambda>(r, s). (Inr r, s)) (wait_status (w_os w) child ?u) :: (pst, int) run)" for child
    using kept_guard.wait_status_keeps [of pf ?u "w_os w" child] u by (auto simp: option.pred_map o_def split_def)
  ultimately show ?thesis using s1 t u unfolding spawn_existing_def root_def [symmetric]
    by (simp add: psys_eq j child_fork_def Let_def)
qed

section \<open>The entry point\<close>

lemma do_spawn_guarded:
  assumes "guarded pf (fst (fst (fst z)))" and pf: "pf = resolve_pidfile (cf_name cfg) (cf_pidfile cfg)"
  shows "pred_option (\<lambda>y. guarded pf (fst (fst (fst (snd y))))) (do_spawn w cfg ruid z)"
proof -
  obtain s m fs where z: "z = ((s, m), fs)" by (metis prod.exhaust)
  obtain old t where d: "detect_existing (w_os w) (w_files w) (cf_name cfg) (cf_pidfile cfg) s = (old, t)" by (metis prod.exhaust)
  have t: "guarded pf (fst t)" using kept_guard.detect_existing_keeps assms d unfolding z by (metis fst_conv snd_conv)
  have "pred_option (\<lambda>y. guarded pf (fst (fst (fst (snd y)))))
      (bindx (if 0 < old then map_option (\<lambda>(r, s). (r, ((s, m), fs))) (spawn_existing w cfg old ruid t)
              else spawn_cage w cfg ruid ((t, m), fs)) (\<lambda>r z. Some (Inr (if r < 0 then 1 else r), z)))"
    by (rule pred_bindx_rule [where Q = "\<lambda>y. guarded pf (fst (fst (fst (snd y))))"])
      (use t spawn_existing_guarded [OF t] detected_instance [OF d] spawn_cage_guarded pf in \<open>auto simp: option.pred_map o_def split_def\<close>)
  then show ?thesis using t by (simp add: do_spawn_def z d Let_def)
qed

lemma prepare_run_name:
  assumes "prepare_run cfg = (r, cfg')"
  shows "cf_name cfg' = cf_name cfg \<and> cf_pidfile cfg' = cf_pidfile cfg"
proof -
  have "prepare_from is cfg = (r, cfg') \<Longrightarrow> cf_name cfg' = cf_name cfg \<and> cf_pidfile cfg' = cf_pidfile cfg" for "is" r cfg cfg'
    by (induction "is" cfg rule: prepare_from.induct) (auto simp: Let_def split: prod.splits if_splits)
  then show ?thesis using assms by (auto simp: prepare_run_def prepare_volumes_def split: if_splits)
qed

text \<open>The pid file of the instance that the command line names.\<close>

definition named_pidfile :: "string list \<Rightarrow> string" where
  "named_pidfile argv =
     (let cfg = snd (cage_parse_args argv cage_config_init) in resolve_pidfile (cf_name cfg) (cf_pidfile cfg))"

lemma main_cage_guarded:
  assumes "guarded pf (fst (fst (fst z)))" and pf: "pf = named_pidfile argv"
  shows "pred_option (\<lambda>y. guarded pf (fst (fst (fst (snd y))))) (main_cage w argv z)"
proof -
  obtain s m fs where z: "z = ((s, m), fs)" by (metis prod.exhaust)
  obtain h t where h: "handle_fix (w_os w) argv s = (h, t)" by (metis prod.exhaust)
  have t: "guarded pf (fst t)" using kept_guard.handle_fix_keeps [of pf s "w_os w" argv] assms by (simp add: z h)
  have e: "pred_option (\<lambda>y. guarded pf (fst (fst (fst (snd y))))) (map_option (\<lambda>(r, s). (r, ((s, m), fs))) (escalate w argv t))"
    using kept_guard.escalate_keeps [OF t] by (auto simp: option.pred_map o_def split_def)
  have k: "pred_option (\<lambda>y. guarded pf (fst (fst (fst (snd y)))))
      (case handle_config_exits w cfg (fst (fst z)) of None \<Rightarrow> None
       | Some (r, s) \<Rightarrow> let z = ((s, snd (fst z)), snd z) in if 0 \<le> r then Some (Inr r, z)
           else let (r, cfg) = prepare_run cfg in if r \<noteq> 0 then Some (Inr 1, z) else do_spawn w cfg ruid z)"
    if "guarded pf (fst (fst (fst z)))" and c: "pf = resolve_pidfile (cf_name cfg) (cf_pidfile cfg)" for cfg ruid and z :: fst_state
  proof -
    obtain q cfg' where q: "prepare_run cfg = (q, cfg')" by (metis prod.exhaust)
    have "pf = resolve_pidfile (cf_name cfg') (cf_pidfile cfg')" using prepare_run_name [OF q] c by simp
    from do_spawn_guarded [OF _ this] show ?thesis
      by (intro pred_case [OF kept_guard.handle_config_exits_keeps [OF that(1)]]) (simp add: split_def Let_def q)
  qed
  show ?thesis
  proof (cases "0 \<le> h")
    case False
    have "pred_option (\<lambda>y. guarded pf (fst (fst (fst (snd y))))) (bindx (map_option (\<lambda>(r, s). (r, ((s, m), fs))) (escalate w argv t))
        (\<lambda>(r, ruid) z. if r \<noteq> 0 then Some (Inr 1, z)
          else let (r, cfg) = cage_parse_args argv cage_config_init in
            if r \<noteq> 0 then Some (Inr 1, z)
            else (case handle_config_exits w cfg (fst (fst z)) of None \<Rightarrow> None
               | Some (r, s) \<Rightarrow> let z = ((s, snd (fst z)), snd z) in if 0 \<le> r then Some (Inr r, z)
                   else let (r, cfg) = prepare_run cfg in if r \<noteq> 0 then Some (Inr 1, z) else do_spawn w cfg ruid z)))"
      by (rule pred_bindx_rule [OF e]) (use k [OF _ pf [unfolded named_pidfile_def Let_def]] in \<open>simp_all add: split_def Let_def\<close>)
    then show ?thesis using False by (simp add: main_cage_def z h)
  qed (use t in \<open>simp add: main_cage_def z h\<close>)
qed

text \<open>
  C1: no command of the guest is ever executed outside its root.  Take any command line and any
  answers of the system, and a run of the whole program in either of its processes, which may start
  an instance, join one, stop one, fail on the way or be the child of a \<open>fork\<close>: before every
  \<open>execve\<close> in it, that of the init script and that of the command, the same run has changed to a directory
  and has then made that directory its root, each with success and with no other change of directory
  between.  That directory is the one that a \<open>mkdtemp\<close> of this run has made, or \<^verbatim>\<open>/proc/N/root\<close> for the
  instance's process N: the number that was read, with the file locked, from the pid file that the command
  line names, is positive and fits an \<open>int\<close>, and that then answered to signal 0.
\<close>

theorem commands_run_inside:
  assumes run: "main_cage w argv z = Some (res, z')" and start: "fst (fst (fst z)) = []"
    and exec: "fst (fst (fst z')) = p @ (Execve cmd av env, a) # r"
  shows "jailed (named_pidfile argv) p"
proof -
  have "guarded (named_pidfile argv) (fst (fst (fst z)))" by (simp add: start)
  from main_cage_guarded [OF this refl, of w] have "guarded (named_pidfile argv) (fst (fst (fst z')))" by (simp add: run)
  then show ?thesis using exec unfolding guarded_def by blast
qed

text \<open>The child of the joined instance executes the command.\<close>

lemma launch_exec_executes:
  assumes "\<And>tr c. a_ret (os tr c) = 0 \<or> (\<exists>f n. c = Read f n)"
  shows "\<exists>v t p a. launch_exec os pw gr u cwd cmd av envp s = (-1, v, t) \<and> fst t = p @ [(Execve cmd av envp, a)]"
proof -
  have z: "a_ret (os tr (Chdir d)) = 0" "a_ret (os tr (Setregid g g)) = 0" "a_ret (os tr (Setgroups gl)) = 0"
    "a_ret (os tr (Setreuid i i)) = 0" for tr d g gl i using assms by blast+
  show ?thesis by (cases cwd) (simp_all add: launch_exec_def setup_cwd_def do_priv_drop_def exec_or_fail_def psys_eq z Let_def split_def)
qed

lemma launch_cage_executes:
  assumes "\<And>tr c. a_ret (os tr c) = 0 \<or> (\<exists>f n. c = Read f n)" "env_map_ok (emap e)"
  shows "\<exists>e' v t p envp a. launch_cage os pw gr True True u e cwd [''sh''] s = Some (-1, e', v, t) \<and>
    fst t = p @ [(Execve ''sh'' [''sh''] envp, a)]"
proof -
  obtain e1 u1 where h: "fill_home_user pw True e u = Some (e1, u1)" "env_map_ok (emap e1)"
    using fill_home_user_ok [OF assms(2)] by blast
  have "\<exists>q. fill_shell pw True e1 u1 = Some q"
    using h(2) by (auto simp: fill_shell_def map_put_eq split_def Let_def)
  then obtain e2 u2 where g: "fill_shell pw True e1 u1 = Some (e2, u2)" by auto
  obtain v t p a where "launch_exec os pw gr u2 cwd ''sh'' [''sh''] (env_map_build (emap e2)) s = (-1, v, t)"
      "fst t = p @ [(Execve ''sh'' [''sh''] (env_map_build (emap e2)), a)]"
    using launch_exec_executes [of os, OF assms(1)] by blast
  then show ?thesis by (simp add: launch_cage_def prepare_command_def has_command_def is_dash_def h g)
qed

lemma joined_child_executes:
  "\<exists>t. spawn_existing (joined_world 0) sh_prepared 42 0 s = Some (Inl 1, t) \<and>
     (\<exists>p av env a r. fst t = p @ (Execve ''sh'' av env, a) # r)"
proof -
  let ?w = "joined_world 0" and ?s1 = "snd (psys (joined_os 0) (Chdir (''/proc/'' @ dec_int 42 @ ''/root'')) s)"
  have c: "\<not> cf_graphical sh_prepared" "cf_envvars sh_prepared = []" "cf_user sh_prepared = ''0''" "cf_group sh_prepared = None"
      "cf_command sh_prepared = [''sh'']"
    by (simp_all add: sh_prepared_def sh_config_def cage_config_init_def)
  obtain t where t: "join_namespaces (joined_os 0) 42 ?s1 = (0, t)" using joined_start by blast
  obtain env where e: "parse_envs (\<lambda>_. None) [] = Some (Inr env)" "env_map_ok (emap env)"
    using parse_envs_map [of "[]" "\<lambda>_. None"] by auto
  obtain u where u: "user_new (Some ''0'') None (Some ''/'') = Some u" using user_0 by blast
  let ?f = "snd (child_fork (joined_os 0) t)"
  let ?v = "snd (psys (joined_os 0) (Ns (Chroot ''.'')) ?f)"
  have z: "a_ret (joined_os 0 tr c) = 0 \<or> (\<exists>f n. c = Read f n)" for tr c
    by (cases c) (simp_all add: joined_os_def ret_def)
  obtain e' v x p envp a where l: "launch_cage (joined_os 0) (pwdb ?w ?v) (grdb ?w ?v) True True u env
      (Some (cf_currentdir sh_prepared)) [''sh''] ?v = Some (-1, e', v, x)" "fst x = p @ [(Execve ''sh'' [''sh''] envp, a)]"
    using launch_cage_executes [of "joined_os 0", OF z e(2)] by blast
  have r: "reuse_setup_env ?w sh_prepared u ''/'' None 0 ?v = Some (Inr (env, u), ?v)"
    by (simp add: reuse_setup_env_def joined_world_sel c e(1) child_gui_env_only_def)
  have "(reuse_child ?w sh_prepared 0 None ?f :: (pst, int) run) = quit ?w 1 x"
    using l(1) r by (simp add: reuse_child_def joined_world_sel c u psys_eq joined_cases)
  then have q: "spawn_existing ?w sh_prepared 42 0 s = Some (Inl 1, snd (psys (joined_os 0) (Exit 1) x))" using t
    by (simp add: spawn_existing_def joined_world_sel c psys_eq child_fork_def joined_cases ret_def quit_def)
  have "fst (snd (psys (joined_os 0) (Exit 1) x)) =
      p @ (Execve ''sh'' [''sh''] envp, a) # [(Exit 1, joined_os 0 (fst x) (Exit 1))]" using l(2) by (simp add: psys_eq)
  then show ?thesis using q by blast
qed

lemma commands_run_inside_witness:
  "\<exists>z' p av env a r. main_cage (joined_world 0) sh_argv ((([], io_cache0), mods0), \<lambda>_. None) = Some (Inl 1, z') \<and>
     fst (fst (fst z')) = p @ (Execve ''sh'' av env, a) # r \<and> jailed (named_pidfile sh_argv) p"
proof -
  obtain z' p av env a r where z': "main_cage (joined_world 0) sh_argv ((([], io_cache0), mods0), \<lambda>_. None) = Some (Inl 1, z')"
      "fst (fst (fst z')) = p @ (Execve ''sh'' av env, a) # r"
    using joined_main [OF joined_child_executes] by blast
  have "jailed (named_pidfile sh_argv) p" by (rule commands_run_inside [OF z'(1) _ z'(2)]) simp
  then show ?thesis using z' by blast
qed

end
