(* ===== verification/StartSpec.thy ===== *)
theory StartSpec
  imports RunSpec
begin

text \<open>
  The two ways to a command of the guest, seen from the process that waits for it
  (\<^verbatim>\<open>src/core/cage.c\<close>, \<^verbatim>\<open>src/core/reuse.c\<close>, \<^verbatim>\<open>src/main.c\<close>).  First, which child of a trace runs the command:
  the one that is made next after a namespace of process numbers has been entered.  Then what a start leaves
  behind in the file system, and the status with which the program leaves.
\<close>

section \<open>The child that runs the command\<close>

text \<open>
  Entering a namespace of process numbers: a new one, together with one of System V IPC, or an instance's.
  The process itself stays where it is; the next child that it makes is the first in the new namespace.
\<close>

fun enters :: "syscall \<Rightarrow> bool" where
  "enters (Ns (Unshare n)) = (n = 0x28000000)"
| "enters (Ns (Setns f n)) = (n = 0x20000000)"
| "enters c = False"

fun is_fork :: "syscall \<Rightarrow> bool" where
  "is_fork Fork = True"
| "is_fork c = False"

definition command_child :: "trace \<Rightarrow> int \<Rightarrow> bool" where
  "command_child tr c \<longleftrightarrow> (\<exists>p k a q f r. tr = p @ (k, a) # q @ (Fork, f) # r \<and> enters k \<and> a_ret a = 0 \<and>
     list_all (\<lambda>d. \<not> is_fork d) (calls q) \<and> a_ret f = c \<and> 0 < c)"

lemma command_child_more: "command_child tr c \<Longrightarrow> command_child (tr @ ext) c"
  unfolding command_child_def by (metis append.assoc append_Cons)

lemma command_child_before: "command_child tr c \<Longrightarrow> command_child (x @ tr) c"
  unfolding command_child_def by (metis append.assoc)

lemma command_childI:
  assumes "enters k" "a_ret a = 0" "list_all (\<lambda>d. \<not> is_fork d) (calls q)" "0 < a_ret f"
  shows "command_child (p @ (k, a) # q @ [(Fork, f)]) (a_ret f)"
  unfolding command_child_def using assms by blast

lemma special_enters: "\<not> special c \<Longrightarrow> \<not> enters c"
  by (cases c rule: special.cases) simp_all

text \<open>Where a call with some property is made once, there is one way to cut the trace at it.\<close>

lemma cut_at:
  assumes "p @ x # r = p' @ x' # r'" "P x'" "\<forall>y \<in> set p. \<not> P y" "\<forall>y \<in> set r. \<not> P y"
  shows "p' = p \<and> x' = x \<and> r' = r"
  using assms
proof (induction p arbitrary: p')
  case Nil
  then show ?case by (cases p') auto
next
  case (Cons y p)
  then show ?case by (cases p') auto
qed

lemma cut_first:
  assumes "p @ x # r = p' @ x' # r'" "P x" "P x'" "\<forall>y \<in> set p. \<not> P y" "\<forall>y \<in> set p'. \<not> P y"
  shows "p' = p \<and> x' = x \<and> r' = r"
  using assms
proof (induction p arbitrary: p')
  case Nil
  then show ?case by (cases p') auto
next
  case (Cons y p)
  then show ?case by (cases p') auto
qed

text \<open>Nothing that enters such a namespace.\<close>

definition outside :: "trace \<Rightarrow> bool" where
  "outside tr \<longleftrightarrow> list_all (\<lambda>c. \<not> enters c) (calls tr)"

lemma outside_iff: "outside tr \<longleftrightarrow> (\<forall>y \<in> set tr. \<not> enters (fst y))"
  by (auto simp: outside_def calls_def list_all_iff)

lemma outside_append [simp]: "outside (p @ q) \<longleftrightarrow> outside p \<and> outside q"
  and outside_Cons [simp]: "outside (x # q) \<longleftrightarrow> \<not> enters (fst x) \<and> outside q"
  and outside_Nil [simp]: "outside []"
  by (auto simp: outside_iff)

lemma outside_none: "outside tr \<Longrightarrow> \<not> command_child tr c"
  unfolding command_child_def outside_iff by force

lemma one_entry:
  assumes "outside p" "outside q" "command_child (p @ (k, a) # q) c"
  obtains x f r where "a_ret a = 0" "q = x @ (Fork, f) # r" "list_all (\<lambda>d. \<not> is_fork d) (calls x)" "a_ret f = c" "0 < c"
proof -
  obtain p' k' a' x f r where e: "p @ (k, a) # q = p' @ (k', a') # x @ (Fork, f) # r" "enters k'" "a_ret a' = 0"
    "list_all (\<lambda>d. \<not> is_fork d) (calls x)" "a_ret f = c" "0 < c"
    using assms(3) unfolding command_child_def by blast
  have "p' = p \<and> (k', a') = (k, a) \<and> x @ (Fork, f) # r = q"
    by (rule cut_at [OF e(1), where P = "\<lambda>y. enters (fst y)"]) (use e(2) assms(1,2) in \<open>auto simp: outside_iff\<close>)
  then have "a_ret a = 0" "q = x @ (Fork, f) # r" using e(3) by simp_all
  then show ?thesis using that e(4-6) by blast
qed

lemma entry_refused:
  assumes "outside p" "outside q" "a_ret a \<noteq> 0"
  shows "\<not> command_child (p @ (k, a) # q) c"
proof
  assume "command_child (p @ (k, a) # q) c"
  then show False by (rule one_entry [OF assms(1,2)]) (use assms(3) in blast)
qed

lemma no_fork_after:
  assumes "outside p" "outside q" "list_all (\<lambda>d. \<not> is_fork d) (calls q)"
  shows "\<not> command_child (p @ (k, a) # q) c"
proof
  assume "command_child (p @ (k, a) # q) c"
  then show False by (rule one_entry [OF assms(1,2)]) (use assms(3) in \<open>auto simp: calls_def\<close>)
qed

lemma first_fork:
  assumes "outside p" "outside (x @ (Fork, f) # r)" "list_all (\<lambda>d. \<not> is_fork d) (calls x)"
  shows "command_child (p @ (k, a) # x @ (Fork, f) # r) c \<Longrightarrow> c = a_ret f \<and> 0 < c"
proof -
  assume "command_child (p @ (k, a) # x @ (Fork, f) # r) c"
  then obtain x' f' r' where e: "x @ (Fork, f) # r = x' @ (Fork, f') # r'" "list_all (\<lambda>d. \<not> is_fork d) (calls x')"
      "a_ret f' = c" "0 < c"
    by (rule one_entry [OF assms(1,2)])
  have "x' = x \<and> (Fork, f') = (Fork, f) \<and> r' = r"
    by (rule cut_first [where P = "\<lambda>y. is_fork (fst y)", OF e(1)]) (use e(2) assms(3) in \<open>auto simp: calls_def list_all_iff\<close>)
  then show ?thesis using e by auto
qed

lemma fork_refused:
  assumes "outside p" "outside r" "a_ret f < 0"
  shows "\<not> command_child (p @ (k, a) # (Fork, f) # r) c"
  using first_fork [of p "[]" f r k a c] assms by (auto simp: calls_def)

section \<open>Waiting\<close>

text \<open>
  How a child can end, the word by which \<open>waitpid\<close> tells it, and the status by which a shell does: the
  number a process exits with has eight bits, the signal that ends one is not 0 and not 127, and it may leave a
  core file.
\<close>

datatype ending = Exits nat | Dies nat bool

fun ending_ok :: "ending \<Rightarrow> bool" where
  "ending_ok (Exits n) = (n < 256)"
| "ending_ok (Dies s core) = (1 \<le> s \<and> s \<le> 126)"

fun wait_word :: "ending \<Rightarrow> nat" where
  "wait_word (Exits n) = n * 256"
| "wait_word (Dies s core) = s + (if core then 128 else 0)"

fun shell_status :: "ending \<Rightarrow> nat" where
  "shell_status (Exits n) = n"
| "shell_status (Dies s core) = 128 + s"

text \<open>
  \<open>tells v r\<close>: the answer \<open>v\<close> of a wait that no signal cut short gives the status \<open>r\<close>.  Without a child to
  wait for it is 0, because somebody else has seen it end, and 1 after any other error.
\<close>

definition tells :: "answer \<Rightarrow> int \<Rightarrow> bool" where
  "tells v r \<longleftrightarrow>
     (if 0 \<le> a_ret v then \<forall>e. ending_ok e \<and> wait_word e = st_mode (a_stat v) \<longrightarrow> r = int (shell_status e)
      else a_errno v \<noteq> EINTR \<and> r = (if a_errno v = ECHILD then 0 else 1))"

lemma shell_status_decoded: "ending_ok e \<Longrightarrow> exit_code_from_status (wait_word e) = shell_status e"
proof (cases e)
  case (Exits n)
  have "256 * n mod 128 = 0" by presburger
  then show "ending_ok e \<Longrightarrow> ?thesis" using Exits by (simp add: exit_code_from_status_def mult.commute)
next
  case (Dies s core)
  have "(s + 128) mod 128 = s" if "s \<le> 126" using that by simp
  then show "ending_ok e \<Longrightarrow> ?thesis" using Dies by (auto simp: exit_code_from_status_def)
qed

lemma exit_code_bound: "exit_code_from_status n \<le> 255"
  using mod_less_divisor [of 256 "n div 256"] mod_less_divisor [of 128 n] by (auto simp: exit_code_from_status_def)

lemma exit_code_0 [simp]: "exit_code_from_status 0 = 0"
  by (simp add: exit_code_from_status_def)

text \<open>A wait ends with an answer that decides its result.\<close>

definition decided :: "answer \<Rightarrow> nat \<Rightarrow> int \<times> nat \<Rightarrow> bool" where
  "decided v st x \<longleftrightarrow> (if 0 \<le> a_ret v then x = (0, st_mode (a_stat v))
     else a_errno v \<noteq> EINTR \<and> x = (if a_errno v = ECHILD then 0 else -1, st))"

lemma bindx_valueE:
  assumes "bindx m f = Some (Inr r, z')"
  obtains x z where "m = Some (Inr x, z)" "f x z = Some (Inr r, z')"
  using assms by (auto simp: bindx_def split: option.splits sum.splits prod.splits)

lemma pidwait_steps:
  assumes "pidwait os pid st s = Some (x, t)"
  shows "\<exists>ext v. fst t = fst s @ ext @ [(Waitpid pid, v)] \<and> decided v st x"
proof -
  have "\<exists>ext v. fst (snd y) = fst s @ ext @ [(Waitpid pid, v)] \<and> decided v st (fst y)"
    if "pidwait os pid st s = Some y" for y
  proof (rule pidwait.raw_induct [OF _ that, where P = "\<lambda>os pid st s y.
      \<exists>ext v. fst (snd y) = fst s @ ext @ [(Waitpid pid, v)] \<and> decided v st (fst y)"])
    fix wait os pid st s y
    assume IH: "\<And>os pid st s y. wait os pid st s = Some y \<Longrightarrow>
        \<exists>ext v. fst (snd y) = fst s @ ext @ [(Waitpid pid, v)] \<and> decided v st (fst y)"
      and e: "(let (a, s) = psys os (Waitpid pid) s in
        if a_ret a \<ge> 0 then Some ((0, st_mode (a_stat a)), s)
        else if a_errno a = EINTR then wait os pid st s
        else if a_errno a = ECHILD then Some ((0, st), s) else Some ((-1, st), s)) = Some y"
    define a where "a = os (fst s) (Waitpid pid)"
    define u where "u = (fst s @ [(Waitpid pid, a)], snd s)"
    have u: "fst u = fst s @ [] @ [(Waitpid pid, a)]" by (simp add: u_def)
    have "wait os pid st u = Some y \<or> snd y = u \<and> decided a st (fst y)"
      using e by (auto simp: psys_eq decided_def a_def [symmetric] u_def [symmetric] split: if_splits)
    then show "\<exists>ext v. fst (snd y) = fst s @ ext @ [(Waitpid pid, v)] \<and> decided v st (fst y)"
    proof
      assume "wait os pid st u = Some y"
      then obtain ext v where "fst (snd y) = fst u @ ext @ [(Waitpid pid, v)]" "decided v st (fst y)" using IH by blast
      then have "fst (snd y) = fst s @ ((Waitpid pid, a) # ext) @ [(Waitpid pid, v)]" using u by simp
      then show ?thesis using \<open>decided v st (fst y)\<close> by blast
    next
      assume "snd y = u \<and> decided a st (fst y)"
      then show ?thesis using u by metis
    qed
  qed
  then show ?thesis using assms by fastforce
qed

lemma decided_tells: "decided v 0 (k, n) \<Longrightarrow> tells v (if k \<noteq> 0 then 1 else int (exit_code_from_status n))"
  using shell_status_decoded by (auto simp: decided_def tells_def split: if_splits) metis

lemma decided_whole: "decided v st x \<Longrightarrow> 0 \<le> a_ret v \<or> a_errno v \<noteq> EINTR"
  by (auto simp: decided_def split: if_splits)

section \<open>The steps of a start\<close>

text \<open>The trace goes on from \<open>tr\<close> without entering a namespace.\<close>

definition calm :: "trace \<Rightarrow> trace \<Rightarrow> bool" where
  "calm tr t \<longleftrightarrow> (\<exists>x. t = tr @ x \<and> list_all (\<lambda>c. \<not> special c) (calls x))"

interpretation calmly: trace_inv "calm tr" for tr
proof unfold_locales
  fix t c a assume "calm tr t" "\<not> special c"
  then obtain x where "t = tr @ x" "list_all (\<lambda>c. \<not> special c) (calls x)" unfolding calm_def by blast
  then have "t @ [(c, a)] = tr @ (x @ [(c, a)])" "list_all (\<lambda>c. \<not> special c) (calls (x @ [(c, a)]))"
    using \<open>\<not> special c\<close> by (simp_all add: calls_def)
  then show "calm tr (t @ [(c, a)])" unfolding calm_def by blast
qed

lemma calm_refl [simp]: "calm tr tr"
  by (simp add: calm_def calls_def)

lemma calm_trans: "calm a b \<Longrightarrow> calm b c \<Longrightarrow> calm a c"
  by (auto simp: calm_def calls_def)

lemma calm_outside: "calm tr t \<Longrightarrow> \<exists>x. t = tr @ x \<and> outside x"
  unfolding calm_def outside_def using special_enters by (metis (mono_tags, lifting) list.pred_mono_strong)

lemma calm_option: "pred_option (\<lambda>x. calm tr (f x)) m \<Longrightarrow> m = Some y \<Longrightarrow> calm tr (f y)"
  by simp

text \<open>
  \<open>begun ext root child\<close>: the calls \<open>ext\<close> end with the making of the root's directory, of the new namespace and
  of the child.  \<open>barren ext\<close>: they have made no child that runs the command, nor has what follows as
  long as it enters no namespace.
\<close>

definition begun :: "trace \<Rightarrow> string \<Rightarrow> int \<Rightarrow> bool" where
  "begun ext root child \<longleftrightarrow> (\<exists>x m a f. outside x \<and> 0 \<le> a_ret m \<and> a_ret a = 0 \<and> 0 < a_ret f \<and> root = a_path m \<and> child = a_ret f \<and>
     ext = x @ [(Ns (Mkdtemp ''/tmp/cage-XXXXXX''), m), (Ns (Unshare 0x28000000), a), (Fork, f)])"

definition barren :: "trace \<Rightarrow> bool" where
  "barren ext \<longleftrightarrow> (\<forall>y c. outside y \<longrightarrow> \<not> command_child (ext @ y) c)"

lemma barren_outside: "outside x \<Longrightarrow> barren x"
  by (simp add: barren_def outside_none)

lemma barren_more: "barren ext \<Longrightarrow> outside y \<Longrightarrow> barren (ext @ y)"
  by (simp add: barren_def)

lemma command_child_tl:
  assumes "command_child (y # t) c" "\<not> enters (fst y)"
  shows "command_child t c"
proof -
  obtain p k a q f r where e: "y # t = p @ (k, a) # q @ (Fork, f) # r" "enters k" "a_ret a = 0"
      "list_all (\<lambda>d. \<not> is_fork d) (calls q)" "a_ret f = c" "0 < c"
    using assms(1) unfolding command_child_def by blast
  then obtain p' where "t = p' @ (k, a) # q @ (Fork, f) # r" using assms(2) by (cases p) auto
  then show ?thesis using e unfolding command_child_def by blast
qed

lemma command_child_skip: "outside x \<Longrightarrow> command_child (x @ t) c \<Longrightarrow> command_child t c"
  by (induction x) (auto dest: command_child_tl)

lemma barren_before: "outside x \<Longrightarrow> barren y \<Longrightarrow> barren (x @ y)"
  unfolding barren_def using command_child_skip [of x] by auto

lemma barren_none: "barren ext \<Longrightarrow> \<not> command_child ext c"
  unfolding barren_def by (metis append_Nil2 outside_Nil)

lemma barren_calm: "t = tr @ x \<Longrightarrow> barren x \<Longrightarrow> calm t u \<Longrightarrow> \<exists>y. u = tr @ y \<and> barren y"
  using calm_outside barren_more by (metis append.assoc)

lemma begun_before: "outside x \<Longrightarrow> begun ext root child \<Longrightarrow> begun (x @ ext) root child"
proof -
  assume x: "outside x" and "begun ext root child"
  then obtain y m a f where "outside y" "0 \<le> a_ret m" "a_ret a = 0" "0 < a_ret f" "root = a_path m" "child = a_ret f"
    "ext = y @ [(Ns (Mkdtemp ''/tmp/cage-XXXXXX''), m), (Ns (Unshare 0x28000000), a), (Fork, f)]"
    unfolding begun_def by blast
  then show ?thesis unfolding begun_def using x
    by (intro exI [of _ "x @ y"] exI [of _ m] exI [of _ a] exI [of _ f]) simp
qed

lemma begun_child:
  assumes "begun ext root child"
  shows "command_child ext child"
proof -
  obtain x m a f where e: "a_ret a = 0" "0 < a_ret f" "child = a_ret f"
    "ext = x @ [(Ns (Mkdtemp ''/tmp/cage-XXXXXX''), m), (Ns (Unshare 0x28000000), a), (Fork, f)]"
    using assms unfolding begun_def by blast
  then show ?thesis
    using command_childI [of "Ns (Unshare 0x28000000)" a "[]" f "x @ [(Ns (Mkdtemp ''/tmp/cage-XXXXXX''), m)]"] by (simp add: calls_def)
qed

lemma begun_root: "begun ext root child \<Longrightarrow> \<exists>m. (Ns (Mkdtemp ''/tmp/cage-XXXXXX''), m) \<in> set ext \<and> 0 \<le> a_ret m \<and> root = a_path m"
  unfolding begun_def by force

text \<open>Making the mounts' child.  Where the \<open>fork\<close> answers 0 the process is the child, which leaves by itself.\<close>

lemma fork_mount_child_steps:
  assumes "fork_mount_child w pr cfg rc priv x = Some (Inr pid, y)"
  shows "\<exists>f. fst (fst y) = fst (fst x) @ [(Fork, f)] \<and> (pid = -1 \<and> a_ret f < 0 \<or> pid = a_ret f \<and> 0 < pid)"
proof -
  define f where "f = w_os w (fst (fst x)) Fork"
  have n: "bindx m (\<lambda>_ x. lift_run (quit w 1) x) \<noteq> Some (Inr pid, y)" for m :: "(mst, unit) run"
    by (auto simp: bindx_def lift_run_def quit_def Let_def split_def split: option.split sum.split)
  have "fst (fst y) = fst (fst x) @ [(Fork, f)] \<and> (pid = -1 \<and> a_ret f < 0 \<or> pid = a_ret f \<and> 0 < pid)"
    using assms n by (auto simp: fork_mount_child_def child_fork_def psys_eq f_def [symmetric] Let_def split: if_splits)
  then show ?thesis by blast
qed

lemma prepare_mounts_steps:
  assumes "prepare_mounts w pr cfg rc priv x = Some (Inr (r, pr'), y)" and t: "pr_root pr = ''/tmp/cage-XXXXXX''"
  shows "\<exists>ext. fst (fst y) = fst (fst x) @ ext \<and> (r = 0 \<and> begun ext (pr_root pr') (pr_child pr') \<or> r = -1 \<and> barren ext)"
proof -
  let ?t = "Ns (Mkdtemp ''/tmp/cage-XXXXXX'')" and ?k = "Ns (Unshare 0x28000000)"
  define m where "m = w_os w (fst (fst x)) ?t"
  define s1 where "s1 = (fst (fst x) @ [(?t, m)], snd (fst x))"
  define a where "a = w_os w (fst s1) ?k"
  define s2 where "s2 = (fst s1 @ [(?k, a)], snd s1)"
  have ns: "ns_setup (w_os w) s1 = (if a_ret a \<noteq> 0 then -1 else 0, s2)"
    by (simp add: ns_setup_def psys_eq CLONE_NEWPID_def CLONE_NEWIPC_def a_def s2_def)
  let ?pr = "pr\<lparr>pr_root := a_path m\<rparr>"
  have p: "prepare_mounts w pr cfg rc priv x =
      (if a_ret m < 0 then Some (Inr (-1, pr), (s1, snd x))
       else if a_ret a \<noteq> 0 then Some (Inr (-1, ?pr), (s2, snd x))
       else bindx (fork_mount_child w ?pr cfg rc priv (s2, snd x))
         (\<lambda>pid x. Some (Inr (if pid < 0 then (-1, ?pr) else (0, ?pr\<lparr>pr_child := pid\<rparr>)), x)))"
    by (simp add: prepare_mounts_def mcall_def t psys_eq m_def [symmetric] s1_def [symmetric] ns Let_def)
  consider "a_ret m < 0" "r = -1" "fst (fst y) = fst (fst x) @ [(?t, m)]"
    | "a_ret a \<noteq> 0" "r = -1" "fst (fst y) = fst (fst x) @ [(?t, m), (?k, a)]"
    | pid where "0 \<le> a_ret m" "a_ret a = 0" "fork_mount_child w ?pr cfg rc priv (s2, snd x) = Some (Inr pid, y)"
        "(r, pr') = (if pid < 0 then (-1, ?pr) else (0, ?pr\<lparr>pr_child := pid\<rparr>))"
  proof -
    have s: "fst s1 = fst (fst x) @ [(?t, m)]" "fst s2 = fst (fst x) @ [(?t, m), (?k, a)]" by (simp_all add: s1_def s2_def)
    show thesis
    proof (cases "a_ret m < 0 \<or> a_ret a \<noteq> 0")
      case True
      then show ?thesis using assms(1) s that(1,2) unfolding p by (auto split: if_splits)
    next
      case False
      then have "bindx (fork_mount_child w ?pr cfg rc priv (s2, snd x))
         (\<lambda>pid x. Some (Inr (if pid < 0 then (-1, ?pr) else (0, ?pr\<lparr>pr_child := pid\<rparr>)), x)) = Some (Inr (r, pr'), y)"
        using assms(1) unfolding p by simp
      then show ?thesis using False that(3) by (auto elim!: bindx_valueE)
    qed
  qed
  then show ?thesis
  proof cases
    case 1
    then show ?thesis by (auto intro!: barren_outside)
  next
    case 2
    have "barren [(?t, m), (?k, a)]"
      unfolding barren_def using entry_refused [of "[(?t, m)]" _ a ?k] 2(1) by simp
    then show ?thesis using 2 by blast
  next
    case 3
    obtain f where f: "fst (fst y) = fst s2 @ [(Fork, f)]" "pid = -1 \<and> a_ret f < 0 \<or> pid = a_ret f \<and> 0 < pid"
      using fork_mount_child_steps [OF 3(3)] by auto
    have e: "fst (fst y) = fst (fst x) @ [(?t, m), (?k, a), (Fork, f)]" using f(1) by (simp add: s2_def s1_def)
    show ?thesis
    proof (cases "pid < 0")
      case True
      then have "barren [(?t, m), (?k, a), (Fork, f)]"
        unfolding barren_def using fork_refused [of "[(?t, m)]" _ f ?k a] f(2) by auto
      then show ?thesis using e 3(4) True by auto
    next
      case False
      then have "begun [(?t, m), (?k, a), (Fork, f)] (a_path m) (a_ret f)"
        unfolding begun_def using 3(1,2) f(2) by (intro exI [of _ "[]"] exI [of _ m] exI [of _ a] exI [of _ f]) auto
      then show ?thesis using e 3(4) False f(2) by auto
    qed
  qed
qed

lemma do_root_prep_steps:
  assumes "do_root_prep w cfg pr rc priv z = Some (Inr (r, pr', q), z')"
  shows "\<exists>ext. fst (fst (fst z')) = fst (fst (fst z)) @ ext \<and>
    (r = 0 \<and> begun ext (pr_root pr') (pr_child pr') \<or> r = -1 \<and> barren ext)"
proof -
  obtain k p b y where e: "early_prep w cfg pr priv z = Some ((k, p, b), y)"
    using assms by (auto simp: do_root_prep_def split: option.splits)
  obtain x where x: "fst (fst (fst y)) = fst (fst (fst z)) @ x" "outside x"
    using calm_outside calm_option [OF calmly.early_prep_keeps [OF calm_refl] e] by auto
  let ?p = "p\<lparr>pr_root := ''/tmp/cage-XXXXXX''\<rparr>"
  show ?thesis
  proof (cases "k = 0")
    case False
    then show ?thesis using assms x barren_outside by (auto simp: do_root_prep_def e)
  next
    case True
    then obtain l p' v where m: "prepare_mounts w ?p cfg rc b (fst y) = Some (Inr (l, p'), v)"
      and r: "if l \<noteq> 0 then r = -1 \<and> fst (fst (fst z')) = fst (unprepare (w_os w) (pr_root p') (fst v))
        else r = 0 \<and> pr' = p' \<and> fst (fst (fst z')) = fst (fst v)"
      using assms by (auto simp: do_root_prep_def e split: option.splits sum.splits if_splits)
    obtain ext where ext: "fst (fst v) = fst (fst (fst y)) @ ext"
        "l = 0 \<and> begun ext (pr_root p') (pr_child p') \<or> l = -1 \<and> barren ext"
      using prepare_mounts_steps [OF m] by auto
    have v: "fst (fst v) = fst (fst (fst z)) @ x @ ext" using ext(1) x(1) by simp
    show ?thesis
    proof (cases "l = 0")
      case True
      then have "begun (x @ ext) (pr_root p') (pr_child p')"
        using ext(2) x(2) begun_before by auto
      then show ?thesis using True r v by auto
    next
      case False
      have c: "calm (fst (fst v)) (fst (unprepare (w_os w) (pr_root p') (fst v)))" by (rule calmly.unprepare_keeps) simp
      have "barren (x @ ext)" using ext(2) False x(2) barren_before by blast
      then show ?thesis using barren_calm [OF v _ c] False r by auto
    qed
  qed
qed

text \<open>
  What the start's state says of the calls \<open>ext\<close> it has made: the group that is to be removed is the own one, and
  the root is a directory it has made.
\<close>

definition own_group :: "trace \<Rightarrow> spawn_st \<Rightarrow> bool" where
  "own_group ext st \<longleftrightarrow> (sp_cg_fs_type st = 2 \<longrightarrow> (\<exists>a. (Ns Getpid, a) \<in> set ext \<and> sp_cg_pid st = a_ret a))"

definition own_root :: "trace \<Rightarrow> spawn_st \<Rightarrow> bool" where
  "own_root ext st \<longleftrightarrow> (\<forall>root. sp_root st = Some root \<longrightarrow>
     (\<exists>m. (Ns (Mkdtemp ''/tmp/cage-XXXXXX''), m) \<in> set ext \<and> 0 \<le> a_ret m \<and> root = a_path m))"

definition set_up :: "trace \<Rightarrow> int \<Rightarrow> spawn_st \<Rightarrow> bool" where
  "set_up ext k st \<longleftrightarrow> own_group ext st \<and>
     (if k = 0 then \<exists>root. sp_root st = Some root \<and> begun ext root (sp_child st) else sp_root st = None \<and> barren ext)"

lemma set_up_root: "set_up ext k st \<Longrightarrow> own_root ext st"
  using begun_root by (auto simp: set_up_def own_root_def split: if_splits)

lemma own_more: "own_group x st \<Longrightarrow> own_group (x @ y) st" "own_root x st \<Longrightarrow> own_root (x @ y) st"
  by (auto simp: own_group_def own_root_def)

lemma own_before: "own_group x st \<Longrightarrow> own_group (y @ x) st"
  by (auto simp: own_group_def)

lemma set_up_before: "outside x \<Longrightarrow> set_up ext k st \<Longrightarrow> set_up (x @ ext) k st"
  unfolding set_up_def using own_before begun_before barren_before by auto

lemma do_setup_prep_steps:
  assumes "do_setup_prep w cfg st ruid z = Some (Inr (k, st'), z')" and st: "sp_root st = None"
    and own: "own_group x st" and x: "outside x" "fst (fst (fst z)) = tr @ x"
  shows "\<exists>ext. fst (fst (fst z')) = tr @ ext \<and> set_up ext k st' \<and> sp_pidfile st' = sp_pidfile st"
proof -
  obtain s m fs where z: "z = ((s, m), fs)" by (metis prod.exhaust)
  obtain f s1 where f: "create_futex (w_os w) s = (f, s1)" by (metis prod.exhaust)
  have "calm (fst s) (fst s1)" using calmly.create_futex_keeps [OF calm_refl, of s "w_os w"] by (simp add: f)
  then obtain y where y: "fst s1 = tr @ x @ y" "outside y" using calm_outside [of "fst s" "fst s1"] x(2) by (auto simp: z)
  show ?thesis
  proof (cases f)
    case None
    then have "set_up (x @ y) k st'" "sp_pidfile st' = sp_pidfile st" "fst (fst (fst z')) = tr @ x @ y"
      using assms(1) st own_more(1) [OF own, of y] barren_outside [of "x @ y"] x(1) y
      by (auto simp: do_setup_prep_def z f Let_def set_up_def own_group_def)
    then show ?thesis by blast
  next
    case (Some a)
    obtain pr rc r pr' q priv v where
      d: "do_root_prep w cfg pr rc (sp_cgroup_root_private st) ((s1, m), fs) = Some (Inr (r, pr', q, priv), v)" and
      r: "z' = v" "k = (if r < 0 then -1 else 0)" "sp_cg_fs_type st' = sp_cg_fs_type st" "sp_cg_pid st' = sp_cg_pid st"
        "sp_pidfile st' = sp_pidfile st" "r < 0 \<Longrightarrow> sp_root st' = None"
        "\<not> r < 0 \<Longrightarrow> sp_root st' = Some (pr_root pr') \<and> sp_child st' = pr_child pr'"
      using assms(1) st by (auto simp: do_setup_prep_def z f Some Let_def elim!: bindx_valueE split: if_splits prod.splits)
    obtain ext where e: "fst (fst (fst v)) = fst s1 @ ext" "r = 0 \<and> begun ext (pr_root pr') (pr_child pr') \<or> r = -1 \<and> barren ext"
      using do_root_prep_steps [OF d] by auto
    have o: "outside (x @ y)" using x(1) y(2) by simp
    have "own_group ((x @ y) @ ext) st'" using own_more(1) [OF own, of "y @ ext"] r(3,4) by (simp add: own_group_def)
    then have "set_up ((x @ y) @ ext) k st'"
      using e(2) r begun_before [OF o] barren_before [OF o] by (auto simp: set_up_def)
    moreover have "fst (fst (fst z')) = tr @ ((x @ y) @ ext)" using e(1) r(1) y(1) by simp
    ultimately show ?thesis using r(5) by blast
  qed
qed

lemma do_setup_steps:
  assumes "do_setup w cfg st ruid z = Some (Inr (k, st'), z')" and st: "sp_root st = None" "sp_cg_fs_type st = 0"
  shows "\<exists>ext. fst (fst (fst z')) = fst (fst (fst z)) @ ext \<and> set_up ext k st' \<and> sp_pidfile st' = sp_pidfile st"
proof -
  let ?tr = "fst (fst (fst z))"
  obtain r1 st1 y where n: "setup_net_or_fail w cfg st (fst z) = Some ((r1, st1), y)"
    using assms by (auto simp: do_setup_def split: option.splits)
  have s1: "sp_root st1 = None" "sp_cg_fs_type st1 = 0" "sp_pidfile st1 = sp_pidfile st"
    using n st by (auto simp: setup_net_or_fail_def split: if_splits option.splits)
  obtain x where x: "fst (fst y) = ?tr @ x" "outside x"
    using calm_outside calm_option [OF calmly.setup_net_or_fail_keeps [OF calm_refl] n] by auto
  obtain r2 st2 s where c: "setup_cgroup w cfg st1 (fst y) = ((r2, st2), s)" by (metis prod.exhaust)
  obtain u where u: "fst s = fst (fst y) @ u" "outside u" "own_group u st2" "sp_root st2 = None" "sp_pidfile st2 = sp_pidfile st1"
    using c s1 by (auto simp: setup_cgroup_def own_group_def psys_eq Let_def split: if_splits)
  have s: "fst s = ?tr @ x @ u" using u(1) x(1) by simp
  show ?thesis
  proof (cases "r1 < 0 \<or> r2 < 0")
    case True
    then consider "r1 < 0" | "\<not> r1 < 0" "r2 < 0" by blast
    then show ?thesis
    proof cases
      case 1
      then have "set_up x k st'" using assms(1) s1 x(2) barren_outside by (simp add: do_setup_def n set_up_def own_group_def)
      then show ?thesis using assms(1) 1 s1(3) x(1) by (auto simp: do_setup_def n)
    next
      case 2
      then have "k = -1" "st' = st2" "fst (fst (fst z')) = ?tr @ x @ u"
        using assms(1) s by (auto simp: do_setup_def n c)
      moreover have "set_up (x @ u) (-1) st2" using own_before [OF u(3)] u(2,4) x(2) barren_outside by (simp add: set_up_def)
      ultimately show ?thesis using u(5) s1(3) by auto
    qed
  next
    case False
    then have d: "do_setup_prep w cfg st2 ruid ((s, snd y), snd z) = Some (Inr (k, st'), z')"
      using assms(1) by (simp add: do_setup_def n c)
    have "\<exists>ext. fst (fst (fst z')) = ?tr @ ext \<and> set_up ext k st' \<and> sp_pidfile st' = sp_pidfile st2"
      by (rule do_setup_prep_steps [OF d u(4) own_before [OF u(3), of x]]) (use u(2) x(2) s in simp_all)
    then show ?thesis using u(5) s1(3) by simp
  qed
qed

section \<open>What a start leaves behind\<close>

text \<open>
  Tidying up after the calls \<open>ext\<close> of a start: a call that clears away the control group of this
  process, by the number that \<open>getpid\<close> has answered, or the directory that its \<open>mkdtemp\<close> has made.
\<close>

definition own_tidying :: "trace \<Rightarrow> syscall \<Rightarrow> bool" where
  "own_tidying ext c \<longleftrightarrow>
     (\<exists>a. (Ns Getpid, a) \<in> set ext \<and> cleanup_call ''/sys/fs/cgroup'' (a_ret a) c) \<or>
     (\<exists>m. (Ns (Mkdtemp ''/tmp/cage-XXXXXX''), m) \<in> set ext \<and> 0 \<le> a_ret m \<and> rm_call (a_path m) c)"

text \<open>After \<open>tr\<close> the calls \<open>ext\<close> were made, the removal of the pid file was asked for, and the rest tidied up.\<close>

definition removed :: "string \<Rightarrow> trace \<Rightarrow> trace \<Rightarrow> trace \<Rightarrow> bool" where
  "removed p tr ext t \<longleftrightarrow> (\<exists>u post. t = tr @ ext @ (Unlink p, u) # post \<and> list_all (own_tidying ext) (calls post))"

lemma remove_root_tidies:
  assumes "own_root ext st"
  shows "adds (own_tidying ext) s (snd (remove_root os st s))"
proof (cases "sp_root st")
  case (Some root)
  then obtain m where m: "(Ns (Mkdtemp ''/tmp/cage-XXXXXX''), m) \<in> set ext" "0 \<le> a_ret m" "root = a_path m"
    using assms by (auto simp: own_root_def)
  have o: "own_tidying ext c" if "rm_call root c" for c using m that unfolding own_tidying_def by blast
  have t: "adds (own_tidying ext) s (snd (io_rmtree os root s))" for s
    using rmtree_extends(1) [unfolded rm_extends_def, OF in_tree_refl, of os root s] o
    by (auto simp: adds_def rm_trace_def list_all_iff)
  let ?t = "snd (psys os (Rmdir root) s)"
  have r: "adds (own_tidying ext) s ?t" by (rule adds_psys) (simp add: o in_tree_refl)
  have "snd (remove_root os st s) = ?t \<or> snd (remove_root os st s) = snd (io_rmtree os root ?t)"
    by (simp add: remove_root_def Some psys_eq)
  then show ?thesis using r adds_trans [OF r t] by metis
qed (simp add: remove_root_def)

lemma cgroup_cleanup_tidies:
  assumes "cgroup_cleanup os (sp_cg_pid st) (sp_cg_fs_type st) s = Some t" "own_group ext st"
  shows "adds (own_tidying ext) s t"
proof -
  note a = cleanup_adds [OF assms(1) [unfolded cgroup_cleanup_def]]
  show ?thesis
  proof (cases "sp_cg_fs_type st = 2")
    case True
    then obtain g where g: "(Ns Getpid, g) \<in> set ext" "sp_cg_pid st = a_ret g" using assms(2) by (auto simp: own_group_def)
    then have "own_tidying ext c" if "cleanup_call ''/sys/fs/cgroup'' (sp_cg_pid st) c" for c
      using that unfolding own_tidying_def by auto
    then show ?thesis using a adds_mono by blast
  qed (use a in simp)
qed

lemma unlink_then_tidy:
  assumes "cgroup_cleanup os (sp_cg_pid st) (sp_cg_fs_type st) (unlink_pidfile os p s) = Some t"
    "own_group ext st" "own_root ext st" "fst s = tr @ ext"
  shows "removed p tr ext (fst (snd (remove_root os st t)))"
proof -
  have u: "fst (unlink_pidfile os p s) = fst s @ [(Unlink p, os (fst s) (Unlink p))]"
    by (simp add: unlink_pidfile_def io_unlink_quiet_def psys_eq invalidate_def)
  have "adds (own_tidying ext) (unlink_pidfile os p s) (snd (remove_root os st t))"
    by (rule adds_trans [OF cgroup_cleanup_tidies [OF assms(1,2)] remove_root_tidies [OF assms(3)]])
  then show ?thesis using u assms(4) unfolding adds_def removed_def by auto
qed

text \<open>The parent's part up to the wait for the child; it may have removed the root already.\<close>

definition same_start :: "spawn_st \<Rightarrow> spawn_st \<Rightarrow> bool" where
  "same_start st st1 \<longleftrightarrow> sp_pidfile st1 = sp_pidfile st \<and> sp_child st1 = sp_child st \<and> sp_cg_fs_type st1 = sp_cg_fs_type st \<and>
     sp_cg_pid st1 = sp_cg_pid st \<and> (sp_root st1 = sp_root st \<or> sp_root st1 = None)"

lemma same_start_own: "same_start st st1 \<Longrightarrow> own_group x st \<Longrightarrow> own_root x st \<Longrightarrow> own_group x st1 \<and> own_root x st1"
  by (auto simp: same_start_def own_group_def own_root_def)

lemma remove_root_same: "same_start st st1 \<Longrightarrow> same_start st (fst (remove_root os st1 s))"
  by (auto simp: same_start_def remove_root_def Let_def split_def split: option.split)

lemma remove_root_futex: "sp_root_futex (fst (remove_root os st s)) = sp_root_futex st"
  by (simp add: remove_root_def Let_def split_def split: option.split)

lemma spawn_exec_finishes:
  assumes "spawn_exec w st s = Some (r, s')"
  shows "\<exists>st1 s1. same_start st st1 \<and> calm (fst s) (fst s1) \<and> finish_child w st1 s1 = Some (r, s')"
proof -
  let ?os = "w_os w" and ?st = "st\<lparr>sp_pidfd := -1\<rparr>"
  let ?a = "close_pid ?os (sp_pidfd st) (snd (psys ?os (Write (sp_pidfd st) (dec_int (sp_child st))) s))"
  have a: "calm (fst s) (fst ?a)" by (intro calmly.close_pid_keeps calmly.psys_keeps) simp_all
  define n where "n = (case sp_net_futex ?st of
      Some f \<Rightarrow> if 0 \<le> sp_net_id ?st then do_parent_net w (sp_child ?st) (sp_net_id ?st) f ?a else Some ?a
    | None \<Rightarrow> Some ?a)"
  have e: "spawn_exec w st s = (case n of None \<Rightarrow> None | Some s \<Rightarrow>
      let s = free_futex ?os (sp_net_futex ?st) s in
      (case sp_root_futex ?st of
         None \<Rightarrow> None
       | Some rf \<Rightarrow>
           (case wait_root_ready ?os rf (sp_child ?st) s of
              None \<Rightarrow> None
            | Some (r, s) \<Rightarrow>
                let (st, s) = (if r = 0 then remove_root ?os ?st s else (?st, s)) in
                finish_child w st (free_futex ?os (sp_root_futex st) s))))"
    unfolding n_def spawn_exec_def Let_def split_def fst_conv snd_conv by (rule refl)
  obtain b where b: "n = Some b" using assms by (auto simp: e split: option.splits)
  have "pred_option (\<lambda>x. calm (fst s) (fst x)) n"
    using calmly.do_parent_net_keeps [OF a] a by (auto simp: n_def split: option.split)
  then have "calm (fst s) (fst (free_futex ?os (sp_net_futex st) b))"
    using b by (intro calmly.free_futex_keeps) simp
  moreover obtain rf where rf: "sp_root_futex st = Some rf" using assms by (auto simp: e b Let_def split: option.splits)
  ultimately have w: "pred_option (\<lambda>x. calm (fst s) (fst (snd x)))
      (wait_root_ready ?os rf (sp_child st) (free_futex ?os (sp_net_futex st) b))"
    using calmly.wait_root_ready_keeps by blast
  obtain k c where c: "wait_root_ready ?os rf (sp_child st) (free_futex ?os (sp_net_futex st) b) = Some (k, c)"
    using assms by (auto simp: e b rf Let_def split: option.splits)
  define q where "q = (if k = 0 then remove_root ?os ?st c else (?st, c))"
  have f: "finish_child w (fst q) (free_futex ?os (sp_root_futex st) (snd q)) = Some (r, s')"
    using assms by (cases "k = 0") (simp_all add: e b rf c q_def remove_root_futex split_def Let_def)
  have "calm (fst s) (fst c)" using w c by simp
  then have "calm (fst s) (fst (free_futex ?os (sp_root_futex st) (snd q)))"
    by (auto simp: q_def intro!: calmly.free_futex_keeps calmly.remove_root_keeps)
  moreover have "same_start st ?st" by (simp add: same_start_def)
  then have "same_start st (fst q)" using remove_root_same by (auto simp: q_def)
  ultimately show ?thesis using f by blast
qed

lemma finish_child_removes:
  assumes "finish_child w st s = Some (r, s')" and own: "own_group x st" "own_root x st" "fst s = tr @ x"
  shows "\<exists>ext v. removed (sp_pidfile st) tr (x @ ext @ [(Waitpid (sp_child st), v)]) (fst s') \<and> tells v r \<and>
    (0 \<le> a_ret v \<or> a_errno v \<noteq> EINTR) \<and> 0 \<le> r \<and> r \<le> 255"
proof -
  obtain k status t where p: "pidwait (w_os w) (sp_child st) 0 s = Some ((k, status), t)"
    using assms by (auto simp: finish_child_def split: option.splits)
  obtain u where c: "cgroup_cleanup (w_os w) (sp_cg_pid st) (sp_cg_fs_type st) (unlink_pidfile (w_os w) (sp_pidfile st) t) = Some u"
    using assms by (auto simp: finish_child_def p split: option.splits)
  have r: "s' = snd (remove_root (w_os w) st u)" "r = (if k \<noteq> 0 then 1 else int (exit_code_from_status status))"
    using assms by (auto simp: finish_child_def p c split: prod.splits)
  obtain ext v where v: "fst t = fst s @ ext @ [(Waitpid (sp_child st), v)]" "decided v 0 (k, status)"
    using pidwait_steps [OF p] by blast
  let ?ext = "x @ ext @ [(Waitpid (sp_child st), v)]"
  have "removed (sp_pidfile st) tr ?ext (fst (snd (remove_root (w_os w) st u)))"
    by (rule unlink_then_tidy [OF c]) (use own own_more v(1) in auto)
  moreover have "0 \<le> r \<and> r \<le> 255" using exit_code_bound [of status] by (simp add: r(2))
  ultimately show ?thesis using decided_tells [OF v(2)] decided_whole [OF v(2)] r by blast
qed

lemma spawn_cleanup_removes:
  assumes "spawn_cleanup w st s = Some s'" and own: "own_group x st" "own_root x st" "fst s = tr @ x"
  shows "\<exists>ext. outside ext \<and> removed (sp_pidfile st) tr (x @ ext) (fst s')"
proof -
  let ?os = "w_os w"
  define t where "t = (let s = free_futex ?os (sp_root_futex st) (free_futex ?os (sp_net_futex st) s)
    in if 0 \<le> sp_pidfd st then close_pid ?os (sp_pidfd st) s else s)"
  obtain u where u: "cgroup_cleanup ?os (sp_cg_pid st) (sp_cg_fs_type st) (unlink_pidfile ?os (sp_pidfile st) t) = Some u"
      "s' = snd (remove_root ?os st u)"
    using assms(1) unfolding spawn_cleanup_def t_def Let_def by auto
  have "calm (fst s) (fst t)"
    by (auto simp: t_def Let_def intro!: calmly.close_pid_keeps calmly.free_futex_keeps)
  then obtain ext where "fst t = fst s @ ext" "outside ext" using calm_outside by blast
  moreover from this own(3) have "fst t = tr @ x @ ext" by simp
  note unlink_then_tidy [OF u(1) own_more(1) [OF own(1)] own_more(2) [OF own(2)] this]
  ultimately show ?thesis using u(2) by blast
qed

text \<open>The run of a start that has got its pid file, and both its ends.\<close>

definition start_ends :: "string \<Rightarrow> trace \<Rightarrow> trace \<Rightarrow> int \<Rightarrow> bool" where
  "start_ends p tr t r \<longleftrightarrow> (\<exists>ext. removed p tr ext t \<and>
     (r = -1 \<and> barren ext \<or>
      (\<exists>start child v. ext = start @ [(Waitpid child, v)] \<and> command_child start child \<and> tells v r \<and>
         (0 \<le> a_ret v \<or> a_errno v \<noteq> EINTR) \<and> 0 \<le> r \<and> r \<le> 255)))"

lemma failed_start_ends:
  assumes "spawn_cleanup w st s = Some s'" "set_up x k st" "k \<noteq> 0" "fst s = tr @ x"
  shows "start_ends (sp_pidfile st) tr (fst s') (-1)"
proof -
  have "own_group x st" "own_root x st" "barren x" using assms(2,3) set_up_root by (auto simp: set_up_def)
  then show ?thesis
    using spawn_cleanup_removes [OF assms(1) _ _ assms(4)] barren_more unfolding start_ends_def by blast
qed

lemma finished_start_ends:
  assumes "spawn_exec w st s = Some (r, s')" "set_up x 0 st" "fst s = tr @ x"
  shows "start_ends (sp_pidfile st) tr (fst s') r"
proof -
  obtain st1 s1 where f: "same_start st st1" "calm (fst s) (fst s1)" "finish_child w st1 s1 = Some (r, s')"
    using spawn_exec_finishes [OF assms(1)] by blast
  obtain y where y: "fst s1 = tr @ x @ y" using calm_outside [OF f(2)] assms(3) by auto
  have own: "own_group (x @ y) st1" "own_root (x @ y) st1"
    using same_start_own [OF f(1)] own_more assms(2) set_up_root [OF assms(2)] by (auto simp: set_up_def)
  have c: "command_child x (sp_child st)" using assms(2) begun_child by (auto simp: set_up_def)
  obtain ext v where v: "removed (sp_pidfile st1) tr ((x @ y) @ ext @ [(Waitpid (sp_child st1), v)]) (fst s')"
      "tells v r" "0 \<le> a_ret v \<or> a_errno v \<noteq> EINTR" "0 \<le> r \<and> r \<le> 255"
    using finish_child_removes [OF f(3) own y] by blast
  have st: "sp_child st1 = sp_child st" "sp_pidfile st1 = sp_pidfile st" using f(1) by (simp_all add: same_start_def)
  have "command_child (x @ y @ ext) (sp_child st)" using command_child_more [OF c, of "y @ ext"] by simp
  moreover have "removed (sp_pidfile st) tr ((x @ y @ ext) @ [(Waitpid (sp_child st), v)]) (fst s')"
    using v(1) by (simp add: st)
  ultimately show ?thesis using v(2-4) unfolding start_ends_def by blast
qed

lemma spawn_cage_ends:
  assumes run: "spawn_cage w cfg ruid z = Some (Inr r, z')"
    and lock: "create_pidfile (w_os w) (prep_pidfile cfg) (fst (fst z)) = (fd, s1)"
  shows "if fd < 0 then r = -1 \<and> fst (fst z') = s1 else start_ends (prep_pidfile cfg) (fst (fst (fst z))) (fst (fst (fst z'))) r"
proof (cases "fd < 0")
  case True
  then show ?thesis using run lock
    by (auto simp: spawn_cage_def spawn_init_def bindx_def Let_def spawn_st_init_def split: prod.splits)
next
  case False
  let ?st = "spawn_st_init\<lparr>sp_pidfile := prep_pidfile cfg, sp_pidfd := fd\<rparr>"
  let ?z = "((s1, snd (fst z)), snd z)" and ?tr = "fst (fst (fst z))"
  have i: "spawn_init w cfg ruid z = bindx (do_setup w cfg ?st ruid ?z) (\<lambda>(r, st) z.
       if r \<noteq> 0 then map_option (\<lambda>s. (Inr (-1, st), ((s, snd (fst z)), snd z))) (spawn_cleanup w st (fst (fst z)))
       else Some (Inr (0, st), z))"
    using False lock by (cases z; cases "fst z") (simp add: spawn_init_def Let_def)
  obtain k st y where y: "do_setup w cfg ?st ruid ?z = Some (Inr (k, st), y)"
    using run i by (auto simp: spawn_cage_def bindx_def split: option.splits sum.splits)
  have "\<exists>ext. fst (fst (fst y)) = fst s1 @ ext \<and> set_up ext k st \<and> sp_pidfile st = sp_pidfile ?st"
    using do_setup_steps [OF y] by (simp add: spawn_st_init_def)
  then obtain ext where ext: "fst (fst (fst y)) = fst s1 @ ext" "set_up ext k st" "sp_pidfile st = prep_pidfile cfg" by auto
  have "calm ?tr (fst s1)" using calmly.create_pidfile_keeps [OF calm_refl, of "fst (fst z)" "w_os w" "prep_pidfile cfg"] lock by simp
  then obtain x where x: "fst s1 = ?tr @ x" "outside x" using calm_outside by blast
  have t: "fst (fst (fst y)) = ?tr @ x @ ext" and u: "set_up (x @ ext) k st"
    using ext(1) x set_up_before [OF x(2) ext(2)] by simp_all
  have "start_ends (sp_pidfile st) ?tr (fst (fst (fst z'))) r"
  proof (cases "k = 0")
    case True
    then obtain s2 where s2: "spawn_exec w st (fst (fst y)) = Some (r, s2)" "z' = ((s2, snd (fst y)), snd y)"
      using run by (auto simp: spawn_cage_def i y bindx_def)
    show ?thesis using finished_start_ends [OF s2(1) _ t] u True s2(2) by simp
  next
    case no: False
    then obtain s2 where s2: "spawn_cleanup w st (fst (fst y)) = Some s2" "r = -1" "z' = ((s2, snd (fst y)), snd y)"
      using run by (cases "spawn_cleanup w st (fst (fst y))") (auto simp: spawn_cage_def i y bindx_def)
    show ?thesis using failed_start_ends [OF s2(1) u no t] s2(2,3) by simp
  qed
  then show ?thesis using False ext(3) by simp
qed



section \<open>The exit status\<close>

text \<open>
  \<open>verdict tr c r\<close>: the child \<open>c\<close> that runs the command was waited for, and the answer of the last wait gives the
  status \<open>r\<close>.  \<open>asked_only argv\<close>: the command line asks for nothing to be run, but for the program's files to be
  set right, its usage, its version or an instance to be stopped.
\<close>

fun is_wait :: "syscall \<Rightarrow> bool" where
  "is_wait (Waitpid p) = True"
| "is_wait c = False"

definition verdict :: "trace \<Rightarrow> int \<Rightarrow> int \<Rightarrow> bool" where
  "verdict tr c r \<longleftrightarrow> (\<exists>pre v post. tr = pre @ (Waitpid c, v) # post \<and> command_child pre c \<and>
     list_all (\<lambda>d. \<not> is_wait d) (calls post) \<and> tells v r)"

definition asked_only :: "string list \<Rightarrow> bool" where
  "asked_only argv \<longleftrightarrow> (length argv = 2 \<and> argv ! 1 = ''--fix'') \<or>
     (\<exists>cfg. cage_parse_args argv cage_config_init = (0, cfg) \<and> (cf_show_help cfg \<or> cf_show_version cfg \<or> cf_kill_mode cfg))"

text \<open>A part of the program that has run the command, or has failed before.\<close>

definition run_ends :: "trace \<Rightarrow> int \<Rightarrow> bool" where
  "run_ends tr r \<longleftrightarrow> 0 \<le> r \<and> r \<le> 255 \<and> (\<exists>c. verdict tr c r) \<or> r = -1 \<and> (\<forall>c. \<not> command_child tr c)"

lemma own_tidying_quiet: "own_tidying ext c \<Longrightarrow> \<not> enters c \<and> \<not> is_wait c"
  by (cases c) (auto simp: own_tidying_def)

lemma start_run_ends:
  assumes "start_ends p tr t r" "outside tr"
  shows "run_ends t r"
proof -
  obtain ext u post where e: "t = tr @ ext @ (Unlink p, u) # post" "list_all (own_tidying ext) (calls post)"
      "r = -1 \<and> barren ext \<or> (\<exists>start child v. ext = start @ [(Waitpid child, v)] \<and> command_child start child \<and> tells v r \<and>
         (0 \<le> a_ret v \<or> a_errno v \<noteq> EINTR) \<and> 0 \<le> r \<and> r \<le> 255)"
    using assms(1) unfolding start_ends_def removed_def by blast
  have q: "outside ((Unlink p, u) # post)" "list_all (\<lambda>d. \<not> is_wait d) (calls ((Unlink p, u) # post))"
    using e(2) own_tidying_quiet by (auto simp: outside_def calls_def list_all_iff)
  consider "r = -1" "barren ext"
    | start child v where "ext = start @ [(Waitpid child, v)]" "command_child start child" "tells v r" "0 \<le> r" "r \<le> 255"
    using e(3) by blast
  then show ?thesis
  proof cases
    case 1
    then show ?thesis
      using barren_none [OF barren_before [OF assms(2) barren_more [OF _ q(1)]]] e(1) by (simp add: run_ends_def)
  next
    case s: 2
    have "command_child (tr @ start) child" using s(2) by (rule command_child_before)
    moreover have "t = (tr @ start) @ (Waitpid child, v) # ((Unlink p, u) # post)" using e(1) s(1) by simp
    ultimately have "verdict t child r" unfolding verdict_def using q(2) s(3) by blast
    then show ?thesis using s(4,5) unfolding run_ends_def by blast
  qed
qed

text \<open>Joining: the namespace of process numbers is entered first, and the child is made after the others.\<close>

definition still :: "syscall \<Rightarrow> bool" where
  "still c \<longleftrightarrow> \<not> enters c \<and> \<not> is_fork c"

lemma join_ns_still: "ns_flag ns \<noteq> 0x20000000 \<Longrightarrow> adds still s (snd (join_ns os pid ns s))"
  by (simp add: join_ns_def psys_eq Let_def) (simp add: adds_def still_def calls_def)

lemma still_outside: "list_all still (calls x) \<Longrightarrow> outside x \<and> list_all (\<lambda>d. \<not> is_fork d) (calls x)"
  by (auto simp: still_def outside_def list_all_iff)

lemma join_pid_steps:
  assumes "join_ns os pid ''pid'' s = (r, t)"
  shows "\<exists>x. fst t = fst s @ x \<and> (r \<noteq> 0 \<and> list_all still (calls x) \<or>
    (\<exists>b a fd c. x = [b, (Ns (Setns fd 0x20000000), a), c] \<and> still (fst b) \<and> still (fst c) \<and> (r = 0 \<longleftrightarrow> a_ret a = 0)))"
proof -
  define path where "path = ''/proc/'' @ dec_int pid @ ''/ns/'' @ ''pid''"
  define b where "b = os (fst s) (Open path 524288)"
  define k where "k = Ns (Setns (a_ret b) 0x20000000)"
  define a where "a = os (fst s @ [(Open path 524288, b)]) k"
  define c where "c = os (fst s @ [(Open path 524288, b), (k, a)]) (Close (a_ret b))"
  have f: "ns_flag ''pid'' = 0x20000000" by (simp add: ns_flag_def CLONE_NEWPID_def)
  have "join_ns os pid ''pid'' s = (if 64 \<le> length path then (-1, s)
      else if a_ret b < 0 then (-1, (fst s @ [(Open path 524288, b)], snd s))
      else (if a_ret a \<noteq> 0 then -1 else 0, (fst s @ [(Open path 524288, b), (k, a), (Close (a_ret b), c)], snd s)))"
    unfolding join_ns_def f psys_eq Let_def path_def [symmetric] by (simp add: b_def k_def a_def c_def)
  then have "(r, t) = (if 64 \<le> length path then (-1, s)
      else if a_ret b < 0 then (-1, (fst s @ [(Open path 524288, b)], snd s))
      else (if a_ret a \<noteq> 0 then -1 else 0, (fst s @ [(Open path 524288, b), (k, a), (Close (a_ret b), c)], snd s)))"
    using assms by simp
  moreover have "still (Open path 524288)" "still (Close (a_ret b))" by (simp_all add: still_def)
  ultimately show ?thesis
    by (cases "64 \<le> length path \<or> a_ret b < 0") (auto simp: calls_def k_def still_def split: if_splits)
qed

lemma join_steps:
  assumes "join_namespaces os pid s = (r, t)" "outside (fst s)"
  shows "r \<noteq> 0 \<and> (\<forall>c. \<not> command_child (fst t) c) \<or>
    r = 0 \<and> (\<exists>p fd a x. fst t = p @ (Ns (Setns fd 0x20000000), a) # x \<and> a_ret a = 0 \<and> outside p \<and> list_all still (calls x))"
proof -
  obtain q u where u: "join_ns os pid ''pid'' s = (q, u)" by (metis prod.exhaust)
  have n: "ns_flag ''cgroup'' \<noteq> 0x20000000" "ns_flag ''net'' \<noteq> 0x20000000" "ns_flag ''mnt'' \<noteq> 0x20000000"
    by (simp_all add: ns_flag_def CLONE_NEWCGROUP_def CLONE_NEWNET_def CLONE_NEWNS_def)
  have z: "q = 0 \<Longrightarrow> adds still u t"
  proof -
    assume "q = 0"
    then have "t = snd (let (r, s) = join_ns os pid ''cgroup'' u in
        if r \<noteq> 0 then (-1, s)
        else let (r, s) = join_ns os pid ''net'' s in if r \<noteq> 0 then (-1, s) else join_ns os pid ''mnt'' s)"
      using assms(1) u by (simp add: join_namespaces_def)
    moreover have "adds still u (snd (let (r, s) = join_ns os pid ''cgroup'' u in
        if r \<noteq> 0 then (-1, s)
        else let (r, s) = join_ns os pid ''net'' s in if r \<noteq> 0 then (-1, s) else join_ns os pid ''mnt'' s))"
      unfolding Let_def by (intro adds_seq adds_if adds_done join_ns_still n)
    ultimately show ?thesis by simp
  qed
  have nz: "q \<noteq> 0 \<Longrightarrow> r = -1 \<and> t = u" using assms(1) u by (simp add: join_namespaces_def)
  obtain x where x: "fst u = fst s @ x" "q \<noteq> 0 \<and> list_all still (calls x) \<or>
    (\<exists>b a fd c. x = [b, (Ns (Setns fd 0x20000000), a), c] \<and> still (fst b) \<and> still (fst c) \<and> (q = 0 \<longleftrightarrow> a_ret a = 0))"
    using join_pid_steps [OF u] by blast
  show ?thesis using x(2)
  proof (elim disjE exE conjE)
    assume "q \<noteq> 0" "list_all still (calls x)"
    then show ?thesis using nz x(1) outside_none assms(2) still_outside by simp
  next
    fix b a fd c
    let ?k = "Ns (Setns fd 0x20000000)"
    assume b: "x = [b, (?k, a), c]" "still (fst b)" "still (fst c)" "(q = 0) = (a_ret a = 0)"
    have o: "outside (fst s @ [b])" using b(2) assms(2) by (simp add: still_def)
    show ?thesis
    proof (cases "q = 0")
      case False
      have t: "fst t = (fst s @ [b]) @ (?k, a) # [c]" using nz [OF False] x(1) b(1) by simp
      have "outside [c]" using b(3) by (simp add: still_def)
      then have "\<not> command_child (fst t) d" for d using entry_refused [OF o, of "[c]" a ?k d] b(4) False t by simp
      then show ?thesis using nz [OF False] by simp
    next
      case True
      obtain y where y: "fst t = fst u @ y" "list_all still (calls y)" using z [OF True] by (auto simp: adds_def)
      have t: "fst t = (fst s @ [b]) @ (?k, a) # (c # y)" using y(1) x(1) b(1) by simp
      have s: "list_all still (calls (c # y))" using y(2) b(3) by (simp add: calls_def)
      show ?thesis
      proof (cases "r = 0")
        case False
        have "\<not> command_child (fst t) d" for d
          unfolding t by (rule no_fork_after [OF o]) (use still_outside [OF s] in blast)+
        then show ?thesis using False by simp
      next
        case r: True
        then show ?thesis using t s o b(4) True by blast
      qed
    qed
  qed
qed

lemma spawn_existing_ends:
  assumes "spawn_existing w cfg pid ruid s = Some (Inr r, s')" "outside (fst s)"
  shows "run_ends (fst s') r"
proof -
  define root where "root = ''/proc/'' @ dec_int pid @ ''/root''"
  note E = assms(1) [unfolded spawn_existing_def Let_def, folded root_def]
  let ?c = "Chdir root"
  let ?a = "w_os w (fst s) ?c"
  let ?s1 = "(fst s @ [(?c, ?a)], snd s)"
  have s1: "outside (fst ?s1)" using assms(2) by simp
  obtain q t where j: "join_namespaces (w_os w) pid ?s1 = (q, t)" by (metis prod.exhaust)
  note J = join_steps [OF j s1]
  show ?thesis
  proof (cases "a_ret ?a = 0 \<and> q = 0")
    case False
    then have "r = -1 \<and> (s' = ?s1 \<or> s' = t \<and> q \<noteq> 0)" using E j by (auto simp: psys_eq split: if_splits)
    then show ?thesis using J outside_none [OF s1] by (auto simp: run_ends_def)
  next
    case True
    then obtain p fd a x where t: "fst t = p @ (Ns (Setns fd 0x20000000), a) # x" "a_ret a = 0" "outside p" "list_all still (calls x)"
      using J by blast
    note x = still_outside [OF t(4)]
    define f where "f = w_os w (fst t) Fork"
    define u where "u = (fst t @ [(Fork, f)], snd t)"
    have u: "fst u = p @ (Ns (Setns fd 0x20000000), a) # x @ [(Fork, f)]" by (simp add: u_def t(1))
    define inst where "inst = (if cf_graphical cfg then env_read_pid_environ w pid ?s1 else None)"
    have e: "spawn_existing w cfg pid ruid s = (if a_ret f < 0 then Some (Inr (-1), u)
        else if a_ret f = 0 then reuse_child w cfg ruid inst u
        else map_option (\<lambda>(r, s). (Inr r, s)) (wait_status (w_os w) (a_ret f) u))"
      using True j unfolding spawn_existing_def Let_def root_def [symmetric]
      by (simp add: psys_eq child_fork_def f_def [symmetric] u_def [symmetric] inst_def)
    note e = e [unfolded assms(1), symmetric]
    have n: "reuse_child w cfg ruid inst u \<noteq> Some (Inr r, s')" using reuse_child_trace by blast
    consider "a_ret f < 0" "r = -1" "s' = u" | "0 < a_ret f" "wait_status (w_os w) (a_ret f) u = Some (r, s')"
      using e n by (auto split: if_splits)
    then show ?thesis
    proof cases
      case 1
      have "\<not> command_child (fst u) c" for c
        using first_fork [OF t(3), of x f "[]" "Ns (Setns fd 0x20000000)" a c] x 1(1) u by auto
      then show ?thesis using 1 by (simp add: run_ends_def)
    next
      case 2
      obtain k status where w: "pidwait (w_os w) (a_ret f) 0 u = Some ((k, status), s')"
          "r = (if k \<noteq> 0 then 1 else int (exit_code_from_status status))"
        using 2(2) by (auto simp: wait_status_def)
      obtain ext v where v: "fst s' = fst u @ ext @ [(Waitpid (a_ret f), v)]" "decided v 0 (k, status)"
        using pidwait_steps [OF w(1)] by blast
      have "command_child (fst u) (a_ret f)"
        unfolding u by (rule command_childI) (use t(2) x 2(1) in simp_all)
      then have "command_child (fst u @ ext) (a_ret f)" by (rule command_child_more)
      moreover have "tells v r" using decided_tells [OF v(2)] w(2) by simp
      moreover have "fst s' = (fst u @ ext) @ (Waitpid (a_ret f), v) # []" using v(1) by simp
      moreover have "list_all (\<lambda>d. \<not> is_wait d) (calls [])" by (simp add: calls_def)
      ultimately have "verdict (fst s') (a_ret f) r" unfolding verdict_def by blast
      moreover have "0 \<le> r \<and> r \<le> 255" using exit_code_bound [of status] w(2) by simp
      ultimately show ?thesis unfolding run_ends_def by blast
    qed
  qed
qed

lemma do_spawn_ends:
  assumes "do_spawn w cfg ruid z = Some (Inr r, z')" "outside (fst (fst (fst z)))"
  shows "(\<exists>c. verdict (fst (fst (fst z'))) c r) \<and> 0 \<le> r \<and> r \<le> 255 \<or> r = 1 \<and> (\<forall>c. \<not> command_child (fst (fst (fst z'))) c)"
proof -
  obtain s m fs where z: "z = ((s, m), fs)" by (metis prod.exhaust)
  obtain old t where d: "detect_existing (w_os w) (w_files w) (cf_name cfg) (cf_pidfile cfg) s = (old, t)" by (metis prod.exhaust)
  have "calm (fst s) (fst t)"
    using calmly.detect_existing_keeps [OF calm_refl, of s "w_os w" "w_files w" "cf_name cfg" "cf_pidfile cfg"] d by simp
  then have t: "outside (fst t)" using calm_outside assms(2) by (fastforce simp: z)
  show ?thesis
  proof (cases "old < 0")
    case True
    then show ?thesis using assms(1) outside_none [OF t] by (auto simp: do_spawn_def z d Let_def)
  next
    case False
    let ?m = "if 0 < old then map_option (\<lambda>(r, s). (r, ((s, m), fs))) (spawn_existing w cfg old ruid t)
        else spawn_cage w cfg ruid ((t, m), fs)"
    have "bindx ?m (\<lambda>r z. Some (Inr (if r < 0 then 1 else r), z)) = Some (Inr r, z')"
      using assms(1) False by (simp add: do_spawn_def z d Let_def)
    then obtain x where x: "?m = Some (Inr x, z')" "r = (if x < 0 then 1 else x)" by (auto elim: bindx_valueE)
    have "run_ends (fst (fst (fst z'))) x"
    proof (cases "0 < old")
      case True
      then show ?thesis using x(1) spawn_existing_ends [OF _ t] by auto
    next
      case new: False
      then have c: "spawn_cage w cfg ruid ((t, m), fs) = Some (Inr x, z')" using x(1) by simp
      obtain fd s1 where l: "create_pidfile (w_os w) (prep_pidfile cfg) (fst (fst ((t, m), fs))) = (fd, s1)" by (metis prod.exhaust)
      show ?thesis
      proof (cases "fd < 0")
        case True
        have "calm (fst t) (fst s1)" using calmly.create_pidfile_keeps [OF calm_refl, of t "w_os w" "prep_pidfile cfg"] l by simp
        then have "outside (fst s1)" using calm_outside t by fastforce
        then show ?thesis using spawn_cage_ends [OF c l] True outside_none by (auto simp: run_ends_def)
      next
        case False
        then show ?thesis using spawn_cage_ends [OF c l] start_run_ends t by simp
      qed
    qed
    then show ?thesis using x(2) unfolding run_ends_def by auto
  qed
qed

lemma handle_fix_ends:
  assumes "handle_fix os argv s = (h, t)" "outside (fst s)"
  shows "outside (fst t) \<and> (h = -1 \<or> (h = 0 \<or> h = 1) \<and> asked_only argv)"
proof -
  have "calm (fst s) (fst t)" using calmly.handle_fix_keeps [OF calm_refl, of s os argv] assms(1) by simp
  then have "outside (fst t)" using calm_outside assms(2) by fastforce
  then show ?thesis using assms(1) by (auto simp: handle_fix_def asked_only_def split: if_splits prod.splits)
qed

lemma handle_config_exits_ends:
  assumes "handle_config_exits w cfg s = Some (r, t)" "outside (fst s)"
  shows "outside (fst t) \<and> (r = -1 \<or> (r = 0 \<or> r = 1) \<and> (cf_show_help cfg \<or> cf_show_version cfg \<or> cf_kill_mode cfg))"
proof -
  have "calm (fst s) (fst t)" using calm_option [OF calmly.handle_config_exits_keeps [OF calm_refl] assms(1)] by simp
  then have "outside (fst t)" using calm_outside assms(2) by fastforce
  then show ?thesis using assms(1) by (auto simp: handle_config_exits_def split: if_splits)
qed

definition main_ends :: "trace \<Rightarrow> string list \<Rightarrow> int \<Rightarrow> bool" where
  "main_ends tr argv r \<longleftrightarrow> 0 \<le> r \<and> r \<le> 255 \<and>
     ((\<exists>c. verdict tr c r) \<or> (\<forall>c. \<not> command_child tr c) \<and> (r = 1 \<or> r = 0 \<and> asked_only argv))"

lemma main_ends_early: "outside tr \<Longrightarrow> r = 1 \<or> r = 0 \<and> asked_only argv \<Longrightarrow> main_ends tr argv r"
  using outside_none by (auto simp: main_ends_def)

lemma do_spawn_main_ends: "do_spawn w cfg ruid z = Some (Inr r, z') \<Longrightarrow> outside (fst (fst (fst z))) \<Longrightarrow> main_ends (fst (fst (fst z'))) argv r"
  using do_spawn_ends unfolding main_ends_def by fastforce

lemma main_cage_ends:
  assumes "main_cage w argv z = Some (Inr r, z')" "outside (fst (fst (fst z)))"
  shows "main_ends (fst (fst (fst z'))) argv r"
proof -
  obtain s m fs where z: "z = ((s, m), fs)" by (metis prod.exhaust)
  obtain h t where h: "handle_fix (w_os w) argv s = (h, t)" by (metis prod.exhaust)
  have t: "outside (fst t)" "h = -1 \<or> (h = 0 \<or> h = 1) \<and> asked_only argv" using handle_fix_ends [OF h] assms(2) by (simp_all add: z)
  show ?thesis
  proof (cases "0 \<le> h")
    case True
    then have "z' = ((t, m), fs)" "r = h" using assms(1) by (auto simp: main_cage_def z h)
    then show ?thesis using t True by (intro main_ends_early) auto
  next
    case False
    let ?E = "map_option (\<lambda>(r, s). (r, ((s, m), fs))) (escalate w argv t)"
    let ?F = "\<lambda>(r, ruid) z. if r \<noteq> 0 then Some (Inr 1, z)
        else let (r, cfg) = cage_parse_args argv cage_config_init in
          if r \<noteq> 0 then Some (Inr 1, z)
          else (case handle_config_exits w cfg (fst (fst z)) of None \<Rightarrow> None
             | Some (r, s) \<Rightarrow> let z = ((s, snd (fst z)), snd z) in if 0 \<le> r then Some (Inr r, z)
                 else let (r, cfg) = prepare_run cfg in if r \<noteq> 0 then Some (Inr 1, z) else do_spawn w cfg ruid z)"
    have "bindx ?E ?F = Some (Inr r, z')" using assms False by (simp add: main_cage_def z h)
    then obtain e ruid y where e: "?E = Some (Inr (e, ruid), y)" "?F (e, ruid) y = Some (Inr r, z')"
      by (auto elim: bindx_valueE)
    obtain u where u: "escalate w argv t = Some (Inr (e, ruid), u)" "y = ((u, m), fs)" using e(1) by auto
    have "calm (fst t) (fst u)" using calm_option [OF calmly.escalate_keeps [OF calm_refl] u(1)] by simp
    then have y: "outside (fst u)" using calm_outside t(1) by fastforce
    obtain p cfg where p: "cage_parse_args argv cage_config_init = (p, cfg)" by (metis prod.exhaust)
    show ?thesis
    proof (cases "e = 0 \<and> p = 0")
      case False
      then have "r = 1" "z' = y" using e(2) by (auto simp: p split: if_splits)
      then show ?thesis using y u(2) by (intro main_ends_early) auto
    next
      case True
      then obtain x v where x: "handle_config_exits w cfg u = Some (x, v)"
        using e(2) u(2) by (auto simp: p split: option.splits)
      note X = handle_config_exits_ends [OF x y]
      obtain q cfg' where q: "prepare_run cfg = (q, cfg')" by (metis prod.exhaust)
      have r: "if 0 \<le> x then r = x \<and> z' = ((v, m), fs)
          else if q \<noteq> 0 then r = 1 \<and> z' = ((v, m), fs) else do_spawn w cfg' ruid ((v, m), fs) = Some (Inr r, z')"
        using e(2) True u(2) by (auto simp: p x q split: if_splits)
      have "asked_only argv" if "cf_show_help cfg \<or> cf_show_version cfg \<or> cf_kill_mode cfg"
        using that p True unfolding asked_only_def by blast
      then show ?thesis
        using r X main_ends_early [of "fst v" r argv] do_spawn_main_ends [of w cfg' ruid "((v, m), fs)" r z' argv]
        by (auto split: if_splits)
    qed
  qed
qed

text \<open>
  C10: the exit status of the program is what became of the command.  It is a byte value.  Either the child that
  runs the command has been made, as the first one after a namespace of process numbers had been entered with success,
  and has been waited for, and the status is what the answer of the last wait tells: the number that the command
  exited with, or 128 and the number of the signal that ended it, with a core file or without, as a shell
  reports it; 0 when there is no such child to wait for any more, and 1 after any other error that is no
  interruption.  Or no such child has been made, and the status is 1, or it is 0 and the command line
  asks for nothing to be run.
\<close>

theorem main_exit_status:
  assumes run: "main_cage w argv z = Some (Inr r, z')" and start: "fst (fst (fst z)) = []"
  shows "0 \<le> r \<and> r \<le> 255 \<and>
    ((\<exists>c. verdict (fst (fst (fst z'))) c r) \<or>
     (\<forall>c. \<not> command_child (fst (fst (fst z'))) c) \<and> (r = 1 \<or> r = 0 \<and> asked_only argv))"
  using main_cage_ends [OF run] start unfolding main_ends_def by simp

lemma main_exit_status_witness:
  "\<exists>z'. main_cage (joined_world 43) sh_argv ((([], io_cache0), mods0), \<lambda>_. None) = Some (Inr 7, z') \<and>
     (\<exists>c. verdict (fst (fst (fst z'))) c 7)"
proof -
  obtain z' where z': "main_cage (joined_world 43) sh_argv ((([], io_cache0), mods0), \<lambda>_. None) = Some (Inr 7, z')"
    using main_joined by blast
  show ?thesis using main_exit_status [OF z'] z' by auto
qed

end
