(* ===== verification/Spec2Isabelle.thy ===== *)
theory Spec2Isabelle
  imports Gzip Mem Ext4Image Ext4Read Env IoCache IoRead User Net NftSpec Launch Super IoAt MountSpec Proc ModSpec Ext4Fix Handshake RunSpec StartSpec
begin

text \<open>
  Verification library for micro-container, the program \<^verbatim>\<open>cage\<close>: a statically linked,
  single-shot Linux container without a daemon.  It becomes root, builds a root directory out of an
  overlay, bind mounts and a few generated files, starts a child in new namespaces that moves into that
  root, optionally gives it a network link and a control group, runs an init script as root and then a
  command as the chosen user, waits for it and cleans up; or it finds a running instance of the same name
  and joins or stops it.  Paths below are those of the repository.

  This theory only collects the others.  Every function of the implementation that does more than forward
  to the C library has a definition of the same name, in the order of its source file; the manifest maps
  each definition to its lines.  The properties of the manifest carry the mark C and a number in the text
  before them.


  THE PROGRAM AND ITS THEORIES

  The entry point and the course of a run.
  \<^item> \<open>Args\<close>: \<^verbatim>\<open>cli/args.c\<close>, with \<open>getopt_long\<close> as the C library defines it; the result is the record
    \<open>cage_config\<close>.  \<open>Vol\<close>: \<^verbatim>\<open>sandbox/vol.c\<close>, the host and target of a user volume.
  \<^item> \<open>Super\<close>: \<^verbatim>\<open>core/super.c\<close>, becoming root by the owner and mode of the binary or by \<^verbatim>\<open>sudo\<close>.
  \<^item> \<open>Cage\<close>: \<^verbatim>\<open>core/cage.c\<close> (\<open>spawn_cage\<close>: pid file, network, control group, root, child, waiting,
    clean-up), \<^verbatim>\<open>core/reuse.c\<close> (\<open>spawn_existing\<close>: joining) and \<^verbatim>\<open>main.c\<close> (\<open>main_cage\<close>).
  \<^item> \<open>Proc\<close>: \<^verbatim>\<open>core/proc.c\<close>, the pid file, waiting, stopping, and the namespaces of a running instance.
  \<^item> \<open>NsSetup\<close>: \<^verbatim>\<open>sandbox/nssetup.c\<close> and \<^verbatim>\<open>core/prep.c\<close>, making the root and forking the child;
    \<open>run_in_root\<close> is the whole course of the child.
  \<^item> \<open>Child\<close>: \<^verbatim>\<open>core/child.c\<close>, the child's steps.  \<open>Launch\<close>: \<^verbatim>\<open>core/launch.c\<close>, its last ones:
    giving up the identity and executing the command.
  \<^item> \<open>Handshake\<close>: the accesses of \<open>do_parent_net\<close> and \<open>do_child_net\<close> to the word they share, as two
    step relations \<open>parent_step\<close> and \<open>child_step\<close> and their interleaving \<open>hs_step\<close>.

  What the guest sees.
  \<^item> \<open>Mounts\<close>: \<^verbatim>\<open>sandbox/mount.c\<close>.  \<open>Overlay\<close>: \<^verbatim>\<open>sandbox/overlay.c\<close>.  \<open>Appdir\<close>:
    \<^verbatim>\<open>sandbox/appdir.c\<close>.  \<open>Setup\<close>: \<^verbatim>\<open>sandbox/setup.c\<close>.
  \<^item> \<open>Ext4Fix\<close>: \<^verbatim>\<open>sandbox/ext4fix.c\<close>, an ext4 image for application directories that cannot be an upper
    directory, attached by \<open>Loop\<close> (\<^verbatim>\<open>sandbox/loop.c\<close>).
  \<^item> \<open>Cgroup\<close> and \<open>CgroupEnter\<close>: \<^verbatim>\<open>sandbox/cgroup.c\<close>, \<^verbatim>\<open>cgroup_setup.c\<close>, \<^verbatim>\<open>cgroup_rmdir.c\<close>,
    \<^verbatim>\<open>cg_mount.c\<close>.
  \<^item> \<open>Gui\<close>, \<open>GuiSocks\<close> and \<open>Acl\<close>: \<^verbatim>\<open>sandbox/gui.c\<close>, \<^verbatim>\<open>gui_x11.c\<close>, \<^verbatim>\<open>gui_xdg.c\<close> and
    \<^verbatim>\<open>acl.c\<close>, sharing the sockets of the host's graphical session.
  \<^item> \<open>EnvMap\<close> and \<open>Env\<close>: \<^verbatim>\<open>util/env_map.c\<close> and \<^verbatim>\<open>util/env.c\<close>.  \<open>User\<close>: \<^verbatim>\<open>src/user\<close>.

  The network.
  \<^item> \<open>Netlink\<close>, \<open>Rtnl\<close>, \<open>Veth\<close>, \<open>Nft\<close>, \<open>Net\<close>: the files of those names under \<^verbatim>\<open>src/net\<close>: building and
    reading messages, links and addresses, choosing the number of a link, the NAT rule, the set-up of both ends.

  Kernel modules.
  \<^item> \<open>ModDeps\<close> and \<open>Modprobe\<close>: \<^verbatim>\<open>pkg/mod_format.c\<close>, \<^verbatim>\<open>resolve.c\<close> and \<^verbatim>\<open>modprobe.c\<close>;
    \<open>Modload\<close>: \<^verbatim>\<open>pkg/modload.c\<close>.

  Libraries of the program.
  \<^item> \<open>BitRead\<close>, \<open>Huffman\<close>, \<open>Inflate\<close>, \<open>Gzip\<close>: \<^verbatim>\<open>src/compress\<close>; \<open>Crc\<close>: \<^verbatim>\<open>compress/crc32.c\<close> and
    \<^verbatim>\<open>ext4/csum.c\<close>.
  \<^item> \<open>Ext4Util\<close>, \<open>Ext4Sb\<close>, \<open>Ext4\<close>: \<^verbatim>\<open>src/ext4\<close>, the writer of an empty file system.
  \<^item> \<open>Mem\<close>: \<^verbatim>\<open>util/mem.c\<close>.  \<open>IoCache\<close>, \<open>IoRead\<close>, \<open>IoFs\<close>, \<open>IoAt\<close>: \<^verbatim>\<open>util/io_cache.c\<close>, \<^verbatim>\<open>io_read.c\<close>,
    \<^verbatim>\<open>io.c\<close> and \<^verbatim>\<open>io_at.c\<close>.

  Vocabulary: \<open>Prelude\<close> (C strings and the string functions of the C library), \<open>Bytes\<close> (buffers and
  little-endian fields), \<open>Dec\<close> (decimal numbers), \<open>Os\<close> (system calls), \<open>Files\<close> (files read whole), \<open>Store\<close>
  (the contracts of look-up structures), \<open>IoCalls\<close> and \<open>NetCalls\<close> (which calls an operation makes).


  HOW THE CODE IS MODELLED

  \<^item> The system is a parameter.  \<open>syscall\<close> has a constructor per call; \<open>os\<close> gives the answer to a call,
    and may give any answer, depending on everything called before.  A function that makes calls extends a \<open>trace\<close> of
    calls and answers, so what it did, in which order and with which outcome is part of its value.  A property of a
    trace holds for every behaviour of the system, of other processes and of memory they share.
  \<^item> A file read whole is given by \<open>files\<close>: its bytes after a trace, and a schedule of short and failing
    reads.  The ext4 writer works on a \<open>disk\<close>, whose transfers may be short or fail at any point.  The
    record \<open>world\<close> collects these parameters, the user and group databases and the environment.
  \<^item> State is passed explicitly: \<open>pst\<close> is the trace with the existence cache, \<open>mst\<close> adds the buffers of
    \<^verbatim>\<open>modprobe.c\<close> and \<^verbatim>\<open>resolve.c\<close>, \<open>fst_state\<close> the image files.  The other state is that of a
    record: \<open>br\<close>, \<open>huff\<close>, \<open>env_map\<close>, \<open>mkfs\<close>, \<open>gui_ctx\<close>, \<open>spawn_st\<close>.
  \<^item> \<open>fork\<close> continues with either answer: a run in which it answers 0 is that of the child.  Only the child that
    becomes a filter for a compressed module is a definition of its own, \<open>exec_filter\<close>, beside its parent \<open>spawn_filter\<close>.  Where a function
    may leave the process its result has type \<open>run\<close>, in which \<open>Inl\<close> is the exit code; \<open>execve\<close>
    that succeeds is an answer after which the trace still goes on, with what the code does when it fails.
  \<^item> Errors are the numbers the code returns, or an option where it returns a pointer.  Out-parameters are part of
    the result.  Machine integers that can wrap are words (\<open>u32\<close>, \<open>u64\<close>); other numbers are \<open>int\<close> or \<open>nat\<close>.
    The host is little-endian with 64-bit pointers, and constants are those of Linux.
  \<^item> Fixed buffers are modelled with their sizes where the code depends on them: paths of 4096 and 64 bytes, messages
    of 64, 256, 512, 768, 1024 and 16384 bytes, 256 volumes and variables, a cache of bounded size.

  Loops.  Recursion is structural or has a termination proof, so these functions are total; no fuel is used
  anywhere.  Nine loops of the code can run for ever and are partial functions, for which \<open>None\<close> means that the code does
  not return: the two probing loops of a full environment map, writing to a memory file and reading from a
  decompressor, draining a netlink socket, waiting for a process (three loops), and removing a tree of
  control groups.  Properties that are about an outcome have that outcome as a hypothesis, and where the
  code promises to return it is stated (decompression, parsing, messages and image writing are total; \<open>env_map_ok\<close>
  keeps an empty slot; the handshake ends within ten steps once the child has announced itself).


  WHAT THE LEMMAS SHOW

  \<^item> The whole program (\<open>TraceInv\<close>, \<open>RunSpec\<close>): a property of traces that only \<open>execve\<close> could destroy is kept by every
    function up to the entry into the root; so in every run of \<open>main_cage\<close> a command of the guest is executed only after a
    \<open>chroot\<close> into a root made by this run, or that of the instance whose pid was read from the pid file under its lock.
  \<^item> The guest's isolation (\<open>CageSpec\<close>, \<open>MountSpec\<close>, \<open>GuiSpec\<close>, \<open>MainSpec\<close>, \<open>Launch\<close>, \<open>IoAt\<close>): whatever the system
    answers, mounts lie under the guest's root, nothing is executed before that root has been entered, the command
    runs only after groups, group and user have been given up with success, and so when an instance is joined.
    Operations relative to a directory do not follow links out of it.
  \<^item> The life of an instance (\<open>StartSpec\<close>, \<open>Proc\<close>, \<open>CgroupEnter\<close>, \<open>IoFs\<close>, \<open>Super\<close>): the pid file is removed
    on every way out, and after it only what the start has made itself, its control group by the number of \<open>getpid\<close> and
    the directory of its \<open>mkdtemp\<close>; only the recorded process is signalled; the exit status is that of the one child
    that runs the command, as a shell reports it, against a description of how processes end.
  \<^item> The handshake (\<open>Handshake\<close>): an invariant of the interleaving, the order of the two configurations, and that it
    ends.
  \<^item> Decompression (\<open>BitRead\<close> to \<open>Gzip\<close>): the bit reader refines a list of bits, the tables decode every
    canonical code, compressed and stored blocks decode to their tokens, accepted files carry the right
    length and CRC, and well-formed files are decompressed.  \<open>ModSpec\<close> composes this with loading a module.
  \<^item> The image (\<open>Ext4Layout\<close>, \<open>Ext4Image\<close>, \<open>Ext4Read\<close>): free counts agree with the bitmaps, every checksum of the written
    image is valid by a bit-serial reference, and a reader of the format finds in it a root directory with the entries
    it should have.  \<open>Ext4Fix\<close>: an image appears under its name only when it is complete.
  \<^item> Messages (\<open>NetlinkSpec\<close>, \<open>NetDump\<close>, \<open>Rtnl\<close>, \<open>Veth\<close>, \<open>NftSpec\<close>): the builders write the intended bytes within their
    buffers, the walks find exactly the attributes and messages, in any split into datagrams, the NAT batch is
    the planned one and its result is the kernel's first error.
  \<^item> Data (\<open>EnvMap\<close>, \<open>Env\<close>, \<open>IoCache\<close>, \<open>User\<close>, \<open>Mem\<close>, \<open>Overlay\<close>, \<open>Args\<close>): the environment map refines a finite map,
    the cache answers as the file system does, groups are sorted and complete, numbers and options survive
    a round trip, any spelling of the options gives the same configuration.

  Interfaces.  \<open>bit_source\<close> (what the decoder needs of a reader) is interpreted on the bit reader; \<open>store\<close> on the
  existence cache and its extension \<open>kv_map\<close> on the environment map.  \<open>call_policy\<close> says that a set of calls
  contains those of the file-system operations, and gives that those operations make only calls of the set; \<open>net_policy\<close>
  extends it by the socket calls.  They are interpreted on the calls that execute nothing, mount nothing,
  signal nothing, stay confined to the guest's root, and on all calls.  \<open>trace_inv\<close>, what only some calls can destroy,
  is interpreted in \<open>StartSpec\<close> on traces that enter no namespace; its extension \<open>entry_inv\<close> on what \<open>RunSpec\<close>
  knows of a trace: every execution in it was inside a root, and given calls have been made.


  NOT MODELLED

  \<^item> The wrappers of \<^verbatim>\<open>util/syscall.c\<close> and the \<open>sys_\<close> and weak aliases elsewhere only forward to the C library so
    that tests can replace them; a call of one is a constructor of \<open>syscall\<close>.  The one with steps of its own,
    \<open>sys_open_rdonly\<close>, is modelled in \<open>Acl\<close>.
  \<^item> The allocator of \<^verbatim>\<open>util/mem.c\<close> forwards to \<open>malloc\<close> and leaves the process when memory is exhausted.
    Memory is taken as available, except where the code goes on after a failure of its own (the growth of the
    environment map, \<open>calloc\<close> of the image writer), where the outcome is a parameter.
  \<^item> Printed messages, usage and version texts.
  \<^item> The build, the tests with their mocks, the manual page and the documents.
  \<^item> What the kernel does with a call, the C library's databases, and the programs that are executed.
\<close>

end
